(* ===== verification/Rel4_Prelude.thy ===== *)
theory Rel4_Prelude
  imports Main "HOL-Library.Word" "HOL-Library.Monad_Syntax"
begin

unbundle bit_operations_syntax

text \<open>
  Shared vocabulary of the development: the machine integer types of the kernel, the
  bit-field operations its packed words are read and written with, and the one-word
  encoding of optional object handles.

  The build that is modelled is the release profile of the RISC-V kernel
  (\<open>overflow-checks = false\<close> in \<^verbatim>\<open>Cargo.toml\<close>): integer arithmetic wraps, a shift amount is
  taken modulo the width of the shifted word, and a \<^verbatim>\<open>debug_assert!\<close> is not compiled.
  A kernel operation that may panic, or that may loop for ever on a corrupted list, returns an
  \<open>option\<close>: \<open>None\<close> says that it does not return.
\<close>

section \<open>Machine integers\<close>

type_synonym u8 = "8 word"
type_synonym u16 = "16 word"
type_synonym u32 = "32 word"
type_synonym u64 = "64 word"

text \<open>Shifts by a run-time amount, with the amount reduced modulo the width.\<close>

definition shl64 :: "u64 \<Rightarrow> nat \<Rightarrow> u64" where
  "shl64 x n = push_bit (n mod 64) x"

definition shr64 :: "u64 \<Rightarrow> nat \<Rightarrow> u64" where
  "shr64 x n = drop_bit (n mod 64) x"

definition saturating_add64 :: "u64 \<Rightarrow> u64 \<Rightarrow> u64" where
  "saturating_add64 a b = (if unat a + unat b < 2 ^ 64 then a + b else - 1)"

definition saturating_sub64 :: "u64 \<Rightarrow> u64 \<Rightarrow> u64" where
  "saturating_sub64 a b = (if b \<le> a then a - b else 0)"

text \<open>For evaluation, the overflow test without natural numbers.\<close>

lemma saturating_add64_code [code]: "saturating_add64 a b = (if a \<le> a + b then a + b else - 1)"
  using unsigned_less [of b, where ?'a = nat]
  by (auto simp: saturating_add64_def word_le_nat_alt unat_plus_if' split: if_splits)

lemma shl64_small [simp]: "n < 64 \<Longrightarrow> shl64 x n = push_bit n x"
  by (simp add: shl64_def)

lemma shr64_small [simp]: "n < 64 \<Longrightarrow> shr64 x n = drop_bit n x"
  by (simp add: shr64_def)

section \<open>Bit fields of a packed word\<close>

text \<open>
  The kernel's packed words are read with \<open>(w >> s) & mask\<close>, built with
  \<open>(v & mask) << s\<close> and cleared with \<open>w & !(mask << s)\<close>, where the mask is a literal of
  \<open>m\<close> ones. The three operations are named by the position \<open>s\<close> and the width \<open>m\<close> of
  the field.
\<close>

named_theorems bf_simps \<open>reading a bit field of a word built from bit fields\<close>

definition bits_get :: "nat \<Rightarrow> nat \<Rightarrow> u64 \<Rightarrow> u64" where
  "bits_get s m w = drop_bit s w AND mask m"

definition bits_put :: "nat \<Rightarrow> nat \<Rightarrow> u64 \<Rightarrow> u64" where
  "bits_put s m v = push_bit s (v AND mask m)"

definition bits_clear :: "nat \<Rightarrow> nat \<Rightarrow> u64 \<Rightarrow> u64" where
  "bits_clear s m w = w AND NOT (push_bit s (mask m))"

text \<open>The literals of the source are such masks.\<close>

lemma mask_literals:
  "mask 5 = (0x1F :: u64)" "mask 6 = (0x3F :: u64)" "mask 7 = (0x7F :: u64)"
  "mask 12 = (0xFFF :: u64)" "mask 16 = (0xFFFF :: u64)"
  "mask 37 = (0x1FFFFFFFFF :: u64)" "mask 38 = (0x3FFFFFFFFF :: u64)"
  "mask 39 = (0x7FFFFFFFFF :: u64)" "mask 52 = (0xFFFFFFFFFFFFF :: u64)"
  "mask 64 = (- 1 :: u64)"
  by (simp_all add: mask_eq_exp_minus_1)

lemma bits_get_or [bf_simps]: "bits_get s m (a OR b) = bits_get s m a OR bits_get s m b"
  by (rule bit_word_eqI) (auto simp: bits_get_def bit_simps)

lemma bits_get_put [bf_simps]: "s + m \<le> 64 \<Longrightarrow> bits_get s m (bits_put s m v) = v AND mask m"
  by (rule bit_word_eqI) (auto simp: bits_get_def bits_put_def bit_simps)

lemma bits_get_put_disjoint [bf_simps]:
  "s + m \<le> t \<Longrightarrow> bits_get s m (bits_put t k v) = 0"
  "t + k \<le> s \<Longrightarrow> bits_get s m (bits_put t k v) = 0"
  by (rule bit_word_eqI; auto simp: bits_get_def bits_put_def bit_simps)+

lemma bits_get_put_high [bf_simps]:
  "t \<le> s \<Longrightarrow> s + m \<le> t + k \<Longrightarrow> s + m \<le> 64 \<Longrightarrow>
   bits_get s m (bits_put t k v) = bits_get (s - t) m v"
  by (rule bit_word_eqI) (auto simp: bits_get_def bits_put_def bit_simps)

lemma bits_get_clear [bf_simps]:
  "t \<le> s \<Longrightarrow> s + m \<le> t + k \<Longrightarrow> bits_get s m (bits_clear t k w) = 0"
  by (rule bit_word_eqI) (auto simp: bits_get_def bits_clear_def bit_simps)

lemma bits_get_clear_disjoint [bf_simps]:
  "s + m \<le> t \<Longrightarrow> bits_get s m (bits_clear t k w) = bits_get s m w"
  "t + k \<le> s \<Longrightarrow> bits_get s m (bits_clear t k w) = bits_get s m w"
  by (rule bit_word_eqI; auto simp: bits_get_def bits_clear_def bit_simps dest: bit_imp_le_length)+

lemma bits_get_zero [bf_simps]: "bits_get s m 0 = 0"
  by (simp add: bits_get_def)

lemma bits_put_zero [bf_simps]: "bits_put s m 0 = 0"
  by (simp add: bits_put_def)

lemma bits_get_full [bf_simps]: "bits_get 0 64 w = w"
  by (rule bit_word_eqI) (auto simp: bits_get_def bit_simps)

lemma bits_get_mask [bf_simps]: "k \<le> m \<Longrightarrow> bits_get 0 m (w AND mask k) = w AND mask k"
  by (rule bit_word_eqI) (auto simp: bits_get_def bit_simps)

lemma bits_get_idem [bf_simps]: "bits_get s m w AND mask m = bits_get s m w"
  by (rule bit_word_eqI) (auto simp: bits_get_def bit_simps)

lemma of_bool_and_mask [bf_simps]: "0 < m \<Longrightarrow> (of_bool b :: u64) AND mask m = of_bool b"
  by (cases b) (auto intro!: bit_word_eqI simp: bit_simps)

lemma one_and_mask [bf_simps]: "0 < m \<Longrightarrow> (1 :: u64) AND mask m = 1"
  by (auto intro!: bit_word_eqI simp: bit_simps)

lemma unat64_less: "unat (w :: u64) < 18446744073709551616"
  using unsigned_less [of w, where ?'a = nat] by simp

lemma word_and_mask_small: "unat (v :: u64) < 2 ^ m \<Longrightarrow> v AND mask m = v"
  by (metis take_bit_eq_mask take_bit_nat_eq_self_iff unsigned_take_bit_eq word_unat_eq_iff)

lemma unat_and_mask_less: "m < 64 \<Longrightarrow> unat ((v :: u64) AND mask m) < 2 ^ m"
  by (metis take_bit_eq_mask take_bit_nat_less_exp unsigned_take_bit_eq)

lemma unat_bits_get_less: "m < 64 \<Longrightarrow> unat (bits_get s m w) < 2 ^ m"
  by (simp add: bits_get_def unat_and_mask_less)

text \<open>Setting one field of a word: the field reads back, every disjoint field is untouched.\<close>

definition bits_set :: "nat \<Rightarrow> nat \<Rightarrow> u64 \<Rightarrow> u64 \<Rightarrow> u64" where
  "bits_set s m v w = bits_clear s m w OR bits_put s m v"

lemma bits_get_set [bf_simps]:
  "s + m \<le> 64 \<Longrightarrow> bits_get s m (bits_set s m v w) = v AND mask m"
  by (simp add: bits_set_def bf_simps)

lemma bits_get_set_disjoint [bf_simps]:
  "s + m \<le> t \<Longrightarrow> bits_get s m (bits_set t k v w) = bits_get s m w"
  "t + k \<le> s \<Longrightarrow> bits_get s m (bits_set t k v w) = bits_get s m w"
  by (simp_all add: bits_set_def bf_simps)

section \<open>Optional object handles\<close>

text \<open>
  An \<^verbatim>\<open>ObjRef\<close> is a non-null kernel address and \<^verbatim>\<open>Option<ObjRef>\<close> occupies one word, with
  address zero for \<^verbatim>\<open>None\<close> (\<^verbatim>\<open>kernel/src/ktypes/objref.rs\<close>).
\<close>

definition from_kva :: "u64 \<Rightarrow> u64 option" where
  "from_kva kva = (if kva = 0 then None else Some kva)"

definition kva_or_zero :: "u64 option \<Rightarrow> u64" where
  "kva_or_zero r = (case r of Some a \<Rightarrow> a | None \<Rightarrow> 0)"

lemma from_kva_zero [simp]: "from_kva 0 = None"
  by (simp add: from_kva_def)

lemma from_kva_nonzero [simp]: "a \<noteq> 0 \<Longrightarrow> from_kva a = Some a"
  by (simp add: from_kva_def)

lemma kva_or_zero_simps [simp]: "kva_or_zero None = 0" "kva_or_zero (Some a) = a"
  by (simp_all add: kva_or_zero_def)

lemma from_kva_kva_or_zero: "r \<noteq> Some 0 \<Longrightarrow> from_kva (kva_or_zero r) = r"
  by (cases r) (auto simp: from_kva_def)

lemma kva_or_zero_from_kva [simp]: "kva_or_zero (from_kva a) = a"
  by (simp add: from_kva_def)

lemma from_kva_eq_Some: "from_kva a = Some b \<longleftrightarrow> a = b \<and> b \<noteq> 0"
  by (auto simp: from_kva_def)

lemma from_kva_eq_None: "from_kva a = None \<longleftrightarrow> a = 0"
  by (simp add: from_kva_def)

text \<open>\<^verbatim>\<open>ObjArray::get\<close>: element \<open>i\<close> of a run of \<open>len\<close> objects of \<open>sz\<close> bytes each.\<close>

definition objarray_get :: "u64 \<Rightarrow> nat \<Rightarrow> nat \<Rightarrow> nat \<Rightarrow> u64 option" where
  "objarray_get base sz len i =
     (if len \<le> i then None else from_kva (base + of_nat (i * sz)))"

lemma unat_drop_bit: "unat (drop_bit n (w :: u64)) = unat w div 2 ^ n"
  using unsigned_less [of w, where ?'a = nat]
  by (simp add: unsigned_drop_bit_eq take_bit_nat_eq_self flip: drop_bit_eq_div)

lemma unat_two_power: "n < 64 \<Longrightarrow> unat (2 ^ n :: u64) = 2 ^ n"
proof -
  assume n: "n < 64"
  have "(2 ^ n :: nat) < 2 ^ 64" using n by (intro power_strict_increasing) simp_all
  then have "unat (of_nat (2 ^ n) :: u64) = 2 ^ n" by (simp only: unat_of_nat mod_less) simp
  then show ?thesis by simp
qed

section \<open>Address space layout\<close>

text \<open>The kernel's window onto physical memory and its own image (\<^verbatim>\<open>abi/constants.rs\<close>).\<close>

definition PPTR_BASE :: u64 where "PPTR_BASE = 0xFFFFFFC000000000"
definition PPTR_TOP :: u64 where "PPTR_TOP = 0xFFFFFFFF80000000"
definition PHYS_BASE_RAW :: u64 where "PHYS_BASE_RAW = 0x80200000"
definition KERNEL_ELF_BASE :: u64 where "KERNEL_ELF_BASE = PPTR_TOP + (PHYS_BASE_RAW AND (push_bit 30 1 - 1))"
definition PADDR_BASE :: u64 where "PADDR_BASE = 0"
definition PT_INDEX_BITS :: nat where "PT_INDEX_BITS = 9"

end
