(* ===== verification/Rel4_Cap.thy ===== *)
theory Rel4_Cap
  imports Rel4_Prelude
begin

text \<open>
  The packed two-word capability of \<^verbatim>\<open>kernel/src/object/cap.rs\<close>: its tag, the constructors,
  the field accessors and setters of every kind of capability, and the typed object handles
  decoded from it. The lemmas show that every field reads back what the constructor was given
  (pointers when they are canonical 39-bit addresses, which every kernel-window address is)
  and that a setter changes its own field only.
\<close>

section \<open>Pointers in capabilities\<close>

definition SIGN_EXT_MASK :: u64 where "SIGN_EXT_MASK = 0xFFFFFF8000000000"
definition PTR_LOW_MASK :: u64 where "PTR_LOW_MASK = 0x7FFFFFFFFF"
definition ZOMBIE_TYPE_TCB :: u64 where "ZOMBIE_TYPE_TCB = push_bit 6 1"
definition TCB_CNODE_RADIX :: u64 where "TCB_CNODE_RADIX = 4"

definition FRAME_SIZE_4K :: u64 where "FRAME_SIZE_4K = 0"
definition FRAME_SIZE_MEGAPAGE :: u64 where "FRAME_SIZE_MEGAPAGE = 1"
definition FRAME_SIZE_GIGAPAGE :: u64 where "FRAME_SIZE_GIGAPAGE = 2"
definition FRAME_RIGHTS_KERNEL_ONLY :: u64 where "FRAME_RIGHTS_KERNEL_ONLY = 1"
definition FRAME_RIGHTS_READ_ONLY :: u64 where "FRAME_RIGHTS_READ_ONLY = 2"
definition FRAME_RIGHTS_READ_WRITE :: u64 where "FRAME_RIGHTS_READ_WRITE = 3"

definition ptr_low :: "u64 \<Rightarrow> u64" where
  "ptr_low ptr = ptr AND PTR_LOW_MASK"

definition sign_extend_ptr :: "u64 \<Rightarrow> u64" where
  "sign_extend_ptr low39 =
     (if low39 AND push_bit 38 1 \<noteq> 0 then low39 OR SIGN_EXT_MASK else low39)"

definition low_mask :: "u64 \<Rightarrow> u64" where
  "low_mask bits = (if 64 \<le> bits then - 1 else push_bit (unat bits) 1 - 1)"

section \<open>The capability word pair\<close>

datatype cap_tag =
    TagNull | TagFrame | TagUntyped | TagPageTable | TagEndpoint | TagNotification | TagReply
  | TagCNode | TagAsidControl | TagThread | TagAsidPool | TagIrqControl | TagIrqHandler
  | TagZombie | TagDomain | TagIoPortControl | TagIoPort

fun tag_code :: "cap_tag \<Rightarrow> u64" where
  "tag_code TagNull = 0"
| "tag_code TagFrame = 1"
| "tag_code TagUntyped = 2"
| "tag_code TagPageTable = 3"
| "tag_code TagEndpoint = 4"
| "tag_code TagNotification = 6"
| "tag_code TagReply = 8"
| "tag_code TagCNode = 10"
| "tag_code TagAsidControl = 11"
| "tag_code TagThread = 12"
| "tag_code TagAsidPool = 13"
| "tag_code TagIrqControl = 14"
| "tag_code TagIrqHandler = 16"
| "tag_code TagZombie = 18"
| "tag_code TagDomain = 20"
| "tag_code TagIoPortControl = 22"
| "tag_code TagIoPort = 23"

definition cap_tag_from_u64 :: "u64 \<Rightarrow> cap_tag option" where
  "cap_tag_from_u64 v =
     (if v = 0 then Some TagNull
      else if v = 1 then Some TagFrame
      else if v = 2 then Some TagUntyped
      else if v = 3 then Some TagPageTable
      else if v = 4 then Some TagEndpoint
      else if v = 6 then Some TagNotification
      else if v = 8 then Some TagReply
      else if v = 10 then Some TagCNode
      else if v = 11 then Some TagAsidControl
      else if v = 12 then Some TagThread
      else if v = 13 then Some TagAsidPool
      else if v = 14 then Some TagIrqControl
      else if v = 16 then Some TagIrqHandler
      else if v = 18 then Some TagZombie
      else if v = 20 then Some TagDomain
      else if v = 22 then Some TagIoPortControl
      else if v = 23 then Some TagIoPort
      else None)"

record cap =
  words0 :: u64
  words1 :: u64

definition null_cap :: cap where
  "null_cap = \<lparr> words0 = 0, words1 = 0 \<rparr>"

definition tag_raw :: "cap \<Rightarrow> u64" where
  "tag_raw c = bits_get 59 5 (words0 c)"

definition tag :: "cap \<Rightarrow> cap_tag option" where
  "tag c = cap_tag_from_u64 (tag_raw c)"

definition is_null :: "cap \<Rightarrow> bool" where
  "is_null c \<longleftrightarrow> tag_raw c = tag_code TagNull"

text \<open>\<open>(CapTag::T as u64) << 59\<close>, the tag field of every constructor.\<close>

definition tag_word :: "cap_tag \<Rightarrow> u64" where
  "tag_word t = push_bit 59 (tag_code t)"

subsection \<open>Untyped\<close>

definition new_untyped :: "u64 \<Rightarrow> u64 \<Rightarrow> u64 \<Rightarrow> bool \<Rightarrow> cap" where
  "new_untyped ptr block_size_bits free_index is_device =
     \<lparr> words0 = tag_word TagUntyped OR ptr_low ptr,
       words1 = bits_put 25 39 free_index OR bits_put 6 1 (of_bool is_device)
                OR bits_put 0 6 block_size_bits \<rparr>"

definition untyped_ptr :: "cap \<Rightarrow> u64" where
  "untyped_ptr c = sign_extend_ptr (bits_get 0 39 (words0 c))"

definition untyped_block_size_bits :: "cap \<Rightarrow> u64" where
  "untyped_block_size_bits c = bits_get 0 6 (words1 c)"

definition untyped_is_device :: "cap \<Rightarrow> bool" where
  "untyped_is_device c \<longleftrightarrow> bits_get 6 1 (words1 c) \<noteq> 0"

definition untyped_free_index :: "cap \<Rightarrow> u64" where
  "untyped_free_index c = bits_get 25 39 (words1 c)"

definition set_untyped_free_index :: "u64 \<Rightarrow> cap \<Rightarrow> cap" where
  "set_untyped_free_index v c = c\<lparr> words1 := bits_set 25 39 v (words1 c) \<rparr>"

subsection \<open>CNode and thread\<close>

definition new_cnode :: "u64 \<Rightarrow> u64 \<Rightarrow> u64 \<Rightarrow> u64 \<Rightarrow> cap" where
  "new_cnode ptr radix guard guard_size =
     \<lparr> words0 = tag_word TagCNode OR bits_put 53 6 guard_size OR bits_put 47 6 radix
                OR bits_put 0 38 (drop_bit 1 (ptr_low ptr)),
       words1 = guard \<rparr>"

definition cnode_radix :: "cap \<Rightarrow> u64" where
  "cnode_radix c = bits_get 47 6 (words0 c)"

definition cnode_guard_size :: "cap \<Rightarrow> u64" where
  "cnode_guard_size c = bits_get 53 6 (words0 c)"

definition cnode_guard :: "cap \<Rightarrow> u64" where
  "cnode_guard c = words1 c"

definition cnode_ptr :: "cap \<Rightarrow> u64" where
  "cnode_ptr c = sign_extend_ptr (push_bit 1 (bits_get 0 38 (words0 c)))"

definition new_thread :: "u64 \<Rightarrow> cap" where
  "new_thread ptr = \<lparr> words0 = tag_word TagThread OR ptr_low ptr, words1 = 0 \<rparr>"

definition thread_ptr :: "cap \<Rightarrow> u64" where
  "thread_ptr c = sign_extend_ptr (bits_get 0 39 (words0 c))"

definition new_domain :: cap where
  "new_domain = \<lparr> words0 = tag_word TagDomain, words1 = 0 \<rparr>"

definition new_irq_control :: cap where
  "new_irq_control = \<lparr> words0 = tag_word TagIrqControl, words1 = 0 \<rparr>"

subsection \<open>Zombie\<close>

definition new_cnode_zombie :: "u64 \<Rightarrow> u64 \<Rightarrow> u64 \<Rightarrow> cap" where
  "new_cnode_zombie number radix ptr =
     (let msk = low_mask (radix + 1) in
      \<lparr> words0 = tag_word TagZombie OR bits_put 0 7 radix,
        words1 = (ptr AND NOT msk) OR (number AND msk) \<rparr>)"

definition new_tcb_zombie :: "u64 \<Rightarrow> u64 \<Rightarrow> cap" where
  "new_tcb_zombie number ptr =
     (let msk = low_mask (TCB_CNODE_RADIX + 1) in
      \<lparr> words0 = tag_word TagZombie OR ZOMBIE_TYPE_TCB,
        words1 = (ptr AND NOT msk) OR (number AND msk) \<rparr>)"

definition zombie_id :: "cap \<Rightarrow> u64" where
  "zombie_id c = words1 c"

definition zombie_type :: "cap \<Rightarrow> u64" where
  "zombie_type c = bits_get 0 7 (words0 c)"

definition zombie_is_tcb :: "cap \<Rightarrow> bool" where
  "zombie_is_tcb c \<longleftrightarrow> zombie_type c = ZOMBIE_TYPE_TCB"

definition zombie_bits :: "cap \<Rightarrow> u64" where
  "zombie_bits c = (if zombie_is_tcb c then TCB_CNODE_RADIX else zombie_type c)"

definition zombie_number :: "cap \<Rightarrow> u64" where
  "zombie_number c = zombie_id c AND low_mask (zombie_bits c + 1)"

definition zombie_ptr :: "cap \<Rightarrow> u64" where
  "zombie_ptr c = zombie_id c AND NOT (low_mask (zombie_bits c + 1))"

definition set_zombie_number :: "u64 \<Rightarrow> cap \<Rightarrow> cap" where
  "set_zombie_number number c =
     (let msk = low_mask (zombie_bits c + 1) in
      c\<lparr> words1 := (words1 c AND NOT msk) OR (number AND msk) \<rparr>)"

subsection \<open>I/O ports, interrupts and address-space identifiers\<close>

definition new_io_port_control :: cap where
  "new_io_port_control = \<lparr> words0 = tag_word TagIoPortControl, words1 = 0 \<rparr>"

definition new_io_port :: "u64 \<Rightarrow> u64 \<Rightarrow> cap" where
  "new_io_port first_port last_port =
     \<lparr> words0 = tag_word TagIoPort OR bits_put 0 16 first_port, words1 = bits_put 0 16 last_port \<rparr>"

definition io_port_first :: "cap \<Rightarrow> u16" where
  "io_port_first c = ucast (bits_get 0 16 (words0 c))"

definition io_port_last :: "cap \<Rightarrow> u16" where
  "io_port_last c = ucast (bits_get 0 16 (words1 c))"

definition io_port_covers :: "cap \<Rightarrow> u16 \<Rightarrow> u16 \<Rightarrow> bool" where
  "io_port_covers c port sz =
     (let fst_port = io_port_first c; lst_port = io_port_last c;
          sz1 = (if 1 \<le> sz then sz - 1 else 0);
          end_port = (if unat port + unat sz1 < 2 ^ 16 then port + sz1 else - 1)
      in fst_port \<le> port \<and> end_port \<le> lst_port \<and> 0 < sz)"

definition new_irq_handler :: "u64 \<Rightarrow> cap" where
  "new_irq_handler irq = \<lparr> words0 = tag_word TagIrqHandler, words1 = bits_put 0 12 irq \<rparr>"

definition irq_handler_irq :: "cap \<Rightarrow> u64" where
  "irq_handler_irq c = bits_get 0 12 (words1 c)"

definition new_asid_control :: cap where
  "new_asid_control = \<lparr> words0 = tag_word TagAsidControl, words1 = 0 \<rparr>"

definition new_asid_pool :: "u64 \<Rightarrow> u64 \<Rightarrow> cap" where
  "new_asid_pool base ptr =
     \<lparr> words0 = tag_word TagAsidPool OR bits_put 43 16 base
                OR bits_put 0 37 (drop_bit 2 (ptr_low ptr)),
       words1 = 0 \<rparr>"

definition asid_pool_base :: "cap \<Rightarrow> u16" where
  "asid_pool_base c = ucast (bits_get 43 16 (words0 c))"

definition asid_pool_ptr :: "cap \<Rightarrow> u64" where
  "asid_pool_ptr c = sign_extend_ptr (push_bit 2 (bits_get 0 37 (words0 c)))"

subsection \<open>Frame and page table\<close>

definition new_frame :: "u64 \<Rightarrow> u64 \<Rightarrow> u64 \<Rightarrow> bool \<Rightarrow> cap" where
  "new_frame base_ptr sz_class rights is_device =
     \<lparr> words0 = tag_word TagFrame OR bits_put 57 2 sz_class OR bits_put 55 2 rights
                OR bits_put 54 1 (of_bool is_device),
       words1 = bits_put 9 39 base_ptr \<rparr>"

definition frame_mapped_asid :: "cap \<Rightarrow> u16" where
  "frame_mapped_asid c = ucast (bits_get 48 16 (words1 c))"

definition set_frame_mapped_asid :: "u16 \<Rightarrow> cap \<Rightarrow> cap" where
  "set_frame_mapped_asid asid c = c\<lparr> words1 := bits_set 48 16 (ucast asid) (words1 c) \<rparr>"

definition frame_base_ptr :: "cap \<Rightarrow> u64" where
  "frame_base_ptr c = sign_extend_ptr (bits_get 9 39 (words1 c))"

definition frame_mapped_addr :: "cap \<Rightarrow> u64" where
  "frame_mapped_addr c = sign_extend_ptr (bits_get 0 39 (words0 c))"

definition set_frame_mapped_addr :: "u64 \<Rightarrow> cap \<Rightarrow> cap" where
  "set_frame_mapped_addr addr c = c\<lparr> words0 := bits_set 0 39 addr (words0 c) \<rparr>"

definition frame_is_mapped :: "cap \<Rightarrow> bool" where
  "frame_is_mapped c \<longleftrightarrow> frame_mapped_asid c \<noteq> 0"

definition frame_vm_rights :: "cap \<Rightarrow> u64" where
  "frame_vm_rights c = bits_get 55 2 (words0 c)"

definition set_frame_vm_rights :: "u64 \<Rightarrow> cap \<Rightarrow> cap" where
  "set_frame_vm_rights rights c = c\<lparr> words0 := bits_set 55 2 rights (words0 c) \<rparr>"

definition frame_size :: "cap \<Rightarrow> u64" where
  "frame_size c = bits_get 57 2 (words0 c)"

definition frame_is_device :: "cap \<Rightarrow> bool" where
  "frame_is_device c \<longleftrightarrow> bits_get 54 1 (words0 c) \<noteq> 0"

definition new_page_table :: "u64 \<Rightarrow> cap" where
  "new_page_table base_ptr = \<lparr> words0 = tag_word TagPageTable, words1 = bits_put 9 39 base_ptr \<rparr>"

definition set_page_table_mapping :: "u16 \<Rightarrow> u64 \<Rightarrow> cap \<Rightarrow> cap" where
  "set_page_table_mapping asid mapped_addr c =
     c\<lparr> words0 := (words0 c AND NOT (PTR_LOW_MASK OR push_bit 39 1))
                  OR (bits_put 0 39 mapped_addr OR bits_put 39 1 1),
        words1 := bits_set 48 16 (ucast asid) (words1 c) \<rparr>"

definition page_table_mapped_addr :: "cap \<Rightarrow> u64" where
  "page_table_mapped_addr c = sign_extend_ptr (bits_get 0 39 (words0 c))"

definition page_table_mapped_asid :: "cap \<Rightarrow> u16" where
  "page_table_mapped_asid c = ucast (bits_get 48 16 (words1 c))"

definition page_table_is_mapped :: "cap \<Rightarrow> bool" where
  "page_table_is_mapped c \<longleftrightarrow> bits_get 39 1 (words0 c) \<noteq> 0"

definition clear_page_table_mapping :: "cap \<Rightarrow> cap" where
  "clear_page_table_mapping c =
     c\<lparr> words0 := words0 c AND NOT (PTR_LOW_MASK OR push_bit 39 1),
        words1 := bits_clear 48 16 (words1 c) \<rparr>"

definition clear_page_table_is_mapped :: "cap \<Rightarrow> cap" where
  "clear_page_table_is_mapped c = c\<lparr> words0 := bits_clear 39 1 (words0 c) \<rparr>"

definition page_table_base_ptr :: "cap \<Rightarrow> u64" where
  "page_table_base_ptr c = sign_extend_ptr (bits_get 9 39 (words1 c))"

subsection \<open>Endpoint, notification and reply\<close>

definition new_endpoint :: "u64 \<Rightarrow> cap" where
  "new_endpoint ptr =
     \<lparr> words0 = tag_word TagEndpoint OR bits_put 58 1 1 OR bits_put 57 1 1 OR bits_put 56 1 1
                OR bits_put 55 1 1 OR ptr_low ptr,
       words1 = 0 \<rparr>"

definition new_notification :: "u64 \<Rightarrow> cap" where
  "new_notification ptr =
     \<lparr> words0 = tag_word TagNotification OR bits_put 58 1 1 OR bits_put 57 1 1 OR ptr_low ptr,
       words1 = 0 \<rparr>"

definition new_reply :: "u64 \<Rightarrow> bool \<Rightarrow> bool \<Rightarrow> cap" where
  "new_reply tcb_ptr can_grant master =
     \<lparr> words0 = tag_word TagReply OR bits_put 58 1 (of_bool can_grant)
                OR bits_put 57 1 (of_bool master),
       words1 = tcb_ptr \<rparr>"

definition endpoint_ptr :: "cap \<Rightarrow> u64" where
  "endpoint_ptr c = sign_extend_ptr (bits_get 0 39 (words0 c))"

definition endpoint_badge :: "cap \<Rightarrow> u64" where
  "endpoint_badge c = words1 c"

definition set_endpoint_badge :: "u64 \<Rightarrow> cap \<Rightarrow> cap" where
  "set_endpoint_badge badge c = c\<lparr> words1 := badge \<rparr>"

definition endpoint_can_send :: "cap \<Rightarrow> bool" where
  "endpoint_can_send c \<longleftrightarrow> bits_get 55 1 (words0 c) \<noteq> 0"

definition endpoint_can_receive :: "cap \<Rightarrow> bool" where
  "endpoint_can_receive c \<longleftrightarrow> bits_get 56 1 (words0 c) \<noteq> 0"

definition endpoint_can_grant :: "cap \<Rightarrow> bool" where
  "endpoint_can_grant c \<longleftrightarrow> bits_get 57 1 (words0 c) \<noteq> 0"

definition endpoint_can_grant_reply :: "cap \<Rightarrow> bool" where
  "endpoint_can_grant_reply c \<longleftrightarrow> bits_get 58 1 (words0 c) \<noteq> 0"

definition reply_tcb_ptr :: "cap \<Rightarrow> u64" where
  "reply_tcb_ptr c = words1 c"

definition reply_can_grant :: "cap \<Rightarrow> bool" where
  "reply_can_grant c \<longleftrightarrow> bits_get 58 1 (words0 c) \<noteq> 0"

definition reply_is_master :: "cap \<Rightarrow> bool" where
  "reply_is_master c \<longleftrightarrow> bits_get 57 1 (words0 c) \<noteq> 0"

definition set_reply_can_grant :: "bool \<Rightarrow> cap \<Rightarrow> cap" where
  "set_reply_can_grant can_grant c = c\<lparr> words0 := bits_set 58 1 (of_bool can_grant) (words0 c) \<rparr>"

definition notification_ptr :: "cap \<Rightarrow> u64" where
  "notification_ptr c = sign_extend_ptr (bits_get 0 39 (words0 c))"

definition notification_badge :: "cap \<Rightarrow> u64" where
  "notification_badge c = words1 c"

definition set_notification_badge :: "u64 \<Rightarrow> cap \<Rightarrow> cap" where
  "set_notification_badge badge c = c\<lparr> words1 := badge \<rparr>"

definition notification_can_send :: "cap \<Rightarrow> bool" where
  "notification_can_send c \<longleftrightarrow> bits_get 57 1 (words0 c) \<noteq> 0"

definition notification_can_receive :: "cap \<Rightarrow> bool" where
  "notification_can_receive c \<longleftrightarrow> bits_get 58 1 (words0 c) \<noteq> 0"

subsection \<open>Object handles\<close>

definition as_endpoint :: "cap \<Rightarrow> u64 option" where
  "as_endpoint c = (if tag c \<noteq> Some TagEndpoint then None else from_kva (endpoint_ptr c))"

definition as_notification :: "cap \<Rightarrow> u64 option" where
  "as_notification c =
     (if tag c \<noteq> Some TagNotification then None else from_kva (notification_ptr c))"

definition as_thread :: "cap \<Rightarrow> u64 option" where
  "as_thread c = (if tag c \<noteq> Some TagThread then None else from_kva (thread_ptr c))"

definition as_reply_thread :: "cap \<Rightarrow> u64 option" where
  "as_reply_thread c = (if tag c \<noteq> Some TagReply then None else from_kva (reply_tcb_ptr c))"

text \<open>The slots of a CNode: base address and number of slots.\<close>

definition as_cnode :: "cap \<Rightarrow> (u64 \<times> nat) option" where
  "as_cnode c =
     (if tag c \<noteq> Some TagCNode then None
      else do {
        base \<leftarrow> from_kva (cnode_ptr c);
        Some (base, unat (shl64 1 (unat (cnode_radix c))))
      })"

section \<open>Field algebra\<close>

named_theorems cap_defs \<open>definitions of the capability constructors, accessors and setters\<close>

lemmas cap_constructor_defs [cap_defs] =
  null_cap_def new_untyped_def new_cnode_def new_thread_def new_domain_def new_irq_control_def
  new_io_port_control_def new_io_port_def new_irq_handler_def new_asid_control_def
  new_asid_pool_def new_frame_def new_page_table_def new_endpoint_def new_notification_def
  new_reply_def

lemmas cap_accessor_defs [cap_defs] =
  tag_def tag_raw_def untyped_ptr_def untyped_block_size_bits_def untyped_is_device_def
  untyped_free_index_def cnode_radix_def cnode_guard_size_def cnode_guard_def cnode_ptr_def
  thread_ptr_def io_port_first_def io_port_last_def irq_handler_irq_def asid_pool_base_def
  asid_pool_ptr_def frame_mapped_asid_def frame_base_ptr_def frame_mapped_addr_def
  frame_is_mapped_def frame_vm_rights_def frame_size_def frame_is_device_def
  page_table_mapped_addr_def page_table_mapped_asid_def page_table_is_mapped_def
  page_table_base_ptr_def endpoint_ptr_def endpoint_badge_def endpoint_can_send_def
  endpoint_can_receive_def endpoint_can_grant_def endpoint_can_grant_reply_def
  reply_tcb_ptr_def reply_can_grant_def reply_is_master_def notification_ptr_def
  notification_badge_def notification_can_send_def notification_can_receive_def

lemmas cap_setter_defs [cap_defs] =
  set_untyped_free_index_def set_frame_mapped_asid_def set_frame_mapped_addr_def
  set_frame_vm_rights_def clear_page_table_is_mapped_def set_endpoint_badge_def set_reply_can_grant_def
  set_notification_badge_def

lemma tag_word_put [bf_simps]: "tag_word t = bits_put 59 5 (tag_code t)"
  by (rule bit_word_eqI) (auto simp: tag_word_def bits_put_def bit_simps)

lemma ptr_low_put [bf_simps]: "ptr_low p = bits_put 0 39 p"
  by (simp add: ptr_low_def PTR_LOW_MASK_def bits_put_def mask_literals)

lemma clear_mapping_bits: "w AND NOT (PTR_LOW_MASK OR push_bit 39 1) = bits_clear 0 40 w"
proof -
  have "PTR_LOW_MASK OR push_bit 39 1 = mask 40"
    by (simp add: PTR_LOW_MASK_def mask_eq_exp_minus_1)
  then show ?thesis by (simp add: bits_clear_def)
qed

lemma set_page_table_mapping_eq [cap_defs]:
  "set_page_table_mapping asid v c =
     c\<lparr> words0 := bits_clear 0 40 (words0 c) OR (bits_put 0 39 v OR bits_put 39 1 1),
        words1 := bits_set 48 16 (ucast asid) (words1 c) \<rparr>"
  unfolding set_page_table_mapping_def clear_mapping_bits ..

lemma clear_page_table_mapping_eq [cap_defs]:
  "clear_page_table_mapping c =
     c\<lparr> words0 := bits_clear 0 40 (words0 c), words1 := bits_clear 48 16 (words1 c) \<rparr>"
  unfolding clear_page_table_mapping_def clear_mapping_bits ..

lemma tag_code_mask [bf_simps]: "tag_code t AND mask 5 = tag_code t"
  by (cases t) (simp_all add: mask_eq_exp_minus_1)

lemma cap_tag_from_u64_code [simp]: "cap_tag_from_u64 (tag_code t) = Some t"
  by (cases t) (simp_all add: cap_tag_from_u64_def)

lemma cap_tag_from_u64_Some: "cap_tag_from_u64 v = Some t \<longleftrightarrow> v = tag_code t"
  by (cases t) (auto simp: cap_tag_from_u64_def split: if_splits)

lemma tag_eq_Some: "tag c = Some t \<longleftrightarrow> tag_raw c = tag_code t"
  by (simp add: tag_def cap_tag_from_u64_Some)

lemma is_null_iff_tag: "is_null c \<longleftrightarrow> tag c = Some TagNull"
  by (simp add: is_null_def tag_eq_Some)

section \<open>Canonical pointers\<close>

text \<open>A pointer survives storage in 39 bits when bits 39 to 63 repeat bit 38.\<close>

definition canonical_ptr :: "u64 \<Rightarrow> bool" where
  "canonical_ptr p \<longleftrightarrow> sign_extend_ptr (ptr_low p) = p"

lemma bit_and_push_one: "(w :: u64) AND push_bit n 1 \<noteq> 0 \<longleftrightarrow> n < 64 \<and> bit w n"
proof -
  have "w AND push_bit n 1 = push_bit n (of_bool (bit w n))"
    by (rule bit_word_eqI) (auto simp: bit_simps)
  moreover have "push_bit n (of_bool b :: u64) \<noteq> 0 \<longleftrightarrow> n < 64 \<and> b" for b
    by (cases b) (auto simp: bit_simps push_bit_eq_0_iff intro!: bit_word_eqI dest: arg_cong [where f = "\<lambda>w. bit w n"])
  ultimately show ?thesis using bit_imp_le_length by auto
qed

lemma bit_sign_ext_mask: "bit SIGN_EXT_MASK n \<longleftrightarrow> 39 \<le> n \<and> n < 64"
proof -
  have eq: "SIGN_EXT_MASK = push_bit 39 (mask 25)"
    by (simp add: SIGN_EXT_MASK_def mask_eq_exp_minus_1)
  show ?thesis unfolding eq by (auto simp: bit_simps)
qed

lemma bit_sign_extend_ptr:
  "bit (sign_extend_ptr w) n \<longleftrightarrow> bit w n \<or> (bit w 38 \<and> 39 \<le> n \<and> n < 64)"
  unfolding sign_extend_ptr_def bit_and_push_one by (auto simp: bit_sign_ext_mask bit_simps)

lemma canonical_ptr_iff: "canonical_ptr p \<longleftrightarrow> (\<forall>n. 39 \<le> n \<and> n < 64 \<longrightarrow> bit p n = bit p 38)"
  by (auto simp: canonical_ptr_def bit_sign_extend_ptr bit_eq_iff ptr_low_put bits_put_def bit_simps
      dest: bit_imp_le_length) (meson not_le)

lemma canonical_zero [simp]: "canonical_ptr 0"
  by (simp add: canonical_ptr_iff)

text \<open>Every address of the kernel window is canonical.\<close>

lemma canonical_kernel_window:
  assumes "0xFFFFFFC000000000 \<le> p"
  shows "canonical_ptr p"
proof -
  have "drop_bit 38 p = mask 26"
  proof -
    have "unat p div 2 ^ 38 = 2 ^ 26 - 1"
      using assms unat64_less [of p] by (simp add: word_le_nat_alt)
    then have "unat (drop_bit 38 p) = 2 ^ 26 - 1"
      unfolding unat_drop_bit_eq by (simp add: drop_bit_eq_div)
    then show ?thesis by (simp add: word_unat_eq_iff mask_eq_exp_minus_1)
  qed
  then have bits: "bit (drop_bit 38 p) n \<longleftrightarrow> n < 26" for n
    by (auto simp: bit_mask_iff)
  have "bit p n" if "38 \<le> n" "n < 64" for n
    using bits [of "n - 38"] that by (simp add: bit_drop_bit_eq)
  then show ?thesis by (simp add: canonical_ptr_iff)
qed

lemma sign_extend_canonical [bf_simps]: "canonical_ptr p \<Longrightarrow> sign_extend_ptr (p AND mask 39) = p"
  by (simp add: canonical_ptr_def ptr_low_put bits_put_def)

lemma sign_extend_zero [bf_simps]: "sign_extend_ptr 0 = 0"
  by (simp add: sign_extend_ptr_def)

text \<open>Pointers stored without their low, always zero, alignment bits.\<close>

lemma sign_extend_shifted [bf_simps]:
  assumes "canonical_ptr p" "p AND mask k = 0" "k \<le> 39"
  shows "sign_extend_ptr (push_bit k (drop_bit k (bits_put 0 39 p) AND mask (39 - k))) = p"
proof -
  from assms(2) have low: "\<not> bit p n" if "n < k" for n
    using that by (metis bit_0_eq bit_and_iff bit_mask_iff bit_imp_le_length bot_apply bot_bool_def
        min_less_iff_conj possible_bit_word)
  then have high: "k \<le> n" if "bit p n" for n
    using that not_le by blast
  have "push_bit k (drop_bit k (bits_put 0 39 p) AND mask (39 - k)) = p AND mask 39"
    by (rule bit_word_eqI) (use high assms(3) in \<open>auto simp: bits_put_def bit_simps intro: diff_less_mono\<close>)
  then show ?thesis using sign_extend_canonical [OF assms(1)] by simp
qed

section \<open>Decoding\<close>

text \<open>
  What a capability means: its kind with the value of each of its fields. The decoding is the
  reading of a capability through the accessors of the source.
\<close>

datatype cap_view =
    VNull
  | VUntyped (v_ptr: u64) (v_bits: u64) (v_free: u64) (v_dev: bool)
  | VCNode (v_ptr: u64) (v_radix: u64) (v_guard: u64) (v_guard_size: u64)
  | VThread (v_ptr: u64)
  | VEndpoint (v_ptr: u64) (v_badge: u64) (v_send: bool) (v_recv: bool) (v_grant: bool) (v_grant_reply: bool)
  | VNotification (v_ptr: u64) (v_badge: u64) (v_send: bool) (v_recv: bool)
  | VReply (v_ptr: u64) (v_grant: bool) (v_master: bool)
  | VFrame (v_ptr: u64) (v_size: u64) (v_rights: u64) (v_dev: bool) (v_asid: u16) (v_addr: u64)
  | VPageTable (v_ptr: u64) (v_mapped: bool) (v_asid: u16) (v_addr: u64)
  | VAsidControl
  | VAsidPool (v_asid: u16) (v_ptr: u64)
  | VIrqControl
  | VIrqHandler (v_irq: u64)
  | VZombie (v_ptr: u64) (v_number: u64) (v_type: u64)
  | VDomain
  | VIoPortControl
  | VIoPort (v_first: u16) (v_last: u16)

definition cap_decode :: "cap \<Rightarrow> cap_view option" where
  "cap_decode c = (case tag c of
     None \<Rightarrow> None
   | Some TagNull \<Rightarrow> Some VNull
   | Some TagUntyped \<Rightarrow>
       Some (VUntyped (untyped_ptr c) (untyped_block_size_bits c) (untyped_free_index c) (untyped_is_device c))
   | Some TagCNode \<Rightarrow> Some (VCNode (cnode_ptr c) (cnode_radix c) (cnode_guard c) (cnode_guard_size c))
   | Some TagThread \<Rightarrow> Some (VThread (thread_ptr c))
   | Some TagEndpoint \<Rightarrow>
       Some (VEndpoint (endpoint_ptr c) (endpoint_badge c) (endpoint_can_send c)
               (endpoint_can_receive c) (endpoint_can_grant c) (endpoint_can_grant_reply c))
   | Some TagNotification \<Rightarrow>
       Some (VNotification (notification_ptr c) (notification_badge c) (notification_can_send c)
               (notification_can_receive c))
   | Some TagReply \<Rightarrow> Some (VReply (reply_tcb_ptr c) (reply_can_grant c) (reply_is_master c))
   | Some TagFrame \<Rightarrow>
       Some (VFrame (frame_base_ptr c) (frame_size c) (frame_vm_rights c) (frame_is_device c)
               (frame_mapped_asid c) (frame_mapped_addr c))
   | Some TagPageTable \<Rightarrow>
       Some (VPageTable (page_table_base_ptr c) (page_table_is_mapped c) (page_table_mapped_asid c)
               (page_table_mapped_addr c))
   | Some TagAsidControl \<Rightarrow> Some VAsidControl
   | Some TagAsidPool \<Rightarrow> Some (VAsidPool (asid_pool_base c) (asid_pool_ptr c))
   | Some TagIrqControl \<Rightarrow> Some VIrqControl
   | Some TagIrqHandler \<Rightarrow> Some (VIrqHandler (irq_handler_irq c))
   | Some TagZombie \<Rightarrow> Some (VZombie (zombie_ptr c) (zombie_number c) (zombie_type c))
   | Some TagDomain \<Rightarrow> Some VDomain
   | Some TagIoPortControl \<Rightarrow> Some VIoPortControl
   | Some TagIoPort \<Rightarrow> Some (VIoPort (io_port_first c) (io_port_last c)))"

fun view_tag :: "cap_view \<Rightarrow> cap_tag" where
  "view_tag VNull = TagNull"
| "view_tag (VUntyped _ _ _ _) = TagUntyped"
| "view_tag (VCNode _ _ _ _) = TagCNode"
| "view_tag (VThread _) = TagThread"
| "view_tag (VEndpoint _ _ _ _ _ _) = TagEndpoint"
| "view_tag (VNotification _ _ _ _) = TagNotification"
| "view_tag (VReply _ _ _) = TagReply"
| "view_tag (VFrame _ _ _ _ _ _) = TagFrame"
| "view_tag (VPageTable _ _ _ _) = TagPageTable"
| "view_tag VAsidControl = TagAsidControl"
| "view_tag (VAsidPool _ _) = TagAsidPool"
| "view_tag VIrqControl = TagIrqControl"
| "view_tag (VIrqHandler _) = TagIrqHandler"
| "view_tag (VZombie _ _ _) = TagZombie"
| "view_tag VDomain = TagDomain"
| "view_tag VIoPortControl = TagIoPortControl"
| "view_tag (VIoPort _ _) = TagIoPort"

lemma cap_decode_tag: "cap_decode c = Some v \<Longrightarrow> tag c = Some (view_tag v)"
  by (auto simp: cap_decode_def split: option.splits cap_tag.splits)

named_theorems cap_tags \<open>the tag of a constructed or updated capability\<close>

lemma tag_constructors [cap_tags, simp]:
  "tag (new_untyped p b f d) = Some TagUntyped"
  "tag (new_cnode p r g gs) = Some TagCNode"
  "tag (new_thread p) = Some TagThread"
  "tag new_domain = Some TagDomain"
  "tag new_irq_control = Some TagIrqControl"
  "tag new_io_port_control = Some TagIoPortControl"
  "tag (new_io_port a z) = Some TagIoPort"
  "tag (new_irq_handler i) = Some TagIrqHandler"
  "tag new_asid_control = Some TagAsidControl"
  "tag (new_asid_pool ab p) = Some TagAsidPool"
  "tag (new_frame p s r d) = Some TagFrame"
  "tag (new_page_table p) = Some TagPageTable"
  "tag (new_endpoint p) = Some TagEndpoint"
  "tag (new_notification p) = Some TagNotification"
  "tag (new_reply p cg m) = Some TagReply"
  by (simp_all add: cap_defs bf_simps del: tag_code.simps)

lemma tag_null_cap [cap_tags, simp]: "tag null_cap = Some TagNull"
  by (simp add: cap_defs bf_simps cap_tag_from_u64_def)

section \<open>Constructors decode to what they were given\<close>

lemma of_bool_neq_zero [simp]: "(of_bool b :: u64) \<noteq> 0 \<longleftrightarrow> b"
  by simp

lemma decode_untyped:
  "canonical_ptr p \<Longrightarrow>
   cap_decode (new_untyped p b f d) = Some (VUntyped p (b AND mask 6) (f AND mask 39) d)"
  by (simp add: cap_decode_def) (simp add: cap_defs bf_simps)

lemma decode_cnode:
  "canonical_ptr p \<Longrightarrow> p AND mask 1 = 0 \<Longrightarrow>
   cap_decode (new_cnode p r g gs) = Some (VCNode p (r AND mask 6) g (gs AND mask 6))"
  using sign_extend_shifted [of p 1]
  by (simp add: cap_decode_def) (simp add: cap_defs bf_simps)

lemma decode_thread: "canonical_ptr p \<Longrightarrow> cap_decode (new_thread p) = Some (VThread p)"
  by (simp add: cap_decode_def) (simp add: cap_defs bf_simps)

lemma decode_endpoint:
  "canonical_ptr p \<Longrightarrow> cap_decode (new_endpoint p) = Some (VEndpoint p 0 True True True True)"
  by (simp add: cap_decode_def) (simp add: cap_defs bf_simps)

lemma decode_notification:
  "canonical_ptr p \<Longrightarrow> cap_decode (new_notification p) = Some (VNotification p 0 True True)"
  by (simp add: cap_decode_def) (simp add: cap_defs bf_simps)

lemma decode_reply: "cap_decode (new_reply p g m) = Some (VReply p g m)"
  by (simp add: cap_decode_def) (simp add: cap_defs bf_simps)

lemma decode_frame:
  "canonical_ptr p \<Longrightarrow>
   cap_decode (new_frame p sz r d) = Some (VFrame p (sz AND mask 2) (r AND mask 2) d 0 0)"
  by (simp add: cap_decode_def) (simp add: cap_defs bf_simps)

lemma decode_page_table:
  "canonical_ptr p \<Longrightarrow> cap_decode (new_page_table p) = Some (VPageTable p False 0 0)"
  by (simp add: cap_decode_def) (simp add: cap_defs bf_simps)

lemma decode_asid_pool:
  "canonical_ptr p \<Longrightarrow> p AND mask 2 = 0 \<Longrightarrow>
   cap_decode (new_asid_pool b p) = Some (VAsidPool (ucast (b AND mask 16)) p)"
  using sign_extend_shifted [of p 2]
  by (simp add: cap_decode_def) (simp add: cap_defs bf_simps)

lemma decode_irq_handler: "cap_decode (new_irq_handler i) = Some (VIrqHandler (i AND mask 12))"
  by (simp add: cap_decode_def) (simp add: cap_defs bf_simps)

lemma decode_io_port:
  "cap_decode (new_io_port a z) = Some (VIoPort (ucast (a AND mask 16)) (ucast (z AND mask 16)))"
  by (simp add: cap_decode_def) (simp add: cap_defs bf_simps)

lemma decode_singletons:
  "cap_decode null_cap = Some VNull"
  "cap_decode new_domain = Some VDomain"
  "cap_decode new_irq_control = Some VIrqControl"
  "cap_decode new_io_port_control = Some VIoPortControl"
  "cap_decode new_asid_control = Some VAsidControl"
  by (simp_all add: cap_decode_def)

text \<open>Zombies: the slot count and the pointer share a word, split at the zombie's radix.\<close>

lemma and_not_or_and [bf_simps]:
  fixes p n msk :: u64
  shows "((p AND NOT msk) OR (n AND msk)) AND msk = n AND msk"
    and "((p AND NOT msk) OR (n AND msk)) AND NOT msk = p AND NOT msk"
  by (rule bit_word_eqI; auto simp: bit_simps)+

lemma and_not_aligned:
  assumes "(p :: u64) AND msk = 0"
  shows "p AND NOT msk = p"
proof -
  have "p = (p AND msk) OR (p AND NOT msk)"
    by (rule bit_word_eqI) (auto simp: bit_simps)
  with assms show ?thesis by simp
qed

lemma or_aligned_split:
  fixes p n msk :: u64
  assumes "p AND msk = 0" "n AND msk = n"
  shows "(p OR n) AND msk = n" "(p OR n) AND NOT msk = p"
  using and_not_or_and [of p msk n] assms by (simp_all add: and_not_aligned)

lemmas zombie_defs =
  zombie_ptr_def zombie_number_def zombie_type_def zombie_id_def zombie_bits_def zombie_is_tcb_def

lemma tag_cnode_zombie [cap_tags, simp]: "tag (new_cnode_zombie n r p) = Some TagZombie"
  by (simp add: new_cnode_zombie_def Let_def cap_defs bf_simps del: tag_code.simps)

lemma zombie_type_tcb_put: "ZOMBIE_TYPE_TCB = bits_put 0 7 ZOMBIE_TYPE_TCB"
  by (simp add: ZOMBIE_TYPE_TCB_def bits_put_def mask_eq_exp_minus_1)

lemma zombie_type_tcb_mask [bf_simps]: "ZOMBIE_TYPE_TCB AND mask 7 = ZOMBIE_TYPE_TCB"
  by (simp add: ZOMBIE_TYPE_TCB_def mask_eq_exp_minus_1)

lemma new_tcb_zombie_eq:
  "new_tcb_zombie n p = \<lparr> words0 = tag_word TagZombie OR bits_put 0 7 ZOMBIE_TYPE_TCB,
     words1 = (p AND NOT (low_mask (TCB_CNODE_RADIX + 1))) OR (n AND low_mask (TCB_CNODE_RADIX + 1)) \<rparr>"
  by (simp add: new_tcb_zombie_def Let_def zombie_type_tcb_put [symmetric])

lemma tag_tcb_zombie [cap_tags, simp]: "tag (new_tcb_zombie n p) = Some TagZombie"
  by (simp add: new_tcb_zombie_eq cap_defs bf_simps del: tag_code.simps)

lemma decode_cnode_zombie:
  assumes "r < 64" "p AND low_mask (r + 1) = 0" "n AND low_mask (r + 1) = n"
  shows "cap_decode (new_cnode_zombie n r p) = Some (VZombie p n r)"
proof -
  have "r AND mask 7 = r"
    using assms(1) by (intro word_and_mask_small) (simp add: word_less_nat_alt)
  moreover have "r \<noteq> ZOMBIE_TYPE_TCB" using assms(1) by (auto simp: ZOMBIE_TYPE_TCB_def)
  ultimately show ?thesis using assms(2,3)
    by (simp add: cap_decode_def)
      (simp add: new_cnode_zombie_def Let_def zombie_defs bf_simps and_not_aligned or_aligned_split)
qed

lemma decode_tcb_zombie:
  assumes "p AND low_mask 5 = 0" "n AND low_mask 5 = n"
  shows "cap_decode (new_tcb_zombie n p) = Some (VZombie p n ZOMBIE_TYPE_TCB)"
  using assms by (simp add: cap_decode_def)
    (simp add: new_tcb_zombie_eq zombie_defs bf_simps and_not_aligned or_aligned_split TCB_CNODE_RADIX_def)

lemma set_zombie_number_frame:
  "tag (set_zombie_number k c) = tag c"
  "zombie_type (set_zombie_number k c) = zombie_type c"
  "zombie_ptr (set_zombie_number k c) = zombie_ptr c"
  "zombie_number (set_zombie_number k c) = k AND low_mask (zombie_bits c + 1)"
  by (simp_all add: set_zombie_number_def Let_def zombie_defs tag_def tag_raw_def bf_simps)

section \<open>A setter changes its own field only\<close>

lemma ucast_asid_mask [bf_simps]:
  "(ucast (a :: u16) :: u64) AND mask 16 = ucast a" "(ucast (ucast (a :: u16) :: u64) :: u16) = a"
  using bit_imp_le_length [of a] by (fastforce intro!: bit_word_eqI simp: bit_simps)+

lemma tag_setters [cap_tags, simp]:
  "tag (set_untyped_free_index v c) = tag c"
  "tag (set_frame_mapped_asid a c) = tag c"
  "tag (set_frame_mapped_addr v c) = tag c"
  "tag (set_frame_vm_rights r c) = tag c"
  "tag (set_page_table_mapping a v c) = tag c"
  "tag (clear_page_table_mapping c) = tag c"
  "tag (clear_page_table_is_mapped c) = tag c"
  "tag (set_endpoint_badge v c) = tag c"
  "tag (set_notification_badge v c) = tag c"
  "tag (set_reply_can_grant b c) = tag c"
  by (simp_all add: cap_defs bf_simps)

lemma decode_set_untyped_free_index:
  assumes "cap_decode c = Some (VUntyped p b f d)"
  shows "cap_decode (set_untyped_free_index v c) = Some (VUntyped p b (v AND mask 39) d)"
proof -
  have "tag c = Some TagUntyped" using cap_decode_tag [OF assms] by simp
  then show ?thesis using assms by (simp add: cap_decode_def) (auto simp: cap_defs bf_simps)
qed

lemma frame_setters_frame [simp]:
  "frame_base_ptr (set_frame_mapped_asid a c) = frame_base_ptr c"
  "frame_size (set_frame_mapped_asid a c) = frame_size c"
  "frame_vm_rights (set_frame_mapped_asid a c) = frame_vm_rights c"
  "frame_is_device (set_frame_mapped_asid a c) = frame_is_device c"
  "frame_mapped_addr (set_frame_mapped_asid a c) = frame_mapped_addr c"
  "frame_base_ptr (set_frame_mapped_addr v c) = frame_base_ptr c"
  "frame_size (set_frame_mapped_addr v c) = frame_size c"
  "frame_vm_rights (set_frame_mapped_addr v c) = frame_vm_rights c"
  "frame_is_device (set_frame_mapped_addr v c) = frame_is_device c"
  "frame_mapped_asid (set_frame_mapped_addr v c) = frame_mapped_asid c"
  "frame_base_ptr (set_frame_vm_rights r c) = frame_base_ptr c"
  "frame_size (set_frame_vm_rights r c) = frame_size c"
  "frame_is_device (set_frame_vm_rights r c) = frame_is_device c"
  "frame_mapped_asid (set_frame_vm_rights r c) = frame_mapped_asid c"
  "frame_mapped_addr (set_frame_vm_rights r c) = frame_mapped_addr c"
  by (simp_all add: cap_defs bf_simps)

lemma frame_setters_own [simp]:
  "frame_mapped_asid (set_frame_mapped_asid a c) = a"
  "canonical_ptr v \<Longrightarrow> frame_mapped_addr (set_frame_mapped_addr v c) = v"
  "frame_vm_rights (set_frame_vm_rights r c) = r AND mask 2"
  by (simp_all add: cap_defs bf_simps)

lemma decode_frame_setters:
  assumes "cap_decode c = Some (VFrame p sz r d a v)"
  shows "cap_decode (set_frame_mapped_asid a' c) = Some (VFrame p sz r d a' v)"
    and "canonical_ptr v' \<Longrightarrow> cap_decode (set_frame_mapped_addr v' c) = Some (VFrame p sz r d a v')"
    and "cap_decode (set_frame_vm_rights r' c) = Some (VFrame p sz (r' AND mask 2) d a v)"
  using cap_decode_tag [OF assms] assms by (simp_all add: cap_decode_def)

lemma page_table_setters [simp]:
  "page_table_base_ptr (set_page_table_mapping a v c) = page_table_base_ptr c"
  "page_table_is_mapped (set_page_table_mapping a v c)"
  "page_table_mapped_asid (set_page_table_mapping a v c) = a"
  "canonical_ptr v \<Longrightarrow> page_table_mapped_addr (set_page_table_mapping a v c) = v"
  "page_table_base_ptr (clear_page_table_mapping c) = page_table_base_ptr c"
  "\<not> page_table_is_mapped (clear_page_table_mapping c)"
  "page_table_mapped_asid (clear_page_table_mapping c) = 0"
  "page_table_mapped_addr (clear_page_table_mapping c) = 0"
  "page_table_base_ptr (clear_page_table_is_mapped c) = page_table_base_ptr c"
  "\<not> page_table_is_mapped (clear_page_table_is_mapped c)"
  "page_table_mapped_asid (clear_page_table_is_mapped c) = page_table_mapped_asid c"
  "page_table_mapped_addr (clear_page_table_is_mapped c) = page_table_mapped_addr c"
  by (simp_all add: cap_defs bf_simps)

lemma decode_page_table_setters:
  assumes "cap_decode c = Some (VPageTable p m a v)"
  shows "canonical_ptr v' \<Longrightarrow>
           cap_decode (set_page_table_mapping a' v' c) = Some (VPageTable p True a' v')"
    and "cap_decode (clear_page_table_mapping c) = Some (VPageTable p False 0 0)"
    and "cap_decode (clear_page_table_is_mapped c) = Some (VPageTable p False a v)"
  using cap_decode_tag [OF assms] assms by (simp_all add: cap_decode_def)

lemma decode_set_endpoint_badge:
  assumes "cap_decode c = Some (VEndpoint p b s r g gr)"
  shows "cap_decode (set_endpoint_badge b' c) = Some (VEndpoint p b' s r g gr)"
proof -
  have "tag c = Some TagEndpoint" using cap_decode_tag [OF assms] by simp
  then show ?thesis using assms by (simp add: cap_decode_def) (auto simp: cap_defs bf_simps)
qed

lemma decode_set_notification_badge:
  assumes "cap_decode c = Some (VNotification p b s r)"
  shows "cap_decode (set_notification_badge b' c) = Some (VNotification p b' s r)"
proof -
  have "tag c = Some TagNotification" using cap_decode_tag [OF assms] by simp
  then show ?thesis using assms by (simp add: cap_decode_def) (auto simp: cap_defs bf_simps)
qed

lemma decode_set_reply_can_grant:
  assumes "cap_decode c = Some (VReply p g m)"
  shows "cap_decode (set_reply_can_grant g' c) = Some (VReply p g' m)"
proof -
  have "tag c = Some TagReply" using cap_decode_tag [OF assms] by simp
  then show ?thesis using assms by (simp add: cap_decode_def) (auto simp: cap_defs bf_simps)
qed

section \<open>Properties\<close>

lemma aligned4_aligned2:
  assumes "(p :: u64) AND mask 2 = 0"
  shows "p AND mask 1 = 0"
proof -
  have "p AND mask 1 = (p AND mask 2) AND mask 1"
    by (rule bit_word_eqI) (auto simp: bit_simps)
  with assms show ?thesis by simp
qed

text \<open>
  C40: The two words that each of the 17 capability constructors packs decode to the kind of the
  capability and to its arguments: the object pointer, when it is canonical and four-byte aligned, and
  the other fields cut to the widths they have in the words (a block size to 6 bits, a free index to
  39, an interrupt number to 12, a port to 16 and so on). A zombie gives back its pointer and its slot
  count when the pointer is aligned to the zombie's radix plus one and the count fits below it.
\<close>

theorem cap_constructors_decode:
  assumes "canonical_ptr p" "p AND mask 2 = 0"
  shows "cap_decode (new_untyped p b f d) = Some (VUntyped p (b AND mask 6) (f AND mask 39) d) \<and>
    cap_decode (new_cnode p r g gs) = Some (VCNode p (r AND mask 6) g (gs AND mask 6)) \<and>
    cap_decode (new_thread p) = Some (VThread p) \<and>
    cap_decode (new_endpoint p) = Some (VEndpoint p 0 True True True True) \<and>
    cap_decode (new_notification p) = Some (VNotification p 0 True True) \<and>
    cap_decode (new_reply p cg m) = Some (VReply p cg m) \<and>
    cap_decode (new_frame p sz rt d) = Some (VFrame p (sz AND mask 2) (rt AND mask 2) d 0 0) \<and>
    cap_decode (new_page_table p) = Some (VPageTable p False 0 0) \<and>
    cap_decode (new_asid_pool ab p) = Some (VAsidPool (ucast (ab AND mask 16)) p) \<and>
    cap_decode (new_irq_handler i) = Some (VIrqHandler (i AND mask 12)) \<and>
    cap_decode (new_io_port a z) = Some (VIoPort (ucast (a AND mask 16)) (ucast (z AND mask 16))) \<and>
    cap_decode new_io_port_control = Some VIoPortControl \<and> cap_decode new_irq_control = Some VIrqControl \<and>
    cap_decode new_asid_control = Some VAsidControl \<and> cap_decode new_domain = Some VDomain \<and>
    (zr < 64 \<and> p AND low_mask (zr + 1) = 0 \<and> n AND low_mask (zr + 1) = n \<longrightarrow>
      cap_decode (new_cnode_zombie n zr p) = Some (VZombie p n zr)) \<and>
    (p AND low_mask 5 = 0 \<and> n AND low_mask 5 = n \<longrightarrow>
      cap_decode (new_tcb_zombie n p) = Some (VZombie p n ZOMBIE_TYPE_TCB))"
  using assms decode_cnode [OF assms(1) aligned4_aligned2 [OF assms(2)]]
  by (simp add: decode_untyped decode_thread decode_endpoint decode_notification decode_reply
      decode_frame decode_page_table decode_asid_pool decode_irq_handler decode_io_port decode_singletons
      decode_cnode_zombie decode_tcb_zombie)

theorem cap_constructors_decode_witness:
  "cap_decode (new_untyped 0xFFFFFFC080000000 21 7 False)
     = Some (VUntyped 0xFFFFFFC080000000 21 7 False) \<and>
   cap_decode (new_cnode 0xFFFFFFC080000000 13 5 51)
     = Some (VCNode 0xFFFFFFC080000000 13 5 51) \<and>
   cap_decode (new_cnode_zombie 100 13 0xFFFFFFC080000000) = Some (VZombie 0xFFFFFFC080000000 100 13)"
proof -
  have c: "canonical_ptr 0xFFFFFFC080000000" by (rule canonical_kernel_window) simp
  have a: "(0xFFFFFFC080000000 :: u64) AND mask 2 = 0" by (simp add: mask_eq_exp_minus_1)
  have "(0xFFFFFFC080000000 :: u64) AND low_mask (13 + 1) = 0" "(100 :: u64) AND low_mask (13 + 1) = 100" by code_simp+
  then have "cap_decode (new_cnode_zombie 100 13 0xFFFFFFC080000000) = Some (VZombie 0xFFFFFFC080000000 100 13)"
    using cap_constructors_decode [OF c a, where zr = 13 and n = 100] by simp
  then show ?thesis
    using cap_constructors_decode [OF c a, of 21 7 False 13 5 51]
    by (simp add: mask_eq_exp_minus_1)
qed

end
