(* ===== verification/Rel4_List.thy ===== *)
theory Rel4_List
  imports Rel4_Prelude
begin

text \<open>
  Intrusive FIFO queues over kernel objects (\<^verbatim>\<open>kernel/src/ktypes/list.rs\<close>). The links of all
  queueable objects live in one heap indexed by object address; a queue keeps its two end
  pointers wherever its owner stores them, behind the four operations of the \<^verbatim>\<open>QueueEnds\<close>
  trait, which is the record \<open>queue_ends\<close> here. The locale \<open>queue_ends_laws\<close> states what the
  linking code relies on; inside it every queue operation is proved to implement the
  corresponding operation on the list of queued objects, in FIFO order. The interpretation
  for the plain \<^verbatim>\<open>Queue\<close> is at the end; endpoints and notifications interpret it in their own
  theories.
\<close>

section \<open>Links and queue ends\<close>

record links =
  links_prev :: "u64 option"
  links_next :: "u64 option"

type_synonym links_heap = "u64 \<Rightarrow> links"

definition unlinked :: links where
  "unlinked = \<lparr> links_prev = None, links_next = None \<rparr>"

definition links_is_unlinked :: "links \<Rightarrow> bool" where
  "links_is_unlinked l \<longleftrightarrow> links_prev l = None \<and> links_next l = None"

record 'q queue_ends =
  qe_head :: "'q \<Rightarrow> u64 option"
  qe_tail :: "'q \<Rightarrow> u64 option"
  qe_set_head :: "u64 option \<Rightarrow> 'q \<Rightarrow> 'q"
  qe_set_tail :: "u64 option \<Rightarrow> 'q \<Rightarrow> 'q"

record queue =
  queue_head :: "u64 option"
  queue_tail :: "u64 option"

definition queue_new :: queue where
  "queue_new = \<lparr> queue_head = None, queue_tail = None \<rparr>"

definition queue_ends_of_queue :: "queue queue_ends" where
  "queue_ends_of_queue =
     \<lparr> qe_head = queue_head, qe_tail = queue_tail,
       qe_set_head = (\<lambda>h q. q\<lparr> queue_head := h \<rparr>),
       qe_set_tail = (\<lambda>t q. q\<lparr> queue_tail := t \<rparr>) \<rparr>"

section \<open>Operations\<close>

definition set_links :: "u64 \<Rightarrow> links \<Rightarrow> links_heap \<Rightarrow> links_heap" where
  "set_links node l lh = lh(node := l)"

definition set_next :: "u64 \<Rightarrow> u64 option \<Rightarrow> links_heap \<Rightarrow> links_heap" where
  "set_next node nxt lh = lh(node := (lh node)\<lparr> links_next := nxt \<rparr>)"

definition set_prev :: "u64 \<Rightarrow> u64 option \<Rightarrow> links_heap \<Rightarrow> links_heap" where
  "set_prev node prv lh = lh(node := (lh node)\<lparr> links_prev := prv \<rparr>)"

definition is_unlinked :: "links_heap \<Rightarrow> u64 \<Rightarrow> bool" where
  "is_unlinked lh node \<longleftrightarrow> links_is_unlinked (lh node)"

definition clear_links :: "u64 \<Rightarrow> links_heap \<Rightarrow> links_heap" where
  "clear_links node lh = set_links node unlinked lh"

definition next_of :: "links_heap \<Rightarrow> u64 \<Rightarrow> u64 option" where
  "next_of lh node = links_next (lh node)"

definition prev_of :: "links_heap \<Rightarrow> u64 \<Rightarrow> u64 option" where
  "prev_of lh node = links_prev (lh node)"

definition push_back :: "'q queue_ends \<Rightarrow> u64 \<Rightarrow> 'q \<times> links_heap \<Rightarrow> 'q \<times> links_heap" where
  "push_back qe node s =
     (let (q, lh) = s;
          tail = qe_tail qe q;
          lh1 = set_links node \<lparr> links_prev = tail, links_next = None \<rparr> lh;
          (q1, lh2) = (case tail of
                         Some t \<Rightarrow> (q, set_next t (Some node) lh1)
                       | None \<Rightarrow> (qe_set_head qe (Some node) q, lh1))
      in (qe_set_tail qe (Some node) q1, lh2))"

definition pop_front :: "'q queue_ends \<Rightarrow> 'q \<times> links_heap \<Rightarrow> u64 option \<times> ('q \<times> links_heap)" where
  "pop_front qe s =
     (let (q, lh) = s in
      case qe_head qe q of
        None \<Rightarrow> (None, s)
      | Some h \<Rightarrow>
          (let nxt = links_next (lh h);
               (q1, lh1) = (case nxt of
                              Some n \<Rightarrow> (q, set_prev n None lh)
                            | None \<Rightarrow> (qe_set_tail qe None q, lh))
           in (Some h, (qe_set_head qe nxt q1, clear_links h lh1))))"

definition remove :: "'q queue_ends \<Rightarrow> u64 \<Rightarrow> 'q \<times> links_heap \<Rightarrow> 'q \<times> links_heap" where
  "remove qe node s =
     (let (q, lh) = s;
          prv = links_prev (lh node);
          nxt = links_next (lh node);
          (q1, lh1) = (case prv of
                         Some p \<Rightarrow> (q, set_next p nxt lh)
                       | None \<Rightarrow> (qe_set_head qe nxt q, lh));
          (q2, lh2) = (case nxt of
                         Some n \<Rightarrow> (q1, set_prev n prv lh1)
                       | None \<Rightarrow> (qe_set_tail qe prv q1, lh1))
      in (q2, clear_links node lh2))"

text \<open>
  The walk of \<open>iter\<close> under \<open>any\<close>: it stops at the first entry the predicate accepts. The
  walk follows the links of a fixed heap, so a node met twice means that it never ends; that
  is the result \<open>None\<close>.
\<close>

function walk_any :: "(u64 \<Rightarrow> bool) \<Rightarrow> links_heap \<Rightarrow> u64 list \<Rightarrow> u64 option \<Rightarrow> bool option" where
  "walk_any P lh seen None = Some False"
| "walk_any P lh seen (Some n) =
     (if n \<in> set seen then None
      else if P n then Some True
      else walk_any P lh (n # seen) (links_next (lh n)))"
  by pat_completeness auto

termination
proof (relation "measure (\<lambda>(P, lh, seen, at). card (UNIV - set seen))")
  fix P :: "u64 \<Rightarrow> bool" and lh :: links_heap and seen :: "u64 list" and n :: u64
  assume "n \<notin> set seen"
  then have "UNIV - set (n # seen) \<subset> UNIV - set seen" by auto
  then show "((P, lh, n # seen, links_next (lh n)), (P, lh, seen, Some n))
      \<in> measure (\<lambda>(P, lh, seen, at). card (UNIV - set seen))"
    by (simp add: psubset_card_mono)
qed simp

definition contains :: "'q queue_ends \<Rightarrow> u64 \<Rightarrow> 'q \<times> links_heap \<Rightarrow> bool option" where
  "contains qe node s = walk_any (\<lambda>entry. entry = node) (snd s) [] (qe_head qe (fst s))"

definition remove_if_present ::
  "'q queue_ends \<Rightarrow> u64 \<Rightarrow> 'q \<times> links_heap \<Rightarrow> (bool \<times> ('q \<times> links_heap)) option" where
  "remove_if_present qe node s = do {
     present \<leftarrow> contains qe node s;
     if \<not> present then Some (False, s) else Some (True, remove qe node s)
   }"

section \<open>Doubly linked segments\<close>

definition first_or :: "u64 list \<Rightarrow> u64 option \<Rightarrow> u64 option" where
  "first_or xs d = (case xs of [] \<Rightarrow> d | x # _ \<Rightarrow> Some x)"

definition last_or :: "u64 list \<Rightarrow> u64 option \<Rightarrow> u64 option" where
  "last_or xs d = (if xs = [] then d else Some (last xs))"

lemma first_or_simps [simp]: "first_or [] d = d" "first_or (x # xs) d = Some x"
  by (simp_all add: first_or_def)

lemma last_or_simps [simp]:
  "last_or [] d = d" "last_or (x # xs) d = last_or xs (Some x)" "last_or (xs @ [x]) d = Some x"
  by (simp_all add: last_or_def)

lemma first_or_append [simp]: "first_or (xs @ ys) d = first_or xs (first_or ys d)"
  by (cases xs) simp_all

lemma last_or_append [simp]: "last_or (xs @ ys) d = last_or ys (last_or xs d)"
  by (induction xs arbitrary: d) simp_all

lemma last_or_neq: "xs \<noteq> [] \<Longrightarrow> last_or xs d = Some (last xs)"
  by (simp add: last_or_def)

lemma first_or_eq_None: "first_or xs None = None \<longleftrightarrow> xs = []"
  by (cases xs) simp_all

text \<open>
  \<open>dll lh p xs n\<close>: in the heap \<open>lh\<close> the objects \<open>xs\<close> are linked in order, the first one back
  to \<open>p\<close> and the last one on to \<open>n\<close>.
\<close>

fun dll :: "links_heap \<Rightarrow> u64 option \<Rightarrow> u64 list \<Rightarrow> u64 option \<Rightarrow> bool" where
  "dll lh p [] n \<longleftrightarrow> True"
| "dll lh p (x # xs) n \<longleftrightarrow> lh x = \<lparr> links_prev = p, links_next = first_or xs n \<rparr> \<and> dll lh (Some x) xs n"

lemma dll_append [simp]:
  "dll lh p (xs @ ys) n \<longleftrightarrow> dll lh p xs (first_or ys n) \<and> dll lh (last_or xs p) ys n"
  by (induction xs arbitrary: p) auto

lemma dll_frame: "\<forall>x\<in>set xs. lh' x = lh x \<Longrightarrow> dll lh' p xs n = dll lh p xs n"
  by (induction xs arbitrary: p) auto

lemma dll_upd_frame [simp]: "y \<notin> set xs \<Longrightarrow> dll (lh(y := l)) p xs n = dll lh p xs n"
  by (rule dll_frame) auto

lemma set_links_frame [simp]:
  "y \<notin> set xs \<Longrightarrow> dll (set_links y l lh) p xs n = dll lh p xs n"
  "y \<notin> set xs \<Longrightarrow> dll (set_next y o1 lh) p xs n = dll lh p xs n"
  "y \<notin> set xs \<Longrightarrow> dll (set_prev y o1 lh) p xs n = dll lh p xs n"
  "y \<notin> set xs \<Longrightarrow> dll (clear_links y lh) p xs n = dll lh p xs n"
  by (simp_all add: set_links_def set_next_def set_prev_def clear_links_def)

lemma dll_set_next_last:
  "dll lh p (xs @ [x]) n \<Longrightarrow> x \<notin> set xs \<Longrightarrow> dll (set_next x n' lh) p (xs @ [x]) n'"
  by (simp add: set_next_def)

lemma dll_set_prev_first:
  "dll lh p (x # xs) n \<Longrightarrow> x \<notin> set xs \<Longrightarrow> dll (set_prev x p' lh) p' (x # xs) n"
  by (simp add: set_prev_def)

text \<open>
  Insertion, removal and replacement of one node, stated on the links before and after, so that
  they apply whatever order the updates are written in.
\<close>

lemma dll_insert_after:
  assumes "dll lh p (as @ x # bs) n" "distinct (as @ x # bs)" "y \<notin> set (as @ x # bs)"
    and "lh' y = \<lparr> links_prev = Some x, links_next = first_or bs n \<rparr>"
    and "lh' x = (lh x)\<lparr> links_next := Some y \<rparr>"
    and "\<And>b cs. bs = b # cs \<Longrightarrow> lh' b = (lh b)\<lparr> links_prev := Some y \<rparr>"
    and frame: "\<And>z. z \<in> set as \<union> set (tl bs) \<Longrightarrow> lh' z = lh z"
  shows "dll lh' p (as @ x # y # bs) n"
proof -
  have "dll lh' p as (Some x)" using assms(1) dll_frame [of as lh' lh] frame by auto
  moreover have "dll lh' (Some y) bs n"
  proof (cases bs)
    case (Cons b cs)
    then show ?thesis using assms(1,6) dll_frame [of cs lh' lh] frame by auto
  qed simp
  ultimately show ?thesis using assms(1,4,5) by auto
qed

lemma dll_unlink:
  assumes "dll lh p (as @ x # bs) n" "distinct (as @ x # bs)"
    and first: "\<And>b cs. bs = b # cs \<Longrightarrow> lh' b = (lh b)\<lparr> links_prev := last_or as p \<rparr>"
    and last: "\<And>cs a. as = cs @ [a] \<Longrightarrow> lh' a = (lh a)\<lparr> links_next := first_or bs n \<rparr>"
    and frame: "\<And>z. z \<in> set (butlast as) \<union> set (tl bs) \<Longrightarrow> lh' z = lh z"
  shows "dll lh' p (as @ bs) n"
proof -
  have "dll lh' p as (first_or bs n)"
  proof (cases as rule: rev_cases)
    case (snoc cs a)
    then show ?thesis using assms(1) last dll_frame [of cs lh' lh] frame by auto
  qed simp
  moreover have "dll lh' (last_or as p) bs n"
  proof (cases bs)
    case (Cons b cs)
    then show ?thesis using assms(1) first dll_frame [of cs lh' lh] frame by auto
  qed simp
  ultimately show ?thesis by simp
qed

lemma dll_replace:
  assumes "dll lh p (as @ x # bs) n" "distinct (as @ x # bs)" "y \<notin> set (as @ bs)"
    and "lh' y = lh x"
    and first: "\<And>b cs. bs = b # cs \<Longrightarrow> lh' b = (lh b)\<lparr> links_prev := Some y \<rparr>"
    and last: "\<And>cs a. as = cs @ [a] \<Longrightarrow> lh' a = (lh a)\<lparr> links_next := Some y \<rparr>"
    and frame: "\<And>z. z \<in> set (butlast as) \<union> set (tl bs) \<Longrightarrow> lh' z = lh z"
  shows "dll lh' p (as @ y # bs) n"
proof -
  have "dll lh' p as (Some y)"
  proof (cases as rule: rev_cases)
    case (snoc cs a)
    then show ?thesis using assms(1) last dll_frame [of cs lh' lh] frame by auto
  qed simp
  moreover have "dll lh' (Some y) bs n"
  proof (cases bs)
    case (Cons b cs)
    then show ?thesis using assms(1) first dll_frame [of cs lh' lh] frame by auto
  qed simp
  ultimately show ?thesis using assms(1,4) by auto
qed

lemma walk_any_dll:
  "dll lh p xs None \<Longrightarrow> distinct xs \<Longrightarrow> set seen \<inter> set xs = {} \<Longrightarrow>
   walk_any P lh seen (first_or xs None) = Some (\<exists>x\<in>set xs. P x)"
  by (induction xs arbitrary: p seen) auto

section \<open>Queues represent lists\<close>

definition queue_rep :: "'q queue_ends \<Rightarrow> (u64 \<Rightarrow> bool) \<Rightarrow> 'q \<times> links_heap \<Rightarrow> u64 list \<Rightarrow> bool" where
  "queue_rep qe ok s xs \<longleftrightarrow>
     distinct xs \<and> (\<forall>x\<in>set xs. ok x) \<and> dll (snd s) None xs None \<and>
     qe_head qe (fst s) = first_or xs None \<and> qe_tail qe (fst s) = last_or xs None"

lemma queue_rep_heap_frame:
  "queue_rep qe ok (q, lh) xs \<Longrightarrow> (\<And>x. x \<in> set xs \<Longrightarrow> lh' x = lh x) \<Longrightarrow> queue_rep qe ok (q, lh') xs"
  using dll_frame [of xs lh' lh] by (auto simp: queue_rep_def)

text \<open>The contract between the linking code and the owner of the end pointers.\<close>

locale queue_ends_laws =
  fixes qe :: "'q queue_ends" and ok :: "u64 \<Rightarrow> bool"
  assumes head_set_head: "pred_option ok h \<Longrightarrow> qe_head qe (qe_set_head qe h q) = h"
    and tail_set_tail: "pred_option ok t \<Longrightarrow> qe_tail qe (qe_set_tail qe t q) = t"
    and head_set_tail: "qe_head qe (qe_set_tail qe t q) = qe_head qe q"
    and tail_set_head: "qe_tail qe (qe_set_head qe h q) = qe_tail qe q"
begin

lemmas ends_laws = head_set_head tail_set_tail head_set_tail tail_set_head

lemma ok_first: "\<forall>x\<in>set xs. ok x \<Longrightarrow> pred_option ok (first_or xs None)"
  by (cases xs) auto

lemma ok_last: "\<forall>x\<in>set xs. ok x \<Longrightarrow> pred_option ok (last_or xs None)"
  by (cases xs rule: rev_cases) auto

lemma rep_push_back:
  assumes rep: "queue_rep qe ok s xs" and new: "node \<notin> set xs" "ok node"
  shows "queue_rep qe ok (push_back qe node s) (xs @ [node])"
proof (cases xs rule: rev_cases)
  case Nil
  with rep new show ?thesis
    by (auto simp: queue_rep_def push_back_def ends_laws set_links_def split: prod.splits)
next
  case (snoc ys t)
  with rep new show ?thesis
    by (auto simp: queue_rep_def push_back_def ends_laws set_links_def set_next_def split: prod.splits)
qed

lemma push_back_heap_frame:
  assumes "queue_rep qe ok s xs" "y \<notin> set xs" "y \<noteq> node"
  shows "snd (push_back qe node s) y = snd s y"
  using assms
  by (cases xs rule: rev_cases)
    (auto simp: queue_rep_def push_back_def Let_def set_links_def set_next_def split: prod.splits)

lemma pop_front_empty: "queue_rep qe ok s [] \<Longrightarrow> pop_front qe s = (None, s)"
  by (auto simp: queue_rep_def pop_front_def Let_def split: prod.splits)

lemma fst_pop_front: "queue_rep qe ok s xs \<Longrightarrow> fst (pop_front qe s) = first_or xs None"
  by (cases xs) (auto simp: queue_rep_def pop_front_def Let_def split: prod.splits option.splits)

lemma rep_pop_front:
  assumes "queue_rep qe ok s xs"
  shows "queue_rep qe ok (snd (pop_front qe s)) (tl xs)"
proof (cases xs)
  case Nil
  with assms show ?thesis by (simp add: pop_front_empty)
next
  case (Cons x ys)
  with assms show ?thesis
    by (cases ys) (auto simp: queue_rep_def pop_front_def Let_def ends_laws set_prev_def clear_links_def
        set_links_def split: prod.splits)
qed

lemma pop_front_unlinks:
  assumes "queue_rep qe ok s (x # xs)"
  shows "snd (snd (pop_front qe s)) x = unlinked"
  using assms by (auto simp: queue_rep_def pop_front_def Let_def clear_links_def set_links_def split: prod.splits)

lemma pop_front_heap_frame:
  assumes "queue_rep qe ok s xs" "y \<notin> set xs"
  shows "snd (snd (pop_front qe s)) y = snd s y"
proof (cases xs)
  case Nil
  with assms show ?thesis by (simp add: pop_front_empty)
next
  case (Cons x ys)
  with assms show ?thesis
    by (cases ys) (auto simp: queue_rep_def pop_front_def Let_def clear_links_def set_links_def set_prev_def
        split: prod.splits)
qed

lemma contains_iff: "queue_rep qe ok s xs \<Longrightarrow> contains qe node s = Some (node \<in> set xs)"
  using walk_any_dll [of "snd s" None xs "[]"] by (auto simp: queue_rep_def contains_def)

lemma rep_remove:
  assumes rep: "queue_rep qe ok s (xs @ node # ys)"
  shows "queue_rep qe ok (remove qe node s) (xs @ ys)"
proof (cases xs rule: rev_cases; cases ys)
  assume "xs = []" "ys = []"
  with rep show ?thesis
    by (auto simp: queue_rep_def remove_def ends_laws clear_links_def set_links_def split: prod.splits)
next
  fix n zs
  assume "xs = []" "ys = n # zs"
  with rep show ?thesis
    by (auto simp: queue_rep_def remove_def ends_laws clear_links_def set_links_def set_prev_def
        split: prod.splits)
next
  fix ws p
  assume "xs = ws @ [p]" "ys = []"
  with rep show ?thesis
    by (auto simp: queue_rep_def remove_def ends_laws clear_links_def set_links_def set_next_def
        split: prod.splits)
next
  fix ws p n zs
  assume "xs = ws @ [p]" "ys = n # zs"
  with rep show ?thesis
    by (auto simp: queue_rep_def remove_def ends_laws clear_links_def set_links_def set_next_def
        set_prev_def split: prod.splits)
qed

lemma rep_remove1:
  assumes "queue_rep qe ok s xs" "node \<in> set xs"
  shows "queue_rep qe ok (remove qe node s) (remove1 node xs)"
proof -
  obtain as bs where xs: "xs = as @ node # bs" "node \<notin> set as"
    using split_list_first [OF assms(2)] by blast
  then have "remove1 node xs = as @ bs" by (simp add: remove1_append)
  then show ?thesis using rep_remove [of s as node bs] assms(1) xs(1) by simp
qed

lemma remove_unlinks: "snd (remove qe node s) node = unlinked"
  by (simp add: remove_def Let_def clear_links_def set_links_def split: prod.splits option.splits)

lemma remove_heap_frame:
  assumes rep: "queue_rep qe ok s (xs @ node # ys)" and y: "y \<notin> set (xs @ node # ys)"
  shows "snd (remove qe node s) y = snd s y"
proof -
  have "links_prev (snd s node) = last_or xs None" "links_next (snd s node) = first_or ys None"
    using rep by (auto simp: queue_rep_def)
  then show ?thesis using y
    by (cases xs rule: rev_cases; cases ys)
      (auto simp: remove_def Let_def clear_links_def set_links_def set_next_def set_prev_def split: prod.splits)
qed

lemma remove_if_present_rep:
  assumes "queue_rep qe ok s xs"
  shows "\<exists>s'. remove_if_present qe node s = Some (node \<in> set xs, s') \<and>
           queue_rep qe ok s' (remove1 node xs)"
proof (cases "node \<in> set xs")
  case True
  then show ?thesis
    using assms rep_remove1 [OF assms] by (simp add: remove_if_present_def contains_iff del: split_paired_Ex)
next
  case False
  then show ?thesis
    using assms by (simp add: remove_if_present_def contains_iff remove1_idem del: split_paired_Ex)
qed

end

interpretation plain_queue: queue_ends_laws queue_ends_of_queue "\<lambda>_. True"
  by unfold_locales (simp_all add: queue_ends_of_queue_def)

end
