(* ===== verification/Rel4_Mdb.thy ===== *)
theory Rel4_Mdb
  imports Rel4_Cap Rel4_List
begin

text \<open>
  The capability derivation list: the packed link words of \<^verbatim>\<open>kernel/src/object/mdb.rs\<close> and the
  slot operations of \<^verbatim>\<open>kernel/src/object/cnode.rs\<close>, on a heap of capability table entries
  indexed by slot address. The links of the entries are read as the link heap of the queue
  theory, so that the derivation list is one of its doubly linked segments; the lemmas show
  that each operation does to the list of slots what its name says: insertion right after the
  source, and removal. The test for a derivation child is given with its region arithmetic.
\<close>

section \<open>The packed link words\<close>

definition NEXT_MASK :: u64 where "NEXT_MASK = 0x7FFFFFFFFC"
definition MDB_SIGN_EXT :: u64 where "MDB_SIGN_EXT = 0xFFFFFF8000000000"

definition sign_extend_next :: "u64 \<Rightarrow> u64" where
  "sign_extend_next low = (if low AND push_bit 38 1 \<noteq> 0 then low OR MDB_SIGN_EXT else low)"

record mdb_node =
  mdb_words0 :: u64
  mdb_words1 :: u64

definition mdb_null :: mdb_node where
  "mdb_null = \<lparr> mdb_words0 = 0, mdb_words1 = 0 \<rparr>"

definition mdb_new :: "u64 \<Rightarrow> u64 \<Rightarrow> bool \<Rightarrow> bool \<Rightarrow> mdb_node" where
  "mdb_new prv nxt revocable first_badged =
     \<lparr> mdb_words0 = prv,
       mdb_words1 = (nxt AND NEXT_MASK) OR push_bit 1 (of_bool revocable) OR of_bool first_badged \<rparr>"

definition mdb_get_prev :: "mdb_node \<Rightarrow> u64" where
  "mdb_get_prev m = mdb_words0 m"

definition mdb_get_next :: "mdb_node \<Rightarrow> u64" where
  "mdb_get_next m = sign_extend_next (mdb_words1 m AND NEXT_MASK)"

definition mdb_revocable :: "mdb_node \<Rightarrow> bool" where
  "mdb_revocable m \<longleftrightarrow> bits_get 1 1 (mdb_words1 m) \<noteq> 0"

definition mdb_first_badged :: "mdb_node \<Rightarrow> bool" where
  "mdb_first_badged m \<longleftrightarrow> bits_get 0 1 (mdb_words1 m) \<noteq> 0"

definition mdb_set_prev :: "u64 \<Rightarrow> mdb_node \<Rightarrow> mdb_node" where
  "mdb_set_prev v m = m\<lparr> mdb_words0 := v \<rparr>"

definition mdb_set_next :: "u64 \<Rightarrow> mdb_node \<Rightarrow> mdb_node" where
  "mdb_set_next v m = m\<lparr> mdb_words1 := (mdb_words1 m AND NOT NEXT_MASK) OR (v AND NEXT_MASK) \<rparr>"

definition mdb_set_revocable :: "bool \<Rightarrow> mdb_node \<Rightarrow> mdb_node" where
  "mdb_set_revocable v m = m\<lparr> mdb_words1 := bits_set 1 1 (of_bool v) (mdb_words1 m) \<rparr>"

definition mdb_set_first_badged :: "bool \<Rightarrow> mdb_node \<Rightarrow> mdb_node" where
  "mdb_set_first_badged v m = m\<lparr> mdb_words1 := bits_set 0 1 (of_bool v) (mdb_words1 m) \<rparr>"

text \<open>Addresses a derivation link can hold: canonical and four-byte aligned.\<close>

definition cte_addr_ok :: "u64 \<Rightarrow> bool" where
  "cte_addr_ok a \<longleftrightarrow> a \<noteq> 0 \<and> sign_extend_next (a AND NEXT_MASK) = a"

lemma next_mask_eq: "NEXT_MASK = push_bit 2 (mask 37)"
  by (simp add: NEXT_MASK_def mask_eq_exp_minus_1)

lemma bit_next_mask: "bit NEXT_MASK n \<longleftrightarrow> 2 \<le> n \<and> n < 39"
  unfolding next_mask_eq by (auto simp: bit_simps)

lemma bits_get_next_part [bf_simps]:
  "s + m \<le> 2 \<Longrightarrow> bits_get s m (v AND NEXT_MASK) = 0"
  "s + m \<le> 2 \<Longrightarrow> bits_get s m (v AND NOT NEXT_MASK) = bits_get s m v"
  by (rule bit_word_eqI; auto simp: bits_get_def bit_next_mask bit_simps)+

lemma next_part_put [bf_simps]:
  "((nxt AND NEXT_MASK) OR push_bit 1 (of_bool r) OR of_bool f) AND NEXT_MASK = nxt AND NEXT_MASK"
  "((w AND NOT NEXT_MASK) OR (nxt AND NEXT_MASK)) AND NEXT_MASK = nxt AND NEXT_MASK"
  "s + m \<le> 2 \<Longrightarrow> bits_clear s m w AND NEXT_MASK = w AND NEXT_MASK"
  "s + m \<le> 2 \<Longrightarrow> bits_put s m w AND NEXT_MASK = 0"
  by (rule bit_word_eqI; auto simp: bits_clear_def bits_put_def bit_next_mask bit_simps)+

lemma bits_get_flags [bf_simps]:
  "bits_get 1 1 (push_bit 1 (of_bool r)) = of_bool r" "bits_get 0 1 (push_bit 1 (of_bool r)) = 0"
  "bits_get 1 1 (of_bool r) = 0" "bits_get 0 1 (of_bool r) = of_bool r"
  by (cases r; simp add: bits_get_def mask_eq_exp_minus_1)+

lemmas mdb_defs = mdb_new_def mdb_null_def mdb_get_prev_def mdb_get_next_def mdb_revocable_def
  mdb_first_badged_def mdb_set_prev_def mdb_set_next_def mdb_set_revocable_def
  mdb_set_first_badged_def

lemma mdb_new_fields [simp]:
  "mdb_get_prev (mdb_new p n r f) = p"
  "mdb_get_next (mdb_new p n r f) = sign_extend_next (n AND NEXT_MASK)"
  "mdb_revocable (mdb_new p n r f) = r"
  "mdb_first_badged (mdb_new p n r f) = f"
  unfolding mdb_defs by (simp_all only: bf_simps mdb_node.simps) (simp_all add: bf_simps)

lemma sign_extend_next_zero [simp]: "sign_extend_next 0 = 0"
  by (simp add: sign_extend_next_def)

lemma mdb_null_fields [simp]:
  "mdb_get_prev mdb_null = 0" "mdb_get_next mdb_null = 0"
  "\<not> mdb_revocable mdb_null" "\<not> mdb_first_badged mdb_null"
  by (simp_all add: mdb_defs bf_simps)

lemma mdb_set_fields [simp]:
  "mdb_get_prev (mdb_set_prev v m) = v"
  "mdb_get_next (mdb_set_prev v m) = mdb_get_next m"
  "mdb_revocable (mdb_set_prev v m) = mdb_revocable m"
  "mdb_first_badged (mdb_set_prev v m) = mdb_first_badged m"
  "mdb_get_prev (mdb_set_next v m) = mdb_get_prev m"
  "mdb_get_next (mdb_set_next v m) = sign_extend_next (v AND NEXT_MASK)"
  "mdb_revocable (mdb_set_next v m) = mdb_revocable m"
  "mdb_first_badged (mdb_set_next v m) = mdb_first_badged m"
  by (simp_all add: mdb_defs bf_simps)

lemma mdb_set_flag_fields [simp]:
  "mdb_get_prev (mdb_set_revocable b m) = mdb_get_prev m"
  "mdb_get_next (mdb_set_revocable b m) = mdb_get_next m"
  "mdb_revocable (mdb_set_revocable b m) = b"
  "mdb_first_badged (mdb_set_revocable b m) = mdb_first_badged m"
  "mdb_get_prev (mdb_set_first_badged b m) = mdb_get_prev m"
  "mdb_get_next (mdb_set_first_badged b m) = mdb_get_next m"
  "mdb_revocable (mdb_set_first_badged b m) = mdb_revocable m"
  "mdb_first_badged (mdb_set_first_badged b m) = b"
  by (simp_all add: mdb_defs bits_set_def bf_simps bit.conj_disj_distrib2)

section \<open>Capability slots\<close>

record cte =
  cte_cap :: cap
  cte_mdb :: mdb_node

type_synonym cte_heap = "u64 \<Rightarrow> cte"

definition SEL4_SLOT_BITS :: u64 where "SEL4_SLOT_BITS = 5"
definition SEL4_TCB_BITS :: u64 where "SEL4_TCB_BITS = 11"
definition SEL4_ENDPOINT_BITS :: u64 where "SEL4_ENDPOINT_BITS = 4"
definition SEL4_NOTIFICATION_BITS :: u64 where "SEL4_NOTIFICATION_BITS = 5"
definition SEL4_ASID_POOL_BITS :: u64 where "SEL4_ASID_POOL_BITS = 12"
definition SEL4_PAGE_TABLE_BITS :: u64 where "SEL4_PAGE_TABLE_BITS = 12"
definition SEL4_MIN_UNTYPED_BITS :: u64 where "SEL4_MIN_UNTYPED_BITS = 4"

definition cte_null :: cte where
  "cte_null = \<lparr> cte_cap = null_cap, cte_mdb = mdb_null \<rparr>"

definition cte_is_empty :: "cte \<Rightarrow> bool" where
  "cte_is_empty c \<longleftrightarrow> is_null (cte_cap c) \<and> mdb_get_prev (cte_mdb c) = 0 \<and> mdb_get_next (cte_mdb c) = 0"

definition slot_cap :: "cte_heap \<Rightarrow> u64 \<Rightarrow> cap" where
  "slot_cap h slot = cte_cap (h slot)"

definition set_cap :: "u64 \<Rightarrow> cap \<Rightarrow> cte_heap \<Rightarrow> cte_heap" where
  "set_cap slot c h = h(slot := (h slot)\<lparr> cte_cap := c \<rparr>)"

definition update_cap :: "u64 \<Rightarrow> (cap \<Rightarrow> cap) \<Rightarrow> cte_heap \<Rightarrow> cte_heap" where
  "update_cap slot f h = h(slot := (h slot)\<lparr> cte_cap := f (cte_cap (h slot)) \<rparr>)"

definition slot_mdb :: "cte_heap \<Rightarrow> u64 \<Rightarrow> mdb_node" where
  "slot_mdb h slot = cte_mdb (h slot)"

definition set_mdb :: "u64 \<Rightarrow> mdb_node \<Rightarrow> cte_heap \<Rightarrow> cte_heap" where
  "set_mdb slot m h = h(slot := (h slot)\<lparr> cte_mdb := m \<rparr>)"

definition mdb_prev :: "cte_heap \<Rightarrow> u64 \<Rightarrow> u64 option" where
  "mdb_prev h slot = from_kva (mdb_get_prev (cte_mdb (h slot)))"

definition mdb_next :: "cte_heap \<Rightarrow> u64 \<Rightarrow> u64 option" where
  "mdb_next h slot = from_kva (mdb_get_next (cte_mdb (h slot)))"

definition set_mdb_prev :: "u64 \<Rightarrow> u64 option \<Rightarrow> cte_heap \<Rightarrow> cte_heap" where
  "set_mdb_prev slot prv h =
     h(slot := (h slot)\<lparr> cte_mdb := mdb_set_prev (kva_or_zero prv) (cte_mdb (h slot)) \<rparr>)"

definition set_mdb_next :: "u64 \<Rightarrow> u64 option \<Rightarrow> cte_heap \<Rightarrow> cte_heap" where
  "set_mdb_next slot nxt h =
     h(slot := (h slot)\<lparr> cte_mdb := mdb_set_next (kva_or_zero nxt) (cte_mdb (h slot)) \<rparr>)"

definition slot_is_empty :: "cte_heap \<Rightarrow> u64 \<Rightarrow> bool" where
  "slot_is_empty h slot = cte_is_empty (h slot)"

definition mdb_insert_after :: "u64 \<Rightarrow> u64 \<Rightarrow> cte_heap \<Rightarrow> cte_heap option" where
  "mdb_insert_after src new_cte h =
     (if src = new_cte then None
      else
        let nxt = mdb_next h src;
            h1 = h(new_cte := (h new_cte)\<lparr> cte_mdb :=
                     mdb_set_next (kva_or_zero nxt) (mdb_set_prev src (cte_mdb (h new_cte))) \<rparr>);
            h2 = set_mdb_next src (Some new_cte) h1
        in Some (case nxt of Some n \<Rightarrow> set_mdb_prev n (Some new_cte) h2 | None \<Rightarrow> h2))"

definition insert_new_cap :: "u64 \<Rightarrow> u64 \<Rightarrow> cap \<Rightarrow> cte_heap \<Rightarrow> cte_heap option" where
  "insert_new_cap src slot c h =
     (if src = slot then None
      else if \<not> slot_is_empty h slot then None
      else
        let nxt = mdb_next h src;
            h1 = h(slot := \<lparr> cte_cap = c, cte_mdb = mdb_new src (kva_or_zero nxt) True True \<rparr>);
            h2 = (case nxt of Some n \<Rightarrow> set_mdb_prev n (Some slot) h1 | None \<Rightarrow> h1)
        in Some (set_mdb_next src (Some slot) h2))"

definition is_cap_revocable :: "cap \<Rightarrow> cap \<Rightarrow> bool" where
  "is_cap_revocable new_cap src_cap = (case tag new_cap of
     Some TagFrame \<Rightarrow> False
   | Some TagPageTable \<Rightarrow> False
   | Some TagAsidPool \<Rightarrow> False
   | Some TagUntyped \<Rightarrow> True
   | Some TagEndpoint \<Rightarrow> endpoint_badge new_cap \<noteq> endpoint_badge src_cap
   | Some TagNotification \<Rightarrow> notification_badge new_cap \<noteq> notification_badge src_cap
   | Some TagIrqHandler \<Rightarrow> tag src_cap = Some TagIrqControl
   | _ \<Rightarrow> False)"

definition set_untyped_cap_as_full :: "u64 \<Rightarrow> cap \<Rightarrow> cap \<Rightarrow> cte_heap \<Rightarrow> cte_heap" where
  "set_untyped_cap_as_full slot src_cap new_cap h =
     (if tag src_cap \<noteq> Some TagUntyped \<or> tag new_cap \<noteq> Some TagUntyped then h
      else if untyped_ptr src_cap \<noteq> untyped_ptr new_cap
            \<or> untyped_block_size_bits src_cap \<noteq> untyped_block_size_bits new_cap then h
      else
        let size_bits = untyped_block_size_bits src_cap in
        if size_bits < SEL4_MIN_UNTYPED_BITS then h
        else
          let free_index = shl64 1 (unat (size_bits - SEL4_MIN_UNTYPED_BITS))
          in update_cap slot (set_untyped_free_index free_index) h)"

definition cte_insert :: "u64 \<Rightarrow> cap \<Rightarrow> u64 \<Rightarrow> cte_heap \<Rightarrow> cte_heap option" where
  "cte_insert src new_cap dest_slot h =
     (if src = dest_slot then None
      else if \<not> slot_is_empty h dest_slot then None
      else
        let src_cap = cte_cap (h src);
            src_mdb = cte_mdb (h src);
            new_revocable = is_cap_revocable new_cap src_cap;
            new_mdb = mdb_new src (mdb_get_next src_mdb) new_revocable new_revocable;
            h1 = set_untyped_cap_as_full src src_cap new_cap h;
            h2 = h1(dest_slot := \<lparr> cte_cap = new_cap, cte_mdb = new_mdb \<rparr>);
            h3 = h2(src := (h2 src)\<lparr> cte_mdb := mdb_set_next dest_slot (cte_mdb (h2 src)) \<rparr>)
        in Some (case from_kva (mdb_get_next src_mdb) of
                   Some n \<Rightarrow> set_mdb_prev n (Some dest_slot) h3
                 | None \<Rightarrow> h3))"

definition mdb_unlink :: "u64 \<Rightarrow> cte_heap \<Rightarrow> cte_heap" where
  "mdb_unlink slot h =
     (let prv = mdb_prev h slot;
          nxt = mdb_next h slot;
          h1 = (case prv of Some p \<Rightarrow> set_mdb_next p nxt h | None \<Rightarrow> h);
          h2 = (case nxt of Some n \<Rightarrow> set_mdb_prev n prv h1 | None \<Rightarrow> h1)
      in set_mdb slot mdb_null h2)"

section \<open>Derivation children\<close>

definition region_mask :: "u64 \<Rightarrow> u64" where
  "region_mask size_bits = (if 64 \<le> size_bits then - 1 else push_bit (unat size_bits) 1 - 1)"

definition region_top :: "u64 \<Rightarrow> u64 \<Rightarrow> u64" where
  "region_top base size_bits = base + region_mask size_bits"

definition zombie_region_size_bits :: "cap \<Rightarrow> u64" where
  "zombie_region_size_bits c =
     (if zombie_is_tcb c then SEL4_TCB_BITS else zombie_bits c + SEL4_SLOT_BITS)"

definition frame_size_bits :: "u64 \<Rightarrow> u64 option" where
  "frame_size_bits sz =
     (if sz = 0 then Some 12 else if sz = 1 then Some 21 else if sz = 2 then Some 30 else None)"

definition physical_cap_region :: "cap \<Rightarrow> (u64 \<times> u64) option" where
  "physical_cap_region c = (case tag c of
     Some TagUntyped \<Rightarrow> Some (untyped_ptr c, untyped_block_size_bits c)
   | Some TagEndpoint \<Rightarrow> Some (endpoint_ptr c, SEL4_ENDPOINT_BITS)
   | Some TagNotification \<Rightarrow> Some (notification_ptr c, SEL4_NOTIFICATION_BITS)
   | Some TagCNode \<Rightarrow> Some (cnode_ptr c, cnode_radix c + SEL4_SLOT_BITS)
   | Some TagThread \<Rightarrow> Some (thread_ptr c, SEL4_TCB_BITS)
   | Some TagZombie \<Rightarrow> Some (zombie_ptr c, zombie_region_size_bits c)
   | Some TagFrame \<Rightarrow>
       (case frame_size_bits (frame_size c) of
          None \<Rightarrow> None | Some b \<Rightarrow> Some (frame_base_ptr c, b))
   | Some TagPageTable \<Rightarrow> Some (page_table_base_ptr c, SEL4_PAGE_TABLE_BITS)
   | Some TagAsidPool \<Rightarrow> Some (asid_pool_ptr c, SEL4_ASID_POOL_BITS)
   | _ \<Rightarrow> None)"

text \<open>The body of \<open>is_mdb_parent_of\<close>, on the two entries it reads.\<close>

definition mdb_parent_of :: "cte \<Rightarrow> cte \<Rightarrow> bool" where
  "mdb_parent_of a b =
     (if \<not> mdb_revocable (cte_mdb a) then False
      else
        let cap_a = cte_cap a; cap_b = cte_cap b; b_first_badged = mdb_first_badged (cte_mdb b) in
        case (tag cap_a, tag cap_b) of
          (Some tag_a, Some tag_b) \<Rightarrow>
            (case tag_a of
               TagUntyped \<Rightarrow>
                 (let a_base = untyped_ptr cap_a;
                      a_top = region_top a_base (untyped_block_size_bits cap_a)
                  in case physical_cap_region cap_b of
                       None \<Rightarrow> False
                     | Some (b_base, b_size_bits) \<Rightarrow>
                         (let b_top = region_top b_base b_size_bits
                          in a_base \<le> b_base \<and> b_top \<le> a_top \<and> b_base \<le> b_top))
             | TagEndpoint \<Rightarrow>
                 tag_b = TagEndpoint \<and> endpoint_ptr cap_a = endpoint_ptr cap_b \<and>
                 (let badge = endpoint_badge cap_a
                  in badge = 0 \<or> badge = endpoint_badge cap_b \<and> \<not> b_first_badged)
             | TagNotification \<Rightarrow>
                 tag_b = TagNotification \<and> notification_ptr cap_a = notification_ptr cap_b \<and>
                 (let badge = notification_badge cap_a
                  in badge = 0 \<or> badge = notification_badge cap_b \<and> \<not> b_first_badged)
             | TagCNode \<Rightarrow>
                 tag_b = TagCNode \<and> cnode_ptr cap_a = cnode_ptr cap_b \<and> cnode_radix cap_a = cnode_radix cap_b
             | TagThread \<Rightarrow> tag_b = TagThread \<and> thread_ptr cap_a = thread_ptr cap_b
             | TagReply \<Rightarrow> tag_b = TagReply \<and> reply_tcb_ptr cap_a = reply_tcb_ptr cap_b
             | TagIrqControl \<Rightarrow> tag_b = TagIrqControl \<or> tag_b = TagIrqHandler
             | TagIrqHandler \<Rightarrow> tag_b = TagIrqHandler \<and> irq_handler_irq cap_a = irq_handler_irq cap_b
             | TagFrame \<Rightarrow>
                 tag_b = TagFrame \<and>
                 (case (frame_size_bits (frame_size cap_a), frame_size_bits (frame_size cap_b)) of
                    (Some a_bits, Some b_bits) \<Rightarrow>
                      (let a_base = frame_base_ptr cap_a; b_base = frame_base_ptr cap_b;
                           a_top = region_top a_base a_bits; b_top = region_top b_base b_bits
                       in a_base \<le> b_base \<and> b_top \<le> a_top \<and> b_base \<le> b_top)
                  | _ \<Rightarrow> False)
             | TagPageTable \<Rightarrow> tag_b = TagPageTable \<and> page_table_base_ptr cap_a = page_table_base_ptr cap_b
             | TagDomain \<Rightarrow> tag_b = TagDomain
             | TagAsidControl \<Rightarrow> tag_b = TagAsidControl
             | TagAsidPool \<Rightarrow> tag_b = TagAsidPool \<and> asid_pool_ptr cap_a = asid_pool_ptr cap_b
             | _ \<Rightarrow> False)
        | _ \<Rightarrow> False)"

definition is_mdb_parent_of :: "cte_heap \<Rightarrow> u64 \<Rightarrow> u64 \<Rightarrow> bool" where
  "is_mdb_parent_of h slot other = mdb_parent_of (h slot) (h other)"

definition mdb_has_children :: "cte_heap \<Rightarrow> u64 \<Rightarrow> bool" where
  "mdb_has_children h slot = (case mdb_next h slot of
     Some nxt \<Rightarrow> is_mdb_parent_of h slot nxt
   | None \<Rightarrow> False)"

section \<open>Whole CNodes\<close>

definition cnode_bytes :: "nat \<Rightarrow> u64" where
  "cnode_bytes radix = shl64 1 radix * 32"

text \<open>The slots of a CNode, given as base and number of slots.\<close>

definition cnode_slot :: "u64 \<times> nat \<Rightarrow> nat \<Rightarrow> u64 option" where
  "cnode_slot cn i = objarray_get (fst cn) 32 (snd cn) i"

definition clear_cnode :: "u64 \<times> nat \<Rightarrow> cte_heap \<Rightarrow> cte_heap" where
  "clear_cnode cn h =
     fold (\<lambda>i h. h(fst cn + of_nat (i * 32) := cte_null)) [0..<snd cn] h"

definition install_initial_cap :: "u64 \<times> nat \<Rightarrow> nat \<Rightarrow> cap \<Rightarrow> cte_heap \<Rightarrow> cte_heap option" where
  "install_initial_cap cn i c h = do {
     slot \<leftarrow> cnode_slot cn i;
     if \<not> is_null (slot_cap h slot) then None
     else Some (h(slot := \<lparr> cte_cap = c,
            cte_mdb = mdb_set_first_badged True (mdb_set_revocable True mdb_null) \<rparr>))
   }"

section \<open>The derivation list\<close>

definition mdb_links :: "cte_heap \<Rightarrow> links_heap" where
  "mdb_links h x = \<lparr> links_prev = mdb_prev h x, links_next = mdb_next h x \<rparr>"

definition mdb_list :: "cte_heap \<Rightarrow> u64 list \<Rightarrow> bool" where
  "mdb_list h xs \<longleftrightarrow> distinct xs \<and> (\<forall>x\<in>set xs. cte_addr_ok x) \<and> dll (mdb_links h) None xs None"

lemma sign_extend_next_ok: "cte_addr_ok a \<Longrightarrow> sign_extend_next (a AND NEXT_MASK) = a"
  by (simp add: cte_addr_ok_def)

lemma cte_addr_ok_nonzero: "cte_addr_ok a \<Longrightarrow> a \<noteq> 0"
  by (simp add: cte_addr_ok_def)

lemma next_word_ok:
  "pred_option cte_addr_ok n \<Longrightarrow> from_kva (sign_extend_next (kva_or_zero n AND NEXT_MASK)) = n"
  by (cases n) (auto simp: sign_extend_next_ok cte_addr_ok_nonzero)

lemma prev_word_ok: "pred_option cte_addr_ok n \<Longrightarrow> from_kva (kva_or_zero n) = n"
  by (cases n) (auto simp: cte_addr_ok_nonzero)

lemma mdb_links_set_cap [simp]:
  "mdb_links (set_cap slot c h) = mdb_links h" "mdb_links (update_cap slot f h) = mdb_links h"
  by (auto simp: mdb_links_def mdb_prev_def mdb_next_def set_cap_def update_cap_def fun_eq_iff)

lemma mdb_links_set_next [simp]:
  "pred_option cte_addr_ok n \<Longrightarrow> mdb_links (set_mdb_next slot n h) = set_next slot n (mdb_links h)"
  using next_word_ok [of n]
  by (auto simp: mdb_links_def mdb_prev_def mdb_next_def set_mdb_next_def set_next_def fun_eq_iff)

lemma mdb_links_set_prev [simp]:
  "pred_option cte_addr_ok p \<Longrightarrow> mdb_links (set_mdb_prev slot p h) = set_prev slot p (mdb_links h)"
  using prev_word_ok [of p]
  by (auto simp: mdb_links_def mdb_prev_def mdb_next_def set_mdb_prev_def set_prev_def fun_eq_iff)

lemma mdb_links_upd [simp]:
  "mdb_links (h(slot := \<lparr> cte_cap = c, cte_mdb = m \<rparr>)) =
   (mdb_links h)(slot := \<lparr> links_prev = from_kva (mdb_get_prev m), links_next = from_kva (mdb_get_next m) \<rparr>)"
  by (auto simp: mdb_links_def mdb_prev_def mdb_next_def fun_eq_iff)

lemma mdb_links_set_mdb [simp]:
  "mdb_links (set_mdb slot m h) =
   (mdb_links h)(slot := \<lparr> links_prev = from_kva (mdb_get_prev m), links_next = from_kva (mdb_get_next m) \<rparr>)"
  by (auto simp: mdb_links_def mdb_prev_def mdb_next_def set_mdb_def fun_eq_iff)

lemma mdb_links_fields [simp]:
  "links_prev (mdb_links h x) = mdb_prev h x" "links_next (mdb_links h x) = mdb_next h x"
  by (simp_all add: mdb_links_def)

lemma mdb_list_links:
  assumes "mdb_list h (as @ x # bs)"
  shows "mdb_prev h x = last_or as None" "mdb_next h x = first_or bs None"
    and "pred_option cte_addr_ok (mdb_prev h x)" "pred_option cte_addr_ok (mdb_next h x)"
proof -
  show p: "mdb_prev h x = last_or as None" and n: "mdb_next h x = first_or bs None"
    using assms by (auto simp: mdb_list_def mdb_links_def)
  show "pred_option cte_addr_ok (mdb_prev h x)"
    using assms unfolding p by (cases as rule: rev_cases) (auto simp: mdb_list_def)
  show "pred_option cte_addr_ok (mdb_next h x)"
    using assms unfolding n by (cases bs) (auto simp: mdb_list_def)
qed

lemma set_untyped_cap_as_full_cases:
  "set_untyped_cap_as_full slot src_cap new_cap h = h \<or>
   (\<exists>f. set_untyped_cap_as_full slot src_cap new_cap h = update_cap slot (set_untyped_free_index f) h)"
  by (auto simp: set_untyped_cap_as_full_def Let_def)

lemma mdb_links_untyped_full [simp]:
  "mdb_links (set_untyped_cap_as_full slot src_cap new_cap h) = mdb_links h"
  using set_untyped_cap_as_full_cases [of slot src_cap new_cap h] by auto

lemma kva_mdb_next: "kva_or_zero (mdb_next h x) = mdb_get_next (cte_mdb (h x))"
  by (simp add: mdb_next_def)

lemma mdb_list_next_first:
  "mdb_list h (as @ x # bs) \<Longrightarrow> mdb_next h x = Some n \<Longrightarrow> \<exists>cs. bs = n # cs \<and> n \<noteq> x"
  using mdb_list_links(2) [of h as x bs] by (cases bs) (auto simp: mdb_list_def)

text \<open>The links after an insertion, whatever the new entry and its flags.\<close>

definition links_inserted :: "cte_heap \<Rightarrow> u64 \<Rightarrow> u64 \<Rightarrow> links_heap" where
  "links_inserted h src dest =
     (let lh = set_next src (Some dest)
                 ((mdb_links h)(dest := \<lparr> links_prev = Some src, links_next = mdb_next h src \<rparr>))
      in case mdb_next h src of Some n \<Rightarrow> set_prev n (Some dest) lh | None \<Rightarrow> lh)"

lemma mdb_list_inserted:
  assumes l: "mdb_list h (as @ src # bs)" and d: "dest \<notin> set (as @ src # bs)" "cte_addr_ok dest"
    and h': "mdb_links h' = links_inserted h src dest"
  shows "mdb_list h' (as @ src # dest # bs)"
proof -
  have n: "mdb_next h src = first_or bs None" using mdb_list_links [OF l] by auto
  have dst: "distinct (as @ src # bs)" using l by (auto simp: mdb_list_def)
  have "dll (mdb_links h') None (as @ src # dest # bs) None"
  proof (rule dll_insert_after [where lh = "mdb_links h"])
    show "dll (mdb_links h) None (as @ src # bs) None" using l by (auto simp: mdb_list_def)
    show "mdb_links h' dest = \<lparr> links_prev = Some src, links_next = first_or bs None \<rparr>"
      using d(1) n by (cases bs) (auto simp: h' links_inserted_def set_next_def set_prev_def)
    show "mdb_links h' src = (mdb_links h src)\<lparr> links_next := Some dest \<rparr>"
      using d(1) dst n by (cases bs) (auto simp: h' links_inserted_def set_next_def set_prev_def)
    show "mdb_links h' b = (mdb_links h b)\<lparr> links_prev := Some dest \<rparr>" if "bs = b # cs" for b cs
      using d(1) dst n that by (auto simp: h' links_inserted_def set_next_def set_prev_def)
    show "mdb_links h' z = mdb_links h z" if "z \<in> set as \<union> set (tl bs)" for z
      using d(1) dst n that by (cases bs) (auto simp: h' links_inserted_def set_next_def set_prev_def)
  qed (use dst d in auto)
  then show ?thesis using l d by (auto simp: mdb_list_def)
qed

lemma cte_insert_list:
  assumes l: "mdb_list h (as @ src # bs)" and d: "dest \<notin> set (as @ src # bs)" "cte_addr_ok dest"
    and e: "slot_is_empty h dest"
  obtains h' where "cte_insert src c dest h = Some h'" "mdb_list h' (as @ src # dest # bs)"
    "slot_cap h' dest = c"
    "\<And>x. x \<noteq> dest \<Longrightarrow> x \<noteq> src \<Longrightarrow> slot_cap h' x = slot_cap h x"
    "\<And>x. x \<notin> set (as @ src # dest # bs) \<Longrightarrow> h' x = h x"
proof -
  define h3 where "h3 = (let h1 = set_untyped_cap_as_full src (cte_cap (h src)) c h;
     r = is_cap_revocable c (cte_cap (h src));
     h2 = h1(dest := \<lparr> cte_cap = c, cte_mdb = mdb_new src (mdb_get_next (cte_mdb (h src))) r r \<rparr>)
     in set_mdb_next src (Some dest) h2)"
  define h' where "h' = (case mdb_next h src of Some n \<Rightarrow> set_mdb_prev n (Some dest) h3 | None \<Rightarrow> h3)"
  note hdefs = h'_def h3_def Let_def set_mdb_prev_def set_mdb_next_def
  have sd: "src \<noteq> dest" and srcok: "cte_addr_ok src" using l d by (auto simp: mdb_list_def)
  have n: "mdb_next h src = first_or bs None" "pred_option cte_addr_ok (mdb_next h src)"
    using mdb_list_links [OF l] by auto
  have ins: "cte_insert src c dest h = Some h'"
    using sd e unfolding cte_insert_def hdefs mdb_next_def kva_or_zero_simps by simp
  have "mdb_links h' = links_inserted h src dest"
    using d(2) srcok next_word_ok [OF n(2)]
    by (auto simp: kva_mdb_next h'_def h3_def links_inserted_def Let_def cte_addr_ok_nonzero split: option.split)
  then have ml: "mdb_list h' (as @ src # dest # bs)" by (rule mdb_list_inserted [OF l d])
  note full = set_untyped_cap_as_full_cases [of src "cte_cap (h src)" c h]
  have frame: "h' x = h x" if "x \<notin> set (as @ src # dest # bs)" for x
    using that n(1) full by (cases bs) (auto simp: hdefs update_cap_def)
  have dcap: "slot_cap h' dest = c"
    using d(1) n(1) by (cases bs) (auto simp: hdefs slot_cap_def)
  have caps: "slot_cap h' x = slot_cap h x" if "x \<noteq> dest" "x \<noteq> src" for x
    using that full by (auto simp: hdefs update_cap_def slot_cap_def split: option.split)
  show thesis by (rule that [OF ins ml dcap caps frame])
qed

lemma insert_new_cap_list:
  assumes l: "mdb_list h (as @ src # bs)" and d: "dest \<notin> set (as @ src # bs)" "cte_addr_ok dest"
    and e: "slot_is_empty h dest"
  obtains h' where "insert_new_cap src dest c h = Some h'" "mdb_list h' (as @ src # dest # bs)"
    "slot_cap h' dest = c" "mdb_revocable (cte_mdb (h' dest))" "mdb_first_badged (cte_mdb (h' dest))"
    "\<And>x. x \<noteq> dest \<Longrightarrow> slot_cap h' x = slot_cap h x"
    "\<And>x. x \<notin> set (as @ src # dest # bs) \<Longrightarrow> h' x = h x"
proof -
  define h1 where "h1 = h(dest := \<lparr> cte_cap = c, cte_mdb = mdb_new src (kva_or_zero (mdb_next h src)) True True \<rparr>)"
  define h' where "h' = set_mdb_next src (Some dest)
    (case mdb_next h src of Some n \<Rightarrow> set_mdb_prev n (Some dest) h1 | None \<Rightarrow> h1)"
  note hdefs = h'_def h1_def set_mdb_prev_def set_mdb_next_def
  have sd: "src \<noteq> dest" and srcok: "cte_addr_ok src" using l d by (auto simp: mdb_list_def)
  have n: "mdb_next h src = first_or bs None" "pred_option cte_addr_ok (mdb_next h src)"
    using mdb_list_links [OF l] by auto
  have ins: "insert_new_cap src dest c h = Some h'"
    using sd e unfolding insert_new_cap_def h'_def h1_def Let_def by simp
  have "mdb_links h' = links_inserted h src dest"
    using d(2) srcok next_word_ok [OF n(2)] mdb_list_next_first [OF l]
    by (auto simp: h'_def h1_def links_inserted_def Let_def cte_addr_ok_nonzero set_prev_def set_next_def
        fun_eq_iff split: option.split)
  then have ml: "mdb_list h' (as @ src # dest # bs)" by (rule mdb_list_inserted [OF l d])
  have frame: "h' x = h x" if "x \<notin> set (as @ src # dest # bs)" for x
    using that n(1) by (cases bs) (auto simp: hdefs)
  have dest: "slot_cap h' dest = c" "mdb_revocable (cte_mdb (h' dest))" "mdb_first_badged (cte_mdb (h' dest))"
    using d(1) n(1) by (cases bs; auto simp: hdefs slot_cap_def)+
  have caps: "slot_cap h' x = slot_cap h x" if "x \<noteq> dest" for x
    using that by (auto simp: hdefs slot_cap_def split: option.split)
  show thesis by (rule that [OF ins ml dest caps frame])
qed

lemma mdb_unlink_list:
  assumes l: "mdb_list h (as @ x # bs)"
  shows "mdb_list (mdb_unlink x h) (as @ bs)"
    and "cte_mdb (mdb_unlink x h x) = mdb_null"
    and "slot_cap (mdb_unlink x h) y = slot_cap h y"
    and "y \<notin> set (as @ x # bs) \<Longrightarrow> mdb_unlink x h y = h y"
proof -
  note lk = mdb_list_links [OF l]
  note udefs = mdb_unlink_def Let_def set_mdb_prev_def set_mdb_next_def set_mdb_def
  have dst: "distinct (as @ x # bs)" using l by (auto simp: mdb_list_def)
  have links: "mdb_links (mdb_unlink x h) = (let lh = mdb_links h;
      lh1 = (case last_or as None of Some p \<Rightarrow> set_next p (first_or bs None) lh | None \<Rightarrow> lh);
      lh2 = (case first_or bs None of Some n \<Rightarrow> set_prev n (last_or as None) lh1 | None \<Rightarrow> lh1)
      in lh2(x := unlinked))"
    using lk by (auto simp: mdb_unlink_def Let_def unlinked_def split: option.split)
  have "dll (mdb_links (mdb_unlink x h)) None (as @ bs) None"
  proof (rule dll_unlink [where lh = "mdb_links h" and x = x])
    show "dll (mdb_links h) None (as @ x # bs) None" using l by (simp add: mdb_list_def)
    show "mdb_links (mdb_unlink x h) b = (mdb_links h b)\<lparr> links_prev := last_or as None \<rparr>"
      if "bs = b # cs" for b cs
      using dst that by (cases as rule: rev_cases) (auto simp: links Let_def set_next_def set_prev_def)
    show "mdb_links (mdb_unlink x h) a = (mdb_links h a)\<lparr> links_next := first_or bs None \<rparr>"
      if "as = cs @ [a]" for cs a
      using dst that by (cases bs) (auto simp: links Let_def set_next_def set_prev_def)
    show "mdb_links (mdb_unlink x h) z = mdb_links h z" if "z \<in> set (butlast as) \<union> set (tl bs)" for z
      using dst that by (cases as rule: rev_cases; cases bs)
        (auto simp: links Let_def set_next_def set_prev_def)
  qed (rule dst)
  then show "mdb_list (mdb_unlink x h) (as @ bs)" using l by (auto simp: mdb_list_def)
  show "cte_mdb (mdb_unlink x h x) = mdb_null" by (simp add: udefs)
  show "slot_cap (mdb_unlink x h) y = slot_cap h y" by (simp add: udefs slot_cap_def split: option.split)
  show "mdb_unlink x h y = h y" if "y \<notin> set (as @ x # bs)"
    using that lk(1,2) by (cases as rule: rev_cases; cases bs) (auto simp: udefs)
qed

section \<open>Properties\<close>

text \<open>A root capability alone in the list, and an empty slot next to it.\<close>

definition slot_a :: u64 where "slot_a = 0xFFFFFFC080010000"
definition slot_b :: u64 where "slot_b = 0xFFFFFFC080010020"

definition one_slot :: "cap \<Rightarrow> cte_heap" where
  "one_slot c = (\<lambda>_. cte_null)(slot_a := \<lparr> cte_cap = c, cte_mdb = mdb_new 0 0 True True \<rparr>)"

lemma slot_addr_ok: "cte_addr_ok slot_a" "cte_addr_ok slot_b" "slot_a \<noteq> slot_b" "slot_b \<noteq> slot_a"
  by (simp_all add: cte_addr_ok_def slot_a_def slot_b_def sign_extend_next_def NEXT_MASK_def MDB_SIGN_EXT_def)

lemma one_slot_list: "mdb_list (one_slot c) [slot_a]" "slot_is_empty (one_slot c) slot_b"
  using slot_addr_ok
  by (simp_all add: mdb_list_def mdb_links_def mdb_prev_def mdb_next_def one_slot_def slot_is_empty_def
      cte_is_empty_def cte_null_def is_null_iff_tag from_kva_def)

text \<open>
  C25: Deriving a capability puts the new slot right behind its source in the derivation list and
  disturbs no other entry of the list: the order of the other slots, their capabilities and their
  flags stay. The new slot holds the new capability and is marked revocable exactly when the kind of
  derivation makes it so; the source keeps its capability, up to the free index of an untyped.
\<close>

theorem cte_insert_refines_list_insert:
  assumes "mdb_list h (as @ src # bs)" "dest \<notin> set (as @ src # bs)" "cte_addr_ok dest"
    and "slot_is_empty h dest"
  shows "\<exists>h'. cte_insert src c dest h = Some h' \<and> mdb_list h' (as @ src # dest # bs) \<and>
    slot_cap h' dest = c \<and>
    mdb_revocable (slot_mdb h' dest) = is_cap_revocable c (slot_cap h src) \<and>
    mdb_first_badged (slot_mdb h' dest) = is_cap_revocable c (slot_cap h src) \<and>
    (slot_cap h' src = slot_cap h src \<or> (\<exists>i. slot_cap h' src = set_untyped_free_index i (slot_cap h src))) \<and>
    (\<forall>x. x \<noteq> dest \<longrightarrow> mdb_revocable (slot_mdb h' x) = mdb_revocable (slot_mdb h x) \<and>
       mdb_first_badged (slot_mdb h' x) = mdb_first_badged (slot_mdb h x)) \<and>
    (\<forall>x. x \<noteq> dest \<and> x \<noteq> src \<longrightarrow> slot_cap h' x = slot_cap h x)"
proof -
  obtain h' where h': "cte_insert src c dest h = Some h'" "mdb_list h' (as @ src # dest # bs)"
    "slot_cap h' dest = c" "\<And>x. x \<noteq> dest \<Longrightarrow> x \<noteq> src \<Longrightarrow> slot_cap h' x = slot_cap h x"
    using cte_insert_list [OF assms] by blast
  have sd: "src \<noteq> dest" using assms(2) by auto
  have nd: "mdb_next h src \<noteq> Some dest" using mdb_list_next_first [OF assms(1)] assms(2) by auto
  define h1 where "h1 = set_untyped_cap_as_full src (cte_cap (h src)) c h"
  define r where "r = is_cap_revocable c (cte_cap (h src))"
  have eq: "h' = (let h3 = h1(dest := \<lparr> cte_cap = c, cte_mdb = mdb_new src (mdb_get_next (cte_mdb (h src))) r r \<rparr>,
                 src := (h1 src)\<lparr> cte_mdb := mdb_set_next dest (cte_mdb (h1 src)) \<rparr>)
      in case mdb_next h src of Some n \<Rightarrow> set_mdb_prev n (Some dest) h3 | None \<Rightarrow> h3)"
    using h'(1) sd assms(4) by (simp add: cte_insert_def Let_def h1_def r_def mdb_next_def split: option.splits)
  have h1: "cte_mdb (h1 x) = cte_mdb (h x)"
    "cte_cap (h1 src) = cte_cap (h src) \<or> (\<exists>i. cte_cap (h1 src) = set_untyped_free_index i (cte_cap (h src)))" for x
    using set_untyped_cap_as_full_cases [of src "cte_cap (h src)" c h] by (auto simp: h1_def update_cap_def)
  note defs = eq Let_def slot_mdb_def slot_cap_def set_mdb_prev_def
  have "mdb_revocable (slot_mdb h' dest) = is_cap_revocable c (slot_cap h src)"
    "mdb_first_badged (slot_mdb h' dest) = is_cap_revocable c (slot_cap h src)"
    using sd nd by (auto simp: defs r_def split: option.split)
  moreover have "slot_cap h' src = slot_cap h src \<or> (\<exists>i. slot_cap h' src = set_untyped_free_index i (slot_cap h src))"
    using sd h1(2) by (auto simp: defs split: option.split)
  moreover have "mdb_revocable (slot_mdb h' x) = mdb_revocable (slot_mdb h x) \<and>
       mdb_first_badged (slot_mdb h' x) = mdb_first_badged (slot_mdb h x)" if "x \<noteq> dest" for x
    using sd that by (auto simp: defs h1(1) split: option.split)
  ultimately show ?thesis using h' by blast
qed

theorem cte_insert_refines_list_insert_witness:
  "\<exists>h'. cte_insert slot_a (set_endpoint_badge 5 (new_endpoint 0xFFFFFFC080020000)) slot_b
      (one_slot (new_endpoint 0xFFFFFFC080020000)) = Some h' \<and>
     mdb_list h' [slot_a, slot_b]"
  using cte_insert_refines_list_insert [of "one_slot (new_endpoint 0xFFFFFFC080020000)" "[]" slot_a "[]" slot_b
      "set_endpoint_badge 5 (new_endpoint 0xFFFFFFC080020000)"]
    one_slot_list [of "new_endpoint 0xFFFFFFC080020000"] slot_addr_ok
  by (auto simp del: split_paired_Ex)

end
