(* ===== verification/Rel4_Abi.thy ===== *)
theory Rel4_Abi
  imports Rel4_Mdb
begin

text \<open>
  The words of the binary interface (\<^verbatim>\<open>abi/types.rs\<close>, \<^verbatim>\<open>abi/syscall.rs\<close>, \<^verbatim>\<open>abi/fault.rs\<close>), the errors of
  system calls and their labels (\<^verbatim>\<open>api/syscall.rs\<close>), invocation labels, and the object types of
  \<^verbatim>\<open>Untyped_Retype\<close> (\<^verbatim>\<open>arch/riscv64/sel4_arch\<close>).
\<close>

section \<open>Message information\<close>

definition message_info_new :: "u64 \<Rightarrow> u64 \<Rightarrow> u64 \<Rightarrow> u64 \<Rightarrow> u64" where
  "message_info_new lbl caps_unwrapped extra_caps len =
     push_bit 12 (lbl AND 0x000FFFFFFFFFFFFF) OR push_bit 9 (caps_unwrapped AND 7) OR push_bit 7 (extra_caps AND 3) OR (len AND 0x7F)"

definition mi_label :: "u64 \<Rightarrow> u64" where "mi_label w = drop_bit 12 w AND 0x000FFFFFFFFFFFFF"
definition mi_caps_unwrapped :: "u64 \<Rightarrow> u64" where "mi_caps_unwrapped w = drop_bit 9 w AND 7"
definition mi_extra_caps :: "u64 \<Rightarrow> u64" where "mi_extra_caps w = drop_bit 7 w AND 3"
definition mi_length :: "u64 \<Rightarrow> u64" where "mi_length w = w AND 0x7F"

definition cap_rights_new :: "bool \<Rightarrow> bool \<Rightarrow> bool \<Rightarrow> bool \<Rightarrow> u64" where
  "cap_rights_new grant_reply grant read write =
     push_bit 3 (of_bool grant_reply) OR push_bit 2 (of_bool grant) OR push_bit 1 (of_bool read) OR of_bool write"

definition cnode_cap_data_new :: "u64 \<Rightarrow> u64 \<Rightarrow> u64" where
  "cnode_cap_data_new guard guard_size = push_bit 6 (guard AND 0x03FFFFFFFFFFFFFF) OR (guard_size AND 0x3F)"

definition N_MSG_REGISTERS :: nat where "N_MSG_REGISTERS = 4"
definition N_TOTAL_MSG_REGISTERS :: nat where "N_TOTAL_MSG_REGISTERS = 120"
definition RETYPE_FAN_OUT_LIMIT :: u64 where "RETYPE_FAN_OUT_LIMIT = 256"
definition RESET_CHUNK_BITS :: u64 where "RESET_CHUNK_BITS = 8"
definition SEL4_MAX_UNTYPED_BITS :: u64 where "SEL4_MAX_UNTYPED_BITS = 38"

section \<open>Errors and faults\<close>

datatype syscall_error =
    InvalidArgument | InvalidCapability | IllegalOperation | RangeError | AlignmentError | NotEnoughMemory
  | DeleteFirst | RevokeFirst | TruncatedMessage | FailedLookup | Unsupported | Preempted

fun to_label :: "syscall_error \<Rightarrow> u64" where
  "to_label InvalidArgument = 1"
| "to_label InvalidCapability = 2"
| "to_label IllegalOperation = 3"
| "to_label RangeError = 4"
| "to_label AlignmentError = 5"
| "to_label FailedLookup = 6"
| "to_label TruncatedMessage = 7"
| "to_label DeleteFirst = 8"
| "to_label RevokeFirst = 9"
| "to_label NotEnoughMemory = 10"
| "to_label Unsupported = 3"
| "to_label Preempted = 3"

datatype fault_label = FlCapFault | FlUnknownSyscall | FlUserException | FlVmFault

fun fault_label_raw :: "fault_label \<Rightarrow> u64" where
  "fault_label_raw FlCapFault = 1"
| "fault_label_raw FlUnknownSyscall = 2"
| "fault_label_raw FlUserException = 3"
| "fault_label_raw FlVmFault = 5"

datatype syscall_number =
    SysCall | SysReplyRecv | SysSend | SysNBSend | SysRecv | SysReply | SysYield | SysNBRecv | SysDebugPutChar
  | SysDebugDumpScheduler | SysDebugHalt | SysDebugCapIdentify | SysDebugSnapshot | SysDebugNameThread
  | SysDebugSendIpi | SysSetTLSBase

definition syscall_from_raw :: "u64 \<Rightarrow> syscall_number option" where
  "syscall_from_raw v =
     (if v = - 1 then Some SysCall
      else if v = - 2 then Some SysReplyRecv
      else if v = - 3 then Some SysSend
      else if v = - 4 then Some SysNBSend
      else if v = - 5 then Some SysRecv
      else if v = - 6 then Some SysReply
      else if v = - 7 then Some SysYield
      else if v = - 8 then Some SysNBRecv
      else if v = - 9 then Some SysDebugPutChar
      else if v = - 10 then Some SysDebugDumpScheduler
      else if v = - 11 then Some SysDebugHalt
      else if v = - 12 then Some SysDebugCapIdentify
      else if v = - 13 then Some SysDebugSnapshot
      else if v = - 14 then Some SysDebugNameThread
      else if v = - 15 then Some SysDebugSendIpi
      else if v = - 29 then Some SysSetTLSBase
      else None)"

section \<open>Invocation labels\<close>

datatype invocation_label =
    UntypedRetype | TcbReadRegisters | TcbWriteRegisters | TcbCopyRegisters | TcbConfigure | TcbSetPriority
  | TcbSetMcPriority | TcbSetSchedParams | TcbSetIpcBuffer | TcbSetSpace | TcbSuspend | TcbResume
  | TcbBindNotification | TcbUnbindNotification | TcbSetTlsBase | TcbSetFlags | CNodeRevoke | CNodeDelete
  | CNodeCancelBadgedSends | CNodeCopy | CNodeMint | CNodeMove | CNodeMutate | CNodeRotate | CNodeSaveCaller
  | IrqIssueIrqHandler | IrqAck | IrqSetHandler | IrqClearHandler | DomainSet | DomainScheduleConfigure
  | DomainScheduleSetStart

fun invocation_label_raw :: "invocation_label \<Rightarrow> u64" where
  "invocation_label_raw UntypedRetype = 1"
| "invocation_label_raw TcbReadRegisters = 2"
| "invocation_label_raw TcbWriteRegisters = 3"
| "invocation_label_raw TcbCopyRegisters = 4"
| "invocation_label_raw TcbConfigure = 5"
| "invocation_label_raw TcbSetPriority = 6"
| "invocation_label_raw TcbSetMcPriority = 7"
| "invocation_label_raw TcbSetSchedParams = 8"
| "invocation_label_raw TcbSetIpcBuffer = 9"
| "invocation_label_raw TcbSetSpace = 10"
| "invocation_label_raw TcbSuspend = 11"
| "invocation_label_raw TcbResume = 12"
| "invocation_label_raw TcbBindNotification = 13"
| "invocation_label_raw TcbUnbindNotification = 14"
| "invocation_label_raw TcbSetTlsBase = 15"
| "invocation_label_raw TcbSetFlags = 16"
| "invocation_label_raw CNodeRevoke = 17"
| "invocation_label_raw CNodeDelete = 18"
| "invocation_label_raw CNodeCancelBadgedSends = 19"
| "invocation_label_raw CNodeCopy = 20"
| "invocation_label_raw CNodeMint = 21"
| "invocation_label_raw CNodeMove = 22"
| "invocation_label_raw CNodeMutate = 23"
| "invocation_label_raw CNodeRotate = 24"
| "invocation_label_raw CNodeSaveCaller = 25"
| "invocation_label_raw IrqIssueIrqHandler = 26"
| "invocation_label_raw IrqAck = 27"
| "invocation_label_raw IrqSetHandler = 28"
| "invocation_label_raw IrqClearHandler = 29"
| "invocation_label_raw DomainSet = 30"
| "invocation_label_raw DomainScheduleConfigure = 31"
| "invocation_label_raw DomainScheduleSetStart = 32"

definition invocation_label_matches :: "u64 \<Rightarrow> invocation_label \<Rightarrow> bool" where
  "invocation_label_matches label_id lbl \<longleftrightarrow> label_id = invocation_label_raw lbl"

definition PAGE_TABLE_MAP :: u64 where "PAGE_TABLE_MAP = 33"
definition PAGE_TABLE_UNMAP :: u64 where "PAGE_TABLE_UNMAP = 34"
definition PAGE_MAP :: u64 where "PAGE_MAP = 35"
definition PAGE_UNMAP :: u64 where "PAGE_UNMAP = 36"
definition PAGE_GET_ADDRESS :: u64 where "PAGE_GET_ADDRESS = 37"
definition ASID_CONTROL_MAKE_POOL :: u64 where "ASID_CONTROL_MAKE_POOL = 38"
definition ASID_POOL_ASSIGN :: u64 where "ASID_POOL_ASSIGN = 39"
definition IRQ_ISSUE_IRQ_HANDLER_TRIGGER :: u64 where "IRQ_ISSUE_IRQ_HANDLER_TRIGGER = 40"

definition mapped_table_coverage_bits :: "u64 \<Rightarrow> nat option" where
  "mapped_table_coverage_bits label_id = (if label_id = PAGE_TABLE_MAP then Some 0 else None)"

definition is_mapped_table_unmap :: "u64 \<Rightarrow> bool" where
  "is_mapped_table_unmap label_id \<longleftrightarrow> label_id = PAGE_TABLE_UNMAP"

definition io_port_in_reply_length :: "u64 \<Rightarrow> u64" where "io_port_in_reply_length label_id = 0"

section \<open>Object types\<close>

datatype object_type =
    ObUntyped | ObTcb | ObEndpoint | ObNotification | ObCapTable | ObGigaPage | ObFourKPage | ObMegaPage | ObPageTable

definition object_type_from_raw :: "u64 \<Rightarrow> object_type option" where
  "object_type_from_raw v =
     (if v = 0 then Some ObUntyped
      else if v = 1 then Some ObTcb
      else if v = 2 then Some ObEndpoint
      else if v = 3 then Some ObNotification
      else if v = 4 then Some ObCapTable
      else if v = 5 then Some ObGigaPage
      else if v = 6 then Some ObFourKPage
      else if v = 7 then Some ObMegaPage
      else if v = 8 then Some ObPageTable
      else None)"

fun size_bits :: "object_type \<Rightarrow> u64 \<Rightarrow> u64" where
  "size_bits ObUntyped user_size = user_size"
| "size_bits ObTcb user_size = SEL4_TCB_BITS"
| "size_bits ObEndpoint user_size = SEL4_ENDPOINT_BITS"
| "size_bits ObNotification user_size = SEL4_NOTIFICATION_BITS"
| "size_bits ObCapTable user_size = user_size + SEL4_SLOT_BITS"
| "size_bits ObFourKPage user_size = 12"
| "size_bits ObPageTable user_size = 12"
| "size_bits ObMegaPage user_size = 21"
| "size_bits ObGigaPage user_size = 30"

fun device_retype_allowed :: "object_type \<Rightarrow> bool" where
  "device_retype_allowed ObUntyped = True"
| "device_retype_allowed ObFourKPage = True"
| "device_retype_allowed ObMegaPage = True"
| "device_retype_allowed ObGigaPage = True"
| "device_retype_allowed _ = False"

fun create_cap :: "object_type \<Rightarrow> u64 \<Rightarrow> u64 \<Rightarrow> bool \<Rightarrow> cap" where
  "create_cap ObUntyped region_base user_size is_device = new_untyped region_base user_size 0 is_device"
| "create_cap ObCapTable region_base user_size is_device = new_cnode region_base user_size 0 0"
| "create_cap ObFourKPage region_base user_size is_device =
     new_frame region_base FRAME_SIZE_4K FRAME_RIGHTS_READ_WRITE is_device"
| "create_cap ObMegaPage region_base user_size is_device =
     new_frame region_base FRAME_SIZE_MEGAPAGE FRAME_RIGHTS_READ_WRITE is_device"
| "create_cap ObGigaPage region_base user_size is_device =
     new_frame region_base FRAME_SIZE_GIGAPAGE FRAME_RIGHTS_READ_WRITE is_device"
| "create_cap ObPageTable region_base user_size is_device = new_page_table region_base"
| "create_cap ObEndpoint region_base user_size is_device = new_endpoint region_base"
| "create_cap ObNotification region_base user_size is_device = new_notification region_base"
| "create_cap ObTcb region_base user_size is_device = new_thread region_base"

end
