(* ===== verification/Rel4_Derivation.thy ===== *)
theory Rel4_Derivation
  imports Rel4_Mdb
begin

text \<open>
  Moving and exchanging slots and emptying a slot (the slot part of \<^verbatim>\<open>api/invocation.rs\<close>): the links of
  the derivation neighbours follow the moved entry. The lemmas show that moving and exchanging rename
  the slots in the derivation lists, also when the two slots are neighbours, and that emptying
  removes one slot. Also here is the test whether a slot holds the last capability to its object.
\<close>

section \<open>Operations\<close>

definition mdb_link :: "u64 \<Rightarrow> u64 option" where "mdb_link kva = from_kva kva"

definition relink_mdb_neighbors :: "u64 \<Rightarrow> mdb_node \<Rightarrow> cte_heap \<Rightarrow> cte_heap" where
  "relink_mdb_neighbors new_slot m h =
     (let h1 = (case mdb_link (mdb_get_prev m) of Some prv \<Rightarrow> set_mdb_next prv (Some new_slot) h | None \<Rightarrow> h)
      in case mdb_link (mdb_get_next m) of Some nxt \<Rightarrow> set_mdb_prev nxt (Some new_slot) h1 | None \<Rightarrow> h1)"

definition cnode_move_slot :: "u64 \<Rightarrow> u64 \<Rightarrow> cap \<Rightarrow> cte_heap \<Rightarrow> cte_heap option" where
  "cnode_move_slot src dst new_cap h =
     (if src = dst then None
      else if is_null (slot_cap h src) then None
      else if \<not> is_null (slot_cap h dst) then None
      else if mdb_get_next (slot_mdb h dst) \<noteq> 0 \<or> mdb_get_prev (slot_mdb h dst) \<noteq> 0 then None
      else
        let moved_mdb = slot_mdb h src;
            h1 = set_cap dst new_cap h;
            h2 = set_cap src null_cap h1;
            h3 = set_mdb dst moved_mdb h2;
            h4 = set_mdb src mdb_null h3
        in Some (relink_mdb_neighbors dst moved_mdb h4))"

definition cnode_swap_slots :: "cap \<Rightarrow> u64 \<Rightarrow> cap \<Rightarrow> u64 \<Rightarrow> cte_heap \<Rightarrow> cte_heap option" where
  "cnode_swap_slots cap1 slot1 cap2 slot2 h =
     (if slot1 = slot2 then None
      else
        let h1 = set_cap slot1 cap2 h;
            h2 = set_cap slot2 cap1 h1;
            mdb1 = slot_mdb h2 slot1;
            h3 = relink_mdb_neighbors slot2 mdb1 h2;
            mdb2 = slot_mdb h3 slot2;
            h4 = set_mdb slot1 mdb2 h3;
            h5 = set_mdb slot2 mdb1 h4
        in Some (relink_mdb_neighbors slot1 mdb2 h5))"

definition cap_swap_for_delete :: "u64 \<Rightarrow> u64 \<Rightarrow> cte_heap \<Rightarrow> cte_heap option" where
  "cap_swap_for_delete slot1 slot2 h =
     (if slot1 = slot2 then Some h
      else cnode_swap_slots (slot_cap h slot1) slot1 (slot_cap h slot2) slot2 h)"

definition same_object_as :: "cap \<Rightarrow> cap \<Rightarrow> bool" where
  "same_object_as a b =
     (if tag a = Some TagUntyped \<or> tag a = Some TagIrqControl \<or> tag a = Some TagIoPortControl then False
      else case (tag a, tag b) of
        (Some TagEndpoint, Some TagEndpoint) \<Rightarrow> endpoint_ptr a = endpoint_ptr b
      | (Some TagNotification, Some TagNotification) \<Rightarrow> notification_ptr a = notification_ptr b
      | (Some TagCNode, Some TagCNode) \<Rightarrow> cnode_ptr a = cnode_ptr b \<and> cnode_radix a = cnode_radix b
      | (Some TagThread, Some TagThread) \<Rightarrow> thread_ptr a = thread_ptr b
      | (Some TagReply, Some TagReply) \<Rightarrow> reply_tcb_ptr a = reply_tcb_ptr b
      | (Some TagIrqHandler, Some TagIrqHandler) \<Rightarrow> irq_handler_irq a = irq_handler_irq b
      | (Some TagIoPort, Some TagIoPort) \<Rightarrow> io_port_first a = io_port_first b \<and> io_port_last a = io_port_last b
      | (Some TagDomain, Some TagDomain) \<Rightarrow> True
      | (Some TagAsidControl, Some TagAsidControl) \<Rightarrow> True
      | (Some TagPageTable, Some TagPageTable) \<Rightarrow> page_table_base_ptr a = page_table_base_ptr b
      | (Some TagAsidPool, Some TagAsidPool) \<Rightarrow> asid_pool_ptr a = asid_pool_ptr b
      | (Some TagFrame, Some TagFrame) \<Rightarrow>
          frame_base_ptr a = frame_base_ptr b \<and> frame_size a = frame_size b \<and> frame_is_device a = frame_is_device b
      | _ \<Rightarrow> False)"

definition is_final_capability :: "u64 \<Rightarrow> cte_heap \<Rightarrow> bool" where
  "is_final_capability slot h =
     (let c = slot_cap h slot; m = slot_mdb h slot in
      if (case mdb_link (mdb_get_prev m) of Some prv \<Rightarrow> same_object_as (slot_cap h prv) c | None \<Rightarrow> False) then False
      else if (case mdb_link (mdb_get_next m) of Some nxt \<Rightarrow> same_object_as c (slot_cap h nxt) | None \<Rightarrow> False) then False
      else True)"

text \<open>The part of \<^verbatim>\<open>empty_slot\<close> before the clean-up of the deleted capability.\<close>

definition empty_slot_links :: "u64 \<Rightarrow> cte_heap \<Rightarrow> cte_heap" where
  "empty_slot_links slot h =
     (let m = slot_mdb h slot;
          prv = mdb_link (mdb_get_prev m);
          nxt = mdb_link (mdb_get_next m);
          h1 = (case prv of Some p \<Rightarrow> set_mdb_next p nxt h | None \<Rightarrow> h);
          h2 = (case nxt of
                  Some n \<Rightarrow>
                    let h' = set_mdb_prev n prv h1 in
                    if mdb_first_badged m
                    then h'(n := (h' n)\<lparr> cte_mdb := mdb_set_first_badged True (cte_mdb (h' n)) \<rparr>) else h'
                | None \<Rightarrow> h1);
          h3 = set_cap slot null_cap h2
      in set_mdb slot mdb_null h3)"

section \<open>Renaming lists\<close>

definition swap_of :: "u64 \<Rightarrow> u64 \<Rightarrow> u64 \<Rightarrow> u64" where
  "swap_of a b x = (if x = a then b else if x = b then a else x)"

definition links_renamed :: "(u64 \<Rightarrow> u64) \<Rightarrow> links_heap \<Rightarrow> links_heap \<Rightarrow> bool" where
  "links_renamed f lh lh' \<longleftrightarrow> (\<forall>x. lh' (f x) =
     \<lparr> links_prev = map_option f (links_prev (lh x)), links_next = map_option f (links_next (lh x)) \<rparr>)"

text \<open>
  The links of all slots agree: a slot is the successor of another exactly when that one is its
  predecessor, and no slot is its own neighbour.
\<close>

definition links_consistent :: "links_heap \<Rightarrow> bool" where
  "links_consistent lh \<longleftrightarrow>
     (\<forall>x y. links_next (lh x) = Some y \<longleftrightarrow> links_prev (lh y) = Some x) \<and> (\<forall>x. links_next (lh x) \<noteq> Some x)"

lemma dll_renamed:
  assumes "links_renamed f lh lh'" "dll lh p xs n"
  shows "dll lh' (map_option f p) (map f xs) (map_option f n)"
  using assms(2)
proof (induction xs arbitrary: p)
  case (Cons x xs)
  then show ?case using assms(1) by (cases xs) (auto simp: links_renamed_def)
qed simp

definition relink :: "u64 \<Rightarrow> links \<Rightarrow> links_heap \<Rightarrow> links_heap" where
  "relink ns l lh =
     (let lh1 = (case links_prev l of Some p \<Rightarrow> set_next p (Some ns) lh | None \<Rightarrow> lh)
      in case links_next l of Some n \<Rightarrow> set_prev n (Some ns) lh1 | None \<Rightarrow> lh1)"

lemma relink_fields [simp]:
  "links_next (relink ns l lh y) = (if links_prev l = Some y then Some ns else links_next (lh y))"
  "links_prev (relink ns l lh y) = (if links_next l = Some y then Some ns else links_prev (lh y))"
  by (auto simp: relink_def Let_def set_next_def set_prev_def split: option.split)

lemma links_eqI: "links_prev l = links_prev l' \<Longrightarrow> links_next l = links_next l' \<Longrightarrow> l = (l' :: links)"
  by (cases l; cases l') simp

lemma consistentD:
  assumes "links_consistent lh"
  shows "links_next (lh x) = Some y \<longleftrightarrow> links_prev (lh y) = Some x" "links_next (lh x) \<noteq> Some x"
    "links_prev (lh x) \<noteq> Some x"
    "links_prev (lh x) = Some z \<Longrightarrow> links_prev (lh y) = Some z \<Longrightarrow> x = y"
proof -
  show l: "links_next (lh x) = Some y \<longleftrightarrow> links_prev (lh y) = Some x" for x y
    using assms unfolding links_consistent_def by blast
  show "links_next (lh x) \<noteq> Some x" "links_prev (lh x) \<noteq> Some x"
    using assms unfolding links_consistent_def by blast+
  show "links_prev (lh x) = Some z \<Longrightarrow> links_prev (lh y) = Some z \<Longrightarrow> x = y"
    using l [of z x] l [of z y] by simp
qed

lemma map_swap_of:
  "map_option (swap_of a b) v =
     (if v = Some a then Some b else if v = Some b then Some a else v)"
  by (cases v) (auto simp: swap_of_def)

text \<open>The exchange on links: the order of the steps is what makes neighbouring slots come out right.\<close>

lemma links_swapped:
  assumes c: "links_consistent lh" and ne: "s1 \<noteq> s2"
    and lh1: "lh1 = relink s2 (lh s1) lh"
    and lh': "lh' = relink s1 (lh1 s2) (lh1(s1 := lh1 s2, s2 := lh s1))"
  shows "links_renamed (swap_of s1 s2) lh lh'"
  unfolding links_renamed_def
proof (intro allI links_eqI)
  note cd = consistentD [OF c]
  fix x
  show "links_prev (lh' (swap_of s1 s2 x)) = links_prev \<lparr> links_prev = map_option (swap_of s1 s2) (links_prev (lh x)),
      links_next = map_option (swap_of s1 s2) (links_next (lh x)) \<rparr>"
    unfolding map_swap_of using ne cd(1) cd(2,3) by (auto simp: lh' lh1 swap_of_def dest: cd(4))
  show "links_next (lh' (swap_of s1 s2 x)) = links_next \<lparr> links_prev = map_option (swap_of s1 s2) (links_prev (lh x)),
      links_next = map_option (swap_of s1 s2) (links_next (lh x)) \<rparr>"
    unfolding map_swap_of using ne cd(1) cd(2,3) by (auto simp: lh' lh1 swap_of_def dest: cd(4))
qed

lemma links_moved:
  assumes c: "links_consistent lh" and ne: "src \<noteq> dst" and free: "lh dst = unlinked"
    and lh': "lh' = relink dst (lh src) (lh(dst := lh src, src := unlinked))"
  shows "links_renamed (swap_of src dst) lh lh'"
  unfolding links_renamed_def
proof (intro allI links_eqI)
  note cd = consistentD [OF c]
  have none: "links_prev (lh x) \<noteq> Some dst" "links_next (lh x) \<noteq> Some dst" for x
    using cd(1) [of dst x] cd(1) [of x dst] free by (auto simp: unlinked_def)
  fix x
  show "links_prev (lh' (swap_of src dst x)) = links_prev \<lparr> links_prev = map_option (swap_of src dst) (links_prev (lh x)),
      links_next = map_option (swap_of src dst) (links_next (lh x)) \<rparr>"
    unfolding map_swap_of using ne cd(1) cd(2,3) none free by (auto simp: lh' swap_of_def unlinked_def dest: cd(4))
  show "links_next (lh' (swap_of src dst x)) = links_next \<lparr> links_prev = map_option (swap_of src dst) (links_prev (lh x)),
      links_next = map_option (swap_of src dst) (links_next (lh x)) \<rparr>"
    unfolding map_swap_of using ne cd(1) cd(2,3) none free by (auto simp: lh' swap_of_def unlinked_def dest: cd(4))
qed

section \<open>Packed entries\<close>

definition mdb_flags :: "cte_heap \<Rightarrow> u64 \<Rightarrow> bool \<times> bool" where
  "mdb_flags h x = (mdb_revocable (slot_mdb h x), mdb_first_badged (slot_mdb h x))"

definition node_links :: "mdb_node \<Rightarrow> links" where
  "node_links m = \<lparr> links_prev = from_kva (mdb_get_prev m), links_next = from_kva (mdb_get_next m) \<rparr>"

lemma node_links_slot: "node_links (slot_mdb h x) = mdb_links h x"
  by (simp add: node_links_def slot_mdb_def mdb_links_def mdb_prev_def mdb_next_def)

lemma relink_mdb_neighbors_links:
  assumes "cte_addr_ok ns"
  shows "mdb_links (relink_mdb_neighbors ns m h) = relink ns (node_links m) (mdb_links h)"
  using assms by (auto simp: relink_mdb_neighbors_def relink_def Let_def node_links_def mdb_link_def split: option.split)

lemma relink_mdb_neighbors_rest [simp]:
  "slot_cap (relink_mdb_neighbors ns m h) x = slot_cap h x"
  "mdb_flags (relink_mdb_neighbors ns m h) x = mdb_flags h x"
  by (auto simp: relink_mdb_neighbors_def Let_def slot_cap_def mdb_flags_def slot_mdb_def set_mdb_next_def
      set_mdb_prev_def split: option.split)

lemma relink_mdb_other:
  "links_prev (node_links m) \<noteq> Some x \<Longrightarrow> links_next (node_links m) \<noteq> Some x \<Longrightarrow>
   slot_mdb (relink_mdb_neighbors ns m h) x = slot_mdb h x"
  by (auto simp: relink_mdb_neighbors_def Let_def slot_mdb_def set_mdb_next_def set_mdb_prev_def node_links_def
      mdb_link_def split: option.split)

lemma slot_simps [simp]:
  "slot_cap (set_cap a c h) x = (if x = a then c else slot_cap h x)" "slot_cap (set_mdb a m h) x = slot_cap h x"
  "slot_mdb (set_cap a c h) x = slot_mdb h x" "slot_mdb (set_mdb a m h) x = (if x = a then m else slot_mdb h x)"
  by (simp_all add: slot_cap_def slot_mdb_def set_cap_def set_mdb_def)

lemma mdb_flags_simps [simp]:
  "mdb_flags (set_cap a c h) x = mdb_flags h x"
  "mdb_flags (set_mdb a m h) x = (if x = a then (mdb_revocable m, mdb_first_badged m) else mdb_flags h x)"
  by (simp_all add: mdb_flags_def)

lemma mdb_list_renamed:
  assumes "mdb_list h xs" "links_renamed f (mdb_links h) (mdb_links h')" "inj f" "\<And>x. x \<in> set xs \<Longrightarrow> cte_addr_ok (f x)"
  shows "mdb_list h' (map f xs)"
  using assms dll_renamed [OF assms(2), of None xs None]
  by (auto simp: mdb_list_def distinct_map inj_on_def inj_def)

lemma inj_swap_of: "inj (swap_of a b)"
  by (auto simp: inj_def swap_of_def split: if_splits)

lemma swap_addr_ok: "cte_addr_ok a \<Longrightarrow> cte_addr_ok b \<Longrightarrow> cte_addr_ok x \<Longrightarrow> cte_addr_ok (swap_of a b x)"
  by (simp add: swap_of_def)

section \<open>Properties\<close>

text \<open>
  Exchanging two slots exchanges their places in the derivation lists. Both slots may be in the same
  list, even as neighbours, in different lists or in none: every list keeps its order with the two
  slots renamed into each other; the two entries take their flags along and hold the given capabilities,
  and all other entries keep theirs.
\<close>

theorem swap_renames_slots:
  assumes "links_consistent (mdb_links h)" "s1 \<noteq> s2" "cte_addr_ok s1" "cte_addr_ok s2"
  shows "\<exists>h'. cnode_swap_slots c1 s1 c2 s2 h = Some h' \<and>
    links_renamed (swap_of s1 s2) (mdb_links h) (mdb_links h') \<and>
    (\<forall>xs. mdb_list h xs \<longrightarrow> mdb_list h' (map (swap_of s1 s2) xs)) \<and>
    (\<forall>x. mdb_flags h' (swap_of s1 s2 x) = mdb_flags h x) \<and>
    (\<forall>x. slot_cap h' x = (if x = s1 then c2 else if x = s2 then c1 else slot_cap h x))"
proof -
  let ?h2 = "set_cap s2 c1 (set_cap s1 c2 h)"
  let ?m1 = "slot_mdb ?h2 s1"
  let ?h3 = "relink_mdb_neighbors s2 ?m1 ?h2"
  let ?m2 = "slot_mdb ?h3 s2"
  let ?h' = "relink_mdb_neighbors s1 ?m2 (set_mdb s2 ?m1 (set_mdb s1 ?m2 ?h3))"
  have run: "cnode_swap_slots c1 s1 c2 s2 h = Some ?h'"
    using assms(2) by (simp add: cnode_swap_slots_def Let_def del: slot_simps)
  have l3: "mdb_links ?h3 = relink s2 (mdb_links h s1) (mdb_links h)"
    by (simp add: relink_mdb_neighbors_links assms node_links_slot)
  have "mdb_links ?h' = relink s1 (mdb_links ?h3 s2) ((mdb_links ?h3)(s1 := mdb_links ?h3 s2, s2 := mdb_links h s1))"
    by (simp add: relink_mdb_neighbors_links assms node_links_slot flip: node_links_def) 
  then have ren: "links_renamed (swap_of s1 s2) (mdb_links h) (mdb_links ?h')"
    by (rule links_swapped [OF assms(1,2) l3])
  have lists: "mdb_list ?h' (map (swap_of s1 s2) xs)" if "mdb_list h xs" for xs
    by (rule mdb_list_renamed [OF that ren inj_swap_of])
      (use that swap_addr_ok [OF assms(3,4)] in \<open>auto simp: mdb_list_def\<close>)
  have f2: "(mdb_revocable ?m2, mdb_first_badged ?m2) = mdb_flags h s2"
    using relink_mdb_neighbors_rest(2) [of s2 ?m1 ?h2 s2] by (simp add: mdb_flags_def)
  have flags: "mdb_flags ?h' (swap_of s1 s2 x) = mdb_flags h x" for x
    using assms(2) f2 by (auto simp: swap_of_def) (simp_all add: mdb_flags_def)
  have caps: "slot_cap ?h' x = (if x = s1 then c2 else if x = s2 then c1 else slot_cap h x)" for x
    using assms(2) by simp
  show ?thesis using run ren lists flags caps by blast
qed

text \<open>An endpoint capability and its badged copy right behind it.\<close>

definition ep_cap :: cap where "ep_cap = new_endpoint 0xFFFFFFC080020000"

definition two_slots :: cte_heap where
  "two_slots = (\<lambda>_. cte_null)(
     slot_a := \<lparr> cte_cap = ep_cap, cte_mdb = mdb_new 0 slot_b True True \<rparr>,
     slot_b := \<lparr> cte_cap = set_endpoint_badge 5 ep_cap, cte_mdb = mdb_new slot_a 0 True True \<rparr>)"

lemma two_slots_links:
  "mdb_links two_slots x =
     (if x = slot_a then \<lparr> links_prev = None, links_next = Some slot_b \<rparr>
      else if x = slot_b then \<lparr> links_prev = Some slot_a, links_next = None \<rparr> else unlinked)"
  using slot_addr_ok sign_extend_next_ok [OF slot_addr_ok(2)]
  by (auto simp: two_slots_def mdb_links_def mdb_prev_def mdb_next_def cte_null_def unlinked_def from_kva_def
      cte_addr_ok_nonzero)

lemma two_slots_ok: "links_consistent (mdb_links two_slots)" "mdb_list two_slots [slot_a, slot_b]"
  using slot_addr_ok by (auto simp: links_consistent_def mdb_list_def two_slots_links unlinked_def)

theorem swap_renames_slots_witness:
  "\<exists>h'. cnode_swap_slots ep_cap slot_a (set_endpoint_badge 5 ep_cap) slot_b two_slots = Some h' \<and>
    mdb_list h' [slot_b, slot_a] \<and> slot_cap h' slot_b = ep_cap"
  using swap_renames_slots [OF two_slots_ok(1) slot_addr_ok(3) slot_addr_ok(1,2), of ep_cap "set_endpoint_badge 5 ep_cap"]
    two_slots_ok(2) slot_addr_ok(3) by (fastforce simp: swap_of_def)

lemma unlinked_not_in_list:
  assumes l: "mdb_list h (as @ src # bs)" and free: "mdb_links h dst = unlinked" and ne: "src \<noteq> dst"
  shows "dst \<notin> set (as @ src # bs)"
proof
  assume "dst \<in> set (as @ src # bs)"
  then obtain us vs where split: "as @ src # bs = us @ dst # vs" by (meson split_list)
  have "mdb_prev h dst = last_or us None" "mdb_next h dst = first_or vs None"
    using mdb_list_links(1,2) [of h us dst vs] l split by simp_all
  then have "us = []" "vs = []"
    using free by (auto simp: mdb_links_def unlinked_def last_or_def first_or_def split: if_splits list.splits)
  then show False using split ne by (cases as) auto
qed

text \<open>
  C26: Moving a capability gives the destination the place of the source in its derivation list, with the
  source's flags, and leaves the source empty; no other entry changes its capability or flags. The
  move refuses, by a kernel panic, a source that is empty or equal to the destination and a
  destination that holds a capability or is still linked.
\<close>

theorem move_renames_slot:
  assumes "links_consistent (mdb_links h)" "cte_addr_ok src" "cte_addr_ok dst"
  shows "(cnode_move_slot src dst c h = None \<longleftrightarrow>
      src = dst \<or> is_null (slot_cap h src) \<or> \<not> is_null (slot_cap h dst) \<or> mdb_links h dst \<noteq> unlinked) \<and>
    (\<forall>h'. cnode_move_slot src dst c h = Some h' \<longrightarrow>
      links_renamed (swap_of src dst) (mdb_links h) (mdb_links h') \<and>
      (\<forall>as bs. mdb_list h (as @ src # bs) \<longrightarrow> mdb_list h' (as @ dst # bs)) \<and>
      mdb_flags h' dst = mdb_flags h src \<and> slot_cap h' dst = c \<and>
      slot_cap h' src = null_cap \<and> slot_mdb h' src = mdb_null \<and>
      (\<forall>x. x \<noteq> src \<longrightarrow> x \<noteq> dst \<longrightarrow> mdb_flags h' x = mdb_flags h x \<and> slot_cap h' x = slot_cap h x))"
proof -
  have linked: "(mdb_get_next (slot_mdb h dst) \<noteq> 0 \<or> mdb_get_prev (slot_mdb h dst) \<noteq> 0) \<longleftrightarrow> mdb_links h dst \<noteq> unlinked"
    by (auto simp: mdb_links_def unlinked_def mdb_prev_def mdb_next_def slot_mdb_def from_kva_def)
  let ?m = "slot_mdb h src"
  let ?h4 = "set_mdb src mdb_null (set_mdb dst ?m (set_cap src null_cap (set_cap dst c h)))"
  let ?h' = "relink_mdb_neighbors dst ?m ?h4"
  have def: "cnode_move_slot src dst c h =
      (if src = dst \<or> is_null (slot_cap h src) \<or> \<not> is_null (slot_cap h dst) \<or> mdb_links h dst \<noteq> unlinked then None
       else Some ?h')"
    using linked by (auto simp: cnode_move_slot_def Let_def)
  have rest: "links_renamed (swap_of src dst) (mdb_links h) (mdb_links ?h')"
    "mdb_list h (as @ src # bs) \<Longrightarrow> mdb_list ?h' (as @ dst # bs)"
    "mdb_flags ?h' dst = mdb_flags h src" "slot_cap ?h' dst = c" "slot_cap ?h' src = null_cap" "slot_mdb ?h' src = mdb_null"
    "x \<noteq> src \<Longrightarrow> x \<noteq> dst \<Longrightarrow> mdb_flags ?h' x = mdb_flags h x \<and> slot_cap ?h' x = slot_cap h x"
    if ne: "src \<noteq> dst" and free: "mdb_links h dst = unlinked" for as bs x
  proof -
    have "mdb_links ?h' = relink dst (mdb_links h src) ((mdb_links h)(dst := mdb_links h src, src := unlinked))"
      by (simp add: relink_mdb_neighbors_links assms node_links_slot unlinked_def fun_upd_twist [OF ne] flip: node_links_def)
    then show ren: "links_renamed (swap_of src dst) (mdb_links h) (mdb_links ?h')"
      by (rule links_moved [OF assms(1) ne free])
    show "mdb_list ?h' (as @ dst # bs)" if l: "mdb_list h (as @ src # bs)"
    proof -
      have "dst \<notin> set (as @ src # bs)" by (rule unlinked_not_in_list [OF l free ne])
      then have "map (swap_of src dst) (as @ src # bs) = as @ dst # bs"
        using l by (auto simp: swap_of_def mdb_list_def intro!: map_idI)
      moreover have "mdb_list ?h' (map (swap_of src dst) (as @ src # bs))"
        by (rule mdb_list_renamed [OF l ren inj_swap_of])
          (use l swap_addr_ok [OF assms(2,3)] in \<open>auto simp: mdb_list_def\<close>)
      ultimately show ?thesis by metis
    qed
    show "mdb_flags ?h' dst = mdb_flags h src" using ne by (simp add: mdb_flags_def [of h src])
    have "mdb_links h src = node_links ?m" by (simp add: node_links_slot)
    then have "links_prev (node_links ?m) \<noteq> Some src" "links_next (node_links ?m) \<noteq> Some src"
      using consistentD(2,3) [OF assms(1), of src] by simp_all
    then show "slot_mdb ?h' src = mdb_null" using ne by (simp add: relink_mdb_other)
  qed (use ne in simp_all)
  show ?thesis using def rest by auto
qed

text \<open>The second of the two linked slots moves to a third.\<close>

definition slot_c :: u64 where "slot_c = 0xFFFFFFC080011000"

theorem move_renames_slot_witness:
  "\<exists>h'. cnode_move_slot slot_b slot_c ep_cap two_slots = Some h' \<and> mdb_list h' [slot_a, slot_c] \<and>
     slot_cap h' slot_c = ep_cap \<and> slot_cap h' slot_b = null_cap"
proof -
  have c: "slot_c \<noteq> slot_a" "slot_c \<noteq> slot_b" "cte_addr_ok slot_c"
    by (simp_all add: slot_a_def slot_b_def slot_c_def cte_addr_ok_def sign_extend_next_def NEXT_MASK_def MDB_SIGN_EXT_def)
  have list: "mdb_list two_slots ([slot_a] @ slot_b # [])" using two_slots_ok(2) by simp
  have caps: "\<not> is_null (slot_cap two_slots slot_b)" "is_null (slot_cap two_slots slot_c)" by code_simp+
  have "mdb_links two_slots slot_c = unlinked" using c by (simp add: two_slots_links)
  then obtain h' where h': "cnode_move_slot slot_b slot_c ep_cap two_slots = Some h'"
    using move_renames_slot [OF two_slots_ok(1) slot_addr_ok(2) c(3), of ep_cap] caps c(2) by auto
  moreover have "mdb_list h' ([slot_a] @ slot_c # [])" "slot_cap h' slot_c = ep_cap" "slot_cap h' slot_b = null_cap"
    using move_renames_slot [OF two_slots_ok(1) slot_addr_ok(2) c(3), of ep_cap] h' list by blast+
  ultimately show ?thesis by simp
qed

section \<open>Emptying a slot\<close>

lemma mdb_links_first_badged [simp]:
  "mdb_links (h(n := (h n)\<lparr> cte_mdb := mdb_set_first_badged v (cte_mdb (h n)) \<rparr>)) = mdb_links h"
  by (auto simp: mdb_links_def mdb_prev_def mdb_next_def fun_eq_iff)

lemma empty_slot_links_eq:
  assumes "mdb_list h (as @ x # bs)"
  shows "mdb_links (empty_slot_links x h) = mdb_links (mdb_unlink x h)"
  using mdb_list_links [OF assms]
  by (auto simp: empty_slot_links_def mdb_unlink_def Let_def mdb_link_def slot_mdb_def simp flip: mdb_prev_def mdb_next_def
      split: option.split)

lemma empty_slot_links_list:
  assumes "mdb_list h (as @ x # bs)"
  shows "mdb_list (empty_slot_links x h) (as @ bs)"
    and "slot_cap (empty_slot_links x h) x = null_cap" "slot_mdb (empty_slot_links x h) x = mdb_null"
    and "y \<noteq> x \<Longrightarrow> slot_cap (empty_slot_links x h) y = slot_cap h y"
    and "y \<noteq> x \<Longrightarrow> mdb_revocable (slot_mdb (empty_slot_links x h) y) = mdb_revocable (slot_mdb h y)"
    and "y \<notin> set (as @ x # bs) \<Longrightarrow> empty_slot_links x h y = h y"
proof -
  show "mdb_list (empty_slot_links x h) (as @ bs)"
    using mdb_unlink_list(1) [OF assms] by (simp add: mdb_list_def empty_slot_links_eq [OF assms])
  note defs = empty_slot_links_def Let_def set_mdb_next_def set_mdb_prev_def set_cap_def set_mdb_def slot_cap_def slot_mdb_def
  show "slot_cap (empty_slot_links x h) x = null_cap" "slot_mdb (empty_slot_links x h) x = mdb_null"
    by (simp_all add: defs)
  show "slot_cap (empty_slot_links x h) y = slot_cap h y" if "y \<noteq> x"
    using that by (auto simp: defs split: option.split)
  show "mdb_revocable (slot_mdb (empty_slot_links x h) y) = mdb_revocable (slot_mdb h y)" if "y \<noteq> x"
    using that by (auto simp: defs split: option.split)
  show "empty_slot_links x h y = h y" if "y \<notin> set (as @ x # bs)"
    using that mdb_list_links(1,2) [OF assms]
    by (cases as rule: rev_cases; cases bs) (auto simp: defs mdb_link_def mdb_prev_def mdb_next_def)
qed

end
