(* ===== verification/Rel4_Paging.thy ===== *)
theory Rel4_Paging
  imports Rel4_Prelude
begin

text \<open>
  Sv39 page-table entries, indices and root register values (\<^verbatim>\<open>machine/paging.rs\<close>) and the address
  arithmetic of the kernel windows (the pure part of \<^verbatim>\<open>arch/riscv64/object/vspace.rs\<close>). The lemmas
  are the round trips: what is packed into an entry or into \<^verbatim>\<open>satp\<close> is read back, and translating an
  address to the other space and back gives it again.
\<close>

section \<open>Page-table entries\<close>

definition RISCV_PG_SHIFT :: nat where "RISCV_PG_SHIFT = 12"

definition PTE_V :: u64 where "PTE_V = 1"
definition PTE_R :: u64 where "PTE_R = 2"
definition PTE_W :: u64 where "PTE_W = 4"
definition PTE_X :: u64 where "PTE_X = 8"
definition PTE_U :: u64 where "PTE_U = 16"
definition PTE_G :: u64 where "PTE_G = 32"
definition PTE_A :: u64 where "PTE_A = 64"
definition PTE_D :: u64 where "PTE_D = 128"

lemmas PTE_flags = PTE_V_def PTE_R_def PTE_W_def PTE_X_def PTE_U_def PTE_G_def PTE_A_def PTE_D_def

definition pte_next :: "u64 \<Rightarrow> u64" where
  "pte_next pt_paddr = push_bit 10 (drop_bit RISCV_PG_SHIFT pt_paddr) OR PTE_V"

definition pte_leaf :: "u64 \<Rightarrow> u64 \<Rightarrow> u64" where
  "pte_leaf paddr flags = push_bit 10 (drop_bit RISCV_PG_SHIFT paddr) OR flags"

definition pte_is_valid :: "u64 \<Rightarrow> bool" where
  "pte_is_valid p \<longleftrightarrow> p AND PTE_V \<noteq> 0"

definition pte_is_leaf :: "u64 \<Rightarrow> bool" where
  "pte_is_leaf p \<longleftrightarrow> p AND PTE_V \<noteq> 0 \<and> p AND (PTE_R OR PTE_W OR PTE_X) \<noteq> 0"

definition pte_ppn :: "u64 \<Rightarrow> u64" where
  "pte_ppn p = drop_bit 10 p AND (push_bit 44 1 - 1)"

definition pte_next_pt_paddr :: "u64 \<Rightarrow> u64" where
  "pte_next_pt_paddr p = push_bit RISCV_PG_SHIFT (pte_ppn p)"

definition pte_leaf_pa :: "u64 \<Rightarrow> u64" where
  "pte_leaf_pa p = push_bit RISCV_PG_SHIFT (pte_ppn p)"

definition pt_index :: "u64 \<Rightarrow> nat \<Rightarrow> nat" where
  "pt_index vaddr level =
     unat (drop_bit (RISCV_PG_SHIFT + PT_INDEX_BITS * level) vaddr AND (push_bit PT_INDEX_BITS 1 - 1))"

definition make_satp :: "u64 \<Rightarrow> u64 \<Rightarrow> u64" where
  "make_satp asid root_pt_paddr =
     push_bit 60 8 OR push_bit 44 (asid AND 0xFFFF)
       OR (drop_bit RISCV_PG_SHIFT root_pt_paddr AND (push_bit 44 1 - 1))"

definition satp_root_paddr :: "u64 \<Rightarrow> u64" where
  "satp_root_paddr v = push_bit RISCV_PG_SHIFT (v AND (push_bit 44 1 - 1))"

section \<open>Addresses\<close>

definition pptr_to_paddr :: "u64 \<Rightarrow> u64" where "pptr_to_paddr kva = kva - PPTR_BASE + PADDR_BASE"
definition paddr_to_pptr :: "u64 \<Rightarrow> u64" where "paddr_to_pptr pa = pa - PADDR_BASE + PPTR_BASE"
definition kpptr_to_paddr :: "u64 \<Rightarrow> u64" where "kpptr_to_paddr kva = kva - KERNEL_ELF_BASE + PHYS_BASE_RAW"
definition paddr_to_kpptr :: "u64 \<Rightarrow> u64" where "paddr_to_kpptr pa = pa - PHYS_BASE_RAW + KERNEL_ELF_BASE"

definition USER_ROOT_ENTRIES :: nat where "USER_ROOT_ENTRIES = 2 ^ (PT_INDEX_BITS - 1)"

definition USER_TOP :: u64 where
  "USER_TOP = push_bit (RISCV_PG_SHIFT + PT_INDEX_BITS * 2) (of_nat USER_ROOT_ENTRIES)"

definition page_bits_for_size_class :: "u64 \<Rightarrow> nat option" where
  "page_bits_for_size_class sc =
     (if sc = 0 then Some RISCV_PG_SHIFT
      else if sc = 1 then Some (RISCV_PG_SHIFT + PT_INDEX_BITS)
      else if sc = 2 then Some (RISCV_PG_SHIFT + PT_INDEX_BITS * 2)
      else None)"

definition page_table_paddr :: "u64 \<Rightarrow> u64 option" where
  "page_table_paddr kva =
     (if PPTR_BASE \<le> kva \<and> kva < PPTR_TOP then Some (pptr_to_paddr kva)
      else if KERNEL_ELF_BASE \<le> kva then Some (kpptr_to_paddr kva)
      else None)"

definition root_paddr :: "u64 \<Rightarrow> u64 option" where
  "root_paddr root = (if root = 0 then None else page_table_paddr root)"

definition satp_from_kva :: "u64 \<Rightarrow> u64 \<Rightarrow> u64" where
  "satp_from_kva root_kva asid = (case page_table_paddr root_kva of
     Some pa \<Rightarrow> make_satp asid pa
   | None \<Rightarrow> 0)"

definition satp_for :: "u64 \<Rightarrow> u64 \<Rightarrow> u64" where
  "satp_for root asid = make_satp asid (kpptr_to_paddr root)"

text \<open>\<open>checked_add\<close> fails when the sum wraps around.\<close>

definition user_range_aligned :: "u64 \<Rightarrow> nat \<Rightarrow> bool" where
  "user_range_aligned vaddr bits \<longleftrightarrow>
     (let sz = push_bit bits 1
      in vaddr AND (sz - 1) = 0 \<and> \<not> vaddr + sz < vaddr \<and> vaddr + sz \<le> USER_TOP)"

definition user_frame_flags :: "bool \<Rightarrow> bool \<Rightarrow> bool \<Rightarrow> bool \<Rightarrow> u64" where
  "user_frame_flags read write exec is_device =
     (PTE_V OR PTE_U OR PTE_A OR PTE_D)
       OR (if read then PTE_R else 0) OR (if write then PTE_W else 0) OR (if exec then PTE_X else 0)"

section \<open>Round trips\<close>

lemma mask44: "push_bit 44 1 - 1 = (mask 44 :: u64)"
  by (simp add: mask_eq_exp_minus_1)

lemma mask9: "push_bit PT_INDEX_BITS 1 - 1 = (mask 9 :: u64)"
  by (simp add: mask_eq_exp_minus_1 PT_INDEX_BITS_def)

text \<open>A physical page address the entry format can hold: below 2^56 and page aligned.\<close>

definition page_paddr_ok :: "u64 \<Rightarrow> bool" where
  "page_paddr_ok pa \<longleftrightarrow> pa AND mask 12 = 0 \<and> drop_bit 56 pa = 0"

lemma page_paddr_bits:
  assumes "page_paddr_ok pa"
  shows "bit pa n \<Longrightarrow> 12 \<le> n \<and> n < 56"
proof -
  assume n: "bit pa n"
  have "\<not> bit (pa AND mask 12) n" "\<not> bit (drop_bit 56 pa) (n - 56)"
    using assms by (simp_all add: page_paddr_ok_def)
  with n show ?thesis by (cases "n < 56") (auto simp: bit_simps dest: bit_imp_le_length)
qed

lemma flags_bits: "flags AND NOT (mask 10) = 0 \<Longrightarrow> bit (flags :: u64) n \<Longrightarrow> n < 10"
proof -
  assume "flags AND NOT (mask 10) = 0" "bit flags n"
  then have "\<not> bit (flags AND NOT (mask 10)) n" by simp
  with \<open>bit flags n\<close> show "n < 10" by (auto simp: bit_simps dest: bit_imp_le_length)
qed

lemma pte_leaf_pa_leaf:
  assumes "page_paddr_ok pa" "flags AND NOT (mask 10) = 0"
  shows "pte_leaf_pa (pte_leaf pa flags) = pa"
  unfolding pte_leaf_pa_def pte_ppn_def pte_leaf_def mask44 RISCV_PG_SHIFT_def
  by (rule bit_word_eqI)
    (use page_paddr_bits [OF assms(1)] flags_bits [OF assms(2)] in \<open>fastforce simp: bit_simps\<close>)


lemma pte_next_roundtrip: "page_paddr_ok pa \<Longrightarrow> pte_next_pt_paddr (pte_next pa) = pa"
  using pte_leaf_pa_leaf [of pa PTE_V]
  by (simp add: pte_next_pt_paddr_def pte_leaf_pa_def pte_next_def pte_leaf_def PTE_V_def mask_eq_exp_minus_1)

lemma pushed_low_bits: "push_bit 10 x AND (w AND mask 10) = (0 :: u64)"
  by (rule bit_word_eqI) (auto simp: bit_simps)

lemma pte_next_kind: "pte_is_valid (pte_next pa)" "\<not> pte_is_leaf (pte_next pa)"
proof -
  have "(push_bit 10 x OR 1) AND 1 = (1 :: u64)" "(push_bit 10 x OR 1) AND 14 = (0 :: u64)" for x :: u64
    using pushed_low_bits [of x 14] by (simp_all add: bit.conj_disj_distrib2 mask_eq_exp_minus_1)
  then show "pte_is_valid (pte_next pa)" "\<not> pte_is_leaf (pte_next pa)"
    by (simp_all add: pte_is_valid_def pte_is_leaf_def pte_next_def PTE_flags)
qed

lemma pte_leaf_kind:
  assumes "flags AND NOT (mask 10) = 0"
  shows "pte_is_valid (pte_leaf pa flags) \<longleftrightarrow> flags AND PTE_V \<noteq> 0"
    "pte_is_leaf (pte_leaf pa flags) \<longleftrightarrow> flags AND PTE_V \<noteq> 0 \<and> flags AND (PTE_R OR PTE_W OR PTE_X) \<noteq> 0"
proof -
  have "(push_bit 10 x OR flags) AND 1 = flags AND 1" "(push_bit 10 x OR flags) AND 14 = flags AND 14" for x :: u64
    using pushed_low_bits [of x 1] pushed_low_bits [of x 14]
    by (simp_all add: bit.conj_disj_distrib2 mask_eq_exp_minus_1)
  then show "pte_is_valid (pte_leaf pa flags) \<longleftrightarrow> flags AND PTE_V \<noteq> 0"
    "pte_is_leaf (pte_leaf pa flags) \<longleftrightarrow> flags AND PTE_V \<noteq> 0 \<and> flags AND (PTE_R OR PTE_W OR PTE_X) \<noteq> 0"
    by (simp_all add: pte_is_valid_def pte_is_leaf_def pte_leaf_def PTE_flags)
qed

lemma satp_roundtrip:
  assumes "page_paddr_ok pa"
  shows "satp_root_paddr (make_satp asid pa) = pa"
proof -
  have "push_bit 60 8 OR push_bit 44 z = push_bit 44 (push_bit 16 8 OR z)" for z :: u64
    by (simp only: push_bit_or push_bit_push_bit) simp
  moreover have "(push_bit 44 y OR (x AND mask 44)) AND mask 44 = x AND mask 44" for x y :: u64
    by (rule bit_word_eqI) (auto simp: bit_simps)
  ultimately have "make_satp asid pa AND mask 44 = drop_bit 12 pa AND mask 44"
    unfolding make_satp_def mask44 RISCV_PG_SHIFT_def by (simp only: or.assoc [symmetric])
  moreover have "push_bit 12 (drop_bit 12 pa AND mask 44) = pa"
    by (rule bit_word_eqI) (use page_paddr_bits [OF assms] in \<open>fastforce simp: bit_simps\<close>)
  ultimately show ?thesis unfolding satp_root_paddr_def mask44 RISCV_PG_SHIFT_def by simp
qed

lemma pptr_roundtrip: "paddr_to_pptr (pptr_to_paddr kva) = kva" "pptr_to_paddr (paddr_to_pptr pa) = pa"
  by (simp_all add: paddr_to_pptr_def pptr_to_paddr_def)

lemma page_table_paddr_pptr: "PPTR_BASE \<le> kva \<Longrightarrow> kva < PPTR_TOP \<Longrightarrow> page_table_paddr kva = Some (kva - PPTR_BASE)"
  by (simp add: page_table_paddr_def pptr_to_paddr_def PADDR_BASE_def)

lemma pptr_page_ok:
  assumes "PPTR_BASE \<le> kva" "kva < PPTR_TOP" "kva AND mask 12 = 0"
  shows "page_paddr_ok (kva - PPTR_BASE)"
proof -
  have "unat (kva - PPTR_BASE) = unat kva - unat PPTR_BASE" using assms(1) by (simp add: unat_sub)
  moreover have "unat kva < unat PPTR_TOP" using assms(2) by (simp add: word_less_nat_alt)
  ultimately have "kva - PPTR_BASE < 2 ^ 56" by (simp add: word_less_nat_alt PPTR_TOP_def PPTR_BASE_def)
  then have "(kva - PPTR_BASE) AND mask 56 = kva - PPTR_BASE" by (intro word_and_mask_small) (simp add: word_less_nat_alt)
  moreover have "drop_bit 56 (w AND mask 56) = 0" for w :: u64 by (rule bit_word_eqI) (auto simp: bit_simps)
  ultimately have "drop_bit 56 (kva - PPTR_BASE) = 0" by metis
  moreover have "(kva - PPTR_BASE) AND mask 12 = 0"
  proof -
    have k: "kva = push_bit 12 (drop_bit 12 kva)"
    proof (rule bit_word_eqI)
      fix n
      have "\<not> bit (kva AND mask 12) n" using assms(3) by simp
      then show "bit kva n = bit (push_bit 12 (drop_bit 12 kva)) n"
        by (auto simp: bit_simps dest: bit_imp_le_length)
    qed
    have "PPTR_BASE = push_bit 12 0xFFFFFFC000000" by (simp add: PPTR_BASE_def)
    then have "kva - PPTR_BASE = push_bit 12 (drop_bit 12 kva - 0xFFFFFFC000000)"
      by (subst k) (simp only: push_bit_eq_mult left_diff_distrib)
    moreover have "push_bit 12 x AND mask 12 = 0" for x :: u64 by (rule bit_word_eqI) (auto simp: bit_simps)
    ultimately show ?thesis by metis
  qed
  ultimately show ?thesis by (simp add: page_paddr_ok_def)
qed

end
