(* ===== verification/Rel4_Objects.thy ===== *)
theory Rel4_Objects
  imports Rel4_Mdb
begin

text \<open>
  The kernel objects as values: the saved user context of a thread
  (\<^verbatim>\<open>arch/riscv64/kernel/trap.rs\<close>, \<^verbatim>\<open>arch/riscv64/sel4_arch/mod.rs\<close>), the thread control block
  (\<^verbatim>\<open>object/tcb.rs\<close>), the two-word endpoint (\<^verbatim>\<open>object/endpoint.rs\<close>) and the four-word
  notification (\<^verbatim>\<open>object/notification.rs\<close>), with the methods that read or write one object
  only. The wait queues of endpoints and notifications are interpreted here as queue ends: the
  packed pointer fields obey the laws of \<open>queue_ends_laws\<close> for every address a thread can have.
\<close>

section \<open>User context\<close>

text \<open>
  The floating-point part of the saved context is only touched by the assembly and the FPU
  driver and is left out.
\<close>

record user_context =
  uc_regs :: "nat \<Rightarrow> u64"
  uc_pc :: u64
  uc_sstatus :: u64
  uc_restart_pc :: u64

datatype user_register = Ra | Sp | Gp | Tp | T0 | A0 | A1 | A2 | A3 | A4 | A5 | A6 | A7

fun reg_index :: "user_register \<Rightarrow> nat" where
  "reg_index Ra = 1" | "reg_index Sp = 2" | "reg_index Gp = 3" | "reg_index Tp = 4"
| "reg_index T0 = 5" | "reg_index A0 = 10" | "reg_index A1 = 11" | "reg_index A2 = 12"
| "reg_index A3 = 13" | "reg_index A4 = 14" | "reg_index A5 = 15" | "reg_index A6 = 16"
| "reg_index A7 = 17"

definition uc_zero :: user_context where
  "uc_zero = \<lparr> uc_regs = (\<lambda>_. 0), uc_pc = 0, uc_sstatus = 0, uc_restart_pc = 0 \<rparr>"

definition uc_get :: "user_register \<Rightarrow> user_context \<Rightarrow> u64" where
  "uc_get r uc = uc_regs uc (reg_index r)"

definition uc_put :: "user_register \<Rightarrow> u64 \<Rightarrow> user_context \<Rightarrow> user_context" where
  "uc_put r v uc = uc\<lparr> uc_regs := (uc_regs uc)(reg_index r := v) \<rparr>"

definition cap_reg :: "user_context \<Rightarrow> u64" where "cap_reg uc = uc_get A0 uc"
definition set_cap_reg :: "u64 \<Rightarrow> user_context \<Rightarrow> user_context" where "set_cap_reg v uc = uc_put A0 v uc"
definition msg_info :: "user_context \<Rightarrow> u64" where "msg_info uc = uc_get A1 uc"
definition set_msg_info :: "u64 \<Rightarrow> user_context \<Rightarrow> user_context" where "set_msg_info v uc = uc_put A1 v uc"

definition mr :: "user_context \<Rightarrow> nat \<Rightarrow> u64" where
  "mr uc i =
     (if i = 0 then uc_get A2 uc
      else if i = 1 then uc_get A3 uc
      else if i = 2 then uc_get A4 uc
      else if i = 3 then uc_get A5 uc
      else 0)"

definition set_mr :: "nat \<Rightarrow> u64 \<Rightarrow> user_context \<Rightarrow> user_context" where
  "set_mr i v uc =
     (if i = 0 then uc_put A2 v uc
      else if i = 1 then uc_put A3 v uc
      else if i = 2 then uc_put A4 v uc
      else if i = 3 then uc_put A5 v uc
      else uc)"

definition reply_reg :: "user_context \<Rightarrow> u64" where "reply_reg uc = uc_get A6 uc"
definition set_reply_reg :: "u64 \<Rightarrow> user_context \<Rightarrow> user_context" where "set_reply_reg v uc = uc_put A6 v uc"
definition syscall_reg :: "user_context \<Rightarrow> u64" where "syscall_reg uc = uc_get A7 uc"
definition stack_reg :: "user_context \<Rightarrow> u64" where "stack_reg uc = uc_get Sp uc"
definition set_stack_reg :: "u64 \<Rightarrow> user_context \<Rightarrow> user_context" where "set_stack_reg v uc = uc_put Sp v uc"
definition return_reg :: "user_context \<Rightarrow> u64" where "return_reg uc = uc_get Ra uc"
definition set_return_reg :: "u64 \<Rightarrow> user_context \<Rightarrow> user_context" where "set_return_reg v uc = uc_put Ra v uc"
definition tls_reg :: "user_context \<Rightarrow> u64" where "tls_reg uc = uc_get Tp uc"
definition set_tls_reg :: "u64 \<Rightarrow> user_context \<Rightarrow> user_context" where "set_tls_reg v uc = uc_put Tp v uc"
definition scratch_reg :: "user_context \<Rightarrow> u64" where "scratch_reg uc = uc_get T0 uc"

definition clear_ipc_regs :: "user_context \<Rightarrow> user_context" where
  "clear_ipc_regs uc =
     set_mr 3 0 (set_mr 2 0 (set_mr 1 0 (set_mr 0 0 (set_msg_info 0 (set_cap_reg 0 uc)))))"

definition SSTATUS_SPIE :: u64 where "SSTATUS_SPIE = push_bit 5 1"
definition SSTATUS_SPP :: u64 where "SSTATUS_SPP = push_bit 8 1"
definition SSTATUS_FS_MASK :: u64 where "SSTATUS_FS_MASK = push_bit 13 3"
definition SSTATUS_FS_CLEAN :: u64 where "SSTATUS_FS_CLEAN = push_bit 13 2"
definition SSTATUS_SUM :: u64 where "SSTATUS_SUM = push_bit 18 1"
definition USER_SSTATUS :: u64 where "USER_SSTATUS = SSTATUS_SPIE"
definition ROOTSERVER_SSTATUS :: u64 where "ROOTSERVER_SSTATUS = USER_SSTATUS OR SSTATUS_SUM"

definition init_user_context :: "user_context \<Rightarrow> user_context" where
  "init_user_context uc = uc\<lparr> uc_sstatus := USER_SSTATUS \<rparr>"

definition init_rootserver_context :: "u64 \<Rightarrow> u64 \<Rightarrow> u64 \<Rightarrow> user_context \<Rightarrow> user_context" where
  "init_rootserver_context entry stack bootinfo uc =
     set_stack_reg stack (set_msg_info 0 (set_cap_reg bootinfo
       (uc\<lparr> uc_pc := entry, uc_restart_pc := entry, uc_sstatus := ROOTSERVER_SSTATUS \<rparr>)))"

definition apply_written_pc :: "u64 \<Rightarrow> user_context \<Rightarrow> user_context" where
  "apply_written_pc pc uc = uc\<lparr> uc_pc := pc, uc_restart_pc := pc \<rparr>"

definition apply_preemption_restart :: "user_context \<Rightarrow> user_context" where
  "apply_preemption_restart uc = apply_written_pc (uc_restart_pc uc) uc"

definition set_fpu_context_enabled :: "bool \<Rightarrow> user_context \<Rightarrow> user_context" where
  "set_fpu_context_enabled enabled uc =
     (let status = uc_sstatus uc AND NOT SSTATUS_FS_MASK
      in uc\<lparr> uc_sstatus := (if enabled then status OR SSTATUS_FS_CLEAN else status) \<rparr>)"

text \<open>Reading a message register back, and independence of the other registers.\<close>

lemma mr_set_mr [simp]: "i < 4 \<Longrightarrow> mr (set_mr i v uc) j = (if i = j then v else mr uc j)"
  by (auto simp: mr_def set_mr_def uc_get_def uc_put_def)

lemma mr_out_of_range [simp]: "4 \<le> i \<Longrightarrow> set_mr i v uc = uc" "4 \<le> i \<Longrightarrow> mr uc i = 0"
  by (simp_all add: set_mr_def mr_def)

lemma mr_other_sets [simp]:
  "mr (set_cap_reg v uc) i = mr uc i" "mr (set_msg_info v uc) i = mr uc i"
  "cap_reg (set_mr i v uc) = cap_reg uc" "msg_info (set_mr i v uc) = msg_info uc"
  "cap_reg (set_cap_reg v uc) = v" "msg_info (set_msg_info v uc) = v"
  "cap_reg (set_msg_info v uc) = cap_reg uc" "msg_info (set_cap_reg v uc) = msg_info uc"
  by (auto simp: mr_def set_mr_def set_cap_reg_def set_msg_info_def cap_reg_def msg_info_def
      uc_get_def uc_put_def)

lemma pc_other_sets [simp]:
  "uc_pc (set_mr i v uc) = uc_pc uc" "uc_pc (set_cap_reg v uc) = uc_pc uc"
  "uc_pc (set_msg_info v uc) = uc_pc uc" "uc_restart_pc (set_mr i v uc) = uc_restart_pc uc"
  "uc_restart_pc (set_cap_reg v uc) = uc_restart_pc uc"
  "uc_restart_pc (set_msg_info v uc) = uc_restart_pc uc"
  by (simp_all add: set_mr_def set_cap_reg_def set_msg_info_def uc_put_def)

section \<open>Thread control block\<close>

datatype thread_state =
    Inactive | Restart | Running | BlockedOnReceive | BlockedOnSend | BlockedOnReply
  | BlockedOnNotification | IdleState

fun ts_is_runnable :: "thread_state \<Rightarrow> bool" where
  "ts_is_runnable Running = True"
| "ts_is_runnable Restart = True"
| "ts_is_runnable _ = False"

fun ts_is_stopped :: "thread_state \<Rightarrow> bool" where
  "ts_is_stopped Inactive = True"
| "ts_is_stopped BlockedOnReceive = True"
| "ts_is_stopped BlockedOnSend = True"
| "ts_is_stopped BlockedOnNotification = True"
| "ts_is_stopped BlockedOnReply = True"
| "ts_is_stopped _ = False"

datatype wait_object = WaitEndpoint u64 | WaitNotification u64

fun wait_endpoint :: "wait_object \<Rightarrow> u64 option" where
  "wait_endpoint (WaitEndpoint ep) = Some ep"
| "wait_endpoint (WaitNotification _) = None"

fun wait_notification :: "wait_object \<Rightarrow> u64 option" where
  "wait_notification (WaitNotification n) = Some n"
| "wait_notification (WaitEndpoint _) = None"

datatype blocked_receive = OnEndpoint u64 | Detached

definition TIME_SLICE_TICKS :: nat where "TIME_SLICE_TICKS = 5"
definition DEFAULT_TIME_SLICE :: u8 where "DEFAULT_TIME_SLICE = of_nat TIME_SLICE_TICKS"
definition TCB_CNODE_ENTRIES :: nat where "TCB_CNODE_ENTRIES = 16"
definition TCB_CTABLE_SLOT :: nat where "TCB_CTABLE_SLOT = 0"
definition TCB_VTABLE_SLOT :: nat where "TCB_VTABLE_SLOT = 1"
definition TCB_REPLY :: nat where "TCB_REPLY = 2"
definition TCB_CALLER :: nat where "TCB_CALLER = 3"
definition TCB_BUFFER_SLOT :: nat where "TCB_BUFFER_SLOT = 4"
definition TCB_SENDER_EXTRA_CAPS :: nat where "TCB_SENDER_EXTRA_CAPS = 3"
definition TCB_FLAG_FPU_DISABLED :: u64 where "TCB_FLAG_FPU_DISABLED = 1"
definition TCB_FLAG_MASK :: u64 where "TCB_FLAG_MASK = TCB_FLAG_FPU_DISABLED"
definition IPC_BUFFER_WORDS :: nat where "IPC_BUFFER_WORDS = 128"
definition FAULT_IPC_MRS :: nat where "FAULT_IPC_MRS = 20"
definition TCB_NAME_LEN :: nat where "TCB_NAME_LEN = 32"

text \<open>
  The queue links and the capability slots embedded in a TCB are kept in the link heap and the
  slot heap of the kernel state, under the address of the TCB.
\<close>

record tcb =
  tcb_context :: user_context
  tcb_state :: thread_state
  tcb_affinity :: u8
  tcb_time_slice :: u8
  tcb_ipc_buffer_uva :: u64
  tcb_ipc_buffer :: "u64 option"
  tcb_fault_endpoint_cptr :: u64
  tcb_flags :: u64
  tcb_bound_notification :: "u64 option"
  tcb_waiting_on :: "wait_object option"
  tcb_receiver_can_grant :: bool
  tcb_sender_badge :: u64
  tcb_sender_extra_cap_slots :: "u64 option list"
  tcb_sender_can_grant :: bool
  tcb_sender_can_grant_reply :: bool
  tcb_sender_is_call :: bool
  tcb_sender_is_fault :: bool
  tcb_fault_label :: u64
  tcb_fault_len :: u64
  tcb_fault_mrs :: "u64 list"
  tcb_name :: "u8 list"

definition tcb_zero :: tcb where
  "tcb_zero = \<lparr>
     tcb_context = uc_zero, tcb_state = Inactive, tcb_affinity = 0,
     tcb_time_slice = DEFAULT_TIME_SLICE, tcb_ipc_buffer_uva = 0, tcb_ipc_buffer = None,
     tcb_fault_endpoint_cptr = 0, tcb_flags = 0, tcb_bound_notification = None,
     tcb_waiting_on = None, tcb_receiver_can_grant = False, tcb_sender_badge = 0,
     tcb_sender_extra_cap_slots = replicate TCB_SENDER_EXTRA_CAPS None,
     tcb_sender_can_grant = False, tcb_sender_can_grant_reply = False,
     tcb_sender_is_call = False, tcb_sender_is_fault = False, tcb_fault_label = 0,
     tcb_fault_len = 0, tcb_fault_mrs = replicate FAULT_IPC_MRS 0,
     tcb_name = replicate TCB_NAME_LEN 0 \<rparr>"

definition clear_fault :: "tcb \<Rightarrow> tcb" where
  "clear_fault t = t\<lparr> tcb_sender_is_fault := False, tcb_fault_label := 0, tcb_fault_len := 0,
     tcb_fault_mrs := replicate FAULT_IPC_MRS 0 \<rparr>"

definition clear_endpoint_ipc_state :: "tcb \<Rightarrow> tcb" where
  "clear_endpoint_ipc_state t =
     clear_fault (t\<lparr> tcb_receiver_can_grant := False, tcb_sender_badge := 0,
       tcb_sender_can_grant := False, tcb_sender_can_grant_reply := False,
       tcb_sender_extra_cap_slots := replicate TCB_SENDER_EXTRA_CAPS None,
       tcb_sender_is_call := False \<rparr>)"

definition clear_endpoint_ipc_state_preserving_fault :: "tcb \<Rightarrow> tcb" where
  "clear_endpoint_ipc_state_preserving_fault t =
     (let t1 = clear_endpoint_ipc_state t in
      if tcb_sender_is_fault t
      then t1\<lparr> tcb_sender_is_fault := True, tcb_fault_label := tcb_fault_label t,
               tcb_fault_len := tcb_fault_len t, tcb_fault_mrs := tcb_fault_mrs t \<rparr>
      else t1)"

definition tcb_rewind_pc :: "tcb \<Rightarrow> tcb" where
  "tcb_rewind_pc t =
     (let pc = uc_pc (tcb_context t) - 4
      in t\<lparr> tcb_context := (tcb_context t)\<lparr> uc_pc := pc, uc_restart_pc := pc \<rparr> \<rparr>)"

definition write_notification_badge_regs :: "u64 \<Rightarrow> tcb \<Rightarrow> tcb" where
  "write_notification_badge_regs badge t =
     t\<lparr> tcb_context :=
          fold (\<lambda>i uc. set_mr i 0 uc) [0..<4] (set_msg_info 0 (set_cap_reg badge (tcb_context t))) \<rparr>"

section \<open>Endpoint\<close>

datatype ep_state = EpIdle | EpSending | EpReceiving

fun ep_state_code :: "ep_state \<Rightarrow> u64" where
  "ep_state_code EpIdle = 0"
| "ep_state_code EpSending = 1"
| "ep_state_code EpReceiving = 2"

definition STATE_MASK :: u64 where "STATE_MASK = 0x3"
definition HEAD_MASK :: u64 where "HEAD_MASK = NOT STATE_MASK"

record endpoint =
  ep_head_state :: u64
  ep_tail_word :: u64

definition endpoint_zero :: endpoint where
  "endpoint_zero = \<lparr> ep_head_state = 0, ep_tail_word = 0 \<rparr>"

definition ep_state_of :: "endpoint \<Rightarrow> ep_state" where
  "ep_state_of ep =
     (let s = ep_head_state ep AND STATE_MASK
      in if s = 1 then EpSending else if s = 2 then EpReceiving else EpIdle)"

definition ep_set_state :: "ep_state \<Rightarrow> endpoint \<Rightarrow> endpoint" where
  "ep_set_state st ep = ep\<lparr> ep_head_state := (ep_head_state ep AND HEAD_MASK) OR ep_state_code st \<rparr>"

definition ep_clear :: "endpoint \<Rightarrow> endpoint" where
  "ep_clear ep = ep\<lparr> ep_head_state := 0, ep_tail_word := 0 \<rparr>"

definition queue_ends_of_endpoint :: "endpoint queue_ends" where
  "queue_ends_of_endpoint =
     \<lparr> qe_head = (\<lambda>ep. from_kva (ep_head_state ep AND HEAD_MASK)),
       qe_tail = (\<lambda>ep. from_kva (ep_tail_word ep)),
       qe_set_head = (\<lambda>h ep. ep\<lparr> ep_head_state :=
          (kva_or_zero h AND HEAD_MASK) OR (ep_head_state ep AND STATE_MASK) \<rparr>),
       qe_set_tail = (\<lambda>t ep. ep\<lparr> ep_tail_word := kva_or_zero t \<rparr>) \<rparr>"

section \<open>Notification\<close>

datatype ntfn_state = NtfnIdle | NtfnWaiting | NtfnActive

fun ntfn_state_code :: "ntfn_state \<Rightarrow> u64" where
  "ntfn_state_code NtfnIdle = 0"
| "ntfn_state_code NtfnWaiting = 1"
| "ntfn_state_code NtfnActive = 2"

record notification =
  ntfn_words0 :: u64
  ntfn_words1 :: u64
  ntfn_words2 :: u64
  ntfn_words3 :: u64

definition sign_extend_39 :: "u64 \<Rightarrow> u64" where
  "sign_extend_39 v = (if v AND push_bit 38 1 \<noteq> 0 then v OR 0xffffff8000000000 else v)"

definition TAIL_MASK :: u64 where "TAIL_MASK = 0xfffffffffe000000"

definition notification_new :: notification where
  "notification_new = \<lparr> ntfn_words0 = 0, ntfn_words1 = 0, ntfn_words2 = 0, ntfn_words3 = 0 \<rparr>"

definition ntfn_state_of :: "notification \<Rightarrow> ntfn_state" where
  "ntfn_state_of n =
     (let s = ntfn_words0 n AND 0x3
      in if s = 1 then NtfnWaiting else if s = 2 then NtfnActive else NtfnIdle)"

definition ntfn_set_state :: "ntfn_state \<Rightarrow> notification \<Rightarrow> notification" where
  "ntfn_set_state st n = n\<lparr> ntfn_words0 := (ntfn_words0 n AND NOT 0x3) OR ntfn_state_code st \<rparr>"

definition ntfn_badge :: "notification \<Rightarrow> u64" where
  "ntfn_badge n = ntfn_words2 n"

definition ntfn_set_badge :: "u64 \<Rightarrow> notification \<Rightarrow> notification" where
  "ntfn_set_badge b n = n\<lparr> ntfn_words2 := b \<rparr>"

definition ntfn_bound_tcb :: "notification \<Rightarrow> u64 option" where
  "ntfn_bound_tcb n = from_kva (ntfn_words3 n)"

definition ntfn_set_bound_tcb :: "u64 option \<Rightarrow> notification \<Rightarrow> notification" where
  "ntfn_set_bound_tcb t n = n\<lparr> ntfn_words3 := kva_or_zero t \<rparr>"

definition take_active_badge :: "notification \<Rightarrow> u64 option \<times> notification" where
  "take_active_badge n =
     (if ntfn_state_of n \<noteq> NtfnActive then (None, n)
      else (Some (ntfn_badge n), ntfn_set_state NtfnIdle (ntfn_set_badge 0 n)))"

definition queue_ends_of_notification :: "notification queue_ends" where
  "queue_ends_of_notification =
     \<lparr> qe_head = (\<lambda>n. from_kva (ntfn_words1 n)),
       qe_tail = (\<lambda>n. let raw = drop_bit 25 (ntfn_words0 n AND TAIL_MASK)
                       in if raw = 0 then None else from_kva (sign_extend_39 raw)),
       qe_set_head = (\<lambda>h n. n\<lparr> ntfn_words1 := kva_or_zero h \<rparr>),
       qe_set_tail = (\<lambda>t n. n\<lparr> ntfn_words0 :=
          (ntfn_words0 n AND NOT TAIL_MASK) OR (push_bit 25 (kva_or_zero t) AND TAIL_MASK) \<rparr>) \<rparr>"

section \<open>Packed queue ends\<close>

text \<open>What every TCB address satisfies: it is not null, four-byte aligned and canonical.\<close>

definition tcb_addr_ok :: "u64 \<Rightarrow> bool" where
  "tcb_addr_ok a \<longleftrightarrow> a \<noteq> 0 \<and> a AND STATE_MASK = 0 \<and> canonical_ptr a"

lemma tcb_addr_nonzero: "tcb_addr_ok a \<Longrightarrow> a \<noteq> 0"
  by (simp add: tcb_addr_ok_def)

lemma from_kva_opt_ok: "pred_option tcb_addr_ok t \<Longrightarrow> from_kva (kva_or_zero t) = t"
  by (cases t) (auto simp: tcb_addr_nonzero)

named_theorems obj_simps \<open>reading a field of an object after writing one\<close>

subsection \<open>Endpoint\<close>

lemma head_state_split [bf_simps]:
  "((a AND HEAD_MASK) OR (b AND STATE_MASK)) AND HEAD_MASK = a AND HEAD_MASK"
  "((a AND HEAD_MASK) OR (b AND STATE_MASK)) AND STATE_MASK = b AND STATE_MASK"
  using and_not_or_and [of a STATE_MASK b] by (simp_all add: HEAD_MASK_def)

lemma ep_state_code_mask: "ep_state_code st = ep_state_code st AND STATE_MASK"
  by (cases st) (simp_all add: STATE_MASK_def)

lemma ep_state_word [bf_simps]:
  "((a AND HEAD_MASK) OR ep_state_code st) AND HEAD_MASK = a AND HEAD_MASK"
  "((a AND HEAD_MASK) OR ep_state_code st) AND STATE_MASK = ep_state_code st"
  using head_state_split [of a "ep_state_code st"] ep_state_code_mask [of st] by simp_all

lemma aligned_head_mask: "a AND STATE_MASK = 0 \<Longrightarrow> a AND HEAD_MASK = a"
  by (simp add: HEAD_MASK_def and_not_aligned)

lemma ep_head_ok: "pred_option tcb_addr_ok h \<Longrightarrow> from_kva (kva_or_zero h AND HEAD_MASK) = h"
  by (cases h) (auto simp: tcb_addr_ok_def aligned_head_mask)

interpretation ep_queue: queue_ends_laws queue_ends_of_endpoint tcb_addr_ok
  by unfold_locales
    (simp_all add: queue_ends_of_endpoint_def bf_simps ep_head_ok from_kva_opt_ok)

abbreviation ep_head :: "endpoint \<Rightarrow> u64 option" where
  "ep_head ep \<equiv> qe_head queue_ends_of_endpoint ep"

abbreviation ep_tail :: "endpoint \<Rightarrow> u64 option" where
  "ep_tail ep \<equiv> qe_tail queue_ends_of_endpoint ep"

lemma ep_state_of_set_state [obj_simps]: "ep_state_of (ep_set_state st ep) = st"
  by (cases st) (simp_all add: ep_state_of_def ep_set_state_def Let_def ep_state_word del: ep_state_code.simps, simp_all)

lemma ep_ends_set_state [obj_simps]:
  "ep_head (ep_set_state st ep) = ep_head ep" "ep_tail (ep_set_state st ep) = ep_tail ep"
  by (simp_all add: queue_ends_of_endpoint_def ep_set_state_def bf_simps)

lemma ep_state_of_set_ends [obj_simps]:
  "ep_state_of (qe_set_head queue_ends_of_endpoint h ep) = ep_state_of ep"
  "ep_state_of (qe_set_tail queue_ends_of_endpoint t ep) = ep_state_of ep"
  by (simp_all add: queue_ends_of_endpoint_def ep_state_of_def Let_def bf_simps)

lemma ep_clear_fields [obj_simps]:
  "ep_state_of (ep_clear ep) = EpIdle" "ep_head (ep_clear ep) = None" "ep_tail (ep_clear ep) = None"
  by (simp_all add: ep_clear_def ep_state_of_def queue_ends_of_endpoint_def)

subsection \<open>Notification\<close>

lemma sign_extend_39_eq: "sign_extend_39 v = sign_extend_ptr v"
  by (simp add: sign_extend_39_def sign_extend_ptr_def SIGN_EXT_MASK_def)

lemma tail_mask_eq: "TAIL_MASK = push_bit 25 (mask 39)"
  by (simp add: TAIL_MASK_def mask_eq_exp_minus_1)

lemma ntfn_tail_get: "drop_bit 25 (w AND TAIL_MASK) = bits_get 25 39 w"
  unfolding tail_mask_eq bits_get_def by (rule bit_word_eqI) (auto simp: bit_simps)

lemma ntfn_tail_put: "push_bit 25 a AND TAIL_MASK = bits_put 25 39 a"
  unfolding tail_mask_eq bits_put_def by (rule bit_word_eqI) (auto simp: bit_simps)

lemma ntfn_tail_clear: "w AND NOT TAIL_MASK = bits_clear 25 39 w"
  unfolding tail_mask_eq bits_clear_def ..

lemma state_get: "(w :: u64) AND 3 = bits_get 0 2 w"
  by (simp add: bits_get_def mask_eq_exp_minus_1)

lemma state_clear: "(w :: u64) AND NOT 3 = bits_clear 0 2 w"
  by (simp add: bits_clear_def mask_eq_exp_minus_1)

lemma ntfn_state_code_put: "ntfn_state_code st = bits_put 0 2 (ntfn_state_code st)"
  by (cases st) (simp_all add: bits_put_def mask_eq_exp_minus_1)

lemma ntfn_state_code_mask [bf_simps]: "ntfn_state_code st AND mask 2 = ntfn_state_code st"
  by (cases st) (simp_all add: mask_eq_exp_minus_1)

lemma queue_ends_of_notification_eq:
  "queue_ends_of_notification =
     \<lparr> qe_head = (\<lambda>n. from_kva (ntfn_words1 n)),
       qe_tail = (\<lambda>n. let raw = bits_get 25 39 (ntfn_words0 n)
                       in if raw = 0 then None else from_kva (sign_extend_ptr raw)),
       qe_set_head = (\<lambda>h n. n\<lparr> ntfn_words1 := kva_or_zero h \<rparr>),
       qe_set_tail = (\<lambda>t n. n\<lparr> ntfn_words0 := bits_set 25 39 (kva_or_zero t) (ntfn_words0 n) \<rparr>) \<rparr>"
  unfolding queue_ends_of_notification_def ntfn_tail_get ntfn_tail_put ntfn_tail_clear
    sign_extend_39_eq bits_set_def ..

lemma ntfn_set_state_eq:
  "ntfn_set_state st n = n\<lparr> ntfn_words0 := bits_set 0 2 (ntfn_state_code st) (ntfn_words0 n) \<rparr>"
  unfolding ntfn_set_state_def bits_set_def state_clear ntfn_state_code_put [symmetric] ..

lemma ntfn_state_of_eq:
  "ntfn_state_of n = (let s = bits_get 0 2 (ntfn_words0 n)
     in if s = 1 then NtfnWaiting else if s = 2 then NtfnActive else NtfnIdle)"
  by (simp add: ntfn_state_of_def state_get)

lemma canonical_low_zero: "canonical_ptr a \<Longrightarrow> a \<noteq> 0 \<Longrightarrow> a AND mask 39 \<noteq> 0"
  using sign_extend_canonical [of a] by (auto simp: sign_extend_zero)

lemma ntfn_tail_set_tail:
  "pred_option tcb_addr_ok t \<Longrightarrow>
   qe_tail queue_ends_of_notification (qe_set_tail queue_ends_of_notification t n) = t"
  by (cases t) (auto simp: queue_ends_of_notification_eq Let_def bf_simps tcb_addr_ok_def canonical_low_zero)

interpretation ntfn_queue: queue_ends_laws queue_ends_of_notification tcb_addr_ok
  by unfold_locales
    (simp_all add: ntfn_tail_set_tail, simp_all add: queue_ends_of_notification_eq from_kva_opt_ok)

abbreviation ntfn_head :: "notification \<Rightarrow> u64 option" where
  "ntfn_head n \<equiv> qe_head queue_ends_of_notification n"

abbreviation ntfn_tail :: "notification \<Rightarrow> u64 option" where
  "ntfn_tail n \<equiv> qe_tail queue_ends_of_notification n"

lemma ntfn_state_of_set_state [obj_simps]: "ntfn_state_of (ntfn_set_state st n) = st"
  by (cases st) (simp_all add: ntfn_state_of_eq ntfn_set_state_eq Let_def bf_simps del: ntfn_state_code.simps, simp_all)

lemma ntfn_set_state_frame [obj_simps]:
  "ntfn_head (ntfn_set_state st n) = ntfn_head n" "ntfn_tail (ntfn_set_state st n) = ntfn_tail n"
  "ntfn_badge (ntfn_set_state st n) = ntfn_badge n"
  "ntfn_bound_tcb (ntfn_set_state st n) = ntfn_bound_tcb n"
  by (simp_all add: queue_ends_of_notification_eq ntfn_set_state_eq ntfn_badge_def ntfn_bound_tcb_def bf_simps)

lemma ntfn_state_of_set_ends [obj_simps]:
  "ntfn_state_of (qe_set_head queue_ends_of_notification h n) = ntfn_state_of n"
  "ntfn_state_of (qe_set_tail queue_ends_of_notification t n) = ntfn_state_of n"
  by (simp_all add: queue_ends_of_notification_eq ntfn_state_of_eq bf_simps)

lemma ntfn_badge_set_ends [obj_simps]:
  "ntfn_badge (qe_set_head queue_ends_of_notification h n) = ntfn_badge n"
  "ntfn_badge (qe_set_tail queue_ends_of_notification t n) = ntfn_badge n"
  "ntfn_bound_tcb (qe_set_head queue_ends_of_notification h n) = ntfn_bound_tcb n"
  "ntfn_bound_tcb (qe_set_tail queue_ends_of_notification t n) = ntfn_bound_tcb n"
  by (simp_all add: queue_ends_of_notification_eq ntfn_badge_def ntfn_bound_tcb_def)

lemma ntfn_set_badge_frame [obj_simps]:
  "ntfn_badge (ntfn_set_badge b n) = b"
  "ntfn_state_of (ntfn_set_badge b n) = ntfn_state_of n"
  "ntfn_head (ntfn_set_badge b n) = ntfn_head n" "ntfn_tail (ntfn_set_badge b n) = ntfn_tail n"
  "ntfn_bound_tcb (ntfn_set_badge b n) = ntfn_bound_tcb n"
  by (simp_all add: ntfn_set_badge_def ntfn_badge_def ntfn_state_of_def ntfn_bound_tcb_def
      queue_ends_of_notification_def)

lemma ntfn_set_bound_frame [obj_simps]:
  "t \<noteq> Some 0 \<Longrightarrow> ntfn_bound_tcb (ntfn_set_bound_tcb t n) = t"
  "ntfn_badge (ntfn_set_bound_tcb t n) = ntfn_badge n"
  "ntfn_state_of (ntfn_set_bound_tcb t n) = ntfn_state_of n"
  "ntfn_head (ntfn_set_bound_tcb t n) = ntfn_head n" "ntfn_tail (ntfn_set_bound_tcb t n) = ntfn_tail n"
  by (simp_all add: ntfn_set_bound_tcb_def ntfn_badge_def ntfn_state_of_def ntfn_bound_tcb_def
      queue_ends_of_notification_def from_kva_kva_or_zero)

end
