(* ===== verification/Rel4_State.thy ===== *)
theory Rel4_State
  imports Rel4_Objects
begin

text \<open>
  The kernel state under the big kernel lock, and the operations on it that touch one object
  field or the per-core state: the \<^verbatim>\<open>TcbRef\<close> accessors and state transitions of
  \<^verbatim>\<open>object/tcb.rs\<close>, the IPC buffer, and the per-core part of \<^verbatim>\<open>kernel/smp.rs\<close>.

  Objects live in one heap per type, indexed by address: the slots of all CNodes and the slots
  embedded in TCBs in \<open>ctes\<close>, the queue links of TCBs in \<open>tlinks\<close>. Requests to the interrupt
  controller, the FPU, the TLB and to other cores are recorded in \<open>events\<close> in the order they
  are made.
\<close>

section \<open>State\<close>

datatype kevent =
    EvIpi nat
  | EvFpuRelease u64
  | EvFpuLazyRestore u64
  | EvTlbFlushAll
  | EvTlbFlushAsid u16
  | EvSfenceVa u64
  | EvSfenceAll
  | EvRemoteFlushAll nat
  | EvRemoteFlushAsid nat u16
  | EvSwitchSatp u64
  | EvSetTimer u64
  | EvIrqEnable u64
  | EvIrqDisable u64
  | EvIrqComplete u64

record asid_state =
  asid_table :: "nat \<Rightarrow> u64"
  pool_active :: "nat \<Rightarrow> bool"
  pool_ptr :: "nat \<Rightarrow> u64"

record kstate =
  ctes :: cte_heap
  tcbs :: "u64 \<Rightarrow> tcb"
  tlinks :: links_heap
  eps :: "u64 \<Rightarrow> endpoint"
  ntfns :: "u64 \<Rightarrow> notification"
  mem :: "u64 \<Rightarrow> u64"
  runqueues :: "nat \<Rightarrow> queue"
  cpu_online :: "nat \<Rightarrow> bool"
  cpu_current :: "nat \<Rightarrow> u64"
  idle_tcbs :: "nat \<Rightarrow> u64"
  continue_once :: "nat \<Rightarrow> u64"
  resched :: "nat \<Rightarrow> bool"
  irq_node_base :: u64
  irq_active :: "nat \<Rightarrow> bool"
  asids :: asid_state
  work_units :: nat
  time_reads :: "nat \<Rightarrow> u64"
  time_pos :: nat
  next_timer_deadline :: "nat \<Rightarrow> u64"
  synthetic_deadline :: u64
  irq_claims :: "u64 list"
  stale_answers :: "nat \<Rightarrow> bool"
  satp :: "nat \<Rightarrow> u64"
  kernel_vspace_root :: u64
  events :: "kevent list"
  MAX_NUM_NODES :: nat
  current_core_id :: nat

text \<open>
  \<open>MAX_NUM_NODES\<close> is the build-time number of cores (1 to 8) and \<open>current_core_id\<close> the core the
  kernel runs on, which the source clamps below \<open>MAX_NUM_NODES\<close>. \<open>mem\<close> holds the plain words
  of memory the kernel reads and writes itself: IPC buffers, ASID pools and page tables. The
  inputs of the hardware are given in advance: \<open>time_reads\<close> are the values successive reads of
  the time counter return (\<open>time_pos\<close> counts the reads) and \<open>irq_claims\<close> the interrupt numbers
  successive claims at the interrupt controller return. \<open>stale_answers\<close> says, for a request made to
  another core after so many recorded events, whether the answer taken for it is the late answer of a
  third core to an earlier request.
\<close>

definition core_config_ok :: "kstate \<Rightarrow> bool" where
  "core_config_ok s \<longleftrightarrow> 0 < MAX_NUM_NODES s \<and> MAX_NUM_NODES s \<le> 8 \<and> current_core_id s < MAX_NUM_NODES s"

definition log_event :: "kevent \<Rightarrow> kstate \<Rightarrow> kstate" where
  "log_event e s = s\<lparr> events := events s @ [e] \<rparr>"

definition upd_tcb :: "u64 \<Rightarrow> (tcb \<Rightarrow> tcb) \<Rightarrow> kstate \<Rightarrow> kstate" where
  "upd_tcb t f s = s\<lparr> tcbs := (tcbs s)(t := f (tcbs s t)) \<rparr>"

definition upd_ep :: "u64 \<Rightarrow> (endpoint \<Rightarrow> endpoint) \<Rightarrow> kstate \<Rightarrow> kstate" where
  "upd_ep ep f s = s\<lparr> eps := (eps s)(ep := f (eps s ep)) \<rparr>"

definition upd_ntfn :: "u64 \<Rightarrow> (notification \<Rightarrow> notification) \<Rightarrow> kstate \<Rightarrow> kstate" where
  "upd_ntfn n f s = s\<lparr> ntfns := (ntfns s)(n := f (ntfns s n)) \<rparr>"

definition upd_ctes :: "(cte_heap \<Rightarrow> cte_heap) \<Rightarrow> kstate \<Rightarrow> kstate" where
  "upd_ctes f s = s\<lparr> ctes := f (ctes s) \<rparr>"

definition upd_ctes_opt :: "(cte_heap \<Rightarrow> cte_heap option) \<Rightarrow> kstate \<Rightarrow> kstate option" where
  "upd_ctes_opt f s = (case f (ctes s) of None \<Rightarrow> None | Some h \<Rightarrow> Some (s\<lparr> ctes := h \<rparr>))"

definition upd_links :: "(links_heap \<Rightarrow> links_heap) \<Rightarrow> kstate \<Rightarrow> kstate" where
  "upd_links f s = s\<lparr> tlinks := f (tlinks s) \<rparr>"

section \<open>Cores\<close>

definition MAX_BOOT_CPUS :: nat where "MAX_BOOT_CPUS = 8"

definition current_tcb :: "kstate \<Rightarrow> u64 option" where
  "current_tcb s = from_kva (cpu_current s (current_core_id s))"

definition set_current_tcb :: "u64 option \<Rightarrow> kstate \<Rightarrow> u64 option \<times> kstate" where
  "set_current_tcb t s =
     (from_kva (cpu_current s (current_core_id s)),
      s\<lparr> cpu_current := (cpu_current s)(current_core_id s := kva_or_zero t) \<rparr>)"

definition clear_current_state :: "kstate \<Rightarrow> kstate" where
  "clear_current_state s = s\<lparr> cpu_current := (cpu_current s)(current_core_id s := 0) \<rparr>"

definition current_core_of_tcb :: "u64 \<Rightarrow> kstate \<Rightarrow> nat option" where
  "current_core_of_tcb t s =
     find (\<lambda>core. cpu_online s core \<and> cpu_current s core = t) [0..<min (MAX_NUM_NODES s) MAX_BOOT_CPUS]"

text \<open>
  An inter-processor interrupt is a request to the firmware; it is recorded, and assumed to be
  accepted (a firmware error is a kernel panic).
\<close>

definition wake_core :: "nat \<Rightarrow> kstate \<Rightarrow> kstate" where
  "wake_core core s =
     (if MAX_NUM_NODES s \<le> core \<or> core = current_core_id s then s
      else if MAX_BOOT_CPUS \<le> core \<or> \<not> cpu_online s core then s
      else log_event (EvIpi core) s)"

definition wake_current_core_of_tcb :: "u64 \<Rightarrow> kstate \<Rightarrow> kstate" where
  "wake_current_core_of_tcb t s = (case current_core_of_tcb t s of
     Some core \<Rightarrow> wake_core core s
   | None \<Rightarrow> s)"

definition idle_thread_of :: "nat \<Rightarrow> kstate \<Rightarrow> u64 option" where
  "idle_thread_of core s = (if core < MAX_NUM_NODES s then Some (idle_tcbs s core) else None)"

definition is_idle_thread :: "kstate \<Rightarrow> u64 \<Rightarrow> bool" where
  "is_idle_thread s t = list_ex (\<lambda>core. idle_thread_of core s = Some t) [0..<MAX_NUM_NODES s]"

text \<open>
  A remote stall waits for the other core to answer; the answer is what
  \<^verbatim>\<open>service_pending_remote_core_op\<close> does there for a stall request, namely to make its idle
  thread current if the target is the thread it runs. With more than two cores the wait can end on
  the late answer of a core that served an earlier request twice; the other core then goes on as
  it was. The interleavings are those of theory \<open>Rel4_Smp\<close>: there the request is shown to be
  performed before the wait ends with two cores, and shown to be missed in a run with three.
\<close>

definition service_remote_stall :: "nat \<Rightarrow> u64 \<Rightarrow> kstate \<Rightarrow> kstate" where
  "service_remote_stall core target s =
     (if target \<noteq> 0 \<and> cpu_current s core = target
      then s\<lparr> cpu_current := (cpu_current s)(core := idle_tcbs s core) \<rparr>
      else s)"

definition remote_tcb_stall :: "u64 \<Rightarrow> kstate \<Rightarrow> kstate" where
  "remote_tcb_stall t s =
     (if is_idle_thread s t then s
      else case current_core_of_tcb t s of
             None \<Rightarrow> s
           | Some core \<Rightarrow>
               if core = current_core_id s then s
               else if 2 < MAX_NUM_NODES s \<and> stale_answers s (length (events s)) then wake_core core s
               else service_remote_stall core t (wake_core core s))"

definition switch_to_idle_thread :: "kstate \<Rightarrow> (u64 \<times> kstate) option" where
  "switch_to_idle_thread s = do {
     idle \<leftarrow> idle_thread_of (current_core_id s) s;
     Some (idle, snd (set_current_tcb (Some idle) s))
   }"

text \<open>
  The flushes of the translation caches: this core flushes its own, then asks the firmware to flush
  those of every other core that is online. A request is recorded and assumed to be accepted; an
  error of the firmware is a kernel panic.
\<close>

definition remote_online_core :: "nat \<Rightarrow> kstate \<Rightarrow> bool" where
  "remote_online_core core s \<longleftrightarrow>
     \<not> (MAX_NUM_NODES s \<le> core \<or> MAX_BOOT_CPUS \<le> core \<or> core = current_core_id s) \<and> cpu_online s core"

definition remote_tlb_flush_all :: "kstate \<Rightarrow> kstate" where
  "remote_tlb_flush_all s =
     fold (\<lambda>core s. if remote_online_core core s then log_event (EvRemoteFlushAll core) s else s) [0..<MAX_NUM_NODES s] s"

definition remote_tlb_flush_asid_all :: "u16 \<Rightarrow> kstate \<Rightarrow> kstate" where
  "remote_tlb_flush_asid_all asid s =
     fold (\<lambda>core s. if remote_online_core core s then log_event (EvRemoteFlushAsid core asid) s else s) [0..<MAX_NUM_NODES s] s"

definition tlb_flush_all_cpus :: "kstate \<Rightarrow> kstate" where
  "tlb_flush_all_cpus s = remote_tlb_flush_all (log_event EvTlbFlushAll s)"

definition tlb_flush_asid_all_cpus :: "u16 \<Rightarrow> kstate \<Rightarrow> kstate" where
  "tlb_flush_asid_all_cpus asid s = remote_tlb_flush_asid_all asid (log_event (EvTlbFlushAsid asid) s)"

section \<open>IPC buffers\<close>

text \<open>A buffer is a run of \<open>IPC_BUFFER_WORDS\<close> words; it is named by its base address.\<close>

definition buffer_word :: "kstate \<Rightarrow> u64 \<Rightarrow> nat \<Rightarrow> u64" where
  "buffer_word s buf i = (if i < IPC_BUFFER_WORDS then mem s (buf + of_nat (i * 8)) else 0)"

definition buffer_set_word :: "u64 \<Rightarrow> nat \<Rightarrow> u64 \<Rightarrow> kstate \<Rightarrow> bool \<times> kstate" where
  "buffer_set_word buf i v s =
     (if i < IPC_BUFFER_WORDS then (True, s\<lparr> mem := (mem s)(buf + of_nat (i * 8) := v) \<rparr>)
      else (False, s))"

fun write_words :: "u64 \<Rightarrow> nat \<Rightarrow> u64 list \<Rightarrow> (u64 \<Rightarrow> u64) \<Rightarrow> u64 \<Rightarrow> u64" where
  "write_words buf start [] m = m"
| "write_words buf start (v # vs) m = write_words buf (Suc start) vs (m(buf + of_nat (start * 8) := v))"

definition buffer_set_words :: "u64 \<Rightarrow> nat \<Rightarrow> u64 list \<Rightarrow> kstate \<Rightarrow> bool \<times> kstate" where
  "buffer_set_words buf start vs s =
     (if start + length vs \<le> IPC_BUFFER_WORDS then (True, s\<lparr> mem := write_words buf start vs (mem s) \<rparr>)
      else (False, s))"

definition buffer_zero_words :: "u64 \<Rightarrow> nat \<Rightarrow> nat \<Rightarrow> kstate \<Rightarrow> bool \<times> kstate" where
  "buffer_zero_words buf start count s =
     (if start + count \<le> IPC_BUFFER_WORDS
      then (True, s\<lparr> mem := write_words buf start (replicate count 0) (mem s) \<rparr>)
      else (False, s))"

definition buffer_copy_words_from :: "u64 \<Rightarrow> u64 \<Rightarrow> nat \<Rightarrow> nat \<Rightarrow> kstate \<Rightarrow> bool \<times> kstate" where
  "buffer_copy_words_from buf src start count s =
     (if buf = src then (start + count \<le> IPC_BUFFER_WORDS, s)
      else if start + count \<le> IPC_BUFFER_WORDS
      then buffer_set_words buf start (map (\<lambda>i. buffer_word s src i) [start..<start + count]) s
      else (False, s))"

section \<open>Thread accessors\<close>

definition tcb_state_of :: "kstate \<Rightarrow> u64 \<Rightarrow> thread_state" where
  "tcb_state_of s t = tcb_state (tcbs s t)"

definition set_state :: "u64 \<Rightarrow> thread_state \<Rightarrow> kstate \<Rightarrow> kstate" where
  "set_state t st s = upd_tcb t (\<lambda>x. x\<lparr> tcb_state := st \<rparr>) s"

definition is_runnable :: "kstate \<Rightarrow> u64 \<Rightarrow> bool" where
  "is_runnable s t = ts_is_runnable (tcb_state (tcbs s t))"

definition core_for_affinity :: "kstate \<Rightarrow> u8 \<Rightarrow> nat" where
  "core_for_affinity s a = (let core = unat a in if core < MAX_NUM_NODES s then core else 0)"

definition home_core :: "kstate \<Rightarrow> u64 \<Rightarrow> nat" where
  "home_core s t = core_for_affinity s (tcb_affinity (tcbs s t))"

definition fpu_disabled :: "kstate \<Rightarrow> u64 \<Rightarrow> bool" where
  "fpu_disabled s t \<longleftrightarrow> tcb_flags (tcbs s t) AND TCB_FLAG_FPU_DISABLED \<noteq> 0"

definition cap_slot :: "u64 \<Rightarrow> nat \<Rightarrow> u64 option" where
  "cap_slot t i = objarray_get t 32 TCB_CNODE_ENTRIES i"

definition cap_at :: "kstate \<Rightarrow> u64 \<Rightarrow> nat \<Rightarrow> cap" where
  "cap_at s t i = (if i < TCB_CNODE_ENTRIES then slot_cap (ctes s) (t + of_nat (i * 32)) else null_cap)"

definition cspace_cap :: "kstate \<Rightarrow> u64 \<Rightarrow> cap" where
  "cspace_cap s t = cap_at s t TCB_CTABLE_SLOT"

definition vspace_cap :: "kstate \<Rightarrow> u64 \<Rightarrow> cap" where
  "vspace_cap s t = cap_at s t TCB_VTABLE_SLOT"

definition blocked_on_reply :: "kstate \<Rightarrow> u64 \<Rightarrow> bool" where
  "blocked_on_reply s t \<longleftrightarrow> tcb_state (tcbs s t) = BlockedOnReply"

definition blocked_on_receive :: "kstate \<Rightarrow> u64 \<Rightarrow> bool" where
  "blocked_on_receive s t \<longleftrightarrow> tcb_state (tcbs s t) = BlockedOnReceive"

definition blocked_receive_of :: "kstate \<Rightarrow> u64 \<Rightarrow> blocked_receive option" where
  "blocked_receive_of s t =
     (if tcb_state (tcbs s t) \<noteq> BlockedOnReceive then None
      else Some (case Option.bind (tcb_waiting_on (tcbs s t)) wait_endpoint of
                   Some ep \<Rightarrow> OnEndpoint ep
                 | None \<Rightarrow> Detached))"

definition waits_on_endpoint :: "kstate \<Rightarrow> u64 \<Rightarrow> u64 \<Rightarrow> bool \<Rightarrow> bool" where
  "waits_on_endpoint s t ep sending \<longleftrightarrow>
     tcb_state (tcbs s t) = (if sending then BlockedOnSend else BlockedOnReceive) \<and>
     tcb_waiting_on (tcbs s t) = Some (WaitEndpoint ep)"

definition waits_on_notification :: "kstate \<Rightarrow> u64 \<Rightarrow> u64 \<Rightarrow> bool" where
  "waits_on_notification s t n \<longleftrightarrow>
     tcb_state (tcbs s t) = BlockedOnNotification \<and>
     tcb_waiting_on (tcbs s t) = Some (WaitNotification n)"

section \<open>Thread state transitions\<close>

definition upd_context :: "u64 \<Rightarrow> (user_context \<Rightarrow> user_context) \<Rightarrow> kstate \<Rightarrow> kstate" where
  "upd_context t f s = upd_tcb t (\<lambda>x. x\<lparr> tcb_context := f (tcb_context x) \<rparr>) s"

definition ipc_message_regs :: "kstate \<Rightarrow> u64 \<Rightarrow> u64 \<Rightarrow> u64 list" where
  "ipc_message_regs s t len =
     map (\<lambda>i. if i < unat (min len 4) then mr (tcb_context (tcbs s t)) i else 0) [0..<4]"

definition write_ipc_message_regs :: "u64 \<Rightarrow> u64 \<Rightarrow> u64 list \<Rightarrow> u64 \<Rightarrow> kstate \<Rightarrow> kstate" where
  "write_ipc_message_regs t badge mr_regs len s =
     upd_context t (\<lambda>uc. fold (\<lambda>i. set_mr i (mr_regs ! i)) [0..<unat (min len 4)] (set_cap_reg badge uc)) s"

definition write_fault_ipc_message_regs ::
  "u64 \<Rightarrow> u64 \<Rightarrow> u64 \<Rightarrow> u64 list \<Rightarrow> u64 \<Rightarrow> kstate \<Rightarrow> kstate" where
  "write_fault_ipc_message_regs t badge info_word mrs len s =
     upd_context t (\<lambda>uc. fold (\<lambda>i. set_mr i (mrs ! i)) [0..<min (unat (min len 4)) (length mrs)]
                           (set_msg_info info_word (set_cap_reg badge uc))) s"

definition write_message_info :: "u64 \<Rightarrow> u64 \<Rightarrow> kstate \<Rightarrow> kstate" where
  "write_message_info t info_word s = upd_context t (set_msg_info info_word) s"

definition write_user_context :: "u64 \<Rightarrow> u64 option \<Rightarrow> (nat \<times> u64) list \<Rightarrow> kstate \<Rightarrow> kstate" where
  "write_user_context t pc regs s =
     upd_context t (\<lambda>uc.
       let uc1 = (case pc of Some p \<Rightarrow> apply_written_pc p uc | None \<Rightarrow> uc)
       in fold (\<lambda>(i, v) uc. if i < 32 then uc\<lparr> uc_regs := (uc_regs uc)(i := v) \<rparr> else uc) regs uc1) s"

definition user_context_word :: "kstate \<Rightarrow> u64 \<Rightarrow> nat \<Rightarrow> nat \<Rightarrow> u64" where
  "user_context_word s t context_index reg =
     (let uc = tcb_context (tcbs s t) in
      if context_index = 0 then uc_restart_pc uc
      else if context_index = 1 then return_reg uc
      else if reg < 32 then uc_regs uc reg else 0)"

definition set_tls_base :: "u64 \<Rightarrow> u64 \<Rightarrow> kstate \<Rightarrow> kstate" where
  "set_tls_base t tls s = upd_context t (set_tls_reg tls) s"

record queued_sender_snapshot =
  qs_info_word :: u64
  qs_badge :: u64
  qs_is_call :: bool
  qs_can_grant :: bool
  qs_can_grant_reply :: bool
  qs_extra_cap_slots :: "u64 option list"
  qs_is_fault :: bool
  qs_fault_label :: u64

definition queued_sender :: "kstate \<Rightarrow> u64 \<Rightarrow> queued_sender_snapshot" where
  "queued_sender s t =
     (let x = tcbs s t in
      \<lparr> qs_info_word = msg_info (tcb_context x), qs_badge = tcb_sender_badge x,
        qs_is_call = tcb_sender_is_call x, qs_can_grant = tcb_sender_can_grant x,
        qs_can_grant_reply = tcb_sender_can_grant_reply x,
        qs_extra_cap_slots = tcb_sender_extra_cap_slots x, qs_is_fault = tcb_sender_is_fault x,
        qs_fault_label = (if tcb_sender_is_fault x then tcb_fault_label x else 0) \<rparr>)"

definition sender_fault :: "kstate \<Rightarrow> u64 \<Rightarrow> bool \<times> u64" where
  "sender_fault s t =
     (tcb_sender_is_fault (tcbs s t),
      if tcb_sender_is_fault (tcbs s t) then tcb_fault_label (tcbs s t) else 0)"

definition record_fault_message :: "u64 \<Rightarrow> u64 \<Rightarrow> u64 \<Rightarrow> u64 list \<Rightarrow> kstate \<Rightarrow> kstate" where
  "record_fault_message t label len mrs s =
     upd_tcb t (\<lambda>x. x\<lparr> tcb_sender_is_fault := True, tcb_fault_label := label, tcb_fault_len := len,
       tcb_fault_mrs := mrs \<rparr>) s"

definition clear_fault_message :: "u64 \<Rightarrow> kstate \<Rightarrow> kstate" where
  "clear_fault_message t s = upd_tcb t clear_fault s"

definition set_inactive :: "u64 \<Rightarrow> kstate \<Rightarrow> kstate" where
  "set_inactive t s = set_state t Inactive s"

definition rewind_pc :: "u64 \<Rightarrow> kstate \<Rightarrow> kstate" where
  "rewind_pc t s = upd_tcb t tcb_rewind_pc s"

definition clear_blocked_receive_state :: "u64 \<Rightarrow> kstate \<Rightarrow> kstate" where
  "clear_blocked_receive_state t s =
     upd_tcb t (\<lambda>x. clear_endpoint_ipc_state (x\<lparr> tcb_waiting_on := None \<rparr>)) s"

definition set_blocked_on_reply :: "u64 \<Rightarrow> kstate \<Rightarrow> kstate" where
  "set_blocked_on_reply t s =
     upd_tcb t (\<lambda>x. (clear_endpoint_ipc_state_preserving_fault (x\<lparr> tcb_waiting_on := None \<rparr>))
       \<lparr> tcb_state := BlockedOnReply \<rparr>) s"

text \<open>
  The floating point unit is given to a thread that may use it; the thread's saved status says
  whether it may. Whose registers the unit holds is the subject of theory \<open>Rel4_Fpu\<close>.
\<close>

definition fpu_lazy_restore :: "u64 \<Rightarrow> kstate \<Rightarrow> kstate" where
  "fpu_lazy_restore t s =
     upd_context t (set_fpu_context_enabled (\<not> fpu_disabled s t)) (log_event (EvFpuLazyRestore t) s)"

definition prepare_for_user_restore :: "u64 \<Rightarrow> kstate \<Rightarrow> kstate" where
  "prepare_for_user_restore t s =
     fpu_lazy_restore t
       (upd_tcb t (\<lambda>x. if tcb_state x = Restart
          then x\<lparr> tcb_context := (tcb_context x)\<lparr> uc_pc := uc_restart_pc (tcb_context x) \<rparr>,
                  tcb_state := Running \<rparr>
          else x) s)"

definition set_running_with_reply_regs :: "u64 \<Rightarrow> u64 \<Rightarrow> u64 \<Rightarrow> kstate \<Rightarrow> kstate" where
  "set_running_with_reply_regs t badge info_word s =
     upd_tcb t (\<lambda>x. x\<lparr> tcb_context := set_msg_info info_word (set_cap_reg badge (tcb_context x)),
                      tcb_state := Running \<rparr>) s"

definition set_blocked_on_notification :: "u64 \<Rightarrow> u64 \<Rightarrow> kstate \<Rightarrow> kstate" where
  "set_blocked_on_notification t n s =
     upd_tcb t (\<lambda>x. x\<lparr> tcb_state := BlockedOnNotification,
                      tcb_waiting_on := Some (WaitNotification n) \<rparr>) s"

definition complete_notification_wait :: "u64 \<Rightarrow> u64 \<Rightarrow> kstate \<Rightarrow> kstate" where
  "complete_notification_wait t badge s =
     upd_tcb t (\<lambda>x. (write_notification_badge_regs badge (x\<lparr> tcb_waiting_on := None \<rparr>))
       \<lparr> tcb_state := Running \<rparr>) s"

definition complete_bound_endpoint_notification_wait :: "u64 \<Rightarrow> u64 \<Rightarrow> kstate \<Rightarrow> kstate" where
  "complete_bound_endpoint_notification_wait t badge s =
     upd_tcb t (\<lambda>x. (write_notification_badge_regs badge
         (clear_endpoint_ipc_state (x\<lparr> tcb_waiting_on := None \<rparr>)))\<lparr> tcb_state := Running \<rparr>) s"

definition cancel_endpoint_waiter ::
  "u64 \<Rightarrow> u64 option \<Rightarrow> kstate \<Rightarrow> (u64 option \<times> bool) \<times> kstate" where
  "cancel_endpoint_waiter t call_error_info s =
     (let nxt = next_of (tlinks s) t;
          x = tcbs s t;
          s1 = upd_links (clear_links t) s
      in if tcb_state x \<noteq> BlockedOnSend \<and> tcb_state x \<noteq> BlockedOnReceive
         then ((nxt, False), upd_tcb t (\<lambda>x. clear_endpoint_ipc_state (x\<lparr> tcb_waiting_on := None \<rparr>)) s1)
         else
           let was_call = tcb_sender_is_call x;
               was_fault_sender = (tcb_state x = BlockedOnSend \<and> tcb_sender_is_fault x);
               preserve_fault = (was_fault_sender \<and> call_error_info = None);
               x1 = x\<lparr> tcb_waiting_on := None \<rparr>;
               x2 = (if preserve_fault then clear_endpoint_ipc_state_preserving_fault x1
                     else clear_endpoint_ipc_state x1);
               x3 = (case call_error_info of
                       Some info_word \<Rightarrow>
                         (let c1 = set_cap_reg 0 (tcb_context x2);
                              c2 = (if was_call
                                    then fold (\<lambda>i. set_mr i 0) [0..<4] (set_msg_info info_word c1)
                                    else c1)
                          in x2\<lparr> tcb_context := c2 \<rparr>)
                     | None \<Rightarrow> x2)
           in if was_fault_sender
              then ((nxt, False), upd_tcb t (\<lambda>_. x3\<lparr> tcb_state := Inactive \<rparr>) s1)
              else ((nxt, True), upd_tcb t (\<lambda>_. x3\<lparr> tcb_state := Restart \<rparr>) s1))"

definition restart_notification_waiter :: "u64 \<Rightarrow> kstate \<Rightarrow> u64 option \<times> kstate" where
  "restart_notification_waiter t s =
     (next_of (tlinks s) t,
      upd_tcb t (\<lambda>x. x\<lparr> tcb_waiting_on := None, tcb_state := Restart \<rparr>) (upd_links (clear_links t) s))"

definition finish_reply_state :: "u64 \<Rightarrow> bool \<Rightarrow> bool \<Rightarrow> kstate \<Rightarrow> kstate" where
  "finish_reply_state t clear_fault_msg wake s =
     upd_tcb t (\<lambda>x. (if clear_fault_msg then clear_fault x else x)
       \<lparr> tcb_waiting_on := None, tcb_state := (if wake then Running else Inactive) \<rparr>) s"

definition set_blocked_sender ::
  "u64 \<Rightarrow> u64 \<Rightarrow> bool \<Rightarrow> u64 \<Rightarrow> bool \<Rightarrow> bool \<Rightarrow> u64 option list \<Rightarrow> kstate \<Rightarrow> kstate" where
  "set_blocked_sender t ep is_call badge can_grant can_grant_reply extra_cap_slots s =
     upd_tcb t (\<lambda>x. (clear_endpoint_ipc_state x)
       \<lparr> tcb_state := BlockedOnSend, tcb_waiting_on := Some (WaitEndpoint ep), tcb_sender_badge := badge,
         tcb_sender_can_grant := can_grant, tcb_sender_can_grant_reply := can_grant_reply,
         tcb_sender_extra_cap_slots := extra_cap_slots, tcb_sender_is_call := is_call,
         tcb_sender_is_fault := False \<rparr>) s"

definition set_blocked_receiver :: "u64 \<Rightarrow> u64 \<Rightarrow> bool \<Rightarrow> kstate \<Rightarrow> kstate" where
  "set_blocked_receiver t ep can_grant s =
     upd_tcb t (\<lambda>x. (clear_endpoint_ipc_state x)
       \<lparr> tcb_state := BlockedOnReceive, tcb_waiting_on := Some (WaitEndpoint ep),
         tcb_receiver_can_grant := can_grant \<rparr>) s"

definition set_blocked_fault_sender ::
  "u64 \<Rightarrow> u64 \<Rightarrow> u64 \<Rightarrow> bool \<Rightarrow> bool \<Rightarrow> u64 \<Rightarrow> u64 \<Rightarrow> u64 list \<Rightarrow> kstate \<Rightarrow> kstate" where
  "set_blocked_fault_sender t ep badge can_grant can_grant_reply label len mrs s =
     upd_tcb t (\<lambda>x. (clear_endpoint_ipc_state x)
       \<lparr> tcb_state := BlockedOnSend, tcb_waiting_on := Some (WaitEndpoint ep), tcb_sender_badge := badge,
         tcb_sender_can_grant := can_grant, tcb_sender_can_grant_reply := can_grant_reply,
         tcb_sender_extra_cap_slots := replicate TCB_SENDER_EXTRA_CAPS None,
         tcb_sender_is_call := True, tcb_sender_is_fault := True, tcb_fault_label := label,
         tcb_fault_len := len, tcb_fault_mrs := mrs \<rparr>) s"

definition start_receiver_rendezvous :: "u64 \<Rightarrow> kstate \<Rightarrow> bool \<times> kstate" where
  "start_receiver_rendezvous t s =
     (tcb_receiver_can_grant (tcbs s t), upd_tcb t (\<lambda>x. x\<lparr> tcb_waiting_on := None \<rparr>) s)"

definition wake_blocked_receiver_after_send :: "u64 \<Rightarrow> kstate \<Rightarrow> kstate" where
  "wake_blocked_receiver_after_send t s =
     upd_tcb t (\<lambda>x. (clear_endpoint_ipc_state (x\<lparr> tcb_waiting_on := None \<rparr>))\<lparr> tcb_state := Running \<rparr>) s"

definition finish_receiver_rendezvous :: "u64 \<Rightarrow> kstate \<Rightarrow> kstate" where
  "finish_receiver_rendezvous t s =
     upd_tcb t (\<lambda>x. (clear_endpoint_ipc_state x)\<lparr> tcb_state := Running \<rparr>) s"

definition deactivate_queued_call_sender :: "u64 \<Rightarrow> kstate \<Rightarrow> kstate" where
  "deactivate_queued_call_sender t s =
     upd_tcb t (\<lambda>x. (tcb_rewind_pc (x\<lparr> tcb_waiting_on := None \<rparr>))
       \<lparr> tcb_state := Inactive, tcb_sender_is_call := False \<rparr>) s"

definition wake_queued_sender :: "u64 \<Rightarrow> kstate \<Rightarrow> kstate" where
  "wake_queued_sender t s = upd_tcb t (\<lambda>x. x\<lparr> tcb_waiting_on := None, tcb_state := Running \<rparr>) s"

definition finish_call_sender_after_rendezvous :: "u64 \<Rightarrow> bool \<Rightarrow> kstate \<Rightarrow> kstate" where
  "finish_call_sender_after_rendezvous t blocked s =
     upd_tcb t (\<lambda>x. (if blocked then x\<lparr> tcb_state := BlockedOnReply \<rparr>
                      else (tcb_rewind_pc x)\<lparr> tcb_state := Inactive \<rparr>)\<lparr> tcb_waiting_on := None \<rparr>) s"

definition set_ipc_buffer :: "u64 \<Rightarrow> u64 \<Rightarrow> cap \<Rightarrow> kstate \<Rightarrow> kstate" where
  "set_ipc_buffer t buffer_uva buffer_cap s =
     upd_tcb t (\<lambda>x. if buffer_uva = 0 then x\<lparr> tcb_ipc_buffer_uva := 0, tcb_ipc_buffer := None \<rparr>
       else x\<lparr> tcb_ipc_buffer_uva := buffer_uva,
               tcb_ipc_buffer := from_kva (frame_base_ptr buffer_cap) \<rparr>) s"

definition set_flags :: "u64 \<Rightarrow> u64 \<Rightarrow> u64 \<Rightarrow> kstate \<Rightarrow> u64 \<times> kstate" where
  "set_flags t clr st s =
     (let flags = (tcb_flags (tcbs s t) AND NOT clr) OR (st AND TCB_FLAG_MASK);
          s1 = upd_tcb t (\<lambda>x. x\<lparr> tcb_flags := flags \<rparr>) s
      in (flags,
          if flags AND TCB_FLAG_FPU_DISABLED \<noteq> 0
          then upd_context t (set_fpu_context_enabled False) (log_event (EvFpuRelease t) s1)
          else if current_tcb s1 = Some t then fpu_lazy_restore t s1
          else s1))"

definition set_debug_name :: "u64 \<Rightarrow> u8 list \<Rightarrow> kstate \<Rightarrow> kstate" where
  "set_debug_name t name s =
     upd_tcb t (\<lambda>x. x\<lparr> tcb_name :=
       (let copied = take (TCB_NAME_LEN - 1) name
        in copied @ replicate (TCB_NAME_LEN - length copied) 0) \<rparr>) s"

definition bind_notification :: "u64 \<Rightarrow> u64 \<Rightarrow> kstate \<Rightarrow> kstate" where
  "bind_notification t n s =
     (let s1 = (case tcb_bound_notification (tcbs s t) of
                  Some previous \<Rightarrow> upd_ntfn previous (ntfn_set_bound_tcb None) s
                | None \<Rightarrow> s);
          s2 = upd_tcb t (\<lambda>x. x\<lparr> tcb_bound_notification := Some n \<rparr>) s1
      in upd_ntfn n (ntfn_set_bound_tcb (Some t)) s2)"

definition unbind_notification :: "u64 \<Rightarrow> kstate \<Rightarrow> kstate" where
  "unbind_notification t s = (case tcb_bound_notification (tcbs s t) of
     None \<Rightarrow> s
   | Some n \<Rightarrow> upd_tcb t (\<lambda>x. x\<lparr> tcb_bound_notification := None \<rparr>)
                 (upd_ntfn n (ntfn_set_bound_tcb None) s))"

definition clear_bound_notification_if :: "u64 \<Rightarrow> u64 \<Rightarrow> kstate \<Rightarrow> bool \<times> kstate" where
  "clear_bound_notification_if t n s =
     (if tcb_bound_notification (tcbs s t) \<noteq> Some n then (False, s)
      else (True, upd_tcb t (\<lambda>x. x\<lparr> tcb_bound_notification := None \<rparr>) s))"

section \<open>Ready queues\<close>

definition rq_state :: "kstate \<Rightarrow> nat \<Rightarrow> queue \<times> links_heap" where
  "rq_state s core = (runqueues s core, tlinks s)"

definition set_rq_state :: "nat \<Rightarrow> queue \<times> links_heap \<Rightarrow> kstate \<Rightarrow> kstate" where
  "set_rq_state core q s = s\<lparr> runqueues := (runqueues s)(core := fst q), tlinks := snd q \<rparr>"

section \<open>Reading a field after an update\<close>

named_theorems st_simps \<open>components of the state after an update of another component\<close>

lemmas upd_defs = upd_tcb_def upd_ep_def upd_ntfn_def upd_ctes_def upd_links_def log_event_def
  set_rq_state_def

lemma upd_tcb_sel [simp, st_simps]:
  "tcbs (upd_tcb t f s) = (tcbs s)(t := f (tcbs s t))" "tlinks (upd_tcb t f s) = tlinks s"
  "eps (upd_tcb t f s) = eps s" "ntfns (upd_tcb t f s) = ntfns s" "ctes (upd_tcb t f s) = ctes s"
  "runqueues (upd_tcb t f s) = runqueues s" "cpu_current (upd_tcb t f s) = cpu_current s"
  "MAX_NUM_NODES (upd_tcb t f s) = MAX_NUM_NODES s"
  "current_core_id (upd_tcb t f s) = current_core_id s" "idle_tcbs (upd_tcb t f s) = idle_tcbs s"
  "mem (upd_tcb t f s) = mem s" "resched (upd_tcb t f s) = resched s"
  by (simp_all add: upd_tcb_def)

lemma upd_ep_sel [simp, st_simps]:
  "eps (upd_ep t f s) = (eps s)(t := f (eps s t))" "tlinks (upd_ep t f s) = tlinks s"
  "tcbs (upd_ep t f s) = tcbs s" "ntfns (upd_ep t f s) = ntfns s" "ctes (upd_ep t f s) = ctes s"
  "runqueues (upd_ep t f s) = runqueues s" "cpu_current (upd_ep t f s) = cpu_current s"
  "MAX_NUM_NODES (upd_ep t f s) = MAX_NUM_NODES s"
  "current_core_id (upd_ep t f s) = current_core_id s" "idle_tcbs (upd_ep t f s) = idle_tcbs s"
  "mem (upd_ep t f s) = mem s" "resched (upd_ep t f s) = resched s"
  by (simp_all add: upd_ep_def)

lemma upd_ntfn_sel [simp, st_simps]:
  "ntfns (upd_ntfn t f s) = (ntfns s)(t := f (ntfns s t))" "tlinks (upd_ntfn t f s) = tlinks s"
  "tcbs (upd_ntfn t f s) = tcbs s" "eps (upd_ntfn t f s) = eps s" "ctes (upd_ntfn t f s) = ctes s"
  "runqueues (upd_ntfn t f s) = runqueues s" "cpu_current (upd_ntfn t f s) = cpu_current s"
  "MAX_NUM_NODES (upd_ntfn t f s) = MAX_NUM_NODES s"
  "current_core_id (upd_ntfn t f s) = current_core_id s" "idle_tcbs (upd_ntfn t f s) = idle_tcbs s"
  "mem (upd_ntfn t f s) = mem s" "resched (upd_ntfn t f s) = resched s"
  by (simp_all add: upd_ntfn_def)

lemma upd_links_sel [simp, st_simps]:
  "tlinks (upd_links f s) = f (tlinks s)" "tcbs (upd_links f s) = tcbs s" "eps (upd_links f s) = eps s"
  "ntfns (upd_links f s) = ntfns s" "ctes (upd_links f s) = ctes s"
  "runqueues (upd_links f s) = runqueues s" "cpu_current (upd_links f s) = cpu_current s"
  "MAX_NUM_NODES (upd_links f s) = MAX_NUM_NODES s"
  "current_core_id (upd_links f s) = current_core_id s" "idle_tcbs (upd_links f s) = idle_tcbs s"
  "mem (upd_links f s) = mem s" "resched (upd_links f s) = resched s"
  by (simp_all add: upd_links_def)

lemma log_event_sel [simp, st_simps]:
  "tlinks (log_event e s) = tlinks s" "tcbs (log_event e s) = tcbs s" "eps (log_event e s) = eps s"
  "ntfns (log_event e s) = ntfns s" "ctes (log_event e s) = ctes s"
  "runqueues (log_event e s) = runqueues s" "cpu_current (log_event e s) = cpu_current s"
  "MAX_NUM_NODES (log_event e s) = MAX_NUM_NODES s"
  "current_core_id (log_event e s) = current_core_id s" "idle_tcbs (log_event e s) = idle_tcbs s"
  "mem (log_event e s) = mem s" "resched (log_event e s) = resched s"
  by (simp_all add: log_event_def)

text \<open>The flushes of the other cores only add to the record, one request for each of them.\<close>

lemma remote_online_log [simp]: "remote_online_core core (log_event e s) = remote_online_core core s"
  by (simp add: remote_online_core_def log_event_def)

lemma fold_log_online:
  "fold (\<lambda>core s. if remote_online_core core s then log_event (f core) s else s) cores s =
     s\<lparr> events := events s @ map f (filter (\<lambda>core. remote_online_core core s) cores) \<rparr>"
proof (induction cores arbitrary: s)
  case (Cons c cores)
  then show ?case by (cases "remote_online_core c s") (simp_all, simp add: log_event_def remote_online_core_def)
qed simp

definition other_cores :: "kstate \<Rightarrow> nat list" where
  "other_cores s = filter (\<lambda>core. remote_online_core core s) [0..<MAX_NUM_NODES s]"

lemma remote_flush_eqs:
  "remote_tlb_flush_all s = s\<lparr> events := events s @ map EvRemoteFlushAll (other_cores s) \<rparr>"
  "remote_tlb_flush_asid_all a s = s\<lparr> events := events s @ map (\<lambda>core. EvRemoteFlushAsid core a) (other_cores s) \<rparr>"
  by (simp_all add: remote_tlb_flush_all_def remote_tlb_flush_asid_all_def fold_log_online other_cores_def)

lemma other_cores_log [simp]: "other_cores (log_event e s) = other_cores s"
  by (simp add: other_cores_def)

lemma flush_eqs:
  "tlb_flush_all_cpus s = s\<lparr> events := events s @ EvTlbFlushAll # map EvRemoteFlushAll (other_cores s) \<rparr>"
  "tlb_flush_asid_all_cpus a s =
     s\<lparr> events := events s @ EvTlbFlushAsid a # map (\<lambda>core. EvRemoteFlushAsid core a) (other_cores s) \<rparr>"
  by (simp_all add: tlb_flush_all_cpus_def tlb_flush_asid_all_cpus_def remote_flush_eqs, simp_all add: log_event_def)

lemma set_rq_state_sel [simp, st_simps]:
  "runqueues (set_rq_state c q s) = (runqueues s)(c := fst q)" "tlinks (set_rq_state c q s) = snd q"
  "tcbs (set_rq_state c q s) = tcbs s" "eps (set_rq_state c q s) = eps s"
  "ntfns (set_rq_state c q s) = ntfns s" "ctes (set_rq_state c q s) = ctes s"
  "cpu_current (set_rq_state c q s) = cpu_current s"
  "MAX_NUM_NODES (set_rq_state c q s) = MAX_NUM_NODES s"
  "current_core_id (set_rq_state c q s) = current_core_id s"
  "idle_tcbs (set_rq_state c q s) = idle_tcbs s"
  "mem (set_rq_state c q s) = mem s" "resched (set_rq_state c q s) = resched s"
  by (simp_all add: set_rq_state_def)

lemma wake_core_cases: "wake_core c s = s \<or> wake_core c s = log_event (EvIpi c) s"
  by (simp add: wake_core_def)

lemma wake_core_sel [simp, st_simps]:
  "tlinks (wake_core c s) = tlinks s" "tcbs (wake_core c s) = tcbs s" "eps (wake_core c s) = eps s"
  "ntfns (wake_core c s) = ntfns s" "ctes (wake_core c s) = ctes s"
  "runqueues (wake_core c s) = runqueues s" "cpu_current (wake_core c s) = cpu_current s"
  "MAX_NUM_NODES (wake_core c s) = MAX_NUM_NODES s"
  "current_core_id (wake_core c s) = current_core_id s" "idle_tcbs (wake_core c s) = idle_tcbs s"
  "mem (wake_core c s) = mem s" "resched (wake_core c s) = resched s"
  using wake_core_cases [of c s] by auto

lemma is_idle_thread_cong:
  "MAX_NUM_NODES s' = MAX_NUM_NODES s \<Longrightarrow> idle_tcbs s' = idle_tcbs s \<Longrightarrow> is_idle_thread s' = is_idle_thread s"
  by (simp add: is_idle_thread_def [abs_def] idle_thread_of_def)

lemma is_idle_thread_upds [simp, st_simps]:
  "is_idle_thread (upd_tcb t f s) = is_idle_thread s" "is_idle_thread (upd_ep e g s) = is_idle_thread s"
  "is_idle_thread (upd_ntfn n k s) = is_idle_thread s" "is_idle_thread (upd_links l s) = is_idle_thread s"
  "is_idle_thread (log_event ev s) = is_idle_thread s" "is_idle_thread (wake_core c s) = is_idle_thread s"
  "is_idle_thread (set_rq_state c q s) = is_idle_thread s"
  by (rule is_idle_thread_cong; simp)+

lemma core_for_affinity_cong: "MAX_NUM_NODES s' = MAX_NUM_NODES s \<Longrightarrow> core_for_affinity s' = core_for_affinity s"
  by (simp add: core_for_affinity_def [abs_def])

lemma core_for_affinity_upds [simp, st_simps]:
  "core_for_affinity (upd_tcb t f s) = core_for_affinity s" "core_for_affinity (upd_ep e g s) = core_for_affinity s"
  "core_for_affinity (upd_ntfn n k s) = core_for_affinity s"
  "core_for_affinity (upd_links l s) = core_for_affinity s"
  "core_for_affinity (log_event ev s) = core_for_affinity s"
  by (rule core_for_affinity_cong; simp)+

end
