(* ===== verification/Rel4_Queues.thy ===== *)
theory Rel4_Queues
  imports Rel4_State
begin

text \<open>
  The invariant that all queue code maintains: every ready queue, endpoint queue and notification
  queue is a well-formed doubly linked list, no thread is on two of them, and the links of a
  thread on none of them are clear. This is the claim of \<^verbatim>\<open>ktypes/list.rs\<close> that a TCB is on at
  most one queue at a time. One lemma, \<open>queues_inv_step\<close>, carries the invariant over any
  operation that changes a single queue.
\<close>

datatype qid = RunQ nat | EpQ u64 | NtfnQ u64

definition qrep :: "kstate \<Rightarrow> qid \<Rightarrow> u64 list \<Rightarrow> bool" where
  "qrep s i xs = (case i of
     RunQ c \<Rightarrow> queue_rep queue_ends_of_queue tcb_addr_ok (runqueues s c, tlinks s) xs
   | EpQ e \<Rightarrow> queue_rep queue_ends_of_endpoint tcb_addr_ok (eps s e, tlinks s) xs
   | NtfnQ n \<Rightarrow> queue_rep queue_ends_of_notification tcb_addr_ok (ntfns s n, tlinks s) xs)"

lemma qrep_simps [simp]:
  "qrep s (RunQ c) xs = queue_rep queue_ends_of_queue tcb_addr_ok (runqueues s c, tlinks s) xs"
  "qrep s (EpQ e) xs = queue_rep queue_ends_of_endpoint tcb_addr_ok (eps s e, tlinks s) xs"
  "qrep s (NtfnQ n) xs = queue_rep queue_ends_of_notification tcb_addr_ok (ntfns s n, tlinks s) xs"
  by (simp_all add: qrep_def)

text \<open>The end pointers of a queue, whichever object stores them.\<close>

definition qends :: "kstate \<Rightarrow> qid \<Rightarrow> u64 option \<times> u64 option" where
  "qends s i = (case i of
     RunQ c \<Rightarrow> (queue_head (runqueues s c), queue_tail (runqueues s c))
   | EpQ e \<Rightarrow> (ep_head (eps s e), ep_tail (eps s e))
   | NtfnQ n \<Rightarrow> (ntfn_head (ntfns s n), ntfn_tail (ntfns s n)))"

lemma qends_simps [simp]:
  "qends s (RunQ c) = (queue_head (runqueues s c), queue_tail (runqueues s c))"
  "qends s (EpQ e) = (ep_head (eps s e), ep_tail (eps s e))"
  "qends s (NtfnQ n) = (ntfn_head (ntfns s n), ntfn_tail (ntfns s n))"
  by (simp_all add: qends_def)

lemma qrep_iff:
  "qrep s i xs \<longleftrightarrow> distinct xs \<and> (\<forall>x\<in>set xs. tcb_addr_ok x) \<and> dll (tlinks s) None xs None \<and>
     qends s i = (first_or xs None, last_or xs None)"
  by (cases i) (auto simp: queue_rep_def queue_ends_of_queue_def)

lemma qrep_frame:
  "qrep s i xs \<Longrightarrow> qends s' i = qends s i \<Longrightarrow> (\<And>x. x \<in> set xs \<Longrightarrow> tlinks s' x = tlinks s x) \<Longrightarrow>
   qrep s' i xs"
  using dll_frame [of xs "tlinks s'" "tlinks s"] by (auto simp: qrep_iff)

text \<open>
  The invariant is stated up to a set \<open>W\<close> of detached threads: threads an operation has taken
  off a queue and not yet dealt with, whose links may still be set. Between operations the set is
  empty.
\<close>

definition queues_inv_mod :: "u64 set \<Rightarrow> kstate \<Rightarrow> (qid \<Rightarrow> u64 list) \<Rightarrow> bool" where
  "queues_inv_mod W s qs \<longleftrightarrow>
     (\<forall>i. qrep s i (qs i)) \<and>
     (\<forall>i j. i \<noteq> j \<longrightarrow> set (qs i) \<inter> set (qs j) = {}) \<and>
     (\<forall>i. set (qs i) \<inter> W = {}) \<and>
     (\<forall>t. (\<forall>i. t \<notin> set (qs i)) \<and> t \<notin> W \<longrightarrow> tlinks s t = unlinked)"

abbreviation queues_inv :: "kstate \<Rightarrow> (qid \<Rightarrow> u64 list) \<Rightarrow> bool" where
  "queues_inv \<equiv> queues_inv_mod {}"

lemma queues_invD:
  assumes "queues_inv_mod W s qs"
  shows "qrep s i (qs i)"
    and "t \<in> set (qs i) \<Longrightarrow> t \<in> set (qs j) \<Longrightarrow> i = j"
    and "(\<And>i. t \<notin> set (qs i)) \<Longrightarrow> t \<notin> W \<Longrightarrow> tlinks s t = unlinked"
    and "distinct (qs i)"
    and "t \<in> set (qs i) \<Longrightarrow> tcb_addr_ok t"
    and "t \<in> set (qs i) \<Longrightarrow> t \<notin> W"
proof -
  show rep: "qrep s i (qs i)" for i using assms by (simp add: queues_inv_mod_def)
  show "i = j" if "t \<in> set (qs i)" "t \<in> set (qs j)"
  proof (rule ccontr)
    assume "i \<noteq> j"
    then have "set (qs i) \<inter> set (qs j) = {}" using assms by (simp add: queues_inv_mod_def)
    with that show False by auto
  qed
  show "(\<And>i. t \<notin> set (qs i)) \<Longrightarrow> t \<notin> W \<Longrightarrow> tlinks s t = unlinked"
    using assms by (simp add: queues_inv_mod_def)
  show "distinct (qs i)" "t \<in> set (qs i) \<Longrightarrow> tcb_addr_ok t"
    using rep [of i] by (simp_all add: qrep_iff)
  show "t \<in> set (qs i) \<Longrightarrow> t \<notin> W"
  proof -
    have "set (qs i) \<inter> W = {}" using assms by (simp add: queues_inv_mod_def)
    then show "t \<in> set (qs i) \<Longrightarrow> t \<notin> W" by blast
  qed
qed

lemma queues_inv_step:
  assumes inv: "queues_inv_mod W s qs"
    and others: "\<And>j. j \<noteq> i \<Longrightarrow> qends s' j = qends s j"
    and rep: "qrep s' i xs"
    and frame: "\<And>t. t \<notin> set (qs i) \<Longrightarrow> t \<notin> set xs \<Longrightarrow> t \<notin> W \<Longrightarrow> t \<notin> W' \<Longrightarrow> tlinks s' t = tlinks s t"
    and fresh: "\<And>t j. t \<in> set xs \<or> t \<in> W' \<Longrightarrow> t \<notin> set (qs i) \<Longrightarrow> t \<notin> set (qs j)"
    and apart: "set xs \<inter> W' = {}"
    and gone: "\<And>t. t \<in> set (qs i) \<or> t \<in> W \<Longrightarrow> t \<notin> set xs \<Longrightarrow> t \<notin> W' \<Longrightarrow> tlinks s' t = unlinked"
  shows "queues_inv_mod W' s' (qs(i := xs))"
proof -
  have disj: "x \<notin> set (qs i) \<and> x \<notin> set xs \<and> x \<notin> W \<and> x \<notin> W'" if "x \<in> set (qs j)" "j \<noteq> i" for x j
    using queues_invD(2) [OF inv, of x j i] queues_invD(6) [OF inv, of x j] fresh [of x j] that by blast
  have "qrep s' j (qs j)" if "j \<noteq> i" for j
    by (rule qrep_frame [OF queues_invD(1) [OF inv] others [OF that]]) (use frame disj that in blast)
  moreover have "set ((qs(i := xs)) k) \<inter> set ((qs(i := xs)) l) = {}" if "k \<noteq> l" for k l
    using disj [of _ k] disj [of _ l] queues_invD(2) [OF inv, of _ k l] that by auto
  moreover have "set ((qs(i := xs)) k) \<inter> W' = {}" for k
    using disj [of _ k] apart by auto
  moreover have "tlinks s' t = unlinked" if "\<And>k. t \<notin> set ((qs(i := xs)) k)" "t \<notin> W'" for t
  proof (cases "t \<in> set (qs i) \<or> t \<in> W")
    case True
    then show ?thesis using gone that by (metis fun_upd_same)
  next
    case False
    then have "\<And>k. t \<notin> set (qs k)" using that(1) by (metis fun_upd_apply)
    moreover have "t \<notin> set xs" using that(1) by (metis fun_upd_same)
    ultimately show ?thesis using frame False queues_invD(3) [OF inv] that(2) by metis
  qed
  ultimately show ?thesis using rep by (auto simp: queues_inv_mod_def)
qed

lemma queues_inv_frame:
  assumes "queues_inv_mod W s qs" "\<And>j. qends s' j = qends s j" "tlinks s' = tlinks s"
  shows "queues_inv_mod W s' qs"
  using assms qrep_frame [of s _ _ s'] by (auto simp: queues_inv_mod_def)

lemma qends_same:
  "runqueues s' = runqueues s \<Longrightarrow> eps s' = eps s \<Longrightarrow> ntfns s' = ntfns s \<Longrightarrow> qends s' = qends s"
  by (auto simp: qends_def fun_eq_iff split: qid.split)

lemma queues_inv_same:
  assumes "queues_inv_mod W s qs" "runqueues s' = runqueues s" "eps s' = eps s" "ntfns s' = ntfns s"
    "tlinks s' = tlinks s"
  shows "queues_inv_mod W s' qs"
  using queues_inv_frame [OF assms(1)] qends_same [OF assms(2-4)] assms(5) by metis

text \<open>Updates of other parts of the state leave the queues alone.\<close>

lemma queues_inv_upds [intro]:
  assumes "queues_inv_mod W s qs"
  shows "queues_inv_mod W (upd_tcb t f s) qs" "queues_inv_mod W (log_event e s) qs"
    "queues_inv_mod W (wake_core c s) qs"
  by (rule queues_inv_same [OF assms]; simp)+

lemma queues_inv_set_state_ep:
  assumes "queues_inv_mod W s qs"
  shows "queues_inv_mod W (upd_ep ep (ep_set_state st) s) qs"
  by (rule queues_inv_frame [OF assms]) (auto simp: qends_def obj_simps split: qid.split)

lemma queues_inv_upd_ntfn:
  assumes "queues_inv_mod W s qs" "ntfn_head (f (ntfns s n)) = ntfn_head (ntfns s n)"
    "ntfn_tail (f (ntfns s n)) = ntfn_tail (ntfns s n)"
  shows "queues_inv_mod W (upd_ntfn n f s) qs"
  by (rule queues_inv_frame [OF assms(1)]) (auto simp: qends_def assms split: qid.split)

text \<open>Clearing the links of a detached thread settles it.\<close>

lemma queues_inv_clear:
  assumes inv: "queues_inv_mod W s qs" and t: "\<And>i. t \<notin> set (qs i)"
  shows "queues_inv_mod (W - {t}) (upd_links (clear_links t) s) qs"
proof -
  have "qends (upd_links (clear_links t) s) j = qends s j" for j by (cases j) simp_all
  then have "qrep (upd_links (clear_links t) s) j (qs j)" for j
    by (rule qrep_frame [OF queues_invD(1) [OF inv]]) (use t in \<open>auto simp: clear_links_def set_links_def\<close>)
  moreover have "tlinks (upd_links (clear_links t) s) x = unlinked"
    if "\<And>i. x \<notin> set (qs i)" "x \<notin> W - {t}" for x
    using queues_invD(3) [OF inv that(1)] that(2) by (auto simp: clear_links_def set_links_def)
  ultimately show ?thesis using inv by (auto simp: queues_inv_mod_def)
qed

lemma queues_inv_links:
  assumes inv: "queues_inv_mod W s qs" and "\<And>x. x \<notin> W \<Longrightarrow> lk x = tlinks s x"
  shows "queues_inv_mod W (s\<lparr> tlinks := lk \<rparr>) qs"
proof -
  have "qends (s\<lparr> tlinks := lk \<rparr>) j = qends s j" for j by (cases j) simp_all
  then have "qrep (s\<lparr> tlinks := lk \<rparr>) j (qs j)" for j
    by (rule qrep_frame [OF queues_invD(1) [OF inv]]) (use assms(2) queues_invD(6) [OF inv] in auto)
  then show ?thesis using inv assms(2) by (auto simp: queues_inv_mod_def)
qed

section \<open>One queue of the kernel\<close>

text \<open>
  What an owner of queue ends promises the queue code: \<open>get\<close> and \<open>put\<close> read and write the queue
  \<open>qi k\<close> together with the links of all threads and leave the ends of the other queues alone.
  Appending, removing and popping then keep the invariant, and are the list operations.
\<close>

locale kernel_queue = queue_ends_laws qe tcb_addr_ok for qe :: "'q queue_ends" +
  fixes qi :: "'k \<Rightarrow> qid"
    and get :: "kstate \<Rightarrow> 'k \<Rightarrow> 'q \<times> links_heap"
    and put :: "'k \<Rightarrow> 'q \<times> links_heap \<Rightarrow> kstate \<Rightarrow> kstate"
  assumes rep_iff: "qrep s (qi k) xs \<longleftrightarrow> queue_rep qe tcb_addr_ok (get s k) xs"
    and get_put: "get (put k q s) k = q"
    and links_get: "snd (get s k) = tlinks s"
    and links_put: "tlinks (put k q s) = snd q"
    and ends_other: "j \<noteq> qi k \<Longrightarrow> qends (put k q s) j = qends s j"
begin

lemma rep: "queues_inv_mod W s qs \<Longrightarrow> queue_rep qe tcb_addr_ok (get s k) (qs (qi k))"
  using queues_invD(1) [of W s qs "qi k"] by (simp add: rep_iff)

lemma inv_push:
  assumes inv: "queues_inv_mod W s qs" and t: "tcb_addr_ok t" "\<And>i. t \<notin> set (qs i)" "t \<notin> W"
  shows "queues_inv_mod W (put k (push_back qe t (get s k)) s) (qs(qi k := qs (qi k) @ [t]))"
    (is "queues_inv_mod W ?s' _")
proof (rule queues_inv_step [OF inv])
  note rep = rep [OF inv, of k]
  have frame: "tlinks ?s' x = tlinks s x" if "x \<notin> set (qs (qi k))" "x \<noteq> t" for x
    using push_back_heap_frame [OF rep that(1)] that(2) by (simp add: links_get links_put)
  show "qends ?s' j = qends s j" if "j \<noteq> qi k" for j using that by (rule ends_other)
  show "qrep ?s' (qi k) (qs (qi k) @ [t])" using rep_push_back [OF rep t(2) t(1)] by (simp add: rep_iff get_put)
  show "tlinks ?s' x = tlinks s x" if "x \<notin> set (qs (qi k))" "x \<notin> set (qs (qi k) @ [t])" for x
    using frame that by simp
  show "set (qs (qi k) @ [t]) \<inter> W = {}" using t queues_invD(6) [OF inv, of _ "qi k"] by auto
qed (use t queues_invD(6) [OF inv] in auto)

lemma push_links_frame:
  assumes inv: "queues_inv_mod W s qs" and "x \<in> W" "t \<notin> W"
  shows "tlinks (put k (push_back qe t (get s k)) s) x = tlinks s x"
  using push_back_heap_frame [OF rep [OF inv], of x k t] assms(2,3) queues_invD(6) [OF inv, of x "qi k"]
  by (auto simp: links_get links_put)

lemma inv_remove:
  assumes inv: "queues_inv_mod W s qs" and t: "t \<in> set (qs (qi k))"
  shows "queues_inv_mod W (put k (remove qe t (get s k)) s) (qs(qi k := remove1 t (qs (qi k))))"
    (is "queues_inv_mod W ?s' _")
proof (rule queues_inv_step [OF inv])
  note rep = rep [OF inv, of k]
  obtain as bs where split: "qs (qi k) = as @ t # bs" using split_list [OF t] by blast
  show "qends ?s' j = qends s j" if "j \<noteq> qi k" for j using that by (rule ends_other)
  show "qrep ?s' (qi k) (remove1 t (qs (qi k)))" using rep_remove1 [OF rep t] by (simp add: rep_iff get_put)
  show "tlinks ?s' x = tlinks s x" if "x \<notin> set (qs (qi k))" for x
    using remove_heap_frame [of "get s k" as t bs x] rep that split by (simp add: links_get links_put)
  show "tlinks ?s' x = unlinked"
    if "x \<in> set (qs (qi k)) \<or> x \<in> W" "x \<notin> set (remove1 t (qs (qi k)))" "x \<notin> W" for x
    using that remove_unlinks [of t "get s k"] queues_invD(4) [OF inv, of "qi k"] by (simp add: links_put)
  show "set (remove1 t (qs (qi k))) \<inter> W = {}"
    using queues_invD(6) [OF inv, of _ "qi k"] notin_set_remove1 by fastforce
  show "x \<notin> set (qs j)" if "x \<in> set (remove1 t (qs (qi k))) \<or> x \<in> W" "x \<notin> set (qs (qi k))" for x j
    using that queues_invD(6) [OF inv, of x j] notin_set_remove1 by metis
qed

lemma inv_pop:
  assumes inv: "queues_inv_mod W s qs"
  shows "queues_inv_mod W (put k (snd (pop_front qe (get s k))) s) (qs(qi k := tl (qs (qi k))))"
    (is "queues_inv_mod W ?s' _")
proof (rule queues_inv_step [OF inv])
  note rep = rep [OF inv, of k]
  have tl: "x \<in> set (qs (qi k))" if "x \<in> set (tl (qs (qi k)))" for x using that by (cases "qs (qi k)") auto
  show "qends ?s' j = qends s j" if "j \<noteq> qi k" for j using that by (rule ends_other)
  show "qrep ?s' (qi k) (tl (qs (qi k)))" using rep_pop_front [OF rep] by (simp add: rep_iff get_put)
  show "tlinks ?s' x = tlinks s x" if "x \<notin> set (qs (qi k))" for x
    using pop_front_heap_frame [OF rep that] by (simp add: links_get links_put)
  show "tlinks ?s' x = unlinked"
    if "x \<in> set (qs (qi k)) \<or> x \<in> W" "x \<notin> set (tl (qs (qi k)))" "x \<notin> W" for x
    using that rep pop_front_unlinks [of "get s k"] by (cases "qs (qi k)") (auto simp: links_put)
  show "set (tl (qs (qi k))) \<inter> W = {}" using queues_invD(6) [OF inv, of _ "qi k"] tl by blast
  show "x \<notin> set (qs j)" if "x \<in> set (tl (qs (qi k))) \<or> x \<in> W" "x \<notin> set (qs (qi k))" for x j
    using that queues_invD(6) [OF inv, of x j] tl by blast
qed

lemma pop_result: "queues_inv_mod W s qs \<Longrightarrow> fst (pop_front qe (get s k)) = first_or (qs (qi k)) None"
  by (rule fst_pop_front [OF rep])

lemma contains_result: "queues_inv_mod W s qs \<Longrightarrow> contains qe t (get s k) = Some (t \<in> set (qs (qi k)))"
  by (rule contains_iff [OF rep])

lemma head_result: "queues_inv_mod W s qs \<Longrightarrow> qe_head qe (fst (get s k)) = first_or (qs (qi k)) None"
  using rep [of W s qs k] by (simp add: queue_rep_def)

lemma tail_result: "queues_inv_mod W s qs \<Longrightarrow> qe_tail qe (fst (get s k)) = last_or (qs (qi k)) None"
  using rep [of W s qs k] by (simp add: queue_rep_def)

text \<open>Detaching the whole list.\<close>

lemma inv_take:
  assumes inv: "queues_inv s qs" and ends: "qends s' (qi k) = (None, None)"
    and others: "\<And>j. j \<noteq> qi k \<Longrightarrow> qends s' j = qends s j" and links: "tlinks s' = tlinks s"
  shows "queues_inv_mod (set (qs (qi k))) s' (qs(qi k := []))"
  by (rule queues_inv_step [OF inv]) (use others links ends in \<open>auto simp: qrep_iff\<close>)

end

section \<open>The state before any thread is queued\<close>

definition empty_kstate :: "nat \<Rightarrow> nat \<Rightarrow> kstate" where
  "empty_kstate nodes core = \<lparr>
     ctes = (\<lambda>_. cte_null), tcbs = (\<lambda>_. tcb_zero), tlinks = (\<lambda>_. unlinked),
     eps = (\<lambda>_. endpoint_zero), ntfns = (\<lambda>_. notification_new), mem = (\<lambda>_. 0),
     runqueues = (\<lambda>_. queue_new), cpu_online = (\<lambda>c. c < nodes), cpu_current = (\<lambda>_. 0),
     idle_tcbs = (\<lambda>c. 0xFFFFFFFF84000000 + of_nat c * 2048), continue_once = (\<lambda>_. 0),
     resched = (\<lambda>_. False), irq_node_base = 0xFFFFFFFF84100000, irq_active = (\<lambda>_. False),
     asids = \<lparr> asid_table = (\<lambda>_. 0), pool_active = (\<lambda>_. False), pool_ptr = (\<lambda>_. 0) \<rparr>,
     work_units = 0, time_reads = of_nat, time_pos = 0, next_timer_deadline = (\<lambda>_. 0),
     synthetic_deadline = 0, irq_claims = [], stale_answers = (\<lambda>_. False), satp = (\<lambda>_. 0), kernel_vspace_root = 0,
     events = [], MAX_NUM_NODES = nodes, current_core_id = core \<rparr>"

lemma empty_kstate_sel [simp]:
  "tcbs (empty_kstate n c) = (\<lambda>_. tcb_zero)" "tlinks (empty_kstate n c) = (\<lambda>_. unlinked)"
  "eps (empty_kstate n c) = (\<lambda>_. endpoint_zero)" "ntfns (empty_kstate n c) = (\<lambda>_. notification_new)"
  "runqueues (empty_kstate n c) = (\<lambda>_. queue_new)" "ctes (empty_kstate n c) = (\<lambda>_. cte_null)"
  "MAX_NUM_NODES (empty_kstate n c) = n" "current_core_id (empty_kstate n c) = c"
  "cpu_current (empty_kstate n c) = (\<lambda>_. 0)" "mem (empty_kstate n c) = (\<lambda>_. 0)"
  "idle_tcbs (empty_kstate n c) = (\<lambda>c. 0xFFFFFFFF84000000 + of_nat c * 2048)"
  by (simp_all add: empty_kstate_def)

lemma queues_inv_empty: "queues_inv (empty_kstate n c) (\<lambda>_. [])"
proof -
  have "qends (empty_kstate n c) i = (None, None)" for i
    by (cases i) (simp_all add: queue_new_def endpoint_zero_def notification_new_def
        queue_ends_of_endpoint_def queue_ends_of_notification_def)
  then show ?thesis by (simp add: queues_inv_mod_def qrep_iff)
qed

end
