(* ===== verification/Rel4_Asid.thy ===== *)
theory Rel4_Asid
  imports Rel4_Paging Rel4_Queues
begin

text \<open>
  Address-space identifiers (\<^verbatim>\<open>object/asid.rs\<close>) and the part of \<^verbatim>\<open>arch/riscv64/object/vspace.rs\<close> that
  uses them to choose the page-table root of the running thread. The lemmas show that an identifier
  found free is assigned to exactly one address space, that deleting it or its pool makes it
  resolve to nothing, and that the root register then never names the deleted address space.
\<close>

section \<open>The table\<close>

definition ASID_POOL_ENTRY_COUNT :: nat where "ASID_POOL_ENTRY_COUNT = 512"
definition ASID_TABLE_LEN :: nat where "ASID_TABLE_LEN = 65536"
definition ASID_POOL_COUNT :: nat where "ASID_POOL_COUNT = ASID_TABLE_LEN div ASID_POOL_ENTRY_COUNT"
definition ASID_POOL_SIZE :: u16 where "ASID_POOL_SIZE = 512"

definition asid_state_new :: asid_state where
  "asid_state_new = \<lparr> asid_table = (\<lambda>_. 0), pool_active = (\<lambda>_. False), pool_ptr = (\<lambda>_. 0) \<rparr>"

datatype asid_pool_assign_error = MissingPool | WrongPool | PoolFull

definition clear_pool_entries :: "nat \<Rightarrow> asid_state \<Rightarrow> asid_state" where
  "clear_pool_entries pool st =
     (let start = pool * unat ASID_POOL_SIZE; stop = start + unat ASID_POOL_SIZE
      in st\<lparr> asid_table := (\<lambda>a. if a \<in> {start..<stop} then 0 else asid_table st a) \<rparr>)"

definition state_register :: "u16 \<Rightarrow> u64 \<Rightarrow> asid_state \<Rightarrow> asid_state" where
  "state_register asid root_pt_kva st =
     (if asid = 0 \<or> root_pt_kva = 0 then st
      else st\<lparr> asid_table := (asid_table st)(unat asid := root_pt_kva) \<rparr>)"

definition pool_index :: "u16 \<Rightarrow> nat" where
  "pool_index asid = unat (asid AND of_nat (ASID_POOL_ENTRY_COUNT - 1))"

definition upd_asids :: "(asid_state \<Rightarrow> asid_state) \<Rightarrow> kstate \<Rightarrow> kstate" where
  "upd_asids f s = s\<lparr> asids := f (asids s) \<rparr>"

definition set_pool_entry :: "u64 \<Rightarrow> nat \<Rightarrow> u64 \<Rightarrow> kstate \<Rightarrow> kstate" where
  "set_pool_entry pool_kva index root_pt_kva s =
     (if pool_kva = 0 \<or> ASID_POOL_ENTRY_COUNT \<le> index then s
      else s\<lparr> mem := (mem s)(pool_kva + of_nat (index * 8) := root_pt_kva) \<rparr>)"

definition asid_init_root :: "u64 \<Rightarrow> u64 \<Rightarrow> kstate \<Rightarrow> kstate" where
  "asid_init_root root_pt_kva pool_kva s =
     upd_asids (\<lambda>st. let st1 = state_register 1 root_pt_kva st
                     in st1\<lparr> pool_active := (pool_active st1)(0 := True),
                             pool_ptr := (pool_ptr st1)(0 := pool_kva) \<rparr>) s"

definition next_free_pool_base :: "kstate \<Rightarrow> u16 option" where
  "next_free_pool_base s =
     (case find (\<lambda>pool. \<not> pool_active (asids s) pool) [0..<ASID_POOL_COUNT] of
        Some pool \<Rightarrow> Some (of_nat pool * ASID_POOL_SIZE)
      | None \<Rightarrow> None)"

definition publish_pool :: "u16 \<Rightarrow> u64 \<Rightarrow> kstate \<Rightarrow> bool \<times> kstate" where
  "publish_pool base pool_kva s =
     (let pool = unat (base div ASID_POOL_SIZE);
          pool_start = pool * unat ASID_POOL_SIZE
      in if ASID_POOL_COUNT \<le> pool \<or> unat base \<noteq> pool_start \<or> pool_kva = 0 then (False, s)
         else if pool_active (asids s) pool then (False, s)
         else (True, upd_asids (\<lambda>st. let st1 = clear_pool_entries pool st
                       in st1\<lparr> pool_ptr := (pool_ptr st1)(pool := pool_kva),
                               pool_active := (pool_active st1)(pool := True) \<rparr>) s))"

definition next_free_from_pool :: "u16 \<Rightarrow> u64 \<Rightarrow> kstate \<Rightarrow> asid_pool_assign_error + u16" where
  "next_free_from_pool base pool_kva s =
     (let pool = unat (base div ASID_POOL_SIZE);
          pool_start = pool * unat ASID_POOL_SIZE;
          pool_end = pool_start + unat ASID_POOL_SIZE
      in if ASID_POOL_COUNT \<le> pool \<or> unat base \<noteq> pool_start then Inl MissingPool
         else if \<not> pool_active (asids s) pool then Inl MissingPool
         else if pool_ptr (asids s) pool \<noteq> pool_kva then Inl WrongPool
         else case find (\<lambda>i. (of_nat i :: u16) \<noteq> 0 \<and> asid_table (asids s) (unat (of_nat i :: u16)) = 0)
                     [pool_start..<pool_end] of
                Some i \<Rightarrow> Inr (of_nat i)
              | None \<Rightarrow> Inl PoolFull)"

definition publish_pool_assignment :: "u16 \<Rightarrow> u64 \<Rightarrow> u16 \<Rightarrow> u64 \<Rightarrow> kstate \<Rightarrow> bool \<times> kstate" where
  "publish_pool_assignment base pool_kva asid root_pt_kva s =
     (let pool = unat (base div ASID_POOL_SIZE);
          pool_start = pool * unat ASID_POOL_SIZE;
          pool_end = pool_start + unat ASID_POOL_SIZE
      in if ASID_POOL_COUNT \<le> pool \<or> unat base \<noteq> pool_start \<or> root_pt_kva = 0 \<or> asid = 0
            \<or> unat asid < pool_start \<or> pool_end \<le> unat asid then (False, s)
         else if \<not> pool_active (asids s) pool then (False, s)
         else if pool_ptr (asids s) pool \<noteq> pool_kva then (False, s)
         else if asid_table (asids s) (unat asid) \<noteq> 0 then (False, s)
         else (True, set_pool_entry pool_kva (pool_index asid) root_pt_kva
                 (upd_asids (\<lambda>st. st\<lparr> asid_table := (asid_table st)(unat asid := root_pt_kva) \<rparr>) s)))"

definition asid_register :: "u16 \<Rightarrow> u64 \<Rightarrow> kstate \<Rightarrow> kstate" where
  "asid_register asid root_pt_kva s = upd_asids (state_register asid root_pt_kva) s"

definition asid_lookup :: "kstate \<Rightarrow> u16 \<Rightarrow> u64" where
  "asid_lookup s asid =
     (if ASID_TABLE_LEN \<le> unat asid \<or> asid = 0 then 0 else asid_table (asids s) (unat asid))"

section \<open>The root of the running thread\<close>

definition kernel_vspace_root_of :: "kstate \<Rightarrow> u64 option" where
  "kernel_vspace_root_of s = (if kernel_vspace_root s = 0 then None else Some (kernel_vspace_root s))"

definition current_satp :: "kstate \<Rightarrow> u64" where
  "current_satp s = satp s (current_core_id s)"

definition switch_satp :: "u64 \<Rightarrow> kstate \<Rightarrow> kstate" where
  "switch_satp satp_val s =
     log_event (EvSwitchSatp satp_val) (s\<lparr> satp := (satp s)(current_core_id s := satp_val) \<rparr>)"

definition switch_to_kernel_root :: "kstate \<Rightarrow> kstate" where
  "switch_to_kernel_root s = (case kernel_vspace_root_of s of
     None \<Rightarrow> s
   | Some kernel_satp \<Rightarrow> if current_satp s \<noteq> kernel_satp then switch_satp kernel_satp s else s)"

definition try_switch_to_tcb_root :: "u64 \<Rightarrow> kstate \<Rightarrow> bool \<times> kstate" where
  "try_switch_to_tcb_root t s =
     (let vroot = vspace_cap s t in
      if tag vroot \<noteq> Some TagPageTable then (False, s)
      else
        let root_kva = page_table_base_ptr vroot; asid = page_table_mapped_asid vroot in
        if root_kva = 0 \<or> \<not> page_table_is_mapped vroot \<or> asid = 0 then (False, s)
        else if asid_lookup s asid \<noteq> root_kva then (False, s)
        else
          let new_satp = satp_from_kva root_kva (ucast asid) in
          if new_satp = 0 then (False, s)
          else (True, if current_satp s \<noteq> new_satp then switch_satp new_satp s else s))"

definition set_current_vspace_root :: "kstate \<Rightarrow> kstate" where
  "set_current_vspace_root s = (case current_tcb s of
     Some t \<Rightarrow> (let (ok, s1) = try_switch_to_tcb_root t s in if ok then s1 else switch_to_kernel_root s1)
   | None \<Rightarrow> switch_to_kernel_root s)"

section \<open>Deletion\<close>

definition delete_pool :: "u16 \<Rightarrow> u64 \<Rightarrow> kstate \<Rightarrow> kstate" where
  "delete_pool base pool_kva s =
     (let pool = unat (base div ASID_POOL_SIZE);
          pool_start = pool * unat ASID_POOL_SIZE
      in if ASID_POOL_COUNT \<le> pool \<or> unat base \<noteq> pool_start then s
         else if \<not> pool_active (asids s) pool then s
         else if pool_ptr (asids s) pool \<noteq> pool_kva then s
         else set_current_vspace_root (tlb_flush_all_cpus
                (upd_asids (\<lambda>st. let st1 = clear_pool_entries pool st
                    in st1\<lparr> pool_ptr := (pool_ptr st1)(pool := 0),
                            pool_active := (pool_active st1)(pool := False) \<rparr>) s)))"

definition asid_delete :: "u16 \<Rightarrow> u64 \<Rightarrow> kstate \<Rightarrow> kstate" where
  "asid_delete asid root_pt_kva s =
     (if asid = 0 \<or> ASID_TABLE_LEN \<le> unat asid \<or> root_pt_kva = 0 then s
      else
        let pool = unat (asid div ASID_POOL_SIZE) in
        if asid_table (asids s) (unat asid) \<noteq> root_pt_kva then s
        else
          let s1 = tlb_flush_asid_all_cpus asid s;
              s2 = upd_asids (\<lambda>st. st\<lparr> asid_table := (asid_table st)(unat asid := 0) \<rparr>) s1;
              s3 = (if pool < ASID_POOL_COUNT \<and> pool_active (asids s2) pool
                    then set_pool_entry (pool_ptr (asids s2) pool) (pool_index asid) 0 s2 else s2)
          in set_current_vspace_root s3)"

section \<open>Effects\<close>

lemma upd_asids_sel [simp]:
  "asids (upd_asids f s) = f (asids s)" "tcbs (upd_asids f s) = tcbs s" "ctes (upd_asids f s) = ctes s"
  "cpu_current (upd_asids f s) = cpu_current s" "current_core_id (upd_asids f s) = current_core_id s"
  "mem (upd_asids f s) = mem s" "satp (upd_asids f s) = satp s"
  by (simp_all add: upd_asids_def)

lemma set_pool_entry_sel [simp]:
  "asids (set_pool_entry p i r s) = asids s" "ctes (set_pool_entry p i r s) = ctes s"
  "cpu_current (set_pool_entry p i r s) = cpu_current s"
  "current_core_id (set_pool_entry p i r s) = current_core_id s"
  by (simp_all add: set_pool_entry_def)

lemma switch_root_asids [simp]:
  "asids (switch_satp v s) = asids s" "asids (switch_to_kernel_root s) = asids s"
  "asids (snd (try_switch_to_tcb_root t s)) = asids s" "asids (set_current_vspace_root s) = asids s"
proof -
  show 1: "asids (switch_satp v s) = asids s" for v s by (simp add: switch_satp_def log_event_def)
  show 2: "asids (switch_to_kernel_root s) = asids s" for s
    by (simp add: switch_to_kernel_root_def 1 split: option.split)
  show 3: "asids (snd (try_switch_to_tcb_root t s)) = asids s" for t s
    by (simp add: try_switch_to_tcb_root_def Let_def 1)
  show "asids (set_current_vspace_root s) = asids s"
    using 2 3 by (simp add: set_current_vspace_root_def split: option.split prod.split) (metis snd_conv)
qed

lemma unat_pool_size [simp]: "unat ASID_POOL_SIZE = 512"
  by (simp add: ASID_POOL_SIZE_def)

lemma asid_less: "unat (a :: u16) < ASID_TABLE_LEN"
  using unsigned_less [of a, where ?'a = nat] by (simp add: ASID_TABLE_LEN_def)

lemma asid_lookup_eq: "asid_lookup s a = (if a = 0 then 0 else asid_table (asids s) (unat a))"
  using asid_less [of a] by (simp add: asid_lookup_def)

lemma unat_pool: "unat ((base :: u16) div ASID_POOL_SIZE) = unat base div 512"
  by (simp add: unat_div ASID_POOL_SIZE_def)

lemma pool_lt: "unat (base :: u16) div 512 < ASID_POOL_COUNT"
  using asid_less [of base] by (simp add: ASID_POOL_COUNT_def ASID_TABLE_LEN_def ASID_POOL_ENTRY_COUNT_def)

text \<open>The guard all pool operations share, in terms of numbers.\<close>

lemma pool_guard:
  "(ASID_POOL_COUNT \<le> unat (base div ASID_POOL_SIZE) \<or>
    unat base \<noteq> unat (base div ASID_POOL_SIZE) * unat ASID_POOL_SIZE) \<longleftrightarrow> unat base mod 512 \<noteq> 0"
  using pool_lt [of base] minus_mod_eq_mult_div [of "unat base" 512] by (simp add: unat_pool) arith

lemma pool_start_eq: "unat (base :: u16) mod 512 = 0 \<Longrightarrow> unat base div 512 * 512 = unat base"
  using minus_mod_eq_div_mult [of "unat base" 512] by simp

text \<open>The search through a pool.\<close>

definition asid_free :: "kstate \<Rightarrow> nat \<Rightarrow> bool" where
  "asid_free s i \<longleftrightarrow> (of_nat i :: u16) \<noteq> 0 \<and> asid_table (asids s) (unat (of_nat i :: u16)) = 0"

lemma next_free_from_pool_eq:
  "next_free_from_pool base pool_kva s =
     (if unat base mod 512 \<noteq> 0 \<or> \<not> pool_active (asids s) (unat base div 512) then Inl MissingPool
      else if pool_ptr (asids s) (unat base div 512) \<noteq> pool_kva then Inl WrongPool
      else case find (asid_free s) [unat base..<unat base + 512] of
             Some i \<Rightarrow> Inr (of_nat i)
           | None \<Rightarrow> Inl PoolFull)"
proof -
  have "find (\<lambda>i. (of_nat i :: u16) \<noteq> 0 \<and> asid_table (asids s) (unat (of_nat i :: u16)) = 0)
          [unat base div 512 * 512..<unat base div 512 * 512 + 512] =
        find (asid_free s) [unat base..<unat base + 512]" if "unat base mod 512 = 0"
    using that by (simp only: pool_start_eq asid_free_def [abs_def])
  then show ?thesis
    unfolding next_free_from_pool_def Let_def pool_guard unfolding unat_pool unat_pool_size by auto
qed

lemma unat_pool_member:
  assumes "unat (base :: u16) mod 512 = 0" "i < unat base + 512"
  shows "unat (of_nat i :: u16) = i"
proof -
  have "unat base div 512 < 128" using asid_less [of base] by (simp add: ASID_TABLE_LEN_def)
  then have "i < 65536" using assms(2) pool_start_eq [OF assms(1)] by linarith
  then show ?thesis by (simp add: unat_of_nat)
qed

lemma next_free_from_poolD:
  assumes "next_free_from_pool base pool_kva s = Inr asid"
  shows "asid \<noteq> 0" "asid_lookup s asid = 0" "unat base \<le> unat asid" "unat asid < unat base + 512"
    "unat base mod 512 = 0" "pool_active (asids s) (unat base div 512)" "pool_ptr (asids s) (unat base div 512) = pool_kva"
proof -
  show g: "unat base mod 512 = 0" "pool_active (asids s) (unat base div 512)"
    "pool_ptr (asids s) (unat base div 512) = pool_kva"
    using assms by (auto simp: next_free_from_pool_eq split: if_splits)
  obtain i where i: "find (asid_free s) [unat base..<unat base + 512] = Some i" "asid = of_nat i"
    using assms by (auto simp: next_free_from_pool_eq split: if_splits option.splits)
  have "i \<in> set [unat base..<unat base + 512]" "asid_free s i"
    using i(1) by (auto simp: find_Some_iff in_set_conv_nth)
  then show "asid \<noteq> 0" "asid_lookup s asid = 0" "unat base \<le> unat asid" "unat asid < unat base + 512"
    using unat_pool_member [OF g(1), of i] by (simp_all add: asid_lookup_eq asid_free_def i(2))
qed

lemma next_free_from_pool_full:
  assumes "next_free_from_pool base pool_kva s = Inl PoolFull" "unat base \<le> unat asid" "unat asid < unat base + 512"
    "asid \<noteq> 0"
  shows "asid_lookup s asid \<noteq> 0"
proof -
  have "find (asid_free s) [unat base..<unat base + 512] = None"
    using assms(1) by (auto simp: next_free_from_pool_eq split: if_splits option.splits)
  then have "\<not> asid_free s (unat asid)" using assms(2,3) by (simp add: find_None_iff)
  then show ?thesis using assms(4) by (simp add: asid_free_def asid_lookup_eq)
qed

lemma publish_pool_assignment_spec:
  assumes "asid \<noteq> 0" "root \<noteq> 0" "unat base \<le> unat asid" "unat asid < unat base + 512" "unat base mod 512 = 0"
    "pool_active (asids s) (unat base div 512)" "pool_ptr (asids s) (unat base div 512) = pool_kva"
  shows "publish_pool_assignment base pool_kva asid root s =
    (if asid_lookup s asid \<noteq> 0 then (False, s)
     else (True, set_pool_entry pool_kva (pool_index asid) root
             (upd_asids (\<lambda>st. st\<lparr> asid_table := (asid_table st)(unat asid := root) \<rparr>) s)))"
proof -
  have "\<not> (ASID_POOL_COUNT \<le> unat (base div ASID_POOL_SIZE) \<or>
            unat base \<noteq> unat (base div ASID_POOL_SIZE) * unat ASID_POOL_SIZE)"
    using assms(5) by (simp only: pool_guard)
  then have guard: "(ASID_POOL_COUNT \<le> unat (base div ASID_POOL_SIZE) \<or>
        unat base \<noteq> unat (base div ASID_POOL_SIZE) * unat ASID_POOL_SIZE \<or> Q) = Q" for Q
    by blast
  show ?thesis
    unfolding publish_pool_assignment_def Let_def guard unfolding unat_pool unat_pool_size pool_start_eq [OF assms(5)]
    using assms by (auto simp: asid_lookup_eq)
qed

text \<open>The root register after the running thread's address space is re-evaluated.\<close>

definition root_resolves :: "kstate \<Rightarrow> bool" where
  "root_resolves s \<longleftrightarrow>
     current_satp s = kernel_vspace_root s \<or>
     (\<exists>root asid. root \<noteq> 0 \<and> asid_lookup s asid = root \<and> current_satp s = satp_from_kva root (ucast asid))"

lemma set_current_vspace_root_resolves:
  assumes "kernel_vspace_root s \<noteq> 0"
  shows "root_resolves (set_current_vspace_root s)"
proof -
  have kernel: "root_resolves (switch_to_kernel_root s)"
    using assms by (auto simp: root_resolves_def switch_to_kernel_root_def kernel_vspace_root_of_def
        switch_satp_def current_satp_def log_event_def)
  show ?thesis
  proof (cases "current_tcb s")
    case (Some t)
    show ?thesis
    proof (cases "fst (try_switch_to_tcb_root t s)")
      case True
      then obtain root asid where r: "root \<noteq> 0" "asid_lookup s asid = root"
        "current_satp (snd (try_switch_to_tcb_root t s)) = satp_from_kva root (ucast asid)"
        by (auto simp: try_switch_to_tcb_root_def Let_def switch_satp_def current_satp_def log_event_def
            split: if_splits)
      moreover have "asid_lookup (snd (try_switch_to_tcb_root t s)) = asid_lookup s"
        by (rule ext) (simp add: asid_lookup_def)
      ultimately show ?thesis using True Some
        by (auto simp: root_resolves_def set_current_vspace_root_def case_prod_beta)
    next
      case False
      then have "snd (try_switch_to_tcb_root t s) = s"
        by (auto simp: try_switch_to_tcb_root_def Let_def split: if_splits)
      then show ?thesis using False Some kernel by (simp add: set_current_vspace_root_def case_prod_beta)
    qed
  qed (simp add: set_current_vspace_root_def kernel)
qed

text \<open>The same for every deletion: what the register names afterwards still resolves.\<close>

lemma root_resolves_live:
  assumes "root_resolves s'" "\<And>b. asid_lookup s' b = (if P b then 0 else asid_lookup s b)"
  shows "current_satp s' = kernel_vspace_root s' \<or>
    (\<exists>b. \<not> P b \<and> asid_lookup s b \<noteq> 0 \<and> current_satp s' = satp_from_kva (asid_lookup s b) (ucast b))"
  using assms(1) unfolding root_resolves_def
proof
  assume "\<exists>root asid. root \<noteq> 0 \<and> asid_lookup s' asid = root \<and> current_satp s' = satp_from_kva root (ucast asid)"
  then obtain b where "asid_lookup s' b \<noteq> 0" "current_satp s' = satp_from_kva (asid_lookup s' b) (ucast b)" by auto
  then show ?thesis using assms(2) [of b] by (intro disjI2 exI [of _ b]) (simp split: if_splits)
qed blast

lemma kernel_root_sel [simp]:
  "kernel_vspace_root (upd_asids f s) = kernel_vspace_root s"
  "kernel_vspace_root (set_pool_entry p i r s) = kernel_vspace_root s"
  "kernel_vspace_root (log_event e s) = kernel_vspace_root s"
  "asids (log_event e s) = asids s"
  by (simp_all add: upd_asids_def set_pool_entry_def log_event_def)

lemma set_root_kernel_root [simp]: "kernel_vspace_root (set_current_vspace_root s) = kernel_vspace_root s"
  by (simp add: set_current_vspace_root_def try_switch_to_tcb_root_def switch_to_kernel_root_def switch_satp_def
      log_event_def Let_def split: option.split)

lemma set_root_events: "\<exists>rest. events (set_current_vspace_root s) = events s @ rest"
  by (auto simp: set_current_vspace_root_def try_switch_to_tcb_root_def switch_to_kernel_root_def switch_satp_def
      log_event_def Let_def split: option.split)

lemma set_root_lookup [simp]: "asid_lookup (set_current_vspace_root s) = asid_lookup s"
  by (rule ext) (simp add: asid_lookup_def)

lemma pool_index_less: "pool_index asid < 512"
proof -
  have "asid AND 511 = take_bit 9 asid" by (simp add: take_bit_eq_mask mask_numeral)
  then have "pool_index asid = take_bit 9 (unat asid)"
    by (simp add: pool_index_def ASID_POOL_ENTRY_COUNT_def unsigned_take_bit_eq)
  then show ?thesis using take_bit_nat_less_exp [of 9 "unat asid"] by simp
qed

lemma asid_lookup_clear_pool:
  assumes "unat (base :: u16) mod 512 = 0"
    and "asids s' = (clear_pool_entries (unat base div 512) (asids s))\<lparr> pool_ptr := pp, pool_active := pa \<rparr>"
  shows "asid_lookup s' b = (if unat base \<le> unat b \<and> unat b < unat base + 512 then 0 else asid_lookup s b)"
  using pool_start_eq [OF assms(1)]
  by (simp add: asid_lookup_eq assms(2) clear_pool_entries_def Let_def)

section \<open>Properties\<close>

text \<open>
  C27: An identifier that the search through a pool finds free is assigned to exactly one address space.
  The identifier lies in the pool and is not the reserved zero; publishing it for a root succeeds, makes
  it resolve to that root and stores the root in the pool's frame; every other identifier resolves to
  what it did; and no second root can be published for it.
\<close>

theorem asid_assignment_exclusive:
  assumes free: "next_free_from_pool base pool_kva s = Inr asid" and root: "root \<noteq> 0"
    and pool: "pool_kva \<noteq> 0"
  shows "\<exists>s'. publish_pool_assignment base pool_kva asid root s = (True, s') \<and>
    asid \<noteq> 0 \<and> unat base \<le> unat asid \<and> unat asid < unat base + 512 \<and> asid_lookup s asid = 0 \<and>
    (\<forall>b. asid_lookup s' b = (if b = asid then root else asid_lookup s b)) \<and>
    mem s' (pool_kva + of_nat (pool_index asid * 8)) = root \<and>
    (\<forall>root'. publish_pool_assignment base pool_kva asid root' s' = (False, s')) \<and>
    next_free_from_pool base pool_kva s' \<noteq> Inr asid"
proof -
  note d = next_free_from_poolD [OF free]
  let ?s' = "set_pool_entry pool_kva (pool_index asid) root
    (upd_asids (\<lambda>st. st\<lparr> asid_table := (asid_table st)(unat asid := root) \<rparr>) s)"
  have look: "asid_lookup ?s' b = (if b = asid then root else asid_lookup s b)" for b
    using d(1) by (auto simp: asid_lookup_eq dest: unsigned_word_eqI)
  have again: "publish_pool_assignment base pool_kva asid root' ?s' = (False, ?s')" for root'
  proof (cases "root' = 0")
    case False
    then show ?thesis
      using publish_pool_assignment_spec [OF d(1) False d(3-5), of ?s' pool_kva] d(6,7) root look by simp
  qed (simp add: publish_pool_assignment_def Let_def)
  have "publish_pool_assignment base pool_kva asid root s = (True, ?s')"
    using publish_pool_assignment_spec [OF d(1) root d(3-7)] d(2) by simp
  moreover have "mem ?s' (pool_kva + of_nat (pool_index asid * 8)) = root"
    using pool pool_index_less [of asid] by (simp add: set_pool_entry_def ASID_POOL_ENTRY_COUNT_def)
  moreover have "next_free_from_pool base pool_kva ?s' \<noteq> Inr asid"
    using next_free_from_poolD(2) [of base pool_kva ?s' asid] look root by auto
  ultimately show ?thesis using d look again by (intro exI [of _ ?s']) simp
qed

text \<open>A state with the pool of identifiers 512 to 1023 published, none of them in use.\<close>

definition one_pool :: kstate where
  "one_pool = (empty_kstate 2 0)\<lparr> kernel_vspace_root := 0x8000000000084000 \<rparr>"

definition pool_frame :: u64 where "pool_frame = 0xFFFFFFC084200000"
definition root_frame :: u64 where "root_frame = 0xFFFFFFC084201000"

definition one_pool_published :: kstate where
  "one_pool_published = snd (publish_pool 512 pool_frame one_pool)"

lemma one_pool_free: "next_free_from_pool 512 pool_frame one_pool_published = Inr 512"
proof -
  have "[512..<1024] = 512 # [Suc 512..<1024]" by (subst upt_conv_Cons) simp_all
  then show ?thesis
    by (simp add: next_free_from_pool_eq one_pool_published_def one_pool_def publish_pool_def Let_def
        ASID_POOL_SIZE_def ASID_POOL_COUNT_def ASID_TABLE_LEN_def ASID_POOL_ENTRY_COUNT_def unat_div
        clear_pool_entries_def asid_free_def empty_kstate_def upd_asids_def pool_frame_def)
qed

theorem asid_assignment_exclusive_witness:
  "\<exists>s'. publish_pool_assignment 512 pool_frame 512 root_frame one_pool_published = (True, s') \<and>
    asid_lookup s' 512 = root_frame"
  using asid_assignment_exclusive [OF one_pool_free, of root_frame]
  by (auto simp: root_frame_def pool_frame_def)

text \<open>
  C28: Deleting an identifier in use makes it resolve to nothing and leaves every other identifier as it
  was. The deletion flushes its translations on this core and asks each other core that is online, and
  no other, to flush them; the root register of this core then holds the kernel's root or the root of
  another identifier that still resolves.
\<close>

theorem asid_delete_unresolves:
  assumes "asid \<noteq> 0" "root \<noteq> 0" "asid_lookup s asid = root" "kernel_vspace_root s \<noteq> 0"
  shows "(\<forall>b. asid_lookup (asid_delete asid root s) b = (if b = asid then 0 else asid_lookup s b)) \<and>
    (\<exists>remote rest. events (asid_delete asid root s) = events s @ EvTlbFlushAsid asid # remote @ rest \<and>
      set remote = {EvRemoteFlushAsid c asid | c. c < min (MAX_NUM_NODES s) 8 \<and> c \<noteq> current_core_id s \<and> cpu_online s c}) \<and>
    (current_satp (asid_delete asid root s) = kernel_vspace_root s \<or>
      (\<exists>b. b \<noteq> asid \<and> asid_lookup s b \<noteq> 0 \<and>
        current_satp (asid_delete asid root s) = satp_from_kva (asid_lookup s b) (ucast b)))"
proof -
  obtain s1 where s1: "asid_delete asid root s = set_current_vspace_root s1"
    "asids s1 = (asids s)\<lparr> asid_table := (asid_table (asids s))(unat asid := 0) \<rparr>"
    "events s1 = events s @ EvTlbFlushAsid asid # map (\<lambda>core. EvRemoteFlushAsid core asid) (other_cores s)"
    "kernel_vspace_root s1 = kernel_vspace_root s"
  proof (rule that)
    show "asid_delete asid root s = set_current_vspace_root
      (let s2 = upd_asids (\<lambda>st. st\<lparr> asid_table := (asid_table st)(unat asid := 0) \<rparr>) (tlb_flush_asid_all_cpus asid s);
           pool = unat (asid div ASID_POOL_SIZE)
       in if pool < ASID_POOL_COUNT \<and> pool_active (asids s2) pool
          then set_pool_entry (pool_ptr (asids s2) pool) (pool_index asid) 0 s2 else s2)"
      using assms asid_less [of asid] by (simp add: asid_delete_def asid_lookup_eq Let_def)
  qed (simp_all add: Let_def flush_eqs set_pool_entry_def upd_asids_def)
  have look: "asid_lookup s1 b = (if b = asid then 0 else asid_lookup s b)" for b
    using assms(1) by (auto simp: asid_lookup_eq s1(2) dest: unsigned_word_eqI)
  have "root_resolves (set_current_vspace_root s1)"
    by (rule set_current_vspace_root_resolves) (simp add: s1(4) assms(4))
  then have "current_satp (asid_delete asid root s) = kernel_vspace_root s \<or>
      (\<exists>b. b \<noteq> asid \<and> asid_lookup s b \<noteq> 0 \<and>
        current_satp (asid_delete asid root s) = satp_from_kva (asid_lookup s b) (ucast b))"
    using root_resolves_live [of "set_current_vspace_root s1" "\<lambda>b. b = asid" s] look s1(1,4) by simp
  moreover obtain rest where "events (asid_delete asid root s) =
      events s @ EvTlbFlushAsid asid # map (\<lambda>core. EvRemoteFlushAsid core asid) (other_cores s) @ rest"
    using set_root_events [of s1] s1(1,3) by auto
  moreover have "set (map (\<lambda>core. EvRemoteFlushAsid core asid) (other_cores s)) =
      {EvRemoteFlushAsid c asid | c. c < min (MAX_NUM_NODES s) 8 \<and> c \<noteq> current_core_id s \<and> cpu_online s c}"
    by (auto simp: other_cores_def remote_online_core_def MAX_BOOT_CPUS_def)
  ultimately show ?thesis using look s1(1) by (auto simp del: set_map)
qed

definition one_asid :: kstate where
  "one_asid = asid_register 512 root_frame one_pool_published"

theorem asid_delete_unresolves_witness:
  "asid_lookup one_asid 512 = root_frame \<and> asid_lookup (asid_delete 512 root_frame one_asid) 512 = 0 \<and>
   EvRemoteFlushAsid 1 512 \<in> set (events (asid_delete 512 root_frame one_asid))"
proof -
  have "asid_lookup one_asid 512 = root_frame"
    by (simp add: one_asid_def asid_register_def state_register_def root_frame_def asid_lookup_eq)
  moreover have "kernel_vspace_root one_asid \<noteq> 0"
    by (simp add: one_asid_def asid_register_def one_pool_published_def publish_pool_def Let_def one_pool_def)
  moreover have "MAX_NUM_NODES one_asid = 2" "current_core_id one_asid = 0" "cpu_online one_asid 1"
    by (simp_all add: one_asid_def asid_register_def one_pool_published_def publish_pool_def Let_def one_pool_def
        empty_kstate_def upd_asids_def)
  ultimately show ?thesis
    using asid_delete_unresolves [of 512 root_frame one_asid] by (auto simp: root_frame_def)
qed

text \<open>
  Deleting a pool that is published under the given frame makes exactly the 512 identifiers of the
  pool resolve to nothing and frees the pool; the root register of this core then holds the kernel's
  root or the root of an identifier outside the pool that still resolves.
\<close>

theorem delete_pool_unresolves:
  assumes "unat base mod 512 = 0" "pool_active (asids s) (unat base div 512)"
    "pool_ptr (asids s) (unat base div 512) = pool_kva" "kernel_vspace_root s \<noteq> 0"
  shows "(\<forall>b. asid_lookup (delete_pool base pool_kva s) b =
            (if unat base \<le> unat b \<and> unat b < unat base + 512 then 0 else asid_lookup s b)) \<and>
    \<not> pool_active (asids (delete_pool base pool_kva s)) (unat base div 512) \<and>
    (current_satp (delete_pool base pool_kva s) = kernel_vspace_root s \<or>
      (\<exists>b. \<not> (unat base \<le> unat b \<and> unat b < unat base + 512) \<and> asid_lookup s b \<noteq> 0 \<and>
        current_satp (delete_pool base pool_kva s) = satp_from_kva (asid_lookup s b) (ucast b)))"
proof -
  let ?upd = "\<lambda>st. let st1 = clear_pool_entries (unat base div 512) st
    in st1\<lparr> pool_ptr := (pool_ptr st1)(unat base div 512 := 0), pool_active := (pool_active st1)(unat base div 512 := False) \<rparr>"
  let ?m = "tlb_flush_all_cpus (upd_asids ?upd s)"
  have del: "delete_pool base pool_kva s = set_current_vspace_root ?m"
    unfolding delete_pool_def Let_def pool_guard unfolding unat_pool using assms by simp
  have asids: "asids ?m = (clear_pool_entries (unat base div 512) (asids s))\<lparr>
      pool_ptr := (pool_ptr (clear_pool_entries (unat base div 512) (asids s)))(unat base div 512 := 0),
      pool_active := (pool_active (clear_pool_entries (unat base div 512) (asids s)))(unat base div 512 := False) \<rparr>"
    by (simp add: flush_eqs Let_def)
  have look: "asid_lookup ?m b = (if unat base \<le> unat b \<and> unat b < unat base + 512 then 0 else asid_lookup s b)" for b
    by (rule asid_lookup_clear_pool [OF assms(1) asids])
  have "root_resolves (set_current_vspace_root ?m)"
    by (rule set_current_vspace_root_resolves) (simp add: flush_eqs assms(4))
  then have "current_satp (set_current_vspace_root ?m) = kernel_vspace_root s \<or>
      (\<exists>b. \<not> (unat base \<le> unat b \<and> unat b < unat base + 512) \<and> asid_lookup s b \<noteq> 0 \<and>
        current_satp (set_current_vspace_root ?m) = satp_from_kva (asid_lookup s b) (ucast b))"
    using root_resolves_live [of "set_current_vspace_root ?m"
        "\<lambda>b. unat base \<le> unat b \<and> unat b < unat base + 512" s] look
    by (simp add: flush_eqs del: not_le)
  moreover have "\<not> pool_active (asids ?m) (unat base div 512)" unfolding asids by simp
  ultimately show ?thesis unfolding del using look by simp
qed

theorem delete_pool_unresolves_witness:
  "asid_lookup one_asid 512 = root_frame \<and> asid_lookup (delete_pool 512 pool_frame one_asid) 512 = 0"
proof -
  have "pool_active (asids one_asid) 1" "pool_ptr (asids one_asid) 1 = pool_frame" "kernel_vspace_root one_asid \<noteq> 0"
    by (simp_all add: one_asid_def asid_register_def one_pool_published_def publish_pool_def Let_def one_pool_def
        state_register_def clear_pool_entries_def ASID_POOL_SIZE_def ASID_POOL_COUNT_def ASID_TABLE_LEN_def
        ASID_POOL_ENTRY_COUNT_def unat_div pool_frame_def empty_kstate_def root_frame_def)
  moreover have "asid_lookup one_asid 512 = root_frame"
    by (simp add: one_asid_def asid_register_def state_register_def root_frame_def asid_lookup_eq)
  ultimately show ?thesis
    using delete_pool_unresolves [of 512 one_asid pool_frame] by simp
qed

text \<open>
  C39: The errors of the search through a pool mean what they say: a full pool has every identifier but
  zero in use, a missing pool is one whose base is not a multiple of the pool size or that is not
  published, and a wrong pool is one published under another frame.
\<close>

theorem pool_search_errors:
  "(next_free_from_pool base pool_kva s = Inl MissingPool \<longleftrightarrow>
      unat base mod 512 \<noteq> 0 \<or> \<not> pool_active (asids s) (unat base div 512)) \<and>
   (next_free_from_pool base pool_kva s = Inl WrongPool \<longleftrightarrow>
      unat base mod 512 = 0 \<and> pool_active (asids s) (unat base div 512) \<and> pool_ptr (asids s) (unat base div 512) \<noteq> pool_kva) \<and>
   (next_free_from_pool base pool_kva s = Inl PoolFull \<longleftrightarrow>
      unat base mod 512 = 0 \<and> pool_active (asids s) (unat base div 512) \<and> pool_ptr (asids s) (unat base div 512) = pool_kva \<and>
      (\<forall>asid. unat base \<le> unat asid \<longrightarrow> unat asid < unat base + 512 \<longrightarrow> asid \<noteq> 0 \<longrightarrow> asid_lookup s asid \<noteq> 0))"
  (is "?missing \<and> ?wrong \<and> (?lhs \<longleftrightarrow> ?rhs)")
proof -
  have ?missing ?wrong by (auto simp: next_free_from_pool_eq split: option.splits)
  moreover have "?lhs \<longleftrightarrow> ?rhs"
  proof
    assume l: ?lhs
    then have "unat base mod 512 = 0 \<and> pool_active (asids s) (unat base div 512) \<and> pool_ptr (asids s) (unat base div 512) = pool_kva"
      by (auto simp: next_free_from_pool_eq split: if_splits)
    then show ?rhs using next_free_from_pool_full [OF l] by blast
  next
    assume r: ?rhs
    then have used: "asid \<noteq> 0 \<Longrightarrow> asid_lookup s asid \<noteq> 0"
      if "unat base \<le> unat asid" "unat asid < unat base + 512" for asid using that by blast
    have "\<not> asid_free s i" if "i \<in> {unat base..<unat base + 512}" for i
    proof -
      have i: "unat (of_nat i :: u16) = i" using that r by (intro unat_pool_member [of base]) auto
      show ?thesis using used [of "of_nat i"] that unfolding asid_free_def asid_lookup_eq i by auto
    qed
    then have "find (asid_free s) [unat base..<unat base + 512] = None" by (simp add: find_None_iff)
    then show ?lhs using r by (simp add: next_free_from_pool_eq)
  qed
  ultimately show ?thesis by blast
qed

theorem pool_search_errors_witness:
  "next_free_from_pool 512 root_frame one_pool_published = Inl WrongPool \<and>
   next_free_from_pool 513 pool_frame one_pool_published = Inl MissingPool"
proof -
  have "pool_active (asids one_pool_published) 1" "pool_ptr (asids one_pool_published) 1 = pool_frame"
    by (simp_all add: one_pool_published_def publish_pool_def Let_def one_pool_def
        clear_pool_entries_def ASID_POOL_SIZE_def ASID_POOL_COUNT_def ASID_TABLE_LEN_def
        ASID_POOL_ENTRY_COUNT_def unat_div pool_frame_def empty_kstate_def)
  then show ?thesis
    using pool_search_errors [of 512 root_frame one_pool_published] pool_search_errors [of 513 pool_frame one_pool_published]
    by (simp add: pool_frame_def root_frame_def)
qed

end
