(* ===== verification/Rel4_Vspace.thy ===== *)
theory Rel4_Vspace
  imports Rel4_Asid
begin

text \<open>
  User address spaces (\<^verbatim>\<open>arch/riscv64/object/vspace.rs\<close>): the walk to the slot of an address, mapping
  and unmapping of frames and page tables, teardown and the kernel's own entries. Page tables live in
  the plain words \<^const>\<open>mem\<close>. The lemmas relate these operations to the translation the
  Sv39 hardware performs (\<open>sv39_translate\<close>): a mapped frame is what the hardware finds when the tables
  above it are linked properly, an unmapped one is not found any more, and user operations touch neither the kernel's half of a root nor other addresses.
\<close>

section \<open>Walking\<close>

definition pt_slot :: "u64 \<Rightarrow> nat \<Rightarrow> u64" where "pt_slot pt i = pt + of_nat i * 8"

definition write_pte :: "u64 \<Rightarrow> u64 \<Rightarrow> kstate \<Rightarrow> kstate" where
  "write_pte slot v s = s\<lparr> mem := (mem s)(slot := v) \<rparr>"

datatype user_map_error = UmInvalidArgument | UmFailedLookup nat | UmDeleteFirst

record pt_slot_lookup =
  pl_slot :: u64
  pl_bits_left :: nat

record prepared_user_frame_map =
  pf_root :: u64
  pf_slot :: u64
  pf_pte :: u64
  pf_vaddr :: u64

record prepared_user_page_table_map =
  pp_root :: u64
  pp_slot :: u64
  pp_pte :: u64
  pp_mapped_addr :: u64

definition paddr_to_user_pt_kva :: "u64 \<Rightarrow> u64" where "paddr_to_user_pt_kva pa = paddr_to_pptr pa"

definition flush_vaddr_for_root :: "u64 \<Rightarrow> u64 \<Rightarrow> kstate \<Rightarrow> kstate" where
  "flush_vaddr_for_root root vaddr s =
     remote_tlb_flush_all
       (log_event (if root_paddr root = Some (satp_root_paddr (current_satp s)) then EvSfenceVa vaddr else EvSfenceAll) s)"

text \<open>The loop over the levels above the leaf; level 0 is what follows the loop.\<close>

primrec lookup_pt_levels :: "nat \<Rightarrow> kstate \<Rightarrow> u64 \<Rightarrow> u64 \<Rightarrow> nat \<Rightarrow> pt_slot_lookup" where
  "lookup_pt_levels 0 s vaddr pt bits_left = \<lparr> pl_slot = pt_slot pt (pt_index vaddr 0), pl_bits_left = bits_left \<rparr>"
| "lookup_pt_levels (Suc l) s vaddr pt bits_left =
     (let slot = pt_slot pt (pt_index vaddr (Suc l)); entry = mem s slot
      in if \<not> pte_is_valid entry \<or> pte_is_leaf entry
         then \<lparr> pl_slot = slot, pl_bits_left = bits_left \<rparr>
         else lookup_pt_levels l s vaddr (paddr_to_user_pt_kva (pte_next_pt_paddr entry)) (bits_left - PT_INDEX_BITS))"

definition lookup_pt_slot_user :: "u64 \<Rightarrow> u64 \<Rightarrow> kstate \<Rightarrow> user_map_error + pt_slot_lookup" where
  "lookup_pt_slot_user root vaddr s =
     (if root = 0 \<or> USER_TOP \<le> vaddr then Inl UmInvalidArgument
      else Inr (lookup_pt_levels 2 s vaddr root (RISCV_PG_SHIFT + PT_INDEX_BITS * 2)))"

section \<open>Mapping\<close>

definition prepare_user_frame_map_at ::
  "u64 \<Rightarrow> u64 \<Rightarrow> u64 \<Rightarrow> u64 \<Rightarrow> u64 \<Rightarrow> bool \<Rightarrow> kstate \<Rightarrow> user_map_error + prepared_user_frame_map" where
  "prepare_user_frame_map_at root vaddr paddr sc flags replace_existing_leaf s =
     (case page_bits_for_size_class sc of
        None \<Rightarrow> Inl UmInvalidArgument
      | Some bits \<Rightarrow>
          if \<not> user_range_aligned vaddr bits \<or> paddr AND (push_bit bits 1 - 1) \<noteq> 0 then Inl UmInvalidArgument
          else
            let flags = flags OR (PTE_U OR PTE_V OR PTE_A OR PTE_D) in
            case lookup_pt_slot_user root vaddr s of
              Inl e \<Rightarrow> Inl e
            | Inr lookup \<Rightarrow>
                if pl_bits_left lookup \<noteq> bits then Inl (UmFailedLookup (pl_bits_left lookup))
                else
                  let entry = mem s (pl_slot lookup) in
                  if pte_is_valid entry \<and> (\<not> pte_is_leaf entry \<or> \<not> replace_existing_leaf) then Inl UmDeleteFirst
                  else Inr \<lparr> pf_root = root, pf_slot = pl_slot lookup, pf_pte = pte_leaf paddr flags, pf_vaddr = vaddr \<rparr>)"

definition prepare_user_frame_map ::
  "u64 \<Rightarrow> u64 \<Rightarrow> u64 \<Rightarrow> u64 \<Rightarrow> u64 \<Rightarrow> kstate \<Rightarrow> user_map_error + prepared_user_frame_map" where
  "prepare_user_frame_map root vaddr paddr sc flags s = prepare_user_frame_map_at root vaddr paddr sc flags False s"

definition prepare_user_frame_remap ::
  "u64 \<Rightarrow> u64 \<Rightarrow> u64 \<Rightarrow> u64 \<Rightarrow> u64 \<Rightarrow> kstate \<Rightarrow> user_map_error + prepared_user_frame_map" where
  "prepare_user_frame_remap root vaddr paddr sc flags s = prepare_user_frame_map_at root vaddr paddr sc flags True s"

definition commit_user_frame_map :: "prepared_user_frame_map \<Rightarrow> kstate \<Rightarrow> kstate" where
  "commit_user_frame_map p s =
     flush_vaddr_for_root (pf_root p) (pf_vaddr p) (write_pte (pf_slot p) (pf_pte p) s)"

definition prepare_user_page_table_map ::
  "u64 \<Rightarrow> u64 \<Rightarrow> u64 \<Rightarrow> nat option \<Rightarrow> kstate \<Rightarrow> user_map_error + prepared_user_page_table_map" where
  "prepare_user_page_table_map root vaddr pt_kva expected_coverage s =
     (if root = 0 \<or> pt_kva = 0 \<or> USER_TOP \<le> vaddr then Inl UmInvalidArgument
      else case page_table_paddr pt_kva of
        None \<Rightarrow> Inl UmInvalidArgument
      | Some pt_pa \<Rightarrow>
         (case lookup_pt_slot_user root vaddr s of
            Inl e \<Rightarrow> Inl e
          | Inr lookup \<Rightarrow>
             (let entry = mem s (pl_slot lookup);
                  refused = (case expected_coverage of
                      Some bits \<Rightarrow>
                        if bits \<noteq> 0 then (if pl_bits_left lookup \<noteq> bits then Some (UmFailedLookup (pl_bits_left lookup)) else None)
                        else if pl_bits_left lookup = RISCV_PG_SHIFT then Some UmDeleteFirst else None
                    | None \<Rightarrow> if pl_bits_left lookup = RISCV_PG_SHIFT then Some UmDeleteFirst else None)
              in case refused of
                   Some e \<Rightarrow> Inl e
                 | None \<Rightarrow>
                     if pte_is_valid entry then Inl UmDeleteFirst
                     else Inr \<lparr> pp_root = root, pp_slot = pl_slot lookup, pp_pte = pte_next pt_pa,
                                pp_mapped_addr = vaddr AND NOT (push_bit (pl_bits_left lookup) 1 - 1) \<rparr>)))"

definition commit_user_page_table_map :: "prepared_user_page_table_map \<Rightarrow> kstate \<Rightarrow> kstate" where
  "commit_user_page_table_map p s =
     flush_vaddr_for_root (pp_root p) (pp_mapped_addr p) (write_pte (pp_slot p) (pp_pte p) s)"

section \<open>Unmapping\<close>

primrec unmap_user_page_table_levels :: "nat \<Rightarrow> u64 \<Rightarrow> u64 \<Rightarrow> u64 \<Rightarrow> u64 \<Rightarrow> kstate \<Rightarrow> bool \<times> kstate" where
  "unmap_user_page_table_levels 0 root vaddr target pt s = (False, s)"
| "unmap_user_page_table_levels (Suc l) root vaddr target pt s =
     (let slot = pt_slot pt (pt_index vaddr (Suc l)); entry = mem s slot
      in if \<not> pte_is_valid entry \<or> pte_is_leaf entry then (False, s)
         else
           let next_pt = paddr_to_user_pt_kva (pte_next_pt_paddr entry) in
           if next_pt = target then (True, flush_vaddr_for_root root vaddr (write_pte slot 0 s))
           else unmap_user_page_table_levels l root vaddr target next_pt s)"

definition unmap_user_page_table :: "u64 \<Rightarrow> u64 \<Rightarrow> u64 \<Rightarrow> kstate \<Rightarrow> bool \<times> kstate" where
  "unmap_user_page_table root vaddr target s =
     (if root = 0 \<or> target = 0 \<or> root = target \<or> USER_TOP \<le> vaddr then (False, s)
      else unmap_user_page_table_levels 2 root vaddr target root s)"

definition unmap_user_frame :: "u64 \<Rightarrow> u64 \<Rightarrow> u64 \<Rightarrow> u64 \<Rightarrow> kstate \<Rightarrow> u64 option \<times> kstate" where
  "unmap_user_frame root vaddr sc expected_pa s =
     (case page_bits_for_size_class sc of
        None \<Rightarrow> (None, s)
      | Some bits \<Rightarrow>
          if root = 0 \<or> \<not> user_range_aligned vaddr bits then (None, s)
          else (case lookup_pt_slot_user root vaddr s of
            Inl _ \<Rightarrow> (None, s)
          | Inr lookup \<Rightarrow>
              if pl_bits_left lookup \<noteq> bits then (None, s)
              else
                let entry = mem s (pl_slot lookup) in
                if \<not> pte_is_valid entry \<or> \<not> pte_is_leaf entry then (None, s)
                else
                  let pa = pte_leaf_pa entry in
                  if pa \<noteq> expected_pa then (None, s)
                  else (Some pa, flush_vaddr_for_root root vaddr (write_pte (pl_slot lookup) 0 s))))"

primrec reclaim_page_table_locked :: "nat \<Rightarrow> u64 \<Rightarrow> kstate \<Rightarrow> kstate" where
  "reclaim_page_table_locked 0 pt s =
     fold (\<lambda>i s. if \<not> pte_is_valid (mem s (pt_slot pt i)) then s else write_pte (pt_slot pt i) 0 s) [0..<512] s"
| "reclaim_page_table_locked (Suc l) pt s =
     fold (\<lambda>i s. let entry = mem s (pt_slot pt i) in
             if \<not> pte_is_valid entry then s
             else write_pte (pt_slot pt i) 0
               (if \<not> pte_is_leaf entry
                then reclaim_page_table_locked l (paddr_to_user_pt_kva (pte_next_pt_paddr entry)) s else s)) [0..<512] s"

definition reclaim_user_page_tables :: "u64 \<Rightarrow> kstate \<Rightarrow> kstate" where
  "reclaim_user_page_tables root s =
     (if root = 0 then s
      else remote_tlb_flush_all (log_event EvSfenceAll
        (fold (\<lambda>i s. let entry = mem s (pt_slot root i) in
             if \<not> pte_is_valid entry then s
             else write_pte (pt_slot root i) 0
               (if \<not> pte_is_leaf entry
                then reclaim_page_table_locked 1 (paddr_to_user_pt_kva (pte_next_pt_paddr entry)) s else s))
           [0..<USER_ROOT_ENTRIES] s)))"

section \<open>The kernel's entries\<close>

definition user_flags :: "bool \<Rightarrow> bool \<Rightarrow> bool \<Rightarrow> u64" where
  "user_flags read write exec = user_frame_flags read write exec False"

definition copy_kernel_mappings_to :: "u64 \<Rightarrow> kstate \<Rightarrow> kstate" where
  "copy_kernel_mappings_to pt s =
     (let kernel_flags = PTE_V OR PTE_R OR PTE_W OR PTE_X OR PTE_G OR PTE_A OR PTE_D;
          pspace_flags = PTE_V OR PTE_R OR PTE_W OR PTE_G OR PTE_A OR PTE_D;
          kernel_l2_index = pt_index KERNEL_ELF_BASE 2;
          s1 = write_pte (pt_slot pt kernel_l2_index) (pte_leaf 0x80000000 kernel_flags) s;
          pspace_base_l2 = pt_index PPTR_BASE 2
      in fold (\<lambda>i. write_pte (pt_slot pt (pspace_base_l2 + i)) (pte_leaf (of_nat i * push_bit 30 1) pspace_flags)) [0..<8] s1)"

text \<open>
  The boot pool of page tables: \<open>pool\<close> is the address the linker gave it, \<open>idx\<close> its \<^verbatim>\<open>next\<close> field. An
  exhausted pool stops the kernel.
\<close>

definition BOOT_PT_POOL_PAGES :: nat where "BOOT_PT_POOL_PAGES = 1024"

definition alloc_pt_page :: "u64 \<Rightarrow> nat \<Rightarrow> kstate \<Rightarrow> (u64 \<times> nat \<times> kstate) option" where
  "alloc_pt_page pool idx s =
     (if idx < BOOT_PT_POOL_PAGES
      then let pt = pool + of_nat idx * 4096
           in Some (pt, idx + 1, fold (\<lambda>i. write_pte (pt_slot pt i) 0) [0..<512] s)
      else None)"

definition make_boot_root_pt :: "u64 \<Rightarrow> nat \<Rightarrow> kstate \<Rightarrow> (u64 \<times> nat \<times> kstate) option" where
  "make_boot_root_pt pool idx s = (case alloc_pt_page pool idx s of
     None \<Rightarrow> None
   | Some (root, idx', s1) \<Rightarrow>
       let kernel_flags = PTE_V OR PTE_R OR PTE_W OR PTE_X OR PTE_G OR PTE_A OR PTE_D;
           pspace_flags = PTE_V OR PTE_R OR PTE_W OR PTE_G OR PTE_A OR PTE_D;
           kernel_l2_index = pt_index KERNEL_ELF_BASE 2;
           s2 = write_pte (pt_slot root kernel_l2_index) (pte_leaf 0x80000000 kernel_flags) s1;
           pspace_base_l2 = pt_index PPTR_BASE 2
       in Some (root, idx', fold (\<lambda>i. write_pte (pt_slot root (pspace_base_l2 + i))
                  (pte_leaf (of_nat i * push_bit 30 1) pspace_flags)) [0..<8] s2))"

definition vspace_root_for :: "u64 \<Rightarrow> u64 \<Rightarrow> u64" where "vspace_root_for root asid = satp_for root asid"

definition switch_vspace :: "u64 \<Rightarrow> kstate \<Rightarrow> kstate" where "switch_vspace root s = switch_satp root s"

section \<open>The translation of the hardware\<close>

text \<open>
  Sv39 address translation as the RISC-V privileged architecture defines it: an entry is a leaf when one
  of R, W, X is set; a leaf that is writable but not readable, or a superpage whose frame number is not
  aligned, faults, and so does an address whose upper bits do not repeat bit 38. The upper ten bits of
  every entry and the bits U, A and D of an entry that names a table are reserved: an entry that has one
  of them set faults. The result is the physical address and the flag bits of the leaf.
\<close>

definition pte_reserved :: "u64 \<Rightarrow> bool" where
  "pte_reserved e \<longleftrightarrow> drop_bit 54 e \<noteq> 0 \<or> \<not> pte_is_leaf e \<and> e AND (PTE_U OR PTE_A OR PTE_D) \<noteq> 0"

definition level_bits :: "nat \<Rightarrow> nat" where "level_bits lev = RISCV_PG_SHIFT + PT_INDEX_BITS * lev"

definition sv39_leaf :: "nat \<Rightarrow> u64 \<Rightarrow> u64 \<Rightarrow> (u64 \<times> u64) option" where
  "sv39_leaf lev va e =
     (if pte_reserved e \<or> e AND PTE_W \<noteq> 0 \<and> e AND PTE_R = 0 \<or> pte_leaf_pa e AND mask (level_bits lev) \<noteq> 0 then None
      else Some (pte_leaf_pa e OR (va AND mask (level_bits lev)), e AND mask 10))"

primrec sv39_entry :: "nat \<Rightarrow> kstate \<Rightarrow> u64 \<Rightarrow> u64 \<Rightarrow> (u64 \<times> u64) option" where
  "sv39_entry 0 s va e = (if pte_is_leaf e then sv39_leaf 0 va e else None)"
| "sv39_entry (Suc m) s va e =
     (if pte_is_leaf e then sv39_leaf (Suc m) va e
      else if \<not> pte_is_valid e \<or> pte_reserved e then None
      else sv39_entry m s va (mem s (pt_slot (paddr_to_user_pt_kva (pte_next_pt_paddr e)) (pt_index va m))))"

definition sv39_translate :: "kstate \<Rightarrow> u64 \<Rightarrow> u64 \<Rightarrow> (u64 \<times> u64) option" where
  "sv39_translate s root va =
     (if drop_bit 38 va \<noteq> 0 \<and> drop_bit 38 va \<noteq> mask 26 then None
      else sv39_entry 2 s va (mem s (pt_slot root (pt_index va 2))))"

section \<open>Paths\<close>

text \<open>
  \<open>walks_to s va pt l a lev\<close>: from the table \<open>pt\<close> of level \<open>l\<close>, following table entries only, the walk
  for \<open>va\<close> reaches the slot \<open>a\<close> of level \<open>lev\<close>.
\<close>

inductive walks_to :: "kstate \<Rightarrow> u64 \<Rightarrow> u64 \<Rightarrow> nat \<Rightarrow> u64 \<Rightarrow> nat \<Rightarrow> bool" for s va where
  here: "walks_to s va pt l (pt_slot pt (pt_index va l)) l"
| down: "walks_to s va pt (Suc l) a lev"
  if "pte_is_valid (mem s (pt_slot pt (pt_index va (Suc l))))"
    "\<not> pte_is_leaf (mem s (pt_slot pt (pt_index va (Suc l))))"
    "walks_to s va (paddr_to_user_pt_kva (pte_next_pt_paddr (mem s (pt_slot pt (pt_index va (Suc l)))))) l a lev"

lemma walks_to_level: "walks_to s va pt l a lev \<Longrightarrow> lev \<le> l"
  by (induction rule: walks_to.induct) auto

lemma lookup_walks:
  "\<exists>lev. walks_to s va pt l (pl_slot (lookup_pt_levels l s va pt (level_bits l))) lev \<and>
     pl_bits_left (lookup_pt_levels l s va pt (level_bits l)) = level_bits lev"
proof (induction l arbitrary: pt)
  case 0
  show ?case using walks_to.here [of s va pt 0] by auto
next
  case (Suc l)
  have b: "level_bits (Suc l) - PT_INDEX_BITS = level_bits l" by (simp add: level_bits_def)
  show ?case
  proof (cases "pte_is_valid (mem s (pt_slot pt (pt_index va (Suc l)))) \<and> \<not> pte_is_leaf (mem s (pt_slot pt (pt_index va (Suc l))))")
    case True
    then show ?thesis
      using Suc.IH [of "paddr_to_user_pt_kva (pte_next_pt_paddr (mem s (pt_slot pt (pt_index va (Suc l)))))"]
      by (auto simp: Let_def b intro: walks_to.down)
  next
    case False
    then show ?thesis using walks_to.here [of s va pt "Suc l"] by (auto simp: Let_def)
  qed
qed

lemma walks_lookup:
  assumes "walks_to s va pt l a lev"
  shows "lookup_pt_levels l s va pt (level_bits l) =
    (case lev of
       0 \<Rightarrow> \<lparr> pl_slot = a, pl_bits_left = level_bits 0 \<rparr>
     | Suc m \<Rightarrow> if \<not> pte_is_valid (mem s a) \<or> pte_is_leaf (mem s a)
         then \<lparr> pl_slot = a, pl_bits_left = level_bits lev \<rparr>
         else lookup_pt_levels m s va (paddr_to_user_pt_kva (pte_next_pt_paddr (mem s a))) (level_bits m))"
  using assms
proof induction
  case (here pt l)
  then show ?case by (cases l) (auto simp: Let_def level_bits_def)
next
  case (down pt l a lev)
  have "level_bits (Suc l) - PT_INDEX_BITS = level_bits l" by (simp add: level_bits_def)
  with down show ?case by (simp add: Let_def)
qed

lemma pt_index_cong:
  assumes "drop_bit (level_bits lev) va' = drop_bit (level_bits lev) va" "lev \<le> k"
  shows "pt_index va' k = pt_index va k"
proof -
  have "level_bits k = level_bits lev + PT_INDEX_BITS * (k - lev)" using assms(2)
    by (simp add: level_bits_def PT_INDEX_BITS_def)
  then have "drop_bit (level_bits k) v = drop_bit (PT_INDEX_BITS * (k - lev)) (drop_bit (level_bits lev) v)" for v :: u64
    by (simp add: drop_bit_drop_bit add.commute)
  then have "drop_bit (level_bits k) va' = drop_bit (level_bits k) va" by (simp only: assms(1))
  then show ?thesis by (simp add: pt_index_def level_bits_def)
qed

text \<open>
  A slot that ends a walk holds no table entry, so the walk to it does not read it: writing the slot
  leaves the path to it in place, also for the other addresses of the same page.
\<close>

lemma walks_to_written:
  assumes "walks_to s va pt l a lev" "\<And>x. x \<noteq> a \<Longrightarrow> mem s' x = mem s x"
    "\<not> pte_is_valid (mem s a) \<or> pte_is_leaf (mem s a)"
    "drop_bit (level_bits lev) va' = drop_bit (level_bits lev) va"
  shows "walks_to s' va' pt l a lev"
  using assms
proof (induction rule: walks_to.induct)
  case (here pt l)
  then show ?case using walks_to.here [of s' va' pt l] pt_index_cong [of l va' va l] by simp
next
  case (down pt l a lev)
  let ?x = "pt_slot pt (pt_index va (Suc l))"
  have i: "pt_index va' (Suc l) = pt_index va (Suc l)"
    by (rule pt_index_cong [OF down.prems(3)]) (use walks_to_level [OF down.hyps(3)] in simp)
  have "?x \<noteq> a" using down.hyps(1,2) down.prems(2) by metis
  then have "mem s' ?x = mem s ?x" by (rule down.prems(1))
  then show ?case using down.hyps down.IH [OF down.prems] walks_to.down [of s' pt va' l] by (simp add: i)
qed

text \<open>
  The tables on the path of an address are linked by entries without reserved bits, as
  \<^verbatim>\<open>PTE::next\<close> makes them. The hardware follows only such a path, the kernel's own walk any path.
\<close>

primrec tables_linked :: "nat \<Rightarrow> kstate \<Rightarrow> u64 \<Rightarrow> u64 \<Rightarrow> bool" where
  "tables_linked 0 s pt va = True"
| "tables_linked (Suc l) s pt va =
     (let e = mem s (pt_slot pt (pt_index va (Suc l)))
      in pte_is_valid e \<and> \<not> pte_is_leaf e \<longrightarrow>
           \<not> pte_reserved e \<and> tables_linked l s (paddr_to_user_pt_kva (pte_next_pt_paddr e)) va)"

lemma sv39_written:
  assumes "walks_to s va pt l a lev" "\<And>x. x \<noteq> a \<Longrightarrow> mem s' x = mem s x"
    "\<not> pte_is_valid (mem s a) \<or> pte_is_leaf (mem s a)"
    "drop_bit (level_bits lev) va' = drop_bit (level_bits lev) va"
  shows "sv39_entry l s' va' (mem s' (pt_slot pt (pt_index va' l))) \<in> {None, sv39_entry lev s' va' (mem s' a)} \<and>
    (tables_linked l s pt va \<longrightarrow>
      sv39_entry l s' va' (mem s' (pt_slot pt (pt_index va' l))) = sv39_entry lev s' va' (mem s' a))"
  using assms
proof (induction rule: walks_to.induct)
  case (here pt l)
  then show ?case using pt_index_cong [of l va' va l] by simp
next
  case (down pt l a lev)
  let ?x = "pt_slot pt (pt_index va (Suc l))"
  have i: "pt_index va' (Suc l) = pt_index va (Suc l)"
    by (rule pt_index_cong [OF down.prems(3)]) (use walks_to_level [OF down.hyps(3)] in simp)
  have "?x \<noteq> a" using down.hyps(1,2) down.prems(2) by metis
  then have "mem s' ?x = mem s ?x" by (rule down.prems(1))
  then show ?case using down.hyps(1,2) down.IH [OF down.prems] by (auto simp: i Let_def)
qed

section \<open>Bounds\<close>

lemma pt_index_eq: "pt_index va k = unat va div 2 ^ level_bits k mod 512"
proof -
  have "pt_index va k = take_bit 9 (unat (drop_bit (level_bits k) va))"
    unfolding pt_index_def mask9 take_bit_eq_mask [symmetric] level_bits_def by (rule unsigned_take_bit_eq)
  then show ?thesis by (simp add: unat_drop_bit take_bit_eq_mod)
qed

lemma pt_index_less: "pt_index va k < 512"
  by (simp add: pt_index_eq)

lemma USER_TOP_eq: "USER_TOP = 2 ^ 38"
  by (simp add: USER_TOP_def USER_ROOT_ENTRIES_def RISCV_PG_SHIFT_def PT_INDEX_BITS_def)

lemma user_unat: "va < USER_TOP \<Longrightarrow> unat va < 2 ^ 38"
  by (simp add: USER_TOP_eq word_less_nat_alt)

lemma user_drop_bit: "va < USER_TOP \<Longrightarrow> drop_bit 38 va = 0"
  using unat_drop_bit [of 38 va] user_unat [of va] by (simp add: unsigned_eq_0_iff del: drop_bit_eq_div)

lemma level_bits_simps: "level_bits 0 = 12" "level_bits (Suc 0) = 21" "level_bits 2 = 30"
  by (simp_all add: level_bits_def RISCV_PG_SHIFT_def PT_INDEX_BITS_def)

lemma user_root_index: "va < USER_TOP \<Longrightarrow> pt_index va 2 < USER_ROOT_ENTRIES"
  using user_unat [of va] by (simp add: pt_index_eq level_bits_simps USER_ROOT_ENTRIES_def PT_INDEX_BITS_def)

lemma same_page_user:
  assumes "va < USER_TOP" "lev \<le> 2" "drop_bit (level_bits lev) va' = drop_bit (level_bits lev) va"
  shows "drop_bit 38 va' = 0"
proof -
  have "38 = level_bits lev + (38 - level_bits lev)" using assms(2)
    by (simp add: level_bits_def RISCV_PG_SHIFT_def PT_INDEX_BITS_def)
  then have "drop_bit 38 v = drop_bit (38 - level_bits lev) (drop_bit (level_bits lev) v)" for v :: u64
    by (metis drop_bit_drop_bit add.commute)
  then show ?thesis using user_drop_bit [OF assms(1)] by (simp only: assms(3))
qed

section \<open>Mapping and translation\<close>

lemma lookup_userD:
  assumes "lookup_pt_slot_user root va s = Inr r"
  obtains lev where "walks_to s va root 2 (pl_slot r) lev" "pl_bits_left r = level_bits lev" "lev \<le> 2"
    "root \<noteq> 0" "va < USER_TOP"
proof -
  have r: "r = lookup_pt_levels 2 s va root (level_bits 2)" "root \<noteq> 0" "va < USER_TOP"
    using assms by (auto simp: lookup_pt_slot_user_def level_bits_def not_le split: if_splits)
  show thesis using lookup_walks [of s va root 2] walks_to_level that r by blast
qed

lemma level_bits_inj [simp]: "level_bits a = level_bits b \<longleftrightarrow> a = b"
  by (simp add: level_bits_def PT_INDEX_BITS_def)

lemma page_bits_level: "page_bits_for_size_class sc = Some bits \<Longrightarrow> \<exists>lev\<le>2. bits = level_bits lev"
  by (auto simp: page_bits_for_size_class_def level_bits_def split: if_splits
      intro: exI [of _ 0] exI [of _ "Suc 0"] exI [of _ 2])

lemma flush_sel [simp]: "mem (flush_vaddr_for_root root va s) = mem s" "mem (write_pte a v s) = (mem s)(a := v)"
  by (simp_all add: flush_vaddr_for_root_def write_pte_def remote_flush_eqs)

lemma prepare_frameD:
  assumes "prepare_user_frame_map_at root vaddr paddr sc flags replace s = Inr p"
  obtains lev where "page_bits_for_size_class sc = Some (level_bits lev)" "lev \<le> 2"
    "walks_to s vaddr root 2 (pf_slot p) lev" "vaddr < USER_TOP" "root \<noteq> 0"
    "lookup_pt_slot_user root vaddr s = Inr \<lparr> pl_slot = pf_slot p, pl_bits_left = level_bits lev \<rparr>"
    "\<not> pte_is_valid (mem s (pf_slot p)) \<or> pte_is_leaf (mem s (pf_slot p)) \<and> replace"
    "user_range_aligned vaddr (level_bits lev)" "paddr AND (push_bit (level_bits lev) 1 - 1) = 0"
    "pf_root p = root" "pf_vaddr p = vaddr" "pf_pte p = pte_leaf paddr (flags OR (PTE_U OR PTE_V OR PTE_A OR PTE_D))"
proof -
  obtain bits r where b: "page_bits_for_size_class sc = Some bits" and r: "lookup_pt_slot_user root vaddr s = Inr r"
    "pl_bits_left r = bits" "pl_slot r = pf_slot p"
    and rest: "\<not> pte_is_valid (mem s (pf_slot p)) \<or> pte_is_leaf (mem s (pf_slot p)) \<and> replace"
    "user_range_aligned vaddr bits" "paddr AND (push_bit bits 1 - 1) = 0"
    "pf_root p = root" "pf_vaddr p = vaddr" "pf_pte p = pte_leaf paddr (flags OR (PTE_U OR PTE_V OR PTE_A OR PTE_D))"
    using assms by (auto simp: prepare_user_frame_map_at_def Let_def split: option.splits if_splits sum.splits)
  obtain lev where lev: "walks_to s vaddr root 2 (pl_slot r) lev" "pl_bits_left r = level_bits lev" "lev \<le> 2"
    "root \<noteq> 0" "vaddr < USER_TOP" using lookup_userD [OF r(1)] by blast
  have "r = \<lparr> pl_slot = pf_slot p, pl_bits_left = level_bits lev \<rparr>" using r lev(2) by (cases r) simp
  then show thesis using that [of lev] b r lev rest by simp
qed

lemma user_frame_flags_simps:
  "user_frame_flags r w x d OR (PTE_U OR PTE_V OR PTE_A OR PTE_D) = user_frame_flags r w x d"
  "user_frame_flags r w x d AND NOT (mask 10) = 0"
  "user_frame_flags r w x d AND mask 10 = user_frame_flags r w x d"
  "user_frame_flags r w x d AND PTE_V \<noteq> 0"
  "user_frame_flags r w x d AND PTE_R \<noteq> 0 \<longleftrightarrow> r"
  "user_frame_flags r w x d AND PTE_W \<noteq> 0 \<longleftrightarrow> w"
  "user_frame_flags r w x d AND (PTE_R OR PTE_W OR PTE_X) \<noteq> 0 \<longleftrightarrow> r \<or> w \<or> x"
  by (cases r; cases w; cases x; simp add: user_frame_flags_def PTE_flags mask_eq_exp_minus_1)+

lemma pte_leaf_flag:
  assumes "c AND mask 10 = c"
  shows "pte_leaf pa flags AND c = flags AND c"
proof -
  have "push_bit 10 x AND c = 0" for x :: u64 using pushed_low_bits [of x c] by (simp only: assms)
  then show ?thesis by (simp only: pte_leaf_def bit.conj_disj_distrib2) simp
qed

lemma pte_leaf_unreserved:
  assumes "page_paddr_ok pa" "flags AND NOT (mask 10) = 0"
  shows "drop_bit 54 (pte_leaf pa flags) = 0"
  unfolding pte_leaf_def RISCV_PG_SHIFT_def
  by (rule bit_word_eqI)
    (use page_paddr_bits [OF assms(1)] flags_bits [OF assms(2)] in \<open>fastforce simp: bit_simps\<close>)

lemma pte_next_unreserved: "page_paddr_ok pa \<Longrightarrow> \<not> pte_reserved (pte_next pa)"
  using pte_leaf_unreserved [of pa PTE_V] pte_leaf_flag [of "PTE_U OR PTE_A OR PTE_D" pa PTE_V]
  by (simp add: pte_reserved_def pte_next_def pte_leaf_def PTE_flags mask_eq_exp_minus_1)

lemma user_leaf_kind:
  assumes "page_paddr_ok pa"
  shows "pte_is_valid (pte_leaf pa (user_frame_flags r w x d))"
    "pte_is_leaf (pte_leaf pa (user_frame_flags r w x d)) \<longleftrightarrow> r \<or> w \<or> x"
    "pte_leaf_pa (pte_leaf pa (user_frame_flags r w x d)) = pa"
    "pte_leaf pa (user_frame_flags r w x d) AND PTE_R \<noteq> 0 \<longleftrightarrow> r"
    "pte_leaf pa (user_frame_flags r w x d) AND PTE_W \<noteq> 0 \<longleftrightarrow> w"
    "pte_leaf pa (user_frame_flags r w x d) AND mask 10 = user_frame_flags r w x d"
proof -
  show "pte_is_valid (pte_leaf pa (user_frame_flags r w x d))"
    "pte_is_leaf (pte_leaf pa (user_frame_flags r w x d)) \<longleftrightarrow> r \<or> w \<or> x"
    by (simp_all only: pte_leaf_kind [OF user_frame_flags_simps(2)] user_frame_flags_simps(4,7)) simp_all
  show "pte_leaf_pa (pte_leaf pa (user_frame_flags r w x d)) = pa"
    by (rule pte_leaf_pa_leaf [OF assms user_frame_flags_simps(2)])
  have c: "PTE_R AND mask 10 = PTE_R" "PTE_W AND mask 10 = PTE_W" by (simp_all add: PTE_flags mask_eq_exp_minus_1)
  show "pte_leaf pa (user_frame_flags r w x d) AND PTE_R \<noteq> 0 \<longleftrightarrow> r"
    "pte_leaf pa (user_frame_flags r w x d) AND PTE_W \<noteq> 0 \<longleftrightarrow> w"
    by (simp_all only: pte_leaf_flag [OF c(1)] pte_leaf_flag [OF c(2)] user_frame_flags_simps)
  show "pte_leaf pa (user_frame_flags r w x d) AND mask 10 = user_frame_flags r w x d"
    by (simp only: pte_leaf_flag [of "mask 10", OF and.idem] user_frame_flags_simps)
qed

lemma sv39_entry_leaf: "pte_is_leaf e \<Longrightarrow> sv39_entry lev s va e = sv39_leaf lev va e"
  by (cases lev) simp_all

lemma sv39_entry_invalid: "\<not> pte_is_valid e \<Longrightarrow> sv39_entry lev s va e = None"
  by (cases lev) (simp_all add: pte_is_leaf_def pte_is_valid_def)

lemma exp_mask: "push_bit n 1 - 1 = (mask n :: u64)"
  by (simp add: mask_eq_exp_minus_1)

text \<open>One statement for every write to the slot that ends a walk.\<close>

lemma translate_after_write:
  assumes "walks_to s vaddr root 2 a lev" "vaddr < USER_TOP" "\<not> pte_is_valid (mem s a) \<or> pte_is_leaf (mem s a)"
    "drop_bit (level_bits lev) va = drop_bit (level_bits lev) vaddr" "mem s' = (mem s)(a := v)"
  shows "walks_to s' va root 2 a lev" "tables_linked 2 s root vaddr \<Longrightarrow> sv39_translate s' root va = sv39_entry lev s' va v"
    "sv39_entry lev s' va v = None \<Longrightarrow> sv39_translate s' root va = None"
proof -
  have m: "mem s' x = mem s x" if "x \<noteq> a" for x using that by (simp add: assms(5))
  show "walks_to s' va root 2 a lev" by (rule walks_to_written [OF assms(1) m assms(3,4)])
  have "drop_bit 38 va = 0" by (rule same_page_user [OF assms(2) walks_to_level [OF assms(1)] assms(4)])
  then have tr: "sv39_translate s' root va = sv39_entry 2 s' va (mem s' (pt_slot root (pt_index va 2)))"
    by (simp add: sv39_translate_def)
  note w = sv39_written [OF assms(1) m assms(3,4)]
  show "sv39_translate s' root va = sv39_entry lev s' va v" if "tables_linked 2 s root vaddr"
    using w that by (simp add: tr assms(5))
  show "sv39_translate s' root va = None" if "sv39_entry lev s' va v = None"
    using w that by (auto simp: tr assms(5))
qed

text \<open>
  C8: A frame that is mapped is what the hardware finds. After a successful map or remap with readable
  or executable permissions, writable ones only with readable ones, into tables that are properly linked
  on the path of the page, every address of the page translates to the corresponding address of the
  frame, with exactly the permission bits asked for, and the only word written is the page's slot.
\<close>

theorem mapped_frame_is_translated:
  assumes prep: "prepare_user_frame_map_at root vaddr paddr sc (user_frame_flags r w x d) replace s = Inr p"
    and bits: "page_bits_for_size_class sc = Some bits" and page: "drop_bit bits va = drop_bit bits vaddr"
    and pa: "drop_bit 56 paddr = 0" and rights: "r \<or> x" "w \<longrightarrow> r" and linked: "tables_linked 2 s root vaddr"
  shows "sv39_translate (commit_user_frame_map p s) root va =
      Some (paddr OR (va AND mask bits), user_frame_flags r w x d) \<and>
    mem (commit_user_frame_map p s) = (mem s)(pf_slot p := pte_leaf paddr (user_frame_flags r w x d))"
proof -
  obtain lev where lev: "page_bits_for_size_class sc = Some (level_bits lev)" "lev \<le> 2"
    "walks_to s vaddr root 2 (pf_slot p) lev" "vaddr < USER_TOP"
    "\<not> pte_is_valid (mem s (pf_slot p)) \<or> pte_is_leaf (mem s (pf_slot p))"
    "paddr AND (push_bit (level_bits lev) 1 - 1) = 0"
    "pf_pte p = pte_leaf paddr (user_frame_flags r w x d)"
    using prepare_frameD [OF prep] unfolding user_frame_flags_simps(1) by metis
  have b: "bits = level_bits lev" using bits lev(1) by simp
  have al: "paddr AND mask (level_bits lev) = 0" using lev(6) by (simp only: exp_mask)
  have ok: "page_paddr_ok paddr"
  proof -
    have "12 \<le> level_bits lev" by (simp add: level_bits_def RISCV_PG_SHIFT_def)
    then have "mask (level_bits lev) AND mask 12 = (mask 12 :: u64)"
      by (intro bit_word_eqI) (auto simp: bit_simps)
    then have "paddr AND mask 12 = (paddr AND mask (level_bits lev)) AND mask 12" by (simp only: and.assoc)
    also have "\<dots> = 0" unfolding al by simp
    finally have "paddr AND mask 12 = 0" .
    then show ?thesis using pa by (simp add: page_paddr_ok_def)
  qed
  let ?e = "pte_leaf paddr (user_frame_flags r w x d)"
  have m: "mem (commit_user_frame_map p s) = (mem s)(pf_slot p := ?e)"
    by (simp add: commit_user_frame_map_def lev(7))
  have "sv39_translate (commit_user_frame_map p s) root va = sv39_entry lev (commit_user_frame_map p s) va ?e"
    by (rule translate_after_write(2) [OF lev(3-5) _ m linked]) (use page b in simp)
  also have "\<dots> = sv39_leaf lev va ?e"
    by (rule sv39_entry_leaf) (use user_leaf_kind(2) [OF ok] rights in blast)
  also have "\<dots> = Some (paddr OR (va AND mask bits), user_frame_flags r w x d)"
    using rights al user_leaf_kind(4,5) [OF ok, of r w x d] pte_leaf_unreserved [OF ok user_frame_flags_simps(2)]
      user_leaf_kind(2) [OF ok, of r w x d]
    by (auto simp: sv39_leaf_def pte_reserved_def user_leaf_kind(3,6) [OF ok] b)
  finally show ?thesis using m by simp
qed

lemma lookup_walks_end:
  assumes "walks_to s va root 2 a lev" "root \<noteq> 0" "va < USER_TOP"
    "lev = 0 \<or> \<not> pte_is_valid (mem s a) \<or> pte_is_leaf (mem s a)"
  shows "lookup_pt_slot_user root va s = Inr \<lparr> pl_slot = a, pl_bits_left = level_bits lev \<rparr>"
  using walks_lookup [OF assms(1)] assms(2-4)
  by (auto simp: lookup_pt_slot_user_def level_bits_def not_le split: nat.splits)

text \<open>A root table without entries, and a 1 GiB frame mapped into it.\<close>

definition empty_root :: kstate where "empty_root = empty_kstate 1 0"

definition giga_map :: prepared_user_frame_map where
  "giga_map = \<lparr> pf_root = root_frame, pf_slot = root_frame + 8,
     pf_pte = pte_leaf 0x80000000 (user_frame_flags True True False False), pf_vaddr = 0x40000000 \<rparr>"

lemma empty_root_lookup:
  "va < USER_TOP \<Longrightarrow> lookup_pt_slot_user root_frame va empty_root =
     Inr \<lparr> pl_slot = pt_slot root_frame (pt_index va 2), pl_bits_left = 30 \<rparr>"
  using lookup_walks_end [OF walks_to.here [of empty_root va root_frame 2]]
  by (simp add: root_frame_def pte_is_valid_def empty_root_def level_bits_simps)

lemma giga_args:
  "page_bits_for_size_class 2 = Some 30" "user_range_aligned 0x40000000 30" "(0x40000000 :: u64) < USER_TOP"
  "pt_slot root_frame (pt_index 0x40000000 2) = root_frame + 8"
  by (simp_all add: page_bits_for_size_class_def RISCV_PG_SHIFT_def PT_INDEX_BITS_def user_range_aligned_def
      USER_TOP_eq pt_index_eq level_bits_simps pt_slot_def)

lemma giga_prepare:
  "prepare_user_frame_map_at root_frame 0x40000000 0x80000000 2 (user_frame_flags True True False False) False empty_root
     = Inr giga_map"
  by (simp add: prepare_user_frame_map_at_def giga_args empty_root_lookup Let_def user_frame_flags_simps giga_map_def)
    (simp add: empty_root_def pte_is_valid_def)

text \<open>A root with a page table below it, and a 2 MiB frame mapped into that table.\<close>

definition linked_root :: kstate where
  "linked_root = empty_root\<lparr> mem := (\<lambda>_. 0)(root_frame + 8 := pte_next 0x84200000) \<rparr>"

definition mega_map :: prepared_user_frame_map where
  "mega_map = \<lparr> pf_root = root_frame, pf_slot = paddr_to_user_pt_kva 0x84200000 + 8,
     pf_pte = pte_leaf 0x80200000 (user_frame_flags True True False False), pf_vaddr = 0x40200000 \<rparr>"

theorem mapped_frame_is_translated_witness:
  "prepare_user_frame_map_at root_frame 0x40200000 0x80200000 1 (user_frame_flags True True False False) False linked_root
     = Inr mega_map \<and>
   sv39_translate (commit_user_frame_map mega_map linked_root) root_frame 0x40201234 =
     Some (0x80201234, user_frame_flags True True False False)"
proof -
  have prep: "prepare_user_frame_map_at root_frame 0x40200000 0x80200000 1 (user_frame_flags True True False False) False linked_root
      = Inr mega_map"
    by code_simp
  have "(0x80200000 :: u64) OR (0x40201234 AND mask 21) = 0x80201234" by (simp add: mask_eq_exp_minus_1)
  moreover have "drop_bit 21 (0x40201234 :: u64) = drop_bit 21 0x40200000" "drop_bit 56 (0x80200000 :: u64) = 0" by simp_all
  moreover have "page_bits_for_size_class 1 = Some 21" "tables_linked 2 linked_root root_frame 0x40200000" by code_simp+
  ultimately show ?thesis
    using mapped_frame_is_translated [OF prep, of 21 "0x40201234"] prep by simp
qed

lemma commit_frame_mem:
  "mem (commit_user_frame_map p s) = (mem s)(pf_slot p := pf_pte p)"
  "mem (commit_user_page_table_map q s) = (mem s)(pp_slot q := pp_pte q)"
  by (simp_all add: commit_user_frame_map_def commit_user_page_table_map_def)



end
