(* ===== verification/Rel4_Tables.thy ===== *)
theory Rel4_Tables
  imports Rel4_Vspace
begin

text \<open>
  Page-table objects in user address spaces: where walks may end, linking a table in and out again,
  teardown of an address space, and the kernel's own entries in every root. Also here is what the
  mapping code does with a frame mapped without any permission.
\<close>

section \<open>Where a walk may end\<close>

lemma walks_to_cases:
  assumes "walks_to s va pt l a lev"
  shows "lev = l \<and> a = pt_slot pt (pt_index va l) \<or>
    lev < l \<and> (\<exists>x. pte_is_valid (mem s x) \<and> \<not> pte_is_leaf (mem s x) \<and>
      a = pt_slot (paddr_to_user_pt_kva (pte_next_pt_paddr (mem s x))) (pt_index va lev))"
  using assms
proof induction
  case (down pt l a lev)
  then show ?case by (metis less_Suc_eq)
qed blast

text \<open>
  Walks for user addresses stay in the user part of an address space. For an address below the
  user limit the walk always ends, at one of the three levels; a slot in the root table is in its
  lower half, so none of the kernel's entries; any other slot is inside a table some valid table entry
  links to.
\<close>

theorem user_walk_bounds:
  assumes "root \<noteq> 0" "va < USER_TOP"
  shows "\<exists>r. lookup_pt_slot_user root va s = Inr r \<and>
    (pl_bits_left r = 30 \<and> (\<exists>i. i < USER_ROOT_ENTRIES \<and> pl_slot r = pt_slot root i) \<or>
     (pl_bits_left r = 21 \<or> pl_bits_left r = 12) \<and>
       (\<exists>x i. i < 512 \<and> pte_is_valid (mem s x) \<and> \<not> pte_is_leaf (mem s x) \<and>
          pl_slot r = pt_slot (paddr_to_user_pt_kva (pte_next_pt_paddr (mem s x))) i))"
proof -
  have "\<not> USER_TOP \<le> va" using assms(2) by simp
  then obtain r where r: "lookup_pt_slot_user root va s = Inr r"
    using assms(1) unfolding lookup_pt_slot_user_def by simp
  then obtain lev where w: "walks_to s va root 2 (pl_slot r) lev" and b: "pl_bits_left r = level_bits lev" "lev \<le> 2"
    by (rule lookup_userD)
  show ?thesis
  proof (cases "lev = 2")
    case True
    then show ?thesis
      using walks_to_cases [OF w] user_root_index [OF assms(2)] r b
      by (intro exI [of _ r]) (auto simp: level_bits_simps)
  next
    case False
    then have "lev = 0 \<or> lev = Suc 0" using b(2) by auto
    then have "pl_bits_left r = 21 \<or> pl_bits_left r = 12" using b(1) by (auto simp: level_bits_simps)
    then show ?thesis
      using walks_to_cases [OF w] False pt_index_less [of va lev] r by (intro exI [of _ r]) blast
  qed
qed

theorem user_walk_bounds_witness:
  "\<exists>r. lookup_pt_slot_user root_frame 0x12345678 empty_root = Inr r \<and> pl_bits_left r \<in> {12, 21, 30}"
proof -
  have "root_frame \<noteq> 0" "(0x12345678 :: u64) < USER_TOP" by (simp_all add: root_frame_def USER_TOP_eq)
  then show ?thesis using user_walk_bounds [of root_frame "0x12345678" empty_root] by blast
qed

section \<open>Linking a page table\<close>

definition table_empty :: "kstate \<Rightarrow> u64 \<Rightarrow> bool" where
  "table_empty s pt \<longleftrightarrow> (\<forall>i<512. mem s (pt_slot pt i) = 0)"

definition in_table :: "u64 \<Rightarrow> u64 \<Rightarrow> bool" where
  "in_table pt a \<longleftrightarrow> (\<exists>i<512. a = pt_slot pt i)"

lemma pte_0 [simp]: "\<not> pte_is_valid 0" "\<not> pte_is_leaf 0"
  by (simp_all add: pte_is_valid_def pte_is_leaf_def)

lemma prepare_tableD:
  assumes "prepare_user_page_table_map root vaddr pt cov s = Inr p" "cov = None \<or> cov = Some 0"
  obtains m pa where "walks_to s vaddr root 2 (pp_slot p) (Suc m)" "m < 2" "page_table_paddr pt = Some pa"
    "\<not> pte_is_valid (mem s (pp_slot p))" "pp_pte p = pte_next pa" "vaddr < USER_TOP" "root \<noteq> 0" "pt \<noteq> 0"
    "lookup_pt_slot_user root vaddr s = Inr \<lparr> pl_slot = pp_slot p, pl_bits_left = level_bits (Suc m) \<rparr>"
    "pp_mapped_addr p = vaddr AND NOT (mask (level_bits (Suc m)))" "pp_root p = root"
proof -
  obtain r pa where r: "lookup_pt_slot_user root vaddr s = Inr r" "pl_bits_left r \<noteq> RISCV_PG_SHIFT" "pp_slot p = pl_slot r"
    "page_table_paddr pt = Some pa" "\<not> pte_is_valid (mem s (pp_slot p))" "pp_pte p = pte_next pa" "pt \<noteq> 0"
    "pp_mapped_addr p = vaddr AND NOT (push_bit (pl_bits_left r) 1 - 1)" "pp_root p = root"
    using assms by (auto simp: prepare_user_page_table_map_def Let_def split: option.splits if_splits sum.splits)
  obtain lev where w: "walks_to s vaddr root 2 (pl_slot r) lev" "pl_bits_left r = level_bits lev" "lev \<le> 2"
    "root \<noteq> 0" "vaddr < USER_TOP" using lookup_userD [OF r(1)] by blast
  have "lev \<noteq> 0" using r(2) w(2) by (auto simp: level_bits_def)
  then obtain m where m: "lev = Suc m" using not0_implies_Suc by blast
  have req: "r = \<lparr> pl_slot = pp_slot p, pl_bits_left = level_bits (Suc m) \<rparr>" using r(3) w(2) m by (cases r) simp
  have addr: "pp_mapped_addr p = vaddr AND NOT (mask (level_bits (Suc m)))" using r(8) w(2) m by (simp only: exp_mask)
  show thesis
  proof (rule that [of m pa, OF _ _ r(4-6) w(5,4) r(7) _ addr r(9)])
    show "walks_to s vaddr root 2 (pp_slot p) (Suc m)" using w(1) by (simp only: r(3) m)
    show "lookup_pt_slot_user root vaddr s = Inr \<lparr> pl_slot = pp_slot p, pl_bits_left = level_bits (Suc m) \<rparr>"
      using r(1) by (simp only: req)
    show "m < 2" using w(3) m by simp
  qed
qed

lemma pptr_table:
  assumes "PPTR_BASE \<le> pt" "pt < PPTR_TOP" "pt AND mask 12 = 0" "page_table_paddr pt = Some pa"
  shows "paddr_to_user_pt_kva (pte_next_pt_paddr (pte_next pa)) = pt"
proof -
  have "pa = pt - PPTR_BASE" using page_table_paddr_pptr [OF assms(1,2)] assms(4) by simp
  moreover have "page_paddr_ok (pt - PPTR_BASE)" by (rule pptr_page_ok [OF assms(1-3)])
  ultimately show ?thesis
    by (simp add: pte_next_roundtrip paddr_to_user_pt_kva_def paddr_to_pptr_def PADDR_BASE_def)
qed

text \<open>The unmap walk follows the same path and stops at the entry that links the table.\<close>

lemma unmap_levels_path:
  assumes "walks_to s va pt l a (Suc m)" "pte_is_valid (mem s a)" "\<not> pte_is_leaf (mem s a)"
    "paddr_to_user_pt_kva (pte_next_pt_paddr (mem s a)) = target"
    "\<And>x. in_table target x \<Longrightarrow> \<not> pte_is_valid (mem s x)" "\<not> in_table target a"
  shows "unmap_user_page_table_levels l root va target pt s =
    (True, flush_vaddr_for_root root va (write_pte a 0 s))"
  using assms
proof (induction pt l a "Suc m" rule: walks_to.induct)
  case (here pt)
  then show ?case by (simp add: Let_def)
next
  case (down pt l a)
  let ?next = "paddr_to_user_pt_kva (pte_next_pt_paddr (mem s (pt_slot pt (pt_index va (Suc l)))))"
  have "?next \<noteq> target"
  proof
    assume eq: "?next = target"
    have tab: "in_table target (pt_slot ?next (pt_index va l))" unfolding in_table_def using pt_index_less eq by blast
    from down.hyps(3) show False
    proof cases
      case here
      then show False using tab down.prems(5) by simp
    next
      case down
      then show False using tab \<open>\<And>x. in_table target x \<Longrightarrow> \<not> pte_is_valid (mem s x)\<close> by blast
    qed
  qed
  then show ?case using down by (simp add: Let_def)
qed

text \<open>
  C36: Linking a page table extends the address space by one level, and unlinking takes it out again.
  After an empty table is mapped, the walk for the address goes through it and ends one level
  further down, in the table's own slot for the address; unmapping the same table succeeds, leaves
  the linking slot empty and everything else as it was before the map.
\<close>

theorem page_table_map_then_unmap:
  assumes prep: "prepare_user_page_table_map root vaddr pt (Some 0) s = Inr p"
    and window: "PPTR_BASE \<le> pt" "pt < PPTR_TOP" "pt AND mask 12 = 0"
    and fresh: "table_empty s pt" "\<not> in_table pt (pp_slot p)"
  shows "\<exists>m s'. m < 2 \<and>
    lookup_pt_slot_user root vaddr s = Inr \<lparr> pl_slot = pp_slot p, pl_bits_left = level_bits (Suc m) \<rparr> \<and>
    lookup_pt_slot_user root vaddr (commit_user_page_table_map p s) =
      Inr \<lparr> pl_slot = pt_slot pt (pt_index vaddr m), pl_bits_left = level_bits m \<rparr> \<and>
    unmap_user_page_table root vaddr pt (commit_user_page_table_map p s) = (True, s') \<and>
    mem s' = (mem s)(pp_slot p := 0)"
proof -
  let ?c = "commit_user_page_table_map p s" and ?a = "pp_slot p"
  obtain m pa where d: "walks_to s vaddr root 2 ?a (Suc m)" "m < 2" "page_table_paddr pt = Some pa"
    "\<not> pte_is_valid (mem s ?a)" "pp_pte p = pte_next pa" "vaddr < USER_TOP" "root \<noteq> 0" "pt \<noteq> 0"
    "lookup_pt_slot_user root vaddr s = Inr \<lparr> pl_slot = ?a, pl_bits_left = level_bits (Suc m) \<rparr>"
    using prepare_tableD [OF prep] by blast
  have ca: "mem ?c ?a = pte_next pa" "\<And>x. x \<noteq> ?a \<Longrightarrow> mem ?c x = mem s x" by (simp_all add: commit_frame_mem d(5))
  have to: "paddr_to_user_pt_kva (pte_next_pt_paddr (mem ?c ?a)) = pt" unfolding ca by (rule pptr_table [OF window d(3)])
  have empty: "\<not> pte_is_valid (mem ?c x)" if "in_table pt x" for x
  proof -
    have "x \<noteq> ?a" using that fresh(2) by blast
    moreover have "mem s x = 0" using that fresh(1) by (auto simp: in_table_def table_empty_def)
    ultimately show ?thesis using ca(2) by simp
  qed
  have w: "walks_to ?c vaddr root 2 ?a (Suc m)"
    by (rule walks_to_written [OF d(1) ca(2)]) (use d(4) in auto)
  have "lookup_pt_levels 2 ?c vaddr root (level_bits 2) = lookup_pt_levels m ?c vaddr pt (level_bits m)"
    using walks_lookup [OF w] pte_next_kind [of pa] by (simp add: to [unfolded ca] ca)
  also have "\<dots> = \<lparr> pl_slot = pt_slot pt (pt_index vaddr m), pl_bits_left = level_bits m \<rparr>"
  proof -
    have "in_table pt (pt_slot pt (pt_index vaddr m))" unfolding in_table_def using pt_index_less by blast
    then show ?thesis using walks_lookup [OF walks_to.here [of ?c vaddr pt m]] empty by (simp split: nat.splits)
  qed
  finally have look: "lookup_pt_slot_user root vaddr ?c =
      Inr \<lparr> pl_slot = pt_slot pt (pt_index vaddr m), pl_bits_left = level_bits m \<rparr>"
    using d(6,7) by (simp add: lookup_pt_slot_user_def level_bits_def leD)
  have "root \<noteq> pt"
    using walks_to_cases [OF d(1)] fresh
  proof (elim disjE)
    assume "Suc m = 2 \<and> ?a = pt_slot root (pt_index vaddr 2)"
    then show ?thesis using fresh(2) pt_index_less unfolding in_table_def by blast
  next
    assume lt: "Suc m < 2 \<and> (\<exists>x. pte_is_valid (mem s x) \<and> \<not> pte_is_leaf (mem s x) \<and>
      ?a = pt_slot (paddr_to_user_pt_kva (pte_next_pt_paddr (mem s x))) (pt_index vaddr (Suc m)))"
    from d(1) show ?thesis
    proof cases
      case (down l)
      then have "pte_is_valid (mem s (pt_slot root (pt_index vaddr 2)))" by (simp add: numeral_2_eq_2)
      then show ?thesis using fresh(1) pt_index_less by (auto simp: table_empty_def)
    qed (use lt in simp)
  qed
  then have "unmap_user_page_table root vaddr pt ?c = (True, flush_vaddr_for_root root vaddr (write_pte ?a 0 ?c))"
    using unmap_levels_path [OF w _ _ to empty fresh(2), of root] d(6-8) pte_next_kind [of pa]
    by (simp add: unmap_user_page_table_def ca leD)
  then show ?thesis using look d(2,9) by (auto simp: commit_frame_mem)
qed

lemma unat_slot_offset: "i < 512 \<Longrightarrow> unat (of_nat i * 8 :: u64) = i * 8"
proof -
  assume "i < 512"
  then have "i * 8 < 2 ^ 64" by simp
  then have "unat (of_nat (i * 8) :: u64) = i * 8" by (simp only: unat_of_nat mod_less) simp
  then show ?thesis by simp
qed

lemma pt_slot_inj [simp]: "i < 512 \<Longrightarrow> j < 512 \<Longrightarrow> pt_slot pt i = pt_slot pt j \<longleftrightarrow> i = j"
proof
  assume lt: "i < 512" "j < 512" and eq: "pt_slot pt i = pt_slot pt j"
  then have "unat (of_nat i * 8 :: u64) = unat (of_nat j * 8 :: u64)" by (simp add: pt_slot_def)
  then show "i = j" by (simp add: unat_slot_offset lt)
qed simp

lemma in_tableD: "in_table pt a \<Longrightarrow> unat (a - pt) < 4096"
  unfolding in_table_def pt_slot_def by (auto simp: unat_slot_offset)

definition giga_table :: prepared_user_page_table_map where
  "giga_table = \<lparr> pp_root = root_frame, pp_slot = root_frame + 8, pp_pte = pte_next 0x84200000, pp_mapped_addr = 0x40000000 \<rparr>"

lemma giga_table_prepare: "prepare_user_page_table_map root_frame 0x40000000 pool_frame (Some 0) empty_root = Inr giga_table"
proof -
  have "page_table_paddr pool_frame = Some 0x84200000" "root_frame \<noteq> 0" "pool_frame \<noteq> 0"
    by (simp_all add: page_table_paddr_def pool_frame_def root_frame_def PPTR_BASE_def PPTR_TOP_def pptr_to_paddr_def PADDR_BASE_def)
  then show ?thesis
    by (simp add: prepare_user_page_table_map_def giga_args empty_root_lookup Let_def giga_table_def RISCV_PG_SHIFT_def)
      (simp add: empty_root_def USER_TOP_eq)
qed

theorem page_table_map_then_unmap_witness:
  "\<exists>s'. unmap_user_page_table root_frame 0x40000000 pool_frame (commit_user_page_table_map giga_table empty_root) = (True, s') \<and>
     mem s' = (mem empty_root)(root_frame + 8 := 0)"
proof -
  have "PPTR_BASE \<le> pool_frame" "pool_frame < PPTR_TOP" "pool_frame AND mask 12 = 0"
    by (simp_all add: pool_frame_def PPTR_BASE_def PPTR_TOP_def mask_eq_exp_minus_1)
  moreover have "table_empty empty_root pool_frame" by (simp add: table_empty_def empty_root_def)
  moreover have "\<not> in_table pool_frame (pp_slot giga_table)"
    using in_tableD [of pool_frame "pp_slot giga_table"] by (auto simp: giga_table_def root_frame_def pool_frame_def)
  ultimately have "\<exists>s'. unmap_user_page_table root_frame 0x40000000 pool_frame (commit_user_page_table_map giga_table empty_root) = (True, s') \<and>
      mem s' = (mem empty_root)(pp_slot giga_table := 0)"
    using page_table_map_then_unmap [OF giga_table_prepare] by blast
  then show ?thesis by (simp add: giga_table_def)
qed

text \<open>The entry that links a table has no reserved bit, so that the hardware follows it too.\<close>

lemma tables_linked_written:
  assumes "walks_to s va pt l a (Suc m)" "\<And>x. x \<noteq> a \<Longrightarrow> mem s' x = mem s x" "\<not> pte_is_valid (mem s a)"
    "tables_linked l s pt va" "\<not> pte_reserved (mem s' a)"
    "tables_linked m s' (paddr_to_user_pt_kva (pte_next_pt_paddr (mem s' a))) va"
  shows "tables_linked l s' pt va"
  using assms
proof (induction pt l a "Suc m" rule: walks_to.induct)
  case (here pt)
  then show ?case by (simp add: Let_def)
next
  case (down pt l a)
  have "pt_slot pt (pt_index va (Suc l)) \<noteq> a" using down.hyps(1) down.prems(2) by metis
  then have "mem s' (pt_slot pt (pt_index va (Suc l))) = mem s (pt_slot pt (pt_index va (Suc l)))" by (rule down.prems(1))
  then show ?case using down by (simp add: Let_def)
qed

lemma page_table_map_links:
  assumes prep: "prepare_user_page_table_map root vaddr pt (Some 0) s = Inr p"
    and window: "PPTR_BASE \<le> pt" "pt < PPTR_TOP" "pt AND mask 12 = 0"
    and fresh: "table_empty s pt" "\<not> in_table pt (pp_slot p)" and linked: "tables_linked 2 s root vaddr"
  shows "tables_linked 2 (commit_user_page_table_map p s) root vaddr"
proof -
  let ?c = "commit_user_page_table_map p s" and ?a = "pp_slot p"
  obtain m pa where d: "walks_to s vaddr root 2 ?a (Suc m)" "page_table_paddr pt = Some pa"
    "\<not> pte_is_valid (mem s ?a)" "pp_pte p = pte_next pa"
    using prepare_tableD [OF prep] by blast
  have ca: "mem ?c ?a = pte_next pa" "\<And>x. x \<noteq> ?a \<Longrightarrow> mem ?c x = mem s x" by (simp_all add: commit_frame_mem d(4))
  have "pa = pt - PPTR_BASE" using page_table_paddr_pptr [OF window(1,2)] d(2) by simp
  then have "\<not> pte_reserved (mem ?c ?a)" using pte_next_unreserved [OF pptr_page_ok [OF window]] ca(1) by simp
  moreover have "tables_linked m ?c pt vaddr"
  proof (cases m)
    case (Suc l)
    have "in_table pt (pt_slot pt (pt_index vaddr m))" unfolding in_table_def using pt_index_less by blast
    then have "pt_slot pt (pt_index vaddr m) \<noteq> ?a" "mem s (pt_slot pt (pt_index vaddr m)) = 0"
      using fresh pt_index_less by (auto simp: table_empty_def)
    then show ?thesis using ca(2) Suc by simp
  qed simp
  ultimately show ?thesis
    using tables_linked_written [OF d(1) ca(2) d(3) linked] pptr_table [OF window d(2)] ca(1) by simp
qed

section \<open>A frame mapped without permissions\<close>

text \<open>
  C35: A large frame mapped without any permission is taken for a page table by the kernel. When the
  capability rights or the requested rights leave neither read nor write, and the mapping is
  execute-never, the entry written for a 2 MiB or 1 GiB frame is valid but not a leaf. The hardware
  faults on it, as the entry has bits that are reserved there. But unmapping the frame finds no leaf
  and leaves the entry in place, and every later walk of the kernel for an address of the page goes on
  into the contents of the frame, which its owner can write through another mapping: it ends in a
  slot of the frame or of whatever table the frame's words name, and there a later map writes.
\<close>

theorem frame_without_rights_becomes_table:
  assumes prep: "prepare_user_frame_map_at root vaddr paddr sc (user_frame_flags False False False d) replace s = Inr p"
    and bits: "page_bits_for_size_class sc = Some (level_bits (Suc m))" and pa: "page_paddr_ok paddr"
    and page: "drop_bit (level_bits (Suc m)) va = drop_bit (level_bits (Suc m)) vaddr" and va: "va < USER_TOP"
  shows "sv39_translate (commit_user_frame_map p s) root va = None \<and>
    unmap_user_frame root vaddr sc paddr (commit_user_frame_map p s) = (None, commit_user_frame_map p s) \<and>
    lookup_pt_slot_user root va (commit_user_frame_map p s) =
      Inr (lookup_pt_levels m (commit_user_frame_map p s) va (paddr_to_pptr paddr) (level_bits m))"
proof -
  let ?c = "commit_user_frame_map p s" and ?e = "pte_leaf paddr (user_frame_flags False False False d)"
  obtain lev where lev: "page_bits_for_size_class sc = Some (level_bits lev)" "walks_to s vaddr root 2 (pf_slot p) lev"
    "vaddr < USER_TOP" "\<not> pte_is_valid (mem s (pf_slot p)) \<or> pte_is_leaf (mem s (pf_slot p))" "pf_pte p = ?e" "root \<noteq> 0"
    using prepare_frameD [OF prep] unfolding user_frame_flags_simps(1) by metis
  have l: "lev = Suc m" using bits lev(1) by simp
  have k: "pte_is_valid ?e" "\<not> pte_is_leaf ?e" "pte_next_pt_paddr ?e = paddr"
    using user_leaf_kind [OF pa, of False False False d] by (simp_all add: pte_next_pt_paddr_def pte_leaf_pa_def)
  have mem: "mem ?c = (mem s)(pf_slot p := ?e)" by (simp add: commit_frame_mem lev(5))
  have "pte_reserved ?e"
  proof -
    have "PTE_U OR PTE_A OR PTE_D = (PTE_U OR PTE_A OR PTE_D) AND mask 10" by (simp add: PTE_flags mask_eq_exp_minus_1)
    then have "?e AND (PTE_U OR PTE_A OR PTE_D) = user_frame_flags False False False d AND (PTE_U OR PTE_A OR PTE_D)"
      using pte_leaf_flag by metis
    also have "\<dots> \<noteq> 0" by (simp add: user_frame_flags_def PTE_flags)
    finally show ?thesis using k(2) by (simp add: pte_reserved_def)
  qed
  then have "sv39_entry lev ?c va ?e = None" using k by (simp add: l)
  then have tr: "sv39_translate ?c root va = None"
    using translate_after_write(3) [OF lev(2-4) _ mem] page l by blast
  have look: "lookup_pt_slot_user root v ?c = Inr (lookup_pt_levels m ?c v (paddr_to_pptr paddr) (level_bits m))"
    if "drop_bit (level_bits (Suc m)) v = drop_bit (level_bits (Suc m)) vaddr" "v < USER_TOP" for v
  proof -
    have "walks_to ?c v root 2 (pf_slot p) (Suc m)"
      using translate_after_write(1) [OF lev(2-4) _ mem] that(1) l by simp
    then show ?thesis
      using walks_lookup k mem lev(6) that(2)
      by (simp add: lookup_pt_slot_user_def level_bits_def paddr_to_user_pt_kva_def not_le)
  qed
  obtain lv where "pl_bits_left (lookup_pt_levels m ?c vaddr (paddr_to_pptr paddr) (level_bits m)) = level_bits lv" "lv \<le> m"
    using lookup_walks [of ?c vaddr "paddr_to_pptr paddr" m] walks_to_level by metis
  then have "unmap_user_frame root vaddr sc paddr ?c = (None, ?c)"
    using look [OF refl lev(3)] by (simp add: unmap_user_frame_def bits)
  then show ?thesis using tr look [OF page va] by blast
qed

text \<open>
  A 1 GiB frame whose first word looks like the link of a page table at \<open>0x84202000\<close>: once the frame is
  mapped without permissions, mapping a page at the same address is prepared to write to that address.
\<close>

definition forged_table :: kstate where
  "forged_table = empty_root\<lparr> mem := (\<lambda>_. 0)(paddr_to_pptr 0x80000000 := pte_next 0x84202000) \<rparr>"

definition no_rights_map :: prepared_user_frame_map where
  "no_rights_map = \<lparr> pf_root = root_frame, pf_slot = root_frame + 8,
     pf_pte = pte_leaf 0x80000000 (user_frame_flags False False False False), pf_vaddr = 0x40000000 \<rparr>"

theorem frame_without_rights_becomes_table_witness:
  "prepare_user_frame_map_at root_frame 0x40000000 0x80000000 2 (user_frame_flags False False False False) False forged_table
     = Inr no_rights_map \<and>
   sv39_translate (commit_user_frame_map no_rights_map forged_table) root_frame 0x40001000 = None \<and>
   lookup_pt_slot_user root_frame 0x40001000 (commit_user_frame_map no_rights_map forged_table) =
     Inr \<lparr> pl_slot = paddr_to_pptr 0x84202000 + 8, pl_bits_left = 12 \<rparr>"
proof -
  let ?c = "commit_user_frame_map no_rights_map forged_table"
  have prep: "prepare_user_frame_map_at root_frame 0x40000000 0x80000000 2 (user_frame_flags False False False False) False forged_table
      = Inr no_rights_map"
    by code_simp
  have "page_paddr_ok 0x80000000" "page_bits_for_size_class 2 = Some (level_bits (Suc 1))"
    "drop_bit (level_bits (Suc 1)) (0x40001000 :: u64) = drop_bit (level_bits (Suc 1)) 0x40000000" "(0x40001000 :: u64) < USER_TOP"
    by code_simp+
  note tab = frame_without_rights_becomes_table [OF prep this(2,1,3,4)]
  have "lookup_pt_levels 1 ?c 0x40001000 (paddr_to_pptr 0x80000000) (level_bits 1) =
      \<lparr> pl_slot = paddr_to_pptr 0x84202000 + 8, pl_bits_left = 12 \<rparr>"
    by code_simp
  with tab prep show ?thesis by simp
qed

section \<open>The kernel window\<close>

definition kernel_flags :: u64 where "kernel_flags = 0xEF"
definition pspace_flags :: u64 where "pspace_flags = 0xE7"

lemma kernel_indices: "pt_index KERNEL_ELF_BASE 2 = 510" "pt_index PPTR_BASE 2 = 256"
  by (simp_all add: pt_index_eq level_bits_simps KERNEL_ELF_BASE_def PPTR_BASE_def PPTR_TOP_def PHYS_BASE_RAW_def)

lemma copy_kernel_mem:
  assumes "i < 512"
  shows "mem (copy_kernel_mappings_to pt s) (pt_slot pt i) =
    (if i = 510 then pte_leaf 0x80000000 kernel_flags
     else if 256 \<le> i \<and> i < 264 then pte_leaf (push_bit 30 (of_nat (i - 256))) pspace_flags
     else mem s (pt_slot pt i))"
proof -
  have f: "mem (fold (\<lambda>i. write_pte (pt_slot pt (256 + i)) (v i)) [0..<n] s1) (pt_slot pt i) =
      (if 256 \<le> i \<and> i < 256 + n then v (i - 256) else mem s1 (pt_slot pt i))" if "n \<le> 8" for n v s1
    using that by (induction n) (use assms in auto)
  have flags: "PTE_V OR PTE_R OR PTE_W OR PTE_X OR PTE_G OR PTE_A OR PTE_D = kernel_flags"
    "PTE_V OR PTE_R OR PTE_W OR PTE_G OR PTE_A OR PTE_D = pspace_flags"
    by (simp_all add: PTE_flags kernel_flags_def pspace_flags_def)
  show ?thesis
    unfolding copy_kernel_mappings_to_def Let_def kernel_indices flags f [OF order_refl]
    using assms by (simp add: push_bit_eq_mult)
qed

lemma leaf_ok:
  assumes "page_paddr_ok pa" "pa AND mask 30 = 0" "flags = kernel_flags \<or> flags = pspace_flags"
  shows "sv39_entry 2 s va (pte_leaf pa flags) = Some (pa OR (va AND mask 30), flags)"
proof -
  have f: "flags AND NOT (mask 10) = 0" "flags AND mask 10 = flags" "flags AND PTE_V \<noteq> 0" "flags AND PTE_R \<noteq> 0"
    "flags AND (PTE_R OR PTE_W OR PTE_X) \<noteq> 0"
    using assms(3) by (auto simp: kernel_flags_def pspace_flags_def PTE_flags mask_eq_exp_minus_1)
  have c: "PTE_R AND mask 10 = PTE_R" by (simp add: PTE_flags mask_eq_exp_minus_1)
  have "pte_is_leaf (pte_leaf pa flags)" using pte_leaf_kind(2) [OF f(1)] f by simp
  moreover have "pte_leaf pa flags AND PTE_R \<noteq> 0" using f(4) by (simp only: pte_leaf_flag [OF c]) simp
  moreover have "pte_leaf pa flags AND mask 10 = flags" using f(2) by (simp only: pte_leaf_flag [of "mask 10", OF and.idem])
  ultimately show ?thesis
    using assms(2) pte_leaf_unreserved [OF assms(1) f(1)]
    by (simp add: sv39_entry_leaf sv39_leaf_def pte_reserved_def pte_leaf_pa_leaf [OF assms(1) f(1)] level_bits_simps)
qed

lemma giga_paddr:
  assumes "k < 8"
  shows "page_paddr_ok (push_bit 30 (of_nat k))" "push_bit 30 (of_nat k :: u64) AND mask 30 = 0"
proof -
  have "k \<in> {0, 1, 2, 3, 4, 5, 6, 7}" using assms by auto
  then show "page_paddr_ok (push_bit 30 (of_nat k))" "push_bit 30 (of_nat k :: u64) AND mask 30 = 0"
    by (auto simp: page_paddr_ok_def mask_eq_exp_minus_1)
qed

lemma giga_split: "push_bit 30 (drop_bit 30 v) OR (v AND mask 30) = (v :: u64)"
  by (rule bit_word_eqI) (auto simp: bit_simps dest: bit_imp_le_length)

lemma window_low_bits:
  assumes "unat base mod 2 ^ 30 = 0"
  shows "(base + v) AND mask 30 = v AND (mask 30 :: u64)"
proof (rule unsigned_word_eqI)
  have m: "unat (w AND mask 30) = unat w mod 2 ^ 30" for w :: u64
    unfolding take_bit_eq_mask [symmetric] by (subst unsigned_take_bit_eq) (rule take_bit_eq_mod)
  have "unat (base + v) mod 2 ^ 30 = (unat base + unat v) mod 2 ^ 30"
    by (simp add: unat_word_ariths mod_mod_cancel)
  also have "\<dots> = unat v mod 2 ^ 30" using assms by (metis add_0 mod_add_left_eq)
  finally show "unat ((base + v) AND mask 30) = unat (v AND mask 30)" by (simp only: m)
qed

text \<open>What an address of a window means: its table index and its canonical upper bits.\<close>

lemma pspace_index:
  assumes "v < 2 ^ 33"
  shows "pt_index (PPTR_BASE + v) 2 = 256 + unat (drop_bit 30 v)" "unat (drop_bit 30 v) < 8"
    "drop_bit 38 (PPTR_BASE + v) = mask 26"
proof -
  have v: "unat v < 2 ^ 33" using assms by (simp add: word_less_nat_alt)
  have u: "unat (PPTR_BASE + v) = 0xFFFFFFC000000000 + unat v"
    using v by (subst unat_plus_if') (simp add: PPTR_BASE_def)
  show d: "unat (drop_bit 30 v) < 8" using v by (simp add: unat_drop_bit del: drop_bit_eq_div)
  have "(0xFFFFFFC000000000 + unat v) div 2 ^ 30 = 0x3FFFFFF00 + unat v div 2 ^ 30"
    by simp
  moreover have "(0x3FFFFFF00 + k) mod 512 = 256 + k" if "k < 8" for k :: nat
    using that mod_add_left_eq [of "0x3FFFFFF00" 512 k] by simp
  ultimately show "pt_index (PPTR_BASE + v) 2 = 256 + unat (drop_bit 30 v)"
    using d by (simp add: pt_index_eq level_bits_simps u unat_drop_bit)
  have "unat (drop_bit 38 (PPTR_BASE + v)) = unat (mask 26 :: u64)"
    using v by (simp add: unat_drop_bit u mask_eq_exp_minus_1)
  then show "drop_bit 38 (PPTR_BASE + v) = mask 26" by (rule unsigned_word_eqI)
qed

lemma elf_index:
  assumes "v < 2 ^ 30"
  shows "pt_index (PPTR_TOP + v) 2 = 510" "drop_bit 38 (PPTR_TOP + v) = mask 26"
proof -
  have v: "unat v < 2 ^ 30" using assms by (simp add: word_less_nat_alt)
  have u: "unat (PPTR_TOP + v) = 0xFFFFFFFF80000000 + unat v"
    using v by (subst unat_plus_if') (simp add: PPTR_TOP_def)
  have "(0xFFFFFFFF80000000 + unat v) div 2 ^ 30 = 0x3FFFFFFFE + unat v div 2 ^ 30" by simp
  then show "pt_index (PPTR_TOP + v) 2 = 510" using v by (simp add: pt_index_eq level_bits_simps u)
  have "unat (drop_bit 38 (PPTR_TOP + v)) = unat (mask 26 :: u64)"
    using v by (simp add: unat_drop_bit u mask_eq_exp_minus_1)
  then show "drop_bit 38 (PPTR_TOP + v) = mask 26" by (rule unsigned_word_eqI)
qed

text \<open>
  C38: The kernel's address arithmetic agrees with the page tables it builds. In every root that received
  the kernel's entries, each of the first 8 GiB of the physical window translates to what
  \<^verbatim>\<open>pptr_to_paddr\<close> computes, readable and writable and not for users; each address of the kernel
  image's gigabyte translates to what \<^verbatim>\<open>kpptr_to_paddr\<close> computes; and no entry for user addresses
  changed.
\<close>

theorem kernel_window_agrees:
  "(v < 2 ^ 33 \<longrightarrow> sv39_translate (copy_kernel_mappings_to pt s) pt (PPTR_BASE + v) =
      Some (pptr_to_paddr (PPTR_BASE + v), PTE_V OR PTE_R OR PTE_W OR PTE_G OR PTE_A OR PTE_D)) \<and>
   (v < 2 ^ 30 \<longrightarrow> sv39_translate (copy_kernel_mappings_to pt s) pt (PPTR_TOP + v) =
      Some (kpptr_to_paddr (PPTR_TOP + v), PTE_V OR PTE_R OR PTE_W OR PTE_X OR PTE_G OR PTE_A OR PTE_D)) \<and>
   (v < USER_TOP \<longrightarrow> mem (copy_kernel_mappings_to pt s) (pt_slot pt (pt_index v 2)) = mem s (pt_slot pt (pt_index v 2)))"
proof (intro conjI impI)
  let ?s' = "copy_kernel_mappings_to pt s"
  have flags: "PTE_V OR PTE_R OR PTE_W OR PTE_X OR PTE_G OR PTE_A OR PTE_D = kernel_flags"
    "PTE_V OR PTE_R OR PTE_W OR PTE_G OR PTE_A OR PTE_D = pspace_flags"
    by (simp_all add: PTE_flags kernel_flags_def pspace_flags_def)
  {
    assume v: "v < 2 ^ 33"
    note ix = pspace_index [OF v]
    let ?k = "unat (drop_bit 30 v)"
    have "mem ?s' (pt_slot pt (256 + ?k)) = pte_leaf (push_bit 30 (of_nat ?k)) pspace_flags"
      using ix(2) by (subst copy_kernel_mem) simp_all
    then have "sv39_translate ?s' pt (PPTR_BASE + v) = Some (push_bit 30 (of_nat ?k) OR ((PPTR_BASE + v) AND mask 30), pspace_flags)"
      using leaf_ok [OF giga_paddr [OF ix(2)]] ix(1,3) by (simp add: sv39_translate_def)
    moreover have "push_bit 30 (of_nat ?k) OR ((PPTR_BASE + v) AND mask 30) = v"
      using giga_split [of v] by (subst window_low_bits) (simp_all add: PPTR_BASE_def)
    ultimately show "sv39_translate ?s' pt (PPTR_BASE + v) =
        Some (pptr_to_paddr (PPTR_BASE + v), PTE_V OR PTE_R OR PTE_W OR PTE_G OR PTE_A OR PTE_D)"
      unfolding flags by (simp add: pptr_to_paddr_def PADDR_BASE_def)
  next
    assume v: "v < 2 ^ 30"
    note ix = elf_index [OF v]
    have ok: "page_paddr_ok 0x80000000" "(0x80000000 :: u64) AND mask 30 = 0"
      by (simp_all add: page_paddr_ok_def mask_eq_exp_minus_1)
    have "sv39_translate ?s' pt (PPTR_TOP + v) = Some (0x80000000 OR ((PPTR_TOP + v) AND mask 30), kernel_flags)"
      using leaf_ok [OF ok] ix copy_kernel_mem [of 510 pt s] by (simp add: sv39_translate_def)
    moreover have "0x80000000 OR ((PPTR_TOP + v) AND mask 30) = 0x80000000 + v"
    proof -
      have low: "v AND mask 30 = v" using v by (intro word_and_mask_small) (simp add: word_less_nat_alt)
      have "(0x80000000 :: u64) AND (v AND mask 30) = (0x80000000 AND mask 30) AND v"
        by (simp only: and.assoc and.commute [of v])
      then have "(0x80000000 :: u64) AND v = 0" by (simp only: low ok(2) and_zero_eq zero_and_eq)
      with low show ?thesis by (subst window_low_bits) (simp_all add: PPTR_TOP_def disjunctive_add_eq_or)
    qed
    ultimately show "sv39_translate ?s' pt (PPTR_TOP + v) =
        Some (kpptr_to_paddr (PPTR_TOP + v), PTE_V OR PTE_R OR PTE_W OR PTE_X OR PTE_G OR PTE_A OR PTE_D)"
      unfolding flags by (simp add: kpptr_to_paddr_def KERNEL_ELF_BASE_def PPTR_TOP_def PHYS_BASE_RAW_def)
  next
    assume "v < USER_TOP"
    then have "pt_index v 2 < 256" using user_root_index [of v] by (simp add: USER_ROOT_ENTRIES_def PT_INDEX_BITS_def)
    then show "mem ?s' (pt_slot pt (pt_index v 2)) = mem s (pt_slot pt (pt_index v 2))"
      by (subst copy_kernel_mem) simp_all
  }
qed

theorem kernel_window_agrees_witness:
  "sv39_translate (copy_kernel_mappings_to root_frame empty_root) root_frame (PPTR_BASE + 0x84201000) =
     Some (0x84201000, PTE_V OR PTE_R OR PTE_W OR PTE_G OR PTE_A OR PTE_D)"
  using kernel_window_agrees [of "0x84201000" root_frame empty_root] by (simp add: pptr_to_paddr_def PADDR_BASE_def)

text \<open>The boot root is a zeroed page that received the same entries.\<close>

lemma make_boot_root_pt_eq:
  "make_boot_root_pt pool idx s =
     map_option (\<lambda>(root, idx', s1). (root, idx', copy_kernel_mappings_to root s1)) (alloc_pt_page pool idx s)"
  by (simp add: make_boot_root_pt_def copy_kernel_mappings_to_def Let_def split: option.split prod.split)

section \<open>Teardown\<close>

text \<open>Teardown only ever clears entries.\<close>

definition only_cleared :: "kstate \<Rightarrow> kstate \<Rightarrow> bool" where
  "only_cleared s s' \<longleftrightarrow> (\<forall>a. mem s' a = mem s a \<or> mem s' a = 0)"

lemma only_cleared_refl [simp]: "only_cleared s s"
  by (simp add: only_cleared_def)

lemma only_cleared_trans: "only_cleared s t \<Longrightarrow> only_cleared t u \<Longrightarrow> only_cleared s u"
  unfolding only_cleared_def by metis

lemma only_cleared_write: "only_cleared s t \<Longrightarrow> only_cleared s (write_pte a 0 t)"
  by (simp add: only_cleared_def)

lemma only_cleared_fold:
  assumes "\<And>i s. only_cleared s (f i s)"
  shows "only_cleared s (fold f xs s)"
  using assms by (induction xs arbitrary: s) (auto intro: only_cleared_trans)

lemma reclaim_only_clears: "only_cleared s (reclaim_page_table_locked l pt s)"
proof (induction l arbitrary: pt s)
  case 0
  show ?case by (simp add: only_cleared_fold only_cleared_write)
next
  case (Suc l)
  show ?case
    unfolding reclaim_page_table_locked.simps
    by (rule only_cleared_fold) (auto simp: Let_def Suc intro: only_cleared_write)
qed

text \<open>
  C37: Tearing down an address space removes every user mapping: afterwards each user address faults,
  whatever tables the address space shared. The teardown writes nothing but empty entries.
\<close>

theorem reclaim_removes_user_mappings:
  assumes "root \<noteq> 0" "va < USER_TOP"
  shows "sv39_translate (reclaim_user_page_tables root s) root va = None \<and>
    only_cleared s (reclaim_user_page_tables root s)"
proof -
  define step where "step = (\<lambda>i s. let entry = mem s (pt_slot root i) in
    if \<not> pte_is_valid entry then s
    else write_pte (pt_slot root i) 0
      (if \<not> pte_is_leaf entry
       then reclaim_page_table_locked 1 (paddr_to_user_pt_kva (pte_next_pt_paddr entry)) s else s))"
  have clear: "only_cleared s (step i s)" for i s
    by (auto simp: step_def Let_def reclaim_only_clears simp del: reclaim_page_table_locked.simps
        intro: only_cleared_write)
  have stay: "\<not> pte_is_valid (mem t a)" if "only_cleared s t" "\<not> pte_is_valid (mem s a)" for s t a
    using that unfolding only_cleared_def by (metis pte_0(1))
  have cleared: "\<not> pte_is_valid (mem (step i s) (pt_slot root i))" for i s
    unfolding step_def Let_def by simp
  have all: "\<not> pte_is_valid (mem (fold step [0..<n] s) (pt_slot root i))" if "i < n" for i n
    using that
  proof (induction n)
    case (Suc n)
    have "fold step [0..<Suc n] s = step n (fold step [0..<n] s)" by simp
    then show ?case using Suc cleared stay [OF clear] by (metis less_Suc_eq)
  qed simp
  let ?s' = "reclaim_user_page_tables root s"
  have eq: "mem ?s' = mem (fold step [0..<USER_ROOT_ENTRIES] s)"
    using assms(1) by (simp add: reclaim_user_page_tables_def step_def remote_flush_eqs del: reclaim_page_table_locked.simps)
  have "\<not> pte_is_valid (mem ?s' (pt_slot root (pt_index va 2)))"
    unfolding eq by (rule all [OF user_root_index [OF assms(2)]])
  then have "sv39_translate ?s' root va = None" by (simp add: sv39_translate_def sv39_entry_invalid)
  moreover have "only_cleared s ?s'"
    using only_cleared_fold [of step s, OF clear] unfolding only_cleared_def eq by blast
  ultimately show ?thesis by blast
qed

theorem reclaim_removes_user_mappings_witness:
  "sv39_translate (reclaim_user_page_tables root_frame (commit_user_frame_map giga_map empty_root)) root_frame 0x40001234 = None"
  using reclaim_removes_user_mappings [of root_frame "0x40001234"] by (simp add: root_frame_def USER_TOP_eq)

end
