(* ===== verification/Rel4_Sched.thy ===== *)
theory Rel4_Sched
  imports Rel4_Queues
begin

text \<open>
  The ready queues and the scheduler of \<^verbatim>\<open>object/tcb.rs\<close>: enqueueing and dequeueing threads,
  time slices, yielding, and the choice of the next thread. The lemmas give each operation's effect
  on the lists of queued threads and show that it preserves the queue invariant.
\<close>

section \<open>Operations\<close>

definition continue_current_once :: "u64 \<Rightarrow> kstate \<Rightarrow> kstate" where
  "continue_current_once t s = s\<lparr> continue_once := (continue_once s)(current_core_id s := t) \<rparr>"

definition take_continue_current_once :: "u64 option \<Rightarrow> kstate \<Rightarrow> bool \<times> kstate" where
  "take_continue_current_once t s = (case t of
     None \<Rightarrow> (False, s)
   | Some t \<Rightarrow>
       if continue_once s (current_core_id s) = t
       then (True, s\<lparr> continue_once := (continue_once s)(current_core_id s := 0) \<rparr>)
       else (False, s))"

definition request_reschedule :: "kstate \<Rightarrow> kstate" where
  "request_reschedule s = s\<lparr> resched := (resched s)(current_core_id s := True) \<rparr>"

definition take_reschedule_required :: "kstate \<Rightarrow> bool \<times> kstate" where
  "take_reschedule_required s =
     (resched s (current_core_id s), s\<lparr> resched := (resched s)(current_core_id s := False) \<rparr>)"

definition timer_tick :: "u64 \<Rightarrow> kstate \<Rightarrow> kstate" where
  "timer_tick cur s =
     (if is_idle_thread s cur then s
      else
        let x = tcbs s cur in
        if tcb_state x \<noteq> Running then s
        else if 1 < tcb_time_slice x
        then upd_tcb cur (\<lambda>x. x\<lparr> tcb_time_slice := tcb_time_slice x - 1 \<rparr>) s
        else request_reschedule (upd_tcb cur (\<lambda>x. x\<lparr> tcb_time_slice := DEFAULT_TIME_SLICE \<rparr>) s))"

definition enqueue :: "u64 \<Rightarrow> kstate \<Rightarrow> kstate option" where
  "enqueue t s =
     (if is_idle_thread s t \<or> \<not> is_runnable s t then Some s
      else
        let core = home_core s t in do {
          present \<leftarrow> contains queue_ends_of_queue t (rq_state s core);
          if present \<or> \<not> is_unlinked (tlinks s) t then Some s
          else Some (wake_core core
                 (set_rq_state core (push_back queue_ends_of_queue t (rq_state s core)) s))
        })"

fun dequeue_from :: "u64 \<Rightarrow> nat list \<Rightarrow> kstate \<Rightarrow> kstate option" where
  "dequeue_from t [] s = Some s"
| "dequeue_from t (core # cores) s = do {
     (removed, q) \<leftarrow> remove_if_present queue_ends_of_queue t (rq_state s core);
     if removed then Some (set_rq_state core q s)
     else dequeue_from t cores (set_rq_state core q s)
   }"

definition dequeue :: "u64 \<Rightarrow> kstate \<Rightarrow> kstate option" where
  "dequeue t s = dequeue_from t [0..<MAX_NUM_NODES s] s"

definition rotate_to_tail :: "u64 \<Rightarrow> kstate \<Rightarrow> kstate option" where
  "rotate_to_tail t s =
     (if is_idle_thread s t then Some s
      else
        let core = home_core s t; runnable = is_runnable s t in
        if queue_head (runqueues s core) = Some t \<and> queue_tail (runqueues s core) = Some t then Some s
        else do {
          (removed, q) \<leftarrow> remove_if_present queue_ends_of_queue t (rq_state s core);
          Some (set_rq_state core
                  (if removed \<and> runnable then push_back queue_ends_of_queue t q else q) s)
        })"

definition is_runnable_on_current_core :: "kstate \<Rightarrow> u64 \<Rightarrow> bool" where
  "is_runnable_on_current_core s t \<longleftrightarrow>
     ts_is_runnable (tcb_state (tcbs s t)) \<and>
     core_for_affinity s (tcb_affinity (tcbs s t)) = current_core_id s"

definition enqueue_if_migrated_from_current_core :: "u64 \<Rightarrow> kstate \<Rightarrow> kstate option" where
  "enqueue_if_migrated_from_current_core t s =
     (if is_idle_thread s t then Some s
      else if ts_is_runnable (tcb_state (tcbs s t)) \<and>
              core_for_affinity s (tcb_affinity (tcbs s t)) \<noteq> current_core_id s
      then enqueue t s
      else Some s)"

definition set_affinity :: "u64 \<Rightarrow> u8 \<Rightarrow> kstate \<Rightarrow> kstate option" where
  "set_affinity t affinity s =
     (if is_idle_thread s t then Some s
      else
        let x = tcbs s t;
            s1 = (if core_for_affinity s (tcb_affinity x) \<noteq> core_for_affinity s affinity
                  then log_event (EvFpuRelease t) s else s);
            was_runnable = ts_is_runnable (tcb_state x);
            migrate_current = (case current_core_of_tcb t s1 of
                                 Some core \<Rightarrow> core \<noteq> unat affinity
                               | None \<Rightarrow> False)
        in do {
          s2 \<leftarrow> (if was_runnable then dequeue t s1 else Some s1);
          let s3 = upd_tcb t (\<lambda>x. x\<lparr> tcb_affinity := affinity \<rparr>) s2;
          s4 \<leftarrow> (if was_runnable \<and> \<not> migrate_current then enqueue t s3 else Some s3);
          Some (if migrate_current then wake_current_core_of_tcb t s4 else s4)
        })"

definition yield_current :: "u64 \<Rightarrow> kstate \<Rightarrow> kstate option" where
  "yield_current cur s =
     (if is_idle_thread s cur then Some s
      else do { s1 \<leftarrow> enqueue cur s; Some (request_reschedule s1) })"

definition schedule_head :: "kstate \<Rightarrow> u64 option" where
  "schedule_head s = queue_head (runqueues s (current_core_id s))"

text \<open>
  The loop that discards stale entries at the head of the ready queue. It is a partial function:
  a head that \<open>dequeue\<close> does not remove would be looked at for ever.
\<close>

partial_function (option) peek_schedule :: "kstate \<Rightarrow> (u64 option \<times> kstate) option" where
  "peek_schedule s = (case schedule_head s of
     None \<Rightarrow> Some (None, s)
   | Some candidate \<Rightarrow>
       if is_runnable_on_current_core s candidate then Some (Some candidate, s)
       else Option.bind (dequeue candidate s) peek_schedule)"

definition schedule :: "kstate \<Rightarrow> (u64 option \<times> kstate) option" where
  "schedule s = do {
     (candidate, s1) \<leftarrow> peek_schedule s;
     case candidate of
       None \<Rightarrow> Some (None, s1)
     | Some c \<Rightarrow> do { s2 \<leftarrow> dequeue c s1; Some (Some c, s2) }
   }"

section \<open>Effect on the queues\<close>

text \<open>What the queue operations leave alone.\<close>

definition only_queues_changed :: "kstate \<Rightarrow> kstate \<Rightarrow> bool" where
  "only_queues_changed s s' \<longleftrightarrow>
     (\<exists>rq lk ev. s' = s\<lparr> runqueues := rq, tlinks := lk, events := ev \<rparr>)"

lemma only_queues_changedD:
  assumes "only_queues_changed s s'"
  shows "tcbs s' = tcbs s" "eps s' = eps s" "ntfns s' = ntfns s" "ctes s' = ctes s" "mem s' = mem s"
    "MAX_NUM_NODES s' = MAX_NUM_NODES s" "current_core_id s' = current_core_id s"
    "idle_tcbs s' = idle_tcbs s" "cpu_current s' = cpu_current s" "resched s' = resched s"
  using assms by (auto simp: only_queues_changed_def)

lemma only_queues_changed_refl [simp]: "only_queues_changed s s"
proof -
  have "s = s\<lparr> runqueues := runqueues s, tlinks := tlinks s, events := events s \<rparr>" by simp
  then show ?thesis unfolding only_queues_changed_def by metis
qed

lemma only_queues_changed_trans:
  assumes "only_queues_changed s s'" "only_queues_changed s' s''"
  shows "only_queues_changed s s''"
proof -
  obtain rq lk ev where 1: "s' = s\<lparr> runqueues := rq, tlinks := lk, events := ev \<rparr>"
    using assms(1) by (auto simp: only_queues_changed_def)
  obtain rq' lk' ev' where "s'' = s'\<lparr> runqueues := rq', tlinks := lk', events := ev' \<rparr>"
    using assms(2) by (auto simp: only_queues_changed_def)
  with 1 have "s'' = s\<lparr> runqueues := rq', tlinks := lk', events := ev' \<rparr>" by simp
  then show ?thesis unfolding only_queues_changed_def by blast
qed

lemma only_queues_changed_set_rq: "only_queues_changed s (set_rq_state c q s)"
proof -
  have "set_rq_state c q s = s\<lparr> runqueues := (runqueues s)(c := fst q), tlinks := snd q, events := events s \<rparr>"
    by (simp add: set_rq_state_def)
  then show ?thesis unfolding only_queues_changed_def by blast
qed

lemma only_queues_changed_wake: "only_queues_changed s (wake_core c s)"
proof -
  have "log_event e s = s\<lparr> runqueues := runqueues s, tlinks := tlinks s, events := events s @ [e] \<rparr>" for e
    by (simp add: log_event_def)
  then show ?thesis using wake_core_cases [of c s] only_queues_changed_refl
    unfolding only_queues_changed_def by metis
qed

interpretation rq: kernel_queue queue_ends_of_queue RunQ rq_state set_rq_state
proof unfold_locales
  show "qends (set_rq_state c q s) j = qends s j" if "j \<noteq> RunQ c" for j c q s
    using that by (cases j) auto
qed (simp_all add: queue_ends_of_queue_def rq_state_def)

section \<open>Scheduler operations on lists of threads\<close>

definition enqueued :: "kstate \<Rightarrow> u64 \<Rightarrow> (qid \<Rightarrow> u64 list) \<Rightarrow> qid \<Rightarrow> u64 list" where
  "enqueued s t qs =
     (let c = home_core s t in
      if is_idle_thread s t \<or> \<not> is_runnable s t \<or> t \<in> set (qs (RunQ c)) then qs
      else qs(RunQ c := qs (RunQ c) @ [t]))"

definition dequeued :: "kstate \<Rightarrow> u64 \<Rightarrow> (qid \<Rightarrow> u64 list) \<Rightarrow> qid \<Rightarrow> u64 list" where
  "dequeued s t qs =
     (\<lambda>i. case i of RunQ c \<Rightarrow> if c < MAX_NUM_NODES s then remove1 t (qs i) else qs i | _ \<Rightarrow> qs i)"

lemma enqueue_spec:
  assumes inv: "queues_inv_mod W s qs" and t: "tcb_addr_ok t" "t \<notin> W"
    and only: "\<And>i. t \<in> set (qs i) \<Longrightarrow> i = RunQ (home_core s t)"
  shows "\<exists>s'. enqueue t s = Some s' \<and> queues_inv_mod W s' (enqueued s t qs) \<and> only_queues_changed s s' \<and>
    (\<forall>x\<in>W. tlinks s' x = tlinks s x)"
proof -
  let ?c = "home_core s t"
  have has: "contains queue_ends_of_queue t (rq_state s ?c) = Some (t \<in> set (qs (RunQ ?c)))"
    by (rule rq.contains_result [OF inv])
  consider "is_idle_thread s t \<or> \<not> is_runnable s t" | "t \<in> set (qs (RunQ ?c))"
    | "\<not> is_idle_thread s t" "is_runnable s t" "t \<notin> set (qs (RunQ ?c))" by blast
  then show ?thesis
  proof cases
    case 3
    let ?s' = "wake_core ?c (set_rq_state ?c (push_back queue_ends_of_queue t (rq_state s ?c)) s)"
    have free: "\<And>i. t \<notin> set (qs i)" using 3 only by blast
    then have "is_unlinked (tlinks s) t"
      using queues_invD(3) [OF inv] t(2) by (simp add: is_unlinked_def links_is_unlinked_def unlinked_def)
    then have "enqueue t s = Some ?s'" using 3 has by (simp add: enqueue_def Let_def)
    moreover have "queues_inv_mod W ?s' (enqueued s t qs)"
      using queues_inv_upds(3) [OF rq.inv_push [OF inv t(1) free t(2), of ?c]] 3
      by (simp add: enqueued_def Let_def)
    moreover have "tlinks ?s' x = tlinks s x" if "x \<in> W" for x
      using rq.push_links_frame [OF inv that t(2)] by simp
    ultimately show ?thesis
      using only_queues_changed_trans [OF only_queues_changed_set_rq only_queues_changed_wake] by blast
  qed (use inv has in \<open>auto simp: enqueue_def enqueued_def Let_def\<close>)
qed

lemma set_rq_state_same [simp]: "set_rq_state c (rq_state s c) s = s"
  by (simp add: set_rq_state_def rq_state_def)

lemma remove1_other: "queues_inv_mod W s qs \<Longrightarrow> t \<in> set (qs i) \<Longrightarrow> j \<noteq> i \<Longrightarrow> remove1 t (qs j) = qs j"
  using queues_invD(2) [of W s qs t i j] by (auto intro: remove1_idem)

lemma dequeue_from_spec:
  assumes "queues_inv s qs" "distinct cores"
  shows "\<exists>s'. dequeue_from t cores s = Some s' \<and> only_queues_changed s s' \<and>
    queues_inv s' (\<lambda>i. case i of RunQ c \<Rightarrow> if c \<in> set cores then remove1 t (qs i) else qs i | _ \<Rightarrow> qs i)"
  using assms
proof (induction cores)
  case Nil
  have "(\<lambda>i. case i of RunQ c \<Rightarrow> if c \<in> set [] then remove1 t (qs i) else qs i | _ \<Rightarrow> qs i) = qs"
    by (auto split: qid.split)
  with Nil show ?case by simp
next
  case (Cons core cores)
  note inv = Cons.prems(1)
  have has: "contains queue_ends_of_queue t (rq_state s core) = Some (t \<in> set (qs (RunQ core)))"
    by (rule rq.contains_result [OF inv])
  show ?case
  proof (cases "t \<in> set (qs (RunQ core))")
    case True
    have "(\<lambda>i. case i of RunQ c \<Rightarrow> if c \<in> set (core # cores) then remove1 t (qs i) else qs i | _ \<Rightarrow> qs i)
        = qs(RunQ core := remove1 t (qs (RunQ core)))"
      using remove1_other [OF inv True] by (auto simp: fun_eq_iff split: qid.split)
    then show ?thesis
      using True has rq.inv_remove [OF inv True]
      by (simp add: remove_if_present_def only_queues_changed_set_rq)
  next
    case False
    then have "remove1 t (qs (RunQ core)) = qs (RunQ core)" by (rule remove1_idem)
    then have "(\<lambda>i. case i of RunQ c \<Rightarrow> if c \<in> set (core # cores) then remove1 t (qs i) else qs i | _ \<Rightarrow> qs i)
        = (\<lambda>i. case i of RunQ c \<Rightarrow> if c \<in> set cores then remove1 t (qs i) else qs i | _ \<Rightarrow> qs i)"
      by (auto simp: fun_eq_iff split: qid.split)
    then show ?thesis using False has Cons.IH [OF inv] Cons.prems(2)
      by (simp add: remove_if_present_def)
  qed
qed

lemma dequeue_spec:
  assumes "queues_inv s qs"
  shows "\<exists>s'. dequeue t s = Some s' \<and> queues_inv s' (dequeued s t qs) \<and> only_queues_changed s s'"
proof -
  have "dequeued s t qs = (\<lambda>i. case i of
      RunQ c \<Rightarrow> if c \<in> set [0..<MAX_NUM_NODES s] then remove1 t (qs i) else qs i | _ \<Rightarrow> qs i)"
    by (auto simp: dequeued_def fun_eq_iff split: qid.split)
  then show ?thesis
    using dequeue_from_spec [OF assms, of "[0..<MAX_NUM_NODES s]" t] by (simp add: dequeue_def conj_commute)
qed

lemma dequeued_head:
  assumes "queues_inv s qs" "qs (RunQ c) = t # xs" "c < MAX_NUM_NODES s"
  shows "dequeued s t qs = qs(RunQ c := xs)"
proof
  fix i
  have t: "t \<in> set (qs (RunQ c))" using assms(2) by simp
  show "dequeued s t qs i = (qs(RunQ c := xs)) i"
    using remove1_other [OF assms(1) t, of i] assms(2,3)
    by (auto simp: dequeued_def split: qid.split)
qed

lemma peek_schedule_spec:
  assumes "queues_inv s qs" "current_core_id s < MAX_NUM_NODES s"
    "qs (RunQ (current_core_id s)) = xs"
    "ys = dropWhile (\<lambda>t. \<not> is_runnable_on_current_core s t) xs"
  shows "\<exists>s'. peek_schedule s = Some (first_or ys None, s') \<and>
           queues_inv s' (qs(RunQ (current_core_id s) := ys)) \<and> only_queues_changed s s'"
  using assms
proof (induction xs arbitrary: s qs)
  case Nil
  have "qs(RunQ (current_core_id s) := []) = qs" using Nil.prems(3) by (metis fun_upd_triv)
  moreover have "schedule_head s = None"
    using rq.rep [OF Nil.prems(1), of "current_core_id s"] Nil.prems(3)
    by (simp add: schedule_head_def queue_rep_def rq_state_def queue_ends_of_queue_def)
  ultimately show ?case using Nil.prems by (simp add: peek_schedule.simps [of s])
next
  case (Cons t xs)
  let ?c = "current_core_id s"
  have hd: "schedule_head s = Some t"
    using rq.rep [OF Cons.prems(1), of ?c] Cons.prems(3)
    by (simp add: schedule_head_def queue_rep_def rq_state_def queue_ends_of_queue_def)
  show ?case
  proof (cases "is_runnable_on_current_core s t")
    case True
    have "qs(RunQ ?c := t # xs) = qs" using Cons.prems(3) by (metis fun_upd_triv)
    then show ?thesis using True hd Cons.prems by (simp add: peek_schedule.simps [of s])
  next
    case False
    obtain s1 where s1: "dequeue t s = Some s1" "queues_inv s1 (qs(RunQ ?c := xs))"
      "only_queues_changed s s1"
      using dequeue_spec [OF Cons.prems(1), of t] dequeued_head [OF Cons.prems(1,3,2)] by auto
    note same = only_queues_changedD [OF s1(3)]
    have run: "is_runnable_on_current_core s1 x = is_runnable_on_current_core s x" for x
      by (simp add: is_runnable_on_current_core_def core_for_affinity_def same)
    have "\<exists>s'. peek_schedule s1 = Some (first_or ys None, s') \<and>
        queues_inv s' ((qs(RunQ ?c := xs))(RunQ (current_core_id s1) := ys)) \<and> only_queues_changed s1 s'"
    proof (rule Cons.IH [OF s1(2)])
      show "current_core_id s1 < MAX_NUM_NODES s1" using Cons.prems(2) by (simp add: same)
      show "(qs(RunQ ?c := xs)) (RunQ (current_core_id s1)) = xs" by (simp add: same)
      show "ys = dropWhile (\<lambda>t. \<not> is_runnable_on_current_core s1 t) xs"
        using Cons.prems(4) False by (simp add: run)
    qed
    then obtain s' where s': "peek_schedule s1 = Some (first_or ys None, s')"
      "queues_inv s' ((qs(RunQ ?c := xs))(RunQ ?c := ys))" "only_queues_changed s1 s'"
      unfolding same by blast
    have "peek_schedule s = Some (first_or ys None, s')"
      using False hd s1(1) s'(1) by (simp add: peek_schedule.simps [of s])
    moreover have "queues_inv s' (qs(RunQ ?c := ys))" using s'(2) by simp
    ultimately show ?thesis using only_queues_changed_trans [OF s1(3) s'(3)] by blast
  qed
qed

lemma schedule_spec:
  assumes "queues_inv s qs" "current_core_id s < MAX_NUM_NODES s"
    "ys = dropWhile (\<lambda>t. \<not> is_runnable_on_current_core s t) (qs (RunQ (current_core_id s)))"
  shows "\<exists>s'. schedule s = Some (first_or ys None, s') \<and>
           queues_inv s' (qs(RunQ (current_core_id s) := tl ys)) \<and> only_queues_changed s s'"
proof -
  let ?c = "current_core_id s"
  obtain s1 where s1: "peek_schedule s = Some (first_or ys None, s1)"
    "queues_inv s1 (qs(RunQ ?c := ys))" "only_queues_changed s s1"
    using peek_schedule_spec [OF assms(1,2) refl assms(3)] by blast
  note same = only_queues_changedD [OF s1(3)]
  show ?thesis
  proof (cases ys)
    case Nil
    then show ?thesis using s1 by (simp add: schedule_def)
  next
    case (Cons c zs)
    obtain s2 where s2: "dequeue c s1 = Some s2" "queues_inv s2 (dequeued s1 c (qs(RunQ ?c := ys)))"
      "only_queues_changed s1 s2"
      using dequeue_spec [OF s1(2)] by blast
    have "dequeued s1 c (qs(RunQ ?c := ys)) = (qs(RunQ ?c := ys))(RunQ ?c := zs)"
      by (rule dequeued_head [OF s1(2)]) (use Cons assms(2) same in simp_all)
    then have "queues_inv s2 (qs(RunQ ?c := tl ys))" using s2(2) Cons by simp
    moreover have "schedule s = Some (first_or ys None, s2)"
      using s1(1) s2(1) Cons by (simp add: schedule_def)
    ultimately show ?thesis using only_queues_changed_trans [OF s1(3) s2(3)] by blast
  qed
qed

lemma rotate_to_tail_spec:
  assumes inv: "queues_inv s qs" and t: "tcb_addr_ok t"
    and live: "\<not> is_idle_thread s t" "is_runnable s t" "t \<in> set (qs (RunQ (home_core s t)))"
  shows "\<exists>s'. rotate_to_tail t s = Some s' \<and> only_queues_changed s s' \<and>
    queues_inv s' (qs(RunQ (home_core s t) := remove1 t (qs (RunQ (home_core s t))) @ [t]))"
proof -
  let ?c = "home_core s t"
  have has: "contains queue_ends_of_queue t (rq_state s ?c) = Some True"
    using rq.contains_result [OF inv] live(3) by simp
  show ?thesis
  proof (cases "queue_head (runqueues s ?c) = Some t \<and> queue_tail (runqueues s ?c) = Some t")
    case True
    have "qs (RunQ ?c) = [t]"
    proof (cases "qs (RunQ ?c)" rule: rev_cases)
      case (snoc ys y)
      then show ?thesis using True rq.rep [OF inv, of ?c] queues_invD(4) [OF inv, of "RunQ ?c"]
        by (cases ys) (auto simp: queue_rep_def rq_state_def queue_ends_of_queue_def)
    qed (use live(3) in simp)
    then have "qs(RunQ ?c := remove1 t (qs (RunQ ?c)) @ [t]) = qs"
      by (simp add: fun_upd_idem)
    then show ?thesis using True live inv by (simp add: rotate_to_tail_def)
  next
    case False
    define q where "q = remove queue_ends_of_queue t (rq_state s ?c)"
    define s1 where "s1 = set_rq_state ?c q s"
    have inv1: "queues_inv s1 (qs(RunQ ?c := remove1 t (qs (RunQ ?c))))"
      unfolding s1_def q_def by (rule rq.inv_remove [OF inv live(3)])
    have free: "t \<notin> set ((qs(RunQ ?c := remove1 t (qs (RunQ ?c)))) i)" for i
      using queues_invD(2) [OF inv live(3), of i] queues_invD(4) [OF inv, of "RunQ ?c"] by auto
    have eq: "set_rq_state ?c (push_back queue_ends_of_queue t (rq_state s1 ?c)) s1
        = set_rq_state ?c (push_back queue_ends_of_queue t q) s"
      by (simp add: s1_def rq_state_def set_rq_state_def)
    have "queues_inv (set_rq_state ?c (push_back queue_ends_of_queue t q) s)
        (qs(RunQ ?c := remove1 t (qs (RunQ ?c)) @ [t]))"
      using rq.inv_push [of "{}" s1 "qs(RunQ ?c := remove1 t (qs (RunQ ?c)))" t ?c, OF inv1 t free]
      by (simp add: eq del: fun_upd_apply) simp
    moreover have "rotate_to_tail t s = Some (set_rq_state ?c (push_back queue_ends_of_queue t q) s)"
      using False live has by (auto simp: rotate_to_tail_def remove_if_present_def Let_def q_def)
    ultimately show ?thesis using only_queues_changed_set_rq by blast
  qed
qed

lemma dequeued_free:
  assumes "queues_inv s qs" "\<And>i. t \<in> set (qs i) \<Longrightarrow> \<exists>c < MAX_NUM_NODES s. i = RunQ c"
  shows "t \<notin> set (dequeued s t qs i)"
proof (cases i)
  case (RunQ c)
  then show ?thesis using assms(2) [of i] queues_invD(4) [OF assms(1), of i]
    by (auto simp: dequeued_def)
qed (use assms(2) [of i] in \<open>auto simp: dequeued_def\<close>)

lemma set_affinity_spec:
  assumes inv: "queues_inv s qs" and t: "tcb_addr_ok t"
    and on: "\<And>i. t \<in> set (qs i) \<Longrightarrow> \<exists>c < MAX_NUM_NODES s. i = RunQ c"
    and live: "\<not> is_idle_thread s t" "is_runnable s t" "current_core_of_tcb t s = None"
  shows "\<exists>s'. set_affinity t a s = Some s' \<and> tcb_affinity (tcbs s' t) = a \<and>
    queues_inv s' ((dequeued s t qs)(RunQ (core_for_affinity s a) :=
      dequeued s t qs (RunQ (core_for_affinity s a)) @ [t]))"
proof -
  define s1 where "s1 = (if core_for_affinity s (tcb_affinity (tcbs s t)) \<noteq> core_for_affinity s a
                         then log_event (EvFpuRelease t) s else s)"
  have inv1: "queues_inv s1 qs" unfolding s1_def using inv queues_inv_upds(2) by simp
  have sel1: "tcbs s1 = tcbs s" "MAX_NUM_NODES s1 = MAX_NUM_NODES s" "idle_tcbs s1 = idle_tcbs s"
    "cpu_current s1 = cpu_current s" "cpu_online s1 = cpu_online s"
    by (simp_all add: s1_def log_event_def)
  obtain s2 where s2: "dequeue t s1 = Some s2" "queues_inv s2 (dequeued s1 t qs)" "only_queues_changed s1 s2"
    using dequeue_spec [OF inv1] by blast
  note same = only_queues_changedD [OF s2(3)]
  have dq: "dequeued s1 t qs = dequeued s t qs"
    by (auto simp: dequeued_def sel1 fun_eq_iff split: qid.split)
  have free: "t \<notin> set (dequeued s t qs i)" for i by (rule dequeued_free [OF inv on])
  define s3 where "s3 = upd_tcb t (\<lambda>x. x\<lparr> tcb_affinity := a \<rparr>) s2"
  have inv3: "queues_inv s3 (dequeued s t qs)" unfolding s3_def using s2(2) dq by auto
  have hc: "home_core s3 t = core_for_affinity s a"
    by (simp add: home_core_def s3_def core_for_affinity_def same sel1)
  have run3: "\<not> is_idle_thread s3 t" "is_runnable s3 t"
    using live is_idle_thread_cong [of s2 s] by (simp_all add: is_runnable_def s3_def same sel1)
  obtain s4 where s4: "enqueue t s3 = Some s4" "queues_inv s4 (enqueued s3 t (dequeued s t qs))"
    "only_queues_changed s3 s4"
    using enqueue_spec [of "{}" s3 "dequeued s t qs" t, OF inv3 t] free by blast
  have eq: "enqueued s3 t (dequeued s t qs) = (dequeued s t qs)(RunQ (core_for_affinity s a) :=
      dequeued s t qs (RunQ (core_for_affinity s a)) @ [t])"
    using free run3 by (simp add: enqueued_def hc Let_def)
  have cc: "current_core_of_tcb t s1 = None" using live(3) by (simp add: current_core_of_tcb_def sel1)
  have "set_affinity t a s = Some s4"
    using live(1,2) s2(1) s4(1) cc
    by (simp add: set_affinity_def Let_def s1_def [symmetric] is_runnable_def s3_def)
  moreover have "tcb_affinity (tcbs s4 t) = a" by (simp add: only_queues_changedD [OF s4(3)] s3_def)
  ultimately show ?thesis using s4(2) unfolding eq by blast
qed

lemma timer_tick_running:
  assumes "\<not> is_idle_thread s t" "tcb_state (tcbs s t) = Running"
  shows "timer_tick t s =
    (if 1 < tcb_time_slice (tcbs s t)
     then upd_tcb t (\<lambda>x. x\<lparr> tcb_time_slice := tcb_time_slice x - 1 \<rparr>) s
     else request_reschedule (upd_tcb t (\<lambda>x. x\<lparr> tcb_time_slice := DEFAULT_TIME_SLICE \<rparr>) s))"
  using assms by (simp add: timer_tick_def Let_def)

lemma word8_less: "1 < (w :: u8) \<longleftrightarrow> 1 < unat w"
  by (simp add: word_less_nat_alt)

lemma timer_ticks_before_expiry:
  assumes "\<not> is_idle_thread s t" "tcb_state (tcbs s t) = Running"
    and "unat (tcb_time_slice (tcbs s t)) = k" "j < k"
  shows "unat (tcb_time_slice (tcbs ((timer_tick t ^^ j) s) t)) = k - j \<and>
    resched ((timer_tick t ^^ j) s) = resched s \<and>
    \<not> is_idle_thread ((timer_tick t ^^ j) s) t \<and>
    tcb_state (tcbs ((timer_tick t ^^ j) s) t) = Running \<and>
    current_core_id ((timer_tick t ^^ j) s) = current_core_id s"
  using assms(4)
proof (induction j)
  case 0
  then show ?case using assms by simp
next
  case (Suc j)
  let ?s = "(timer_tick t ^^ j) s"
  have IH: "unat (tcb_time_slice (tcbs ?s t)) = k - j" "\<not> is_idle_thread ?s t"
    "tcb_state (tcbs ?s t) = Running" "resched ?s = resched s" "current_core_id ?s = current_core_id s"
    using Suc by auto
  have gt: "1 < tcb_time_slice (tcbs ?s t)" using IH(1) Suc.prems by (simp add: word8_less)
  have step: "(timer_tick t ^^ Suc j) s = upd_tcb t (\<lambda>x. x\<lparr> tcb_time_slice := tcb_time_slice x - 1 \<rparr>) ?s"
    using timer_tick_running [OF IH(2,3)] gt by simp
  have "unat (tcb_time_slice (tcbs ?s t) - 1) = k - Suc j"
    using IH(1) Suc.prems gt by (subst unat_sub) (auto simp: word_le_nat_alt word8_less)
  then show ?case using IH unfolding step by simp
qed

section \<open>Properties\<close>

text \<open>A two-thread state for the examples: both threads are running, on core 0 of one.\<close>

definition thr_a :: u64 where "thr_a = 0xFFFFFFC080000000"
definition thr_b :: u64 where "thr_b = 0xFFFFFFC080000800"

definition two_threads :: kstate where
  "two_threads = set_state thr_b Running (set_state thr_a Running (empty_kstate 1 0))"

lemma thr_addr_ok: "tcb_addr_ok thr_a" "tcb_addr_ok thr_b"
  using canonical_kernel_window [of thr_a] canonical_kernel_window [of thr_b]
  by (simp_all add: tcb_addr_ok_def thr_a_def thr_b_def STATE_MASK_def)

lemma thr_distinct [simp]: "thr_a \<noteq> thr_b" "thr_b \<noteq> thr_a"
  by (simp_all add: thr_a_def thr_b_def)

lemma two_threads_inv: "queues_inv two_threads (\<lambda>_. [])"
  unfolding two_threads_def set_state_def using queues_inv_empty by blast

lemma two_threads_sel [simp]:
  "is_runnable two_threads thr_a" "is_runnable two_threads thr_b"
  "\<not> is_idle_thread two_threads thr_a" "\<not> is_idle_thread two_threads thr_b"
  "home_core two_threads t = 0" "MAX_NUM_NODES two_threads = 1" "current_core_id two_threads = 0"
  by (simp_all add: two_threads_def set_state_def is_runnable_def is_idle_thread_def idle_thread_of_def
      thr_a_def thr_b_def home_core_def core_for_affinity_def Let_def)

lemma two_threads_enqueued:
  "\<exists>s. enqueue thr_a two_threads = Some s \<and> queues_inv s ((\<lambda>_. [])(RunQ 0 := [thr_a])) \<and>
       only_queues_changed two_threads s"
  using enqueue_spec [OF two_threads_inv thr_addr_ok(1)]
  by (fastforce simp add: enqueued_def del: fun_upd_apply)

text \<open>
  C24: The scheduler takes the first thread of the current core's ready queue that may run
  there. It terminates, drops exactly the stale entries in front of it, takes the chosen thread
  off the queue, keeps every other queue as it was, and answers \<open>None\<close> only when the queue holds
  no such thread.
\<close>

theorem schedule_picks_first_runnable:
  assumes "queues_inv s qs" "core_config_ok s"
    and "ys = dropWhile (\<lambda>t. \<not> is_runnable_on_current_core s t) (qs (RunQ (current_core_id s)))"
  shows "\<exists>s'. schedule s = Some (first_or ys None, s') \<and>
           queues_inv s' (qs(RunQ (current_core_id s) := tl ys)) \<and> only_queues_changed s s'"
  by (rule schedule_spec) (use assms in \<open>auto simp: core_config_ok_def\<close>)

theorem schedule_picks_first_runnable_witness:
  "\<exists>s s'. enqueue thr_a two_threads = Some s \<and> schedule s = Some (Some thr_a, s') \<and>
      queues_inv s' (\<lambda>_. [])"
proof -
  obtain s where s: "enqueue thr_a two_threads = Some s" "queues_inv s ((\<lambda>_. [])(RunQ 0 := [thr_a]))"
    "only_queues_changed two_threads s"
    using two_threads_enqueued by blast
  note same = only_queues_changedD [OF s(3)]
  have "core_config_ok s" by (simp add: core_config_ok_def same)
  moreover have "is_runnable_on_current_core s thr_a"
    by (simp add: is_runnable_on_current_core_def same)
      (simp add: two_threads_def set_state_def core_for_affinity_def tcb_zero_def)
  then have "dropWhile (\<lambda>t. \<not> is_runnable_on_current_core s t)
      (((\<lambda>_. [])(RunQ 0 := [thr_a])) (RunQ (current_core_id s))) = [thr_a]"
    by (simp add: same)
  ultimately obtain s' where "schedule s = Some (Some thr_a, s')"
    "queues_inv s' (((\<lambda>_. [])(RunQ 0 := [thr_a]))(RunQ (current_core_id s) := []))"
    using schedule_picks_first_runnable [OF s(2) _ refl] by auto
  moreover have "((\<lambda>_. [])(RunQ 0 := [thr_a]))(RunQ (current_core_id s) := []) = (\<lambda>_. [])"
    by (simp add: same fun_eq_iff)
  ultimately show ?thesis using s(1) by auto
qed

text \<open>
  Enqueueing a runnable thread that is on no queue appends it to the ready queue of its home
  core and only there; enqueueing it again changes nothing. In both cases the queue invariant
  holds afterwards, so a thread is never linked into two queues.
\<close>

theorem enqueue_appends_once:
  assumes "queues_inv s qs" "tcb_addr_ok t" "is_runnable s t" "\<not> is_idle_thread s t"
    and "\<And>i. t \<notin> set (qs i)"
  shows "\<exists>s1 s2. enqueue t s = Some s1 \<and> enqueue t s1 = Some s2 \<and>
    queues_inv s1 (qs(RunQ (home_core s t) := qs (RunQ (home_core s t)) @ [t])) \<and>
    queues_inv s2 (qs(RunQ (home_core s t) := qs (RunQ (home_core s t)) @ [t]))"
proof -
  let ?qs = "qs(RunQ (home_core s t) := qs (RunQ (home_core s t)) @ [t])"
  obtain s1 where s1: "enqueue t s = Some s1" "queues_inv s1 ?qs" "only_queues_changed s s1"
    using enqueue_spec [OF assms(1,2)] assms(3-5) by (auto simp: enqueued_def Let_def)
  note same = only_queues_changedD [OF s1(3)]
  have hc: "home_core s1 t = home_core s t" by (simp add: home_core_def core_for_affinity_def same)
  have only: "i = RunQ (home_core s1 t)" if "t \<in> set (?qs i)" for i
    using that assms(5) [of i] hc by (auto split: if_splits)
  obtain s2 where s2: "enqueue t s1 = Some s2" "queues_inv s2 (enqueued s1 t ?qs)"
    using enqueue_spec [of "{}" s1 ?qs t, OF s1(2) assms(2) _ only] by blast
  have "enqueued s1 t ?qs = ?qs" by (simp add: enqueued_def hc Let_def)
  then show ?thesis using s1(1,2) s2 by metis
qed

theorem enqueue_appends_once_witness:
  "\<exists>s1 s2. enqueue thr_a two_threads = Some s1 \<and> enqueue thr_a s1 = Some s2 \<and>
     queues_inv s1 ((\<lambda>_. [])(RunQ 0 := [thr_a])) \<and> queues_inv s2 ((\<lambda>_. [])(RunQ 0 := [thr_a]))"
  using enqueue_appends_once [OF two_threads_inv thr_addr_ok(1)] by simp

text \<open>
  A running thread with \<open>k\<close> ticks left keeps the CPU for exactly \<open>k\<close> timer ticks: no
  rotation is requested by the first \<open>k - 1\<close> of them, and the \<open>k\<close>-th one requests it and refills
  the slice.
\<close>

theorem time_slice_expires_after_its_ticks:
  assumes "\<not> is_idle_thread s t" "tcb_state (tcbs s t) = Running"
    and "unat (tcb_time_slice (tcbs s t)) = Suc k"
  shows "(\<forall>j \<le> k. resched ((timer_tick t ^^ j) s) = resched s) \<and>
    resched ((timer_tick t ^^ Suc k) s) (current_core_id s) \<and>
    tcb_time_slice (tcbs ((timer_tick t ^^ Suc k) s) t) = DEFAULT_TIME_SLICE"
proof -
  let ?s = "(timer_tick t ^^ k) s"
  have before: "resched ((timer_tick t ^^ j) s) = resched s" if "j \<le> k" for j
    using timer_ticks_before_expiry [OF assms, of j] that by simp
  have k: "unat (tcb_time_slice (tcbs ?s t)) = 1" "\<not> is_idle_thread ?s t"
    "tcb_state (tcbs ?s t) = Running" "current_core_id ?s = current_core_id s"
    using timer_ticks_before_expiry [OF assms, of k] by auto
  have "(timer_tick t ^^ Suc k) s =
      request_reschedule (upd_tcb t (\<lambda>x. x\<lparr> tcb_time_slice := DEFAULT_TIME_SLICE \<rparr>) ?s)"
    using timer_tick_running [OF k(2,3)] k(1) by (simp add: word8_less)
  then show ?thesis using before k(4) by (simp add: request_reschedule_def)
qed

theorem time_slice_expires_after_its_ticks_witness:
  "resched ((timer_tick thr_a ^^ 4) two_threads) 0 = False \<and>
   resched ((timer_tick thr_a ^^ 5) two_threads) 0 = True"
proof -
  have "unat (tcb_time_slice (tcbs two_threads thr_a)) = Suc 4" "tcb_state (tcbs two_threads thr_a) = Running"
    "\<not> resched two_threads 0"
    by (simp_all add: two_threads_def set_state_def tcb_zero_def DEFAULT_TIME_SLICE_def TIME_SLICE_TICKS_def
        empty_kstate_def upd_tcb_def)
  then show ?thesis
    using time_slice_expires_after_its_ticks [of two_threads thr_a 4] by (auto simp: eval_nat_numeral)
qed

text \<open>
  Moving a ready thread to another core takes it off the queue it was on and puts it at the
  tail of the new home core's queue, whatever the requested affinity (an affinity without a core
  means core 0), and keeps the queue invariant.
\<close>

theorem set_affinity_moves_ready_thread:
  assumes "queues_inv s qs" "tcb_addr_ok t"
    and "\<And>i. t \<in> set (qs i) \<Longrightarrow> \<exists>c < MAX_NUM_NODES s. i = RunQ c"
    and "\<not> is_idle_thread s t" "is_runnable s t" "current_core_of_tcb t s = None"
  shows "\<exists>s'. set_affinity t a s = Some s' \<and> tcb_affinity (tcbs s' t) = a \<and>
    queues_inv s' ((dequeued s t qs)(RunQ (core_for_affinity s a) :=
      dequeued s t qs (RunQ (core_for_affinity s a)) @ [t]))"
  by (rule set_affinity_spec) (use assms in auto)

theorem set_affinity_moves_ready_thread_witness:
  "\<exists>s'. set_affinity thr_a 3 two_threads = Some s' \<and> tcb_affinity (tcbs s' thr_a) = 3 \<and>
     queues_inv s' ((\<lambda>_. [])(RunQ 0 := [thr_a]))"
proof -
  have none: "current_core_of_tcb thr_a two_threads = None"
    by (simp add: current_core_of_tcb_def two_threads_def set_state_def MAX_BOOT_CPUS_def thr_a_def upd_tcb_def)
  have d: "dequeued two_threads thr_a (\<lambda>_. []) = (\<lambda>_. [])"
    by (auto simp: dequeued_def fun_eq_iff split: qid.split)
  have c: "core_for_affinity two_threads 3 = 0" by (simp add: core_for_affinity_def)
  show ?thesis
    using set_affinity_moves_ready_thread [OF two_threads_inv thr_addr_ok(1) _ _ _ none, of 3]
    by (simp add: d c)
qed

end
