(* ===== verification/Rel4_Wait.thy ===== *)
theory Rel4_Wait
  imports Rel4_Sched
begin

text \<open>
  Emptying a wait queue. Endpoints and notifications are both finalized by the same loop: detach
  the list, then release the waiters one after the other, following the links of each before they
  are cleared. The locale \<open>wait_drain\<close> states what the loop needs of the release step and proves
  that it ends, that it wakes exactly the waiters it should, in order, and that the queue
  invariant holds again afterwards.
\<close>

section \<open>Waking a list of threads\<close>

definition woken :: "kstate \<Rightarrow> u64 list \<Rightarrow> (qid \<Rightarrow> u64 list) \<Rightarrow> qid \<Rightarrow> u64 list" where
  "woken s ws qs = (\<lambda>i. case i of
     RunQ c \<Rightarrow> qs i @ filter (\<lambda>w. home_core s w = c \<and> is_runnable s w \<and> \<not> is_idle_thread s w) ws
   | _ \<Rightarrow> qs i)"

lemma woken_Nil [simp]: "woken s [] qs = qs"
  by (auto simp: woken_def fun_eq_iff split: qid.split)

lemma woken_Cons:
  "(\<And>i. w \<notin> set (qs i)) \<Longrightarrow> woken s (w # ws) qs = woken s ws (enqueued s w qs)"
  by (auto simp: woken_def enqueued_def Let_def fun_eq_iff split: qid.split)

lemma woken_stopped:
  "\<not> is_runnable s w \<Longrightarrow> woken s (w # ws) qs = woken s ws qs"
  by (auto simp: woken_def fun_eq_iff split: qid.split)

lemma woken_other [simp]: "woken s ws qs (EpQ e) = qs (EpQ e)" "woken s ws qs (NtfnQ n) = qs (NtfnQ n)"
  by (simp_all add: woken_def)

lemma woken_cong:
  assumes "\<And>w. w \<in> set ws \<Longrightarrow> tcbs s' w = tcbs s w" "MAX_NUM_NODES s' = MAX_NUM_NODES s"
    "idle_tcbs s' = idle_tcbs s"
  shows "woken s' ws qs = woken s ws qs"
proof -
  have "(home_core s' w = c \<and> is_runnable s' w \<and> \<not> is_idle_thread s' w) =
        (home_core s w = c \<and> is_runnable s w \<and> \<not> is_idle_thread s w)" if "w \<in> set ws" for w c
    using assms(1) [OF that] is_idle_thread_cong [OF assms(2,3)]
    by (simp add: home_core_def core_for_affinity_def is_runnable_def assms(2))
  then have "filter (\<lambda>w. home_core s' w = c \<and> is_runnable s' w \<and> \<not> is_idle_thread s' w) ws =
        filter (\<lambda>w. home_core s w = c \<and> is_runnable s w \<and> \<not> is_idle_thread s w) ws" for c
    by (simp cong: filter_cong)
  then show ?thesis by (auto simp: woken_def fun_eq_iff split: qid.split)
qed

lemma enqueued_cong:
  assumes "tcbs s' t = tcbs s t" "MAX_NUM_NODES s' = MAX_NUM_NODES s" "idle_tcbs s' = idle_tcbs s"
  shows "enqueued s' t qs = enqueued s t qs"
  using is_idle_thread_cong [OF assms(2,3)]
  by (simp add: enqueued_def home_core_def core_for_affinity_def is_runnable_def assms(1,2))

section \<open>Threads and queues are all that changes\<close>

definition only_threads_changed :: "kstate \<Rightarrow> kstate \<Rightarrow> bool" where
  "only_threads_changed s s' \<longleftrightarrow>
     (\<exists>tc rq lk ev. s' = s\<lparr> tcbs := tc, runqueues := rq, tlinks := lk, events := ev \<rparr>)"

lemma only_threads_changedI:
  "s' = s\<lparr> tcbs := tc, runqueues := rq, tlinks := lk, events := ev \<rparr> \<Longrightarrow> only_threads_changed s s'"
  unfolding only_threads_changed_def by blast

lemma only_threads_changedD:
  assumes "only_threads_changed s s'"
  shows "eps s' = eps s" "ntfns s' = ntfns s" "ctes s' = ctes s" "mem s' = mem s"
    "MAX_NUM_NODES s' = MAX_NUM_NODES s" "current_core_id s' = current_core_id s"
    "idle_tcbs s' = idle_tcbs s" "cpu_current s' = cpu_current s" "resched s' = resched s"
  using assms by (auto simp: only_threads_changed_def)

lemma only_threads_changed_trans:
  assumes "only_threads_changed s s'" "only_threads_changed s' s''"
  shows "only_threads_changed s s''"
  using assms unfolding only_threads_changed_def by force

lemma only_threads_changed_queues: "only_queues_changed s s' \<Longrightarrow> only_threads_changed s s'"
proof -
  assume "only_queues_changed s s'"
  then obtain rq lk ev where "s' = s\<lparr> tcbs := tcbs s, runqueues := rq, tlinks := lk, events := ev \<rparr>"
    by (auto simp: only_queues_changed_def)
  then show ?thesis by (rule only_threads_changedI)
qed

lemma only_threads_changed_refl [simp]: "only_threads_changed s s"
  by (rule only_threads_changed_queues) simp

lemma only_threads_changed_upds [simp]:
  "only_threads_changed s (upd_tcb t f s)" "only_threads_changed s (upd_links l s)"
proof -
  have "upd_tcb t f s = s\<lparr> tcbs := (tcbs s)(t := f (tcbs s t)), runqueues := runqueues s,
      tlinks := tlinks s, events := events s \<rparr>" by (simp add: upd_tcb_def)
  then show "only_threads_changed s (upd_tcb t f s)" by (rule only_threads_changedI)
  have "upd_links l s = s\<lparr> tcbs := tcbs s, runqueues := runqueues s, tlinks := l (tlinks s),
      events := events s \<rparr>" by (simp add: upd_links_def)
  then show "only_threads_changed s (upd_links l s)" by (rule only_threads_changedI)
qed

section \<open>Waiters and the objects they wait on\<close>

text \<open>
  An endpoint is idle exactly when nobody waits on it, and whoever is on its queue is blocked
  on it in the direction its state says. A notification is in the waiting state exactly when its
  queue is not empty, and whoever is on its queue is blocked on it. Ready queues exist only for
  configured cores.
\<close>

definition ep_ok :: "kstate \<Rightarrow> u64 list \<Rightarrow> u64 \<Rightarrow> bool" where
  "ep_ok s xs e \<longleftrightarrow>
     (ep_state_of (eps s e) = EpIdle \<longleftrightarrow> xs = []) \<and>
     (\<forall>t\<in>set xs. waits_on_endpoint s t e (ep_state_of (eps s e) = EpSending))"

definition ntfn_ok :: "kstate \<Rightarrow> u64 list \<Rightarrow> u64 \<Rightarrow> bool" where
  "ntfn_ok s xs n \<longleftrightarrow>
     (ntfn_state_of (ntfns s n) = NtfnWaiting \<longleftrightarrow> xs \<noteq> []) \<and>
     (\<forall>t\<in>set xs. waits_on_notification s t n)"

definition wait_inv :: "kstate \<Rightarrow> (qid \<Rightarrow> u64 list) \<Rightarrow> bool" where
  "wait_inv s qs \<longleftrightarrow> queues_inv s qs \<and> (\<forall>e. ep_ok s (qs (EpQ e)) e) \<and> (\<forall>n. ntfn_ok s (qs (NtfnQ n)) n) \<and>
     (\<forall>c. MAX_NUM_NODES s \<le> c \<longrightarrow> qs (RunQ c) = [])"

lemma wait_invD:
  assumes "wait_inv s qs"
  shows "queues_inv s qs" "ep_ok s (qs (EpQ e)) e" "ntfn_ok s (qs (NtfnQ n)) n"
    "MAX_NUM_NODES s \<le> c \<Longrightarrow> qs (RunQ c) = []"
  using assms by (simp_all add: wait_inv_def)

lemma ep_ok_frame:
  assumes "ep_ok s xs e" "ep_state_of (eps s' e) = ep_state_of (eps s e)"
    "\<And>t. t \<in> set xs \<Longrightarrow> tcb_state (tcbs s' t) = tcb_state (tcbs s t) \<and>
       tcb_waiting_on (tcbs s' t) = tcb_waiting_on (tcbs s t)"
  shows "ep_ok s' xs e"
  using assms by (simp add: ep_ok_def waits_on_endpoint_def)

lemma ntfn_ok_frame:
  assumes "ntfn_ok s xs n" "(ntfn_state_of (ntfns s' n) = NtfnWaiting) = (ntfn_state_of (ntfns s n) = NtfnWaiting)"
    "\<And>t. t \<in> set xs \<Longrightarrow> tcb_state (tcbs s' t) = tcb_state (tcbs s t) \<and>
       tcb_waiting_on (tcbs s' t) = tcb_waiting_on (tcbs s t)"
  shows "ntfn_ok s' xs n"
  using assms by (simp add: ntfn_ok_def waits_on_notification_def)

lemma home_core_lt: "0 < MAX_NUM_NODES s \<Longrightarrow> home_core s t < MAX_NUM_NODES s"
  by (simp add: home_core_def core_for_affinity_def Let_def)

text \<open>
  How an operation on threads not on any other queue carries the invariant: the queues are right,
  the objects other than those in \<open>E\<close> and \<open>N\<close> are untouched, and the threads in \<open>T\<close> are the only ones
  whose state changes.
\<close>

lemma wait_inv_step:
  assumes inv: "wait_inv s qs" and q: "queues_inv s' qs'"
    and eps: "\<And>e. e \<notin> E \<Longrightarrow> eps s' e = eps s e \<and> set (qs' (EpQ e)) = set (qs (EpQ e))"
    and ntfns: "\<And>n. n \<notin> N \<Longrightarrow> (ntfn_state_of (ntfns s' n) = NtfnWaiting) = (ntfn_state_of (ntfns s n) = NtfnWaiting) \<and>
        set (qs' (NtfnQ n)) = set (qs (NtfnQ n))"
    and threads: "\<And>t. t \<notin> T \<Longrightarrow> tcbs s' t = tcbs s t"
    and T: "\<And>t e. t \<in> T \<Longrightarrow> e \<notin> E \<Longrightarrow> t \<notin> set (qs (EpQ e))" "\<And>t n. t \<in> T \<Longrightarrow> n \<notin> N \<Longrightarrow> t \<notin> set (qs (NtfnQ n))"
    and E: "\<And>e. e \<in> E \<Longrightarrow> ep_ok s' (qs' (EpQ e)) e" and N: "\<And>n. n \<in> N \<Longrightarrow> ntfn_ok s' (qs' (NtfnQ n)) n"
    and R: "\<And>c. MAX_NUM_NODES s' \<le> c \<Longrightarrow> qs' (RunQ c) = []"
  shows "wait_inv s' qs'"
proof -
  have "ep_ok s' (qs' (EpQ e)) e" if "e \<notin> E" for e
  proof -
    have "ep_ok s' (qs (EpQ e)) e"
      by (rule ep_ok_frame [OF wait_invD(2) [OF inv]]) (use eps that threads T(1) in metis)+
    then show ?thesis using eps [OF that] by (simp add: ep_ok_def set_empty [symmetric] del: set_empty)
  qed
  moreover have "ntfn_ok s' (qs' (NtfnQ n)) n" if "n \<notin> N" for n
  proof -
    have "ntfn_ok s' (qs (NtfnQ n)) n"
      by (rule ntfn_ok_frame [OF wait_invD(3) [OF inv]]) (use ntfns that threads T(2) in metis)+
    then show ?thesis using ntfns [OF that] by (simp add: ntfn_ok_def set_empty [symmetric] del: set_empty)
  qed
  ultimately show ?thesis using q R E N unfolding wait_inv_def by blast
qed

text \<open>A thread that is on no wait queue may change in any way.\<close>

lemma wait_inv_upd_tcb:
  assumes inv: "wait_inv s qs" and t: "\<And>e. t \<notin> set (qs (EpQ e))" "\<And>n. t \<notin> set (qs (NtfnQ n))"
  shows "wait_inv (upd_tcb t f s) qs"
  by (rule wait_inv_step [OF inv queues_inv_upds(1) [OF wait_invD(1) [OF inv]],
        where E = "{}" and N = "{}" and T = "{t}"])
    (use t wait_invD(4) [OF inv] in auto)

text \<open>A notification may change as long as its queue and whether it is waited for do not.\<close>

lemma wait_inv_upd_ntfn:
  assumes inv: "wait_inv s qs"
    and f: "ntfn_head (f (ntfns s n)) = ntfn_head (ntfns s n)" "ntfn_tail (f (ntfns s n)) = ntfn_tail (ntfns s n)"
      "(ntfn_state_of (f (ntfns s n)) = NtfnWaiting) = (ntfn_state_of (ntfns s n) = NtfnWaiting)"
  shows "wait_inv (upd_ntfn n f s) qs"
proof -
  have "queues_inv (upd_ntfn n f s) qs" by (rule queues_inv_upd_ntfn) (use f wait_invD(1) [OF inv] in auto)
  then show ?thesis
    by (rule wait_inv_step [OF inv, where E = "{}" and N = "{}" and T = "{}"])
      (use f(3) wait_invD(4) [OF inv] in auto)
qed

lemma wait_inv_log [simp]: "wait_inv (log_event ev s) qs = wait_inv s qs"
proof -
  have "queues_inv (log_event ev s) qs = queues_inv s qs"
    using queues_inv_same [of "{}" s qs "log_event ev s"] queues_inv_same [of "{}" "log_event ev s" qs s] by auto
  then show ?thesis by (simp add: wait_inv_def ep_ok_def ntfn_ok_def waits_on_endpoint_def waits_on_notification_def)
qed

text \<open>
  A thread that is on no queue is made ready: what \<open>enqueue\<close> does for the invariant when the rest
  of the state is already as it should be.
\<close>

lemma wait_inv_enqueue:
  assumes inv: "wait_inv s qs" and t: "tcb_addr_ok t" "\<And>i. t \<notin> set (qs i)" and cfg: "0 < MAX_NUM_NODES s"
  shows "\<exists>s'. enqueue t s = Some s' \<and> wait_inv s' (woken s' [t] qs) \<and> only_queues_changed s s'"
proof -
  obtain s' where s': "enqueue t s = Some s'" "queues_inv s' (enqueued s t qs)" "only_queues_changed s s'"
    using enqueue_spec [OF wait_invD(1) [OF inv] t(1)] t(2) by auto
  note same = only_queues_changedD [OF s'(3)]
  have eq: "enqueued s t qs = woken s' [t] qs"
    using woken_Cons [OF t(2), of s "[]"] woken_cong [of "[t]" s' s qs] same by simp
  have "wait_inv s' (woken s' [t] qs)"
  proof (rule wait_inv_step [OF inv, where E = "{}" and N = "{}" and T = "{}"])
    show "queues_inv s' (woken s' [t] qs)" using s'(2) eq by simp
    show "woken s' [t] qs (RunQ c) = []" if "MAX_NUM_NODES s' \<le> c" for c
      using that wait_invD(4) [OF inv, of c] home_core_lt [of s' t] cfg by (auto simp: woken_def same)
  qed (simp_all add: same)
  then show ?thesis using s' by blast
qed

text \<open>Taking a thread off the ready queues.\<close>

lemma wait_inv_dequeue:
  assumes inv: "wait_inv s qs"
  shows "\<exists>s'. dequeue t s = Some s' \<and> wait_inv s' (dequeued s t qs) \<and> only_queues_changed s s'"
proof -
  obtain s' where s': "dequeue t s = Some s'" "queues_inv s' (dequeued s t qs)" "only_queues_changed s s'"
    using dequeue_spec [OF wait_invD(1) [OF inv]] by blast
  note same = only_queues_changedD [OF s'(3)]
  have "wait_inv s' (dequeued s t qs)"
    by (rule wait_inv_step [OF inv s'(2), where E = "{}" and N = "{}" and T = "{}"])
      (use wait_invD(4) [OF inv] in \<open>auto simp: same dequeued_def\<close>)
  then show ?thesis using s' by blast
qed

lemma wait_inv_empty: "wait_inv (empty_kstate n c) (\<lambda>_. [])"
  using queues_inv_empty
  by (simp add: wait_inv_def ep_ok_def ntfn_ok_def ep_state_of_def ntfn_state_of_def endpoint_zero_def
      notification_new_def)

section \<open>Releasing waiters\<close>

text \<open>
  \<open>release\<close> answers the next waiter and whether the released one may run; \<open>after\<close> is what it makes
  of the thread, \<open>wakes\<close> when it lets it run, \<open>waiting\<close> what holds of a thread on the queue.
\<close>

definition release_and_enqueue ::
  "(u64 \<Rightarrow> kstate \<Rightarrow> (u64 option \<times> bool) \<times> kstate) \<Rightarrow> u64 \<Rightarrow> kstate \<Rightarrow> (u64 option \<times> kstate) option" where
  "release_and_enqueue release w s =
     (let ((following, runnable), s1) = release w s in do {
        s2 \<leftarrow> (if runnable then enqueue w s1 else Some s1);
        Some (following, s2)
      })"

locale wait_release =
  fixes release :: "u64 \<Rightarrow> kstate \<Rightarrow> (u64 option \<times> bool) \<times> kstate"
    and after :: "tcb \<Rightarrow> tcb" and wakes :: "tcb \<Rightarrow> bool" and waiting :: "tcb \<Rightarrow> bool"
  assumes release_eq: "release w s =
      ((next_of (tlinks s) w, wakes (tcbs s w)), upd_tcb w after (upd_links (clear_links w) s))"
    and wakes_runnable: "waiting x \<Longrightarrow> wakes x \<longleftrightarrow> ts_is_runnable (tcb_state (after x))"
begin

lemma release_step:
  assumes inv: "queues_inv_mod (set (w # ws)) s qs" and "distinct (w # ws)" "tcb_addr_ok w" "waiting (tcbs s w)"
  shows "\<exists>s1. release_and_enqueue release w s = Some (next_of (tlinks s) w, s1) \<and>
    queues_inv_mod (set ws) s1 (enqueued s1 w qs) \<and> only_threads_changed s s1 \<and>
    tcbs s1 = (tcbs s)(w := after (tcbs s w)) \<and> (\<forall>x\<in>set ws. tlinks s1 x = tlinks s x)"
proof -
  let ?s0 = "upd_tcb w after (upd_links (clear_links w) s)"
  have free: "w \<notin> set (qs i)" for i using queues_invD(6) [OF inv, of w i] by auto
  have "set (w # ws) - {w} = set ws" using assms(2) by auto
  then have inv0: "queues_inv_mod (set ws) ?s0 qs"
    using queues_inv_upds(1) [OF queues_inv_clear [OF inv free]] by metis
  have links0: "\<forall>x\<in>set ws. tlinks ?s0 x = tlinks s x"
    using assms(2) by (auto simp: clear_links_def set_links_def)
  have ch0: "only_threads_changed s ?s0"
    by (rule only_threads_changed_trans [OF only_threads_changed_upds(2) only_threads_changed_upds(1)])
  show ?thesis
  proof (cases "wakes (tcbs s w)")
    case True
    obtain s1 where s1: "enqueue w ?s0 = Some s1" "queues_inv_mod (set ws) s1 (enqueued ?s0 w qs)"
      "only_queues_changed ?s0 s1" "\<forall>x\<in>set ws. tlinks s1 x = tlinks ?s0 x"
      using enqueue_spec [OF inv0 assms(3)] assms(2) free by auto
    note same = only_queues_changedD [OF s1(3)]
    have "enqueued ?s0 w qs = enqueued s1 w qs" by (rule enqueued_cong) (simp_all only: same)
    moreover have "release_and_enqueue release w s = Some (next_of (tlinks s) w, s1)"
      using True s1(1) by (simp add: release_and_enqueue_def release_eq)
    moreover have "only_threads_changed s s1"
      by (rule only_threads_changed_trans [OF ch0 only_threads_changed_queues [OF s1(3)]])
    ultimately show ?thesis using s1(2,4) links0 same(1) by (intro exI [of _ s1]) simp
  next
    case False
    then have "enqueued ?s0 w qs = qs"
      using wakes_runnable [OF assms(4)] by (simp add: enqueued_def is_runnable_def)
    moreover have "release_and_enqueue release w s = Some (next_of (tlinks s) w, ?s0)"
      using False by (simp add: release_and_enqueue_def release_eq)
    ultimately show ?thesis using inv0 links0 ch0 by (intro exI [of _ ?s0]) simp
  qed
qed

text \<open>Putting the steps of a loop over the waiters together.\<close>

lemma woken_step:
  assumes "queues_inv_mod (set (w # ws)) s qs" "distinct (w # ws)"
    and "tcbs s1 = (tcbs s)(w := after (tcbs s w))" "only_threads_changed s s1" "only_threads_changed s1 s'"
    and "\<forall>t. tcbs s' t = (if t \<in> set ws then after (tcbs s1 t) else tcbs s1 t)"
  shows "woken s' ws (enqueued s1 w qs) = woken s' (w # ws) qs"
    and "\<forall>t. tcbs s' t = (if t \<in> set (w # ws) then after (tcbs s t) else tcbs s t)"
    and "only_threads_changed s s'"
proof -
  have free: "w \<notin> set (qs i)" for i using queues_invD(6) [OF assms(1), of w i] by auto
  have "enqueued s1 w qs = enqueued s' w qs"
    by (rule enqueued_cong) (use assms(2,6) only_threads_changedD [OF assms(5)] in auto)
  then show "woken s' ws (enqueued s1 w qs) = woken s' (w # ws) qs" using woken_Cons [OF free] by simp
  show "\<forall>t. tcbs s' t = (if t \<in> set (w # ws) then after (tcbs s t) else tcbs s t)"
    using assms(2,3,6) by auto
  show "only_threads_changed s s'" by (rule only_threads_changed_trans [OF assms(4,5)])
qed

end

text \<open>\<open>drain\<close> is the loop that follows the links of the detached list.\<close>

locale wait_drain = wait_release +
  fixes drain :: "u64 option \<Rightarrow> kstate \<Rightarrow> kstate option"
  assumes drain_None: "drain None s = Some s"
    and drain_Some: "drain (Some w) s =
      Option.bind (release_and_enqueue release w s) (\<lambda>(following, s1). drain following s1)"
begin

lemma drain_spec:
  assumes "queues_inv_mod (set ws) s qs" "distinct ws" "\<forall>w\<in>set ws. tcb_addr_ok w \<and> waiting (tcbs s w)"
    "dll (tlinks s) p ws None"
  shows "\<exists>s'. drain (first_or ws None) s = Some s' \<and> queues_inv s' (woken s' ws qs) \<and>
    only_threads_changed s s' \<and> (\<forall>t. tcbs s' t = (if t \<in> set ws then after (tcbs s t) else tcbs s t))"
  using assms
proof (induction ws arbitrary: s qs p)
  case Nil
  then show ?case by (simp add: drain_None)
next
  case (Cons w ws)
  obtain s1 where s1: "release_and_enqueue release w s = Some (next_of (tlinks s) w, s1)"
    "queues_inv_mod (set ws) s1 (enqueued s1 w qs)" "only_threads_changed s s1"
    "tcbs s1 = (tcbs s)(w := after (tcbs s w))" "\<forall>x\<in>set ws. tlinks s1 x = tlinks s x"
    using release_step [OF Cons.prems(1,2)] Cons.prems(3) by auto
  have nxt: "next_of (tlinks s) w = first_or ws None" using Cons.prems(4) by (simp add: next_of_def)
  have "dll (tlinks s1) (Some w) ws None" using Cons.prems(4) dll_frame [OF s1(5)] by simp
  moreover have "\<forall>x\<in>set ws. tcb_addr_ok x \<and> waiting (tcbs s1 x)" using Cons.prems(2,3) s1(4) by auto
  ultimately obtain s' where s': "drain (first_or ws None) s1 = Some s'"
    "queues_inv s' (woken s' ws (enqueued s1 w qs))" "only_threads_changed s1 s'"
    "\<forall>t. tcbs s' t = (if t \<in> set ws then after (tcbs s1 t) else tcbs s1 t)"
    using Cons.IH [OF s1(2)] Cons.prems(2) by (meson distinct.simps(2))
  show ?case
    using s1(1) s'(1,2) nxt woken_step [OF Cons.prems(1,2) s1(4,3) s'(3,4)]
    by (intro exI [of _ s']) (simp add: drain_Some)
qed

end

end
