(* ===== verification/Rel4_Endpoint.thy ===== *)
theory Rel4_Endpoint
  imports Rel4_Wait
begin

text \<open>
  Operations on endpoints (\<^verbatim>\<open>object/endpoint.rs\<close>): the wait queue in its two flavours, cancelling
  the senders with a given badge, and finalization. The lemmas give the effect of each on the
  list of waiters.
\<close>

section \<open>Operations\<close>

definition ep_q :: "kstate \<Rightarrow> u64 \<Rightarrow> endpoint \<times> links_heap" where
  "ep_q s ep = (eps s ep, tlinks s)"

definition set_ep_q :: "u64 \<Rightarrow> endpoint \<times> links_heap \<Rightarrow> kstate \<Rightarrow> kstate" where
  "set_ep_q ep q s = s\<lparr> eps := (eps s)(ep := fst q), tlinks := snd q \<rparr>"

definition ep_init :: "u64 \<Rightarrow> kstate \<Rightarrow> kstate" where
  "ep_init ep_kva s = upd_ep ep_kva ep_clear s"

definition ep_state :: "kstate \<Rightarrow> u64 \<Rightarrow> ep_state" where
  "ep_state s ep = ep_state_of (eps s ep)"

definition ep_head_of :: "kstate \<Rightarrow> u64 \<Rightarrow> u64 option" where
  "ep_head_of s ep = ep_head (eps s ep)"

definition ep_enqueue_waiter :: "u64 \<Rightarrow> u64 \<Rightarrow> ep_state \<Rightarrow> kstate \<Rightarrow> kstate" where
  "ep_enqueue_waiter ep tcb state s =
     (let s1 = upd_ep ep (ep_set_state state) s
      in set_ep_q ep (push_back queue_ends_of_endpoint tcb (ep_q s1 ep)) s1)"

definition ep_pop_head :: "u64 \<Rightarrow> kstate \<Rightarrow> u64 option \<times> kstate" where
  "ep_pop_head ep s =
     (let (popped, q) = pop_front queue_ends_of_endpoint (ep_q s ep);
          s1 = set_ep_q ep q s
      in (popped, upd_ep ep (\<lambda>x. if ep_head x = None then ep_clear x else x) s1))"

definition pop_waiter_if_state :: "u64 \<Rightarrow> ep_state \<Rightarrow> kstate \<Rightarrow> u64 option \<times> kstate" where
  "pop_waiter_if_state ep state s =
     (if ep_state s ep \<noteq> state then (None, s) else ep_pop_head ep s)"

definition pop_sender :: "u64 \<Rightarrow> kstate \<Rightarrow> u64 option \<times> kstate" where
  "pop_sender ep s = pop_waiter_if_state ep EpSending s"

definition pop_receiver :: "u64 \<Rightarrow> kstate \<Rightarrow> u64 option \<times> kstate" where
  "pop_receiver ep s = pop_waiter_if_state ep EpReceiving s"

definition ep_remove_waiter :: "u64 \<Rightarrow> u64 \<Rightarrow> kstate \<Rightarrow> kstate option" where
  "ep_remove_waiter ep tcb s = do {
     present \<leftarrow> contains queue_ends_of_endpoint tcb (ep_q s ep);
     if \<not> present then Some s
     else
       let s1 = set_ep_q ep (remove queue_ends_of_endpoint tcb (ep_q s ep)) s
       in Some (upd_ep ep (\<lambda>x. if ep_head x = None then ep_clear x else x) s1)
   }"

definition ep_contains_waiter :: "u64 \<Rightarrow> u64 \<Rightarrow> kstate \<Rightarrow> bool option" where
  "ep_contains_waiter ep tcb s = contains queue_ends_of_endpoint tcb (ep_q s ep)"

definition ep_reorder_waiter :: "u64 \<Rightarrow> u64 \<Rightarrow> kstate \<Rightarrow> kstate option" where
  "ep_reorder_waiter ep tcb s =
     (let state = ep_state s ep in
      if state = EpIdle then Some s
      else do {
        present \<leftarrow> ep_contains_waiter ep tcb s;
        if \<not> present then Some s
        else if \<not> waits_on_endpoint s tcb ep (state = EpSending) then Some s
        else do {
          s1 \<leftarrow> ep_remove_waiter ep tcb s;
          Some (ep_enqueue_waiter ep tcb state s1)
        }
      })"

definition ep_take_all :: "u64 \<Rightarrow> kstate \<Rightarrow> u64 option \<times> kstate" where
  "ep_take_all ep s = (ep_head (eps s ep), upd_ep ep ep_clear s)"

text \<open>
  The first loop of \<^verbatim>\<open>cancel_badged_sends\<close>: it sorts the detached waiters into two local queues,
  which use the same links.
\<close>

partial_function (option) split_badged ::
  "u64 \<Rightarrow> u64 option \<Rightarrow> queue \<Rightarrow> queue \<Rightarrow> kstate \<Rightarrow> (queue \<times> queue \<times> kstate) option" where
  "split_badged badge nxt keep wake s = (case nxt of
     None \<Rightarrow> Some (keep, wake, s)
   | Some waiter \<Rightarrow>
       let following = next_of (tlinks s) waiter;
           s1 = upd_links (clear_links waiter) s
       in if tcb_sender_badge (tcbs s1 waiter) = badge
          then let (wake1, lh) = push_back queue_ends_of_queue waiter (wake, tlinks s1)
               in split_badged badge following keep wake1 (upd_links (\<lambda>_. lh) s1)
          else let (keep1, lh) = push_back queue_ends_of_queue waiter (keep, tlinks s1)
               in split_badged badge following keep1 wake (upd_links (\<lambda>_. lh) s1))"

partial_function (option) wake_cancelled :: "queue \<Rightarrow> kstate \<Rightarrow> kstate option" where
  "wake_cancelled wake s =
     (let (popped, wake1, lh) = pop_front queue_ends_of_queue (wake, tlinks s);
          s1 = upd_links (\<lambda>_. lh) s
      in case popped of
           None \<Rightarrow> Some s1
         | Some waiter \<Rightarrow>
             let ((_, runnable), s2) = cancel_endpoint_waiter waiter None s1
             in Option.bind (if runnable then enqueue waiter s2 else Some s2) (wake_cancelled wake1))"

definition keep_waiters :: "u64 \<Rightarrow> queue \<Rightarrow> kstate \<Rightarrow> kstate" where
  "keep_waiters ep keep s = (case queue_head keep of
     Some h \<Rightarrow> upd_ep ep (\<lambda>x. qe_set_tail queue_ends_of_endpoint (queue_tail keep)
                  (qe_set_head queue_ends_of_endpoint (Some h) (ep_set_state EpSending x))) s
   | None \<Rightarrow> s)"

definition cancel_badged_sends :: "u64 \<Rightarrow> u64 \<Rightarrow> kstate \<Rightarrow> kstate option" where
  "cancel_badged_sends ep badge s =
     (if ep_state s ep \<noteq> EpSending then Some s
      else
        let (head, s1) = ep_take_all ep s in do {
          (keep, wake, s2) \<leftarrow> split_badged badge head queue_new queue_new s1;
          wake_cancelled wake (keep_waiters ep keep s2)
        })"

partial_function (option) ep_drain :: "u64 option \<Rightarrow> kstate \<Rightarrow> kstate option" where
  "ep_drain nxt s = (case nxt of
     None \<Rightarrow> Some s
   | Some waiter \<Rightarrow>
       let ((following, runnable), s1) = cancel_endpoint_waiter waiter None s
       in Option.bind (if runnable then enqueue waiter s1 else Some s1) (ep_drain following))"

definition ep_finalize :: "u64 \<Rightarrow> kstate \<Rightarrow> kstate option" where
  "ep_finalize ep s = (let (head, s1) = ep_take_all ep s in ep_drain head s1)"

section \<open>Effect on the wait queue\<close>

lemma set_ep_q_sel [simp, st_simps]:
  "eps (set_ep_q e q s) = (eps s)(e := fst q)" "tlinks (set_ep_q e q s) = snd q"
  "tcbs (set_ep_q e q s) = tcbs s" "runqueues (set_ep_q e q s) = runqueues s"
  "ntfns (set_ep_q e q s) = ntfns s" "ctes (set_ep_q e q s) = ctes s"
  "MAX_NUM_NODES (set_ep_q e q s) = MAX_NUM_NODES s" "idle_tcbs (set_ep_q e q s) = idle_tcbs s"
  "cpu_current (set_ep_q e q s) = cpu_current s" "mem (set_ep_q e q s) = mem s"
  "current_core_id (set_ep_q e q s) = current_core_id s" "resched (set_ep_q e q s) = resched s"
  by (simp_all add: set_ep_q_def)

interpretation epq: kernel_queue queue_ends_of_endpoint EpQ ep_q set_ep_q
proof unfold_locales
  show "qends (set_ep_q e q s) j = qends s j" if "j \<noteq> EpQ e" for j e q s
    using that by (cases j) auto
qed (simp_all add: ep_q_def)

text \<open>Queue operations do not touch the state bits next to the head pointer.\<close>

lemma ep_state_of_queue_ops [obj_simps]:
  "ep_state_of (fst (push_back queue_ends_of_endpoint t q)) = ep_state_of (fst q)"
  "ep_state_of (fst (snd (pop_front queue_ends_of_endpoint q))) = ep_state_of (fst q)"
  "ep_state_of (fst (remove queue_ends_of_endpoint t q)) = ep_state_of (fst q)"
  by (simp_all add: push_back_def pop_front_def remove_def Let_def obj_simps split: prod.splits option.splits)

lemma queues_inv_ep_same_ends:
  assumes "queues_inv_mod W s qs" "ep_head (f (eps s e)) = ep_head (eps s e)"
    "ep_tail (f (eps s e)) = ep_tail (eps s e)"
  shows "queues_inv_mod W (upd_ep e f s) qs"
  by (rule queues_inv_frame [OF assms(1)]) (auto simp: qends_def assms split: qid.split)

lemma queues_inv_ep_clear_empty:
  assumes "queues_inv_mod W s qs"
  shows "queues_inv_mod W (upd_ep e (\<lambda>x. if ep_head x = None then ep_clear x else x) s) qs"
proof (rule queues_inv_ep_same_ends [OF assms])
  have "ep_head (eps s e) = None \<Longrightarrow> ep_tail (eps s e) = None"
    using epq.head_result [OF assms, of e] epq.tail_result [OF assms, of e]
    by (cases "qs (EpQ e)") (auto simp: ep_q_def)
  then show "ep_tail (if ep_head (eps s e) = None then ep_clear (eps s e) else eps s e) = ep_tail (eps s e)"
    by (simp add: obj_simps)
qed (simp add: obj_simps)

text \<open>The effect of the operations on the list of waiters and on the state of the endpoint.\<close>

lemma ep_enqueue_waiter_spec:
  assumes "queues_inv_mod W s qs" "tcb_addr_ok t" "\<And>i. t \<notin> set (qs i)" "t \<notin> W"
  shows "queues_inv_mod W (ep_enqueue_waiter e t st s) (qs(EpQ e := qs (EpQ e) @ [t]))"
  using epq.inv_push [OF queues_inv_set_state_ep [OF assms(1), of e st] assms(2-4), of e]
  by (simp add: ep_enqueue_waiter_def Let_def)

lemma ep_enqueue_waiter_sel [simp, st_simps]:
  "ep_state_of (eps (ep_enqueue_waiter e t st s) e) = st"
  "e' \<noteq> e \<Longrightarrow> eps (ep_enqueue_waiter e t st s) e' = eps s e'"
  "tcbs (ep_enqueue_waiter e t st s) = tcbs s" "ntfns (ep_enqueue_waiter e t st s) = ntfns s"
  "ctes (ep_enqueue_waiter e t st s) = ctes s" "mem (ep_enqueue_waiter e t st s) = mem s"
  "MAX_NUM_NODES (ep_enqueue_waiter e t st s) = MAX_NUM_NODES s"
  "idle_tcbs (ep_enqueue_waiter e t st s) = idle_tcbs s"
  "current_core_id (ep_enqueue_waiter e t st s) = current_core_id s"
  by (simp_all add: ep_enqueue_waiter_def Let_def obj_simps ep_q_def)

lemma ep_state_clear_empty:
  assumes "queues_inv_mod W s qs"
  shows "ep_state_of (eps (upd_ep e (\<lambda>x. if ep_head x = None then ep_clear x else x) s) e) =
    (if qs (EpQ e) = [] then EpIdle else ep_state_of (eps s e))"
  using epq.head_result [OF assms, of e] by (simp add: ep_q_def obj_simps first_or_eq_None)

lemma ep_pop_head_eq:
  "ep_pop_head e s =
     (fst (pop_front queue_ends_of_endpoint (ep_q s e)),
      upd_ep e (\<lambda>x. if ep_head x = None then ep_clear x else x)
        (set_ep_q e (snd (pop_front queue_ends_of_endpoint (ep_q s e))) s))"
  by (simp add: ep_pop_head_def case_prod_beta)

lemma ep_update_frame: "\<exists>ep lk. upd_ep e f (set_ep_q e q s) = s\<lparr> eps := ep, tlinks := lk \<rparr>"
proof -
  have "upd_ep e f (set_ep_q e q s) = s\<lparr> eps := (eps s)(e := f (fst q)), tlinks := snd q \<rparr>"
    by (simp add: upd_ep_def set_ep_q_def)
  then show ?thesis by blast
qed

lemma ep_pop_head_spec:
  fixes e :: u64
  assumes inv: "queues_inv_mod W s qs"
  defines "s' \<equiv> snd (ep_pop_head e s)"
  shows "fst (ep_pop_head e s) = first_or (qs (EpQ e)) None"
    and "queues_inv_mod W s' (qs(EpQ e := tl (qs (EpQ e))))"
    and "ep_state_of (eps s' e) = (if tl (qs (EpQ e)) = [] then EpIdle else ep_state_of (eps s e))"
proof -
  let ?s1 = "set_ep_q e (snd (pop_front queue_ends_of_endpoint (ep_q s e))) s"
  note inv1 = epq.inv_pop [OF inv, of e]
  have s': "s' = upd_ep e (\<lambda>x. if ep_head x = None then ep_clear x else x) ?s1"
    by (simp add: s'_def ep_pop_head_eq)
  show "fst (ep_pop_head e s) = first_or (qs (EpQ e)) None"
    using epq.pop_result [OF inv, of e] by (simp add: ep_pop_head_eq)
  show "queues_inv_mod W s' (qs(EpQ e := tl (qs (EpQ e))))"
    unfolding s' by (rule queues_inv_ep_clear_empty [OF inv1])
  show "ep_state_of (eps s' e) = (if tl (qs (EpQ e)) = [] then EpIdle else ep_state_of (eps s e))"
    unfolding s' ep_state_clear_empty [OF inv1] by (simp add: obj_simps) (simp add: ep_q_def)
qed

lemma ep_pop_head_sel [simp, st_simps]:
  "e' \<noteq> e \<Longrightarrow> eps (snd (ep_pop_head e s)) e' = eps s e'"
  "tcbs (snd (ep_pop_head e s)) = tcbs s" "ntfns (snd (ep_pop_head e s)) = ntfns s"
  "ctes (snd (ep_pop_head e s)) = ctes s" "mem (snd (ep_pop_head e s)) = mem s"
  "MAX_NUM_NODES (snd (ep_pop_head e s)) = MAX_NUM_NODES s" "idle_tcbs (snd (ep_pop_head e s)) = idle_tcbs s"
  "current_core_id (snd (ep_pop_head e s)) = current_core_id s"
  by (simp_all add: ep_pop_head_eq)

lemma ep_remove_waiter_spec:
  assumes inv: "queues_inv_mod W s qs"
  shows "\<exists>s'. ep_remove_waiter e t s = Some s' \<and>
    queues_inv_mod W s' (qs(EpQ e := remove1 t (qs (EpQ e)))) \<and>
    ep_state_of (eps s' e) =
      (if t \<in> set (qs (EpQ e)) \<and> remove1 t (qs (EpQ e)) = [] then EpIdle else ep_state_of (eps s e)) \<and>
    (\<forall>e'. e' \<noteq> e \<longrightarrow> eps s' e' = eps s e') \<and>
    (\<exists>ep lk. s' = s\<lparr> eps := ep, tlinks := lk \<rparr>)"
proof (cases "t \<in> set (qs (EpQ e))")
  case True
  let ?s1 = "set_ep_q e (remove queue_ends_of_endpoint t (ep_q s e)) s"
  let ?s' = "upd_ep e (\<lambda>x. if ep_head x = None then ep_clear x else x) ?s1"
  note inv1 = epq.inv_remove [OF inv True]
  have "ep_remove_waiter e t s = Some ?s'"
    using True epq.contains_result [OF inv, of t e] by (simp add: ep_remove_waiter_def)
  moreover have "ep_state_of (eps ?s' e) =
      (if remove1 t (qs (EpQ e)) = [] then EpIdle else ep_state_of (eps s e))"
    unfolding ep_state_clear_empty [OF inv1] by (simp add: obj_simps) (simp add: ep_q_def)
  moreover have "\<forall>e'. e' \<noteq> e \<longrightarrow> eps ?s' e' = eps s e'" by simp
  ultimately show ?thesis
    using True queues_inv_ep_clear_empty [OF inv1, of e] ep_update_frame
    by (intro exI [of _ ?s'] conjI) (simp_all del: upd_ep_sel set_ep_q_sel)
next
  case False
  then have "ep_remove_waiter e t s = Some s" "qs(EpQ e := remove1 t (qs (EpQ e))) = qs"
    using epq.contains_result [OF inv, of t e] by (simp_all add: ep_remove_waiter_def remove1_idem)
  moreover have "\<exists>ep lk. s = s\<lparr> eps := ep, tlinks := lk \<rparr>"
    by (rule exI [of _ "eps s"], rule exI [of _ "tlinks s"]) simp
  ultimately show ?thesis using inv False by auto
qed

lemma ep_take_all_spec:
  assumes inv: "queues_inv s qs"
  shows "fst (ep_take_all e s) = first_or (qs (EpQ e)) None"
    and "queues_inv_mod (set (qs (EpQ e))) (snd (ep_take_all e s)) (qs(EpQ e := []))"
proof -
  show "fst (ep_take_all e s) = first_or (qs (EpQ e)) None"
    using epq.head_result [OF inv, of e] by (simp add: ep_take_all_def ep_q_def)
  show "queues_inv_mod (set (qs (EpQ e))) (snd (ep_take_all e s)) (qs(EpQ e := []))"
  proof (rule epq.inv_take [OF inv])
    show "qends (snd (ep_take_all e s)) j = qends s j" if "j \<noteq> EpQ e" for j
      using that by (cases j) (auto simp: ep_take_all_def)
  qed (simp_all add: ep_take_all_def obj_simps)
qed

section \<open>Cancelling waiters\<close>

definition ep_waiting :: "tcb \<Rightarrow> bool" where
  "ep_waiting x \<longleftrightarrow> tcb_state x = BlockedOnSend \<or> tcb_state x = BlockedOnReceive"

definition ep_fault_sender :: "tcb \<Rightarrow> bool" where
  "ep_fault_sender x \<longleftrightarrow> tcb_state x = BlockedOnSend \<and> tcb_sender_is_fault x"

definition ep_cancelled :: "tcb \<Rightarrow> tcb" where
  "ep_cancelled x =
     (let x1 = x\<lparr> tcb_waiting_on := None \<rparr> in
      if \<not> ep_waiting x then clear_endpoint_ipc_state x1
      else if ep_fault_sender x
      then (clear_endpoint_ipc_state_preserving_fault x1)\<lparr> tcb_state := Inactive \<rparr>
      else (clear_endpoint_ipc_state x1)\<lparr> tcb_state := Restart \<rparr>)"

lemma ep_cancelled_fields:
  "ep_waiting x \<Longrightarrow> tcb_state (ep_cancelled x) = (if ep_fault_sender x then Inactive else Restart)"
  "tcb_waiting_on (ep_cancelled x) = None"
  by (simp_all add: ep_cancelled_def Let_def clear_endpoint_ipc_state_def clear_fault_def
      clear_endpoint_ipc_state_preserving_fault_def)

lemma cancel_endpoint_waiter_eq:
  "cancel_endpoint_waiter w None s =
     ((next_of (tlinks s) w, ep_waiting (tcbs s w) \<and> \<not> ep_fault_sender (tcbs s w)),
      upd_tcb w ep_cancelled (upd_links (clear_links w) s))"
  by (auto simp: cancel_endpoint_waiter_def ep_cancelled_def ep_waiting_def ep_fault_sender_def Let_def
      upd_tcb_def fun_upd_def)

interpretation ep_wait: wait_drain "\<lambda>w. cancel_endpoint_waiter w None" ep_cancelled
  "\<lambda>x. ep_waiting x \<and> \<not> ep_fault_sender x" ep_waiting ep_drain
proof unfold_locales
  show "ep_drain (Some w) s = Option.bind (release_and_enqueue (\<lambda>w. cancel_endpoint_waiter w None) w s)
      (\<lambda>(following, s1). ep_drain following s1)" for w s
    by (subst ep_drain.simps)
      (simp add: release_and_enqueue_def Let_def case_prod_beta Option.bind_assoc [symmetric])
  show "ep_drain None s = Some s" for s by (simp add: ep_drain.simps)
qed (simp_all add: cancel_endpoint_waiter_eq ep_cancelled_fields)

lemma ep_ok_waiting: "ep_ok s xs e \<Longrightarrow> t \<in> set xs \<Longrightarrow> ep_waiting (tcbs s t)"
  by (auto simp: ep_ok_def waits_on_endpoint_def ep_waiting_def split: if_splits)

text \<open>
  After some waiters \<open>ws\<close> of an endpoint are cancelled and woken, and \<open>ks\<close> are left on its queue,
  the invariant holds again.
\<close>

lemma wait_inv_cancelled:
  assumes inv: "wait_inv s qs" and cfg: "0 < MAX_NUM_NODES s"
    and split: "set (qs (EpQ e)) = set ks \<union> set ws"
    and s0: "eps s0 = (eps s)(e := x)" "tcbs s0 = tcbs s" "ntfns s0 = ntfns s" "MAX_NUM_NODES s0 = MAX_NUM_NODES s"
    and x: "ep_state_of x = (if ks = [] then EpIdle else ep_state_of (eps s e))"
    and q: "queues_inv s' (woken s' ws (qs(EpQ e := ks)))" and ch: "only_threads_changed s0 s'"
    and t: "\<forall>t. tcbs s' t = (if t \<in> set ws then ep_cancelled (tcbs s0 t) else tcbs s0 t)"
    and disj: "set ks \<inter> set ws = {}"
  shows "wait_inv s' (woken s' ws (qs(EpQ e := ks)))"
proof (rule wait_inv_step [OF inv q, where E = "{e}" and N = "{}" and T = "set ws"])
  note same = only_threads_changedD [OF ch]
  show "eps s' e' = eps s e' \<and> set (woken s' ws (qs(EpQ e := ks)) (EpQ e')) = set (qs (EpQ e'))"
    if "e' \<notin> {e}" for e' using that by (simp add: same s0)
  show "(ntfn_state_of (ntfns s' n) = NtfnWaiting) = (ntfn_state_of (ntfns s n) = NtfnWaiting) \<and>
      set (woken s' ws (qs(EpQ e := ks)) (NtfnQ n)) = set (qs (NtfnQ n))" for n by (simp add: same s0)
  show "tcbs s' t = tcbs s t" if "t \<notin> set ws" for t using that t by (simp add: s0)
  have on: "t \<in> set (qs (EpQ e))" if "t \<in> set ws" for t using that split by auto
  show "t \<notin> set (qs (EpQ e'))" if "t \<in> set ws" "e' \<notin> {e}" for t e'
    using queues_invD(2) [OF wait_invD(1) [OF inv] on [OF that(1)], of "EpQ e'"] that(2) by auto
  show "t \<notin> set (qs (NtfnQ n))" if "t \<in> set ws" for t n
    using queues_invD(2) [OF wait_invD(1) [OF inv] on [OF that], of "NtfnQ n"] by auto
  have "ep_ok s' ks e"
    using wait_invD(2) [OF inv, of e] split x t disj
    by (auto simp: ep_ok_def waits_on_endpoint_def same s0)
  then show "ep_ok s' (woken s' ws (qs(EpQ e := ks)) (EpQ e')) e'" if "e' \<in> {e}" for e' using that by simp
  show "woken s' ws (qs(EpQ e := ks)) (RunQ c) = []" if "MAX_NUM_NODES s' \<le> c" for c
    using that wait_invD(4) [OF inv, of c] home_core_lt [of s'] cfg
    by (simp add: woken_def same s0 filter_empty_conv) (metis leD)
qed simp

lemma ep_finalize_spec:
  assumes inv: "wait_inv s qs" and cfg: "0 < MAX_NUM_NODES s"
  shows "\<exists>s'. ep_finalize e s = Some s' \<and> wait_inv s' (woken s' (qs (EpQ e)) (qs(EpQ e := []))) \<and>
    (\<forall>t. tcbs s' t = (if t \<in> set (qs (EpQ e)) then ep_cancelled (tcbs s t) else tcbs s t)) \<and>
    only_threads_changed (upd_ep e ep_clear s) s'"
proof -
  let ?ws = "qs (EpQ e)" and ?s0 = "upd_ep e ep_clear s"
  note qinv = wait_invD(1) [OF inv]
  have "dll (tlinks ?s0) None ?ws None" using queues_invD(1) [OF qinv, of "EpQ e"] by (simp add: qrep_iff)
  moreover have "queues_inv_mod (set ?ws) ?s0 (qs(EpQ e := []))"
    using ep_take_all_spec(2) [OF qinv, of e] by (simp add: ep_take_all_def)
  moreover have "\<forall>w\<in>set ?ws. tcb_addr_ok w \<and> ep_waiting (tcbs ?s0 w)"
    using queues_invD(5) [OF qinv] ep_ok_waiting [OF wait_invD(2) [OF inv]] by auto
  ultimately obtain s' where s': "ep_drain (first_or ?ws None) ?s0 = Some s'"
    "queues_inv s' (woken s' ?ws (qs(EpQ e := [])))" "only_threads_changed ?s0 s'"
    "\<forall>t. tcbs s' t = (if t \<in> set ?ws then ep_cancelled (tcbs ?s0 t) else tcbs ?s0 t)"
    using ep_wait.drain_spec [of ?ws ?s0 "qs(EpQ e := [])" None] queues_invD(4) [OF qinv] by auto
  have "wait_inv s' (woken s' ?ws (qs(EpQ e := [])))"
    by (rule wait_inv_cancelled [OF inv cfg _ _ _ _ _ _ s'(2,3,4)]) (auto simp: obj_simps)
  moreover have "ep_finalize e s = Some s'"
    using s'(1) ep_take_all_spec(1) [OF qinv, of e] by (simp add: ep_finalize_def ep_take_all_def)
  ultimately show ?thesis using s'(3,4) by auto
qed

section \<open>Cancelling the senders with one badge\<close>

lemma upd_links_const: "upd_links (\<lambda>_. lh) (upd_links f s) = s\<lparr> tlinks := lh \<rparr>"
  by (simp add: upd_links_def)

lemma queue_rep_after_clear:
  "queue_rep qe ok (q, lh) xs \<Longrightarrow> w \<notin> set xs \<Longrightarrow> queue_rep qe ok (q, clear_links w lh) xs"
  by (erule queue_rep_heap_frame) (auto simp: clear_links_def set_links_def)

text \<open>One step of the sorting loop, for the queue \<open>q\<close> the waiter goes to and the one it does not.\<close>

lemma split_step:
  assumes w: "tcb_addr_ok w" "w \<notin> set (rest @ xs @ ys)" "distinct (rest @ xs @ ys)"
    and rep: "queue_rep queue_ends_of_queue tcb_addr_ok (q, lh) xs"
      "queue_rep queue_ends_of_queue tcb_addr_ok (q', lh) ys" "dll lh p rest None"
    and new: "push_back queue_ends_of_queue w (q, clear_links w lh) = (q1, lh1)"
  shows "queue_rep queue_ends_of_queue tcb_addr_ok (q1, lh1) (xs @ [w])"
    and "queue_rep queue_ends_of_queue tcb_addr_ok (q', lh1) ys" and "dll lh1 p rest None"
    and "x \<noteq> w \<Longrightarrow> x \<notin> set xs \<Longrightarrow> lh1 x = lh x"
proof -
  note rep0 = queue_rep_after_clear [OF rep(1), of w]
  have rep1: "queue_rep queue_ends_of_queue tcb_addr_ok (q, clear_links w lh) xs" using rep0 w(2) by simp
  show "queue_rep queue_ends_of_queue tcb_addr_ok (q1, lh1) (xs @ [w])"
    using rq.rep_push_back [OF rep1, of w] w(1,2) new by simp
  have frame: "lh1 x = lh x" if "x \<noteq> w" "x \<notin> set xs" for x
    using rq.push_back_heap_frame [OF rep1 that(2,1)] new that by (simp add: clear_links_def set_links_def)
  then show "x \<noteq> w \<Longrightarrow> x \<notin> set xs \<Longrightarrow> lh1 x = lh x" .
  show "queue_rep queue_ends_of_queue tcb_addr_ok (q', lh1) ys"
    by (rule queue_rep_heap_frame [OF rep(2)], rule frame) (use w(2,3) in auto)
  have "\<forall>x\<in>set rest. lh1 x = lh x" by (rule ballI, rule frame) (use w(2,3) in auto)
  then show "dll lh1 p rest None" using dll_frame rep(3) by blast
qed

lemma split_badged_spec:
  assumes "dll (tlinks s) p rest None" "distinct (rest @ ks @ ws)" "\<forall>t\<in>set rest. tcb_addr_ok t"
    "queue_rep queue_ends_of_queue tcb_addr_ok (keep, tlinks s) ks"
    "queue_rep queue_ends_of_queue tcb_addr_ok (wake, tlinks s) ws"
  shows "\<exists>keep' wake' lk.
    split_badged badge (first_or rest None) keep wake s = Some (keep', wake', s\<lparr> tlinks := lk \<rparr>) \<and>
    queue_rep queue_ends_of_queue tcb_addr_ok (keep', lk)
      (ks @ filter (\<lambda>t. tcb_sender_badge (tcbs s t) \<noteq> badge) rest) \<and>
    queue_rep queue_ends_of_queue tcb_addr_ok (wake', lk)
      (ws @ filter (\<lambda>t. tcb_sender_badge (tcbs s t) = badge) rest) \<and>
    (\<forall>x. x \<notin> set (rest @ ks @ ws) \<longrightarrow> lk x = tlinks s x)"
  using assms
proof (induction rest arbitrary: s p ks ws keep wake)
  case Nil
  then show ?case by (intro exI [of _ keep] exI [of _ wake] exI [of _ "tlinks s"]) (simp add: split_badged.simps)
next
  case (Cons w rest)
  let ?lh = "tlinks s"
  have w: "tcb_addr_ok w" "next_of ?lh w = first_or rest None" "dll ?lh (Some w) rest None"
    using Cons.prems by (simp_all add: next_of_def)
  show ?case
  proof (cases "tcb_sender_badge (tcbs s w) = badge")
    case True
    obtain q1 lh1 where new: "push_back queue_ends_of_queue w (wake, clear_links w ?lh) = (q1, lh1)"
      by fastforce
    have d: "w \<notin> set (rest @ ws @ ks)" "distinct (rest @ ws @ ks)" "distinct (rest @ ks @ ws @ [w])"
      using Cons.prems(2) by auto
    note st = split_step [OF w(1) d(1,2) Cons.prems(5,4) w(3) new]
    have "split_badged badge (first_or (w # rest) None) keep wake s =
        split_badged badge (first_or rest None) keep q1 (s\<lparr> tlinks := lh1 \<rparr>)"
      using True w(2) new by (simp add: split_badged.simps upd_links_const)
    then show ?thesis
      using Cons.IH [of "s\<lparr> tlinks := lh1 \<rparr>" "Some w" ks "ws @ [w]" keep q1] st d(3) Cons.prems(3) True
      by (simp add: st(4))
  next
    case False
    obtain q1 lh1 where new: "push_back queue_ends_of_queue w (keep, clear_links w ?lh) = (q1, lh1)"
      by fastforce
    have d: "w \<notin> set (rest @ ks @ ws)" "distinct (rest @ ks @ ws)" "distinct (rest @ (ks @ [w]) @ ws)"
      using Cons.prems(2) by auto
    note st = split_step [OF w(1) d(1,2) Cons.prems(4,5) w(3) new]
    have "split_badged badge (first_or (w # rest) None) keep wake s =
        split_badged badge (first_or rest None) q1 wake (s\<lparr> tlinks := lh1 \<rparr>)"
      using False w(2) new by (simp add: split_badged.simps upd_links_const)
    then show ?thesis
      using Cons.IH [of "s\<lparr> tlinks := lh1 \<rparr>" "Some w" "ks @ [w]" ws q1 wake] st d(3) Cons.prems(3) False
      by (simp add: st(4))
  qed
qed

lemma wake_cancelled_spec:
  assumes "queues_inv_mod (set ws) s qs" "queue_rep queue_ends_of_queue tcb_addr_ok (wake, tlinks s) ws"
    "\<forall>w\<in>set ws. ep_waiting (tcbs s w)"
  shows "\<exists>s'. wake_cancelled wake s = Some s' \<and> queues_inv s' (woken s' ws qs) \<and>
    only_threads_changed s s' \<and> (\<forall>t. tcbs s' t = (if t \<in> set ws then ep_cancelled (tcbs s t) else tcbs s t))"
  using assms
proof (induction ws arbitrary: s qs wake)
  case Nil
  have "pop_front queue_ends_of_queue (wake, tlinks s) = (None, wake, tlinks s)"
    by (rule rq.pop_front_empty [OF Nil.prems(2)])
  then show ?case using Nil.prems by (simp add: wake_cancelled.simps [of wake] upd_links_def)
next
  case (Cons w ws)
  obtain wake1 lh where pop: "pop_front queue_ends_of_queue (wake, tlinks s) = (Some w, wake1, lh)"
    using rq.fst_pop_front [OF Cons.prems(2)] by (cases "pop_front queue_ends_of_queue (wake, tlinks s)") auto
  let ?s0 = "s\<lparr> tlinks := lh \<rparr>"
  have rep1: "queue_rep queue_ends_of_queue tcb_addr_ok (wake1, lh) ws"
    using rq.rep_pop_front [OF Cons.prems(2)] pop by simp
  have "lh x = tlinks s x" if "x \<notin> set (w # ws)" for x
    using rq.pop_front_heap_frame [OF Cons.prems(2) that] pop by simp
  then have inv0: "queues_inv_mod (set (w # ws)) ?s0 qs" by (rule queues_inv_links [OF Cons.prems(1)])
  have w: "distinct (w # ws)" "tcb_addr_ok w" using Cons.prems(2) by (simp_all add: queue_rep_def)
  obtain s1 where s1: "release_and_enqueue (\<lambda>w. cancel_endpoint_waiter w None) w ?s0 = Some (next_of (tlinks ?s0) w, s1)"
    "queues_inv_mod (set ws) s1 (enqueued s1 w qs)" "only_threads_changed ?s0 s1"
    "tcbs s1 = (tcbs ?s0)(w := ep_cancelled (tcbs ?s0 w))" "\<forall>x\<in>set ws. tlinks s1 x = tlinks ?s0 x"
    using ep_wait.release_step [OF inv0 w] Cons.prems(3) by auto
  have step: "wake_cancelled wake s = wake_cancelled wake1 s1"
    using s1(1) by (subst wake_cancelled.simps)
      (simp add: pop upd_links_def [of "\<lambda>_. lh"] release_and_enqueue_def case_prod_beta bind_eq_Some_conv)
  have "queue_rep queue_ends_of_queue tcb_addr_ok (wake1, tlinks s1) ws"
    by (rule queue_rep_heap_frame [OF rep1]) (use s1(5) in simp)
  moreover have "\<forall>x\<in>set ws. ep_waiting (tcbs s1 x)" using Cons.prems(3) s1(4) w(1) by auto
  ultimately obtain s' where s': "wake_cancelled wake1 s1 = Some s'"
    "queues_inv s' (woken s' ws (enqueued s1 w qs))" "only_threads_changed s1 s'"
    "\<forall>t. tcbs s' t = (if t \<in> set ws then ep_cancelled (tcbs s1 t) else tcbs s1 t)"
    using Cons.IH [OF s1(2)] by blast
  have "only_threads_changed s ?s0"
    by (rule only_threads_changedI [where tc = "tcbs s" and rq = "runqueues s" and lk = lh and ev = "events s"]) simp
  then show ?case
    using s'(1,2) step ep_wait.woken_step [OF inv0 w(1) s1(4,3) s'(3,4)] only_threads_changed_trans
    by (intro exI [of _ s']) auto
qed

text \<open>
  The endpoint once the waiters are sorted: its queue is the list \<open>ks\<close> of those that stay, and the
  threads \<open>ws\<close> to wake are detached.
\<close>

lemma keep_waiters_spec:
  assumes inv1: "queues_inv_mod (set xs) s1 qs1" "qs1 (EpQ e) = []" and cleared: "eps s1 e = ep_clear x"
    and keep: "queue_rep queue_ends_of_queue tcb_addr_ok (keep, lk) ks"
    and frame: "\<forall>x. x \<notin> set xs \<longrightarrow> lk x = tlinks s1 x"
    and parts: "set xs = set ks \<union> set ws" "set ks \<inter> set ws = {}"
  defines "s3 \<equiv> keep_waiters e keep (s1\<lparr> tlinks := lk \<rparr>)"
  shows "queues_inv_mod (set ws) s3 (qs1(EpQ e := ks))"
    and "ep_state_of (eps s3 e) = (if ks = [] then EpIdle else EpSending)"
    and "eps s3 = (eps s1)(e := eps s3 e)" "tcbs s3 = tcbs s1" "ntfns s3 = ntfns s1"
    "MAX_NUM_NODES s3 = MAX_NUM_NODES s1" "tlinks s3 = lk" "runqueues s3 = runqueues s1"
proof -
  have ends: "queue_head keep = first_or ks None" "queue_tail keep = last_or ks None" "\<forall>t\<in>set ks. tcb_addr_ok t"
    using keep by (auto simp: queue_rep_def queue_ends_of_queue_def)
  show s3: "eps s3 = (eps s1)(e := eps s3 e)" "tcbs s3 = tcbs s1" "ntfns s3 = ntfns s1"
    "MAX_NUM_NODES s3 = MAX_NUM_NODES s1" "tlinks s3 = lk" "runqueues s3 = runqueues s1"
    by (auto simp: s3_def keep_waiters_def fun_eq_iff split: option.split)
  have ep3: "ep_state_of (eps s3 e) = (if ks = [] then EpIdle else EpSending)"
    "ep_head (eps s3 e) = first_or ks None" "ep_tail (eps s3 e) = last_or ks None"
    using ends ep_queue.ok_last [of ks] ep_queue.ok_first [of ks]
    by (cases ks; simp add: s3_def keep_waiters_def cleared obj_simps ep_queue.ends_laws)+
  then show "ep_state_of (eps s3 e) = (if ks = [] then EpIdle else EpSending)" by blast
  show "queues_inv_mod (set ws) s3 (qs1(EpQ e := ks))"
  proof (rule queues_inv_step [OF inv1(1)])
    show "qends s3 j = qends s1 j" if "j \<noteq> EpQ e" for j
    proof (cases j)
      case (EpQ e')
      then show ?thesis using that s3(1) by (metis fun_upd_other qends_simps(2))
    qed (simp_all add: s3(3,6))
    show "qrep s3 (EpQ e) ks" using keep ep3 by (simp add: qrep_iff s3(5) queue_rep_def)
    show "t \<notin> set (qs1 j)" if "t \<in> set ks \<or> t \<in> set ws" for t j
      using that parts(1) queues_invD(6) [OF inv1(1), of t j] by auto
  qed (use parts frame s3(5) inv1(2) in auto)
qed

lemma cancel_badged_sends_spec:
  assumes inv: "wait_inv s qs" and cfg: "0 < MAX_NUM_NODES s" and st: "ep_state s e = EpSending"
    and ws: "ws = filter (\<lambda>t. tcb_sender_badge (tcbs s t) = badge) (qs (EpQ e))"
    and ks: "ks = filter (\<lambda>t. tcb_sender_badge (tcbs s t) \<noteq> badge) (qs (EpQ e))"
  shows "\<exists>s'. cancel_badged_sends e badge s = Some s' \<and> wait_inv s' (woken s' ws (qs(EpQ e := ks))) \<and>
    (\<forall>t. tcbs s' t = (if t \<in> set ws then ep_cancelled (tcbs s t) else tcbs s t))"
proof -
  note qinv = wait_invD(1) [OF inv]
  let ?xs = "qs (EpQ e)" and ?s1 = "upd_ep e ep_clear s"
  have inv1: "queues_inv_mod (set ?xs) ?s1 (qs(EpQ e := []))"
    using ep_take_all_spec(2) [OF qinv, of e] by (simp add: ep_take_all_def)
  have xs: "dll (tlinks ?s1) None ?xs None" "distinct ?xs" "\<forall>t\<in>set ?xs. tcb_addr_ok t"
    using queues_invD(1) [OF qinv, of "EpQ e"] by (simp_all add: qrep_iff)
  have "queue_rep queue_ends_of_queue tcb_addr_ok (queue_new, tlinks ?s1) []"
    by (simp add: queue_rep_def queue_ends_of_queue_def queue_new_def)
  then obtain keep wake lk where sp:
    "split_badged badge (first_or ?xs None) queue_new queue_new ?s1 = Some (keep, wake, ?s1\<lparr> tlinks := lk \<rparr>)"
    "queue_rep queue_ends_of_queue tcb_addr_ok (keep, lk) ks"
    "queue_rep queue_ends_of_queue tcb_addr_ok (wake, lk) ws" "\<forall>x. x \<notin> set ?xs \<longrightarrow> lk x = tlinks ?s1 x"
    using split_badged_spec [OF xs(1), of "[]" "[]" queue_new queue_new badge] xs(2,3)
    unfolding ws ks by auto
  have parts: "set ?xs = set ks \<union> set ws" "set ks \<inter> set ws = {}" by (auto simp: ws ks)
  define s3 where "s3 = keep_waiters e keep (?s1\<lparr> tlinks := lk \<rparr>)"
  have s1: "(qs(EpQ e := [])) (EpQ e) = []" "eps ?s1 e = ep_clear (eps s e)" by simp_all
  note s3 = keep_waiters_spec [OF inv1 s1 sp(2,4) parts, folded s3_def, unfolded fun_upd_upd]
  have eps3: "eps s3 = (eps s)(e := eps s3 e)" using s3(3) by (simp only: upd_ep_sel fun_upd_upd)
  obtain s' where s': "wake_cancelled wake s3 = Some s'" "queues_inv s' (woken s' ws (qs(EpQ e := ks)))"
    "only_threads_changed s3 s'" "\<forall>t. tcbs s' t = (if t \<in> set ws then ep_cancelled (tcbs s3 t) else tcbs s3 t)"
    using wake_cancelled_spec [OF s3(1), where wake = wake] sp(3) ep_ok_waiting [OF wait_invD(2) [OF inv]] parts(1)
    by (auto simp: s3(4,7))
  have "wait_inv s' (woken s' ws (qs(EpQ e := ks)))"
    by (rule wait_inv_cancelled [OF inv cfg parts(1) eps3 _ _ _ _ s'(2-4) parts(2)])
      (use s3(2,4-6) st in \<open>simp_all add: ep_state_def\<close>)
  moreover have "cancel_badged_sends e badge s = Some s'"
    using st sp(1) s'(1) ep_take_all_spec(1) [OF qinv, of e]
    by (simp add: cancel_badged_sends_def ep_take_all_def s3_def)
  ultimately show ?thesis using s'(4) by (auto simp: s3(4))
qed

section \<open>Properties\<close>

lemma ep_enqueue_wait_inv:
  assumes inv: "wait_inv s qs" and t: "tcb_addr_ok t" "\<And>i. t \<notin> set (qs i)"
    and st: "st \<noteq> EpIdle" "qs (EpQ e) = [] \<or> ep_state s e = st" "waits_on_endpoint s t e (st = EpSending)"
  shows "wait_inv (ep_enqueue_waiter e t st s) (qs(EpQ e := qs (EpQ e) @ [t]))" (is "wait_inv ?s' ?qs'")
proof -
  have en: "queues_inv ?s' ?qs'" using ep_enqueue_waiter_spec [OF wait_invD(1) [OF inv] t] by simp
  show ?thesis
  proof (rule wait_inv_step [OF inv en, where E = "{e}" and N = "{}" and T = "{}"])
    have "ep_ok ?s' (qs (EpQ e) @ [t]) e"
      using wait_invD(2) [OF inv, of e] st by (auto simp: ep_ok_def ep_state_def waits_on_endpoint_def)
    then show "ep_ok ?s' (?qs' (EpQ e')) e'" if "e' \<in> {e}" for e' using that by simp
    show "?qs' (RunQ c) = []" if "MAX_NUM_NODES ?s' \<le> c" for c
      using that wait_invD(4) [OF inv, of c] by simp
  qed simp_all
qed

lemma ep_pop_wait_inv:
  assumes inv: "wait_inv s qs"
  shows "wait_inv (snd (ep_pop_head e s)) (qs(EpQ e := tl (qs (EpQ e))))" (is "wait_inv ?s' ?qs'")
proof -
  note pop = ep_pop_head_spec [OF wait_invD(1) [OF inv], of e]
  show ?thesis
  proof (rule wait_inv_step [OF inv pop(2), where E = "{e}" and N = "{}" and T = "{}"])
    have "t \<in> set (qs (EpQ e))" if "t \<in> set (tl (qs (EpQ e)))" for t
      using that by (cases "qs (EpQ e)") auto
    then have "ep_ok ?s' (tl (qs (EpQ e))) e"
      using wait_invD(2) [OF inv, of e] by (auto simp: ep_ok_def pop waits_on_endpoint_def)
    then show "ep_ok ?s' (?qs' (EpQ e')) e'" if "e' \<in> {e}" for e' using that by simp
    show "?qs' (RunQ c) = []" if "MAX_NUM_NODES ?s' \<le> c" for c
      using that wait_invD(4) [OF inv, of c] by simp
  qed simp_all
qed

lemma ep_remove_wait_inv:
  assumes inv: "wait_inv s qs"
  shows "\<exists>s'. ep_remove_waiter e t s = Some s' \<and> wait_inv s' (qs(EpQ e := remove1 t (qs (EpQ e)))) \<and>
    (\<exists>ep lk. s' = s\<lparr> eps := ep, tlinks := lk \<rparr>)"
proof -
  obtain s' ep lk where rm: "ep_remove_waiter e t s = Some s'"
    "queues_inv s' (qs(EpQ e := remove1 t (qs (EpQ e))))"
    "ep_state_of (eps s' e) =
      (if t \<in> set (qs (EpQ e)) \<and> remove1 t (qs (EpQ e)) = [] then EpIdle else ep_state_of (eps s e))"
    "\<forall>e'. e' \<noteq> e \<longrightarrow> eps s' e' = eps s e'" "s' = s\<lparr> eps := ep, tlinks := lk \<rparr>"
    using ep_remove_waiter_spec [OF wait_invD(1) [OF inv], of e t] by blast
  have same: "tcbs s' = tcbs s" "ntfns s' = ntfns s" "MAX_NUM_NODES s' = MAX_NUM_NODES s" by (simp_all add: rm(5))
  have "wait_inv s' (qs(EpQ e := remove1 t (qs (EpQ e))))"
  proof (rule wait_inv_step [OF inv rm(2), where E = "{e}" and N = "{}" and T = "{}"])
    have "ep_ok s' (remove1 t (qs (EpQ e))) e"
      using wait_invD(2) [OF inv, of e] set_remove1_subset [of t "qs (EpQ e)"]
      by (cases "qs (EpQ e)") (auto simp: ep_ok_def rm(3) waits_on_endpoint_def same remove1_idem split: if_splits)
    then show "ep_ok s' ((qs(EpQ e := remove1 t (qs (EpQ e)))) (EpQ e')) e'" if "e' \<in> {e}" for e'
      using that by simp
  qed (use rm(4) wait_invD(4) [OF inv] in \<open>auto simp: same\<close>)
  then show ?thesis using rm(1,5) by blast
qed

text \<open>Two senders with the badges 7 and 9 waiting on one endpoint.\<close>

definition ep_a :: u64 where "ep_a = 0xFFFFFFC080002000"

definition two_senders :: kstate where
  "two_senders =
     ep_enqueue_waiter ep_a thr_b EpSending
       (ep_enqueue_waiter ep_a thr_a EpSending
         (set_blocked_sender thr_b ep_a False 9 False False []
           (set_blocked_sender thr_a ep_a False 7 False False [] (empty_kstate 1 0))))"

lemma two_blocked_inv:
  "wait_inv (set_blocked_sender b ep c x d f g (set_blocked_sender a ep' c' x' d' f' g' (empty_kstate n m))) (\<lambda>_. [])"
proof -
  have "queues_inv (set_blocked_sender b ep c x d f g (set_blocked_sender a ep' c' x' d' f' g' (empty_kstate n m))) (\<lambda>_. [])"
    unfolding set_blocked_sender_def by (intro queues_inv_upds queues_inv_empty)
  then show ?thesis
    using wait_inv_empty [of n m] by (simp add: wait_inv_def ep_ok_def ntfn_ok_def set_blocked_sender_def)
qed

lemma two_senders_inv: "wait_inv two_senders ((\<lambda>_. [])(EpQ ep_a := [thr_a, thr_b]))"
proof -
  let ?s0 = "set_blocked_sender thr_b ep_a False 9 False False []
           (set_blocked_sender thr_a ep_a False 7 False False [] (empty_kstate 1 0))"
  have inv1: "wait_inv (ep_enqueue_waiter ep_a thr_a EpSending ?s0) ((\<lambda>_. [])(EpQ ep_a := [] @ [thr_a]))"
    by (rule ep_enqueue_wait_inv [OF two_blocked_inv thr_addr_ok(1)])
      (simp_all add: waits_on_endpoint_def set_blocked_sender_def)
  have "wait_inv two_senders (((\<lambda>_. [])(EpQ ep_a := [] @ [thr_a]))
      (EpQ ep_a := ((\<lambda>_. [])(EpQ ep_a := [] @ [thr_a])) (EpQ ep_a) @ [thr_b]))"
    unfolding two_senders_def
    by (rule ep_enqueue_wait_inv [OF inv1 thr_addr_ok(2)])
      (simp_all add: waits_on_endpoint_def set_blocked_sender_def ep_state_def)
  then show ?thesis by simp
qed

lemma two_senders_sel:
  "tcb_sender_badge (tcbs two_senders thr_a) = 7" "tcb_sender_badge (tcbs two_senders thr_b) = 9"
  "MAX_NUM_NODES two_senders = 1" "ep_state two_senders ep_a = EpSending"
  "tcb_state (tcbs two_senders t) = (if t = thr_a \<or> t = thr_b then BlockedOnSend else Inactive)"
  "\<not> tcb_sender_is_fault (tcbs two_senders t)" "tcb_affinity (tcbs two_senders t) = 0"
  by (simp_all add: two_senders_def set_blocked_sender_def ep_state_def clear_endpoint_ipc_state_def clear_fault_def tcb_zero_def)

lemma ep_pops_wait_inv:
  "wait_inv s qs \<Longrightarrow>
   wait_inv (((\<lambda>s. snd (ep_pop_head e s)) ^^ k) s) (qs(EpQ e := drop k (qs (EpQ e)))) \<and>
   ep_state_of (eps (((\<lambda>s. snd (ep_pop_head e s)) ^^ k) s) e) =
     (if k < length (qs (EpQ e)) then ep_state_of (eps s e) else EpIdle)"
proof (induction k)
  case 0
  then show ?case using wait_invD(2) [of s qs e] by (auto simp: ep_ok_def)
next
  case (Suc k)
  let ?s = "((\<lambda>s. snd (ep_pop_head e s)) ^^ k) s" and ?qs = "qs(EpQ e := drop k (qs (EpQ e)))"
  have inv: "wait_inv ?s ?qs" using Suc by blast
  have "tl (drop k (qs (EpQ e))) = drop (Suc k) (qs (EpQ e))" by (simp add: drop_Suc tl_drop)
  then show ?case
    using ep_pop_wait_inv [OF inv, of e] ep_pop_head_spec(3) [OF wait_invD(1) [OF inv], of e] Suc
    by (simp del: fun_upd_apply add: fun_upd_same)
qed

text \<open>
  C29: Waiters leave an endpoint in the order they arrived. Taking waiters of the flavour the
  endpoint holds answers them one after the other and keeps the invariant; the one after the last
  answers nothing, because the endpoint has gone back to idle.
\<close>

theorem endpoint_pops_in_arrival_order:
  assumes "wait_inv s qs" "ep_state s e = st" "st \<noteq> EpIdle"
  shows "fst (pop_waiter_if_state e st (((\<lambda>s. snd (ep_pop_head e s)) ^^ k) s)) =
      (if k < length (qs (EpQ e)) then Some (qs (EpQ e) ! k) else None) \<and>
    wait_inv (((\<lambda>s. snd (ep_pop_head e s)) ^^ k) s) (qs(EpQ e := drop k (qs (EpQ e))))"
proof -
  let ?s = "((\<lambda>s. snd (ep_pop_head e s)) ^^ k) s"
  have inv: "wait_inv ?s (qs(EpQ e := drop k (qs (EpQ e))))"
    "ep_state_of (eps ?s e) = (if k < length (qs (EpQ e)) then st else EpIdle)"
    using ep_pops_wait_inv [OF assms(1), where e = e and k = k] assms(2) by (simp_all add: ep_state_def)
  have "fst (ep_pop_head e ?s) = first_or (drop k (qs (EpQ e))) None"
    using ep_pop_head_spec(1) [OF wait_invD(1) [OF inv(1)], of e] by simp
  then show ?thesis using inv assms(3) Cons_nth_drop_Suc [of k "qs (EpQ e)", symmetric]
    by (auto simp: pop_waiter_if_state_def ep_state_def)
qed

theorem endpoint_pops_in_arrival_order_witness:
  "fst (pop_waiter_if_state ep_a EpSending two_senders) = Some thr_a \<and>
   fst (pop_waiter_if_state ep_a EpSending (snd (ep_pop_head ep_a two_senders))) = Some thr_b"
  using endpoint_pops_in_arrival_order [OF two_senders_inv two_senders_sel(4), of 0]
    endpoint_pops_in_arrival_order [OF two_senders_inv two_senders_sel(4), of 1]
  by simp

text \<open>
  A thread that blocks on an endpoint is appended to its queue and recorded under the right
  flavour: every thread on the queue is blocked on this endpoint in the direction its state says,
  and no thread is on two queues.
\<close>

theorem endpoint_enqueue_keeps_waiters_consistent:
  assumes "wait_inv s qs" "tcb_addr_ok t" "\<And>i. t \<notin> set (qs i)" "st \<noteq> EpIdle"
    and "ep_state s e = EpIdle \<or> ep_state s e = st" "waits_on_endpoint s t e (st = EpSending)"
  shows "wait_inv (ep_enqueue_waiter e t st s) (qs(EpQ e := qs (EpQ e) @ [t]))"
proof (rule ep_enqueue_wait_inv [OF assms(1-4) _ assms(6)])
  show "qs (EpQ e) = [] \<or> ep_state s e = st"
    using assms(5) wait_invD(2) [OF assms(1), of e] by (auto simp: ep_ok_def ep_state_def)
qed

theorem endpoint_enqueue_keeps_waiters_consistent_witness:
  "wait_inv (ep_enqueue_waiter ep_a thr_a EpReceiving
     (set_blocked_receiver thr_a ep_a True (empty_kstate 1 0))) ((\<lambda>_. [])(EpQ ep_a := [thr_a]))"
proof -
  let ?s = "set_blocked_receiver thr_a ep_a True (empty_kstate 1 0)"
  have "queues_inv ?s (\<lambda>_. [])"
    unfolding set_blocked_receiver_def by (intro queues_inv_upds queues_inv_empty)
  then have "wait_inv ?s (\<lambda>_. [])"
    using wait_inv_empty [of 1 0] by (simp add: wait_inv_def ep_ok_def ntfn_ok_def set_blocked_receiver_def)
  then show ?thesis
    using endpoint_enqueue_keeps_waiters_consistent [of ?s "\<lambda>_. []" thr_a EpReceiving ep_a] thr_addr_ok(1)
    by (simp add: ep_state_def ep_state_of_def endpoint_zero_def set_blocked_receiver_def waits_on_endpoint_def)
qed

text \<open>
  C30: Cancelling the senders with one badge ends, takes exactly the waiters with that badge off
  the endpoint and leaves the others queued in their order. A cancelled sender is restarted and put
  on its core's ready queue, unless it was reporting a fault: then it becomes inactive. No other
  thread changes, and the queues are consistent again.
\<close>

theorem cancel_badged_sends_partitions:
  assumes "wait_inv s qs" "core_config_ok s" "ep_state s e = EpSending"
    and "ws = filter (\<lambda>t. tcb_sender_badge (tcbs s t) = badge) (qs (EpQ e))"
  shows "\<exists>s'. cancel_badged_sends e badge s = Some s' \<and>
    wait_inv s' (woken s' ws (qs(EpQ e := filter (\<lambda>t. tcb_sender_badge (tcbs s t) \<noteq> badge) (qs (EpQ e))))) \<and>
    (\<forall>t. if t \<in> set ws
         then tcb_state (tcbs s' t) = (if tcb_sender_is_fault (tcbs s t) then Inactive else Restart)
         else tcbs s' t = tcbs s t)"
proof -
  have "0 < MAX_NUM_NODES s" using assms(2) by (simp add: core_config_ok_def)
  from cancel_badged_sends_spec [OF assms(1) this assms(3,4) refl]
  obtain s' where s': "cancel_badged_sends e badge s = Some s'"
    "wait_inv s' (woken s' ws (qs(EpQ e := filter (\<lambda>t. tcb_sender_badge (tcbs s t) \<noteq> badge) (qs (EpQ e)))))"
    "\<forall>t. tcbs s' t = (if t \<in> set ws then ep_cancelled (tcbs s t) else tcbs s t)" by blast
  have "tcb_state (tcbs s' t) = (if tcb_sender_is_fault (tcbs s t) then Inactive else Restart)"
    if "t \<in> set ws" for t
  proof -
    have "tcb_state (tcbs s t) = BlockedOnSend"
      using that assms(3,4) wait_invD(2) [OF assms(1), of e]
      by (auto simp: ep_ok_def ep_state_def waits_on_endpoint_def)
    then show ?thesis using s'(3) that by (simp add: ep_cancelled_fields ep_waiting_def ep_fault_sender_def)
  qed
  then show ?thesis using s' by (intro exI [of _ s']) simp
qed

theorem cancel_badged_sends_partitions_witness:
  "\<exists>s'. cancel_badged_sends ep_a 7 two_senders = Some s' \<and>
     wait_inv s' (woken s' [thr_a] ((\<lambda>_. [])(EpQ ep_a := [thr_b]))) \<and> tcb_state (tcbs s' thr_a) = Restart"
proof -
  have "core_config_ok two_senders"
    by (simp add: core_config_ok_def two_senders_sel) (simp add: two_senders_def set_blocked_sender_def)
  from cancel_badged_sends_partitions [OF two_senders_inv this two_senders_sel(4) refl, of 7]
  show ?thesis by (auto simp: two_senders_sel(1,2,6))
qed

text \<open>
  C22: Finalizing an endpoint ends and leaves it idle with an empty queue. Every waiter is
  released: fault senders become inactive, all others are restarted and queued on their core in the
  order they waited. Other threads, endpoints and notifications do not change.
\<close>

theorem endpoint_finalize_releases_all:
  assumes "wait_inv s qs" "core_config_ok s"
  shows "\<exists>s'. ep_finalize e s = Some s' \<and> ep_state s' e = EpIdle \<and>
    wait_inv s' (woken s' (qs (EpQ e)) (qs(EpQ e := []))) \<and>
    (\<forall>t\<in>set (qs (EpQ e)). tcb_waiting_on (tcbs s' t) = None \<and>
       tcb_state (tcbs s' t) = (if ep_fault_sender (tcbs s t) then Inactive else Restart)) \<and>
    (\<forall>t. t \<notin> set (qs (EpQ e)) \<longrightarrow> tcbs s' t = tcbs s t) \<and>
    (\<forall>e'. e' \<noteq> e \<longrightarrow> eps s' e' = eps s e') \<and> ntfns s' = ntfns s"
proof -
  have "0 < MAX_NUM_NODES s" using assms(2) by (simp add: core_config_ok_def)
  from ep_finalize_spec [OF assms(1) this, of e]
  obtain s' where s': "ep_finalize e s = Some s'" "wait_inv s' (woken s' (qs (EpQ e)) (qs(EpQ e := [])))"
    "\<forall>t. tcbs s' t = (if t \<in> set (qs (EpQ e)) then ep_cancelled (tcbs s t) else tcbs s t)"
    "only_threads_changed (upd_ep e ep_clear s) s'" by blast
  note same = only_threads_changedD [OF s'(4)]
  have "ep_waiting (tcbs s t)" if "t \<in> set (qs (EpQ e))" for t
    using ep_ok_waiting [OF wait_invD(2) [OF assms(1)] that] .
  then show ?thesis using s'(1,2,3)
    by (intro exI [of _ s']) (simp add: ep_cancelled_fields same ep_state_def obj_simps)
qed

theorem endpoint_finalize_releases_all_witness:
  "\<exists>s'. ep_finalize ep_a two_senders = Some s' \<and> ep_state s' ep_a = EpIdle \<and>
     tcb_state (tcbs s' thr_a) = Restart \<and> tcb_state (tcbs s' thr_b) = Restart"
proof -
  have "core_config_ok two_senders"
    by (simp add: core_config_ok_def two_senders_sel) (simp add: two_senders_def set_blocked_sender_def)
  from endpoint_finalize_releases_all [OF two_senders_inv this, of ep_a]
  show ?thesis by (auto simp: two_senders_sel ep_fault_sender_def)
qed

end
