(* ===== verification/Rel4_Notification.thy ===== *)
theory Rel4_Notification
  imports Rel4_Endpoint
begin

text \<open>
  Operations on notifications (\<^verbatim>\<open>object/notification.rs\<close>): signalling, waiting, the delivery to
  a bound thread that is blocked on an endpoint, and finalization. The lemmas show the state
  machine of the object, that signals are never lost, and that waiters are served in order.
\<close>

section \<open>Operations\<close>

definition is_kernel_pspace_kva :: "u64 \<Rightarrow> bool" where
  "is_kernel_pspace_kva kva \<longleftrightarrow> PPTR_BASE \<le> kva \<and> kva < PPTR_TOP"

definition ntfn_q :: "kstate \<Rightarrow> u64 \<Rightarrow> notification \<times> links_heap" where
  "ntfn_q s n = (ntfns s n, tlinks s)"

definition set_ntfn_q :: "u64 \<Rightarrow> notification \<times> links_heap \<Rightarrow> kstate \<Rightarrow> kstate" where
  "set_ntfn_q n q s = s\<lparr> ntfns := (ntfns s)(n := fst q), tlinks := snd q \<rparr>"

datatype wait_outcome = Got u64 | Blocked

definition ntfn_init :: "u64 \<Rightarrow> kstate \<Rightarrow> kstate" where
  "ntfn_init ntfn_kva s = s"

definition ntfn_state :: "kstate \<Rightarrow> u64 \<Rightarrow> ntfn_state" where
  "ntfn_state s n = ntfn_state_of (ntfns s n)"

definition bound_tcb :: "kstate \<Rightarrow> u64 \<Rightarrow> u64 option" where
  "bound_tcb s n = ntfn_bound_tcb (ntfns s n)"

definition can_bind :: "kstate \<Rightarrow> u64 \<Rightarrow> bool" where
  "can_bind s n \<longleftrightarrow> ntfn_head (ntfns s n) = None \<and> ntfn_bound_tcb (ntfns s n) = None"

definition consume_active :: "u64 \<Rightarrow> kstate \<Rightarrow> u64 option \<times> kstate" where
  "consume_active n s =
     (let (badge, x) = take_active_badge (ntfns s n) in (badge, upd_ntfn n (\<lambda>_. x) s))"

definition ntfn_enqueue_waiter :: "u64 \<Rightarrow> u64 \<Rightarrow> kstate \<Rightarrow> kstate" where
  "ntfn_enqueue_waiter n tcb s = set_ntfn_q n (push_back queue_ends_of_notification tcb (ntfn_q s n)) s"

definition ntfn_pop_head :: "u64 \<Rightarrow> kstate \<Rightarrow> u64 option \<times> kstate" where
  "ntfn_pop_head n s =
     (let (popped, q) = pop_front queue_ends_of_notification (ntfn_q s n);
          s1 = set_ntfn_q n q s
      in (popped, upd_ntfn n (\<lambda>x. if ntfn_head x = None
                                     then qe_set_tail queue_ends_of_notification None x else x) s1))"

definition ntfn_remove_waiter :: "u64 \<Rightarrow> u64 \<Rightarrow> kstate \<Rightarrow> kstate option" where
  "ntfn_remove_waiter n tcb s = do {
     present \<leftarrow> contains queue_ends_of_notification tcb (ntfn_q s n);
     if \<not> present then Some s
     else
       let s1 = set_ntfn_q n (remove queue_ends_of_notification tcb (ntfn_q s n)) s
       in Some (upd_ntfn n (\<lambda>x. if ntfn_head x = None
                   then ntfn_set_state NtfnIdle (qe_set_tail queue_ends_of_notification None x) else x) s1)
   }"

definition ntfn_contains_waiter :: "u64 \<Rightarrow> u64 \<Rightarrow> kstate \<Rightarrow> bool option" where
  "ntfn_contains_waiter n tcb s = contains queue_ends_of_notification tcb (ntfn_q s n)"

definition ntfn_reorder_waiter :: "u64 \<Rightarrow> u64 \<Rightarrow> kstate \<Rightarrow> kstate option" where
  "ntfn_reorder_waiter n tcb s =
     (if ntfn_state s n \<noteq> NtfnWaiting then Some s
      else do {
        present \<leftarrow> ntfn_contains_waiter n tcb s;
        if \<not> present \<or> \<not> waits_on_notification s tcb n then Some s
        else do {
          s1 \<leftarrow> ntfn_remove_waiter n tcb s;
          Some (upd_ntfn n (ntfn_set_state NtfnWaiting) (ntfn_enqueue_waiter n tcb s1))
        }
      })"

definition take_all_waiting :: "u64 \<Rightarrow> kstate \<Rightarrow> u64 option \<times> kstate" where
  "take_all_waiting n s =
     (if ntfn_state s n \<noteq> NtfnWaiting then (None, s)
      else (ntfn_head (ntfns s n),
            upd_ntfn n (\<lambda>x. ntfn_set_state NtfnIdle (qe_set_tail queue_ends_of_notification None
                               (qe_set_head queue_ends_of_notification None x))) s))"

definition signal_waiting :: "u64 \<Rightarrow> u64 \<Rightarrow> kstate \<Rightarrow> kstate option" where
  "signal_waiting n badge s =
     (let (popped, s1) = ntfn_pop_head n s in
      case popped of
        None \<Rightarrow> Some (upd_ntfn n (ntfn_set_state NtfnIdle) s1)
      | Some dest \<Rightarrow>
          let s2 = upd_ntfn n (\<lambda>x. if ntfn_head x = None then ntfn_set_state NtfnIdle x else x) s1
          in enqueue dest (complete_notification_wait dest badge s2))"

definition latch :: "u64 \<Rightarrow> u64 \<Rightarrow> kstate \<Rightarrow> kstate" where
  "latch n badge s = upd_ntfn n (\<lambda>x. ntfn_set_state NtfnActive (ntfn_set_badge badge x)) s"

definition deliver_to_bound_endpoint_receiver :: "u64 \<Rightarrow> u64 \<Rightarrow> u64 \<Rightarrow> u64 \<Rightarrow> kstate \<Rightarrow> (bool \<times> kstate) option" where
  "deliver_to_bound_endpoint_receiver n tcb ep badge s =
     (if bound_tcb s n \<noteq> Some tcb \<or> \<not> waits_on_endpoint s tcb ep False then Some (False, s)
      else do {
        s1 \<leftarrow> ep_remove_waiter ep tcb s;
        let s2 = upd_ntfn n (\<lambda>x. ntfn_set_state NtfnIdle (ntfn_set_badge 0 x)) s1;
        s3 \<leftarrow> enqueue tcb (complete_bound_endpoint_notification_wait tcb badge s2);
        Some (True, s3)
      })"

text \<open>
  A blocked receive is only ever found for a bound thread, so the two \<^verbatim>\<open>expect\<close> calls cannot fail.
\<close>

definition signal_idle_or_active :: "u64 \<Rightarrow> u64 \<Rightarrow> kstate \<Rightarrow> kstate option" where
  "signal_idle_or_active n badge s =
     (let x = ntfns s n;
          latched = (if ntfn_state_of x = NtfnActive then ntfn_badge x else 0);
          combined = latched OR badge;
          bound = ntfn_bound_tcb x
      in case Option.bind bound (blocked_receive_of s) of
           Some (OnEndpoint ep) \<Rightarrow> do {
             tcb \<leftarrow> bound;
             (delivered, s1) \<leftarrow> deliver_to_bound_endpoint_receiver n tcb ep combined s;
             if delivered then Some s1 else Some (latch n combined s1)
           }
         | Some Detached \<Rightarrow> do {
             tcb \<leftarrow> bound;
             let s1 = upd_ntfn n (\<lambda>x. ntfn_set_state NtfnIdle (ntfn_set_badge 0 x)) s;
             enqueue tcb (complete_notification_wait tcb combined s1)
           }
         | None \<Rightarrow> Some (latch n combined s))"

definition signal :: "u64 \<Rightarrow> u64 \<Rightarrow> kstate \<Rightarrow> kstate option" where
  "signal n badge s = (case ntfn_state s n of
     NtfnWaiting \<Rightarrow> signal_waiting n badge s
   | _ \<Rightarrow> signal_idle_or_active n badge s)"

definition ntfn_wait :: "u64 \<Rightarrow> u64 \<Rightarrow> bool \<Rightarrow> kstate \<Rightarrow> (wait_outcome \<times> kstate) option" where
  "ntfn_wait n tcb blocking s =
     (let (active, s1) = consume_active n s in
      case active of
        Some badge \<Rightarrow> Some (Got badge, s1)
      | None \<Rightarrow>
          if \<not> blocking then Some (Got 0, s1)
          else do {
            s2 \<leftarrow> dequeue tcb s1;
            Some (Blocked, upd_ntfn n (ntfn_set_state NtfnWaiting)
                    (ntfn_enqueue_waiter n tcb (set_blocked_on_notification tcb n s2)))
          })"

definition unbind_bound_tcb :: "u64 \<Rightarrow> kstate \<Rightarrow> kstate" where
  "unbind_bound_tcb n s =
     (let bound = ntfn_bound_tcb (ntfns s n);
          s1 = upd_ntfn n (ntfn_set_bound_tcb None) s
      in case bound of
           Some t \<Rightarrow> if is_kernel_pspace_kva t then snd (clear_bound_notification_if t n s1) else s1
         | None \<Rightarrow> s1)"

partial_function (option) ntfn_drain :: "u64 option \<Rightarrow> kstate \<Rightarrow> kstate option" where
  "ntfn_drain nxt s = (case nxt of
     None \<Rightarrow> Some s
   | Some waiter \<Rightarrow>
       let (following, s1) = restart_notification_waiter waiter s
       in Option.bind (enqueue waiter s1) (ntfn_drain following))"

definition ntfn_finalize :: "u64 \<Rightarrow> kstate \<Rightarrow> kstate option" where
  "ntfn_finalize n s =
     (let (head, s1) = take_all_waiting n (unbind_bound_tcb n s) in ntfn_drain head s1)"

section \<open>Effect on the wait queue\<close>

lemma set_ntfn_q_sel [simp, st_simps]:
  "ntfns (set_ntfn_q n q s) = (ntfns s)(n := fst q)" "tlinks (set_ntfn_q n q s) = snd q"
  "tcbs (set_ntfn_q n q s) = tcbs s" "runqueues (set_ntfn_q n q s) = runqueues s"
  "eps (set_ntfn_q n q s) = eps s" "ctes (set_ntfn_q n q s) = ctes s"
  "MAX_NUM_NODES (set_ntfn_q n q s) = MAX_NUM_NODES s" "idle_tcbs (set_ntfn_q n q s) = idle_tcbs s"
  "cpu_current (set_ntfn_q n q s) = cpu_current s" "mem (set_ntfn_q n q s) = mem s"
  "current_core_id (set_ntfn_q n q s) = current_core_id s" "resched (set_ntfn_q n q s) = resched s"
  by (simp_all add: set_ntfn_q_def)

interpretation ntfnq: kernel_queue queue_ends_of_notification NtfnQ ntfn_q set_ntfn_q
proof unfold_locales
  show "qends (set_ntfn_q n q s) j = qends s j" if "j \<noteq> NtfnQ n" for j n q s
    using that by (cases j) auto
qed (simp_all add: ntfn_q_def)

lemma ntfn_queue_ops_frame [obj_simps]:
  "ntfn_state_of (fst (push_back queue_ends_of_notification t q)) = ntfn_state_of (fst q)"
  "ntfn_badge (fst (push_back queue_ends_of_notification t q)) = ntfn_badge (fst q)"
  "ntfn_bound_tcb (fst (push_back queue_ends_of_notification t q)) = ntfn_bound_tcb (fst q)"
  "ntfn_state_of (fst (snd (pop_front queue_ends_of_notification q))) = ntfn_state_of (fst q)"
  "ntfn_badge (fst (snd (pop_front queue_ends_of_notification q))) = ntfn_badge (fst q)"
  "ntfn_bound_tcb (fst (snd (pop_front queue_ends_of_notification q))) = ntfn_bound_tcb (fst q)"
  "ntfn_state_of (fst (remove queue_ends_of_notification t q)) = ntfn_state_of (fst q)"
  by (simp_all add: push_back_def pop_front_def remove_def Let_def obj_simps split: prod.splits option.splits)

lemma queues_inv_ntfn_fix_tail:
  assumes "queues_inv_mod W s qs" "\<And>x. ntfn_head (f x) = ntfn_head x" "\<And>x. ntfn_tail (f x) = ntfn_tail x"
  shows "queues_inv_mod W (upd_ntfn n (\<lambda>x. if ntfn_head x = None
      then f (qe_set_tail queue_ends_of_notification None x) else x) s) qs"
proof (rule queues_inv_upd_ntfn [OF assms(1)])
  have "ntfn_head (ntfns s n) = None \<Longrightarrow> ntfn_tail (ntfns s n) = None"
    using ntfnq.head_result [OF assms(1), of n] ntfnq.tail_result [OF assms(1), of n]
    by (cases "qs (NtfnQ n)") (auto simp: ntfn_q_def)
  then show "ntfn_tail (if ntfn_head (ntfns s n) = None
      then f (qe_set_tail queue_ends_of_notification None (ntfns s n)) else ntfns s n) = ntfn_tail (ntfns s n)"
    using assms(3) by (simp add: ntfn_queue.ends_laws)
qed (simp add: assms(2) ntfn_queue.ends_laws)

lemma ntfn_pop_head_eq:
  "ntfn_pop_head n s =
     (fst (pop_front queue_ends_of_notification (ntfn_q s n)),
      upd_ntfn n (\<lambda>x. if ntfn_head x = None then qe_set_tail queue_ends_of_notification None x else x)
        (set_ntfn_q n (snd (pop_front queue_ends_of_notification (ntfn_q s n))) s))"
  by (simp add: ntfn_pop_head_def case_prod_beta)

lemma ntfn_pop_head_sel [simp, st_simps]:
  "n' \<noteq> n \<Longrightarrow> ntfns (snd (ntfn_pop_head n s)) n' = ntfns s n'"
  "tcbs (snd (ntfn_pop_head n s)) = tcbs s" "eps (snd (ntfn_pop_head n s)) = eps s"
  "ctes (snd (ntfn_pop_head n s)) = ctes s" "mem (snd (ntfn_pop_head n s)) = mem s"
  "MAX_NUM_NODES (snd (ntfn_pop_head n s)) = MAX_NUM_NODES s"
  "idle_tcbs (snd (ntfn_pop_head n s)) = idle_tcbs s"
  "current_core_id (snd (ntfn_pop_head n s)) = current_core_id s"
  "ntfn_state_of (ntfns (snd (ntfn_pop_head n s)) n) = ntfn_state_of (ntfns s n)"
  "ntfn_badge (ntfns (snd (ntfn_pop_head n s)) n) = ntfn_badge (ntfns s n)"
  "ntfn_bound_tcb (ntfns (snd (ntfn_pop_head n s)) n) = ntfn_bound_tcb (ntfns s n)"
  by (simp_all add: ntfn_pop_head_eq obj_simps) (simp_all add: ntfn_q_def)

lemma ntfn_pop_head_spec:
  assumes inv: "queues_inv_mod W s qs"
  shows "fst (ntfn_pop_head n s) = first_or (qs (NtfnQ n)) None"
    and "queues_inv_mod W (snd (ntfn_pop_head n s)) (qs(NtfnQ n := tl (qs (NtfnQ n))))"
  using ntfnq.pop_result [OF inv, of n] queues_inv_ntfn_fix_tail [OF ntfnq.inv_pop [OF inv, of n], of "\<lambda>x. x" n]
  by (simp_all add: ntfn_pop_head_eq)

section \<open>Signalling\<close>

definition ntfn_completed :: "u64 \<Rightarrow> tcb \<Rightarrow> tcb" where
  "ntfn_completed badge x = (write_notification_badge_regs badge (x\<lparr> tcb_waiting_on := None \<rparr>))\<lparr> tcb_state := Running \<rparr>"

lemma upt_4: "[0..<4] = [0, 1, 2, 3]"
  by (simp add: upt_rec)

lemma ntfn_completed_fields:
  "tcb_state (ntfn_completed badge x) = Running" "tcb_waiting_on (ntfn_completed badge x) = None"
  "cap_reg (tcb_context (ntfn_completed badge x)) = badge" "tcb_affinity (ntfn_completed badge x) = tcb_affinity x"
  by (simp_all add: ntfn_completed_def write_notification_badge_regs_def cap_reg_def set_cap_reg_def
      set_msg_info_def set_mr_def uc_get_def uc_put_def clear_ipc_regs_def upt_4)

lemma complete_notification_wait_eq:
  "complete_notification_wait t badge s = upd_tcb t (ntfn_completed badge) s"
  by (simp add: complete_notification_wait_def ntfn_completed_def [abs_def])

text \<open>Taking the first waiter and settling the state of the object.\<close>

lemma ntfn_pop_settled:
  assumes inv: "wait_inv s qs" and q: "qs (NtfnQ n) = t # ts"
  defines "s' \<equiv> upd_ntfn n (\<lambda>x. if ntfn_head x = None then ntfn_set_state NtfnIdle x else x)
    (snd (ntfn_pop_head n s))"
  shows "wait_inv s' (qs(NtfnQ n := ts))"
    and "ntfn_state_of (ntfns s' n) = (if ts = [] then NtfnIdle else NtfnWaiting)"
proof -
  let ?s1 = "snd (ntfn_pop_head n s)"
  have inv1: "queues_inv ?s1 (qs(NtfnQ n := ts))"
    using ntfn_pop_head_spec(2) [OF wait_invD(1) [OF inv], of n] q by simp
  have hd1: "ntfn_head (ntfns ?s1 n) = first_or ts None"
    using ntfnq.head_result [OF inv1, of n] by (simp add: ntfn_q_def)
  have inv': "queues_inv s' (qs(NtfnQ n := ts))"
    unfolding s'_def by (rule queues_inv_upd_ntfn [OF inv1]) (simp_all add: obj_simps)
  have "ntfn_state_of (ntfns s n) = NtfnWaiting"
    using wait_invD(3) [OF inv, of n] q by (simp add: ntfn_ok_def)
  then show st: "ntfn_state_of (ntfns s' n) = (if ts = [] then NtfnIdle else NtfnWaiting)"
    using hd1 by (simp add: s'_def obj_simps first_or_eq_None)
  show "wait_inv s' (qs(NtfnQ n := ts))"
  proof (rule wait_inv_step [OF inv inv', where E = "{}" and N = "{n}" and T = "{}"])
    show "ntfn_ok s' ((qs(NtfnQ n := ts)) (NtfnQ n')) n'" if "n' \<in> {n}" for n'
      using that st wait_invD(3) [OF inv, of n] q
      by (auto simp: ntfn_ok_def waits_on_notification_def s'_def)
  qed (use wait_invD(4) [OF inv] in \<open>auto simp: s'_def\<close>)
qed

lemma head_free:
  assumes "queues_inv_mod W s qs" "qs i = t # ts"
  shows "t \<notin> set ((qs(i := ts)) j)" "tcb_addr_ok t"
  using queues_invD(2) [OF assms(1), of t i j] queues_invD(4) [OF assms(1), of i]
    queues_invD(5) [OF assms(1), of t i] assms(2)
  by auto

lemma signal_waiting_spec:
  assumes inv: "wait_inv s qs" and cfg: "0 < MAX_NUM_NODES s" and q: "qs (NtfnQ n) = t # ts"
  shows "\<exists>s'. signal n badge s = Some s' \<and> wait_inv s' (woken s' [t] (qs(NtfnQ n := ts))) \<and>
    tcbs s' = (tcbs s)(t := ntfn_completed badge (tcbs s t)) \<and>
    ntfn_state s' n = (if ts = [] then NtfnIdle else NtfnWaiting) \<and> eps s' = eps s"
proof -
  note qinv = wait_invD(1) [OF inv]
  note free = head_free [OF qinv q]
  define s2 where "s2 = upd_ntfn n (\<lambda>x. if ntfn_head x = None then ntfn_set_state NtfnIdle x else x)
    (snd (ntfn_pop_head n s))"
  define s3 where "s3 = complete_notification_wait t badge s2"
  note settled = ntfn_pop_settled [OF inv q, folded s2_def]
  have "wait_inv s3 (qs(NtfnQ n := ts))"
    unfolding s3_def complete_notification_wait_eq
    by (rule wait_inv_upd_tcb [OF settled(1)]) (rule free(1))+
  then obtain s' where s': "enqueue t s3 = Some s'" "wait_inv s' (woken s' [t] (qs(NtfnQ n := ts)))"
    "only_queues_changed s3 s'"
    using wait_inv_enqueue [of s3 "qs(NtfnQ n := ts)" t] free cfg
    by (auto simp: s3_def s2_def complete_notification_wait_eq simp del: fun_upd_apply)
  note same = only_queues_changedD [OF s'(3)]
  have "fst (ntfn_pop_head n s) = Some t" using ntfn_pop_head_spec(1) [OF qinv, of n] q by simp
  moreover have "ntfn_state_of (ntfns s n) = NtfnWaiting"
    using wait_invD(3) [OF inv, of n] q by (simp add: ntfn_ok_def)
  ultimately have "signal n badge s = Some s'"
    using s'(1) by (simp add: signal_def ntfn_state_def signal_waiting_def case_prod_beta s2_def s3_def)
  moreover have "tcbs s3 = (tcbs s)(t := ntfn_completed badge (tcbs s t))" "eps s3 = eps s" "ntfns s3 = ntfns s2"
    by (simp_all add: s3_def s2_def complete_notification_wait_eq)
  ultimately show ?thesis using s'(2) same settled(2) by (intro exI [of _ s']) (simp add: ntfn_state_def)
qed

text \<open>Latching: nobody is waiting, and no bound thread is blocked in a receive.\<close>

definition latched_badge :: "kstate \<Rightarrow> u64 \<Rightarrow> u64" where
  "latched_badge s n = (if ntfn_state s n = NtfnActive then ntfn_badge (ntfns s n) else 0)"

lemma signal_latch_eq:
  assumes "ntfn_state s n \<noteq> NtfnWaiting" "Option.bind (bound_tcb s n) (blocked_receive_of s) = None"
  shows "signal n b s = Some (latch n (latched_badge s n OR b) s)"
  using assms
  by (cases "ntfn_state s n")
    (simp_all add: signal_def signal_idle_or_active_def latched_badge_def ntfn_state_def bound_tcb_def)

lemma latch_sel [simp]:
  "tcbs (latch n b s) = tcbs s" "ntfn_state (latch n b s) n = NtfnActive" "latched_badge (latch n b s) n = b"
  "bound_tcb (latch n b s) n = bound_tcb s n"
  by (simp_all add: latch_def ntfn_state_def latched_badge_def bound_tcb_def obj_simps)

lemma blocked_receive_of_cong: "tcbs s' = tcbs s \<Longrightarrow> blocked_receive_of s' = blocked_receive_of s"
  by (rule ext) (simp add: blocked_receive_of_def)

lemma wait_inv_latch: "wait_inv s qs \<Longrightarrow> ntfn_state s n \<noteq> NtfnWaiting \<Longrightarrow> wait_inv (latch n b s) qs"
  unfolding latch_def by (rule wait_inv_upd_ntfn) (auto simp: obj_simps ntfn_state_def)

fun signals :: "u64 \<Rightarrow> u64 list \<Rightarrow> kstate \<Rightarrow> kstate option" where
  "signals n [] s = Some s"
| "signals n (b # bs) s = Option.bind (signal n b s) (signals n bs)"

lemma signals_latch:
  assumes "wait_inv s qs" "ntfn_state s n \<noteq> NtfnWaiting"
    "Option.bind (bound_tcb s n) (blocked_receive_of s) = None"
  shows "\<exists>s'. signals n bs s = Some s' \<and> wait_inv s' qs \<and> tcbs s' = tcbs s \<and>
    latched_badge s' n = fold (OR) bs (latched_badge s n) \<and>
    ntfn_state s' n = (if bs = [] then ntfn_state s n else NtfnActive)"
  using assms
proof (induction bs arbitrary: s)
  case (Cons b bs)
  let ?s = "latch n (latched_badge s n OR b) s"
  have "\<exists>s'. signals n bs ?s = Some s' \<and> wait_inv s' qs \<and> tcbs s' = tcbs ?s \<and>
    latched_badge s' n = fold (OR) bs (latched_badge ?s n) \<and>
    ntfn_state s' n = (if bs = [] then ntfn_state ?s n else NtfnActive)"
    by (rule Cons.IH) (use Cons.prems wait_inv_latch blocked_receive_of_cong [of ?s s] in simp_all)
  then show ?case using signal_latch_eq [OF Cons.prems(2,3), of b] by (auto simp: or.commute)
qed simp

text \<open>Delivery to a bound thread that is blocked receiving on an endpoint.\<close>

definition bound_completed :: "u64 \<Rightarrow> tcb \<Rightarrow> tcb" where
  "bound_completed badge x = (write_notification_badge_regs badge
     (clear_endpoint_ipc_state (x\<lparr> tcb_waiting_on := None \<rparr>)))\<lparr> tcb_state := Running \<rparr>"

lemma bound_completed_fields:
  "tcb_state (bound_completed badge x) = Running" "tcb_waiting_on (bound_completed badge x) = None"
  "cap_reg (tcb_context (bound_completed badge x)) = badge"
  by (simp_all add: bound_completed_def write_notification_badge_regs_def cap_reg_def set_cap_reg_def
      set_msg_info_def set_mr_def uc_get_def uc_put_def clear_ipc_regs_def upt_4 clear_endpoint_ipc_state_def
      clear_fault_def)

lemma signal_bound_spec:
  assumes inv: "wait_inv s qs" and cfg: "0 < MAX_NUM_NODES s" and st: "ntfn_state s n \<noteq> NtfnWaiting"
    and t: "bound_tcb s n = Some t" "waits_on_endpoint s t e False" "tcb_addr_ok t"
      "\<And>i. t \<in> set (qs i) \<Longrightarrow> i = EpQ e"
  shows "\<exists>s'. signal n b s = Some s' \<and>
    wait_inv s' (woken s' [t] (qs(EpQ e := remove1 t (qs (EpQ e))))) \<and>
    tcbs s' = (tcbs s)(t := bound_completed (latched_badge s n OR b) (tcbs s t)) \<and> ntfn_state s' n = NtfnIdle"
proof -
  let ?b = "latched_badge s n OR b" and ?qs = "qs(EpQ e := remove1 t (qs (EpQ e)))"
  obtain s1 ep lk where s1: "ep_remove_waiter e t s = Some s1" "wait_inv s1 ?qs" "s1 = s\<lparr> eps := ep, tlinks := lk \<rparr>"
    using ep_remove_wait_inv [OF inv, of e t] by blast
  have free: "t \<notin> set (?qs i)" for i
    using t(4) [of i] queues_invD(4) [OF wait_invD(1) [OF inv], of "EpQ e"] by auto
  define s2 where "s2 = upd_ntfn n (\<lambda>x. ntfn_set_state NtfnIdle (ntfn_set_badge 0 x)) s1"
  define s3 where "s3 = complete_bound_endpoint_notification_wait t ?b s2"
  have s3: "s3 = upd_tcb t (bound_completed ?b) s2"
    by (simp add: s3_def complete_bound_endpoint_notification_wait_def bound_completed_def [abs_def])
  have "wait_inv s2 ?qs"
    unfolding s2_def by (rule wait_inv_upd_ntfn [OF s1(2)]) (use st s1(3) in \<open>auto simp: obj_simps ntfn_state_def\<close>)
  then have "wait_inv s3 ?qs" unfolding s3 by (rule wait_inv_upd_tcb) (rule free)+
  then obtain s' where s': "enqueue t s3 = Some s'" "wait_inv s' (woken s' [t] ?qs)" "only_queues_changed s3 s'"
    using wait_inv_enqueue [of s3 ?qs t] free t(3) cfg
    by (auto simp: s3 s2_def s1(3) simp del: fun_upd_apply)
  note same = only_queues_changedD [OF s'(3)]
  have "deliver_to_bound_endpoint_receiver n t e ?b s = Some (True, s')"
    using s'(1) s1(1) t(1,2) by (simp add: deliver_to_bound_endpoint_receiver_def s3_def s2_def)
  moreover have "blocked_receive_of s t = Some (OnEndpoint e)"
    using t(2) by (simp add: blocked_receive_of_def waits_on_endpoint_def)
  ultimately have "signal n b s = Some s'"
    using st t(1) by (cases "ntfn_state s n")
      (simp_all add: signal_def signal_idle_or_active_def latched_badge_def ntfn_state_def bound_tcb_def)
  moreover have "tcbs s3 = (tcbs s)(t := bound_completed ?b (tcbs s t))" "ntfn_state_of (ntfns s3 n) = NtfnIdle"
    by (simp_all add: s3 s2_def s1(3) obj_simps)
  ultimately show ?thesis using s'(2) same by (intro exI [of _ s']) (simp add: ntfn_state_def)
qed

section \<open>Waiting\<close>

lemma ntfn_enqueue_waiter_sel [simp, st_simps]:
  "n' \<noteq> n \<Longrightarrow> ntfns (ntfn_enqueue_waiter n t s) n' = ntfns s n'"
  "tcbs (ntfn_enqueue_waiter n t s) = tcbs s" "eps (ntfn_enqueue_waiter n t s) = eps s"
  "MAX_NUM_NODES (ntfn_enqueue_waiter n t s) = MAX_NUM_NODES s"
  "idle_tcbs (ntfn_enqueue_waiter n t s) = idle_tcbs s" "ctes (ntfn_enqueue_waiter n t s) = ctes s"
  by (simp_all add: ntfn_enqueue_waiter_def)

lemma ntfn_enqueue_wait_inv:
  assumes inv: "wait_inv s qs" and t: "tcb_addr_ok t" "\<And>i. t \<notin> set (qs i)" "waits_on_notification s t n"
  shows "wait_inv (upd_ntfn n (ntfn_set_state NtfnWaiting) (ntfn_enqueue_waiter n t s))
    (qs(NtfnQ n := qs (NtfnQ n) @ [t]))" (is "wait_inv ?s' ?qs'")
proof -
  have "queues_inv (ntfn_enqueue_waiter n t s) ?qs'"
    using ntfnq.inv_push [OF wait_invD(1) [OF inv] t(1,2)] by (simp add: ntfn_enqueue_waiter_def)
  then have "queues_inv ?s' ?qs'" by (rule queues_inv_upd_ntfn) (simp_all add: obj_simps)
  then show ?thesis
  proof (rule wait_inv_step [OF inv, where E = "{}" and N = "{n}" and T = "{}"])
    show "ntfn_ok ?s' (?qs' (NtfnQ n')) n'" if "n' \<in> {n}" for n'
      using that wait_invD(3) [OF inv, of n] t(3) by (auto simp: ntfn_ok_def waits_on_notification_def obj_simps)
  qed (use wait_invD(4) [OF inv] in auto)
qed

lemma consume_active_eq:
  "consume_active n s =
     (if ntfn_state s n = NtfnActive
      then (Some (latched_badge s n), upd_ntfn n (\<lambda>x. ntfn_set_state NtfnIdle (ntfn_set_badge 0 x)) s)
      else (None, s))"
  by (simp add: consume_active_def take_active_badge_def ntfn_state_def latched_badge_def upd_ntfn_def)

lemma ntfn_wait_blocks:
  assumes inv: "wait_inv s qs" and st: "ntfn_state s n \<noteq> NtfnActive" and t: "tcb_addr_ok t"
    and on: "\<And>i. t \<in> set (qs i) \<Longrightarrow> \<exists>c < MAX_NUM_NODES s. i = RunQ c"
  shows "\<exists>s'. ntfn_wait n t True s = Some (Blocked, s') \<and>
    wait_inv s' ((dequeued s t qs)(NtfnQ n := qs (NtfnQ n) @ [t])) \<and>
    waits_on_notification s' t n \<and> ntfn_state s' n = NtfnWaiting \<and> (\<forall>u. u \<noteq> t \<longrightarrow> tcbs s' u = tcbs s u)"
proof -
  obtain s1 where s1: "dequeue t s = Some s1" "wait_inv s1 (dequeued s t qs)" "only_queues_changed s s1"
    using wait_inv_dequeue [OF inv, of t] by blast
  have free: "t \<notin> set (dequeued s t qs i)" for i by (rule dequeued_free [OF wait_invD(1) [OF inv] on])
  define s2 where "s2 = set_blocked_on_notification t n s1"
  have inv2: "wait_inv s2 (dequeued s t qs)"
    unfolding s2_def set_blocked_on_notification_def by (rule wait_inv_upd_tcb [OF s1(2)]) (rule free)+
  have blk: "waits_on_notification s2 t n" by (simp add: s2_def set_blocked_on_notification_def waits_on_notification_def)
  let ?s' = "upd_ntfn n (ntfn_set_state NtfnWaiting) (ntfn_enqueue_waiter n t s2)"
  have "dequeued s t qs (NtfnQ n) = qs (NtfnQ n)" by (simp add: dequeued_def)
  then have "wait_inv ?s' ((dequeued s t qs)(NtfnQ n := qs (NtfnQ n) @ [t]))"
    using ntfn_enqueue_wait_inv [OF inv2 t free blk] by simp
  moreover have "ntfn_wait n t True s = Some (Blocked, ?s')"
    using st s1(1) by (simp add: ntfn_wait_def consume_active_eq s2_def)
  moreover have "waits_on_notification ?s' t n" using blk by (simp add: waits_on_notification_def)
  moreover have "tcbs ?s' u = tcbs s u" if "u \<noteq> t" for u
    using that only_queues_changedD(1) [OF s1(3)] by (simp add: s2_def set_blocked_on_notification_def)
  moreover have "ntfn_state ?s' n = NtfnWaiting" by (simp add: ntfn_state_def obj_simps)
  ultimately show ?thesis by blast
qed

lemma ntfn_remove_wait_inv:
  assumes inv: "wait_inv s qs"
  shows "\<exists>s'. ntfn_remove_waiter n t s = Some s' \<and> wait_inv s' (qs(NtfnQ n := remove1 t (qs (NtfnQ n)))) \<and>
    (\<exists>nf lk. s' = s\<lparr> ntfns := nf, tlinks := lk \<rparr>)"
proof (cases "t \<in> set (qs (NtfnQ n))")
  case True
  note qinv = wait_invD(1) [OF inv]
  let ?qs = "qs(NtfnQ n := remove1 t (qs (NtfnQ n)))"
  let ?s1 = "set_ntfn_q n (remove queue_ends_of_notification t (ntfn_q s n)) s"
  let ?s' = "upd_ntfn n (\<lambda>x. if ntfn_head x = None
    then ntfn_set_state NtfnIdle (qe_set_tail queue_ends_of_notification None x) else x) ?s1"
  note inv1 = ntfnq.inv_remove [OF qinv True]
  have rm: "ntfn_remove_waiter n t s = Some ?s'"
    using True ntfnq.contains_result [OF qinv, of t n] by (simp add: ntfn_remove_waiter_def)
  have hd1: "ntfn_head (ntfns ?s1 n) = first_or (remove1 t (qs (NtfnQ n))) None"
    using ntfnq.head_result [OF inv1, of n] by (simp add: ntfn_q_def)
  have inv': "queues_inv ?s' ?qs" by (rule queues_inv_ntfn_fix_tail [OF inv1]) (simp_all add: obj_simps)
  have "ntfn_state_of (ntfns s n) = NtfnWaiting" using wait_invD(3) [OF inv, of n] True by (auto simp: ntfn_ok_def)
  then have "ntfn_state_of (ntfns ?s1 n) = NtfnWaiting" by (simp add: obj_simps) (simp add: ntfn_q_def)
  then have st: "ntfn_state_of (ntfns ?s' n) = (if remove1 t (qs (NtfnQ n)) = [] then NtfnIdle else NtfnWaiting)"
    using hd1 by (simp add: obj_simps first_or_eq_None)
  have "wait_inv ?s' ?qs"
  proof (rule wait_inv_step [OF inv inv', where E = "{}" and N = "{n}" and T = "{}"])
    show "ntfn_ok ?s' (?qs (NtfnQ n')) n'" if "n' \<in> {n}" for n'
      using that st wait_invD(3) [OF inv, of n] set_remove1_subset [of t "qs (NtfnQ n)"]
      by (auto simp: ntfn_ok_def waits_on_notification_def simp del: upd_ntfn_sel(1))
  qed (use wait_invD(4) [OF inv] in auto)
  moreover have "\<exists>nf lk. ?s' = s\<lparr> ntfns := nf, tlinks := lk \<rparr>"
    by (rule exI [of _ "ntfns ?s'"], rule exI [of _ "tlinks ?s'"]) (simp add: upd_ntfn_def set_ntfn_q_def)
  ultimately show ?thesis using rm by blast
next
  case False
  then have "ntfn_remove_waiter n t s = Some s" "qs(NtfnQ n := remove1 t (qs (NtfnQ n))) = qs"
    using ntfnq.contains_result [OF wait_invD(1) [OF inv], of t n] by (simp_all add: ntfn_remove_waiter_def remove1_idem)
  moreover have "\<exists>nf lk. s = s\<lparr> ntfns := nf, tlinks := lk \<rparr>"
    by (rule exI [of _ "ntfns s"], rule exI [of _ "tlinks s"]) simp
  ultimately show ?thesis using inv by auto
qed

section \<open>Finalization\<close>

definition ntfn_restarted :: "tcb \<Rightarrow> tcb" where
  "ntfn_restarted x = x\<lparr> tcb_waiting_on := None, tcb_state := Restart \<rparr>"

interpretation ntfn_wait: wait_drain
  "\<lambda>w s. let (following, s1) = restart_notification_waiter w s in ((following, True), s1)" ntfn_restarted
  "\<lambda>_. True" "\<lambda>_. True" ntfn_drain
proof unfold_locales
  show "ntfn_drain (Some w) s = Option.bind (release_and_enqueue
      (\<lambda>w s. let (following, s1) = restart_notification_waiter w s in ((following, True), s1)) w s)
      (\<lambda>(following, s1). ntfn_drain following s1)" for w s
    by (subst ntfn_drain.simps) (simp add: release_and_enqueue_def Let_def case_prod_beta)
  show "ntfn_drain None s = Some s" for s by (simp add: ntfn_drain.simps)
qed (simp_all add: restart_notification_waiter_def ntfn_restarted_def [abs_def])

lemma unbind_bound_tcb_frame:
  assumes "wait_inv s qs"
  shows "wait_inv (unbind_bound_tcb n s) qs" "bound_tcb (unbind_bound_tcb n s) n = None"
    "MAX_NUM_NODES (unbind_bound_tcb n s) = MAX_NUM_NODES s"
    "tcb_state (tcbs (unbind_bound_tcb n s) t) = tcb_state (tcbs s t)"
    "eps (unbind_bound_tcb n s) = eps s" "ntfn_state (unbind_bound_tcb n s) n = ntfn_state s n"
proof -
  let ?s1 = "upd_ntfn n (ntfn_set_bound_tcb None) s"
  have inv1: "wait_inv ?s1 qs" by (rule wait_inv_upd_ntfn [OF assms]) (simp_all add: obj_simps)
  have "wait_inv (upd_tcb u (\<lambda>x. x\<lparr> tcb_bound_notification := None \<rparr>) ?s1) qs" for u
    using inv1 queues_inv_upds(1) [OF wait_invD(1) [OF inv1]]
    by (simp add: wait_inv_def ep_ok_def ntfn_ok_def waits_on_endpoint_def waits_on_notification_def)
  then show "wait_inv (unbind_bound_tcb n s) qs"
    using inv1 by (simp add: unbind_bound_tcb_def clear_bound_notification_if_def Let_def split: option.split)
qed (simp_all add: unbind_bound_tcb_def clear_bound_notification_if_def Let_def bound_tcb_def obj_simps
    ntfn_state_def split: option.split)

lemma ntfn_drain_wait_inv:
  assumes inv: "wait_inv s qs" and cfg: "0 < MAX_NUM_NODES s" and st: "ntfn_state s n = NtfnWaiting"
  shows "\<exists>s'. ntfn_drain (fst (take_all_waiting n s)) (snd (take_all_waiting n s)) = Some s' \<and>
    wait_inv s' (woken s' (qs (NtfnQ n)) (qs(NtfnQ n := []))) \<and>
    (\<forall>t. tcbs s' t = (if t \<in> set (qs (NtfnQ n)) then ntfn_restarted (tcbs s t) else tcbs s t)) \<and>
    ntfn_state s' n = NtfnIdle \<and> bound_tcb s' n = bound_tcb s n \<and> eps s' = eps s"
proof -
  let ?ws = "qs (NtfnQ n)" and ?s0 = "snd (take_all_waiting n s)" and ?qs = "qs(NtfnQ n := [])"
  note qinv = wait_invD(1) [OF inv]
  have s0: "tcbs ?s0 = tcbs s" "eps ?s0 = eps s" "MAX_NUM_NODES ?s0 = MAX_NUM_NODES s" "tlinks ?s0 = tlinks s"
    "ntfn_state_of (ntfns ?s0 n) = NtfnIdle" "ntfn_bound_tcb (ntfns ?s0 n) = ntfn_bound_tcb (ntfns s n)"
    "\<And>n'. n' \<noteq> n \<Longrightarrow> ntfns ?s0 n' = ntfns s n'"
    using st by (simp_all add: take_all_waiting_def obj_simps)
  have hd: "fst (take_all_waiting n s) = first_or ?ws None"
    using ntfnq.head_result [OF qinv, of n] st by (simp add: take_all_waiting_def ntfn_q_def)
  have "queues_inv_mod (set ?ws) ?s0 ?qs"
  proof (rule ntfnq.inv_take [OF qinv])
    show "qends ?s0 j = qends s j" if "j \<noteq> NtfnQ n" for j
      using that st by (cases j) (auto simp: take_all_waiting_def)
  qed (use st in \<open>simp_all add: take_all_waiting_def obj_simps ntfn_queue.ends_laws\<close>)
  moreover have "dll (tlinks ?s0) None ?ws None" using queues_invD(1) [OF qinv, of "NtfnQ n"] by (simp add: qrep_iff s0)
  ultimately obtain s' where s': "ntfn_drain (first_or ?ws None) ?s0 = Some s'" "queues_inv s' (woken s' ?ws ?qs)"
    "only_threads_changed ?s0 s'"
    "\<forall>t. tcbs s' t = (if t \<in> set ?ws then ntfn_restarted (tcbs ?s0 t) else tcbs ?s0 t)"
    using ntfn_wait.drain_spec [of ?ws ?s0 ?qs None] queues_invD(4) [OF qinv] queues_invD(5) [OF qinv]
    by (auto simp del: fun_upd_apply)
  note same = only_threads_changedD [OF s'(3)]
  have "wait_inv s' (woken s' ?ws ?qs)"
  proof (rule wait_inv_step [OF inv s'(2), where E = "{}" and N = "{n}" and T = "set ?ws"])
    show "ntfn_ok s' (woken s' ?ws ?qs (NtfnQ n')) n'" if "n' \<in> {n}" for n'
      using that by (simp add: ntfn_ok_def same s0)
    show "t \<notin> set (qs (EpQ e))" if "t \<in> set ?ws" for t e using queues_invD(2) [OF qinv that, of "EpQ e"] by auto
    show "t \<notin> set (qs (NtfnQ n'))" if "t \<in> set ?ws" "n' \<notin> {n}" for t n'
      using queues_invD(2) [OF qinv that(1), of "NtfnQ n'"] that(2) by auto
    show "woken s' ?ws ?qs (RunQ c) = []" if "MAX_NUM_NODES s' \<le> c" for c
      using that wait_invD(4) [OF inv, of c] home_core_lt [of s'] cfg
      by (simp add: woken_def same s0 filter_empty_conv) (metis leD)
  qed (use s'(4) in \<open>auto simp: same s0\<close>)
  then show ?thesis using s'(1,4) hd by (intro exI [of _ s']) (simp add: same s0 ntfn_state_def bound_tcb_def)
qed

lemma ntfn_finalize_spec:
  assumes inv: "wait_inv s qs" and cfg: "0 < MAX_NUM_NODES s"
  shows "\<exists>s'. ntfn_finalize n s = Some s' \<and> wait_inv s' (woken s' (qs (NtfnQ n)) (qs(NtfnQ n := []))) \<and>
    (\<forall>t\<in>set (qs (NtfnQ n)). tcb_state (tcbs s' t) = Restart \<and> tcb_waiting_on (tcbs s' t) = None) \<and>
    (\<forall>t. t \<notin> set (qs (NtfnQ n)) \<longrightarrow> tcb_state (tcbs s' t) = tcb_state (tcbs s t)) \<and>
    bound_tcb s' n = None \<and> ntfn_state s' n = (if ntfn_state s n = NtfnWaiting then NtfnIdle else ntfn_state s n)"
proof -
  note un = unbind_bound_tcb_frame [OF inv, of n]
  show ?thesis
  proof (cases "ntfn_state s n = NtfnWaiting")
    case True
    then show ?thesis
      using ntfn_drain_wait_inv [OF un(1), of n] un(2-6) cfg
      by (auto simp: ntfn_finalize_def case_prod_beta ntfn_restarted_def simp del: fun_upd_apply)
  next
    case False
    then have empty: "qs (NtfnQ n) = []" using wait_invD(3) [OF inv, of n] by (simp add: ntfn_ok_def ntfn_state_def)
    then have "woken (unbind_bound_tcb n s) (qs (NtfnQ n)) (qs(NtfnQ n := [])) = qs" by (metis fun_upd_triv woken_Nil)
    moreover have "ntfn_finalize n s = Some (unbind_bound_tcb n s)"
      using False un(6) by (simp add: ntfn_finalize_def take_all_waiting_def ntfn_drain.simps)
    ultimately show ?thesis using False empty un by simp
  qed
qed

section \<open>Properties\<close>

definition ntfn_a :: u64 where "ntfn_a = 0xFFFFFFC080003000"

text \<open>
  C31: A signal is never lost while nobody waits. Whatever signals arrive, the next wait collects
  the bitwise or of everything signalled since the last one, and the notification is idle again; if
  nothing was signalled there is nothing to collect.
\<close>

theorem notification_collects_all_signals:
  assumes "wait_inv s qs" "ntfn_state s n = NtfnIdle"
    and "Option.bind (bound_tcb s n) (blocked_receive_of s) = None"
  shows "\<exists>s1 s2. signals n bs s = Some s1 \<and>
    consume_active n s1 = ((if bs = [] then None else Some (fold (OR) bs 0)), s2) \<and>
    ntfn_state s2 n = NtfnIdle \<and> wait_inv s2 qs \<and> tcbs s2 = tcbs s"
proof -
  obtain s1 where s1: "signals n bs s = Some s1" "wait_inv s1 qs" "tcbs s1 = tcbs s"
    "latched_badge s1 n = fold (OR) bs (latched_badge s n)"
    "ntfn_state s1 n = (if bs = [] then ntfn_state s n else NtfnActive)"
    using signals_latch [OF assms(1) _ assms(3), of bs] assms(2) by auto
  let ?s2 = "snd (consume_active n s1)"
  have "wait_inv ?s2 qs"
    unfolding consume_active_eq using s1(2)
    by (auto intro!: wait_inv_upd_ntfn simp: obj_simps ntfn_state_def)
  moreover have "ntfn_state ?s2 n = NtfnIdle" "tcbs ?s2 = tcbs s"
    using s1(3,5) assms(2) by (auto simp: consume_active_eq ntfn_state_def obj_simps)
  moreover have "latched_badge s n = 0" using assms(2) by (simp add: latched_badge_def)
  then have "fst (consume_active n s1) = (if bs = [] then None else Some (fold (OR) bs 0))"
    using s1(4,5) assms(2) by (simp add: consume_active_eq)
  then have "consume_active n s1 = ((if bs = [] then None else Some (fold (OR) bs 0)), ?s2)"
    by (simp add: prod_eq_iff)
  ultimately show ?thesis using s1(1) by blast
qed

theorem notification_collects_all_signals_witness:
  "\<exists>s1 s2. signals ntfn_a [1, 4, 1] (empty_kstate 1 0) = Some s1 \<and> consume_active ntfn_a s1 = (Some 5, s2)"
proof -
  have "ntfn_state (empty_kstate 1 0) ntfn_a = NtfnIdle" "bound_tcb (empty_kstate 1 0) ntfn_a = None"
    by (simp_all add: ntfn_state_def bound_tcb_def ntfn_bound_tcb_def ntfn_state_of_def notification_new_def from_kva_def)
  then show ?thesis
    using notification_collects_all_signals [OF wait_inv_empty [of 1 0], of ntfn_a "[1, 4, 1]"] by auto
qed

text \<open>
  C32: A signal on a notification with waiters goes to the one that has waited longest, and only
  to it: that thread receives the badge in its message register, is running and ready on its core;
  the others keep waiting in order, and the object is idle once the last one is served.
\<close>

theorem signal_wakes_longest_waiter:
  assumes "wait_inv s qs" "core_config_ok s" "qs (NtfnQ n) = t # ts"
  shows "\<exists>s'. signal n badge s = Some s' \<and> wait_inv s' (woken s' [t] (qs(NtfnQ n := ts))) \<and>
    tcb_state (tcbs s' t) = Running \<and> cap_reg (tcb_context (tcbs s' t)) = badge \<and>
    (\<forall>u. u \<noteq> t \<longrightarrow> tcbs s' u = tcbs s u) \<and> ntfn_state s' n = (if ts = [] then NtfnIdle else NtfnWaiting)"
proof -
  have "0 < MAX_NUM_NODES s" using assms(2) by (simp add: core_config_ok_def)
  from signal_waiting_spec [OF assms(1) this assms(3), of badge] show ?thesis
    by (auto simp: ntfn_completed_fields simp del: fun_upd_apply) (auto simp: ntfn_completed_fields)
qed

text \<open>
  A blocking wait on a notification without a pending signal takes the thread off the ready
  queues and appends it to the wait queue, blocked on this object.
\<close>

theorem wait_blocks_thread:
  assumes "wait_inv s qs" "ntfn_state s n \<noteq> NtfnActive" "tcb_addr_ok t"
    and "\<And>i. t \<in> set (qs i) \<Longrightarrow> \<exists>c < MAX_NUM_NODES s. i = RunQ c"
  shows "\<exists>s'. ntfn_wait n t True s = Some (Blocked, s') \<and>
    wait_inv s' ((dequeued s t qs)(NtfnQ n := qs (NtfnQ n) @ [t])) \<and>
    waits_on_notification s' t n \<and> ntfn_state s' n = NtfnWaiting \<and> (\<forall>u. u \<noteq> t \<longrightarrow> tcbs s' u = tcbs s u)"
  by (rule ntfn_wait_blocks) (use assms in auto)

lemma ntfn_a_fresh: "ntfn_state (empty_kstate 1 0) ntfn_a = NtfnIdle" "bound_tcb (empty_kstate 1 0) ntfn_a = None"
  by (simp_all add: ntfn_state_def bound_tcb_def ntfn_bound_tcb_def ntfn_state_of_def notification_new_def from_kva_def)

theorem wait_blocks_thread_witness:
  "\<exists>s'. ntfn_wait ntfn_a thr_a True (empty_kstate 1 0) = Some (Blocked, s') \<and>
     wait_inv s' ((\<lambda>_. [])(NtfnQ ntfn_a := [thr_a]))"
proof -
  have "dequeued (empty_kstate 1 0) thr_a (\<lambda>_. []) = (\<lambda>_. [])"
    by (auto simp: dequeued_def fun_eq_iff split: qid.split)
  then show ?thesis
    using wait_blocks_thread [OF wait_inv_empty [of 1 0] _ thr_addr_ok(1), of ntfn_a] ntfn_a_fresh(1) by auto
qed

lemma waiting_thread:
  "\<exists>s. wait_inv s ((\<lambda>_. [])(NtfnQ ntfn_a := [thr_a])) \<and> core_config_ok s"
proof -
  let ?base = "set_blocked_on_notification thr_a ntfn_a (empty_kstate 1 0)"
  let ?s = "upd_ntfn ntfn_a (ntfn_set_state NtfnWaiting) (ntfn_enqueue_waiter ntfn_a thr_a ?base)"
  have inv0: "wait_inv ?base (\<lambda>_. [])"
    unfolding set_blocked_on_notification_def by (rule wait_inv_upd_tcb [OF wait_inv_empty]) simp_all
  have "wait_inv ?s ((\<lambda>_. [])(NtfnQ ntfn_a := [] @ [thr_a]))"
    by (rule ntfn_enqueue_wait_inv [OF inv0 thr_addr_ok(1)])
      (simp_all add: waits_on_notification_def set_blocked_on_notification_def)
  moreover have "core_config_ok ?s"
    by (simp add: core_config_ok_def ntfn_enqueue_waiter_def set_blocked_on_notification_def)
  ultimately show ?thesis by auto
qed

theorem signal_wakes_longest_waiter_witness:
  "\<exists>s s'. signal ntfn_a 6 s = Some s' \<and> cap_reg (tcb_context (tcbs s' thr_a)) = 6 \<and> ntfn_state s' ntfn_a = NtfnIdle"
proof -
  obtain s where s: "wait_inv s ((\<lambda>_. [])(NtfnQ ntfn_a := [thr_a]))" "core_config_ok s" using waiting_thread by blast
  from signal_wakes_longest_waiter [OF s, of ntfn_a thr_a "[]" 6] show ?thesis by auto
qed

text \<open>
  C33: A thread bound to a notification and blocked receiving on an endpoint gets a signal at once:
  it leaves the endpoint's queue, runs with everything signalled so far in its message register, and
  nothing stays latched.
\<close>

theorem signal_reaches_bound_receiver:
  assumes "wait_inv s qs" "core_config_ok s" "ntfn_state s n \<noteq> NtfnWaiting"
    and "bound_tcb s n = Some t" "waits_on_endpoint s t e False" "tcb_addr_ok t"
    and "\<And>i. t \<in> set (qs i) \<Longrightarrow> i = EpQ e"
  shows "\<exists>s'. signal n b s = Some s' \<and>
    wait_inv s' (woken s' [t] (qs(EpQ e := remove1 t (qs (EpQ e))))) \<and>
    tcb_state (tcbs s' t) = Running \<and> cap_reg (tcb_context (tcbs s' t)) = latched_badge s n OR b \<and>
    (\<forall>u. u \<noteq> t \<longrightarrow> tcbs s' u = tcbs s u) \<and> ntfn_state s' n = NtfnIdle"
proof -
  have "0 < MAX_NUM_NODES s" using assms(2) by (simp add: core_config_ok_def)
  from signal_bound_spec [OF assms(1) this assms(3-7), of b]
  obtain s' where s': "signal n b s = Some s'" "wait_inv s' (woken s' [t] (qs(EpQ e := remove1 t (qs (EpQ e)))))"
    "tcbs s' = (tcbs s)(t := bound_completed (latched_badge s n OR b) (tcbs s t))" "ntfn_state s' n = NtfnIdle"
    by blast
  then show ?thesis by (intro exI [of _ s']) (simp add: bound_completed_fields)
qed

theorem signal_reaches_bound_receiver_witness:
  "\<exists>s s'. signal ntfn_a 6 s = Some s' \<and> cap_reg (tcb_context (tcbs s' thr_a)) = 6 \<and>
     tcb_state (tcbs s thr_a) = BlockedOnReceive"
proof -
  let ?base = "bind_notification thr_a ntfn_a (set_blocked_receiver thr_a ep_a True (empty_kstate 1 0))"
  let ?s = "ep_enqueue_waiter ep_a thr_a EpReceiving ?base"
  have "wait_inv (set_blocked_receiver thr_a ep_a True (empty_kstate 1 0)) (\<lambda>_. [])"
    unfolding set_blocked_receiver_def by (rule wait_inv_upd_tcb [OF wait_inv_empty]) simp_all
  then have "wait_inv ?base (\<lambda>_. [])"
    unfolding bind_notification_def Let_def
    by (intro wait_inv_upd_ntfn wait_inv_upd_tcb)
      (auto simp: obj_simps set_blocked_receiver_def clear_endpoint_ipc_state_def clear_fault_def tcb_zero_def)
  then have inv: "wait_inv ?s ((\<lambda>_. [])(EpQ ep_a := [] @ [thr_a]))"
    by (rule ep_enqueue_wait_inv [OF _ thr_addr_ok(1)])
      (simp_all add: waits_on_endpoint_def bind_notification_def set_blocked_receiver_def
        clear_endpoint_ipc_state_def clear_fault_def tcb_zero_def)
  have sel: "tcb_bound_notification tcb_zero = None" "thr_a \<noteq> 0" by (simp_all add: tcb_zero_def thr_a_def)
  have st: "ntfn_state ?s ntfn_a = NtfnIdle" "bound_tcb ?s ntfn_a = Some thr_a" "core_config_ok ?s"
    "waits_on_endpoint ?s thr_a ep_a False" "tcb_state (tcbs ?s thr_a) = BlockedOnReceive"
    using ntfn_a_fresh
    by (simp_all add: ntfn_state_def bound_tcb_def bind_notification_def set_blocked_receiver_def obj_simps
        waits_on_endpoint_def core_config_ok_def clear_endpoint_ipc_state_def clear_fault_def sel)
  have "latched_badge ?s ntfn_a = 0" using st(1) by (simp add: latched_badge_def)
  moreover have "i = EpQ ep_a" if "thr_a \<in> set (((\<lambda>_. [])(EpQ ep_a := [] @ [thr_a])) i)" for i
    using that by (simp split: if_splits)
  ultimately obtain s' where "signal ntfn_a 6 ?s = Some s'" "cap_reg (tcb_context (tcbs s' thr_a)) = 6"
    using signal_reaches_bound_receiver [OF inv st(3) _ st(2,4) thr_addr_ok(1), of 6] st(1) by auto
  with st(5) show ?thesis by blast
qed

text \<open>
  Finalizing a notification ends, restarts every waiter in order, unbinds the bound thread and
  leaves a latched badge alone.
\<close>

theorem notification_finalize_releases_all:
  assumes "wait_inv s qs" "core_config_ok s"
  shows "\<exists>s'. ntfn_finalize n s = Some s' \<and> wait_inv s' (woken s' (qs (NtfnQ n)) (qs(NtfnQ n := []))) \<and>
    (\<forall>t\<in>set (qs (NtfnQ n)). tcb_state (tcbs s' t) = Restart \<and> tcb_waiting_on (tcbs s' t) = None) \<and>
    (\<forall>t. t \<notin> set (qs (NtfnQ n)) \<longrightarrow> tcb_state (tcbs s' t) = tcb_state (tcbs s t)) \<and>
    bound_tcb s' n = None \<and> ntfn_state s' n = (if ntfn_state s n = NtfnWaiting then NtfnIdle else ntfn_state s n)"
  by (rule ntfn_finalize_spec) (use assms in \<open>auto simp: core_config_ok_def\<close>)

theorem notification_finalize_releases_all_witness:
  "\<exists>s s'. ntfn_finalize ntfn_a s = Some s' \<and> tcb_state (tcbs s' thr_a) = Restart"
proof -
  obtain s where s: "wait_inv s ((\<lambda>_. [])(NtfnQ ntfn_a := [thr_a]))" "core_config_ok s" using waiting_thread by blast
  from notification_finalize_releases_all [OF s, of ntfn_a] show ?thesis by auto
qed

end
