(* ===== verification/Rel4_Irq.thy ===== *)
theory Rel4_Irq
  imports Rel4_Notification
begin

text \<open>
  Interrupt numbers, the kernel's table of interrupt notifications and the timer
  (\<^verbatim>\<open>object/irq.rs\<close>, \<^verbatim>\<open>arch/riscv64/machine/irq.rs\<close> and the timer part of
  \<^verbatim>\<open>arch/riscv64/kernel/trap.rs\<close>). Enabling, disabling and completing a line at the interrupt controller
  are recorded as events. The operations of \<^verbatim>\<open>object/irq.rs\<close> that delete a notification
  capability are in the theory of deletion. The lemmas at the end show that servicing a timer that is
  due returns and leaves every capability slot alone.
\<close>

section \<open>Interrupt lines\<close>

definition PLIC_MAX_IRQ :: nat where "PLIC_MAX_IRQ = 95"
definition KERNEL_TIMER_IRQ :: nat where "KERNEL_TIMER_IRQ = PLIC_MAX_IRQ + 1"
definition MAX_IRQ :: nat where "MAX_IRQ = KERNEL_TIMER_IRQ"
definition NUM_IRQS :: nat where "NUM_IRQS = MAX_IRQ + 1"

definition is_external_irq :: "u64 \<Rightarrow> bool" where
  "is_external_irq irq \<longleftrightarrow> 0 < irq \<and> irq \<le> of_nat PLIC_MAX_IRQ"

definition enable_external_irq :: "u64 \<Rightarrow> kstate \<Rightarrow> kstate" where
  "enable_external_irq irq s = (if is_external_irq irq then log_event (EvIrqEnable irq) s else s)"

definition disable_external_irq :: "u64 \<Rightarrow> kstate \<Rightarrow> kstate" where
  "disable_external_irq irq s = (if is_external_irq irq then log_event (EvIrqDisable irq) s else s)"

definition complete_external_irq :: "u64 \<Rightarrow> kstate \<Rightarrow> kstate" where
  "complete_external_irq irq s = (if is_external_irq irq then log_event (EvIrqComplete irq) s else s)"

text \<open>The controller answers a claim with the next entry of its input, and with 0 when there is none.\<close>

definition claim_external_irq :: "kstate \<Rightarrow> u64 option \<times> kstate" where
  "claim_external_irq s = (case irq_claims s of
     [] \<Rightarrow> (None, s)
   | irq # rest \<Rightarrow> (if irq = 0 then None else Some irq, s\<lparr> irq_claims := rest \<rparr>))"

definition valid_irq :: "u64 \<Rightarrow> bool" where
  "valid_irq irq \<longleftrightarrow> 0 < irq \<and> irq \<le> of_nat MAX_IRQ"

definition notification_slot :: "u64 \<Rightarrow> kstate \<Rightarrow> u64 option" where
  "notification_slot irq s =
     (if \<not> valid_irq irq then None else objarray_get (irq_node_base s) 32 NUM_IRQS (unat irq))"

definition is_active_irq :: "u64 \<Rightarrow> kstate \<Rightarrow> bool" where
  "is_active_irq irq s \<longleftrightarrow> valid_irq irq \<and> irq_active s (unat irq)"

definition try_issue_handler :: "u64 \<Rightarrow> kstate \<Rightarrow> bool \<times> kstate" where
  "try_issue_handler irq s =
     (if \<not> valid_irq irq \<or> is_active_irq irq s then (False, s)
      else (True, enable_external_irq irq (s\<lparr> irq_active := (irq_active s)(unat irq := True) \<rparr>)))"

definition deleted_handler :: "u64 \<Rightarrow> kstate \<Rightarrow> kstate" where
  "deleted_handler irq s =
     (if \<not> valid_irq irq then s
      else disable_external_irq irq (s\<lparr> irq_active := (irq_active s)(unat irq := False) \<rparr>))"

definition same_notification_send_cap :: "cap \<Rightarrow> cap \<Rightarrow> bool" where
  "same_notification_send_cap current expected \<longleftrightarrow>
     tag current = Some TagNotification \<and> notification_can_send current \<and>
     notification_ptr current = notification_ptr expected \<and>
     notification_badge current = notification_badge expected"

definition signal_irq :: "u64 \<Rightarrow> kstate \<Rightarrow> (bool \<times> kstate) option" where
  "signal_irq irq s =
     (let c = (case notification_slot irq s of None \<Rightarrow> null_cap | Some slot \<Rightarrow> slot_cap (ctes s) slot)
      in case as_notification c of
           None \<Rightarrow> Some (False, s)
         | Some ntfn \<Rightarrow>
             if notification_can_send c
             then do {
               s1 \<leftarrow> signal ntfn (notification_badge c) (complete_external_irq irq s);
               Some (True, s1)
             }
             else Some (False, s))"

definition ack_irq :: "u64 \<Rightarrow> kstate \<Rightarrow> kstate" where
  "ack_irq irq s = complete_external_irq irq s"

definition service_pending_external_interrupt :: "kstate \<Rightarrow> (bool \<times> kstate) option" where
  "service_pending_external_interrupt s = (case claim_external_irq s of
     (None, s1) \<Rightarrow> Some (False, s1)
   | (Some irq, s1) \<Rightarrow> do {
       (delivered, s2) \<leftarrow> signal_irq irq s1;
       Some (True, if delivered then s2 else complete_external_irq irq s2)
     })"

section \<open>Timer\<close>

definition TIMER_INTERVAL_TICKS :: u64 where "TIMER_INTERVAL_TICKS = 5000"
definition SYNTHETIC_TIMER_IRQ_INTERVAL_TICKS :: u64 where "SYNTHETIC_TIMER_IRQ_INTERVAL_TICKS = 20000"

definition read_time :: "kstate \<Rightarrow> u64 \<times> kstate" where
  "read_time s = (time_reads s (time_pos s), s\<lparr> time_pos := time_pos s + 1 \<rparr>)"

definition synthetic_timer_irq_deadline :: "u64 \<Rightarrow> kstate \<Rightarrow> u64 option \<times> kstate" where
  "synthetic_timer_irq_deadline now s =
     (if current_core_id s \<noteq> 0 then (None, s)
      else if synthetic_deadline s \<noteq> 0 then (Some (synthetic_deadline s), s)
      else let deadline = now + SYNTHETIC_TIMER_IRQ_INTERVAL_TICKS
           in (Some deadline, s\<lparr> synthetic_deadline := deadline \<rparr>))"

definition program_next_timer :: "kstate \<Rightarrow> kstate" where
  "program_next_timer s =
     (let (now, s1) = read_time s;
          (dl, s2) = synthetic_timer_irq_deadline now s1;
          deadline = (case dl of Some d \<Rightarrow> d | None \<Rightarrow> now + TIMER_INTERVAL_TICKS)
      in log_event (EvSetTimer deadline)
           (s2\<lparr> next_timer_deadline := (next_timer_deadline s2)(current_core_id s2 := deadline) \<rparr>))"

definition init_timer :: "kstate \<Rightarrow> kstate" where
  "init_timer s =
     (let (now, s1) = read_time s
      in program_next_timer
           (if current_core_id s1 = 0
            then s1\<lparr> synthetic_deadline := now + SYNTHETIC_TIMER_IRQ_INTERVAL_TICKS \<rparr> else s1))"

text \<open>The loop that moves the deadline past the present; near the end of the counter it may not end.\<close>

partial_function (option) next_synthetic :: "u64 \<Rightarrow> u64 \<Rightarrow> u64 option" where
  "next_synthetic nxt now =
     (if nxt \<le> now then next_synthetic (nxt + SYNTHETIC_TIMER_IRQ_INTERVAL_TICKS) now else Some nxt)"

declare next_synthetic.simps [code]

definition should_signal_synthetic_timer_irq :: "u64 \<Rightarrow> kstate \<Rightarrow> (bool \<times> kstate) option" where
  "should_signal_synthetic_timer_irq now s =
     (if current_core_id s \<noteq> 0 then Some (False, s)
      else let previous = synthetic_deadline s in
        if previous = 0
        then Some (False, s\<lparr> synthetic_deadline := now + SYNTHETIC_TIMER_IRQ_INTERVAL_TICKS \<rparr>)
        else if now < previous then Some (False, s)
        else do {
          nxt \<leftarrow> next_synthetic previous now;
          Some (True, s\<lparr> synthetic_deadline := nxt \<rparr>)
        })"

definition handle_timer_interrupt :: "kstate \<Rightarrow> kstate option" where
  "handle_timer_interrupt s = do {
     let s1 = (case current_tcb s of Some cur \<Rightarrow> timer_tick cur s | None \<Rightarrow> s);
     let (now, s2) = read_time s1;
     (due, s3) \<leftarrow> should_signal_synthetic_timer_irq now s2;
     s4 \<leftarrow> (if due then map_option snd (signal_irq (of_nat KERNEL_TIMER_IRQ) s3) else Some s3);
     Some (program_next_timer s4)
   }"

definition service_due_timer_interrupts :: "kstate \<Rightarrow> (bool \<times> kstate) option" where
  "service_due_timer_interrupts s =
     (let deadline = next_timer_deadline s (current_core_id s) in
      if deadline = 0 then Some (False, s)
      else let (now, s1) = read_time s in
        if now < deadline then Some (False, s1)
        else do {
          s2 \<leftarrow> handle_timer_interrupt s1;
          Some (True, s2)
        })"

section \<open>Properties\<close>

lemma next_synthetic_past: "next_synthetic nxt now = Some n \<Longrightarrow> now < n"
  by (rule next_synthetic.raw_induct [where P = "\<lambda>_ b y. b < y"]) (auto split: if_splits simp: not_le)

lemma next_synthetic_advances:
  assumes "unat now + 20000 < 2 ^ 64" "unat nxt \<le> unat now + 20000"
  shows "\<exists>k. next_synthetic nxt now = Some (nxt + of_nat k * 20000) \<and> now < nxt + of_nat k * 20000 \<and>
    (nxt \<le> now \<longrightarrow> nxt + of_nat k * 20000 \<le> now + 20000)"
  using assms(2)
proof (induction "unat now + 20000 - unat nxt" arbitrary: nxt rule: less_induct)
  case less
  show ?case
  proof (cases "nxt \<le> now")
    case False
    then have "next_synthetic nxt now = Some nxt" by (subst next_synthetic.simps) simp
    then show ?thesis using False by (intro exI [of _ 0]) auto
  next
    case True
    let ?n = "nxt + SYNTHETIC_TIMER_IRQ_INTERVAL_TICKS"
    have le: "unat nxt \<le> unat now" using True by (simp add: word_le_nat_alt)
    have n: "unat ?n = unat nxt + 20000"
      using le assms(1) by (subst unat_plus_if') (simp add: SYNTHETIC_TIMER_IRQ_INTERVAL_TICKS_def)
    have now: "unat (now + 20000) = unat now + 20000" using assms(1) by (subst unat_plus_if') simp
    have "unat now + 20000 - unat ?n < unat now + 20000 - unat nxt" "unat ?n \<le> unat now + 20000"
      using n le by linarith+
    from less(1) [OF this]
    obtain k where k: "next_synthetic ?n now = Some (?n + of_nat k * 20000)" "now < ?n + of_nat k * 20000"
      "?n \<le> now \<longrightarrow> ?n + of_nat k * 20000 \<le> now + 20000"
      by blast
    have eq: "?n + of_nat k * 20000 = nxt + of_nat (Suc k) * 20000"
      by (simp add: SYNTHETIC_TIMER_IRQ_INTERVAL_TICKS_def algebra_simps)
    have "?n + of_nat k * 20000 \<le> now + 20000"
    proof (cases "?n \<le> now")
      case False
      then have "next_synthetic ?n now = Some ?n" by (subst next_synthetic.simps) simp
      then have "?n + of_nat k * 20000 = ?n" using k(1) by simp
      then show ?thesis using n now le by (simp only: word_le_nat_alt)
    qed (use k(3) in blast)
    moreover have "next_synthetic nxt now = next_synthetic ?n now" using True by (subst next_synthetic.simps) simp
    ultimately show ?thesis using k(1,2) unfolding eq by (intro exI [of _ "Suc k"]) simp
  qed
qed

text \<open>
  When a timer deadline has passed, the deadline moves on to the first multiple of the interval
  after the present: the loop ends, the new deadline is later than now, by at most one interval,
  and keeps the phase of the old one. This needs the counter to be more than one interval away from
  its end; at the very last value of the counter the loop never ends.
\<close>

theorem synthetic_deadline_advances:
  assumes "current_core_id s = 0" "synthetic_deadline s \<noteq> 0" "synthetic_deadline s \<le> now" "unat now + 20000 < 2 ^ 64"
  shows "(\<exists>k d. d = synthetic_deadline s + of_nat k * 20000 \<and> now < d \<and> d \<le> now + 20000 \<and>
      should_signal_synthetic_timer_irq now s = Some (True, s\<lparr> synthetic_deadline := d \<rparr>)) \<and>
    should_signal_synthetic_timer_irq (- 1) s = None"
proof -
  have "unat (synthetic_deadline s) \<le> unat now + 20000" using assms(3) by (simp add: word_le_nat_alt)
  then obtain k where k: "next_synthetic (synthetic_deadline s) now = Some (synthetic_deadline s + of_nat k * 20000)"
    "now < synthetic_deadline s + of_nat k * 20000" "synthetic_deadline s + of_nat k * 20000 \<le> now + 20000"
    using next_synthetic_advances [OF assms(4)] assms(3) by blast
  have "should_signal_synthetic_timer_irq now s =
      Some (True, s\<lparr> synthetic_deadline := synthetic_deadline s + of_nat k * 20000 \<rparr>)"
    using assms(1-3) k(1) by (simp add: should_signal_synthetic_timer_irq_def Let_def not_less [symmetric])
  moreover have "next_synthetic (synthetic_deadline s) (- 1) = None"
  proof (rule ccontr)
    assume "next_synthetic (synthetic_deadline s) (- 1) \<noteq> None"
    then obtain n where "next_synthetic (synthetic_deadline s) (- 1) = Some n" by blast
    then have "- 1 < n" by (rule next_synthetic_past)
    then show False by (simp add: word_order.not_eq_extremum)
  qed
  then have "should_signal_synthetic_timer_irq (- 1) s = None"
    using assms(1,2) by (simp add: should_signal_synthetic_timer_irq_def Let_def word_order.not_eq_extremum)
  ultimately show ?thesis using k(2,3) by blast
qed

theorem synthetic_deadline_advances_witness:
  "\<exists>k d. d = (1000 :: u64) + of_nat k * 20000 \<and> 50000 < d \<and> d \<le> 70000 \<and>
    should_signal_synthetic_timer_irq 50000 ((empty_kstate 1 0)\<lparr> synthetic_deadline := 1000 \<rparr>) =
      Some (True, (empty_kstate 1 0)\<lparr> synthetic_deadline := d \<rparr>)"
  using synthetic_deadline_advances [of "(empty_kstate 1 0)\<lparr> synthetic_deadline := 1000 \<rparr>" 50000] by simp

section \<open>A due timer\<close>

text \<open>Servicing a timer that is due always ends, and it touches no capability slot.\<close>

lemma enqueue_total:
  assumes "queues_inv s qs"
  shows "\<exists>s'. enqueue t s = Some s' \<and> ctes s' = ctes s"
  using rq.contains_result [OF assms, of t "home_core s t"] by (simp add: enqueue_def Let_def)

lemma signal_waiting_total:
  assumes "queues_inv s qs"
  shows "\<exists>s'. signal_waiting n b s = Some s' \<and> ctes s' = ctes s"
proof (cases "fst (ntfn_pop_head n s)")
  case None
  then show ?thesis by (simp add: signal_waiting_def case_prod_beta)
next
  case (Some t)
  let ?s2 = "upd_ntfn n (\<lambda>x. if ntfn_head x = None then ntfn_set_state NtfnIdle x else x) (snd (ntfn_pop_head n s))"
  have "queues_inv ?s2 (qs(NtfnQ n := tl (qs (NtfnQ n))))"
    by (rule queues_inv_upd_ntfn [OF ntfn_pop_head_spec(2) [OF assms, of n]]) (simp_all add: obj_simps)
  then have "queues_inv (complete_notification_wait t b ?s2) (qs(NtfnQ n := tl (qs (NtfnQ n))))"
    unfolding complete_notification_wait_def by (rule queues_inv_upds(1))
  from enqueue_total [OF this, of t] show ?thesis
    using Some by (simp add: signal_waiting_def case_prod_beta complete_notification_wait_eq)
qed

lemma deliver_total:
  assumes "queues_inv s qs"
  shows "\<exists>d s'. deliver_to_bound_endpoint_receiver n t e b s = Some (d, s') \<and> ctes s' = ctes s"
proof -
  obtain s1 qs1 ep lk where s1: "ep_remove_waiter e t s = Some s1" "queues_inv s1 qs1" "s1 = s\<lparr> eps := ep, tlinks := lk \<rparr>"
    using ep_remove_waiter_spec [OF assms, of e t] by blast
  let ?s2 = "upd_ntfn n (\<lambda>x. ntfn_set_state NtfnIdle (ntfn_set_badge 0 x)) s1"
  have "queues_inv ?s2 qs1" by (rule queues_inv_upd_ntfn [OF s1(2)]) (simp_all add: obj_simps)
  then have "queues_inv (complete_bound_endpoint_notification_wait t b ?s2) qs1"
    unfolding complete_bound_endpoint_notification_wait_def by (rule queues_inv_upds(1))
  from enqueue_total [OF this, of t] show ?thesis
    using s1(1,3) by (auto simp: deliver_to_bound_endpoint_receiver_def complete_bound_endpoint_notification_wait_def)
qed

lemma signal_total:
  assumes "queues_inv s qs"
  shows "\<exists>s'. signal n b s = Some s' \<and> ctes s' = ctes s"
proof -
  have "\<exists>s'. signal_idle_or_active n b s = Some s' \<and> ctes s' = ctes s"
  proof (cases "Option.bind (ntfn_bound_tcb (ntfns s n)) (blocked_receive_of s)")
    case None
    then show ?thesis by (simp add: signal_idle_or_active_def latch_def Let_def)
  next
    case (Some br)
    then obtain t where t: "ntfn_bound_tcb (ntfns s n) = Some t" "blocked_receive_of s t = Some br"
      by (cases "ntfn_bound_tcb (ntfns s n)") auto
    let ?b = "(if ntfn_state_of (ntfns s n) = NtfnActive then ntfn_badge (ntfns s n) else 0) OR b"
    show ?thesis
    proof (cases br)
      case (OnEndpoint e)
      obtain d s' where "deliver_to_bound_endpoint_receiver n t e ?b s = Some (d, s')" "ctes s' = ctes s"
        using deliver_total [OF assms] by blast
      then show ?thesis using t OnEndpoint by (simp add: signal_idle_or_active_def latch_def Let_def)
    next
      case Detached
      let ?s1 = "upd_ntfn n (\<lambda>x. ntfn_set_state NtfnIdle (ntfn_set_badge 0 x)) s"
      have "queues_inv ?s1 qs" by (rule queues_inv_upd_ntfn [OF assms]) (simp_all add: obj_simps)
      then have "queues_inv (complete_notification_wait t ?b ?s1) qs"
        unfolding complete_notification_wait_def by (rule queues_inv_upds(1))
      from enqueue_total [OF this, of t] show ?thesis
        using t Detached by (simp add: signal_idle_or_active_def Let_def complete_notification_wait_eq)
    qed
  qed
  then show ?thesis using signal_waiting_total [OF assms] by (cases "ntfn_state s n") (simp_all add: signal_def)
qed

text \<open>The time counter stays away from its end, where the loop that moves the deadline would not end.\<close>

definition clock_ok :: "kstate \<Rightarrow> bool" where
  "clock_ok s \<longleftrightarrow> (\<forall>n. unat (time_reads s n) + 20000 < 2 ^ 64)"

lemma should_signal_total:
  assumes "unat now + 20000 < 2 ^ 64"
  shows "\<exists>due d. should_signal_synthetic_timer_irq now s = Some (due, s\<lparr> synthetic_deadline := d \<rparr>)"
proof (cases "current_core_id s \<noteq> 0 \<or> synthetic_deadline s = 0 \<or> now < synthetic_deadline s")
  case True
  then show ?thesis
    by (intro exI [of _ False] exI [of _ "if current_core_id s = 0 \<and> synthetic_deadline s = 0
      then now + SYNTHETIC_TIMER_IRQ_INTERVAL_TICKS else synthetic_deadline s"])
      (auto simp: should_signal_synthetic_timer_irq_def Let_def)
next
  case False
  then have "unat (synthetic_deadline s) \<le> unat now + 20000" by (simp add: not_less word_le_nat_alt)
  then obtain d where "next_synthetic (synthetic_deadline s) now = Some d"
    using next_synthetic_advances [OF assms] by blast
  with False show ?thesis by (auto simp: should_signal_synthetic_timer_irq_def Let_def)
qed

lemma signal_irq_total:
  assumes "queues_inv s qs"
  shows "\<exists>d s'. signal_irq irq s = Some (d, s') \<and> ctes s' = ctes s"
proof -
  let ?s1 = "complete_external_irq irq s" and ?c = "case notification_slot irq s of None \<Rightarrow> null_cap | Some slot \<Rightarrow> slot_cap (ctes s) slot"
  have inv: "queues_inv ?s1 qs" by (rule queues_inv_same [OF assms]) (simp_all add: complete_external_irq_def)
  have ctes: "ctes ?s1 = ctes s" by (simp add: complete_external_irq_def)
  show ?thesis
  proof (cases "as_notification ?c")
    case (Some n)
    obtain s' where "signal n (notification_badge ?c) ?s1 = Some s'" "ctes s' = ctes s"
      using signal_total [OF inv] ctes by metis
    then show ?thesis using Some by (cases "notification_can_send ?c") (auto simp: signal_irq_def Let_def)
  qed (auto simp: signal_irq_def Let_def)
qed

lemma program_next_timer_ctes [simp]: "ctes (program_next_timer s) = ctes s"
  by (simp add: program_next_timer_def read_time_def synthetic_timer_irq_deadline_def Let_def case_prod_beta)

lemma handle_timer_total:
  assumes "queues_inv s qs" "clock_ok s"
  shows "\<exists>s'. handle_timer_interrupt s = Some s' \<and> ctes s' = ctes s"
proof -
  define s1 where "s1 = (case current_tcb s of Some cur \<Rightarrow> timer_tick cur s | None \<Rightarrow> s)"
  have "queues_inv (timer_tick t s) qs" for t
    by (rule queues_inv_same [OF assms(1)]) (simp_all add: timer_tick_def Let_def request_reschedule_def)
  moreover have "ctes (timer_tick t s) = ctes s" "time_reads (timer_tick t s) = time_reads s" for t
    by (simp_all add: timer_tick_def Let_def request_reschedule_def upd_tcb_def)
  ultimately have s1: "queues_inv s1 qs" "ctes s1 = ctes s" "time_reads s1 = time_reads s"
    using assms(1) by (simp_all add: s1_def split: option.split)
  let ?now = "time_reads s1 (time_pos s1)" and ?s2 = "s1\<lparr> time_pos := time_pos s1 + 1 \<rparr>"
  obtain due d where due: "should_signal_synthetic_timer_irq ?now ?s2 = Some (due, ?s2\<lparr> synthetic_deadline := d \<rparr>)"
    using should_signal_total [of ?now ?s2] assms(2) s1(3) by (auto simp: clock_ok_def)
  have "queues_inv (?s2\<lparr> synthetic_deadline := d \<rparr>) qs" by (rule queues_inv_same [OF s1(1)]) simp_all
  from signal_irq_total [OF this, of "of_nat KERNEL_TIMER_IRQ"] due s1(2)
  show ?thesis by (auto simp: handle_timer_interrupt_def read_time_def s1_def [symmetric] Let_def)
qed

end
