(* ===== verification/Rel4_Delete.thy ===== *)
theory Rel4_Delete
  imports Rel4_Abi Rel4_Derivation Rel4_Tables Rel4_Irq
begin

text \<open>
  Deleting capabilities: finalization, zombies, preemption and revocation (\<^verbatim>\<open>api/invocation.rs\<close>),
  reply capabilities (\<^verbatim>\<open>object/reply.rs\<close>), the life cycle of threads (\<^verbatim>\<open>object/tcb.rs\<close>) and the
  notification bindings of interrupts (\<^verbatim>\<open>object/irq.rs\<close>).

  A fallible operation returns an error or a value together with the state it leaves, since an
  error does not undo what was done before; None is a panic or a loop that does not end.
\<close>

section \<open>Fallible operations\<close>

type_synonym 'a result = "((syscall_error + 'a) \<times> kstate) option"

text \<open>The \<^verbatim>\<open>?\<close> operator: an error ends the operation in the state reached.\<close>

definition try_bind :: "'a result \<Rightarrow> ('a \<Rightarrow> kstate \<Rightarrow> 'b result) \<Rightarrow> 'b result" where
  "try_bind m f = Option.bind m (\<lambda>(r, s). case r of Inl e \<Rightarrow> Some (Inl e, s) | Inr a \<Rightarrow> f a s)"

lemma try_bind_mono [partial_function_mono]:
  assumes "mono_option B" "\<And>a s. mono_option (\<lambda>f. C a s f)"
  shows "mono_option (\<lambda>f. try_bind (B f) (\<lambda>a s. C a s f))"
proof -
  have "mono_option (\<lambda>f. case x of (r, s) \<Rightarrow> (case r of Inl e \<Rightarrow> Some (Inl e, s) | Inr a \<Rightarrow> C a s f))" for x
    using assms(2) by (cases x; cases "fst x") (auto intro: option.const_mono)
  from bind_mono [OF assms(1) this] show ?thesis by (simp add: try_bind_def)
qed

lemma try_bind_simps [simp]:
  "try_bind (Some (Inl e, s)) f = Some (Inl e, s)" "try_bind (Some (Inr a, s)) f = f a s"
  "try_bind None f = None"
  by (simp_all add: try_bind_def)

lemma try_bind_eq_Some:
  "try_bind m f = Some (r, s') \<longleftrightarrow>
     (\<exists>e. m = Some (Inl e, s') \<and> r = Inl e) \<or> (\<exists>a s1. m = Some (Inr a, s1) \<and> f a s1 = Some (r, s'))"
proof (cases m)
  case (Some p)
  then show ?thesis by (cases p; cases "fst p") auto
qed simp

section \<open>Kernel windows\<close>

definition kva_to_pa :: "u64 \<Rightarrow> u64" where
  "kva_to_pa kva =
     (if KERNEL_ELF_BASE \<le> kva then kva - KERNEL_ELF_BASE + PHYS_BASE_RAW
      else kva - PPTR_BASE + PADDR_BASE)"

definition is_pspace_kva :: "u64 \<Rightarrow> bool" where
  "is_pspace_kva va \<longleftrightarrow> PPTR_BASE \<le> va \<and> va < PPTR_TOP"

definition is_boot_or_pspace_object_kva :: "u64 \<Rightarrow> bool" where
  "is_boot_or_pspace_object_kva va \<longleftrightarrow> is_pspace_kva va \<or> KERNEL_ELF_BASE \<le> va"

section \<open>Preemption points\<close>

definition CNODE_WORK_UNITS_PER_PREEMPTION :: nat where "CNODE_WORK_UNITS_PER_PREEMPTION = 100"

definition reset_cnode_work_units :: "kstate \<Rightarrow> kstate" where
  "reset_cnode_work_units s = s\<lparr> work_units := 0 \<rparr>"

definition cnode_preemption_point :: "kstate \<Rightarrow> unit result" where
  "cnode_preemption_point s =
     (let n = work_units s + 1 in
      if n < CNODE_WORK_UNITS_PER_PREEMPTION then Some (Inr (), s\<lparr> work_units := n \<rparr>)
      else do {
        (fired, s1) \<leftarrow> service_due_timer_interrupts (s\<lparr> work_units := 0 \<rparr>);
        Some (if fired then Inl Preempted else Inr (), s1)
      })"

section \<open>Emptying a slot\<close>

definition post_cap_deletion :: "cap \<Rightarrow> kstate \<Rightarrow> kstate" where
  "post_cap_deletion cleanup_info s =
     (if tag cleanup_info = Some TagIrqHandler then deleted_handler (irq_handler_irq cleanup_info) s else s)"

definition empty_slot :: "u64 \<Rightarrow> cap \<Rightarrow> kstate \<Rightarrow> kstate" where
  "empty_slot slot cleanup_info s = post_cap_deletion cleanup_info (upd_ctes (empty_slot_links slot) s)"

definition empty_finalized_slot :: "u64 \<Rightarrow> cap \<Rightarrow> kstate \<Rightarrow> kstate" where
  "empty_finalized_slot slot cleanup_info s =
     (if \<not> is_null (slot_cap (ctes s) slot) then empty_slot slot cleanup_info s else s)"

record finalize_target =
  ft_slot :: u64
  ft_cap :: cap
  ft_is_final :: bool

definition snapshot_slot_for_delete :: "u64 \<Rightarrow> kstate \<Rightarrow> finalize_target option" where
  "snapshot_slot_for_delete slot s =
     (let c = slot_cap (ctes s) slot in
      if is_null c then None
      else Some \<lparr> ft_slot = slot, ft_cap = c, ft_is_final = is_final_capability slot (ctes s) \<rparr>)"

record finalise_cap_result =
  fc_remainder :: cap
  fc_cleanup_info :: cap

definition fc_null :: finalise_cap_result where
  "fc_null = \<lparr> fc_remainder = null_cap, fc_cleanup_info = null_cap \<rparr>"

definition fc_with_remainder :: "cap \<Rightarrow> finalise_cap_result" where
  "fc_with_remainder c = \<lparr> fc_remainder = c, fc_cleanup_info = null_cap \<rparr>"

definition fc_with_cleanup :: "cap \<Rightarrow> cap \<Rightarrow> finalise_cap_result" where
  "fc_with_cleanup c cleanup = \<lparr> fc_remainder = c, fc_cleanup_info = cleanup \<rparr>"

section \<open>Finalization that ends at once\<close>

text \<open>
  The two matches of \<^verbatim>\<open>finalize_cap\<close> that precede the test of \<^verbatim>\<open>exposed\<close>: the inner None means that
  neither of them returned. Resetting the mapping fields there acts on a local copy of the capability.
\<close>

definition finalize_frame :: "cap \<Rightarrow> kstate \<Rightarrow> kstate" where
  "finalize_frame c s =
     (if frame_is_mapped c then
        let root = asid_lookup s (frame_mapped_asid c)
        in if root \<noteq> 0
           then snd (unmap_user_frame root (frame_mapped_addr c) (frame_size c)
                  (kva_to_pa (frame_base_ptr c)) s)
           else s
      else s)"

definition finalize_page_table :: "cap \<Rightarrow> bool \<Rightarrow> kstate \<Rightarrow> kstate" where
  "finalize_page_table c is_final s =
     (if is_final \<and> page_table_is_mapped c then
        let asid = page_table_mapped_asid c;
            pt_kva = page_table_base_ptr c;
            root = asid_lookup s asid
        in if root \<noteq> 0 \<and> root = pt_kva then asid_delete asid pt_kva s
           else snd (unmap_user_page_table root (page_table_mapped_addr c) pt_kva s)
      else s)"

definition finalize_cap_at_once :: "cap \<Rightarrow> bool \<Rightarrow> kstate \<Rightarrow> (finalise_cap_result option \<times> kstate) option" where
  "finalize_cap_at_once c is_final s =
     (case tag c of
        Some TagFrame \<Rightarrow> Some (Some fc_null, finalize_frame c s)
      | Some TagPageTable \<Rightarrow> Some (Some fc_null, finalize_page_table c is_final s)
      | Some TagAsidPool \<Rightarrow>
          Some (Some fc_null, if is_final then delete_pool (asid_pool_base c) (asid_pool_ptr c) s else s)
      | Some TagAsidControl \<Rightarrow> Some (Some fc_null, s)
      | Some TagEndpoint \<Rightarrow>
          if is_final then do {
            ep \<leftarrow> as_endpoint c;
            if \<not> is_pspace_kva ep then None else do { s1 \<leftarrow> ep_finalize ep s; Some (Some fc_null, s1) }
          }
          else Some (Some fc_null, s)
      | Some TagNotification \<Rightarrow>
          if is_final then do {
            n \<leftarrow> as_notification c;
            if \<not> is_pspace_kva n then None else do { s1 \<leftarrow> ntfn_finalize n s; Some (Some fc_null, s1) }
          }
          else Some (Some fc_null, s)
      | Some TagReply \<Rightarrow> Some (Some fc_null, s)
      | Some TagNull \<Rightarrow> Some (Some fc_null, s)
      | Some TagDomain \<Rightarrow> Some (Some fc_null, s)
      | _ \<Rightarrow> Some (None, s))"

definition zombie_first_slot :: "cap \<Rightarrow> u64 option" where
  "zombie_first_slot c = from_kva (zombie_ptr c)"

text \<open>The first slot and the number of slots of the range.\<close>

definition zombie_slots :: "cap \<Rightarrow> (u64 \<times> nat) option" where
  "zombie_slots c = do { first \<leftarrow> zombie_first_slot c; Some (first, unat (zombie_number c)) }"

definition cap_removable :: "cap \<Rightarrow> u64 \<Rightarrow> bool option" where
  "cap_removable c slot = (case tag c of
     Some TagNull \<Rightarrow> Some True
   | Some TagZombie \<Rightarrow>
       let n = zombie_number c in Some (n = 0 \<or> n = 1 \<and> zombie_first_slot c = Some slot)
   | _ \<Rightarrow> None)"

definition cap_cyclic_zombie :: "cap \<Rightarrow> u64 \<Rightarrow> bool" where
  "cap_cyclic_zombie c slot \<longleftrightarrow> tag c = Some TagZombie \<and> zombie_first_slot c = Some slot"

definition finalise_result_removable :: "finalise_cap_result \<Rightarrow> u64 \<Rightarrow> bool option" where
  "finalise_result_removable r slot =
     (if \<not> is_null (fc_cleanup_info r) \<and> \<not> is_null (fc_remainder r) then None
      else cap_removable (fc_remainder r) slot)"

text \<open>With \<^verbatim>\<open>exposed\<close> set, a capability the first two matches do not handle is a panic.\<close>

definition cte_delete_one :: "u64 \<Rightarrow> kstate \<Rightarrow> kstate option" where
  "cte_delete_one slot s = (case snapshot_slot_for_delete slot s of
     None \<Rightarrow> Some s
   | Some target \<Rightarrow> do {
       (result, s1) \<leftarrow> finalize_cap_at_once (ft_cap target) (ft_is_final target) s;
       r \<leftarrow> result;
       removable \<leftarrow> finalise_result_removable r (ft_slot target);
       if \<not> removable then None
       else if \<not> is_null (fc_cleanup_info r) then None
       else Some (empty_finalized_slot slot null_cap s1)
     })"

end
