(* ===== verification/Rel4_Lifecycle.thy ===== *)
theory Rel4_Lifecycle
  imports Rel4_Delete
begin

text \<open>
  Reply capabilities (\<^verbatim>\<open>object/reply.rs\<close>), suspending, resuming, finalizing and initializing threads
  (\<^verbatim>\<open>object/tcb.rs\<close>), and binding interrupts to notifications (\<^verbatim>\<open>object/irq.rs\<close>).
\<close>

section \<open>Reply capabilities\<close>

definition setup_reply_master :: "u64 \<Rightarrow> kstate \<Rightarrow> kstate" where
  "setup_reply_master t s = (case cap_slot t TCB_REPLY of
     None \<Rightarrow> s
   | Some slot \<Rightarrow>
       if \<not> is_null (slot_cap (ctes s) slot) then s
       else upd_ctes (\<lambda>h. h(slot := \<lparr> cte_cap = new_reply t True True, cte_mdb = mdb_new 0 0 True True \<rparr>)) s)"

definition delete_caller_cap :: "u64 \<Rightarrow> kstate \<Rightarrow> kstate option" where
  "delete_caller_cap receiver s = (case cap_slot receiver TCB_CALLER of
     Some caller_slot \<Rightarrow> cte_delete_one caller_slot s
   | None \<Rightarrow> Some s)"

definition setup_caller_cap :: "u64 \<Rightarrow> u64 \<Rightarrow> bool \<Rightarrow> kstate \<Rightarrow> (bool \<times> kstate) option" where
  "setup_caller_cap sender receiver can_grant s =
     (let s1 = set_blocked_on_reply sender (setup_reply_master sender s) in
      case (cap_slot sender TCB_REPLY, cap_slot receiver TCB_CALLER) of
        (Some reply_slot, Some caller_slot) \<Rightarrow>
          let master = slot_cap (ctes s1) reply_slot in
          if tag master \<noteq> Some TagReply \<or> \<not> reply_is_master master \<or> reply_tcb_ptr master \<noteq> sender
          then Some (False, s1)
          else do {
            s2 \<leftarrow> (if \<not> is_null (slot_cap (ctes s1) caller_slot) then delete_caller_cap receiver s1 else Some s1);
            s3 \<leftarrow> upd_ctes_opt (cte_insert reply_slot (new_reply sender can_grant False) caller_slot) s2;
            Some (True, s3)
          }
      | _ \<Rightarrow> Some (False, s1))"

definition cancel_blocked_on_reply :: "u64 \<Rightarrow> kstate \<Rightarrow> kstate option" where
  "cancel_blocked_on_reply t s =
     (let s1 = clear_fault_message t s in
      case cap_slot t TCB_REPLY of
        None \<Rightarrow> Some s1
      | Some reply_slot \<Rightarrow>
          (case mdb_next (ctes s1) reply_slot of
             Some derived \<Rightarrow> cte_delete_one derived s1
           | None \<Rightarrow> Some s1))"

definition caller_reply_cap :: "kstate \<Rightarrow> u64 \<Rightarrow> (cap \<times> u64) option" where
  "caller_reply_cap s receiver = do {
     slot \<leftarrow> cap_slot receiver TCB_CALLER;
     Some (slot_cap (ctes s) slot, slot)
   }"

section \<open>Threads\<close>

definition cancel_ipc :: "u64 \<Rightarrow> kstate \<Rightarrow> kstate option" where
  "cancel_ipc t s = do {
     s1 \<leftarrow> (if blocked_on_reply s t then cancel_blocked_on_reply t s else Some s);
     Some (upd_tcb t (\<lambda>x. (clear_endpoint_ipc_state (x\<lparr> tcb_waiting_on := None \<rparr>))\<lparr> tcb_state := Inactive \<rparr>) s1)
   }"

definition restart_endpoint_waiter :: "u64 \<Rightarrow> kstate \<Rightarrow> u64 option \<times> kstate" where
  "restart_endpoint_waiter t s = (let (r, s1) = cancel_endpoint_waiter t None s in (fst r, s1))"

definition cancel_badged_sender :: "u64 \<Rightarrow> u64 \<Rightarrow> kstate \<Rightarrow> u64 option \<times> kstate" where
  "cancel_badged_sender t call_error_info s =
     (let (r, s1) = cancel_endpoint_waiter t (Some call_error_info) s in (fst r, s1))"

definition unlink_from_wait_object :: "u64 \<Rightarrow> kstate \<Rightarrow> kstate option" where
  "unlink_from_wait_object t s = (case tcb_waiting_on (tcbs s t) of
     None \<Rightarrow> Some s
   | Some w \<Rightarrow> do {
       s1 \<leftarrow> (case w of WaitNotification n \<Rightarrow> ntfn_remove_waiter n t s | WaitEndpoint ep \<Rightarrow> ep_remove_waiter ep t s);
       Some (upd_tcb t (\<lambda>x. clear_endpoint_ipc_state (x\<lparr> tcb_waiting_on := None \<rparr>)) s1)
     })"

definition suspend :: "u64 \<Rightarrow> kstate \<Rightarrow> kstate option" where
  "suspend t s =
     (if is_idle_thread s t then Some s
      else do {
        s1 \<leftarrow> unlink_from_wait_object t (remote_tcb_stall t s);
        s2 \<leftarrow> dequeue t s1;
        s3 \<leftarrow> cancel_blocked_on_reply t s2;
        Some (wake_current_core_of_tcb t (set_state t Inactive s3))
      })"

definition resume :: "u64 \<Rightarrow> kstate \<Rightarrow> kstate option" where
  "resume t s =
     (if is_idle_thread s t \<or> \<not> ts_is_stopped (tcb_state_of s t) then Some s
      else do {
        s1 \<leftarrow> unlink_from_wait_object t s;
        s2 \<leftarrow> cancel_blocked_on_reply t s1;
        enqueue t (set_state t Restart (setup_reply_master t s2))
      })"

definition tcb_finalize :: "u64 \<Rightarrow> kstate \<Rightarrow> kstate option" where
  "tcb_finalize t s = do {
     s1 \<leftarrow> suspend t (log_event (EvFpuRelease t) (unbind_notification t s));
     Some (upd_tcb t (\<lambda>x. (clear_endpoint_ipc_state (x\<lparr> tcb_waiting_on := None \<rparr>))
             \<lparr> tcb_flags := 0, tcb_bound_notification := None, tcb_ipc_buffer_uva := 0,
               tcb_ipc_buffer := None, tcb_state := Inactive \<rparr>)
            (upd_links (clear_links t) s1))
   }"

text \<open>Writing a whole \<^verbatim>\<open>Tcb\<close> also empties its embedded slots and its queue links.\<close>

definition tcb_init :: "u64 \<Rightarrow> kstate \<Rightarrow> kstate" where
  "tcb_init t s =
     (let s1 = upd_ctes (\<lambda>h. fold (\<lambda>i h. h(t + of_nat (i * 32) := cte_null)) [0..<TCB_CNODE_ENTRIES] h)
                 (upd_links (clear_links t) (upd_tcb t (\<lambda>_. tcb_zero) s));
          s2 = upd_tcb t (\<lambda>x. x\<lparr> tcb_affinity := of_nat (current_core_id s), tcb_time_slice := DEFAULT_TIME_SLICE,
                 tcb_context := init_user_context (tcb_context x) \<rparr>) s1
      in setup_reply_master t s2)"

section \<open>Notification bindings of interrupts\<close>

definition clear_notification :: "u64 \<Rightarrow> kstate \<Rightarrow> kstate option" where
  "clear_notification irq s = (case notification_slot irq s of
     Some slot \<Rightarrow> if \<not> is_null (slot_cap (ctes s) slot) then cte_delete_one slot s else Some s
   | None \<Rightarrow> Some s)"

definition deleting_handler :: "u64 \<Rightarrow> kstate \<Rightarrow> kstate option" where
  "deleting_handler irq s = clear_notification irq s"

definition delete_handler :: "u64 \<Rightarrow> kstate \<Rightarrow> kstate option" where
  "delete_handler irq s = do { s1 \<leftarrow> deleting_handler irq s; Some (deleted_handler irq s1) }"

definition set_notification :: "u64 \<Rightarrow> cap \<Rightarrow> u64 \<Rightarrow> kstate \<Rightarrow> (bool \<times> kstate) option" where
  "set_notification irq ntfn_cap ntfn_slot s =
     (if tag ntfn_cap \<noteq> Some TagNotification \<or> \<not> is_active_irq irq s then Some (False, s)
      else case notification_slot irq s of
        None \<Rightarrow> Some (False, s)
      | Some dest \<Rightarrow>
          if \<not> same_notification_send_cap (slot_cap (ctes s) ntfn_slot) ntfn_cap then Some (False, s)
          else do {
            s1 \<leftarrow> clear_notification irq s;
            let current_cap = slot_cap (ctes s1) ntfn_slot;
            if \<not> same_notification_send_cap current_cap ntfn_cap then Some (False, s1)
            else do { s2 \<leftarrow> upd_ctes_opt (cte_insert ntfn_slot current_cap dest) s1; Some (True, s2) }
          })"

section \<open>Deleting a reply capability\<close>

lemma fc_null_removable [simp]: "finalise_result_removable fc_null slot = Some True"
  by (simp add: finalise_result_removable_def fc_null_def cap_removable_def is_null_iff_tag)

lemma cte_delete_one_reply:
  assumes "tag (slot_cap (ctes s) d) = Some TagReply"
  shows "cte_delete_one d s = Some (upd_ctes (empty_slot_links d) s)"
proof -
  have "\<not> is_null (slot_cap (ctes s) d)" using assms by (simp add: is_null_iff_tag)
  then show ?thesis
    using assms by (simp add: cte_delete_one_def snapshot_slot_for_delete_def Let_def finalize_cap_at_once_def
        empty_finalized_slot_def empty_slot_def post_cap_deletion_def is_null_iff_tag)
      (simp add: fc_null_def is_null_iff_tag)
qed

text \<open>The slot of the master reply capability, and the state after its derived capability is gone.\<close>

definition reply_slot_of :: "u64 \<Rightarrow> u64" where
  "reply_slot_of t = t + of_nat (TCB_REPLY * 32)"

lemma cap_slot_reply:
  assumes "mdb_list h (as @ reply_slot_of t # bs)"
  shows "cap_slot t TCB_REPLY = Some (reply_slot_of t)"
  using assms cte_addr_ok_nonzero [of "reply_slot_of t"]
  by (simp add: mdb_list_def cap_slot_def objarray_get_def TCB_REPLY_def TCB_CNODE_ENTRIES_def reply_slot_of_def
      from_kva_def)

lemma cancel_blocked_on_reply_spec:
  assumes l: "mdb_list (ctes s) (as @ reply_slot_of t # bs)"
    and r: "\<And>d. d \<in> set (take 1 bs) \<Longrightarrow> tag (slot_cap (ctes s) d) = Some TagReply"
  shows "\<exists>h. cancel_blocked_on_reply t s = Some (clear_fault_message t s\<lparr> ctes := h \<rparr>) \<and>
    mdb_list h (as @ reply_slot_of t # tl bs) \<and>
    (\<forall>y. slot_cap h y = (if y \<in> set (take 1 bs) then null_cap else slot_cap (ctes s) y))"
proof (cases bs)
  case Nil
  then have "mdb_next (ctes s) (reply_slot_of t) = None" using mdb_list_links(2) [OF l] by simp
  then have "cancel_blocked_on_reply t s = Some (clear_fault_message t s\<lparr> ctes := ctes s \<rparr>)"
    by (simp add: cancel_blocked_on_reply_def cap_slot_reply [OF l] Let_def clear_fault_message_def upd_tcb_def)
  then show ?thesis using l Nil by (intro exI [of _ "ctes s"]) simp
next
  case (Cons d ds)
  have nxt: "mdb_next (ctes s) (reply_slot_of t) = Some d" using mdb_list_links(2) [OF l] Cons by simp
  have l': "mdb_list (ctes s) ((as @ [reply_slot_of t]) @ d # ds)" using l Cons by simp
  have d: "tag (slot_cap (ctes s) d) = Some TagReply" using r Cons by simp
  have "cancel_blocked_on_reply t s = Some (upd_ctes (empty_slot_links d) (clear_fault_message t s))"
    using nxt cte_delete_one_reply [of "clear_fault_message t s" d] d
    by (simp add: cancel_blocked_on_reply_def cap_slot_reply [OF l] Let_def clear_fault_message_def)
  also have "upd_ctes (empty_slot_links d) (clear_fault_message t s) =
      clear_fault_message t s\<lparr> ctes := empty_slot_links d (ctes s) \<rparr>"
    by (simp add: upd_ctes_def clear_fault_message_def)
  finally show ?thesis
    using empty_slot_links_list [OF l'] Cons by (intro exI [of _ "empty_slot_links d (ctes s)"]) auto
qed

section \<open>Leaving all queues\<close>

lemma wait_inv_frame:
  assumes "wait_inv s qs" "tcbs s' = tcbs s" "tlinks s' = tlinks s" "eps s' = eps s" "ntfns s' = ntfns s"
    "runqueues s' = runqueues s" "MAX_NUM_NODES s' = MAX_NUM_NODES s"
  shows "wait_inv s' qs"
proof -
  have "queues_inv s' qs" by (rule queues_inv_same [OF wait_invD(1) [OF assms(1)]]) (use assms in auto)
  then show ?thesis
    using assms by (simp add: wait_inv_def ep_ok_def ntfn_ok_def waits_on_endpoint_def waits_on_notification_def)
qed

text \<open>The queues without a thread: on no wait queue, and on no queue at all.\<close>

definition off_wait :: "u64 \<Rightarrow> (qid \<Rightarrow> u64 list) \<Rightarrow> qid \<Rightarrow> u64 list" where
  "off_wait t qs = (\<lambda>i. case i of RunQ c \<Rightarrow> qs i | _ \<Rightarrow> remove1 t (qs i))"

lemma waiter_on_its_object:
  assumes "wait_inv s qs"
  shows "t \<in> set (qs (EpQ e)) \<Longrightarrow> tcb_waiting_on (tcbs s t) = Some (WaitEndpoint e)"
    and "t \<in> set (qs (NtfnQ n)) \<Longrightarrow> tcb_waiting_on (tcbs s t) = Some (WaitNotification n)"
  using wait_invD(2) [OF assms, of e] wait_invD(3) [OF assms, of n]
  by (auto simp: ep_ok_def ntfn_ok_def waits_on_endpoint_def waits_on_notification_def)

lemma off_wait_eq:
  assumes inv: "wait_inv s qs"
  shows "tcb_waiting_on (tcbs s t) = None \<Longrightarrow> off_wait t qs = qs"
    and "tcb_waiting_on (tcbs s t) = Some (WaitEndpoint e) \<Longrightarrow> off_wait t qs = qs(EpQ e := remove1 t (qs (EpQ e)))"
    and "tcb_waiting_on (tcbs s t) = Some (WaitNotification n) \<Longrightarrow>
           off_wait t qs = qs(NtfnQ n := remove1 t (qs (NtfnQ n)))"
proof -
  have other: "tcb_waiting_on (tcbs s t) \<noteq> Some (WaitEndpoint e) \<Longrightarrow> remove1 t (qs (EpQ e)) = qs (EpQ e)"
    "tcb_waiting_on (tcbs s t) \<noteq> Some (WaitNotification n) \<Longrightarrow> remove1 t (qs (NtfnQ n)) = qs (NtfnQ n)" for e n
    using waiter_on_its_object [OF inv, of t] by (auto intro!: remove1_idem)
  show "tcb_waiting_on (tcbs s t) = None \<Longrightarrow> off_wait t qs = qs"
    by (rule ext) (simp add: off_wait_def other split: qid.split)
  show "tcb_waiting_on (tcbs s t) = Some (WaitEndpoint e) \<Longrightarrow> off_wait t qs = qs(EpQ e := remove1 t (qs (EpQ e)))"
    by (rule ext) (simp add: off_wait_def other split: qid.split)
  show "tcb_waiting_on (tcbs s t) = Some (WaitNotification n) \<Longrightarrow> off_wait t qs = qs(NtfnQ n := remove1 t (qs (NtfnQ n)))"
    by (rule ext) (simp add: off_wait_def other split: qid.split)
qed

lemma off_wait_free:
  assumes "wait_inv s qs"
  shows "t \<notin> set (off_wait t qs (EpQ e))" "t \<notin> set (off_wait t qs (NtfnQ n))"
  using queues_invD(4) [OF wait_invD(1) [OF assms]] by (simp_all add: off_wait_def)

lemma remove_waiter_spec:
  assumes inv: "wait_inv s qs" and w: "tcb_waiting_on (tcbs s t) = Some w"
  shows "\<exists>ep nf lk. (case w of WaitNotification n \<Rightarrow> ntfn_remove_waiter n t s | WaitEndpoint ep \<Rightarrow> ep_remove_waiter ep t s) =
      Some (s\<lparr> eps := ep, ntfns := nf, tlinks := lk \<rparr>) \<and>
    wait_inv (s\<lparr> eps := ep, ntfns := nf, tlinks := lk \<rparr>) (off_wait t qs)"
proof (cases w)
  case (WaitEndpoint e)
  obtain ep lk where "ep_remove_waiter e t s = Some (s\<lparr> eps := ep, tlinks := lk \<rparr>)"
    "wait_inv (s\<lparr> eps := ep, tlinks := lk \<rparr>) (off_wait t qs)"
    using ep_remove_wait_inv [OF inv, of e t] off_wait_eq(2) [OF inv, of t e] w WaitEndpoint by auto
  then show ?thesis using WaitEndpoint by (intro exI [of _ ep] exI [of _ "ntfns s"] exI [of _ lk]) simp
next
  case (WaitNotification n)
  obtain nf lk where "ntfn_remove_waiter n t s = Some (s\<lparr> ntfns := nf, tlinks := lk \<rparr>)"
    "wait_inv (s\<lparr> ntfns := nf, tlinks := lk \<rparr>) (off_wait t qs)"
    using ntfn_remove_wait_inv [OF inv, of n t] off_wait_eq(3) [OF inv, of t n] w WaitNotification by auto
  then show ?thesis using WaitNotification by (intro exI [of _ "eps s"] exI [of _ nf] exI [of _ lk]) simp
qed

lemma unlink_from_wait_object_spec:
  assumes inv: "wait_inv s qs"
  shows "\<exists>f ep nf lk. unlink_from_wait_object t s =
      Some (s\<lparr> eps := ep, ntfns := nf, tlinks := lk, tcbs := (tcbs s)(t := f) \<rparr>) \<and> tcb_waiting_on f = None \<and>
    wait_inv (s\<lparr> eps := ep, ntfns := nf, tlinks := lk, tcbs := (tcbs s)(t := f) \<rparr>) (off_wait t qs)"
proof (cases "tcb_waiting_on (tcbs s t)")
  case None
  then show ?thesis
    using inv off_wait_eq(1) [OF inv, of t]
    by (intro exI [of _ "tcbs s t"] exI [of _ "eps s"] exI [of _ "ntfns s"] exI [of _ "tlinks s"])
      (simp add: unlink_from_wait_object_def)
next
  case (Some w)
  let ?f = "\<lambda>x. clear_endpoint_ipc_state (x\<lparr> tcb_waiting_on := None \<rparr>)"
  obtain ep nf lk where rm: "(case w of WaitNotification n \<Rightarrow> ntfn_remove_waiter n t s
      | WaitEndpoint ep \<Rightarrow> ep_remove_waiter ep t s) = Some (s\<lparr> eps := ep, ntfns := nf, tlinks := lk \<rparr>)"
    and inv1: "wait_inv (s\<lparr> eps := ep, ntfns := nf, tlinks := lk \<rparr>) (off_wait t qs)"
    using remove_waiter_spec [OF inv Some] by blast
  have "wait_inv (upd_tcb t ?f (s\<lparr> eps := ep, ntfns := nf, tlinks := lk \<rparr>)) (off_wait t qs)"
    by (rule wait_inv_upd_tcb [OF inv1]) (rule off_wait_free [OF inv])+
  then show ?thesis
    using rm Some
    by (intro exI [of _ "?f (tcbs s t)"] exI [of _ ep] exI [of _ nf] exI [of _ lk])
      (simp add: unlink_from_wait_object_def upd_tcb_def clear_endpoint_ipc_state_def clear_fault_def)
qed

section \<open>Suspending a thread\<close>

lemma off_wait_dequeued:
  assumes "wait_inv s qs" "MAX_NUM_NODES s' = MAX_NUM_NODES s"
  shows "dequeued s' t (off_wait t qs) = (\<lambda>i. remove1 t (qs i))"
  using wait_invD(4) [OF assms(1)] assms(2)
  by (auto simp: dequeued_def off_wait_def fun_eq_iff not_less split: qid.split)

text \<open>No other core goes on running a stalled thread.\<close>

definition runs_on :: "kstate \<Rightarrow> u64 \<Rightarrow> nat \<Rightarrow> bool" where
  "runs_on s t c \<longleftrightarrow> c < MAX_NUM_NODES s \<and> c < MAX_BOOT_CPUS \<and> cpu_online s c \<and> cpu_current s c = t"

lemma current_core_of_tcb_cases:
  "current_core_of_tcb t s = None \<Longrightarrow> \<not> runs_on s t c"
  "current_core_of_tcb t s = Some c \<Longrightarrow> runs_on s t c"
  by (auto simp: current_core_of_tcb_def find_None_iff find_Some_iff runs_on_def)

lemma idle_thread_iff: "is_idle_thread s t \<longleftrightarrow> (\<exists>c < MAX_NUM_NODES s. idle_tcbs s c = t)"
  by (auto simp: is_idle_thread_def idle_thread_of_def list_ex_iff)

lemma remote_tcb_stall_spec:
  assumes "\<not> is_idle_thread s t" "t \<noteq> 0" "\<And>c c'. runs_on s t c \<Longrightarrow> runs_on s t c' \<Longrightarrow> c = c'"
  shows "\<exists>cc ev. remote_tcb_stall t s = s\<lparr> cpu_current := cc, events := ev \<rparr> \<and>
    (MAX_NUM_NODES s \<le> 2 \<or> \<not> stale_answers s (length (events s)) \<longrightarrow>
      (\<forall>c. c \<noteq> current_core_id s \<longrightarrow> \<not> runs_on (s\<lparr> cpu_current := cc, events := ev \<rparr>) t c))"
proof (cases "current_core_of_tcb t s")
  case None
  then show ?thesis
    using assms(1) current_core_of_tcb_cases(1)
    by (intro exI [of _ "cpu_current s"] exI [of _ "events s"]) (simp add: remote_tcb_stall_def)
next
  case (Some core)
  note runs = current_core_of_tcb_cases(2) [OF Some]
  show ?thesis
  proof (cases "core = current_core_id s")
    case True
    then show ?thesis
      using assms(1,3) Some runs
      by (intro exI [of _ "cpu_current s"] exI [of _ "events s"]) (auto simp: remote_tcb_stall_def)
  next
    case False
    let ?stale = "2 < MAX_NUM_NODES s \<and> stale_answers s (length (events s))"
    have "idle_tcbs s core \<noteq> t" using assms(1) runs by (auto simp: idle_thread_iff runs_on_def)
    moreover have "remote_tcb_stall t s =
        s\<lparr> cpu_current := (if ?stale then cpu_current s else (cpu_current s)(core := idle_tcbs s core)),
           events := events s @ [EvIpi core] \<rparr>"
      using assms(1,2) Some False runs
      by (simp add: remote_tcb_stall_def service_remote_stall_def wake_core_def runs_on_def log_event_def)
    ultimately show ?thesis
      using assms(3) [OF runs]
      by (intro exI [of _ "if ?stale then cpu_current s else (cpu_current s)(core := idle_tcbs s core)"] exI [of _ "events s @ [EvIpi core]"])
        (auto simp: runs_on_def)
  qed
qed

lemma wake_current_core_sel [simp]:
  "tcbs (wake_current_core_of_tcb t s) = tcbs s" "ctes (wake_current_core_of_tcb t s) = ctes s"
  "runs_on (wake_current_core_of_tcb t s) u c = runs_on s u c"
  by (simp_all add: wake_current_core_of_tcb_def wake_core_def log_event_def runs_on_def split: option.split)

lemma wait_inv_wake [simp]: "wait_inv s qs \<Longrightarrow> wait_inv (wake_current_core_of_tcb t s) qs"
  by (rule wait_inv_frame) (simp_all add: wake_current_core_of_tcb_def wake_core_def split: option.split)

text \<open>The last steps of \<open>suspend\<close>, on a thread that is on no queue any more.\<close>

lemma suspend_tail:
  assumes inv: "wait_inv s qs" and t: "\<And>i. t \<notin> set (qs i)"
    and l: "mdb_list (ctes s) (as @ reply_slot_of t # bs)"
    and r: "\<And>d. d \<in> set (take 1 bs) \<Longrightarrow> tag (slot_cap (ctes s) d) = Some TagReply"
  shows "\<exists>s3. cancel_blocked_on_reply t s = Some s3 \<and> wait_inv (set_state t Inactive s3) qs \<and>
    tcb_waiting_on (tcbs s3 t) = tcb_waiting_on (tcbs s t) \<and> (\<forall>u. u \<noteq> t \<longrightarrow> tcbs s3 u = tcbs s u) \<and>
    (\<forall>c. runs_on (set_state t Inactive s3) t c = runs_on s t c) \<and> mdb_list (ctes s3) (as @ reply_slot_of t # tl bs) \<and>
    (\<forall>y. slot_cap (ctes s3) y = (if y \<in> set (take 1 bs) then null_cap else slot_cap (ctes s) y))"
proof -
  obtain h where h: "cancel_blocked_on_reply t s = Some (clear_fault_message t s\<lparr> ctes := h \<rparr>)"
    "mdb_list h (as @ reply_slot_of t # tl bs)"
    "\<forall>y. slot_cap h y = (if y \<in> set (take 1 bs) then null_cap else slot_cap (ctes s) y)"
    using cancel_blocked_on_reply_spec [OF l r] by blast
  have "wait_inv (set_state t Inactive (clear_fault_message t s)) qs"
    unfolding set_state_def clear_fault_message_def by (intro wait_inv_upd_tcb inv t)
  then have "wait_inv (set_state t Inactive (clear_fault_message t s\<lparr> ctes := h \<rparr>)) qs"
    by (rule wait_inv_frame) (simp_all add: set_state_def clear_fault_message_def)
  then show ?thesis
    using h by (intro exI [of _ "clear_fault_message t s\<lparr> ctes := h \<rparr>"])
      (simp add: clear_fault_message_def set_state_def clear_fault_def runs_on_def upd_tcb_def)
qed

text \<open>
  C15: Suspending a thread always succeeds and stops it: it is inactive and waits on nothing, it is
  on no ready queue and no wait queue while every other queue keeps its order, the reply capability
  that was derived from it is gone from its holder and from the derivation list, and neither another
  thread nor another capability changes. No other core goes on running it either, provided the request
  to stop was answered by the core it was made to: this is always so with at most two cores, and with
  more cores when the answer is not the late answer of a third core to an earlier request.
\<close>

theorem suspend_stops_thread:
  assumes inv: "wait_inv s qs" and t: "tcb_addr_ok t" "\<not> is_idle_thread s t"
    and one: "\<And>c c'. runs_on s t c \<Longrightarrow> runs_on s t c' \<Longrightarrow> c = c'"
    and l: "mdb_list (ctes s) (as @ reply_slot_of t # bs)"
    and r: "\<And>d. d \<in> set (take 1 bs) \<Longrightarrow> tag (slot_cap (ctes s) d) = Some TagReply"
  shows "\<exists>s'. suspend t s = Some s' \<and> tcb_state (tcbs s' t) = Inactive \<and> tcb_waiting_on (tcbs s' t) = None \<and>
    wait_inv s' (\<lambda>i. remove1 t (qs i)) \<and> (\<forall>i. t \<notin> set (remove1 t (qs i))) \<and>
    (MAX_NUM_NODES s \<le> 2 \<or> \<not> stale_answers s (length (events s)) \<longrightarrow>
      (\<forall>c. c \<noteq> current_core_id s \<longrightarrow> \<not> runs_on s' t c)) \<and>
    mdb_list (ctes s') (as @ reply_slot_of t # tl bs) \<and>
    (\<forall>y. slot_cap (ctes s') y = (if y \<in> set (take 1 bs) then null_cap else slot_cap (ctes s) y)) \<and>
    (\<forall>u. u \<noteq> t \<longrightarrow> tcbs s' u = tcbs s u)"
proof -
  obtain cc ev where stall: "remote_tcb_stall t s = s\<lparr> cpu_current := cc, events := ev \<rparr>"
    and stalled: "MAX_NUM_NODES s \<le> 2 \<or> \<not> stale_answers s (length (events s)) \<longrightarrow>
      (\<forall>c. c \<noteq> current_core_id s \<longrightarrow> \<not> runs_on (s\<lparr> cpu_current := cc, events := ev \<rparr>) t c)"
    using remote_tcb_stall_spec [OF t(2) tcb_addr_nonzero [OF t(1)] one] by blast
  let ?s0 = "s\<lparr> cpu_current := cc, events := ev \<rparr>"
  have inv0: "wait_inv ?s0 qs" by (rule wait_inv_frame [OF inv]) simp_all
  obtain f ep nf lk where
    un: "unlink_from_wait_object t ?s0 = Some (?s0\<lparr> eps := ep, ntfns := nf, tlinks := lk, tcbs := (tcbs s)(t := f) \<rparr>)"
    and f: "tcb_waiting_on f = None"
    and inv1: "wait_inv (?s0\<lparr> eps := ep, ntfns := nf, tlinks := lk, tcbs := (tcbs s)(t := f) \<rparr>) (off_wait t qs)"
    using unlink_from_wait_object_spec [OF inv0, of t] by auto
  define s1 where "s1 = ?s0\<lparr> eps := ep, ntfns := nf, tlinks := lk, tcbs := (tcbs s)(t := f) \<rparr>"
  have dq: "dequeued s1 t (off_wait t qs) = (\<lambda>i. remove1 t (qs i))" by (rule off_wait_dequeued [OF inv]) (simp add: s1_def)
  obtain s2 where s2: "dequeue t s1 = Some s2" "wait_inv s2 (\<lambda>i. remove1 t (qs i))" "only_queues_changed s1 s2"
    using wait_inv_dequeue [OF inv1, folded s1_def, of t] dq by auto
  have same: "tcbs s2 = (tcbs s)(t := f)" "ctes s2 = ctes s" "\<And>c. runs_on s2 t c = runs_on ?s0 t c"
    using s2(3) by (auto simp: only_queues_changed_def s1_def runs_on_def)
  have free: "t \<notin> set (remove1 t (qs i))" for i using queues_invD(4) [OF wait_invD(1) [OF inv]] by simp
  have l2: "mdb_list (ctes s2) (as @ reply_slot_of t # bs)" using l same by simp
  from suspend_tail [OF s2(2) free l2] r same obtain s3 where
    s3: "cancel_blocked_on_reply t s2 = Some s3" "wait_inv (set_state t Inactive s3) (\<lambda>i. remove1 t (qs i))"
      "tcb_waiting_on (tcbs s3 t) = None" "\<forall>u. u \<noteq> t \<longrightarrow> tcbs s3 u = tcbs s u"
      "\<forall>c. runs_on (set_state t Inactive s3) t c = runs_on ?s0 t c" "mdb_list (ctes s3) (as @ reply_slot_of t # tl bs)"
      "\<forall>y. slot_cap (ctes s3) y = (if y \<in> set (take 1 bs) then null_cap else slot_cap (ctes s) y)"
    using f by (auto simp: fun_upd_other)
  let ?s' = "wake_current_core_of_tcb t (set_state t Inactive s3)"
  have "suspend t s = Some ?s'"
    using t(2) s2(1) s3(1) un by (simp add: suspend_def stall s1_def)
  moreover have "tcb_state (tcbs ?s' t) = Inactive" "tcb_waiting_on (tcbs ?s' t) = None"
    "\<forall>u. u \<noteq> t \<longrightarrow> tcbs ?s' u = tcbs s u" "ctes ?s' = ctes s3"
    using s3(3,4) by (simp_all add: set_state_def)
  ultimately show ?thesis using s3 stalled free by (intro exI [of _ ?s']) simp
qed

text \<open>The two blocked senders, with a reply capability derived from the first held in another slot.\<close>

definition replied_senders :: kstate where
  "replied_senders = two_senders\<lparr> ctes := (\<lambda>_. cte_null)(
     reply_slot_of thr_a := \<lparr> cte_cap = new_reply thr_a True True, cte_mdb = mdb_new 0 slot_a True True \<rparr>,
     slot_a := \<lparr> cte_cap = new_reply thr_a False False, cte_mdb = mdb_new (reply_slot_of thr_a) 0 False False \<rparr>) \<rparr>"

lemma reply_slot_a: "cte_addr_ok (reply_slot_of thr_a)" "reply_slot_of thr_a \<noteq> slot_a"
  by (simp_all add: reply_slot_of_def thr_a_def TCB_REPLY_def slot_a_def cte_addr_ok_def sign_extend_next_def
      NEXT_MASK_def MDB_SIGN_EXT_def)

lemma replied_senders_list: "mdb_list (ctes replied_senders) [reply_slot_of thr_a, slot_a]"
proof -
  have "mdb_links (ctes replied_senders) (reply_slot_of thr_a) = \<lparr> links_prev = None, links_next = Some slot_a \<rparr>"
    "mdb_links (ctes replied_senders) slot_a = \<lparr> links_prev = Some (reply_slot_of thr_a), links_next = None \<rparr>"
    using slot_addr_ok(1) reply_slot_a sign_extend_next_ok [OF slot_addr_ok(1)]
    by (simp_all add: replied_senders_def mdb_links_def mdb_prev_def mdb_next_def from_kva_def cte_addr_ok_nonzero)
  then show ?thesis using slot_addr_ok(1) reply_slot_a by (simp add: mdb_list_def)
qed

lemma two_senders_cpus:
  "cpu_current two_senders c = 0" "idle_tcbs two_senders c = 0xFFFFFFFF84000000 + of_nat c * 2048"
  "MAX_NUM_NODES two_senders = 1"
  by (simp_all add: two_senders_def set_blocked_sender_def ep_enqueue_waiter_def Let_def set_ep_q_def upd_ep_def
      case_prod_beta)

text \<open>The same capabilities, with the thread running on the other one of two cores.\<close>

definition running_elsewhere :: kstate where
  "running_elsewhere = (empty_kstate 2 0)\<lparr> ctes := ctes replied_senders,
     tcbs := (\<lambda>_. tcb_zero)(thr_a := tcb_zero\<lparr> tcb_state := Running \<rparr>), cpu_current := (\<lambda>_. 0)(1 := thr_a) \<rparr>"

lemma running_elsewhere_inv: "wait_inv running_elsewhere (\<lambda>_. [])"
proof -
  have "wait_inv (upd_tcb thr_a (\<lambda>x. x\<lparr> tcb_state := Running \<rparr>) (empty_kstate 2 0)) (\<lambda>_. [])"
    by (rule wait_inv_upd_tcb [OF wait_inv_empty]) simp_all
  then show ?thesis by (rule wait_inv_frame) (simp_all add: running_elsewhere_def)
qed

theorem suspend_stops_thread_witness:
  "(\<exists>s'. suspend thr_a replied_senders = Some s' \<and> tcb_state (tcbs s' thr_a) = Inactive \<and>
     wait_inv s' ((\<lambda>_. [])(EpQ ep_a := [thr_b])) \<and> slot_cap (ctes s') slot_a = null_cap) \<and>
   runs_on running_elsewhere thr_a 1 \<and>
   (\<exists>s'. suspend thr_a running_elsewhere = Some s' \<and> tcb_state (tcbs s' thr_a) = Inactive \<and> \<not> runs_on s' thr_a 1)"
proof (intro conjI)
  have "wait_inv replied_senders ((\<lambda>_. [])(EpQ ep_a := [thr_a, thr_b]))"
    by (rule wait_inv_frame [OF two_senders_inv]) (simp_all add: replied_senders_def)
  moreover have "(\<lambda>i. remove1 thr_a (((\<lambda>_. [])(EpQ ep_a := [thr_a, thr_b])) i)) = (\<lambda>_. [])(EpQ ep_a := [thr_b])"
    by (simp add: fun_eq_iff)
  moreover have "\<not> is_idle_thread replied_senders thr_a" "\<not> runs_on replied_senders thr_a c" for c
    using tcb_addr_nonzero [OF thr_addr_ok(1)] two_senders_cpus
    by (auto simp: idle_thread_iff runs_on_def replied_senders_def thr_a_def)
  moreover have reply: "tag (slot_cap (ctes replied_senders) slot_a) = Some TagReply"
    by (simp add: replied_senders_def slot_cap_def)
  ultimately show "\<exists>s'. suspend thr_a replied_senders = Some s' \<and> tcb_state (tcbs s' thr_a) = Inactive \<and>
     wait_inv s' ((\<lambda>_. [])(EpQ ep_a := [thr_b])) \<and> slot_cap (ctes s') slot_a = null_cap"
    using suspend_stops_thread [of replied_senders "(\<lambda>_. [])(EpQ ep_a := [thr_a, thr_b])" thr_a "[]" "[slot_a]"]
      thr_addr_ok(1) replied_senders_list by fastforce
  show runs: "runs_on running_elsewhere thr_a 1"
    by (simp add: runs_on_def running_elsewhere_def empty_kstate_def MAX_BOOT_CPUS_def)
  have only: "runs_on running_elsewhere thr_a c \<Longrightarrow> c = 1" for c
    using tcb_addr_nonzero [OF thr_addr_ok(1)] by (auto simp: runs_on_def running_elsewhere_def split: if_splits)
  have "idle_tcbs running_elsewhere c \<noteq> thr_a" if "c < 2" for c
    using that by (cases "c = 0") (simp_all add: running_elsewhere_def thr_a_def less_2_cases_iff)
  then have idle: "\<not> is_idle_thread running_elsewhere thr_a"
    by (auto simp: idle_thread_iff running_elsewhere_def)
  have list: "mdb_list (ctes running_elsewhere) ([] @ reply_slot_of thr_a # [slot_a])"
    using replied_senders_list by (simp add: running_elsewhere_def)
  have "tag (slot_cap (ctes running_elsewhere) slot_a) = Some TagReply" using reply by (simp add: running_elsewhere_def)
  then have derived: "tag (slot_cap (ctes running_elsewhere) d) = Some TagReply" if "d \<in> set (take 1 [slot_a])" for d
    using that by simp
  have one: "c = c'" if "runs_on running_elsewhere thr_a c" "runs_on running_elsewhere thr_a c'" for c c'
    using that only by metis
  have "MAX_NUM_NODES running_elsewhere = 2" "current_core_id running_elsewhere = 0" by (simp_all add: running_elsewhere_def)
  with suspend_stops_thread [OF running_elsewhere_inv thr_addr_ok(1) idle one list derived]
  show "\<exists>s'. suspend thr_a running_elsewhere = Some s' \<and> tcb_state (tcbs s' thr_a) = Inactive \<and> \<not> runs_on s' thr_a 1"
    by auto
qed

end
