(* ===== verification/Rel4_Revoke.thy ===== *)
theory Rel4_Revoke
  imports Rel4_Lifecycle
begin

text \<open>
  Finalization, zombies, deletion and revocation of capabilities (\<^verbatim>\<open>api/invocation.rs\<close>).

  \<^verbatim>\<open>finalise_slot\<close>, \<^verbatim>\<open>reduce_zombie\<close> and \<^verbatim>\<open>cte_delete\<close> call each other; the bodies of the last two
  take the function they call as an argument, and \<open>finalise_slot\<close> ties the knot.
\<close>

section \<open>Operations\<close>

definition TCB_ARCH_CNODE_ENTRIES :: nat where "TCB_ARCH_CNODE_ENTRIES = TCB_CNODE_ENTRIES"

definition finalize_cap :: "cap \<Rightarrow> bool \<Rightarrow> bool \<Rightarrow> kstate \<Rightarrow> (finalise_cap_result \<times> kstate) option" where
  "finalize_cap c is_final exposed s = do {
     (at_once, s1) \<leftarrow> finalize_cap_at_once c is_final s;
     case at_once of
       Some r \<Rightarrow> Some (r, s1)
     | None \<Rightarrow>
         if exposed then None
         else (case tag c of
           Some TagCNode \<Rightarrow>
             if is_final then
               (if cnode_ptr c = 0 \<or> \<not> is_boot_or_pspace_object_kva (cnode_ptr c) then None
                else Some (fc_with_remainder
                  (new_cnode_zombie (shl64 1 (unat (cnode_radix c))) (cnode_radix c) (cnode_ptr c)), s1))
             else Some (fc_null, s1)
         | Some TagThread \<Rightarrow>
             if is_final then do {
               target \<leftarrow> as_thread c;
               if \<not> is_boot_or_pspace_object_kva target then None
               else do {
                 s2 \<leftarrow> tcb_finalize target (remote_tcb_stall target s1);
                 Some (fc_with_remainder (new_tcb_zombie (of_nat TCB_ARCH_CNODE_ENTRIES) target), s2)
               }
             }
             else Some (fc_null, s1)
         | Some TagZombie \<Rightarrow> Some (fc_with_remainder c, s1)
         | Some TagIrqHandler \<Rightarrow>
             if is_final then do {
               s2 \<leftarrow> deleting_handler (irq_handler_irq c) s1;
               Some (fc_with_cleanup null_cap c, s2)
             }
             else Some (fc_null, s1)
         | _ \<Rightarrow> Some (fc_null, s1))
   }"

record finalise_slot_result =
  fs_success :: bool
  fs_cleanup_info :: cap

definition cte_delete_by ::
  "(u64 \<Rightarrow> bool \<Rightarrow> kstate \<Rightarrow> finalise_slot_result result) \<Rightarrow> u64 \<Rightarrow> bool \<Rightarrow> kstate \<Rightarrow> unit result" where
  "cte_delete_by finalise slot exposed s =
     try_bind (finalise slot exposed s) (\<lambda>r s1.
       Some (Inr (), if exposed \<or> fs_success r then empty_finalized_slot slot (fs_cleanup_info r) s1 else s1))"

text \<open>What \<^verbatim>\<open>reduce_zombie\<close> does once the last slot of the range has been deleted.\<close>

definition shrink_zombie :: "u64 \<Rightarrow> u64 \<Rightarrow> u64 \<Rightarrow> u64 \<Rightarrow> u64 \<Rightarrow> kstate \<Rightarrow> unit result" where
  "shrink_zombie slot ptr n ztype end_slot s =
     (let current = slot_cap (ctes s) slot in
      case tag current of
        Some TagNull \<Rightarrow> Some (Inr (), s)
      | Some TagZombie \<Rightarrow>
          if zombie_first_slot current = Some ptr \<and> zombie_number current = n \<and> zombie_type current = ztype
          then (if \<not> is_null (slot_cap (ctes s) end_slot) then None
                else Some (Inr (), upd_ctes (set_cap slot (set_zombie_number (n - 1) current)) s))
          else if zombie_first_slot current = Some slot \<and> ptr \<noteq> slot then Some (Inr (), s)
          else None
      | _ \<Rightarrow> None)"

definition reduce_zombie_by ::
  "(u64 \<Rightarrow> bool \<Rightarrow> kstate \<Rightarrow> unit result) \<Rightarrow> u64 \<Rightarrow> bool \<Rightarrow> kstate \<Rightarrow> unit result" where
  "reduce_zombie_by delete slot immediate s =
     (let c = slot_cap (ctes s) slot in
      if tag c \<noteq> Some TagZombie then None
      else do {
        (ptr, len) \<leftarrow> zombie_slots c;
        removable \<leftarrow> cap_removable c slot;
        if zombie_number c = 0 then None
        else if removable then None
        else if immediate then do {
          end_slot \<leftarrow> objarray_get ptr 32 len (unat (zombie_number c - 1));
          try_bind (delete end_slot False s) (\<lambda>_ s1.
            shrink_zombie slot ptr (zombie_number c) (zombie_type c) end_slot s1)
        }
        else if ptr = slot then None
        else
          let ptr_cap = slot_cap (ctes s) ptr in
          if tag ptr_cap = Some TagZombie \<and> zombie_first_slot ptr_cap = Some ptr then None
          else do { s1 \<leftarrow> upd_ctes_opt (cap_swap_for_delete ptr slot) s; Some (Inr (), s1) }
      })"

lemma cte_delete_by_mono [partial_function_mono]:
  assumes "\<And>a b c. mono_option (\<lambda>f. B a b c f)"
  shows "mono_option (\<lambda>f. cte_delete_by (\<lambda>a b c. B a b c f) slot exposed s)"
  unfolding cte_delete_by_def by (intro try_bind_mono assms option.const_mono)

lemma reduce_zombie_by_mono [partial_function_mono]:
  assumes B: "\<And>a b c. mono_option (\<lambda>f. B a b c f)"
  shows "mono_option (\<lambda>f. reduce_zombie_by (\<lambda>a b c. B a b c f) slot immediate s)"
  unfolding reduce_zombie_by_def Let_def case_prod_beta'
  by (intro if_mono bind_mono try_bind_mono B option.const_mono)

partial_function (option) finalise_slot :: "u64 \<Rightarrow> bool \<Rightarrow> kstate \<Rightarrow> finalise_slot_result result" where
  "finalise_slot slot immediate s = (case snapshot_slot_for_delete slot s of
     None \<Rightarrow> Some (Inr \<lparr> fs_success = True, fs_cleanup_info = null_cap \<rparr>, s)
   | Some target \<Rightarrow>
       if tag (ft_cap target) = None then None
       else Option.bind (finalize_cap (ft_cap target) (ft_is_final target) False s) (\<lambda>(r, s1).
         Option.bind (finalise_result_removable r slot) (\<lambda>removable.
           if removable
           then Some (Inr \<lparr> fs_success = True, fs_cleanup_info = fc_cleanup_info r \<rparr>, s1)
           else
             let s2 = upd_ctes (set_cap slot (fc_remainder r)) s1 in
             if \<not> immediate \<and> cap_cyclic_zombie (fc_remainder r) slot
             then Some (Inr \<lparr> fs_success = False, fs_cleanup_info = fc_cleanup_info r \<rparr>, s2)
             else try_bind (reduce_zombie_by (cte_delete_by finalise_slot) slot immediate s2) (\<lambda>_ s3.
               try_bind (cnode_preemption_point s3) (\<lambda>_ s4. finalise_slot slot immediate s4)))))"

declare finalise_slot.simps [code]

definition cte_delete :: "u64 \<Rightarrow> bool \<Rightarrow> kstate \<Rightarrow> unit result" where
  "cte_delete = cte_delete_by finalise_slot"

definition reduce_zombie :: "u64 \<Rightarrow> bool \<Rightarrow> kstate \<Rightarrow> unit result" where
  "reduce_zombie = reduce_zombie_by cte_delete"

definition delete_slot :: "u64 \<Rightarrow> kstate \<Rightarrow> unit result" where
  "delete_slot slot s = cte_delete slot True s"

definition delete_slot_preemptible :: "u64 \<Rightarrow> kstate \<Rightarrow> unit result" where
  "delete_slot_preemptible slot s = delete_slot slot (reset_cnode_work_units s)"

definition next_descendant_for_revoke :: "u64 \<Rightarrow> kstate \<Rightarrow> u64 option" where
  "next_descendant_for_revoke cte s =
     (if \<not> mdb_has_children (ctes s) cte then None else mdb_next (ctes s) cte)"

definition revoke_one_descendant :: "u64 \<Rightarrow> kstate \<Rightarrow> bool result" where
  "revoke_one_descendant cte s = (case next_descendant_for_revoke cte s of
     None \<Rightarrow> Some (Inr False, s)
   | Some slot \<Rightarrow> try_bind (cte_delete slot True s) (\<lambda>_ s1. Some (Inr True, s1)))"

partial_function (option) revoke_descendants :: "u64 \<Rightarrow> kstate \<Rightarrow> unit result" where
  "revoke_descendants cte s =
     try_bind (revoke_one_descendant cte s) (\<lambda>more s1.
       if \<not> more then Some (Inr (), s1)
       else try_bind (cnode_preemption_point s1) (\<lambda>_ s2. revoke_descendants cte s2))"

declare revoke_descendants.simps [code]

definition cte_revoke :: "u64 \<Rightarrow> kstate \<Rightarrow> unit result" where
  "cte_revoke root s =
     (if \<not> mdb_has_children (ctes s) root then Some (Inr (), s)
      else revoke_descendants root (reset_cnode_work_units s))"

section \<open>Capabilities to memory\<close>

text \<open>
  Finalizing a capability to memory may change page tables, address space identifiers, the root
  register and the record of requests; \<open>besides_memory\<close> is everything else.
\<close>

definition besides_memory :: "kstate \<Rightarrow> kstate" where
  "besides_memory s = s\<lparr> mem := (\<lambda>_. 0), asids := asid_state_new, satp := (\<lambda>_. 0), events := [] \<rparr>"

lemma besides_memory_upds [simp]:
  "besides_memory (log_event e s) = besides_memory s" "besides_memory (write_pte a v s) = besides_memory s"
  "besides_memory (upd_asids f s) = besides_memory s" "besides_memory (set_pool_entry p i r s) = besides_memory s"
  "besides_memory (switch_satp v s) = besides_memory s"
  "besides_memory (remote_tlb_flush_all s) = besides_memory s"
  "besides_memory (remote_tlb_flush_asid_all k s) = besides_memory s"
  by (simp_all add: remote_flush_eqs besides_memory_def log_event_def write_pte_def upd_asids_def set_pool_entry_def switch_satp_def)

lemma besides_memory_roots [simp]:
  "besides_memory (flush_vaddr_for_root r v s) = besides_memory s"
  "besides_memory (switch_to_kernel_root s) = besides_memory s"
  "besides_memory (snd (try_switch_to_tcb_root t s)) = besides_memory s"
  by (simp_all add: flush_vaddr_for_root_def switch_to_kernel_root_def try_switch_to_tcb_root_def Let_def split: option.split)

lemma besides_memory_set_root [simp]: "besides_memory (set_current_vspace_root s) = besides_memory s"
  by (auto simp: set_current_vspace_root_def case_prod_beta split: option.split)

lemma besides_memory_asids [simp]:
  "besides_memory (delete_pool b p s) = besides_memory s" "besides_memory (asid_delete a r s) = besides_memory s"
  by (simp_all add: delete_pool_def asid_delete_def Let_def tlb_flush_all_cpus_def tlb_flush_asid_all_cpus_def)

lemma besides_memory_unmap_levels [simp]:
  "besides_memory (snd (unmap_user_page_table_levels l r v tg p s)) = besides_memory s"
  by (induction l arbitrary: p) (simp_all add: Let_def)

lemma besides_memory_unmap [simp]:
  "besides_memory (snd (unmap_user_page_table r v tg s)) = besides_memory s"
  "besides_memory (snd (unmap_user_frame r v sc pa s)) = besides_memory s"
  by (simp_all add: unmap_user_page_table_def unmap_user_frame_def Let_def split: option.split sum.split)

lemma besides_memory_ctes: "besides_memory (upd_ctes f s) = upd_ctes f (besides_memory s)"
  by (cases s) (simp add: besides_memory_def upd_ctes_def)

lemma besides_memoryD:
  assumes "besides_memory s' = besides_memory s"
  shows "ctes s' = ctes s" "work_units s' = work_units s" "time_reads s' = time_reads s"
    "next_timer_deadline s' = next_timer_deadline s" "current_core_id s' = current_core_id s" "tcbs s' = tcbs s"
  using arg_cong [OF assms, of ctes] arg_cong [OF assms, of work_units] arg_cong [OF assms, of time_reads]
    arg_cong [OF assms, of next_timer_deadline] arg_cong [OF assms, of current_core_id] arg_cong [OF assms, of tcbs]
  by (simp_all add: besides_memory_def)

definition memory_cap :: "cap \<Rightarrow> bool" where
  "memory_cap c \<longleftrightarrow> tag c \<in> {Some TagUntyped, Some TagFrame, Some TagPageTable, Some TagAsidPool}"

lemma finalize_memory_cap:
  assumes "memory_cap c"
  shows "\<exists>s'. finalize_cap c is_final False s = Some (fc_null, s') \<and> besides_memory s' = besides_memory s"
  using assms
  by (auto simp: memory_cap_def finalize_cap_def finalize_cap_at_once_def finalize_frame_def finalize_page_table_def Let_def)

lemma delete_memory_cap:
  assumes "memory_cap (slot_cap (ctes s) slot)"
  shows "\<exists>s'. cte_delete slot True s = Some (Inr (), s') \<and> ctes s' = empty_slot_links slot (ctes s) \<and>
    besides_memory s' = besides_memory (upd_ctes (empty_slot_links slot) s)"
proof -
  let ?c = "slot_cap (ctes s) slot"
  have c: "\<not> is_null ?c" "tag ?c \<noteq> None" using assms by (auto simp: memory_cap_def is_null_iff_tag)
  obtain s1 where s1: "finalize_cap ?c (is_final_capability slot (ctes s)) False s = Some (fc_null, s1)"
    "besides_memory s1 = besides_memory s"
    using finalize_memory_cap [OF assms] by blast
  note same = besides_memoryD [OF s1(2)]
  have "finalise_slot slot True s = Some (Inr \<lparr> fs_success = True, fs_cleanup_info = null_cap \<rparr>, s1)"
    using c s1(1) by (subst finalise_slot.simps) (simp add: snapshot_slot_for_delete_def Let_def, simp add: fc_null_def)
  then have "cte_delete slot True s = Some (Inr (), upd_ctes (empty_slot_links slot) s1)"
    using c(1) same(1) by (simp add: cte_delete_def cte_delete_by_def empty_finalized_slot_def empty_slot_def post_cap_deletion_def)
  moreover have "besides_memory (upd_ctes (empty_slot_links slot) s1) = besides_memory (upd_ctes (empty_slot_links slot) s)"
    by (simp add: besides_memory_ctes s1(2))
  ultimately show ?thesis using same(1) by (simp add: upd_ctes_def)
qed

section \<open>Revocation\<close>

lemma parent_ignores_badge:
  assumes "tag (cte_cap a) \<noteq> Some TagEndpoint" "tag (cte_cap a) \<noteq> Some TagNotification"
    and "cte_cap a' = cte_cap a" "cte_cap b' = cte_cap b" "mdb_revocable (cte_mdb a') = mdb_revocable (cte_mdb a)"
  shows "mdb_parent_of a' b' = mdb_parent_of a b"
proof (cases "tag (cte_cap a)")
  case (Some x)
  then show ?thesis using assms by (cases x; cases "tag (cte_cap b)") (simp_all add: mdb_parent_of_def Let_def)
qed (use assms in \<open>simp add: mdb_parent_of_def\<close>)

lemma parent_of_memory_cap:
  assumes "mdb_parent_of a b" "memory_cap (cte_cap b)"
  shows "tag (cte_cap a) \<noteq> Some TagEndpoint" "tag (cte_cap a) \<noteq> Some TagNotification"
  using assms by (auto simp: mdb_parent_of_def memory_cap_def Let_def split: if_splits)

text \<open>No timer interrupt falls due, so that a preemption point lets the operation go on.\<close>

definition timer_quiet :: "kstate \<Rightarrow> bool" where
  "timer_quiet s \<longleftrightarrow> next_timer_deadline s (current_core_id s) = 0 \<or>
     (\<forall>n. time_reads s n < next_timer_deadline s (current_core_id s))"

text \<open>What the queues and the clock must be like for a preemption point to return.\<close>

definition preemptible :: "kstate \<Rightarrow> bool" where
  "preemptible s \<longleftrightarrow> (\<exists>qs. queues_inv s qs) \<and> clock_ok s"

lemma preemption_point_returns:
  assumes "preemptible s" "work_units s < 100"
  obtains s' where "cnode_preemption_point s = Some (Inr (), s')" "ctes s' = ctes s" "preemptible s'"
      "work_units s' = Suc (work_units s) mod 100" "timer_quiet s' = timer_quiet s"
  | s' where "cnode_preemption_point s = Some (Inl Preempted, s')" "ctes s' = ctes s" "work_units s = 99" "\<not> timer_quiet s"
proof -
  obtain qs where inv: "queues_inv s qs" "clock_ok s" using assms(1) by (auto simp: preemptible_def)
  let ?s0 = "s\<lparr> work_units := 0 \<rparr>"
  let ?s1 = "?s0\<lparr> time_pos := Suc (time_pos s) \<rparr>" and ?d = "next_timer_deadline s (current_core_id s)"
  have inv1: "queues_inv ?s1 qs" by (rule queues_inv_same [OF inv(1)]) simp_all
  have keep: "preemptible (s\<lparr> work_units := n \<rparr>)" "preemptible ?s1" for n
    using inv inv1 queues_inv_same [OF inv(1), of "s\<lparr> work_units := n \<rparr>"] by (auto simp: preemptible_def clock_ok_def)
  note defs = cnode_preemption_point_def CNODE_WORK_UNITS_PER_PREEMPTION_def service_due_timer_interrupts_def read_time_def
    timer_quiet_def Let_def
  consider "work_units s + 1 < 100" | "work_units s = 99" "?d = 0" | "work_units s = 99" "?d \<noteq> 0" "time_reads s (time_pos s) < ?d"
    | "work_units s = 99" "?d \<noteq> 0" "\<not> time_reads s (time_pos s) < ?d" using assms(2) by linarith
  then show thesis
  proof cases
    case 4
    obtain s' where "handle_timer_interrupt ?s1 = Some s'" "ctes s' = ctes s"
      using handle_timer_total [OF inv1] inv(2) by (auto simp: clock_ok_def)
    then show ?thesis using 4 by (intro that(2) [of s']) (auto simp: defs)
  qed (auto intro!: that(1) simp: defs keep)
qed

lemma preemptible_cong:
  assumes "besides_memory s' = besides_memory (upd_ctes f s)"
  shows "timer_quiet s' = timer_quiet s" "preemptible s' = preemptible s" "work_units s' = work_units s"
proof -
  note eq = besides_memoryD [OF assms]
  have "runqueues s' = runqueues s" "eps s' = eps s" "ntfns s' = ntfns s" "tlinks s' = tlinks s"
    using arg_cong [OF assms, of runqueues] arg_cong [OF assms, of eps] arg_cong [OF assms, of ntfns] arg_cong [OF assms, of tlinks]
    by (simp_all add: besides_memory_def upd_ctes_def)
  then have "queues_inv s' qs = queues_inv s qs" for qs
    using queues_inv_same [of "{}" s qs s'] queues_inv_same [of "{}" s' qs s] by auto
  then show "preemptible s' = preemptible s" using eq by (simp add: preemptible_def clock_ok_def upd_ctes_def)
qed (use besides_memoryD [OF assms] in \<open>simp_all add: timer_quiet_def upd_ctes_def\<close>)

lemma next_descendant:
  assumes "mdb_list (ctes s) (as @ root # bs)"
  shows "next_descendant_for_revoke root s =
    (case bs of [] \<Rightarrow> None | b # _ \<Rightarrow> if is_mdb_parent_of (ctes s) root b then Some b else None)"
  using mdb_list_links(2) [OF assms]
  by (simp add: next_descendant_for_revoke_def mdb_has_children_def split: list.split)

text \<open>
  What a revocation has done when it returns: the first \<open>k\<close> derived capabilities are deleted. It is
  complete, or it was preempted by a timer that is due, at a multiple of 100 units of work.
\<close>

definition revoked :: "u64 list \<Rightarrow> u64 \<Rightarrow> u64 list \<Rightarrow> u64 list \<Rightarrow> kstate \<Rightarrow> nat \<Rightarrow> syscall_error + unit \<Rightarrow> kstate \<Rightarrow> bool" where
  "revoked as root cs bs s k r s' \<longleftrightarrow> k \<le> length cs \<and> mdb_list (ctes s') (as @ root # drop k cs @ bs) \<and>
     (\<forall>y. slot_cap (ctes s') y = (if y \<in> set (take k cs) then null_cap else slot_cap (ctes s) y)) \<and>
     (r = Inr () \<and> k = length cs \<and> \<not> mdb_has_children (ctes s') root \<or>
      r = Inl Preempted \<and> \<not> timer_quiet s \<and> 0 < k \<and> (work_units s + k) mod 100 = 0)"

lemma revoke_descendants_spec:
  assumes "mdb_list (ctes s) (as @ root # cs @ bs)" "preemptible s" "work_units s < 100"
    and "\<forall>c\<in>set cs. memory_cap (slot_cap (ctes s) c) \<and> is_mdb_parent_of (ctes s) root c"
    and "\<forall>b\<in>set (take 1 bs). \<not> is_mdb_parent_of (ctes s) root b"
    and "tag (slot_cap (ctes s) root) \<noteq> Some TagEndpoint" "tag (slot_cap (ctes s) root) \<noteq> Some TagNotification"
  shows "\<exists>k r s'. revoke_descendants root s = Some (r, s') \<and> revoked as root cs bs s k r s'"
  using assms
proof (induction cs arbitrary: s)
  case Nil
  then have none: "next_descendant_for_revoke root s = None" by (auto simp: next_descendant split: list.split)
  then have "revoke_descendants root s = Some (Inr (), s)"
    by (subst revoke_descendants.simps) (simp add: revoke_one_descendant_def)
  moreover have "\<not> mdb_has_children (ctes s) root"
    using none by (auto simp: next_descendant_for_revoke_def mdb_has_children_def split: if_splits option.splits)
  ultimately show ?case using Nil.prems(1) by (auto simp: revoked_def)
next
  case (Cons c cs)
  let ?h = "empty_slot_links c (ctes s)"
  have l: "mdb_list (ctes s) ((as @ [root]) @ c # cs @ bs)" using Cons.prems(1) by simp
  note e = empty_slot_links_list [OF l]
  have d: "root \<noteq> c" "c \<notin> set cs" "\<forall>b\<in>set (take 1 bs). b \<noteq> c" using Cons.prems(1) by (auto simp: mdb_list_def dest: in_set_takeD)
  have par: "is_mdb_parent_of ?h root y = is_mdb_parent_of (ctes s) root y" if "y \<noteq> c" for y
    using parent_ignores_badge [of "ctes s root" "?h root" "?h y" "ctes s y"] Cons.prems(6,7) e(4) [of root] e(4) [OF that] e(5) [of root] d(1)
    by (simp add: is_mdb_parent_of_def slot_cap_def slot_mdb_def)
  obtain s1 where s1: "cte_delete c True s = Some (Inr (), s1)" "ctes s1 = ?h"
    "besides_memory s1 = besides_memory (upd_ctes (empty_slot_links c) s)"
    using delete_memory_cap [of s c] Cons.prems(4) by auto
  note same = preemptible_cong [OF s1(3)]
  have "next_descendant_for_revoke root s = Some c" using Cons.prems(1,4) by (auto simp: next_descendant)
  then have step: "revoke_descendants root s = try_bind (cnode_preemption_point s1) (\<lambda>_ s2. revoke_descendants root s2)"
    using s1(1) by (subst revoke_descendants.simps) (simp add: revoke_one_descendant_def)
  have "preemptible s1" "work_units s1 < 100" using same Cons.prems(2,3) by simp_all
  then show ?case
  proof (cases rule: preemption_point_returns)
    case (2 s2)
    then have "revoked as root (c # cs) bs s 1 (Inl Preempted) s2" using e(1,2,4) s1(2) same by (auto simp: revoked_def)
    then show ?thesis using step 2(1) by auto
  next
    case (1 s2)
    have "\<exists>k r s'. revoke_descendants root s2 = Some (r, s') \<and> revoked as root cs bs s2 k r s'"
    proof (rule Cons.IH)
      show "mdb_list (ctes s2) (as @ root # cs @ bs)" using e(1) 1(2) s1(2) by simp
      show "\<forall>x\<in>set cs. memory_cap (slot_cap (ctes s2) x) \<and> is_mdb_parent_of (ctes s2) root x"
      proof
        fix x assume "x \<in> set cs"
        moreover from this have "x \<noteq> c" using d(2) by blast
        ultimately show "memory_cap (slot_cap (ctes s2) x) \<and> is_mdb_parent_of (ctes s2) root x"
          using Cons.prems(4) par e(4) 1(2) s1(2) by simp
      qed
      show "\<forall>b\<in>set (take 1 bs). \<not> is_mdb_parent_of (ctes s2) root b" using Cons.prems(5) d par 1(2) s1(2) by auto
    qed (use 1 s1(2) e(4) [OF d(1)] Cons.prems(6,7) in auto)
    then obtain k r s' where k: "revoke_descendants root s2 = Some (r, s')" "revoked as root cs bs s2 k r s'" by blast
    have "(work_units s + Suc k) mod 100 = (work_units s2 + k) mod 100" using 1(4) same(3) by (simp add: mod_simps)
    then have "revoked as root (c # cs) bs s (Suc k) r s'"
      using k(2) e(2,4) 1(2,5) s1(2) same(1) d(2) by (auto simp: revoked_def dest: in_set_takeD)
    then show ?thesis using step 1(1) k(1) by auto
  qed
qed

text \<open>
  C2: Revoking a capability whose derived capabilities are capabilities to memory (untyped memory,
  frames, page tables and pools of address space identifiers) always returns, whatever the timer does,
  and deletes derived capabilities only: the capability itself and all others stay as they are. It
  succeeds when all of them are deleted and have left the derivation list, and nothing derived is left.
  It reports \<open>Preempted\<close> only when a timer interrupt is due, and has then deleted at least 100 of the
  derived capabilities; so it succeeds whenever no timer falls due or there are fewer than 100.
\<close>

theorem revoke_deletes_all_derived:
  assumes l: "mdb_list (ctes s) (as @ root # cs @ bs)" and q: "queues_inv s qs" and t: "clock_ok s"
    and cs: "\<forall>c\<in>set cs. memory_cap (slot_cap (ctes s) c) \<and> is_mdb_parent_of (ctes s) root c"
    and bs: "\<forall>b\<in>set (take 1 bs). \<not> is_mdb_parent_of (ctes s) root b"
  shows "\<exists>r s' k. cte_revoke root s = Some (r, s') \<and> k \<le> length cs \<and> mdb_list (ctes s') (as @ root # drop k cs @ bs) \<and>
    (\<forall>y. slot_cap (ctes s') y = (if y \<in> set (take k cs) then null_cap else slot_cap (ctes s) y)) \<and>
    (r = Inr () \<and> k = length cs \<and> \<not> mdb_has_children (ctes s') root \<or>
     r = Inl Preempted \<and> \<not> timer_quiet s \<and> 100 \<le> k)"
proof (cases cs)
  case Nil
  then have "next_descendant_for_revoke root s = None" using l bs by (auto simp: next_descendant split: list.split)
  then have "\<not> mdb_has_children (ctes s) root"
    by (auto simp: next_descendant_for_revoke_def mdb_has_children_def split: if_splits option.splits)
  then show ?thesis using l Nil by (simp add: cte_revoke_def)
next
  case (Cons c cs')
  let ?s = "reset_cnode_work_units s"
  have par: "mdb_parent_of (ctes s root) (ctes s c)" "memory_cap (cte_cap (ctes s c))"
    using cs Cons by (auto simp: is_mdb_parent_of_def slot_cap_def)
  have "mdb_has_children (ctes s) root"
    using par(1) mdb_list_links(2) [OF l] Cons by (simp add: mdb_has_children_def is_mdb_parent_of_def)
  then have eq: "cte_revoke root s = revoke_descendants root ?s" by (simp add: cte_revoke_def)
  have "queues_inv ?s qs" by (rule queues_inv_same [OF q]) (simp_all add: reset_cnode_work_units_def)
  then have s: "ctes ?s = ctes s" "work_units ?s = 0" "timer_quiet ?s = timer_quiet s" "preemptible ?s"
    using t by (auto simp: reset_cnode_work_units_def timer_quiet_def preemptible_def clock_ok_def)
  then obtain k r s' where k: "revoke_descendants root ?s = Some (r, s')" "revoked as root cs bs ?s k r s'"
    using revoke_descendants_spec [of ?s as root cs bs] l cs bs parent_of_memory_cap [OF par, folded slot_cap_def] by auto
  moreover have "100 \<le> k" if "0 < k" "k mod 100 = 0" using that by (metis dvd_imp_le mod_0_imp_dvd)
  ultimately show ?thesis using s unfolding eq revoked_def by auto
qed

text \<open>An untyped capability and a frame capability made from its memory, while a timer is due.\<close>

definition untyped_a :: cap where "untyped_a = new_untyped 0xFFFFFFC084000000 16 0 False"
definition frame_b :: cap where "frame_b = new_frame 0xFFFFFFC084000000 FRAME_SIZE_4K FRAME_RIGHTS_READ_WRITE False"

definition retyped :: kstate where
  "retyped = (empty_kstate 1 0)\<lparr> ctes := (\<lambda>_. cte_null)(
     slot_a := \<lparr> cte_cap = untyped_a, cte_mdb = mdb_new 0 slot_b True True \<rparr>,
     slot_b := \<lparr> cte_cap = frame_b, cte_mdb = mdb_new slot_a 0 True True \<rparr>),
     time_reads := (\<lambda>_. 50000), next_timer_deadline := (\<lambda>_. 40000) \<rparr>"

lemma retyped_list: "mdb_list (ctes retyped) [slot_a, slot_b]"
proof -
  have "mdb_links (ctes retyped) slot_a = \<lparr> links_prev = None, links_next = Some slot_b \<rparr>"
    "mdb_links (ctes retyped) slot_b = \<lparr> links_prev = Some slot_a, links_next = None \<rparr>"
    using slot_addr_ok sign_extend_next_ok [OF slot_addr_ok(2)]
    by (simp_all add: retyped_def mdb_links_def mdb_prev_def mdb_next_def from_kva_def cte_addr_ok_nonzero)
  then show ?thesis using slot_addr_ok by (simp add: mdb_list_def)
qed

lemma retyped_child: "is_mdb_parent_of (ctes retyped) slot_a slot_b" "memory_cap (slot_cap (ctes retyped) slot_b)"
proof -
  have "mdb_parent_of \<lparr> cte_cap = untyped_a, cte_mdb = mdb_new 0 slot_b True True \<rparr>
      \<lparr> cte_cap = frame_b, cte_mdb = mdb_new slot_a 0 True True \<rparr>"
    by code_simp
  then show "is_mdb_parent_of (ctes retyped) slot_a slot_b"
    using slot_addr_ok by (simp add: is_mdb_parent_of_def retyped_def)
  show "memory_cap (slot_cap (ctes retyped) slot_b)"
    by (simp add: retyped_def slot_cap_def memory_cap_def frame_b_def cap_tags)
qed

theorem revoke_deletes_all_derived_witness:
  "\<exists>s'. cte_revoke slot_a retyped = Some (Inr (), s') \<and> mdb_list (ctes s') [slot_a] \<and>
     slot_cap (ctes s') slot_b = null_cap \<and> slot_cap (ctes s') slot_a = untyped_a"
proof -
  have "queues_inv retyped (\<lambda>_. [])" by (rule queues_inv_same [OF queues_inv_empty]) (simp_all add: retyped_def)
  moreover have "clock_ok retyped" by (simp add: clock_ok_def retyped_def)
  ultimately obtain r s' k where "cte_revoke slot_a retyped = Some (r, s')" "k \<le> 1"
    "mdb_list (ctes s') ([] @ slot_a # drop k [slot_b] @ [])"
    "\<forall>y. slot_cap (ctes s') y = (if y \<in> set (take k [slot_b]) then null_cap else slot_cap (ctes retyped) y)"
    "r = Inr () \<and> k = 1 \<or> r = Inl Preempted \<and> 100 \<le> k"
    using revoke_deletes_all_derived [of retyped "[]" slot_a "[slot_b]" "[]" "\<lambda>_. []"] retyped_list retyped_child by auto
  moreover have "slot_cap (ctes retyped) slot_a = untyped_a" using slot_addr_ok by (simp add: retyped_def slot_cap_def)
  ultimately show ?thesis using slot_addr_ok by auto
qed

end
