(* ===== verification/Rel4_Cspace.thy ===== *)
theory Rel4_Cspace
  imports Rel4_Queues
begin

text \<open>
  Capability lookup (\<^verbatim>\<open>api/cspace.rs\<close>): the walk from a CNode capability through nested CNodes, on
  words and shifts, and the reference it implements, resolution of a bit string by guards and
  indices. The walk is a loop that a CNode without guard and index bits would keep in place, so it
  is a partial function; it returns whenever every CNode has an index.
\<close>

section \<open>The walk\<close>

definition WORD_BITS :: nat where "WORD_BITS = 64"

datatype lookup_error = GuardMismatch | DepthMismatch | LookupFound

record lookup_result =
  lr_slot :: u64
  lr_bits_remaining :: nat

definition root_cap_of :: "kstate \<Rightarrow> u64 \<Rightarrow> cap" where "root_cap_of s t = cspace_cap s t"

text \<open>
  \<open>depth_limit\<close> and the sizes are \<^verbatim>\<open>u32\<close> values; the only subtraction is guarded and the only addition
  is of two six-bit fields, so they are natural numbers here. The outer option is None when the
  index leaves the CNode (a panic of the source) or the loop does not end.
\<close>

partial_function (option) lookup_slot_in ::
  "kstate \<Rightarrow> cap \<Rightarrow> u64 \<Rightarrow> nat \<Rightarrow> (lookup_error + lookup_result) option" where
  "lookup_slot_in s c cptr depth_limit =
     (case as_cnode c of
        None \<Rightarrow> Some (Inl DepthMismatch)
      | Some (base, len) \<Rightarrow>
          let radix = unat (cnode_radix c);
              guard_bits = unat (cnode_guard_size c);
              guard = cnode_guard c;
              total = radix + guard_bits
          in if depth_limit < total then Some (Inl DepthMismatch)
             else
               let cptr_top = shr64 cptr (depth_limit - total);
                   guard_mask = (if guard_bits = 0 then 0 else shl64 1 guard_bits - 1)
               in if shr64 cptr_top radix AND guard_mask \<noteq> guard AND guard_mask then Some (Inl GuardMismatch)
                  else
                    let radix_mask = shl64 1 radix - 1;
                        index = unat (cptr_top AND radix_mask)
                    in (case objarray_get base 32 len index of
                          None \<Rightarrow> None
                        | Some slot \<Rightarrow>
                            let remaining = depth_limit - total in
                            if remaining = 0 then Some (Inr \<lparr> lr_slot = slot, lr_bits_remaining = 0 \<rparr>)
                            else
                              let next_cap = slot_cap (ctes s) slot in
                              if tag next_cap \<noteq> Some TagCNode
                              then Some (Inr \<lparr> lr_slot = slot, lr_bits_remaining = remaining \<rparr>)
                              else lookup_slot_in s next_cap (cptr AND (shl64 1 (depth_limit - total) - 1))
                                     (depth_limit - total)))"

declare lookup_slot_in.simps [code]

definition lookup_slot :: "kstate \<Rightarrow> u64 \<Rightarrow> u64 \<Rightarrow> nat \<Rightarrow> (lookup_error + lookup_result) option" where
  "lookup_slot s t cptr depth_limit = lookup_slot_in s (root_cap_of s t) cptr depth_limit"

definition lookup_cap_in :: "kstate \<Rightarrow> cap \<Rightarrow> u64 \<Rightarrow> nat \<Rightarrow> (lookup_error + (cap \<times> u64)) option" where
  "lookup_cap_in s root_cap cptr depth_limit = do {
     res \<leftarrow> lookup_slot_in s root_cap cptr depth_limit;
     Some (case res of
       Inl e \<Rightarrow> Inl e
     | Inr result \<Rightarrow>
         if lr_bits_remaining result \<noteq> 0 then Inl DepthMismatch
         else Inr (slot_cap (ctes s) (lr_slot result), lr_slot result))
   }"

definition lookup_cap :: "kstate \<Rightarrow> u64 \<Rightarrow> u64 \<Rightarrow> (lookup_error + (cap \<times> u64)) option" where
  "lookup_cap s t cptr = lookup_cap_in s (root_cap_of s t) cptr WORD_BITS"

definition lookup_cap_current :: "kstate \<Rightarrow> u64 \<Rightarrow> (lookup_error + (cap \<times> u64)) option" where
  "lookup_cap_current s cptr = (case current_tcb s of
     Some t \<Rightarrow> lookup_cap s t cptr
   | None \<Rightarrow> Some (Inl DepthMismatch))"

section \<open>Resolution of bit strings\<close>

text \<open>
  A capability address of \<open>d\<close> bits, most significant bit first. A CNode capability consumes its guard,
  which must match, and then as many index bits as its radix says.
\<close>

definition address_bits :: "nat \<Rightarrow> u64 \<Rightarrow> bool list" where
  "address_bits d w = map (\<lambda>i. bit w (d - Suc i)) [0..<d]"

definition index_of_bits :: "bool list \<Rightarrow> nat" where
  "index_of_bits bs = foldl (\<lambda>n b. 2 * n + of_bool b) 0 bs"

definition cspace_slot :: "cap \<Rightarrow> nat \<Rightarrow> u64" where
  "cspace_slot c i = cnode_ptr c + of_nat (i * 32)"

abbreviation guard_len :: "cap \<Rightarrow> nat" where "guard_len c \<equiv> unat (cnode_guard_size c)"
abbreviation radix_len :: "cap \<Rightarrow> nat" where "radix_len c \<equiv> unat (cnode_radix c)"

definition guard_matches :: "cap \<Rightarrow> bool list \<Rightarrow> bool" where
  "guard_matches c bs \<longleftrightarrow> take (guard_len c) bs = address_bits (guard_len c) (cnode_guard c)"

definition selected_slot :: "cap \<Rightarrow> bool list \<Rightarrow> u64" where
  "selected_slot c bs = cspace_slot c (index_of_bits (take (radix_len c) (drop (guard_len c) bs)))"

inductive resolves :: "kstate \<Rightarrow> cap \<Rightarrow> bool list \<Rightarrow> lookup_error + (u64 \<times> bool list) \<Rightarrow> bool" for s where
  not_cnode: "resolves s c bs (Inl DepthMismatch)" if "as_cnode c = None"
| too_short: "resolves s c bs (Inl DepthMismatch)" if "as_cnode c \<noteq> None" "length bs < guard_len c + radix_len c"
| mismatch: "resolves s c bs (Inl GuardMismatch)"
  if "as_cnode c \<noteq> None" "guard_len c + radix_len c \<le> length bs" "\<not> guard_matches c bs"
| exact: "resolves s c bs (Inr (selected_slot c bs, []))"
  if "as_cnode c \<noteq> None" "guard_len c + radix_len c = length bs" "guard_matches c bs"
| leaf: "resolves s c bs (Inr (selected_slot c bs, drop (guard_len c + radix_len c) bs))"
  if "as_cnode c \<noteq> None" "guard_len c + radix_len c < length bs" "guard_matches c bs"
    "tag (slot_cap (ctes s) (selected_slot c bs)) \<noteq> Some TagCNode"
| descend: "resolves s c bs r"
  if "as_cnode c \<noteq> None" "guard_len c + radix_len c < length bs" "guard_matches c bs"
    "tag (slot_cap (ctes s) (selected_slot c bs)) = Some TagCNode"
    "resolves s (slot_cap (ctes s) (selected_slot c bs)) (drop (guard_len c + radix_len c) bs) r"

lemma resolves_det: "resolves s c bs r \<Longrightarrow> resolves s c bs r' \<Longrightarrow> r = r'"
proof (induction arbitrary: r' rule: resolves.induct)
  case (descend c bs r)
  from descend.prems descend.hyps(1-4) show ?case
    by (cases rule: resolves.cases) (auto dest: descend.IH)
qed (erule resolves.cases; simp)+

section \<open>Bits and words\<close>

lemma length_address_bits [simp]: "length (address_bits d w) = d"
  by (simp add: address_bits_def)

lemma nth_address_bits [simp]: "i < d \<Longrightarrow> address_bits d w ! i = bit w (d - Suc i)"
  by (simp add: address_bits_def)

lemma address_bits_eq_iff: "address_bits d v = address_bits d w \<longleftrightarrow> (\<forall>n<d. bit v n = bit w n)"
proof
  assume eq: "address_bits d v = address_bits d w"
  show "\<forall>n<d. bit v n = bit w n"
  proof (intro allI impI)
    fix n assume n: "n < d"
    have "address_bits d v ! (d - Suc n) = address_bits d w ! (d - Suc n)" by (simp add: eq)
    then show "bit v n = bit w n" using n by (simp add: Suc_diff_Suc)
  qed
qed (simp add: address_bits_def)

lemma take_address_bits: "k \<le> d \<Longrightarrow> take k (address_bits d w) = address_bits k (drop_bit (d - k) w)"
  by (rule nth_equalityI) (auto simp: bit_simps)

lemma drop_address_bits: "drop k (address_bits d w) = address_bits (d - k) w"
  by (rule nth_equalityI) auto

lemma address_bits_mask: "d \<le> n \<Longrightarrow> address_bits d (w AND mask n) = address_bits d w"
  by (auto simp: address_bits_eq_iff bit_simps dest: bit_imp_le_length)

lemma index_of_bits_snoc: "index_of_bits (bs @ [b]) = 2 * index_of_bits bs + of_bool b"
  by (simp add: index_of_bits_def)

lemma index_of_address_bits: "index_of_bits (address_bits d w) = unat w mod 2 ^ d"
proof (induction d arbitrary: w)
  case 0
  show ?case by (simp add: address_bits_def index_of_bits_def)
next
  case (Suc d)
  have "address_bits (Suc d) w = address_bits d (drop_bit 1 w) @ [bit w 0]"
    by (rule nth_equalityI) (auto simp: nth_append bit_simps less_Suc_eq Suc_diff_Suc)
  then have "index_of_bits (address_bits (Suc d) w) = 2 * (unat (drop_bit 1 w) mod 2 ^ d) + of_bool (bit w 0)"
    by (simp add: index_of_bits_snoc Suc)
  also have "\<dots> = unat w mod 2 ^ Suc d"
  proof -
    have "bit (unat w) 0 = bit w 0" by (simp only: bit_unsigned_iff) simp
    then have "of_bool (bit w 0) = unat w mod 2" by (simp add: mod_2_eq_odd bit_0)
    then show ?thesis by (simp add: unat_drop_bit mod_mult2_eq del: drop_bit_eq_div)
  qed
  finally show ?case .
qed

section \<open>The walk implements resolution\<close>

definition cnode_ok :: "cap \<Rightarrow> bool" where
  "cnode_ok c \<longleftrightarrow> tag c = Some TagCNode \<longrightarrow>
     0 < guard_len c + radix_len c \<and> (\<forall>i < 2 ^ radix_len c. cspace_slot c i \<noteq> 0)"

lemma field6_less: "unat (bits_get a 6 w) < 64"
proof -
  have "bits_get a 6 w = take_bit 6 (drop_bit a w)" by (simp add: bits_get_def take_bit_eq_mask mask_eq_exp_minus_1)
  then show ?thesis using take_bit_nat_less_exp [of 6 "unat (drop_bit a w)"] by (simp add: unsigned_take_bit_eq)
qed

lemma cnode_sizes [simp]: "guard_len c < 64" "radix_len c < 64"
  by (simp_all add: cnode_guard_size_def cnode_radix_def field6_less)

lemma unat_and_mask: "unat (w AND mask n) = unat (w :: u64) mod 2 ^ n"
  unfolding take_bit_eq_mask [symmetric] by (subst unsigned_take_bit_eq) (rule take_bit_eq_mod)

lemma shl64_mask: "n < 64 \<Longrightarrow> shl64 1 n - 1 = mask n"
  by (simp add: mask_eq_exp_minus_1)

lemma and_mask_eq_iff: "v AND mask n = w AND mask n \<longleftrightarrow> (\<forall>i<n. bit v i = bit (w :: u64) i)"
proof
  assume eq: "v AND mask n = w AND mask n"
  have "bit u i = bit (u AND mask n) i" if "i < n" for u :: u64 and i
    using that by (auto simp: bit_simps dest: bit_imp_le_length)
  then show "\<forall>i<n. bit v i = bit w i" using eq by metis
next
  assume "\<forall>i<n. bit v i = bit w i"
  then show "v AND mask n = w AND mask n" by (intro bit_word_eqI) (auto simp: bit_simps)
qed

lemma guard_test:
  assumes "guard_len c + radix_len c \<le> d" "d - (radix_len c + guard_len c) < 64"
  shows "shr64 (shr64 cptr (d - (radix_len c + guard_len c))) (radix_len c) AND (if guard_len c = 0 then 0 else shl64 1 (guard_len c) - 1)
      = cnode_guard c AND (if guard_len c = 0 then 0 else shl64 1 (guard_len c) - 1)
    \<longleftrightarrow> guard_matches c (address_bits d cptr)"
proof -
  have m: "(if guard_len c = 0 then 0 else shl64 1 (guard_len c) - 1) = mask (guard_len c)"
    by (simp add: shl64_mask del: shl64_small)
  have "take (guard_len c) (address_bits d cptr) = address_bits (guard_len c) (drop_bit (d - guard_len c) cptr)"
    using assms(1) by (intro take_address_bits) simp
  then have "guard_matches c (address_bits d cptr) \<longleftrightarrow>
      (\<forall>n<guard_len c. bit (drop_bit (d - guard_len c) cptr) n = bit (cnode_guard c) n)"
    by (simp add: guard_matches_def address_bits_eq_iff)
  moreover have "drop_bit (radix_len c) (drop_bit (d - (radix_len c + guard_len c)) cptr) = drop_bit (d - guard_len c) cptr"
    using assms(1) by (simp add: drop_bit_drop_bit)
  ultimately show ?thesis using assms(2) unfolding m by (simp add: and_mask_eq_iff)
qed

lemma selected_index:
  assumes "guard_len c + radix_len c \<le> d" "d - (radix_len c + guard_len c) < 64"
  shows "unat (shr64 cptr (d - (radix_len c + guard_len c)) AND (shl64 1 (radix_len c) - 1)) =
    index_of_bits (take (radix_len c) (drop (guard_len c) (address_bits d cptr)))"
proof -
  have "take (radix_len c) (drop (guard_len c) (address_bits d cptr)) =
      address_bits (radix_len c) (drop_bit (d - (radix_len c + guard_len c)) cptr)"
    using assms(1) by (simp add: drop_address_bits take_address_bits add.commute)
  then show ?thesis using assms(2) by (simp add: index_of_address_bits shl64_mask unat_and_mask del: shl64_small)
qed

lemma index_of_bits_less: "index_of_bits (take n bs) < 2 ^ n"
proof -
  have "index_of_bits bs < 2 ^ length bs" for bs
    by (induction bs rule: rev_induct) (auto simp: index_of_bits_snoc index_of_bits_def [of "[]"])
  then have "index_of_bits (take n bs) < 2 ^ length (take n bs)" .
  also have "\<dots> \<le> 2 ^ n" by simp
  finally show ?thesis .
qed

lemma cnode_get:
  assumes "as_cnode c = Some (base, len)" "cnode_ok c"
  shows "objarray_get base 32 len (index_of_bits (take (radix_len c) bs)) = Some (cspace_slot c (index_of_bits (take (radix_len c) bs)))"
proof -
  have c: "tag c = Some TagCNode" "base = cnode_ptr c" "len = 2 ^ radix_len c"
    using assms(1) by (auto simp: as_cnode_def from_kva_def unat_two_power split: if_splits)
  then show ?thesis
    using assms(2) index_of_bits_less [of "radix_len c" bs]
    by (auto simp: objarray_get_def cnode_ok_def cspace_slot_def from_kva_def)
qed

lemma lookup_slot_resolves:
  assumes "d \<le> 64" "cnode_ok c" "\<And>slot. cnode_ok (slot_cap (ctes s) slot)"
  shows "\<exists>r. lookup_slot_in s c cptr d = Some r \<and>
    resolves s c (address_bits d cptr) (map_sum id (\<lambda>res. (lr_slot res, address_bits (lr_bits_remaining res) cptr)) r) \<and>
    (\<forall>res. r = Inr res \<longrightarrow> lr_bits_remaining res \<le> d)"
  using assms(1,2)
proof (induction d arbitrary: c cptr rule: less_induct)
  case (less d)
  let ?bs = "address_bits d cptr" and ?total = "radix_len c + guard_len c"
  show ?case
  proof (cases "as_cnode c")
    case None
    then show ?thesis by (subst lookup_slot_in.simps) (auto intro: resolves.intros)
  next
    case (Some p)
    then obtain base len where p: "as_cnode c = Some (base, len)" by (cases p) auto
    have t: "tag c = Some TagCNode" using p by (auto simp: as_cnode_def split: if_splits)
    have pos: "0 < ?total" using less.prems(2) t by (auto simp: cnode_ok_def)
    show ?thesis
    proof (cases "d < ?total")
      case True
      then show ?thesis by (subst lookup_slot_in.simps) (auto simp: p intro!: resolves.too_short)
    next
      case False
      then have le: "guard_len c + radix_len c \<le> d" by simp
      have sh: "d - ?total < 64" using pos less.prems(1) by linarith
      let ?slot = "selected_slot c ?bs" and ?rem = "d - ?total"
      have step: "lookup_slot_in s c cptr d =
          (if \<not> guard_matches c ?bs then Some (Inl GuardMismatch)
           else if ?rem = 0 then Some (Inr \<lparr> lr_slot = ?slot, lr_bits_remaining = 0 \<rparr>)
           else if tag (slot_cap (ctes s) ?slot) \<noteq> Some TagCNode
           then Some (Inr \<lparr> lr_slot = ?slot, lr_bits_remaining = ?rem \<rparr>)
           else lookup_slot_in s (slot_cap (ctes s) ?slot) (cptr AND mask ?rem) ?rem)"
        using False
        by (subst lookup_slot_in.simps)
          (simp add: p Let_def guard_test [OF le sh] selected_index [OF le sh] cnode_get [OF p less.prems(2)]
            selected_slot_def shl64_mask [OF sh] del: shl64_small shr64_small)
      consider (mismatch) "\<not> guard_matches c ?bs" | (exact) "guard_matches c ?bs" "?rem = 0"
        | (leaf) "guard_matches c ?bs" "?rem \<noteq> 0" "tag (slot_cap (ctes s) ?slot) \<noteq> Some TagCNode"
        | (descend) "guard_matches c ?bs" "?rem \<noteq> 0" "tag (slot_cap (ctes s) ?slot) = Some TagCNode" by blast
      then show ?thesis
      proof cases
        case mismatch
        then show ?thesis using p le by (auto simp: step intro: resolves.mismatch)
      next
        case exact
        then show ?thesis
          using p le resolves.exact [of c ?bs s] by (simp add: step address_bits_def [of 0])
      next
        case leaf
        then show ?thesis
          using p le resolves.leaf [of c ?bs s] by (simp add: step drop_address_bits add.commute)
      next
        case descend
        then have "?rem < d" using pos by simp
        moreover have "?rem \<le> 64" using less.prems(1) by simp
        ultimately obtain r where r: "lookup_slot_in s (slot_cap (ctes s) ?slot) (cptr AND mask ?rem) ?rem = Some r"
          "resolves s (slot_cap (ctes s) ?slot) (address_bits ?rem (cptr AND mask ?rem))
             (map_sum id (\<lambda>res. (lr_slot res, address_bits (lr_bits_remaining res) (cptr AND mask ?rem))) r)"
          "\<forall>res. r = Inr res \<longrightarrow> lr_bits_remaining res \<le> ?rem"
          using less.IH [OF _ _ assms(3)] by blast
        have "map_sum id (\<lambda>res. (lr_slot res, address_bits (lr_bits_remaining res) (cptr AND mask ?rem))) r =
            map_sum id (\<lambda>res. (lr_slot res, address_bits (lr_bits_remaining res) cptr)) r"
          using r(3) by (cases r) (simp_all add: address_bits_mask)
        moreover have "drop (guard_len c + radix_len c) ?bs = address_bits ?rem (cptr AND mask ?rem)"
          by (simp add: drop_address_bits address_bits_mask add.commute [of "guard_len c"])
        ultimately have "resolves s (slot_cap (ctes s) ?slot) (drop (guard_len c + radix_len c) ?bs)
            (map_sum id (\<lambda>res. (lr_slot res, address_bits (lr_bits_remaining res) cptr)) r)"
          using r(2) by (simp only:)
        then have "resolves s c ?bs (map_sum id (\<lambda>res. (lr_slot res, address_bits (lr_bits_remaining res) cptr)) r)"
          by (rule resolves.descend [rotated -1]) (use p descend le in auto)
        moreover have "\<forall>res. r = Inr res \<longrightarrow> lr_bits_remaining res \<le> d" using r(3) by auto
        moreover have "lookup_slot_in s c cptr d = Some r" using descend r(1) by (simp add: step)
        ultimately show ?thesis by blast
      qed
    qed
  qed
qed

section \<open>Properties\<close>

text \<open>
  C9: The lookup loop returns and computes exactly the resolution of the address. When every CNode
  capability of the state has an index or a guard and lies in kernel memory, the loop ends for
  every address of at most 64 bits, without leaving a CNode, and its result, success or error, is the
  one the resolution of the address bits by guards and indices determines.
\<close>

theorem lookup_implements_resolution:
  assumes "d \<le> 64" "cnode_ok c" "\<And>slot. cnode_ok (slot_cap (ctes s) slot)"
  shows "\<exists>r. lookup_slot_in s c cptr d = Some r \<and>
    (\<forall>r'. resolves s c (address_bits d cptr) r' \<longleftrightarrow>
      r' = map_sum id (\<lambda>res. (lr_slot res, address_bits (lr_bits_remaining res) cptr)) r)"
  using lookup_slot_resolves [OF assms] resolves_det by blast

text \<open>A root CNode of 16 slots at the end of a 60-bit guard.\<close>

definition root_cnode :: cap where "root_cnode = new_cnode 0xFFFFFFC084300000 4 0 60"

lemma root_cnode_fields:
  "tag root_cnode = Some TagCNode" "cnode_radix root_cnode = 4" "cnode_guard_size root_cnode = 60"
  "cnode_guard root_cnode = 0" "cnode_ptr root_cnode = 0xFFFFFFC084300000"
  by code_simp+

lemma root_cnode_ok: "cnode_ok root_cnode"
proof -
  have "cspace_slot root_cnode i \<noteq> 0" if "i < 16" for i
  proof
    assume "cspace_slot root_cnode i = 0"
    then have "of_nat (i * 32) + (0xFFFFFFC084300000 :: u64) = 0"
      unfolding cspace_slot_def root_cnode_fields by (simp only: add.commute)
    then have "of_nat (i * 32) = - (0xFFFFFFC084300000 :: u64)" by (simp only: eq_neg_iff_add_eq_0)
    then have "unat (of_nat (i * 32) :: u64) = unat (- (0xFFFFFFC084300000 :: u64))" by (rule arg_cong)
    moreover have "unat (of_nat (i * 32) :: u64) = i * 32" using that by (simp only: unat_of_nat) simp
    ultimately show False using that by simp
  qed
  then show ?thesis by (simp add: cnode_ok_def root_cnode_fields)
qed

lemma null_cap_ok: "cnode_ok null_cap"
proof -
  have "tag null_cap \<noteq> Some TagCNode" by code_simp
  then show ?thesis by (simp add: cnode_ok_def)
qed

theorem lookup_implements_resolution_witness:
  "\<exists>r. lookup_slot_in (empty_kstate 1 0) root_cnode 3 64 = Some r \<and>
     resolves (empty_kstate 1 0) root_cnode (address_bits 64 3)
       (map_sum id (\<lambda>res. (lr_slot res, address_bits (lr_bits_remaining res) 3)) r)"
proof -
  have "cnode_ok (slot_cap (ctes (empty_kstate 1 0)) slot)" for slot
    using null_cap_ok by (simp add: slot_cap_def cte_null_def)
  then show ?thesis
    using lookup_implements_resolution [of 64 root_cnode "empty_kstate 1 0" 3] root_cnode_ok by auto
qed

lemma selected_slot_bound: "\<exists>i < 2 ^ radix_len c. selected_slot c bs = cspace_slot c i"
  unfolding selected_slot_def using index_of_bits_less by blast

lemma as_cnode_tag: "as_cnode c \<noteq> None \<Longrightarrow> tag c = Some TagCNode"
  by (auto simp: as_cnode_def split: if_splits)

lemma resolves_in_cnode:
  assumes "resolves s c bs r" "r = Inr (slot, rest)"
  shows "\<exists>c' i. (c' = c \<or> (\<exists>x. c' = slot_cap (ctes s) x)) \<and> tag c' = Some TagCNode \<and>
    i < 2 ^ radix_len c' \<and> slot = cspace_slot c' i"
  using assms
proof (induction rule: resolves.induct)
  case (descend c bs r)
  then show ?case by blast
next
  case (exact c bs)
  then show ?case using selected_slot_bound [of c bs] as_cnode_tag by blast
next
  case (leaf c bs)
  then show ?case using selected_slot_bound [of c bs] as_cnode_tag by blast
qed simp_all

text \<open>
  A lookup never leaves the CNodes. The slot it returns is an element, within bounds, of the array of
  the root CNode or of a CNode whose capability the walk found in a slot; a full-word lookup returns
  the capability stored there, and an address longer than the CNodes it traverses is reported as a
  depth mismatch.
\<close>

theorem lookup_cap_in_bounds:
  assumes "cnode_ok (root_cap_of s t)" "\<And>slot. cnode_ok (slot_cap (ctes s) slot)"
  shows "\<exists>r. lookup_cap s t cptr = Some r \<and>
    (\<forall>c slot. r = Inr (c, slot) \<longrightarrow> c = slot_cap (ctes s) slot \<and>
      (\<exists>c' i. (c' = root_cap_of s t \<or> (\<exists>x. c' = slot_cap (ctes s) x)) \<and> tag c' = Some TagCNode \<and>
        i < 2 ^ radix_len c' \<and> slot = cspace_slot c' i)) \<and>
    (\<forall>slot b rest. resolves s (root_cap_of s t) (address_bits 64 cptr) (Inr (slot, b # rest)) \<longrightarrow> r = Inl DepthMismatch)"
proof -
  obtain r where r: "lookup_slot_in s (root_cap_of s t) cptr 64 = Some r"
    "resolves s (root_cap_of s t) (address_bits 64 cptr)
       (map_sum id (\<lambda>res. (lr_slot res, address_bits (lr_bits_remaining res) cptr)) r)"
    using lookup_slot_resolves [OF order_refl assms] by blast
  have look: "lookup_cap s t cptr = Some (case r of
      Inl e \<Rightarrow> Inl e
    | Inr result \<Rightarrow> if lr_bits_remaining result \<noteq> 0 then Inl DepthMismatch
        else Inr (slot_cap (ctes s) (lr_slot result), lr_slot result))"
    by (simp add: lookup_cap_def lookup_cap_in_def WORD_BITS_def r(1))
  show ?thesis
  proof (cases r)
    case (Inl e)
    then show ?thesis using look r(2) resolves_det [OF r(2)] by fastforce
  next
    case (Inr res)
    then have res: "resolves s (root_cap_of s t) (address_bits 64 cptr) (Inr (lr_slot res, address_bits (lr_bits_remaining res) cptr))"
      using r(2) by simp
    have "lr_bits_remaining res \<noteq> 0" if "resolves s (root_cap_of s t) (address_bits 64 cptr) (Inr (slot, b # rest))" for slot b rest
      using resolves_det [OF res that] length_address_bits [of "lr_bits_remaining res" cptr] by force
    then show ?thesis using look Inr resolves_in_cnode [OF res refl] by auto
  qed
qed

theorem lookup_cap_in_bounds_witness:
  "\<exists>r. lookup_cap ((empty_kstate 1 0)\<lparr> ctes := (\<lambda>_. cte_null)(0xFFFFFFC084400000 := \<lparr> cte_cap = root_cnode, cte_mdb = mdb_null \<rparr>) \<rparr>)
         0xFFFFFFC084400000 3 = Some r"
proof -
  let ?s = "(empty_kstate 1 0)\<lparr> ctes := (\<lambda>_. cte_null)(0xFFFFFFC084400000 := \<lparr> cte_cap = root_cnode, cte_mdb = mdb_null \<rparr>) \<rparr>"
  have ok: "cnode_ok (slot_cap (ctes ?s) slot)" for slot
    using null_cap_ok root_cnode_ok by (simp add: slot_cap_def cte_null_def)
  then have "cnode_ok (root_cap_of ?s 0xFFFFFFC084400000)"
    using null_cap_ok by (simp add: root_cap_of_def cspace_cap_def cap_at_def)
  then show ?thesis using lookup_cap_in_bounds [OF _ ok, of "0xFFFFFFC084400000" 3] by blast
qed

end
