(* ===== verification/Rel4_CNode.thy ===== *)
theory Rel4_CNode
  imports Rel4_Revoke Rel4_Cspace
begin

text \<open>
  The invocations of CNode capabilities (\<^verbatim>\<open>handle_cnode\<close> and what it calls in \<^verbatim>\<open>api/invocation.rs\<close>):
  copying, minting, moving, mutating, rotating, deleting and revoking capabilities, saving the
  caller and cancelling badged sends.

  The saved registers of the running thread, which the source passes as \<^verbatim>\<open>uc\<close>, are the context in its
  thread control block.
\<close>

section \<open>Messages\<close>

definition succeed :: "'a \<Rightarrow> kstate \<Rightarrow> 'a result" where "succeed a s = Some (Inr a, s)"
definition fail :: "syscall_error \<Rightarrow> kstate \<Rightarrow> 'a result" where "fail e s = Some (Inl e, s)"

text \<open>\<^verbatim>\<open>map_err\<close> on the result of a lookup, which does not change the state.\<close>

definition or_error :: "(lookup_error + 'a) option \<Rightarrow> syscall_error \<Rightarrow> kstate \<Rightarrow> 'a result" where
  "or_error r e s = (case r of
     None \<Rightarrow> None
   | Some (Inl _) \<Rightarrow> fail e s
   | Some (Inr a) \<Rightarrow> succeed a s)"

definition current_ipc_buffer :: "kstate \<Rightarrow> u64 option" where
  "current_ipc_buffer s = Option.bind (current_tcb s) (\<lambda>t. tcb_ipc_buffer (tcbs s t))"

definition current_has_ipc_buffer :: "kstate \<Rightarrow> bool" where
  "current_has_ipc_buffer s \<longleftrightarrow> current_ipc_buffer s \<noteq> None"

definition current_ipc_buffer_word :: "kstate \<Rightarrow> nat \<Rightarrow> u64" where
  "current_ipc_buffer_word s i = (case current_ipc_buffer s of None \<Rightarrow> 0 | Some buf \<Rightarrow> buffer_word s buf i)"

definition write_current_ipc_buffer_word :: "nat \<Rightarrow> u64 \<Rightarrow> kstate \<Rightarrow> bool \<times> kstate" where
  "write_current_ipc_buffer_word i v s = (case current_ipc_buffer s of
     None \<Rightarrow> (False, s)
   | Some buf \<Rightarrow> buffer_set_word buf i v s)"

definition read_mr :: "kstate \<Rightarrow> u64 \<Rightarrow> nat \<Rightarrow> u64" where
  "read_mr s thread i = (if i < 4 then mr (tcb_context (tcbs s thread)) i else current_ipc_buffer_word s (1 + i))"

definition read_mrs_4_5 :: "kstate \<Rightarrow> u64 \<times> u64" where
  "read_mrs_4_5 s = (current_ipc_buffer_word s (1 + 4), current_ipc_buffer_word s (1 + 5))"

definition read_extra_cap :: "kstate \<Rightarrow> nat \<Rightarrow> u64" where
  "read_extra_cap s i = current_ipc_buffer_word s (122 + i)"

definition require_extra_caps :: "u64 \<Rightarrow> u64 \<Rightarrow> kstate \<Rightarrow> unit result" where
  "require_extra_caps thread required s =
     (if mi_extra_caps (msg_info (tcb_context (tcbs s thread))) < required
         \<or> required \<noteq> 0 \<and> \<not> current_has_ipc_buffer s
      then fail TruncatedMessage s else succeed () s)"

text \<open>The message registers that hold a depth are cut to eight bits.\<close>

definition depth_of :: "u64 \<Rightarrow> nat" where "depth_of w = unat (w AND 0xFF)"

definition resolve_slot :: "cap \<Rightarrow> u64 \<Rightarrow> nat \<Rightarrow> kstate \<Rightarrow> u64 result" where
  "resolve_slot root_cap index depth s =
     (if tag root_cap \<noteq> Some TagCNode then fail FailedLookup s
      else if depth = 0 \<or> WORD_BITS < depth then fail RangeError s
      else try_bind (or_error (lookup_slot_in s root_cap index depth) FailedLookup s) (\<lambda>r s.
        if lr_bits_remaining r \<noteq> 0 then fail FailedLookup s else succeed (lr_slot r) s))"

definition resolve_dest :: "u64 \<Rightarrow> cap \<Rightarrow> u64 \<Rightarrow> kstate \<Rightarrow> u64 result" where
  "resolve_dest thread dest_root_cap len s =
     (if len < 2 then fail TruncatedMessage s
      else resolve_slot dest_root_cap (read_mr s thread 0) (depth_of (read_mr s thread 1)) s)"

section \<open>Rights and data\<close>

definition frame_vm_rights_allow_read :: "u64 \<Rightarrow> bool" where
  "frame_vm_rights_allow_read r \<longleftrightarrow> r = FRAME_RIGHTS_READ_ONLY \<or> r = FRAME_RIGHTS_READ_WRITE"

definition frame_vm_rights_allow_write :: "u64 \<Rightarrow> bool" where
  "frame_vm_rights_allow_write r \<longleftrightarrow> r = FRAME_RIGHTS_READ_WRITE"

definition mask_frame_vm_rights :: "u64 \<Rightarrow> u64 \<Rightarrow> u64" where
  "mask_frame_vm_rights vm_rights rights =
     (let allow_write = (rights AND 1 \<noteq> 0); allow_read = (rights AND 2 \<noteq> 0)
      in if vm_rights = FRAME_RIGHTS_READ_ONLY \<and> allow_read then FRAME_RIGHTS_READ_ONLY
         else if vm_rights = FRAME_RIGHTS_READ_WRITE \<and> allow_read \<and> allow_write then FRAME_RIGHTS_READ_WRITE
         else if vm_rights = FRAME_RIGHTS_READ_WRITE \<and> allow_read then FRAME_RIGHTS_READ_ONLY
         else FRAME_RIGHTS_KERNEL_ONLY)"

text \<open>Clearing one bit of the first word unless it is allowed.\<close>

definition keep_bit :: "bool \<Rightarrow> nat \<Rightarrow> cap \<Rightarrow> cap" where
  "keep_bit allowed n c = (if allowed then c else c\<lparr> words0 := words0 c AND NOT (push_bit n 1) \<rparr>)"

definition mask_cap_rights :: "cap \<Rightarrow> u64 \<Rightarrow> cap" where
  "mask_cap_rights c rights =
     (let allow_write = (rights AND 1 \<noteq> 0); allow_read = (rights AND 2 \<noteq> 0);
          allow_grant = (rights AND 4 \<noteq> 0); allow_grant_reply = (rights AND 8 \<noteq> 0)
      in case tag c of
           Some TagEndpoint \<Rightarrow>
             keep_bit allow_grant_reply 58 (keep_bit allow_grant 57 (keep_bit allow_read 56 (keep_bit allow_write 55 c)))
         | Some TagNotification \<Rightarrow> keep_bit allow_read 58 (keep_bit allow_write 57 c)
         | Some TagReply \<Rightarrow> set_reply_can_grant (reply_can_grant c \<and> allow_grant) c
         | Some TagFrame \<Rightarrow> set_frame_vm_rights (mask_frame_vm_rights (frame_vm_rights c) rights) c
         | _ \<Rightarrow> c)"

definition low_word_mask :: "u64 \<Rightarrow> u64" where
  "low_word_mask bits = (if bits = 0 then 0 else shl64 1 (unat bits) - 1)"

definition update_cap_data :: "bool \<Rightarrow> u64 \<Rightarrow> cap \<Rightarrow> cap" where
  "update_cap_data preserve data c = (case tag c of
     Some TagEndpoint \<Rightarrow>
       if preserve \<or> endpoint_badge c \<noteq> 0 then null_cap else set_endpoint_badge data c
   | Some TagNotification \<Rightarrow>
       if preserve \<or> notification_badge c \<noteq> 0 then null_cap else set_notification_badge data c
   | Some TagCNode \<Rightarrow>
       (let guard_size = data AND 0x3F in
        if of_nat WORD_BITS < guard_size + cnode_radix c then null_cap
        else new_cnode (cnode_ptr c) (cnode_radix c) (drop_bit 6 data AND low_word_mask guard_size) guard_size)
   | _ \<Rightarrow> c)"

definition derive_cap_for_copy :: "u64 \<Rightarrow> cap \<Rightarrow> kstate \<Rightarrow> cap result" where
  "derive_cap_for_copy slot c s = (case tag c of
     Some TagZombie \<Rightarrow> succeed null_cap s
   | Some TagIrqControl \<Rightarrow> succeed null_cap s
   | Some TagIoPortControl \<Rightarrow> succeed null_cap s
   | Some TagReply \<Rightarrow> succeed null_cap s
   | Some TagUntyped \<Rightarrow> if mdb_has_children (ctes s) slot then fail RevokeFirst s else succeed c s
   | Some TagFrame \<Rightarrow> succeed (set_frame_mapped_asid 0 (set_frame_mapped_addr 0 c)) s
   | Some TagPageTable \<Rightarrow> if page_table_is_mapped c then succeed c s else fail IllegalOperation s
   | _ \<Rightarrow> succeed c s)"

section \<open>Operations\<close>

text \<open>A change of the slots that may panic.\<close>

definition on_slots :: "(cte_heap \<Rightarrow> cte_heap option) \<Rightarrow> kstate \<Rightarrow> unit result" where
  "on_slots f s = do { s1 \<leftarrow> upd_ctes_opt f s; succeed () s1 }"

text \<open>The source root named by the first extra capability, and the source slot below it.\<close>

definition lookup_root :: "u64 \<Rightarrow> nat \<Rightarrow> kstate \<Rightarrow> cap result" where
  "lookup_root thread i s =
     try_bind (or_error (lookup_cap s thread (read_extra_cap s i)) InvalidCapability s) (\<lambda>(c, _) s. succeed c s)"

definition cnode_op_revoke :: "u64 \<Rightarrow> cap \<Rightarrow> u64 \<Rightarrow> kstate \<Rightarrow> unit result" where
  "cnode_op_revoke thread dest_root_cap len s =
     try_bind (resolve_dest thread dest_root_cap len s) (\<lambda>slot s. cte_revoke slot s)"

definition cnode_op_delete :: "u64 \<Rightarrow> cap \<Rightarrow> u64 \<Rightarrow> kstate \<Rightarrow> unit result" where
  "cnode_op_delete thread dest_root_cap len s =
     try_bind (resolve_dest thread dest_root_cap len s) (\<lambda>slot s. delete_slot_preemptible slot s)"

text \<open>Copying and minting, from the resolved source slot, from the source root, and from the message.\<close>

definition copy_slot :: "u64 \<Rightarrow> bool \<Rightarrow> u64 \<Rightarrow> u64 \<Rightarrow> u64 \<Rightarrow> kstate \<Rightarrow> unit result" where
  "copy_slot thread is_mint len dest src s =
     (let src_cap = slot_cap (ctes s) src in
      if is_null src_cap then fail FailedLookup s
      else if len < (if is_mint then 6 else 5) then fail TruncatedMessage s
      else
        let masked = mask_cap_rights src_cap (read_mr s thread 4);
            new_cap = (if is_mint then update_cap_data False (read_mr s thread 5) masked else masked)
        in try_bind (derive_cap_for_copy src new_cap s) (\<lambda>derived s.
             if is_null derived then fail IllegalOperation s
             else on_slots (cte_insert src derived dest) s))"

definition copy_from :: "u64 \<Rightarrow> bool \<Rightarrow> u64 \<Rightarrow> u64 \<Rightarrow> cap \<Rightarrow> kstate \<Rightarrow> unit result" where
  "copy_from thread is_mint len dest src_root_cap s =
     (if \<not> is_null (slot_cap (ctes s) dest) then fail DeleteFirst s
      else try_bind (resolve_slot src_root_cap (read_mr s thread 2) (depth_of (read_mr s thread 3)) s)
             (copy_slot thread is_mint len dest))"

definition cnode_op_copy_or_mint :: "u64 \<Rightarrow> cap \<Rightarrow> u64 \<Rightarrow> bool \<Rightarrow> kstate \<Rightarrow> unit result" where
  "cnode_op_copy_or_mint thread dest_root_cap len is_mint s =
     try_bind (resolve_dest thread dest_root_cap len s) (\<lambda>dest s.
     if len < 4 then fail TruncatedMessage s
     else try_bind (require_extra_caps thread 1 s) (\<lambda>_ s.
     try_bind (lookup_root thread 0 s) (\<lambda>src_root_cap s.
     copy_from thread is_mint len dest src_root_cap s)))"

definition cnode_op_move_or_mutate :: "u64 \<Rightarrow> cap \<Rightarrow> u64 \<Rightarrow> bool \<Rightarrow> kstate \<Rightarrow> unit result" where
  "cnode_op_move_or_mutate thread dest_root_cap len is_mutate s =
     try_bind (resolve_dest thread dest_root_cap len s) (\<lambda>dest s.
     if len < 4 then fail TruncatedMessage s
     else try_bind (require_extra_caps thread 1 s) (\<lambda>_ s.
     try_bind (lookup_root thread 0 s) (\<lambda>src_root_cap s.
     if \<not> is_null (slot_cap (ctes s) dest) then fail DeleteFirst s
     else try_bind (resolve_slot src_root_cap (read_mr s thread 2) (depth_of (read_mr s thread 3)) s) (\<lambda>src s.
     let moved = slot_cap (ctes s) src in
     if is_null moved then fail FailedLookup s
     else if is_mutate \<and> len < 5 then fail TruncatedMessage s
     else
       let new_cap = (if is_mutate then update_cap_data True (read_mr s thread 4) moved else moved)
       in if is_null new_cap then fail IllegalOperation s
          else on_slots (cnode_move_slot src dest new_cap) s))))"

definition cnode_op_rotate :: "u64 \<Rightarrow> cap \<Rightarrow> u64 \<Rightarrow> kstate \<Rightarrow> unit result" where
  "cnode_op_rotate thread dest_root_cap len s =
     try_bind (resolve_dest thread dest_root_cap len s) (\<lambda>dest s.
     if len < 8 then fail TruncatedMessage s
     else try_bind (require_extra_caps thread 2 s) (\<lambda>_ s.
     try_bind (lookup_root thread 1 s) (\<lambda>src_root_cap s.
     try_bind (lookup_root thread 0 s) (\<lambda>pivot_root_cap s.
     try_bind (resolve_slot src_root_cap (read_mr s thread 6) (depth_of (read_mr s thread 7)) s) (\<lambda>src s.
     try_bind (resolve_slot pivot_root_cap (read_mr s thread 3) (depth_of (read_mr s thread 4)) s) (\<lambda>pivot s.
     if pivot = src \<or> pivot = dest then fail IllegalOperation s
     else if src \<noteq> dest \<and> \<not> is_null (slot_cap (ctes s) dest) then fail DeleteFirst s
     else if is_null (slot_cap (ctes s) src) then fail FailedLookup s
     else if is_null (slot_cap (ctes s) pivot) then fail FailedLookup s
     else
       let new_src_cap = update_cap_data True (read_mr s thread 5) (slot_cap (ctes s) src);
           new_pivot_cap = update_cap_data True (read_mr s thread 2) (slot_cap (ctes s) pivot)
       in if is_null new_src_cap \<or> is_null new_pivot_cap then fail IllegalOperation s
          else if src = dest then on_slots (cnode_swap_slots new_src_cap src new_pivot_cap pivot) s
          else on_slots (\<lambda>h. Option.bind (cnode_move_slot pivot dest new_pivot_cap h)
                 (cnode_move_slot src pivot new_src_cap)) s))))))"

definition cnode_op_cancel_badged_sends :: "u64 \<Rightarrow> cap \<Rightarrow> u64 \<Rightarrow> kstate \<Rightarrow> unit result" where
  "cnode_op_cancel_badged_sends thread dest_root_cap len s =
     try_bind (resolve_dest thread dest_root_cap len s) (\<lambda>slot s.
     let c = slot_cap (ctes s) slot in
     if tag c \<noteq> Some TagEndpoint \<or> \<not> endpoint_can_send c \<or> \<not> endpoint_can_receive c
        \<or> \<not> endpoint_can_grant c \<or> \<not> endpoint_can_grant_reply c
     then fail IllegalOperation s
     else if endpoint_badge c = 0 then succeed () s
     else (case as_endpoint c of
       None \<Rightarrow> succeed () s
     | Some ep \<Rightarrow> do { s1 \<leftarrow> cancel_badged_sends ep (endpoint_badge c) s; succeed () s1 }))"

definition cnode_op_save_caller :: "u64 \<Rightarrow> cap \<Rightarrow> u64 \<Rightarrow> kstate \<Rightarrow> unit result" where
  "cnode_op_save_caller thread dest_root_cap len s =
     try_bind (resolve_dest thread dest_root_cap len s) (\<lambda>dest s.
     if \<not> slot_is_empty (ctes s) dest then fail DeleteFirst s
     else case Option.bind (current_tcb s) (\<lambda>cur. cap_slot cur TCB_CALLER) of
       None \<Rightarrow> succeed () s
     | Some src \<Rightarrow>
         let c = slot_cap (ctes s) src in
         (case tag c of
            None \<Rightarrow> succeed () s
          | Some TagNull \<Rightarrow> succeed () s
          | Some TagReply \<Rightarrow>
              if \<not> reply_is_master c then on_slots (cnode_move_slot src dest c) s else succeed () s
          | _ \<Rightarrow> None))"

definition handle_cnode :: "u64 \<Rightarrow> cap \<Rightarrow> u64 \<Rightarrow> u64 \<Rightarrow> kstate \<Rightarrow> unit result" where
  "handle_cnode thread dest_root_cap label_id len s =
     (if invocation_label_matches label_id CNodeRevoke then cnode_op_revoke thread dest_root_cap len s
      else if invocation_label_matches label_id CNodeDelete then cnode_op_delete thread dest_root_cap len s
      else if invocation_label_matches label_id CNodeCopy then cnode_op_copy_or_mint thread dest_root_cap len False s
      else if invocation_label_matches label_id CNodeMint then cnode_op_copy_or_mint thread dest_root_cap len True s
      else if invocation_label_matches label_id CNodeMove then cnode_op_move_or_mutate thread dest_root_cap len False s
      else if invocation_label_matches label_id CNodeMutate then cnode_op_move_or_mutate thread dest_root_cap len True s
      else if invocation_label_matches label_id CNodeCancelBadgedSends
      then cnode_op_cancel_badged_sends thread dest_root_cap len s
      else if invocation_label_matches label_id CNodeRotate then cnode_op_rotate thread dest_root_cap len s
      else if invocation_label_matches label_id CNodeSaveCaller then cnode_op_save_caller thread dest_root_cap len s
      else fail IllegalOperation s)"

section \<open>Authority\<close>

text \<open>
  \<open>below v' v\<close>: a capability that means \<open>v'\<close> names the same object as one that means \<open>v\<close> and allows
  nothing that this one does not allow. A badge, once set, and the radix of a CNode are part of the
  identity; the guard of a CNode and where a frame is mapped are not authority.
\<close>

fun below :: "cap_view \<Rightarrow> cap_view \<Rightarrow> bool" where
  "below (VEndpoint p b s r g gr) v = (case v of
     VEndpoint p' b' s' r' g' gr' \<Rightarrow>
       p = p' \<and> (b' \<noteq> 0 \<longrightarrow> b = b') \<and> (s \<longrightarrow> s') \<and> (r \<longrightarrow> r') \<and> (g \<longrightarrow> g') \<and> (gr \<longrightarrow> gr')
   | _ \<Rightarrow> False)"
| "below (VNotification p b s r) v = (case v of
     VNotification p' b' s' r' \<Rightarrow> p = p' \<and> (b' \<noteq> 0 \<longrightarrow> b = b') \<and> (s \<longrightarrow> s') \<and> (r \<longrightarrow> r')
   | _ \<Rightarrow> False)"
| "below (VReply p g m) v = (case v of VReply p' g' m' \<Rightarrow> p = p' \<and> (g \<longrightarrow> g') \<and> m = m' | _ \<Rightarrow> False)"
| "below (VFrame p sz rights dev asid addr) v = (case v of
     VFrame p' sz' rights' dev' asid' addr' \<Rightarrow>
       p = p' \<and> sz = sz' \<and> dev = dev' \<and>
       (frame_vm_rights_allow_read rights \<longrightarrow> frame_vm_rights_allow_read rights') \<and>
       (frame_vm_rights_allow_write rights \<longrightarrow> frame_vm_rights_allow_write rights')
   | _ \<Rightarrow> False)"
| "below (VCNode p r g gs) v = (case v of VCNode p' r' g' gs' \<Rightarrow> p = p' \<and> r = r' | _ \<Rightarrow> False)"
| "below v' v = (v' = v)"

lemma below_refl: "below v v"
  by (cases v) simp_all

lemma below_trans: "below u v \<Longrightarrow> below v w \<Longrightarrow> below u w"
  by (cases u) (auto split: cap_view.splits)

lemma keep_bit_eq: "keep_bit a n c = c\<lparr> words0 := (if a then words0 c else bits_clear n 1 (words0 c)) \<rparr>"
  by (simp add: keep_bit_def bits_clear_def mask_eq_exp_minus_1)

lemma vm_rights_mask: "mask_frame_vm_rights v r AND mask 2 = mask_frame_vm_rights v r"
  by (simp add: mask_frame_vm_rights_def Let_def FRAME_RIGHTS_READ_ONLY_def FRAME_RIGHTS_READ_WRITE_def
      FRAME_RIGHTS_KERNEL_ONLY_def mask_eq_exp_minus_1)

lemma vm_rights_below:
  "frame_vm_rights_allow_read (mask_frame_vm_rights v r) \<Longrightarrow> frame_vm_rights_allow_read v"
  "frame_vm_rights_allow_write (mask_frame_vm_rights v r) \<Longrightarrow> frame_vm_rights_allow_write v"
proof -
  have "FRAME_RIGHTS_KERNEL_ONLY \<noteq> FRAME_RIGHTS_READ_ONLY" "FRAME_RIGHTS_KERNEL_ONLY \<noteq> FRAME_RIGHTS_READ_WRITE"
    "FRAME_RIGHTS_READ_ONLY \<noteq> FRAME_RIGHTS_READ_WRITE"
    by (simp_all add: FRAME_RIGHTS_READ_ONLY_def FRAME_RIGHTS_READ_WRITE_def FRAME_RIGHTS_KERNEL_ONLY_def)
  note neq = this
  show "frame_vm_rights_allow_read (mask_frame_vm_rights v r) \<Longrightarrow> frame_vm_rights_allow_read v"
    "frame_vm_rights_allow_write (mask_frame_vm_rights v r) \<Longrightarrow> frame_vm_rights_allow_write v"
    unfolding mask_frame_vm_rights_def frame_vm_rights_allow_read_def frame_vm_rights_allow_write_def Let_def
    using neq by (simp_all only: if_split_asm [where P = "\<lambda>x. x = _"]) blast+
qed

lemma tag_keep_bit [simp]: "n < 59 \<Longrightarrow> tag (keep_bit a n c) = tag c"
  by (simp add: keep_bit_eq tag_def tag_raw_def bf_simps)

lemma keep_bit_get:
  "s + m \<le> n \<or> n < s \<Longrightarrow> bits_get s m (words0 (keep_bit a n c)) = bits_get s m (words0 c)"
  "bits_get n (Suc 0) (words0 (keep_bit a n c)) = (if a then bits_get n (Suc 0) (words0 c) else 0)"
  "words1 (keep_bit a n c) = words1 c"
proof -
  show "bits_get s m (words0 (keep_bit a n c)) = bits_get s m (words0 c)" if "s + m \<le> n \<or> n < s"
    using that bits_get_clear_disjoint(1) [of s m n 1 "words0 c"] bits_get_clear_disjoint(2) [of n 1 s m "words0 c"]
    by (cases a) (simp_all add: keep_bit_eq Suc_le_eq, blast)
  show "bits_get n (Suc 0) (words0 (keep_bit a n c)) = (if a then bits_get n (Suc 0) (words0 c) else 0)"
    using bits_get_clear [of n n 1 1 "words0 c"] by (simp add: keep_bit_eq)
  show "words1 (keep_bit a n c) = words1 c" by (simp add: keep_bit_eq)
qed

lemma mask_cap_rights_below:
  assumes "cap_decode c = Some v"
  shows "\<exists>v'. cap_decode (mask_cap_rights c rights) = Some v' \<and> below v' v"
proof -
  obtain t where t: "tag c = Some t" using cap_decode_tag [OF assms] by blast
  consider (ep) "t = TagEndpoint" | (nt) "t = TagNotification" | (re) "t = TagReply" | (fr) "t = TagFrame"
    | (other) "t \<notin> {TagEndpoint, TagNotification, TagReply, TagFrame}" by blast
  then show ?thesis
  proof cases
    case ep
    then show ?thesis using assms t
      by (auto simp: mask_cap_rights_def Let_def cap_decode_def endpoint_ptr_def endpoint_badge_def
          endpoint_can_send_def endpoint_can_receive_def endpoint_can_grant_def endpoint_can_grant_reply_def keep_bit_get)
  next
    case nt
    then show ?thesis using assms t
      by (auto simp: mask_cap_rights_def Let_def cap_decode_def notification_ptr_def notification_badge_def
          notification_can_send_def notification_can_receive_def keep_bit_get)
  next
    case re
    have "tag (set_reply_can_grant b c) = tag c" for b by (simp add: cap_defs bf_simps)
    then show ?thesis using assms t re
      by (auto simp: mask_cap_rights_def Let_def cap_decode_def) (auto simp: cap_defs bf_simps)
  next
    case fr
    have "tag (set_frame_vm_rights r c) = tag c" for r by (simp add: cap_defs bf_simps)
    then show ?thesis using assms t fr vm_rights_below [of "frame_vm_rights c" rights]
      by (auto simp: mask_cap_rights_def Let_def cap_decode_def) (auto simp: cap_defs bf_simps vm_rights_mask)
  next
    case other
    then have "mask_cap_rights c rights = c" using t by (cases t) (simp_all add: mask_cap_rights_def Let_def)
    then show ?thesis using assms below_refl by simp
  qed
qed

lemma cnode_ptr_ok: "canonical_ptr (cnode_ptr c)" "cnode_ptr c AND mask 1 = 0"
proof -
  have b: "bit (push_bit 1 (bits_get 0 38 w)) n \<longleftrightarrow> 1 \<le> n \<and> n < 39 \<and> bit w (n - 1)" for w n
    unfolding bit_push_bit_iff bits_get_def bit_and_iff bit_mask_iff by (auto dest: bit_imp_le_length)
  show "canonical_ptr (cnode_ptr c)"
    unfolding canonical_ptr_iff cnode_ptr_def bit_sign_extend_ptr b by auto
  show "cnode_ptr c AND mask 1 = 0"
  proof (rule bit_word_eqI)
    show "bit (cnode_ptr c AND mask 1) n = bit 0 n" for n
      unfolding bit_and_iff bit_mask_iff cnode_ptr_def bit_sign_extend_ptr b by auto
  qed
qed

lemma update_cap_data_below:
  assumes "cap_decode c = Some v" "\<not> is_null (update_cap_data False data c)"
  shows "\<exists>v'. cap_decode (update_cap_data False data c) = Some v' \<and> below v' v"
proof -
  obtain t where t: "tag c = Some t" using cap_decode_tag [OF assms(1)] by blast
  consider (ep) "t = TagEndpoint" | (nt) "t = TagNotification" | (cn) "t = TagCNode"
    | (other) "t \<notin> {TagEndpoint, TagNotification, TagCNode}" by blast
  then show ?thesis
  proof cases
    case ep
    have "tag (set_endpoint_badge b c) = tag c" for b by (simp add: cap_defs bf_simps)
    then show ?thesis using assms t ep
      by (auto simp: update_cap_data_def cap_decode_def is_null_iff_tag split: if_splits) (auto simp: cap_defs bf_simps)
  next
    case nt
    have "tag (set_notification_badge b c) = tag c" for b by (simp add: cap_defs bf_simps)
    then show ?thesis using assms t nt
      by (auto simp: update_cap_data_def cap_decode_def is_null_iff_tag split: if_splits) (auto simp: cap_defs bf_simps)
  next
    case cn
    then have v: "v = VCNode (cnode_ptr c) (cnode_radix c) (cnode_guard c) (cnode_guard_size c)"
      using assms(1) t by (simp add: cap_decode_def)
    have "cnode_radix c AND mask 6 = cnode_radix c" by (simp add: cnode_radix_def bf_simps)
    moreover obtain g gs where "update_cap_data False data c = new_cnode (cnode_ptr c) (cnode_radix c) g gs"
      using assms(2) t cn by (auto simp: update_cap_data_def Let_def is_null_iff_tag split: if_splits)
    ultimately show ?thesis using decode_cnode [OF cnode_ptr_ok] v by simp
  next
    case other
    then have "update_cap_data False data c = c" using t by (cases t) (simp_all add: update_cap_data_def)
    then show ?thesis using assms below_refl by simp
  qed
qed

lemma derive_cap_below:
  assumes "cap_decode c = Some v" "derive_cap_for_copy slot c s = Some (Inr d, s')" "\<not> is_null d"
  shows "s' = s \<and> (\<exists>v'. cap_decode d = Some v' \<and> below v' v)"
proof -
  obtain t where t: "tag c = Some t" using cap_decode_tag [OF assms(1)] by blast
  show ?thesis
  proof (cases "t = TagFrame")
    case True
    let ?d = "set_frame_mapped_asid 0 (set_frame_mapped_addr 0 c)"
    have "tag ?d = tag c" by (simp add: cap_defs bf_simps)
    moreover have "d = ?d" "s' = s" using assms(2) t True by (auto simp: derive_cap_for_copy_def succeed_def)
    ultimately show ?thesis using assms(1) t True
      by (auto simp: cap_decode_def cap_defs bf_simps)
  next
    case False
    then have "d = c \<and> s' = s"
      using assms(2,3) t
      by (cases t) (auto simp: derive_cap_for_copy_def succeed_def fail_def is_null_iff_tag split: if_splits)
    then show ?thesis using assms(1) below_refl by simp
  qed
qed

lemma derived_below:
  assumes "cap_decode c = Some v" "\<not> is_null d"
    and "derive_cap_for_copy slot (if m then update_cap_data False data (mask_cap_rights c rights)
      else mask_cap_rights c rights) s = Some (Inr d, s')"
  shows "s' = s \<and> (\<exists>v'. cap_decode d = Some v' \<and> below v' v)"
proof -
  obtain v1 where v1: "cap_decode (mask_cap_rights c rights) = Some v1" "below v1 v"
    using mask_cap_rights_below [OF assms(1)] by blast
  have "\<not> is_null (update_cap_data False data (mask_cap_rights c rights))" if m
    using assms(2,3) that by (auto simp: derive_cap_for_copy_def succeed_def is_null_iff_tag)
  then obtain v2 where "cap_decode (if m then update_cap_data False data (mask_cap_rights c rights)
      else mask_cap_rights c rights) = Some v2" "below v2 v1"
    using update_cap_data_below [OF v1(1)] v1(1) below_refl by (cases m) auto
  then show ?thesis using derive_cap_below [OF _ assms(3,2)] v1(2) below_trans by metis
qed

section \<open>Copies and mints\<close>

lemma try_bind_Inr:
  "try_bind m f = Some (Inr b, s') \<longleftrightarrow> (\<exists>a s1. m = Some (Inr a, s1) \<and> f a s1 = Some (Inr b, s'))"
  by (auto simp: try_bind_eq_Some)

lemma decode_message_state:
  "or_error x e s = Some (r, s') \<Longrightarrow> s' = s"
  "resolve_slot c i d s = Some (r1, s') \<Longrightarrow> s' = s"
  "resolve_dest t c n s = Some (r1, s') \<Longrightarrow> s' = s"
  "lookup_root t k s = Some (r2, s') \<Longrightarrow> s' = s"
  "require_extra_caps t q s = Some (r3, s') \<Longrightarrow> s' = s"
proof -
  show oe: "or_error x e s = Some (r, s') \<Longrightarrow> s' = s" for x :: "(lookup_error + 'z) option" and e s r s'
    by (auto simp: or_error_def succeed_def fail_def split: option.splits sum.splits)
  show rs: "resolve_slot c i d s = Some (r1, s') \<Longrightarrow> s' = s" for c i d s r1 s'
    by (auto simp: resolve_slot_def try_bind_eq_Some succeed_def fail_def split: if_splits dest: oe)
  show "resolve_dest t c n s = Some (r1, s') \<Longrightarrow> s' = s"
    by (auto simp: resolve_dest_def fail_def split: if_splits dest: rs)
  show "lookup_root t k s = Some (r2, s') \<Longrightarrow> s' = s"
    by (auto simp: lookup_root_def try_bind_eq_Some succeed_def dest: oe)
  show "require_extra_caps t q s = Some (r3, s') \<Longrightarrow> s' = s"
    by (auto simp: require_extra_caps_def succeed_def fail_def split: if_splits)
qed

lemma cte_insert_caps:
  assumes "cte_insert src c dest h = Some h'"
  shows "src \<noteq> dest" "slot_is_empty h dest" "slot_cap h' dest = c"
    and "y \<noteq> dest \<Longrightarrow> y \<noteq> src \<or> tag (slot_cap h src) \<noteq> Some TagUntyped \<Longrightarrow> slot_cap h' y = slot_cap h y"
  using assms
  by (auto simp: cte_insert_def slot_cap_def set_mdb_prev_def set_untyped_cap_as_full_def update_cap_def Let_def
      split: if_splits option.splits)

lemma copy_or_mint_result:
  assumes "cnode_op_copy_or_mint thread root len m s = Some (Inr (), s')"
  shows "\<exists>src dest d. \<not> is_null (slot_cap (ctes s) src) \<and> is_null (slot_cap (ctes s) dest) \<and> \<not> is_null d \<and>
    derive_cap_for_copy src (if m then update_cap_data False (read_mr s thread 5)
        (mask_cap_rights (slot_cap (ctes s) src) (read_mr s thread 4))
      else mask_cap_rights (slot_cap (ctes s) src) (read_mr s thread 4)) s = Some (Inr d, s) \<and>
    upd_ctes_opt (cte_insert src d dest) s = Some s'"
proof -
  have st: "derive_cap_for_copy src c s1 = Some (r, s2) \<Longrightarrow> s2 = s1" for src c s1 r s2
    by (auto simp: derive_cap_for_copy_def succeed_def fail_def split: option.splits cap_tag.splits if_splits)
  note steps = cnode_op_copy_or_mint_def try_bind_Inr
  obtain dest s1 where r0: "resolve_dest thread root len s = Some (Inr dest, s1)"
    and r1: "(if len < 4 then fail TruncatedMessage s1
      else try_bind (require_extra_caps thread 1 s1) (\<lambda>_ s. try_bind (lookup_root thread 0 s) (\<lambda>src_root_cap s.
        copy_from thread m len dest src_root_cap s))) = Some (Inr (), s')"
    using assms unfolding steps by blast
  have s1: "s1 = s" by (rule decode_message_state(3) [OF r0])
  obtain c where r2: "copy_from thread m len dest c s = Some (Inr (), s')"
    using r1 unfolding s1 try_bind_Inr fail_def
    by (auto simp: try_bind_Inr split: if_splits dest!: decode_message_state(4,5))
  obtain src where null: "is_null (slot_cap (ctes s) dest)"
    and r3: "copy_slot thread m len dest src s = Some (Inr (), s')"
    using r2 unfolding copy_from_def
    by (auto simp: try_bind_Inr fail_def split: if_splits dest!: decode_message_state(2))
  obtain d s2 where d: "\<not> is_null (slot_cap (ctes s) src)" "\<not> is_null d" "upd_ctes_opt (cte_insert src d dest) s2 = Some s'"
    "derive_cap_for_copy src (if m then update_cap_data False (read_mr s thread 5)
        (mask_cap_rights (slot_cap (ctes s) src) (read_mr s thread 4))
      else mask_cap_rights (slot_cap (ctes s) src) (read_mr s thread 4)) s = Some (Inr d, s2)"
    using r3 unfolding copy_slot_def
    by (auto simp: try_bind_Inr Let_def on_slots_def succeed_def fail_def bind_eq_Some_conv split: if_splits)
  then show ?thesis using st [OF d(4)] null by blast
qed

text \<open>
  C3: A copied or minted capability never carries more authority than its source. Whenever the
  operation succeeds, the new capability is in a slot that was empty, it names the same object, its
  rights and its badge are allowed by those of the source, and apart from the free index of an
  untyped source no other capability and no thread has changed.
\<close>

theorem copy_never_amplifies:
  assumes "cnode_op_copy_or_mint thread root len m s = Some (Inr (), s')"
    and "\<And>a. \<not> is_null (slot_cap (ctes s) a) \<Longrightarrow> cap_decode (slot_cap (ctes s) a) \<noteq> None"
  shows "\<exists>src dest v v'. is_null (slot_cap (ctes s) dest) \<and> cap_decode (slot_cap (ctes s) src) = Some v \<and>
    cap_decode (slot_cap (ctes s') dest) = Some v' \<and> v' \<noteq> VNull \<and> below v' v \<and>
    (\<forall>y. y \<noteq> dest \<and> (y \<noteq> src \<or> view_tag v \<noteq> TagUntyped) \<longrightarrow> slot_cap (ctes s') y = slot_cap (ctes s) y) \<and>
    tcbs s' = tcbs s"
proof -
  obtain src dest d where c: "\<not> is_null (slot_cap (ctes s) src)" "is_null (slot_cap (ctes s) dest)" "\<not> is_null d"
    "derive_cap_for_copy src (if m then update_cap_data False (read_mr s thread 5)
        (mask_cap_rights (slot_cap (ctes s) src) (read_mr s thread 4))
      else mask_cap_rights (slot_cap (ctes s) src) (read_mr s thread 4)) s = Some (Inr d, s)"
    "upd_ctes_opt (cte_insert src d dest) s = Some s'"
    using copy_or_mint_result [OF assms(1)] by blast
  obtain v where v: "cap_decode (slot_cap (ctes s) src) = Some v" using assms(2) [OF c(1)] by blast
  obtain v' where v': "cap_decode d = Some v'" "below v' v" using derived_below [OF v c(3,4)] by blast
  obtain h where h: "cte_insert src d dest (ctes s) = Some h" "s' = s\<lparr> ctes := h \<rparr>"
    using c(5) by (auto simp: upd_ctes_opt_def split: option.splits)
  have "v' \<noteq> VNull" using cap_decode_tag [OF v'(1)] c(3) by (auto simp: is_null_iff_tag)
  then show ?thesis
    using c(2) v v' h(2) cte_insert_caps(3,4) [OF h(1)] cap_decode_tag [OF v]
    by (intro exI [of _ src] exI [of _ dest] exI [of _ v] exI [of _ v']) auto
qed

text \<open>
  A thread copies the endpoint capability in slot 1 of its CNode to slot 2, keeping only the right to
  receive; slot 3 holds a capability to the CNode itself.
\<close>

definition copying :: kstate where
  "copying = (empty_kstate 1 0)\<lparr>
     cpu_current := (\<lambda>_. thr_a),
     tcbs := (\<lambda>_. tcb_zero)(thr_a := tcb_zero\<lparr> tcb_ipc_buffer := Some 0xFFFFFFC085000000,
       tcb_context := set_msg_info (message_info_new 20 0 1 5)
         (set_mr 0 2 (set_mr 1 64 (set_mr 2 1 (set_mr 3 64 uc_zero)))) \<rparr>),
     ctes := (\<lambda>_. cte_null)(
       thr_a := \<lparr> cte_cap = root_cnode, cte_mdb = mdb_null \<rparr>,
       0xFFFFFFC084300020 := \<lparr> cte_cap = ep_cap, cte_mdb = mdb_null \<rparr>,
       0xFFFFFFC084300060 := \<lparr> cte_cap = root_cnode, cte_mdb = mdb_null \<rparr>),
     mem := (\<lambda>_. 0)(0xFFFFFFC085000028 := 2, 0xFFFFFFC0850003D0 := 3) \<rparr>"

lemma copying_succeeds: "map_option fst (cnode_op_copy_or_mint thr_a root_cnode 5 False copying) = Some (Inr ())"
  by code_simp

lemma copying_result:
  "map_option (\<lambda>r. cap_decode (slot_cap (ctes (snd r)) 0xFFFFFFC084300040))
     (cnode_op_copy_or_mint thr_a root_cnode 5 False copying) =
   Some (Some (VEndpoint 0xFFFFFFC080020000 0 False True False False))"
  by code_simp

theorem copy_never_amplifies_witness:
  "\<exists>s' src dest v v'. cnode_op_copy_or_mint thr_a root_cnode 5 False copying = Some (Inr (), s') \<and>
     cap_decode (slot_cap (ctes copying) src) = Some v \<and> cap_decode (slot_cap (ctes s') dest) = Some v' \<and> below v' v"
proof -
  obtain s' where s': "cnode_op_copy_or_mint thr_a root_cnode 5 False copying = Some (Inr (), s')"
    using copying_succeeds by auto
  have "cap_decode (slot_cap (ctes copying) a) \<noteq> None" for a
    by (simp add: copying_def slot_cap_def cte_null_def root_cnode_def ep_cap_def cap_decode_def)
  then show ?thesis using copy_never_amplifies [OF s'] s' by blast
qed

end
