(* ===== verification/Rel4_Untyped.thy ===== *)
theory Rel4_Untyped
  imports Rel4_CNode
begin

text \<open>
  Retyping (\<^verbatim>\<open>handle_untyped\<close> and what it calls in \<^verbatim>\<open>api/invocation.rs\<close>): the validation of the request, the
  destination slots, the preemptible reset of an untyped region without children, and the loop
  that creates the objects and their capabilities.
\<close>

section \<open>Clearing memory\<close>

text \<open>
  \<^verbatim>\<open>ptr::write_bytes\<close> with zero on a run of bytes: every plain word and every object that starts in
  the run reads as zero afterwards. The run may wrap around the end of the address space.
\<close>

definition in_bytes :: "u64 \<Rightarrow> u64 \<Rightarrow> u64 \<Rightarrow> bool" where
  "in_bytes base n a \<longleftrightarrow> a - base < n"

definition zero_bytes :: "u64 \<Rightarrow> u64 \<Rightarrow> kstate \<Rightarrow> kstate" where
  "zero_bytes base n s =
     s\<lparr> ctes := (\<lambda>a. if in_bytes base n a then cte_null else ctes s a),
        tcbs := (\<lambda>a. if in_bytes base n a then tcb_zero\<lparr> tcb_time_slice := 0 \<rparr> else tcbs s a),
        tlinks := (\<lambda>a. if in_bytes base n a then unlinked else tlinks s a),
        eps := (\<lambda>a. if in_bytes base n a then endpoint_zero else eps s a),
        ntfns := (\<lambda>a. if in_bytes base n a then notification_new else ntfns s a),
        mem := (\<lambda>a. if in_bytes base n a then 0 else mem s a) \<rparr>"

definition align_up :: "u64 \<Rightarrow> u64 \<Rightarrow> u64" where
  "align_up v bits = (let m = shl64 1 (unat bits) - 1 in (v + m) AND NOT m)"

definition align_down :: "u64 \<Rightarrow> u64 \<Rightarrow> u64" where
  "align_down v bits = (let m = shl64 1 (unat bits) - 1 in v AND NOT m)"

section \<open>Replies\<close>

definition success_reply_length :: "cap_tag option \<Rightarrow> u64 \<Rightarrow> u64" where
  "success_reply_length t label_id =
     (if t = Some TagThread \<and> label_id = invocation_label_raw TcbSetFlags then 1
      else if t = Some TagFrame \<and> label_id = PAGE_GET_ADDRESS then 1
      else if t = Some TagIoPort then io_port_in_reply_length label_id
      else 0)"

definition write_reply_mr0 :: "u64 \<Rightarrow> u64 \<Rightarrow> kstate \<Rightarrow> kstate" where
  "write_reply_mr0 thread value s =
     snd (write_current_ipc_buffer_word 1 value (upd_context thread (set_mr 0 value) s))"

text \<open>A range error tells the caller the bounds in the first two message registers.\<close>

definition fail_range :: "u64 \<Rightarrow> u64 \<Rightarrow> u64 \<Rightarrow> kstate \<Rightarrow> 'a result" where
  "fail_range thread lo hi s = fail RangeError (upd_context thread (set_mr 1 hi \<circ> set_mr 0 lo) s)"

section \<open>Validation\<close>

definition validate_retype_object_size :: "u64 \<Rightarrow> u64 \<Rightarrow> u64 \<Rightarrow> kstate \<Rightarrow> (object_type \<times> u64) result" where
  "validate_retype_object_size thread ty user_size s = (case object_type_from_raw ty of
     None \<Rightarrow> fail InvalidArgument s
   | Some object_type \<Rightarrow>
       let obj_bits = size_bits object_type user_size in
       if of_nat WORD_BITS \<le> user_size \<or> SEL4_MAX_UNTYPED_BITS < obj_bits
       then fail_range thread 0 SEL4_MAX_UNTYPED_BITS s
       else if object_type = ObCapTable \<and> user_size = 0 then fail InvalidArgument s
       else if object_type = ObUntyped \<and> user_size < SEL4_MIN_UNTYPED_BITS then fail InvalidArgument s
       else succeed (object_type, obj_bits) s)"

definition device_untyped_retype_allowed :: "object_type \<Rightarrow> bool" where
  "device_untyped_retype_allowed ty = device_retype_allowed ty"

definition create_object_cap :: "object_type \<Rightarrow> u64 \<Rightarrow> u64 \<Rightarrow> bool \<Rightarrow> cap" where
  "create_object_cap ty region_base user_size is_device = create_cap ty region_base user_size is_device"

text \<open>The CNode that receives the new capabilities, and the checks of the window of slots in it.\<close>

definition retype_dest_cnode_cap :: "u64 \<Rightarrow> u64 \<Rightarrow> u64 \<Rightarrow> u64 \<Rightarrow> kstate \<Rightarrow> cap result" where
  "retype_dest_cnode_cap thread root_cptr node_index node_depth s =
     try_bind (or_error (lookup_cap s thread root_cptr) InvalidCapability s) (\<lambda>(root_cap, _) s.
     if node_depth = 0 then succeed root_cap s
     else try_bind (resolve_slot root_cap node_index (unat (node_depth AND 0xFFFFFFFF)) s) (\<lambda>node_slot s.
       succeed (slot_cap (ctes s) node_slot) s))"

definition retype_window :: "u64 \<Rightarrow> cap \<Rightarrow> u64 \<Rightarrow> u64 \<Rightarrow> kstate \<Rightarrow> (u64 \<times> nat) result" where
  "retype_window thread dest_cnode_cap node_offset node_window s =
     (if tag dest_cnode_cap \<noteq> Some TagCNode then fail FailedLookup s
      else
        let slots = shl64 1 (unat (cnode_radix dest_cnode_cap)) in
        if slots \<le> node_offset then fail_range thread 0 (slots - 1) s
        else if node_window < 1 \<or> RETYPE_FAN_OUT_LIMIT < node_window then fail_range thread 1 RETYPE_FAN_OUT_LIMIT s
        else if slots - node_offset < node_window then fail_range thread 1 (slots - node_offset) s
        else case as_cnode dest_cnode_cap of
          None \<Rightarrow> fail FailedLookup s
        | Some cnode \<Rightarrow> succeed cnode s)"

definition dest_slot :: "u64 \<times> nat \<Rightarrow> u64 \<Rightarrow> nat \<Rightarrow> u64 option" where
  "dest_slot cnode node_offset i = objarray_get (fst cnode) 32 (snd cnode) (unat (node_offset + of_nat i))"

fun ensure_empty_slots :: "(nat \<Rightarrow> u64 option) \<Rightarrow> nat list \<Rightarrow> kstate \<Rightarrow> unit result" where
  "ensure_empty_slots dest [] s = succeed () s"
| "ensure_empty_slots dest (i # is) s = (case dest i of
     None \<Rightarrow> fail RangeError s
   | Some slot \<Rightarrow>
       if \<not> is_null (slot_cap (ctes s) slot) then fail DeleteFirst s else ensure_empty_slots dest is s)"

section \<open>Reset\<close>

definition set_slot_free_index :: "u64 \<Rightarrow> u64 \<Rightarrow> kstate \<Rightarrow> kstate" where
  "set_slot_free_index src_slot v s = upd_ctes (update_cap src_slot (set_untyped_free_index v)) s"

definition RESET_CHUNK :: u64 where "RESET_CHUNK = shl64 1 (unat RESET_CHUNK_BITS)"

partial_function (option) reset_chunks :: "u64 \<Rightarrow> u64 \<Rightarrow> u64 \<Rightarrow> kstate \<Rightarrow> unit result" where
  "reset_chunks src_slot region_base_kva offset s =
     try_bind (cnode_preemption_point
       (set_slot_free_index src_slot (shr64 offset (unat SEL4_MIN_UNTYPED_BITS))
         (zero_bytes (region_base_kva + offset) RESET_CHUNK s))) (\<lambda>_ s.
     if offset = 0 then succeed () s else reset_chunks src_slot region_base_kva (offset - RESET_CHUNK) s)"

declare reset_chunks.simps [code]

definition reset_untyped_cap_for_retype :: "u64 \<Rightarrow> u64 \<Rightarrow> u64 \<Rightarrow> u64 \<Rightarrow> bool \<Rightarrow> kstate \<Rightarrow> unit result" where
  "reset_untyped_cap_for_retype src_slot region_base_kva untyped_bits stored_free_index is_device s =
     (if stored_free_index = 0 then succeed () s
      else
        let region_size = shl64 1 (unat untyped_bits);
            used_bytes = shl64 stored_free_index (unat SEL4_MIN_UNTYPED_BITS)
        in if is_device \<or> untyped_bits < RESET_CHUNK_BITS
           then succeed () (set_slot_free_index src_slot 0
                  (if \<not> is_device then zero_bytes region_base_kva region_size s else s))
           else reset_chunks src_slot region_base_kva (align_down (used_bytes - 1) RESET_CHUNK_BITS) s)"

section \<open>Retype\<close>

definition endpoint_init :: "u64 \<Rightarrow> kstate \<Rightarrow> kstate" where
  "endpoint_init ep s = upd_ep ep ep_clear s"

definition init_object :: "object_type \<Rightarrow> u64 \<Rightarrow> kstate \<Rightarrow> kstate" where
  "init_object ty obj_base s = (case ty of
     ObTcb \<Rightarrow> tcb_init obj_base s
   | ObEndpoint \<Rightarrow> endpoint_init obj_base s
   | _ \<Rightarrow> s)"

fun install_objects :: "(nat \<Rightarrow> u64 option) \<Rightarrow> u64 \<Rightarrow> object_type \<Rightarrow> u64 \<Rightarrow> u64 \<Rightarrow> u64 \<Rightarrow> bool \<Rightarrow> nat list \<Rightarrow> kstate
    \<Rightarrow> unit result" where
  "install_objects dest src_slot ty alloc_base obj_bits user_size is_device [] s = succeed () s"
| "install_objects dest src_slot ty alloc_base obj_bits user_size is_device (i # is) s =
     (let obj_base = alloc_base + shl64 (of_nat i) (unat obj_bits);
          c = create_object_cap ty obj_base user_size is_device;
          s1 = init_object ty obj_base s
      in case dest i of
           None \<Rightarrow> fail RangeError s1
         | Some slot \<Rightarrow> try_bind (on_slots (insert_new_cap src_slot slot c) s1) (\<lambda>_ s.
             install_objects dest src_slot ty alloc_base obj_bits user_size is_device is s))"

definition retype_objects :: "(nat \<Rightarrow> u64 option) \<Rightarrow> nat \<Rightarrow> u64 \<Rightarrow> cap \<Rightarrow> object_type \<Rightarrow> u64 \<Rightarrow> u64 \<Rightarrow> kstate
    \<Rightarrow> unit result" where
  "retype_objects dest node_window src_slot src_cap ty obj_bits user_size s =
     (let untyped_bits = untyped_block_size_bits src_cap;
          is_device = untyped_is_device src_cap;
          region_base = untyped_ptr src_cap;
          region_size = shl64 1 (unat untyped_bits)
      in try_bind (ensure_empty_slots dest [0..<node_window] s) (\<lambda>_ s.
         let has_children = mdb_has_children (ctes s) src_slot;
             stored_fi = untyped_free_index src_cap;
             reset_untyped = (\<not> has_children \<and> stored_fi \<noteq> 0);
             free_index = (if has_children then stored_fi else 0);
             used_bytes = shl64 free_index 4;
             start = align_up used_bytes obj_bits;
             total = shl64 (of_nat node_window) (unat obj_bits)
         in if region_size < saturating_add64 start total then fail NotEnoughMemory s
            else if is_device \<and> \<not> device_untyped_retype_allowed ty then fail InvalidArgument s
            else try_bind (if reset_untyped
                           then reset_untyped_cap_for_retype src_slot region_base untyped_bits stored_fi is_device s
                           else succeed () s) (\<lambda>_ s.
              let s1 = set_slot_free_index src_slot (shr64 (start + total) 4) s;
                  alloc_base = region_base + start;
                  s2 = (if \<not> is_device then zero_bytes alloc_base total s1 else s1)
              in install_objects dest src_slot ty alloc_base obj_bits user_size is_device [0..<node_window] s2)))"

definition handle_untyped :: "u64 \<Rightarrow> u64 \<Rightarrow> cap \<Rightarrow> u64 \<Rightarrow> u64 \<Rightarrow> kstate \<Rightarrow> unit result" where
  "handle_untyped thread src_slot src_cap label_id len s =
     (if label_id \<noteq> invocation_label_raw UntypedRetype then fail IllegalOperation s
      else if len < 6 then fail TruncatedMessage s
      else try_bind (require_extra_caps thread 1 s) (\<lambda>_ s.
        let uc = tcb_context (tcbs s thread); user_size = mr uc 1; (node_offset, node_window) = read_mrs_4_5 s in
        try_bind (validate_retype_object_size thread (mr uc 0) user_size s) (\<lambda>(ty, obj_bits) s.
        try_bind (retype_dest_cnode_cap thread (read_extra_cap s 0) (mr uc 2) (mr uc 3) s) (\<lambda>dest_cnode_cap s.
        try_bind (retype_window thread dest_cnode_cap node_offset node_window s) (\<lambda>cnode s.
        retype_objects (dest_slot cnode node_offset) (unat node_window) src_slot src_cap ty obj_bits user_size s)))))"

section \<open>Alignment\<close>

lemma unat_of_nat64: "n < 2 ^ 64 \<Longrightarrow> unat (of_nat n :: u64) = n"
  by (simp add: unat_of_nat)

lemma unat_align_down: "unat ((x :: u64) AND NOT (mask n)) = unat x div 2 ^ n * 2 ^ n"
proof -
  have "x AND NOT (mask n) = push_bit n (drop_bit n x)"
    by (rule bit_word_eqI) (auto simp: bit_simps)
  also have "unat \<dots> = (unat x div 2 ^ n * 2 ^ n) mod 2 ^ 64"
    unfolding unsigned_push_bit_eq unat_drop_bit by (simp add: take_bit_eq_mod push_bit_eq_mult)
  also have "\<dots> = unat x div 2 ^ n * 2 ^ n"
    using unat64_less [of x] by (intro mod_less order.strict_trans1 [OF div_times_less_eq_dividend]) simp
  finally show ?thesis .
qed

lemma shl_one: "n < 64 \<Longrightarrow> unat (shl64 1 n) = 2 ^ n"
  using unat_two_power [of n] by (simp add: push_bit_eq_mult)

lemma shl_mask: "n < 64 \<Longrightarrow> shl64 1 n - 1 = mask n"
  by (simp add: mask_eq_exp_minus_1 push_bit_eq_mult)

lemma align_up_spec:
  assumes "unat bits \<le> 38" "unat v < 2 ^ 43"
  shows "2 ^ unat bits dvd unat (align_up v bits)" "unat v \<le> unat (align_up v bits)"
    "unat (align_up v bits) < 2 ^ 44"
proof -
  let ?n = "unat bits"
  have n: "(2 :: nat) ^ ?n \<le> 2 ^ 38" using assms(1) by (intro power_increasing) simp_all
  have m: "unat (mask ?n :: u64) = 2 ^ ?n - 1"
    using assms(1) shl_one [of ?n] shl_mask [of ?n] unat_sub [of 1 "shl64 1 ?n"]
    by (simp add: word_le_nat_alt del: shl64_small)
  have sum: "unat (v + mask ?n) = unat v + (2 ^ ?n - 1)"
    using assms n m by (simp add: unat_plus_if')
  have e: "unat (align_up v bits) = (unat v + (2 ^ ?n - 1)) div 2 ^ ?n * 2 ^ ?n"
    using assms(1) by (simp add: align_up_def Let_def shl_mask unat_align_down sum del: shl64_small)
  show "2 ^ ?n dvd unat (align_up v bits)" by (simp add: e)
  have "unat v + (2 ^ ?n - 1) - (unat v + (2 ^ ?n - 1)) mod 2 ^ ?n = unat (align_up v bits)"
    by (simp add: e minus_mod_eq_div_mult)
  moreover have "(unat v + (2 ^ ?n - 1)) mod 2 ^ ?n < 2 ^ ?n" by simp
  ultimately show "unat v \<le> unat (align_up v bits)" by linarith
  show "unat (align_up v bits) < 2 ^ 44"
    unfolding e using assms(2) n by (intro order.strict_trans1 [OF div_times_less_eq_dividend]) simp
qed

section \<open>Slots that keep their place\<close>

lemma dll_agree: "dll lh p xs n \<Longrightarrow> (\<And>x. x \<in> set xs \<Longrightarrow> lh' x = lh x) \<Longrightarrow> dll lh' p xs n"
  by (induction xs arbitrary: p) auto

lemma mdb_list_agree:
  assumes "mdb_list h xs" "\<And>x. x \<in> set xs \<Longrightarrow> cte_mdb (h' x) = cte_mdb (h x)"
  shows "mdb_list h' xs"
  using assms dll_agree [of "mdb_links h" None xs None "mdb_links h'"]
  by (auto simp: mdb_list_def mdb_links_def mdb_prev_def mdb_next_def)

lemma empty_slot_not_linked:
  assumes "mdb_list h (as @ src # bs)" "slot_is_empty h x" "x \<noteq> src"
  shows "x \<notin> set (as @ src # bs)"
proof
  assume "x \<in> set (as @ src # bs)"
  then obtain us vs where us: "as @ src # bs = us @ x # vs" by (meson split_list)
  have "mdb_prev h x = None" "mdb_next h x = None"
    using assms(2) by (simp_all add: slot_is_empty_def cte_is_empty_def mdb_prev_def mdb_next_def)
  moreover have "mdb_prev h x = last_or us None" "mdb_next h x = first_or vs None"
    using mdb_list_links [of h us x vs] assms(1) us by simp_all
  moreover have "us \<noteq> [] \<or> vs \<noteq> []" using us assms(3) by (auto simp: append_eq_Cons_conv Cons_eq_append_conv)
  ultimately show False by (cases us rule: rev_cases; cases vs) auto
qed

section \<open>Creating the objects\<close>

lemma fold_upd_other: "(\<And>i. i \<in> set is \<Longrightarrow> x \<noteq> f i) \<Longrightarrow> fold (\<lambda>i h. h(f i := v)) is h x = h x"
  by (induction "is" arbitrary: h) auto

lemma tcb_init_ctes:
  assumes "\<not> in_bytes t 2048 x"
  shows "ctes (tcb_init t s) x = ctes s x"
proof -
  have x: "x \<noteq> t + of_nat (i * 32)" if "i < 16" for i
  proof
    assume "x = t + of_nat (i * 32)"
    then have "unat (x - t) = i * 32" using that by (simp add: unat_of_nat flip: of_nat_mult)
    then show False using assms that by (simp add: in_bytes_def word_less_nat_alt)
  qed
  have r: "cap_slot t TCB_REPLY = Some r \<Longrightarrow> x \<noteq> r" for r
    using x [of 2] by (auto simp: cap_slot_def TCB_REPLY_def objarray_get_def from_kva_def split: if_splits)
  have "fold (\<lambda>i h. h(t + of_nat (i * 32) := cte_null)) [0..<16] (ctes s) x = ctes s x"
    by (rule fold_upd_other) (use x in auto)
  then show ?thesis using r
    by (auto simp: tcb_init_def setup_reply_master_def Let_def upd_tcb_def upd_ctes_def upd_links_def
        TCB_CNODE_ENTRIES_def split: option.split)
qed

lemma init_object_ctes:
  assumes "\<not> in_bytes a (shl64 1 (unat (size_bits ty user_size))) x"
  shows "ctes (init_object ty a s) x = ctes s x"
  using assms tcb_init_ctes [of a x s]
  by (cases ty) (simp_all add: init_object_def endpoint_init_def upd_ep_def SEL4_TCB_BITS_def push_bit_eq_mult)

lemma insert_new_cap_SomeD: "insert_new_cap src d c h = Some h' \<Longrightarrow> src \<noteq> d \<and> slot_is_empty h d"
  by (auto simp: insert_new_cap_def split: if_splits)

lemma insert_new_cap_revocable:
  assumes "insert_new_cap src slot c h = Some h'" "x \<noteq> slot"
  shows "mdb_revocable (slot_mdb h' x) = mdb_revocable (slot_mdb h x)"
  using assms
  by (auto simp: insert_new_cap_def Let_def slot_mdb_def set_mdb_next_def set_mdb_prev_def split: if_splits option.splits)

lemma install_objects_effect:
  assumes "install_objects dest src ty base bits user_size dev is s = Some (Inr (), s')"
    and "mdb_list (ctes s) (as @ src # bs)" "set (as @ src # bs) \<inter> Z = {}"
    and "\<And>i. i \<in> set is \<Longrightarrow> cte_addr_ok (d i) \<and> d i \<notin> Z \<and> dest i = Some (d i)"
    and "\<And>i s x. i \<in> set is \<Longrightarrow> x \<notin> Z \<Longrightarrow>
      ctes (init_object ty (base + shl64 (of_nat i) (unat bits)) s) x = ctes s x"
  shows "mdb_list (ctes s') (as @ src # rev (map d is) @ bs) \<and> set (map d is) \<inter> set (as @ src # bs) = {} \<and>
    (\<forall>i\<in>set is. slot_cap (ctes s') (d i) = create_cap ty (base + shl64 (of_nat i) (unat bits)) user_size dev) \<and>
    (\<forall>x. x \<notin> Z \<longrightarrow> x \<notin> d ` set is \<longrightarrow> slot_cap (ctes s') x = slot_cap (ctes s) x \<and>
       mdb_revocable (slot_mdb (ctes s') x) = mdb_revocable (slot_mdb (ctes s) x))"
  using assms
proof (induction "is" arbitrary: s bs)
  case (Cons i "is")
  let ?c = "create_cap ty (base + shl64 (of_nat i) (unat bits)) user_size dev"
  let ?s1 = "init_object ty (base + shl64 (of_nat i) (unat bits)) s"
  have di: "dest i = Some (d i)" "cte_addr_ok (d i)" "d i \<notin> Z" using Cons.prems(4) by auto
  have same: "ctes ?s1 x = ctes s x" if "x \<notin> Z" for x using Cons.prems(5) that by simp
  obtain h2 where h2: "insert_new_cap src (d i) ?c (ctes ?s1) = Some h2"
    and rest: "install_objects dest src ty base bits user_size dev is (?s1\<lparr> ctes := h2 \<rparr>) = Some (Inr (), s')"
    using Cons.prems(1) di(1)
    by (auto simp: Let_def create_object_cap_def on_slots_def upd_ctes_opt_def succeed_def try_bind_eq_Some
        split: option.splits)
  have l1: "mdb_list (ctes ?s1) (as @ src # bs)"
  proof (rule mdb_list_agree [OF Cons.prems(2)])
    fix x assume "x \<in> set (as @ src # bs)"
    then have "x \<notin> Z" using Cons.prems(3) by blast
    then show "cte_mdb (ctes ?s1 x) = cte_mdb (ctes s x)" by (simp add: same)
  qed
  have new: "d i \<notin> set (as @ src # bs)"
    using empty_slot_not_linked [OF l1] insert_new_cap_SomeD [OF h2] by blast
  have emp: "slot_is_empty (ctes ?s1) (d i)" using insert_new_cap_SomeD [OF h2] by blast
  obtain h' where "insert_new_cap src (d i) ?c (ctes ?s1) = Some h'" and
    l2: "mdb_list h' (as @ src # d i # bs)" and c2: "slot_cap h' (d i) = ?c"
    and f2: "\<And>x. x \<noteq> d i \<Longrightarrow> slot_cap h' x = slot_cap (ctes ?s1) x"
    using insert_new_cap_list [OF l1 new di(2) emp] by metis
  with h2 have h': "h' = h2" by simp
  note ih = Cons.IH [OF rest, of "d i # bs"]
  have "mdb_list (ctes s') (as @ src # rev (map d is) @ d i # bs) \<and>
    set (map d is) \<inter> set (as @ src # d i # bs) = {} \<and>
    (\<forall>i\<in>set is. slot_cap (ctes s') (d i) = create_cap ty (base + shl64 (of_nat i) (unat bits)) user_size dev) \<and>
    (\<forall>x. x \<notin> Z \<longrightarrow> x \<notin> d ` set is \<longrightarrow> slot_cap (ctes s') x = slot_cap h2 x \<and>
       mdb_revocable (slot_mdb (ctes s') x) = mdb_revocable (slot_mdb h2 x))"
    using ih l2 Cons.prems(3-5) di by (simp add: h')
  moreover have "mdb_revocable (slot_mdb h2 x) = mdb_revocable (slot_mdb (ctes s) x)" if "x \<noteq> d i" "x \<notin> Z" for x
    using insert_new_cap_revocable [OF h2 that(1)] same [OF that(2)] by (simp add: slot_mdb_def)
  ultimately show ?case using new c2 f2 same di(3) by (auto simp: h' slot_cap_def)
qed (simp add: succeed_def)

section \<open>Resetting the region\<close>

text \<open>
  Outside of the cleared addresses \<open>Z\<close> a reset only changes the free index of the untyped capability.
\<close>

definition freed_to :: "u64 \<Rightarrow> u64 \<Rightarrow> u64 set \<Rightarrow> kstate \<Rightarrow> kstate \<Rightarrow> bool" where
  "freed_to src v Z s s' \<longleftrightarrow> (\<forall>x. x \<notin> Z \<longrightarrow> ctes s' x =
     (if x = src then (ctes s x)\<lparr> cte_cap := set_untyped_free_index v (cte_cap (ctes s x)) \<rparr> else ctes s x))"

lemma set_free_index_twice: "set_untyped_free_index v (set_untyped_free_index u c) = set_untyped_free_index v c"
  by (cases c) (auto simp: set_untyped_free_index_def bits_set_def bits_clear_def bits_put_def bit_simps intro!: bit_word_eqI)

lemma freed_to_trans: "freed_to src u Z s s1 \<Longrightarrow> freed_to src v Z s1 s2 \<Longrightarrow> freed_to src v Z s s2"
  by (auto simp: freed_to_def set_free_index_twice)

lemma freed_to_set: "freed_to src v Z s (set_slot_free_index src v s)"
  by (simp add: freed_to_def set_slot_free_index_def upd_ctes_def update_cap_def)

lemma freed_to_cong: "freed_to src v Z s s1 \<Longrightarrow> ctes s' = ctes s1 \<Longrightarrow> freed_to src v Z s s'"
  by (simp add: freed_to_def)

lemma zero_bytes_ctes: "\<not> in_bytes b n x \<Longrightarrow> ctes (zero_bytes b n s) x = ctes s x"
  by (simp add: zero_bytes_def)

lemma freed_to_zeroed:
  assumes "\<And>x. in_bytes b n x \<Longrightarrow> x \<in> Z"
  shows "freed_to src v Z s (set_slot_free_index src v (zero_bytes b n s))"
  unfolding freed_to_def
proof (intro allI impI)
  fix x assume "x \<notin> Z"
  then have "ctes (zero_bytes b n s) x = ctes s x" using assms by (blast intro: zero_bytes_ctes)
  then show "ctes (set_slot_free_index src v (zero_bytes b n s)) x =
      (if x = src then (ctes s x)\<lparr> cte_cap := set_untyped_free_index v (cte_cap (ctes s x)) \<rparr> else ctes s x)"
    by (cases "x = src") (simp_all add: set_slot_free_index_def upd_ctes_def update_cap_def)
qed

lemma freed_to_zero:
  assumes "freed_to src v Z s s1" "\<And>x. in_bytes b n x \<Longrightarrow> x \<in> Z"
  shows "freed_to src v Z s (zero_bytes b n s1)"
  unfolding freed_to_def
proof (intro allI impI)
  fix x assume x: "x \<notin> Z"
  then have "ctes (zero_bytes b n s1) x = ctes s1 x" using assms(2) by (blast intro: zero_bytes_ctes)
  then show "ctes (zero_bytes b n s1) x =
      (if x = src then (ctes s x)\<lparr> cte_cap := set_untyped_free_index v (cte_cap (ctes s x)) \<rparr> else ctes s x)"
    using assms(1) x unfolding freed_to_def by simp
qed

lemma in_bytes_offset:
  assumes "in_bytes (b + off) n a" "unat off + unat n < 2 ^ 64"
  shows "unat off \<le> unat (a - b)" "unat (a - b) < unat off + unat n"
proof -
  have d: "unat (a - (b + off)) < unat n" using assms(1) by (simp add: in_bytes_def word_less_nat_alt)
  have "unat ((a - (b + off)) + off) = unat (a - (b + off)) + unat off"
    by (rule unat_add_lem [THEN iffD1]) (use d assms(2) in simp)
  moreover have "(a - (b + off)) + off = a - b" by simp
  ultimately show "unat off \<le> unat (a - b)" "unat (a - b) < unat off + unat n" using d by simp_all
qed

lemma preemption_point_ctes: "cnode_preemption_point s = Some (Inr (), s') \<Longrightarrow> ctes s' = ctes s"
  by (auto simp: cnode_preemption_point_def service_due_timer_interrupts_def read_time_def Let_def Option.bind_eq_Some_conv
      split: if_splits option.splits)

lemma reset_chunks_effect:
  assumes "reset_chunks src base (of_nat (k * 256)) s = Some (Inr (), s')" "k * 256 + 256 \<le> n" "n < 2 ^ 64"
    "{a. unat (a - base) < n} \<subseteq> Z"
  shows "freed_to src 0 Z s s'"
  using assms(1,2)
proof (induction k arbitrary: s)
  have chunk: "unat RESET_CHUNK = 256" by (simp add: RESET_CHUNK_def RESET_CHUNK_BITS_def push_bit_eq_mult)
  let ?z = "\<lambda>k s. set_slot_free_index src (shr64 (of_nat (k * 256)) (unat SEL4_MIN_UNTYPED_BITS))
    (zero_bytes (base + of_nat (k * 256)) RESET_CHUNK s)"
  have step: "freed_to src (shr64 (of_nat (k * 256)) (unat SEL4_MIN_UNTYPED_BITS)) Z s (?z k s)"
    if "k * 256 + 256 \<le> n" for k s
  proof (rule freed_to_zeroed)
    have u: "unat (of_nat (k * 256) :: u64) = k * 256" using that assms(3) by (intro unat_of_nat64) simp
    fix x assume "in_bytes (base + of_nat (k * 256)) RESET_CHUNK x"
    from in_bytes_offset(2) [OF this] u chunk that assms(3) have "unat (x - base) < n" by simp
    with assms(4) show "x \<in> Z" by blast
  qed
  {
    case 0
    obtain s1 where p: "cnode_preemption_point (?z 0 s) = Some (Inr (), s1)" and "s' = s1"
      using "0.prems"(1) by (subst (asm) reset_chunks.simps) (auto simp: try_bind_eq_Some succeed_def)
    then show ?case using freed_to_cong [OF step [OF "0.prems"(2)] preemption_point_ctes [OF p]] by (simp add: shr64_def)
  next
    case (Suc k)
    have nz: "(of_nat (Suc k * 256) :: u64) \<noteq> 0"
      using Suc.prems(2) assms(3) unat_of_nat64 [of "Suc k * 256"] by auto
    have m: "(of_nat (Suc k * 256) :: u64) - RESET_CHUNK = of_nat (k * 256)"
      by (simp add: RESET_CHUNK_def RESET_CHUNK_BITS_def push_bit_eq_mult)
    obtain s1 where p: "cnode_preemption_point (?z (Suc k) s) = Some (Inr (), s1)"
      and r: "reset_chunks src base (of_nat (k * 256)) s1 = Some (Inr (), s')"
      using Suc.prems(1) nz m by (subst (asm) reset_chunks.simps) (auto simp: try_bind_eq_Some simp del: of_nat_mult mult_Suc)
    have "freed_to src 0 Z s1 s'" using Suc.IH [OF r] Suc.prems(2) by simp
    then show ?case
      using freed_to_trans freed_to_cong [OF step [OF Suc.prems(2)] preemption_point_ctes [OF p]] by blast
  }
qed

lemma unat_shl:
  assumes "n < 64" "unat x * 2 ^ n < 2 ^ 64"
  shows "unat (shl64 x n) = unat x * 2 ^ n"
proof -
  have "unat (push_bit n x) = (unat x * 2 ^ n) mod 2 ^ 64"
    unfolding unsigned_push_bit_eq by (simp add: take_bit_eq_mod push_bit_eq_mult)
  then show ?thesis using assms by simp
qed

text \<open>The addresses of an untyped region that no child occupies.\<close>

definition free_range :: "cap \<Rightarrow> bool \<Rightarrow> u64 set" where
  "free_range c has_children =
     {a. (if has_children then 16 * unat (untyped_free_index c) else 0) \<le> unat (a - untyped_ptr c) \<and>
         unat (a - untyped_ptr c) < 2 ^ unat (untyped_block_size_bits c)}"

lemma untyped_fields: "unat (untyped_block_size_bits c) < 64" "unat (untyped_free_index c) < 2 ^ 39"
  using unat_bits_get_less [of 6 0 "words1 c"] unat_bits_get_less [of 39 25 "words1 c"]
  by (simp_all add: untyped_block_size_bits_def untyped_free_index_def)

lemma reset_untyped_effect:
  assumes "reset_untyped_cap_for_retype src (untyped_ptr c) (untyped_block_size_bits c) (untyped_free_index c) dev s = Some (Inr (), s')"
    and "untyped_free_index c \<noteq> 0" "16 * unat (untyped_free_index c) \<le> 2 ^ unat (untyped_block_size_bits c)"
  shows "freed_to src 0 (free_range c False) s s'"
proof (cases "dev \<or> untyped_block_size_bits c < RESET_CHUNK_BITS")
  case True
  let ?n = "shl64 1 (unat (untyped_block_size_bits c))"
  have n: "unat ?n = 2 ^ unat (untyped_block_size_bits c)" by (rule shl_one [OF untyped_fields(1)])
  have "freed_to src 0 (free_range c False) s (set_slot_free_index src 0 (zero_bytes (untyped_ptr c) ?n s))"
    using n by (intro freed_to_zeroed) (simp add: in_bytes_def free_range_def word_less_nat_alt)
  then show ?thesis using True assms(1,2) freed_to_set [of src 0 "free_range c False" s]
    by (auto simp: reset_untyped_cap_for_retype_def Let_def succeed_def split: if_splits)
next
  case False
  let ?fi = "unat (untyped_free_index c)" and ?b = "unat (untyped_block_size_bits c)"
  have "(2 :: nat) ^ 8 dvd 2 ^ ?b" using False by (intro le_imp_power_dvd) (simp add: word_less_nat_alt RESET_CHUNK_BITS_def)
  then obtain m where m: "(2 :: nat) ^ ?b = 256 * m" by (auto elim: dvdE)
  define k where "k = (16 * ?fi - 1) div 256"
  have fi: "0 < ?fi" using assms(2) by (simp add: unat_gt_0)
  have u: "unat (shl64 (untyped_free_index c) 4) = 16 * ?fi"
    using unat_shl [of 4 "untyped_free_index c"] untyped_fields(2) [of c] by simp
  have "unat (shl64 (untyped_free_index c) 4 - 1) = 16 * ?fi - 1"
    using u fi unat_sub [of 1 "shl64 (untyped_free_index c) 4"] by (simp add: word_le_nat_alt del: shl64_small)
  then have al: "unat (align_down (shl64 (untyped_free_index c) 4 - 1) RESET_CHUNK_BITS) = k * 256"
    by (simp add: align_down_def Let_def RESET_CHUNK_BITS_def shl_mask unat_align_down k_def del: shl64_small)
  have off: "align_down (shl64 (untyped_free_index c) 4 - 1) RESET_CHUNK_BITS = of_nat (k * 256)"
    using al unat_of_nat64 [of "k * 256"] unat64_less [of "align_down (shl64 (untyped_free_index c) 4 - 1) RESET_CHUNK_BITS"]
    by (simp add: word_unat_eq_iff del: shl64_small)
  have "k < m" unfolding k_def using assms(3) fi m by (intro div_less_iff_less_mult [THEN iffD2]) simp_all
  then have "k * 256 + 256 \<le> 2 ^ ?b" using m by simp
  moreover have "(2 :: nat) ^ ?b < 2 ^ 64" using untyped_fields(1) by (intro power_strict_increasing) simp_all
  moreover have "reset_chunks src (untyped_ptr c) (of_nat (k * 256)) s = Some (Inr (), s')"
    using assms(1,2) False off
    by (simp add: reset_untyped_cap_for_retype_def Let_def SEL4_MIN_UNTYPED_BITS_def del: shl64_small of_nat_mult)
  ultimately show ?thesis by (intro reset_chunks_effect) (auto simp: free_range_def)
qed

lemma ensure_empty_slots_state: "ensure_empty_slots dest is s = Some (r, s') \<Longrightarrow> s' = s"
  by (induction "is") (auto simp: succeed_def fail_def split: option.splits if_splits)

lemma try_bind_unitE:
  assumes "try_bind m f = Some (Inr a, s')"
  obtains s1 where "m = Some (Inr (), s1)" "f () s1 = Some (Inr a, s')"
  using assms by (auto simp: try_bind_eq_Some)

text \<open>The arithmetic of an allocation that fits: it does not wrap around.\<close>

lemma allocation_fits:
  assumes "unat used < 2 ^ 43" "unat bits \<le> 38" "n \<le> 256" "b < 64"
    and "\<not> shl64 1 b < saturating_add64 (align_up used bits) (shl64 (of_nat n) (unat bits))"
  defines "off \<equiv> unat (align_up used bits)"
  shows "2 ^ unat bits dvd off" "unat used \<le> off" "off + n * 2 ^ unat bits \<le> 2 ^ b"
    "unat (shl64 (of_nat n) (unat bits)) = n * 2 ^ unat bits"
    "i \<le> n \<Longrightarrow> align_up used bits + shl64 (of_nat i) (unat bits) = of_nat (off + i * 2 ^ unat bits)"
    "off + n * 2 ^ unat bits < 2 ^ 64"
proof -
  note a = align_up_spec [OF assms(2,1)]
  have p: "(2 :: nat) ^ unat bits \<le> 2 ^ 38" using assms(2) by (intro power_increasing) simp_all
  have small: "i * 2 ^ unat bits \<le> 2 ^ 46" if "i \<le> n" for i
    using mult_le_mono [of i "2 ^ 8" "2 ^ unat bits" "2 ^ 38"] that assms(3) p by simp
  have sh: "unat (shl64 (of_nat i) (unat bits)) = i * 2 ^ unat bits" if "i \<le> n" for i
    using unat_shl [of "unat bits" "of_nat i"] small [OF that] that assms(2,3) by (simp add: unat_of_nat64)
  show "2 ^ unat bits dvd off" "unat used \<le> off" using a by (simp_all add: off_def)
  show "unat (shl64 (of_nat n) (unat bits)) = n * 2 ^ unat bits" using sh by simp
  have nw: "off + i * 2 ^ unat bits < 2 ^ 64" if "i \<le> n" for i
    using a(3) small [OF that] by (simp add: off_def)
  then show "off + n * 2 ^ unat bits < 2 ^ 64" by simp
  have add: "unat (align_up used bits + shl64 (of_nat i) (unat bits)) = off + i * 2 ^ unat bits" if "i \<le> n" for i
    using nw [OF that] sh [OF that] by (simp add: unat_plus_if' off_def)
  then show "i \<le> n \<Longrightarrow> align_up used bits + shl64 (of_nat i) (unat bits) = of_nat (off + i * 2 ^ unat bits)"
    using nw by (simp add: word_unat_eq_iff unat_of_nat64 del: of_nat_add of_nat_mult)
  show "off + n * 2 ^ unat bits \<le> 2 ^ b"
    using assms(5) nw [of n] sh [of n] add [of n] shl_one [OF assms(4)]
    by (simp add: saturating_add64_def word_less_nat_alt off_def del: shl64_small split: if_splits)
qed

lemma object_in_range:
  assumes "in_bytes (base + of_nat (off + i * 2 ^ n)) (shl64 1 n) x" "i < k" "n < 64"
    and "off + k * 2 ^ n \<le> 2 ^ b" "b < 64" "lo \<le> off"
  shows "lo \<le> unat (x - base) \<and> unat (x - base) < 2 ^ b"
proof -
  have "Suc i * 2 ^ n \<le> k * 2 ^ n" using assms(2) by (intro mult_le_mono1) simp
  then have le: "off + i * 2 ^ n + 2 ^ n \<le> 2 ^ b" using assms(4) by simp
  have b: "(2 :: nat) ^ b < 2 ^ 64" using assms(5) by (intro power_strict_increasing) simp_all
  have u: "unat (of_nat (off + i * 2 ^ n) :: u64) = off + i * 2 ^ n" using le b by (intro unat_of_nat64) simp
  show ?thesis
    using in_bytes_offset [OF assms(1)] le b assms(6) by (simp only: u shl_one [OF assms(3)]) simp
qed

text \<open>What a retype must leave: objects of \<open>2 ^ n\<close> bytes side by side at offset \<open>off\<close> of the region.\<close>

definition carved :: "cap \<Rightarrow> object_type \<Rightarrow> u64 \<Rightarrow> (nat \<Rightarrow> u64) \<Rightarrow> nat \<Rightarrow> u64 \<Rightarrow> nat \<Rightarrow> cte_heap \<Rightarrow> bool" where
  "carved c ty user_size d k src off h \<longleftrightarrow>
     slot_cap h src = set_untyped_free_index (of_nat ((off + k * 2 ^ unat (size_bits ty user_size)) div 16)) c \<and>
     (\<forall>i<k. slot_cap h (d i) =
        create_cap ty (untyped_ptr c + of_nat (off + i * 2 ^ unat (size_bits ty user_size))) user_size (untyped_is_device c))"

lemma freed_to_list:
  assumes "freed_to src v Z s s'" "mdb_list (ctes s) xs" "set xs \<inter> Z = {}"
  shows "mdb_list (ctes s') xs"
proof (rule mdb_list_agree [OF assms(2)])
  fix x assume "x \<in> set xs"
  then have "x \<notin> Z" using assms(3) by blast
  then show "cte_mdb (ctes s' x) = cte_mdb (ctes s x)" using assms(1) by (simp add: freed_to_def)
qed

lemma install_objects_carve:
  assumes "install_objects dest src ty (untyped_ptr c + start) bits user_size (untyped_is_device c) [0..<k] s2 = Some (Inr (), s')"
    and fit: "\<And>i. i \<le> k \<Longrightarrow> start + shl64 (of_nat i) (unat bits) = of_nat (off + i * 2 ^ unat bits)"
      "off + k * 2 ^ unat bits \<le> 2 ^ unat (untyped_block_size_bits c)"
    and bits: "bits = size_bits ty user_size" "unat bits < 64"
    and lo: "hc \<Longrightarrow> 16 * unat (untyped_free_index c) \<le> off"
    and l: "mdb_list (ctes s2) (as @ src # bs)" "set (as @ src # bs) \<inter> free_range c hc = {}"
    and d: "\<And>i. i < k \<Longrightarrow> cte_addr_ok (d i) \<and> d i \<notin> free_range c hc \<and> dest i = Some (d i)"
    and fi: "slot_cap (ctes s2) src = set_untyped_free_index (of_nat ((off + k * 2 ^ unat bits) div 16)) c"
  shows "carved c ty user_size d k src off (ctes s') \<and> mdb_list (ctes s') (as @ src # rev (map d [0..<k]) @ bs) \<and>
    mdb_revocable (slot_mdb (ctes s') src) = mdb_revocable (slot_mdb (ctes s2) src)"
proof -
  have base: "untyped_ptr c + start + shl64 (of_nat i) (unat bits) = untyped_ptr c + of_nat (off + i * 2 ^ unat bits)"
    if "i < k" for i using fit(1) [of i] that by (simp add: add.assoc)
  have init: "ctes (init_object ty (untyped_ptr c + start + shl64 (of_nat i) (unat bits)) s) x = ctes s x"
    if "i \<in> set [0..<k]" "x \<notin> free_range c hc" for i s x
  proof (rule init_object_ctes)
    have i: "i < k" using that by simp
    have lo': "(if hc then 16 * unat (untyped_free_index c) else 0) \<le> off" using lo by simp
    show "\<not> in_bytes (untyped_ptr c + start + shl64 (of_nat i) (unat bits)) (shl64 1 (unat (size_bits ty user_size))) x"
      using object_in_range [OF _ i bits(2) fit(2) untyped_fields(1) lo', of "untyped_ptr c" x] that(2)
      unfolding base [OF i] bits(1) [symmetric] free_range_def by blast
  qed
  have dd: "cte_addr_ok (d i) \<and> d i \<notin> free_range c hc \<and> dest i = Some (d i)" if "i \<in> set [0..<k]" for i
    using d that by simp
  note eff = install_objects_effect [OF assms(1) l dd init]
  have "src \<notin> free_range c hc" "src \<notin> d ` set [0..<k]" using l(2) eff by auto
  then have "slot_cap (ctes s') src = slot_cap (ctes s2) src"
    "mdb_revocable (slot_mdb (ctes s') src) = mdb_revocable (slot_mdb (ctes s2) src)" using eff by blast+
  moreover have "slot_cap (ctes s') (d i) = create_cap ty (untyped_ptr c + of_nat (off + i * 2 ^ unat bits)) user_size (untyped_is_device c)"
    if "i < k" for i unfolding base [OF that, symmetric] using eff that by simp
  ultimately show ?thesis using eff fi by (simp add: carved_def bits(1))
qed

lemma retype_objects_effect:
  assumes ok: "retype_objects dest k src c ty bits user_size s = Some (Inr (), s')"
    and bits: "bits = size_bits ty user_size" "unat bits \<le> 38" "k \<le> 256"
    and c: "slot_cap (ctes s) src = c" "16 * unat (untyped_free_index c) \<le> 2 ^ unat (untyped_block_size_bits c)"
    and l: "mdb_list (ctes s) (as @ src # bs)" "set (as @ src # bs) \<inter> free_range c (mdb_has_children (ctes s) src) = {}"
    and d: "\<And>i. i < k \<Longrightarrow> cte_addr_ok (d i) \<and> d i \<notin> free_range c (mdb_has_children (ctes s) src) \<and> dest i = Some (d i)"
  shows "\<exists>off. 2 ^ unat bits dvd off \<and> (mdb_has_children (ctes s) src \<longrightarrow> 16 * unat (untyped_free_index c) \<le> off) \<and>
    off + k * 2 ^ unat bits \<le> 2 ^ unat (untyped_block_size_bits c) \<and>
    carved c ty user_size d k src off (ctes s') \<and> mdb_list (ctes s') (as @ src # rev (map d [0..<k]) @ bs) \<and>
    mdb_revocable (slot_mdb (ctes s') src) = mdb_revocable (slot_mdb (ctes s) src)"
proof -
  let ?hc = "mdb_has_children (ctes s) src" and ?fi = "untyped_free_index c"
  let ?Z = "free_range c ?hc"
  define used where "used = shl64 (if ?hc then ?fi else 0) 4"
  let ?start = "align_up used bits" and ?total = "shl64 (of_nat k) (unat bits)"
  have used: "unat used = (if ?hc then 16 * unat ?fi else 0)" "unat used < 2 ^ 43"
    using unat_shl [of 4 ?fi] untyped_fields(2) [of c] by (simp_all add: used_def)
  have e: "ensure_empty_slots dest [0..<k] s = Some (Inr (), s)"
    using ok by (auto simp: retype_objects_def Let_def try_bind_eq_Some dest: ensure_empty_slots_state)
  note body = ok [unfolded retype_objects_def Let_def e try_bind_simps, folded used_def]
  have fits: "\<not> shl64 1 (unat (untyped_block_size_bits c)) < saturating_add64 ?start ?total"
    using body by (rule contrapos_pn) (simp add: fail_def)
  have dev: "\<not> (untyped_is_device c \<and> \<not> device_untyped_retype_allowed ty)"
    using body fits by (metis (no_types, lifting) fail_def option.inject prod.inject sum.distinct(1))
  obtain s1 where reset: "(if \<not> ?hc \<and> ?fi \<noteq> 0 then reset_untyped_cap_for_retype src (untyped_ptr c)
        (untyped_block_size_bits c) ?fi (untyped_is_device c) s else succeed () s) = Some (Inr (), s1)"
    and inst: "install_objects dest src ty (untyped_ptr c + ?start) bits user_size (untyped_is_device c) [0..<k]
        (if \<not> untyped_is_device c then zero_bytes (untyped_ptr c + ?start) ?total
           (set_slot_free_index src (shr64 (?start + ?total) 4) s1)
         else set_slot_free_index src (shr64 (?start + ?total) 4) s1) = Some (Inr (), s')"
    using try_bind_unitE [OF body [unfolded if_not_P [OF fits] if_not_P [OF dev]]] by blast
  note fit = allocation_fits [OF used(2) bits(2,3) untyped_fields(1) fits]
  let ?off = "unat ?start" and ?v = "shr64 (?start + ?total) 4"
  have v: "?v = of_nat ((?off + k * 2 ^ unat bits) div 16)"
    using fit(5) [of k] fit(6) by (simp add: word_unat_eq_iff unat_drop_bit unat_of_nat64 del: of_nat_add of_nat_mult)
  have "s1 = s \<or> freed_to src 0 ?Z s s1"
    using reset reset_untyped_effect [OF _ _ c(2)] by (auto simp: succeed_def split: if_splits)
  then have "freed_to src ?v ?Z s (set_slot_free_index src ?v s1)"
    using freed_to_set freed_to_trans by blast
  moreover have "x \<in> ?Z" if "in_bytes (untyped_ptr c + ?start) ?total x" for x
    using in_bytes_offset [OF that] fit(2,3,4,6) used(1) by (auto simp: free_range_def split: if_splits)
  ultimately have fr: "freed_to src ?v ?Z s (if \<not> untyped_is_device c then
      zero_bytes (untyped_ptr c + ?start) ?total (set_slot_free_index src ?v s1)
    else set_slot_free_index src ?v s1)" (is "freed_to _ _ _ _ ?s2")
    by (cases "untyped_is_device c") (simp_all add: freed_to_zero)
  have "src \<notin> ?Z" using l(2) by auto
  then have "slot_cap (ctes ?s2) src = set_untyped_free_index (of_nat ((?off + k * 2 ^ unat bits) div 16)) c"
    using fr c(1) v by (simp add: freed_to_def slot_cap_def)
  moreover have "mdb_revocable (slot_mdb (ctes ?s2) src) = mdb_revocable (slot_mdb (ctes s) src)"
    using fr \<open>src \<notin> ?Z\<close> by (simp add: freed_to_def slot_mdb_def)
  moreover have lo: "?hc \<Longrightarrow> 16 * unat ?fi \<le> ?off" using fit(2) used(1) by simp
  moreover have "unat bits < 64" using bits(2) by simp
  ultimately show ?thesis
    using install_objects_carve [OF inst fit(5,3) bits(1) _ lo freed_to_list [OF fr l] l(2) d] fit(1,3)
    by (intro exI [of _ ?off]) auto
qed

section \<open>What the new capabilities say\<close>

fun object_view :: "object_type \<Rightarrow> u64 \<Rightarrow> u64 \<Rightarrow> bool \<Rightarrow> cap_view" where
  "object_view ObUntyped p user_size d = VUntyped p user_size 0 d"
| "object_view ObCapTable p user_size d = VCNode p user_size 0 0"
| "object_view ObTcb p user_size d = VThread p"
| "object_view ObEndpoint p user_size d = VEndpoint p 0 True True True True"
| "object_view ObNotification p user_size d = VNotification p 0 True True"
| "object_view ObFourKPage p user_size d = VFrame p FRAME_SIZE_4K FRAME_RIGHTS_READ_WRITE d 0 0"
| "object_view ObMegaPage p user_size d = VFrame p FRAME_SIZE_MEGAPAGE FRAME_RIGHTS_READ_WRITE d 0 0"
| "object_view ObGigaPage p user_size d = VFrame p FRAME_SIZE_GIGAPAGE FRAME_RIGHTS_READ_WRITE d 0 0"
| "object_view ObPageTable p user_size d = VPageTable p False 0 0"

lemma validated_sizes:
  assumes "validate_retype_object_size thread raw user_size s = Some (Inr (ty, bits), s')"
  shows "s' = s" "object_type_from_raw raw = Some ty" "bits = size_bits ty user_size" "unat user_size < 64"
    "4 \<le> unat bits" "unat bits \<le> 38"
proof -
  obtain s1: "s' = s" and ty: "object_type_from_raw raw = Some ty" and bits: "bits = size_bits ty user_size"
    and us: "\<not> of_nat WORD_BITS \<le> user_size" and hi: "\<not> SEL4_MAX_UNTYPED_BITS < bits"
    and lo: "ty = ObUntyped \<longrightarrow> \<not> user_size < SEL4_MIN_UNTYPED_BITS"
    using assms by (auto simp: validate_retype_object_size_def Let_def fail_def fail_range_def succeed_def
        split: option.splits if_splits)
  show "s' = s" "object_type_from_raw raw = Some ty" "bits = size_bits ty user_size" by fact+
  show us': "unat user_size < 64" using us by (simp add: WORD_BITS_def word_le_nat_alt)
  show "unat bits \<le> 38" using hi by (simp add: SEL4_MAX_UNTYPED_BITS_def word_less_nat_alt)
  show "4 \<le> unat bits"
    using us' lo unfolding bits
    by (cases ty) (simp_all add: SEL4_TCB_BITS_def SEL4_ENDPOINT_BITS_def SEL4_NOTIFICATION_BITS_def SEL4_SLOT_BITS_def
        SEL4_MIN_UNTYPED_BITS_def word_less_nat_alt unat_plus_if')
qed

lemma mask_of_dvd:
  fixes p :: u64
  assumes "2 ^ n dvd unat p"
  shows "p AND mask n = 0"
proof -
  have "unat (take_bit n p) = take_bit n (unat p)" by (simp only: unsigned_take_bit_eq)
  then have "unat (take_bit n p) = 0" using assms by (simp only: take_bit_eq_mod dvd_eq_mod_eq_0)
  then show ?thesis by (simp add: take_bit_eq_mask [symmetric] word_unat_eq_iff)
qed

lemma aligned_region:
  assumes "n < 64" "2 ^ n dvd unat (p :: u64)"
  shows "unat p + 2 ^ n \<le> 2 ^ 64"
proof -
  have "(2 :: nat) ^ n dvd 2 ^ 64" using assms(1) by (intro le_imp_power_dvd) simp
  then obtain k where k: "unat p = 2 ^ n * k" "(2 :: nat) ^ 64 = 2 ^ n * (2 ^ 64 div 2 ^ n)" using assms(2) by (auto elim: dvdE)
  have "unat p < 2 ^ 64" using unat64_less [of p] by simp
  then have "k < 2 ^ 64 div 2 ^ n" using k by (metis mult_less_cancel1)
  then have "2 ^ n * Suc k \<le> 2 ^ 64" using k(2) by (metis Suc_leI mult_le_mono2)
  then show ?thesis using k(1) by simp
qed

lemma unat_region_top:
  assumes "unat bits < 64" "2 ^ unat bits dvd unat p"
  shows "unat (region_top p bits) = unat p + (2 ^ unat bits - 1)"
proof -
  let ?n = "unat bits"
  have n: "\<not> 64 \<le> bits" using assms(1) by (simp add: word_le_nat_alt)
  have "unat (region_mask bits) = 2 ^ ?n - 1"
    using assms(1) n shl_one [of ?n] unat_sub [of 1 "shl64 1 ?n"] by (simp add: region_mask_def word_le_nat_alt)
  then show ?thesis using aligned_region [OF assms] by (simp add: region_top_def unat_plus_if')
qed

lemma region_top_no_wrap:
  assumes "unat bits \<le> 38" "2 ^ unat bits dvd unat p"
  shows "p \<le> region_top p bits"
  using unat_region_top [OF _ assms(2)] assms(1) unfolding word_le_nat_alt by (simp only: le_add1)

text \<open>An object that was carved out of an aligned region of the kernel window.\<close>

lemma carved_object_inside:
  assumes "2 ^ unat b dvd unat base" "unat b < 64" "0xFFFFFFC000000000 \<le> base"
    and "off + k * 2 ^ unat n \<le> 2 ^ unat b" "i < k" "2 ^ unat n dvd off" "unat n \<le> 38"
  defines "p \<equiv> base + of_nat (off + i * 2 ^ unat n)"
  shows "canonical_ptr p" "2 ^ unat n dvd unat p" "base \<le> p" "region_top p n \<le> region_top base b"
proof -
  have "Suc i * 2 ^ unat n \<le> k * 2 ^ unat n" using assms(5) by (intro mult_le_mono1) simp
  then have le: "off + i * 2 ^ unat n + 2 ^ unat n \<le> 2 ^ unat b" using assms(4) by simp
  note top = aligned_region [OF assms(2,1)]
  have pos: "0 < (2 :: nat) ^ unat n" by simp
  have lt: "unat base + (off + i * 2 ^ unat n) < 2 ^ 64" using le top pos by linarith
  then have "unat (of_nat (off + i * 2 ^ unat n) :: u64) = off + i * 2 ^ unat n" by (intro unat_of_nat64) linarith
  then have u: "unat p = unat base + (off + i * 2 ^ unat n)" unfolding p_def using lt by (simp only: unat_plus_if') simp
  then show base: "base \<le> p" by (simp add: word_le_nat_alt)
  then show "canonical_ptr p" using assms(3) by (intro canonical_kernel_window) simp
  have "(2 :: nat) ^ unat n \<le> 2 ^ unat b" using le by linarith
  then have "2 ^ unat n dvd unat base" using assms(1) by (meson dvd_trans le_imp_power_dvd power_le_imp_le_exp one_less_numeral_iff semiring_norm(76))
  then show al: "2 ^ unat n dvd unat p" unfolding u using assms(6) by simp
  show "region_top p n \<le> region_top base b"
    using unat_region_top [OF _ al] unat_region_top [OF assms(2,1)] assms(7) u le pos
    unfolding word_le_nat_alt by linarith
qed

lemma created_cap_decodes:
  assumes v: "validate_retype_object_size thread raw user_size s = Some (Inr (ty, bits), s')"
    and p: "canonical_ptr p" "2 ^ unat bits dvd unat p"
  shows "cap_decode (create_object_cap ty p user_size d) = Some (object_view ty p user_size d)"
    "physical_cap_region (create_object_cap ty p user_size d) = Some (p, bits)"
proof -
  note sz = validated_sizes [OF v]
  have us: "user_size AND mask 6 = user_size" using sz(4) by (intro word_and_mask_small) simp
  have "2 ^ 1 dvd unat p" using sz(5) by (intro dvd_trans [OF le_imp_power_dvd p(2)]) simp
  then have p1: "p AND mask 1 = 0" by (rule mask_of_dvd)
  show dec: "cap_decode (create_object_cap ty p user_size d) = Some (object_view ty p user_size d)"
    using p(1) p1 us by (cases ty) (simp_all add: create_object_cap_def decode_untyped decode_cnode decode_thread decode_endpoint
        decode_notification decode_frame decode_page_table FRAME_SIZE_4K_def FRAME_SIZE_MEGAPAGE_def FRAME_SIZE_GIGAPAGE_def
        FRAME_RIGHTS_READ_WRITE_def mask_eq_exp_minus_1)
  show "physical_cap_region (create_object_cap ty p user_size d) = Some (p, bits)"
    using dec cap_decode_tag [OF dec] unfolding sz(3)
    by (cases ty) (simp_all add: cap_decode_def physical_cap_region_def frame_size_bits_def FRAME_SIZE_4K_def
        FRAME_SIZE_MEGAPAGE_def FRAME_SIZE_GIGAPAGE_def SEL4_PAGE_TABLE_BITS_def)
qed

text \<open>
  C16: The capability that retyping creates has the type of the object and describes it exactly. For every request that
  passes validation and every aligned address, its words decode to the kind that was asked for, with the full rights
  and no mapping, guard or badge; the memory it covers is the object and does not wrap around; and an untyped
  capability that may have children is its parent in the derivation tree as soon as the object lies in its memory.
\<close>

theorem created_caps_describe_objects:
  assumes "validate_retype_object_size thread raw user_size s = Some (Inr (ty, bits), s')"
    and "canonical_ptr p" "2 ^ unat bits dvd unat p"
    and "mdb_revocable (cte_mdb parent)" "tag (cte_cap parent) = Some TagUntyped" "untyped_ptr (cte_cap parent) \<le> p"
    and "region_top p bits \<le> region_top (untyped_ptr (cte_cap parent)) (untyped_block_size_bits (cte_cap parent))"
    and "cte_cap child = create_object_cap ty p user_size d"
  shows "object_type_from_raw raw = Some ty \<and> cap_decode (cte_cap child) = Some (object_view ty p user_size d) \<and>
    physical_cap_region (cte_cap child) = Some (p, size_bits ty user_size) \<and> p \<le> region_top p (size_bits ty user_size) \<and>
    mdb_parent_of parent child"
proof -
  note sz = validated_sizes [OF assms(1)] and dec = created_cap_decodes [OF assms(1-3), of d]
  have top: "p \<le> region_top p bits" by (rule region_top_no_wrap [OF sz(6) assms(3)])
  have "tag (cte_cap child) \<noteq> None" using cap_decode_tag [OF dec(1)] assms(8) by simp
  then have "mdb_parent_of parent child" using assms(4-8) dec(2) top by (auto simp: mdb_parent_of_def Let_def)
  then show ?thesis using sz(2) dec assms(8) top unfolding sz(3) by simp
qed

definition used_untyped :: cap where "used_untyped = new_untyped 0xFFFFFFC084000000 16 16 False"

lemma small_cnode_validated:
  "validate_retype_object_size thr_a 4 4 s = Some (Inr (ObCapTable, 9), s)"
  by (simp add: validate_retype_object_size_def object_type_from_raw_def Let_def succeed_def WORD_BITS_def SEL4_SLOT_BITS_def
      SEL4_MAX_UNTYPED_BITS_def)

theorem created_caps_describe_objects_witness:
  "cap_decode (create_object_cap ObCapTable 0xFFFFFFC084001000 4 False) = Some (VCNode 0xFFFFFFC084001000 4 0 0) \<and>
   mdb_parent_of \<lparr> cte_cap = used_untyped, cte_mdb = mdb_new 0 0 True False \<rparr>
     \<lparr> cte_cap = create_object_cap ObCapTable 0xFFFFFFC084001000 4 False, cte_mdb = mdb_null \<rparr>"
proof -
  let ?parent = "\<lparr> cte_cap = used_untyped, cte_mdb = mdb_new 0 0 True False \<rparr>"
  let ?child = "\<lparr> cte_cap = create_object_cap ObCapTable 0xFFFFFFC084001000 4 False, cte_mdb = mdb_null \<rparr>"
  have p: "canonical_ptr 0xFFFFFFC084001000" by (rule canonical_kernel_window) simp
  have "mdb_revocable (cte_mdb ?parent)" "tag (cte_cap ?parent) = Some TagUntyped" "untyped_ptr (cte_cap ?parent) \<le> 0xFFFFFFC084001000"
    "region_top 0xFFFFFFC084001000 9 \<le> region_top (untyped_ptr (cte_cap ?parent)) (untyped_block_size_bits (cte_cap ?parent))"
    by code_simp+
  from created_caps_describe_objects [OF small_cnode_validated p _ this, of ?child False] show ?thesis by simp
qed

section \<open>Retyping carves free memory\<close>

text \<open>The number of objects a retype asks for and the slots their capabilities go to.\<close>

definition retype_count :: "kstate \<Rightarrow> nat" where
  "retype_count s = unat (snd (read_mrs_4_5 s))"

definition retype_slot :: "u64 \<times> nat \<Rightarrow> kstate \<Rightarrow> nat \<Rightarrow> u64" where
  "retype_slot cnode s i = fst cnode + of_nat ((unat (fst (read_mrs_4_5 s)) + i) * 32)"

lemma validate_SomeD:
  assumes "validate_retype_object_size thread raw user_size s = Some (Inr (ty, bits), s')"
  shows "object_type_from_raw raw = Some ty" "bits = size_bits ty user_size" "unat bits \<le> 38" "s' = s"
  using assms
  by (auto simp: validate_retype_object_size_def Let_def fail_def fail_range_def succeed_def SEL4_MAX_UNTYPED_BITS_def
      word_less_nat_alt split: option.splits if_splits)

lemma window_SomeD:
  assumes "retype_window thread dc off w s = Some (Inr cnode, s')"
  shows "as_cnode dc = Some cnode" "s' = s" "unat w \<le> 256" "unat off + unat w \<le> snd cnode"
proof -
  let ?n = "shl64 1 (unat (cnode_radix dc))"
  have h: "as_cnode dc = Some cnode" "s' = s" "off < ?n" "\<not> RETYPE_FAN_OUT_LIMIT < w" "\<not> ?n - off < w"
    using assms
    by (auto simp: retype_window_def Let_def fail_def fail_range_def succeed_def simp del: shl64_small split: option.splits if_splits)
  show "as_cnode dc = Some cnode" "s' = s" by (fact h)+
  show "unat w \<le> 256" using h(4) by (simp add: RETYPE_FAN_OUT_LIMIT_def word_less_nat_alt)
  have "unat (?n - off) = unat ?n - unat off" using h(3) by (intro unat_sub) simp
  moreover have "unat off < unat ?n" using h(3) by (simp add: word_less_nat_alt)
  moreover have "snd cnode = unat ?n" using h(1) by (auto simp: as_cnode_def split: if_splits Option.bind_splits)
  ultimately show "unat off + unat w \<le> snd cnode" using h(5) by (simp add: word_less_nat_alt)
qed

lemma dest_slot_in_window:
  assumes "unat off + k \<le> snd cnode" "snd cnode < 2 ^ 64" "i < k"
    and "fst cnode + of_nat ((unat off + i) * 32) \<noteq> 0"
  shows "dest_slot cnode off i = Some (fst cnode + of_nat ((unat off + i) * 32))"
proof -
  have "unat (off + of_nat i) = unat off + i"
    using assms(1-3) by (simp add: unat_plus_if' unat_of_nat64)
  then show ?thesis using assms by (simp add: dest_slot_def objarray_get_def from_kva_def)
qed

lemma retype_dest_state: "retype_dest_cnode_cap thread r i d s = Some (x, s') \<Longrightarrow> s' = s"
proof -
  assume a: "retype_dest_cnode_cap thread r i d s = Some (x, s')"
  then obtain y s1 where y: "or_error (lookup_cap s thread r) InvalidCapability s = Some (y, s1)"
    unfolding retype_dest_cnode_cap_def by (auto simp: try_bind_eq_Some)
  moreover have "s1 = s" using decode_message_state(1) [OF y] .
  ultimately show "s' = s" using a decode_message_state(2)
    unfolding retype_dest_cnode_cap_def by (auto simp: try_bind_eq_Some succeed_def split: if_splits)
qed

lemma handle_untyped_retypes:
  assumes ok: "handle_untyped thread src c label_id len s = Some (Inr (), s')"
    and dest: "retype_dest_cnode_cap thread (read_extra_cap s 0) (mr (tcb_context (tcbs s thread)) 2)
      (mr (tcb_context (tcbs s thread)) 3) s = Some (Inr dc, s)" "as_cnode dc = Some cnode"
  obtains ty bits where "object_type_from_raw (mr (tcb_context (tcbs s thread)) 0) = Some ty"
    "bits = size_bits ty (mr (tcb_context (tcbs s thread)) 1)" "unat bits \<le> 38" "retype_count s \<le> 256"
    "unat (fst (read_mrs_4_5 s)) + retype_count s \<le> snd cnode"
    "retype_objects (dest_slot cnode (fst (read_mrs_4_5 s))) (retype_count s) src c ty bits
       (mr (tcb_context (tcbs s thread)) 1) s = Some (Inr (), s')"
    "validate_retype_object_size thread (mr (tcb_context (tcbs s thread)) 0) (mr (tcb_context (tcbs s thread)) 1) s =
       Some (Inr (ty, bits), s)"
proof -
  let ?uc = "tcb_context (tcbs s thread)" and ?off = "fst (read_mrs_4_5 s)" and ?w = "snd (read_mrs_4_5 s)"
  have ex: "require_extra_caps thread 1 s = Some (Inr (), s)"
    using ok by (auto simp: handle_untyped_def fail_def try_bind_eq_Some split: if_splits dest: decode_message_state(5))
  note body = ok [unfolded handle_untyped_def ex try_bind_simps Let_def split_beta]
  obtain ty bits s0 where v: "validate_retype_object_size thread (mr ?uc 0) (mr ?uc 1) s = Some (Inr (ty, bits), s0)"
    and r1: "try_bind (retype_dest_cnode_cap thread (read_extra_cap s0 0) (mr ?uc 2) (mr ?uc 3) s0) (\<lambda>dest_cnode_cap s1.
        try_bind (retype_window thread dest_cnode_cap ?off ?w s1) (\<lambda>cnode s2.
        retype_objects (dest_slot cnode ?off) (unat ?w) src c ty bits (mr ?uc 1) s2)) = Some (Inr (), s')"
    using body by (auto simp: fail_def try_bind_Inr [of "validate_retype_object_size _ _ _ _"] split_beta split: if_splits)
  have s0: "s0 = s" by (rule validate_SomeD(4) [OF v])
  obtain cn where w: "retype_window thread dc ?off ?w s = Some (Inr cn, s)"
    and r2: "retype_objects (dest_slot cn ?off) (unat ?w) src c ty bits (mr ?uc 1) s = Some (Inr (), s')"
    using r1 by (auto simp: s0 dest try_bind_eq_Some dest: window_SomeD(2))
  have "cn = cnode" using window_SomeD(1) [OF w] dest(2) by simp
  then show ?thesis
    using that validate_SomeD [OF v] window_SomeD [OF w] r2 v s0 by (auto simp: retype_count_def)
qed

text \<open>The region of an untyped capability is aligned to its size and lies in the kernel window.\<close>

definition untyped_region_ok :: "cap \<Rightarrow> bool" where
  "untyped_region_ok c \<longleftrightarrow> tag c = Some TagUntyped \<and> 2 ^ unat (untyped_block_size_bits c) dvd unat (untyped_ptr c) \<and>
     PPTR_BASE \<le> untyped_ptr c"

lemma free_index_sel:
  "untyped_ptr (set_untyped_free_index v c) = untyped_ptr c"
  "untyped_block_size_bits (set_untyped_free_index v c) = untyped_block_size_bits c"
  by (auto simp: set_untyped_free_index_def untyped_ptr_def untyped_block_size_bits_def bits_set_def bits_get_def
      bits_clear_def bits_put_def bit_simps intro!: bit_word_eqI)

lemma carved_children:
  assumes v: "validate_retype_object_size thread raw user_size s = Some (Inr (ty, bits), s')"
    and off: "2 ^ unat bits dvd off" "off + k * 2 ^ unat bits \<le> 2 ^ unat (untyped_block_size_bits c)"
    and carved: "carved c ty user_size d k src off h" and rev: "mdb_revocable (slot_mdb h src)"
    and c: "untyped_region_ok c" and i: "i < k"
  shows "is_mdb_parent_of h src (d i)"
proof -
  let ?p = "untyped_ptr c + of_nat (off + i * 2 ^ unat bits)"
  note sz = validated_sizes [OF v]
  note p = carved_object_inside [OF _ untyped_fields(1) _ off(2) i off(1) sz(6), of "untyped_ptr c"]
  have src: "slot_cap h src = set_untyped_free_index (of_nat ((off + k * 2 ^ unat bits) div 16)) c"
    "cte_cap (h (d i)) = create_object_cap ty ?p user_size (untyped_is_device c)"
    using carved i sz(3) by (simp_all add: carved_def create_object_cap_def slot_cap_def)
  then have par: "tag (cte_cap (h src)) = Some TagUntyped" "untyped_ptr (cte_cap (h src)) = untyped_ptr c"
    "untyped_block_size_bits (cte_cap (h src)) = untyped_block_size_bits c"
    using c by (simp_all add: slot_cap_def untyped_region_ok_def free_index_sel)
  note dec = created_cap_decodes [OF v, of ?p "untyped_is_device c"]
  have ok: "2 ^ unat (untyped_block_size_bits c) dvd unat (untyped_ptr c)" "0xFFFFFFC000000000 \<le> untyped_ptr c"
    using c by (simp_all add: untyped_region_ok_def PPTR_BASE_def)
  have "tag (cte_cap (h (d i))) \<noteq> None" using cap_decode_tag [OF dec(1)] p [OF ok] src(2) by simp
  moreover have "?p \<le> region_top ?p bits" by (rule region_top_no_wrap [OF sz(6) p(2) [OF ok]])
  ultimately show ?thesis
    using p [OF ok] dec(2) par src(2) rev
    by (auto simp: is_mdb_parent_of_def mdb_parent_of_def Let_def slot_mdb_def)
qed

text \<open>
  C1: A retype takes only free memory. When it succeeds, the new objects lie side by side from an
  offset of the region that is a multiple of their size, entirely inside the region and, if the region
  has children, behind the memory already handed out; the free index of the untyped capability then
  ends where the last object ends. The capability of each object is in its slot of the destination
  window, and the new slots follow the untyped slot in the derivation list, the last one first. When
  the untyped slot may have children, as the slots of untyped capabilities may, and its region is an
  aligned part of the kernel window, each new slot is its child in the derivation tree. The slots of
  the derivation list and of the window are assumed to be outside of the free memory.
\<close>

theorem retype_carves_free_memory:
  assumes ok: "handle_untyped thread src c label_id len s = Some (Inr (), s')"
    and c: "slot_cap (ctes s) src = c" "16 * unat (untyped_free_index c) \<le> 2 ^ unat (untyped_block_size_bits c)"
    and dest: "retype_dest_cnode_cap thread (read_extra_cap s 0) (mr (tcb_context (tcbs s thread)) 2)
      (mr (tcb_context (tcbs s thread)) 3) s = Some (Inr dc, s)" "as_cnode dc = Some cnode"
    and d: "\<And>i. i < retype_count s \<Longrightarrow> cte_addr_ok (retype_slot cnode s i) \<and>
      retype_slot cnode s i \<notin> free_range c (mdb_has_children (ctes s) src)"
    and l: "mdb_list (ctes s) (as @ src # bs)" "set (as @ src # bs) \<inter> free_range c (mdb_has_children (ctes s) src) = {}"
  shows "\<exists>ty off n. object_type_from_raw (mr (tcb_context (tcbs s thread)) 0) = Some ty \<and>
    n = unat (size_bits ty (mr (tcb_context (tcbs s thread)) 1)) \<and> 2 ^ n dvd off \<and>
    (mdb_has_children (ctes s) src \<longrightarrow> 16 * unat (untyped_free_index c) \<le> off) \<and>
    off + retype_count s * 2 ^ n \<le> 2 ^ unat (untyped_block_size_bits c) \<and>
    slot_cap (ctes s') src = set_untyped_free_index (of_nat ((off + retype_count s * 2 ^ n) div 16)) c \<and>
    (\<forall>i<retype_count s. slot_cap (ctes s') (retype_slot cnode s i) =
       create_cap ty (untyped_ptr c + of_nat (off + i * 2 ^ n)) (mr (tcb_context (tcbs s thread)) 1) (untyped_is_device c)) \<and>
    mdb_list (ctes s') (as @ src # rev (map (retype_slot cnode s) [0..<retype_count s]) @ bs) \<and>
    (mdb_revocable (slot_mdb (ctes s) src) \<and> untyped_region_ok c \<longrightarrow>
      (\<forall>i<retype_count s. is_mdb_parent_of (ctes s') src (retype_slot cnode s i)))"
proof -
  let ?us = "mr (tcb_context (tcbs s thread)) 1" and ?d = "retype_slot cnode s" and ?k = "retype_count s"
  obtain ty bits where r: "object_type_from_raw (mr (tcb_context (tcbs s thread)) 0) = Some ty"
    "bits = size_bits ty (mr (tcb_context (tcbs s thread)) 1)" "unat bits \<le> 38" "retype_count s \<le> 256"
    "unat (fst (read_mrs_4_5 s)) + retype_count s \<le> snd cnode"
    "retype_objects (dest_slot cnode (fst (read_mrs_4_5 s))) (retype_count s) src c ty bits
       (mr (tcb_context (tcbs s thread)) 1) s = Some (Inr (), s')"
    and v: "validate_retype_object_size thread (mr (tcb_context (tcbs s thread)) 0) ?us s = Some (Inr (ty, bits), s)"
    using handle_untyped_retypes [OF ok dest] by blast
  have "snd cnode < 2 ^ 64"
    using dest(2) unat64_less by (auto simp: as_cnode_def split: if_splits Option.bind_splits)
  then have "dest_slot cnode (fst (read_mrs_4_5 s)) i = Some (retype_slot cnode s i)" if "i < retype_count s" for i
    using dest_slot_in_window [OF r(5) _ that] d [OF that] cte_addr_ok_nonzero by (simp add: retype_slot_def)
  then obtain off where off: "2 ^ unat bits dvd off" "mdb_has_children (ctes s) src \<longrightarrow> 16 * unat (untyped_free_index c) \<le> off"
    "off + ?k * 2 ^ unat bits \<le> 2 ^ unat (untyped_block_size_bits c)" "carved c ty ?us ?d ?k src off (ctes s')"
    "mdb_list (ctes s') (as @ src # rev (map ?d [0..<?k]) @ bs)"
    "mdb_revocable (slot_mdb (ctes s') src) = mdb_revocable (slot_mdb (ctes s) src)"
    using retype_objects_effect [OF r(6,2-4) c l, of ?d] d by blast
  have "is_mdb_parent_of (ctes s') src (?d i)" if "mdb_revocable (slot_mdb (ctes s) src)" "untyped_region_ok c" "i < ?k" for i
    using carved_children [OF v off(1,3,4) _ that(2,3)] off(6) that(1) by simp
  then show ?thesis using off r(1,2) unfolding carved_def by blast
qed

text \<open>
  A thread retypes an untyped capability in slot 1 of its CNode into two pages for the slots 2 and 3. The region has a stale free index and no children, so it is reset first.
\<close>

definition retyping :: kstate where
  "retyping = (empty_kstate 1 0)\<lparr>
     cpu_current := (\<lambda>_. thr_a),
     tcbs := (\<lambda>_. tcb_zero)(thr_a := tcb_zero\<lparr> tcb_ipc_buffer := Some 0xFFFFFFC085000000,
       tcb_context := set_msg_info (message_info_new 1 0 1 6)
         (set_mr 0 6 (set_mr 1 0 (set_mr 2 0 (set_mr 3 0 uc_zero)))) \<rparr>),
     ctes := (\<lambda>_. cte_null)(
       thr_a := \<lparr> cte_cap = root_cnode, cte_mdb = mdb_null \<rparr>,
       0xFFFFFFC084300020 := \<lparr> cte_cap = used_untyped, cte_mdb = mdb_new 0 0 True True \<rparr>,
       0xFFFFFFC0843000A0 := \<lparr> cte_cap = root_cnode, cte_mdb = mdb_null \<rparr>),
     mem := (\<lambda>_. 0)(0xFFFFFFC085000028 := 2, 0xFFFFFFC085000030 := 2, 0xFFFFFFC0850003D0 := 5) \<rparr>"

abbreviation retyping_slot :: u64 where "retyping_slot \<equiv> 0xFFFFFFC084300020"

lemma map_fst_Some: "map_option fst r = Some x \<Longrightarrow> \<exists>s. r = Some (x, s)"
  by (cases r) auto

lemma retyping_succeeds: "map_option fst (handle_untyped thr_a retyping_slot used_untyped 1 6 retyping) = Some (Inr ())"
  by code_simp

lemma retyping_dest:
  "map_option fst (retype_dest_cnode_cap thr_a (read_extra_cap retyping 0) (mr (tcb_context (tcbs retyping thr_a)) 2)
     (mr (tcb_context (tcbs retyping thr_a)) 3) retyping) = Some (Inr root_cnode)"
  "as_cnode root_cnode = Some (0xFFFFFFC084300000, 16)" "retype_count retyping = 2"
  "fst (read_mrs_4_5 retyping) = 2" "mdb_has_children (ctes retyping) retyping_slot = False"
  by code_simp+

lemma retyping_fields:
  "unat (untyped_free_index used_untyped) = 16" "unat (untyped_block_size_bits used_untyped) = 16"
  "untyped_ptr used_untyped = 0xFFFFFFC084000000" "mr (tcb_context (tcbs retyping thr_a)) 0 = 6"
  "mr (tcb_context (tcbs retyping thr_a)) 1 = 0" "\<not> untyped_is_device used_untyped"
  by code_simp+

theorem retype_carves_free_memory_witness:
  "\<exists>s' off. handle_untyped thr_a retyping_slot used_untyped 1 6 retyping = Some (Inr (), s') \<and>
     4096 dvd off \<and> off + 8192 \<le> 65536 \<and>
     slot_cap (ctes s') 0xFFFFFFC084300040 =
       new_frame (0xFFFFFFC084000000 + of_nat off) FRAME_SIZE_4K FRAME_RIGHTS_READ_WRITE False \<and>
     mdb_list (ctes s') [retyping_slot, 0xFFFFFFC084300060, 0xFFFFFFC084300040] \<and>
     is_mdb_parent_of (ctes s') retyping_slot 0xFFFFFFC084300040 \<and> is_mdb_parent_of (ctes s') retyping_slot 0xFFFFFFC084300060"
proof -
  obtain s' where s': "handle_untyped thr_a retyping_slot used_untyped 1 6 retyping = Some (Inr (), s')"
    using map_fst_Some [OF retyping_succeeds] by blast
  have dc: "retype_dest_cnode_cap thr_a (read_extra_cap retyping 0) (mr (tcb_context (tcbs retyping thr_a)) 2)
     (mr (tcb_context (tcbs retyping thr_a)) 3) retyping = Some (Inr root_cnode, retyping)"
    using map_fst_Some [OF retyping_dest(1)] retype_dest_state by metis
  have slots: "retype_slot (0xFFFFFFC084300000, 16) retyping 0 = 0xFFFFFFC084300040"
    "retype_slot (0xFFFFFFC084300000, 16) retyping 1 = 0xFFFFFFC084300060"
    by (simp_all add: retype_slot_def retyping_dest(4))
  have ok: "cte_addr_ok 0xFFFFFFC084300020" "cte_addr_ok 0xFFFFFFC084300040" "cte_addr_ok 0xFFFFFFC084300060" by code_simp+
  have d: "cte_addr_ok (retype_slot (0xFFFFFFC084300000, 16) retyping i) \<and>
      retype_slot (0xFFFFFFC084300000, 16) retyping i \<notin> free_range used_untyped (mdb_has_children (ctes retyping) retyping_slot)"
    if "i < retype_count retyping" for i
  proof -
    have "i = 0 \<or> i = 1" using that retyping_dest(3) by auto
    then show ?thesis using ok slots by (auto simp: retyping_dest(5) free_range_def retyping_fields)
  qed
  have c: "slot_cap (ctes retyping) retyping_slot = used_untyped" by (simp add: retyping_def slot_cap_def thr_a_def)
  have l: "mdb_list (ctes retyping) ([] @ retyping_slot # [])"
    using ok by (simp add: mdb_list_def mdb_links_def mdb_prev_def mdb_next_def retyping_def thr_a_def)
  have f: "16 * unat (untyped_free_index used_untyped) \<le> 2 ^ unat (untyped_block_size_bits used_untyped)"
    "set ([] @ retyping_slot # []) \<inter> free_range used_untyped (mdb_has_children (ctes retyping) retyping_slot) = {}"
    by (simp_all add: retyping_fields free_range_def retyping_dest(5))
  obtain ty off n where r: "object_type_from_raw 6 = Some ty" "n = unat (size_bits ty 0)" "2 ^ n dvd off"
      "off + 2 * 2 ^ n \<le> 2 ^ 16"
      "\<forall>i<2. slot_cap (ctes s') (retype_slot (0xFFFFFFC084300000, 16) retyping i) =
         create_cap ty (0xFFFFFFC084000000 + of_nat (off + i * 2 ^ n)) 0 (untyped_is_device used_untyped)"
      "mdb_list (ctes s') ([] @ retyping_slot # rev (map (retype_slot (0xFFFFFFC084300000, 16) retyping) [0..<2]) @ [])"
      "mdb_revocable (slot_mdb (ctes retyping) retyping_slot) \<and> untyped_region_ok used_untyped \<longrightarrow>
         (\<forall>i<2. is_mdb_parent_of (ctes s') retyping_slot (retype_slot (0xFFFFFFC084300000, 16) retyping i))"
    using retype_carves_free_memory [OF s' c f(1) dc retyping_dest(2) d l f(2)]
    unfolding retyping_fields(2-5) retyping_dest(3) by blast
  have ty: "ty = ObFourKPage" "n = 12" using r(1,2) by (simp_all add: object_type_from_raw_def)
  have "slot_cap (ctes s') 0xFFFFFFC084300040 =
      new_frame (0xFFFFFFC084000000 + of_nat off) FRAME_SIZE_4K FRAME_RIGHTS_READ_WRITE False"
    using r(5) [rule_format, of 0] slots(1) retyping_fields(6) ty by simp
  moreover have "is_mdb_parent_of (ctes s') retyping_slot (retype_slot (0xFFFFFFC084300000, 16) retyping i)" if "i < 2" for i
  proof -
    have "mdb_revocable (slot_mdb (ctes retyping) retyping_slot)" "tag used_untyped = Some TagUntyped" by code_simp+
    moreover from this(2) have "untyped_region_ok used_untyped"
      by (simp add: untyped_region_ok_def retyping_fields PPTR_BASE_def)
    ultimately show ?thesis using r(7) that by blast
  qed
  from this [of 0] this [of 1] have "is_mdb_parent_of (ctes s') retyping_slot 0xFFFFFFC084300040"
    "is_mdb_parent_of (ctes s') retyping_slot 0xFFFFFFC084300060" using slots by simp_all
  moreover have "[0..<2] = [0, 1 :: nat]" by (simp add: upt_rec)
  ultimately show ?thesis using s' slots r(3,4,6) ty by (intro exI [of _ s'] exI [of _ off]) simp
qed

end
