(* ===== verification/Rel4_Pages.thy ===== *)
theory Rel4_Pages
  imports Rel4_Untyped
begin

text \<open>
  The invocations of frames, page tables, the ASID control capability and ASID pools
  (\<^verbatim>\<open>handle_frame\<close>, \<^verbatim>\<open>handle_page_table\<close>, \<^verbatim>\<open>handle_asid_control\<close> and \<^verbatim>\<open>handle_asid_pool\<close> in
  \<^verbatim>\<open>api/invocation.rs\<close>).
\<close>

section \<open>Errors of the page-table walk\<close>

fun user_map_error_of :: "user_map_error \<Rightarrow> syscall_error" where
  "user_map_error_of UmInvalidArgument = InvalidArgument"
| "user_map_error_of (UmFailedLookup _) = FailedLookup"
| "user_map_error_of UmDeleteFirst = DeleteFirst"

definition user_map_error_reply :: "u64 \<Rightarrow> user_map_error \<Rightarrow> kstate \<Rightarrow> 'a result" where
  "user_map_error_reply thread err s =
     fail (user_map_error_of err) (case err of
       UmFailedLookup bits_left \<Rightarrow>
         snd (write_current_ipc_buffer_word 3 (of_nat bits_left) (upd_context thread (set_mr 2 (of_nat bits_left)) s))
     | _ \<Rightarrow> s)"

definition or_map_error :: "u64 \<Rightarrow> user_map_error + 'a \<Rightarrow> kstate \<Rightarrow> 'a result" where
  "or_map_error thread r s = (case r of Inl err \<Rightarrow> user_map_error_reply thread err s | Inr a \<Rightarrow> succeed a s)"

text \<open>
  The address space named by the first extra capability: its ASID and its root table, which the ASID
  table must still resolve to.
\<close>

definition target_vspace :: "u64 \<Rightarrow> kstate \<Rightarrow> (u16 \<times> u64) result" where
  "target_vspace thread s =
     try_bind (or_error (lookup_cap s thread (read_extra_cap s 0)) InvalidCapability s) (\<lambda>(vspace_cap, _) s.
     if tag vspace_cap \<noteq> Some TagPageTable then fail InvalidCapability s
     else
       let asid = page_table_mapped_asid vspace_cap in
       if \<not> page_table_is_mapped vspace_cap \<or> asid = 0 then fail InvalidCapability s
       else
         let root_pt_kva = page_table_base_ptr vspace_cap; asid_root = asid_lookup s asid in
         if asid_root = 0 then fail FailedLookup s
         else if asid_root \<noteq> root_pt_kva then fail InvalidCapability s
         else succeed (asid, root_pt_kva) s)"

section \<open>Frames\<close>

definition page_map_prepare ::
  "u64 \<Rightarrow> cap \<Rightarrow> u16 \<Rightarrow> u64 \<Rightarrow> u64 \<Rightarrow> u64 \<Rightarrow> u64 \<Rightarrow> kstate \<Rightarrow> prepared_user_frame_map result" where
  "page_map_prepare thread current_cap asid root_pt vaddr frame_pa flags s =
     (if frame_is_mapped current_cap then
        (if frame_mapped_asid current_cap \<noteq> asid then fail InvalidCapability s
         else if frame_mapped_addr current_cap \<noteq> vaddr then fail InvalidArgument s
         else or_map_error thread (prepare_user_frame_remap root_pt vaddr frame_pa (frame_size current_cap) flags s) s)
      else or_map_error thread (prepare_user_frame_map root_pt vaddr frame_pa (frame_size current_cap) flags s) s)"

definition set_frame_mapping :: "u64 \<Rightarrow> u64 \<Rightarrow> u16 \<Rightarrow> kstate \<Rightarrow> kstate" where
  "set_frame_mapping slot vaddr asid s =
     upd_ctes (\<lambda>h. update_cap slot (set_frame_mapped_asid asid) (update_cap slot (set_frame_mapped_addr vaddr) h)) s"

definition page_map :: "u64 \<Rightarrow> u64 \<Rightarrow> cap \<Rightarrow> u64 \<Rightarrow> kstate \<Rightarrow> unit result" where
  "page_map thread slot c len s =
     (if len < 3 then fail TruncatedMessage s
      else try_bind (require_extra_caps thread 1 s) (\<lambda>_ s.
        let uc = tcb_context (tcbs s thread); vaddr = mr uc 0; rights_packed = mr uc 1; attrs = mr uc 2;
            vm_rights = mask_frame_vm_rights (frame_vm_rights c) rights_packed;
            can_write = frame_vm_rights_allow_write vm_rights;
            can_read = frame_vm_rights_allow_read vm_rights;
            exec_never = (attrs AND 1 \<noteq> 0); uncached_mapping = (attrs AND 2 \<noteq> 0)
        in try_bind (target_vspace thread s) (\<lambda>(asid, root_pt) s.
           let frame_pa = kva_to_pa (frame_base_ptr c); current_cap = slot_cap (ctes s) slot in
           if \<not> same_object_as current_cap c then fail InvalidCapability s
           else
             let flags = user_frame_flags can_read can_write (\<not> exec_never) (frame_is_device current_cap \<or> uncached_mapping)
             in try_bind (page_map_prepare thread current_cap asid root_pt vaddr frame_pa flags s) (\<lambda>prepared s.
                  succeed () (commit_user_frame_map prepared (set_frame_mapping slot vaddr asid s))))))"

definition page_unmap :: "u64 \<Rightarrow> cap \<Rightarrow> kstate \<Rightarrow> unit result" where
  "page_unmap slot c s =
     (if \<not> same_object_as (slot_cap (ctes s) slot) c then fail InvalidCapability s
      else
        let frame_va = frame_mapped_addr (slot_cap (ctes s) slot); asid = frame_mapped_asid (slot_cap (ctes s) slot) in
        if asid = 0 then succeed () s
        else
          let root_pt_kva = asid_lookup s asid;
              s1 = (if root_pt_kva = 0 then s
                    else snd (unmap_user_frame root_pt_kva frame_va (frame_size c) (kva_to_pa (frame_base_ptr c)) s))
          in succeed () (set_frame_mapping slot 0 0 s1))"

definition handle_frame :: "u64 \<Rightarrow> u64 \<Rightarrow> cap \<Rightarrow> u64 \<Rightarrow> u64 \<Rightarrow> kstate \<Rightarrow> unit result" where
  "handle_frame thread slot c label_id len s =
     (if label_id = PAGE_MAP then page_map thread slot c len s
      else if label_id = PAGE_UNMAP then page_unmap slot c s
      else if label_id = PAGE_GET_ADDRESS then succeed () (write_reply_mr0 thread (kva_to_pa (frame_base_ptr c)) s)
      else fail IllegalOperation s)"

section \<open>Page tables\<close>

definition page_table_map :: "u64 \<Rightarrow> u64 \<Rightarrow> cap \<Rightarrow> nat option \<Rightarrow> u64 \<Rightarrow> kstate \<Rightarrow> unit result" where
  "page_table_map thread slot c expected_coverage len s =
     (if len < 2 then fail TruncatedMessage s
      else try_bind (require_extra_caps thread 1 s) (\<lambda>_ s.
        if page_table_is_mapped c then fail InvalidCapability s
        else
          let vaddr = mr (tcb_context (tcbs s thread)) 0 in
          try_bind (target_vspace thread s) (\<lambda>(asid, root_pt) s.
          let current_cap = slot_cap (ctes s) slot in
          if \<not> same_object_as current_cap c then fail InvalidCapability s
          else if page_table_is_mapped current_cap then fail InvalidCapability s
          else try_bind (or_map_error thread
              (prepare_user_page_table_map root_pt vaddr (page_table_base_ptr current_cap) expected_coverage s) s) (\<lambda>prepared s.
            succeed () (commit_user_page_table_map prepared
              (upd_ctes (update_cap slot (set_page_table_mapping asid (pp_mapped_addr prepared))) s))))))"

text \<open>
  The last statement of the unmapping, \<^verbatim>\<open>slot.cap().clear_page_table_is_mapped()\<close>, changes a copy of the
  capability and so has no effect on the state.
\<close>

definition page_table_unmap :: "u64 \<Rightarrow> cap \<Rightarrow> kstate \<Rightarrow> unit result" where
  "page_table_unmap slot c s =
     (let current_cap = slot_cap (ctes s) slot in
      if \<not> same_object_as current_cap c then fail InvalidCapability s
      else if \<not> is_final_capability slot (ctes s) then fail RevokeFirst s
      else if page_table_is_mapped current_cap then
        let root_pt_kva = asid_lookup s (page_table_mapped_asid current_cap); pt = page_table_base_ptr current_cap in
        if root_pt_kva = pt then fail RevokeFirst s
        else
          let s1 = (if root_pt_kva \<noteq> 0
                    then snd (unmap_user_page_table root_pt_kva (page_table_mapped_addr current_cap) pt s) else s)
          in succeed () (zero_bytes pt 4096 s1)
      else succeed () s)"

definition handle_page_table :: "u64 \<Rightarrow> u64 \<Rightarrow> cap \<Rightarrow> u64 \<Rightarrow> u64 \<Rightarrow> kstate \<Rightarrow> unit result" where
  "handle_page_table thread slot c label_id len s =
     (if mapped_table_coverage_bits label_id \<noteq> None
      then page_table_map thread slot c (mapped_table_coverage_bits label_id) len s
      else if is_mapped_table_unmap label_id then page_table_unmap slot c s
      else fail IllegalOperation s)"

section \<open>ASIDs\<close>

definition make_asid_pool :: "u16 \<Rightarrow> u64 \<Rightarrow> cap \<Rightarrow> u64 \<Rightarrow> kstate \<Rightarrow> unit result" where
  "make_asid_pool base untyped_slot untyped_cap dest s =
     (if \<not> is_null (slot_cap (ctes s) dest) then fail DeleteFirst s
      else
        let pool_ptr = untyped_ptr untyped_cap;
            s1 = set_slot_free_index untyped_slot (shl64 1 (unat (SEL4_ASID_POOL_BITS - 4))) s;
            s2 = zero_bytes pool_ptr (shl64 1 (unat SEL4_ASID_POOL_BITS)) s1
        in try_bind (on_slots (cte_insert untyped_slot (new_asid_pool (ucast base) pool_ptr) dest) s2) (\<lambda>_ s.
           let (published, s3) = publish_pool base pool_ptr s in
           if \<not> published then None else succeed () s3))"

definition handle_asid_control :: "u64 \<Rightarrow> u64 \<Rightarrow> u64 \<Rightarrow> kstate \<Rightarrow> unit result" where
  "handle_asid_control thread label_id len s =
     (if label_id \<noteq> ASID_CONTROL_MAKE_POOL then fail IllegalOperation s
      else if len < 2 then fail TruncatedMessage s
      else try_bind (require_extra_caps thread 2 s) (\<lambda>_ s.
        try_bind (or_error (lookup_cap s thread (read_extra_cap s 0)) InvalidCapability s) (\<lambda>(untyped_cap, untyped_slot) s.
        if tag untyped_cap \<noteq> Some TagUntyped then fail InvalidCapability s
        else try_bind (or_error (lookup_cap s thread (read_extra_cap s 1)) InvalidCapability s) (\<lambda>(root_cap, _) s.
        if tag root_cap \<noteq> Some TagCNode then fail InvalidCapability s
        else case next_free_pool_base s of
          None \<Rightarrow> fail DeleteFirst s
        | Some base \<Rightarrow>
            if untyped_block_size_bits untyped_cap \<noteq> SEL4_ASID_POOL_BITS \<or> untyped_is_device untyped_cap
            then fail InvalidCapability s
            else
              let uc = tcb_context (tcbs s thread); dest_index = mr uc 0; dest_depth = unat (mr uc 1 AND 0xFF) in
              if mdb_has_children (ctes s) untyped_slot then fail RevokeFirst s
              else try_bind (resolve_slot root_cap dest_index dest_depth s) (\<lambda>dest s.
                make_asid_pool base untyped_slot untyped_cap dest s)))))"

fun asid_pool_error :: "asid_pool_assign_error \<Rightarrow> syscall_error" where
  "asid_pool_error MissingPool = FailedLookup"
| "asid_pool_error WrongPool = InvalidCapability"
| "asid_pool_error PoolFull = DeleteFirst"

definition handle_asid_pool :: "u64 \<Rightarrow> cap \<Rightarrow> u64 \<Rightarrow> kstate \<Rightarrow> unit result" where
  "handle_asid_pool thread c label_id s =
     (if label_id \<noteq> ASID_POOL_ASSIGN then fail IllegalOperation s
      else try_bind (require_extra_caps thread 1 s) (\<lambda>_ s.
        try_bind (or_error (lookup_cap s thread (read_extra_cap s 0)) InvalidCapability s) (\<lambda>(vspace_cap, vspace_slot) s.
        if tag vspace_cap \<noteq> Some TagPageTable then fail InvalidCapability s
        else
          let root_pt_kva = page_table_base_ptr vspace_cap; current_vspace_cap = slot_cap (ctes s) vspace_slot in
          if tag current_vspace_cap \<noteq> Some TagPageTable \<or> page_table_base_ptr current_vspace_cap \<noteq> root_pt_kva
          then fail InvalidCapability s
          else if page_table_is_mapped current_vspace_cap \<or> page_table_mapped_asid current_vspace_cap \<noteq> 0
          then fail InvalidCapability s
          else case next_free_from_pool (asid_pool_base c) (asid_pool_ptr c) s of
            Inl err \<Rightarrow> fail (asid_pool_error err) s
          | Inr asid \<Rightarrow>
              let s1 = upd_ctes (update_cap vspace_slot (set_page_table_mapping asid 0)) s;
                  s2 = copy_kernel_mappings_to root_pt_kva s1;
                  (published, s3) = publish_pool_assignment (asid_pool_base c) (asid_pool_ptr c) asid root_pt_kva s2
              in if \<not> published then None else succeed () s3)))"

section \<open>A page table cannot be mapped twice\<close>

text \<open>
  Unmapping a page table does not reset the mapping recorded in its capability, because the reset is
  applied to a copy. The capability counts as mapped for ever: mapping the table again is refused.
\<close>

lemma page_table_unmap_ctes:
  assumes "page_table_unmap slot c s = Some (Inr (), s')"
    and "\<not> in_bytes (page_table_base_ptr (slot_cap (ctes s) slot)) 4096 slot"
  shows "ctes s' slot = ctes s slot"
proof -
  have "ctes (snd (unmap_user_page_table r a p s)) = ctes s" for r a p
    by (rule besides_memoryD(1)) simp
  then show ?thesis using assms
    by (auto simp: page_table_unmap_def Let_def fail_def succeed_def zero_bytes_ctes split: if_splits)
qed

theorem unmapped_table_cannot_be_mapped:
  assumes "handle_page_table thread slot c PAGE_TABLE_UNMAP len s = Some (Inr (), s')"
    and "page_table_is_mapped (slot_cap (ctes s) slot)"
    and "\<not> in_bytes (page_table_base_ptr (slot_cap (ctes s) slot)) 4096 slot"
    and "2 \<le> len'" "require_extra_caps thread' 1 s' = Some (Inr (), s')"
  shows "handle_page_table thread' slot (slot_cap (ctes s') slot) PAGE_TABLE_MAP len' s' = Some (Inl InvalidCapability, s')"
proof -
  have "page_table_unmap slot c s = Some (Inr (), s')"
    using assms(1) by (simp add: handle_page_table_def mapped_table_coverage_bits_def is_mapped_table_unmap_def
        PAGE_TABLE_MAP_def PAGE_TABLE_UNMAP_def)
  from page_table_unmap_ctes [OF this assms(3)] assms(2) have "page_table_is_mapped (slot_cap (ctes s') slot)"
    by (simp add: slot_cap_def)
  then show ?thesis
    using assms(4,5) by (simp add: handle_page_table_def mapped_table_coverage_bits_def page_table_map_def fail_def not_less)
qed

section \<open>Mapping a frame\<close>

text \<open>A frame capability whose mapping succeeds records where the frame is mapped.\<close>

lemma page_map_records:
  assumes "page_map thread slot c len s = Some (Inr (), s')"
  obtains asid root where "target_vspace thread s = Some (Inr (asid, root), s)"
    "slot_cap (ctes s') slot = set_frame_mapped_asid asid (set_frame_mapped_addr (mr (tcb_context (tcbs s thread)) 0) (slot_cap (ctes s) slot))"
    "\<And>x. x \<noteq> slot \<Longrightarrow> ctes s' x = ctes s x"
proof -
  have tv: "target_vspace thread s = Some (r, s2) \<Longrightarrow> s2 = s" for r s2
    by (auto simp: target_vspace_def try_bind_eq_Some fail_def succeed_def Let_def dest: decode_message_state(1) split: if_splits)
  have pr: "page_map_prepare thread cc asid root v pa fl s = Some (Inr p, s2) \<Longrightarrow> s2 = s" for cc asid root v pa fl p s2
    by (auto simp: page_map_prepare_def or_map_error_def user_map_error_reply_def fail_def succeed_def split: if_splits sum.splits)
  have ex: "require_extra_caps thread 1 s = Some (Inr (), s)"
    using assms by (auto simp: page_map_def fail_def try_bind_Inr split: if_splits dest: decode_message_state(5))
  obtain asid root where t: "target_vspace thread s = Some (Inr (asid, root), s)"
    using assms tv by (auto simp: page_map_def ex fail_def try_bind_Inr Let_def split: if_splits)
  obtain p where "s' = commit_user_frame_map p (set_frame_mapping slot (mr (tcb_context (tcbs s thread)) 0) asid s)"
    using assms by (auto simp: page_map_def ex t fail_def succeed_def try_bind_Inr Let_def dest!: pr split: if_splits)
  with t show ?thesis
    using that by (auto simp: commit_user_frame_map_def flush_vaddr_for_root_def remote_flush_eqs log_event_def write_pte_def
        set_frame_mapping_def upd_ctes_def update_cap_def slot_cap_def)
qed

end
