(* ===== verification/Rel4_Threads.thy ===== *)
theory Rel4_Threads
  imports Rel4_Pages
begin

text \<open>
  The invocations of interrupt, domain and thread capabilities (\<^verbatim>\<open>handle_irq_control\<close>,
  \<^verbatim>\<open>handle_irq_handler\<close>, \<^verbatim>\<open>handle_domain\<close>, \<^verbatim>\<open>handle_thread\<close> and what they call in
  \<^verbatim>\<open>api/invocation.rs\<close>).
\<close>

section \<open>Extra capabilities\<close>

definition lookup_extra_cap_slot :: "u64 \<Rightarrow> nat \<Rightarrow> kstate \<Rightarrow> (cap \<times> u64) result" where
  "lookup_extra_cap_slot thread i s = or_error (lookup_cap s thread (read_extra_cap s i)) InvalidCapability s"

definition lookup_extra_cap :: "u64 \<Rightarrow> nat \<Rightarrow> kstate \<Rightarrow> cap result" where
  "lookup_extra_cap thread i s = try_bind (lookup_extra_cap_slot thread i s) (\<lambda>(c, _) s. succeed c s)"

definition lookup_tcb_space_cap_slot :: "u64 \<Rightarrow> nat \<Rightarrow> kstate \<Rightarrow> (cap \<times> u64) result" where
  "lookup_tcb_space_cap_slot thread i s = or_error (lookup_cap s thread (read_extra_cap s i)) InvalidCapability s"

definition lookup_optional_extra_cap_slot :: "u64 \<Rightarrow> nat \<Rightarrow> kstate \<Rightarrow> (cap \<times> u64) option result" where
  "lookup_optional_extra_cap_slot thread i s =
     try_bind (or_error (lookup_cap s thread (read_extra_cap s i)) InvalidCapability s) (\<lambda>(c, slot) s.
       succeed (if is_null c then None else Some (c, slot)) s)"

definition lookup_optional_extra_cap :: "u64 \<Rightarrow> nat \<Rightarrow> kstate \<Rightarrow> cap option result" where
  "lookup_optional_extra_cap thread i s =
     try_bind (lookup_optional_extra_cap_slot thread i s) (\<lambda>r s. succeed (map_option fst r) s)"

definition require_tag :: "cap \<Rightarrow> cap_tag \<Rightarrow> kstate \<Rightarrow> unit result" where
  "require_tag c expected s = (if tag c = Some expected then succeed () s else fail InvalidCapability s)"

definition SEL4_IPC_BUFFER_SIZE_BITS :: nat where "SEL4_IPC_BUFFER_SIZE_BITS = 10"

definition lookup_ipc_buffer_cap_slot :: "u64 \<Rightarrow> nat \<Rightarrow> u64 \<Rightarrow> kstate \<Rightarrow> (cap \<times> u64 option) result" where
  "lookup_ipc_buffer_cap_slot thread i buffer_uva s =
     try_bind (lookup_extra_cap_slot thread i s) (\<lambda>(buffer_cap, buffer_slot) s.
     if buffer_uva = 0 then succeed (null_cap, None) s
     else try_bind (derive_cap_for_copy buffer_slot buffer_cap s) (\<lambda>buffer_cap s.
     if tag buffer_cap \<noteq> Some TagFrame \<or> frame_is_device buffer_cap then fail IllegalOperation s
     else if buffer_uva AND (push_bit SEL4_IPC_BUFFER_SIZE_BITS 1 - 1) \<noteq> 0 then fail AlignmentError s
     else succeed (buffer_cap, Some buffer_slot) s))"

definition lookup_ipc_buffer_cap :: "u64 \<Rightarrow> nat \<Rightarrow> u64 \<Rightarrow> kstate \<Rightarrow> cap result" where
  "lookup_ipc_buffer_cap thread i buffer_uva s =
     try_bind (lookup_ipc_buffer_cap_slot thread i buffer_uva s) (\<lambda>(c, _) s. succeed c s)"

definition require_tcb_cspace_root :: "cap \<Rightarrow> kstate \<Rightarrow> unit result" where
  "require_tcb_cspace_root c s = (if tag c = Some TagCNode then succeed () s else fail IllegalOperation s)"

definition require_tcb_vspace_root :: "cap \<Rightarrow> kstate \<Rightarrow> unit result" where
  "require_tcb_vspace_root c s =
     (if tag c = Some TagPageTable \<and> page_table_is_mapped c then succeed () s else fail IllegalOperation s)"

definition require_endpoint_send_grant :: "cap \<Rightarrow> kstate \<Rightarrow> unit result" where
  "require_endpoint_send_grant c s =
     (if tag c = Some TagEndpoint \<and> endpoint_can_send c \<and> (endpoint_can_grant c \<or> endpoint_can_grant_reply c)
      then succeed () s else fail InvalidCapability s)"

section \<open>Interrupts and domains\<close>

definition issue_irq_handler :: "u64 \<Rightarrow> u64 \<Rightarrow> u64 \<Rightarrow> u64 \<Rightarrow> u64 \<Rightarrow> kstate \<Rightarrow> unit result" where
  "issue_irq_handler thread src_slot irq index depth s =
     (if \<not> valid_irq irq then fail_range thread 1 (of_nat MAX_IRQ) s
      else if is_active_irq irq s then fail RevokeFirst s
      else try_bind (or_error (lookup_cap s thread (read_extra_cap s 0)) InvalidCapability s) (\<lambda>(root_cap, _) s.
        try_bind (resolve_slot root_cap index (unat (depth AND 0xFFFFFFFF)) s) (\<lambda>dest s.
        if \<not> is_null (slot_cap (ctes s) dest) then fail DeleteFirst s
        else
          let (issued, s1) = try_issue_handler irq s in
          if \<not> issued then fail RevokeFirst s1
          else if \<not> is_null (slot_cap (ctes s1) dest)
          then Option.bind (delete_handler irq s1) (fail DeleteFirst)
          else on_slots (cte_insert src_slot (new_irq_handler irq) dest) s1)))"

definition handle_irq_control :: "u64 \<Rightarrow> u64 \<Rightarrow> u64 \<Rightarrow> u64 \<Rightarrow> kstate \<Rightarrow> unit result" where
  "handle_irq_control thread src_slot label_id len s =
     (if invocation_label_matches label_id IrqIssueIrqHandler then
        (if len < 3 then fail TruncatedMessage s
         else try_bind (require_extra_caps thread 1 s) (\<lambda>_ s.
           let uc = tcb_context (tcbs s thread)
           in issue_irq_handler thread src_slot (mr uc 0) (mr uc 1) (mr uc 2 AND 0xFF) s))
      else if label_id = IRQ_ISSUE_IRQ_HANDLER_TRIGGER then
        (if len < 4 then fail TruncatedMessage s
         else try_bind (require_extra_caps thread 1 s) (\<lambda>_ s. fail IllegalOperation s))
      else fail IllegalOperation s)"

definition handle_irq_handler :: "u64 \<Rightarrow> cap \<Rightarrow> u64 \<Rightarrow> kstate \<Rightarrow> unit result" where
  "handle_irq_handler thread c label_id s =
     (let irq = irq_handler_irq c in
      if invocation_label_matches label_id IrqAck then succeed () (ack_irq irq s)
      else if invocation_label_matches label_id IrqSetHandler then
        try_bind (require_extra_caps thread 1 s) (\<lambda>_ s.
        try_bind (or_error (lookup_cap s thread (read_extra_cap s 0)) InvalidCapability s) (\<lambda>(ntfn_cap, ntfn_slot) s.
        if tag ntfn_cap \<noteq> Some TagNotification \<or> \<not> notification_can_send ntfn_cap then fail InvalidCapability s
        else Option.bind (set_notification irq ntfn_cap ntfn_slot s) (\<lambda>(installed, s1).
          if \<not> installed then fail InvalidCapability s1 else succeed () s1)))
      else if invocation_label_matches label_id IrqClearHandler then
        Option.bind (clear_notification irq s) (succeed ())
      else fail IllegalOperation s)"

definition NUM_DOMAINS :: u64 where "NUM_DOMAINS = 1"

text \<open>A domain is accepted and has no effect: there is one domain. So are priorities below.\<close>

definition handle_domain :: "u64 \<Rightarrow> u64 \<Rightarrow> u64 \<Rightarrow> kstate \<Rightarrow> unit result" where
  "handle_domain thread label_id len s =
     (if \<not> invocation_label_matches label_id DomainSet then fail IllegalOperation s
      else if len < 1 then fail TruncatedMessage s
      else try_bind (require_extra_caps thread 1 s) (\<lambda>_ s.
        let domain = mr (tcb_context (tcbs s thread)) 0 in
        if NUM_DOMAINS \<le> domain then fail InvalidArgument s
        else try_bind (lookup_extra_cap thread 0 s) (\<lambda>tcb_cap s.
          try_bind (require_tag tcb_cap TagThread s) (\<lambda>_ s.
          if as_thread tcb_cap = None then fail InvalidCapability s else succeed () s))))"

section \<open>Capabilities of a thread\<close>

definition slot_cap_long_running_delete :: "kstate \<Rightarrow> u64 \<Rightarrow> bool" where
  "slot_cap_long_running_delete s slot =
     (let c = slot_cap (ctes s) slot in
      if is_null c \<or> \<not> is_final_capability slot (ctes s) then False
      else tag c = Some TagThread \<or> tag c = Some TagZombie \<or> tag c = Some TagCNode)"

definition tcb_space_slot_long_running_delete :: "kstate \<Rightarrow> u64 \<Rightarrow> bool" where
  "tcb_space_slot_long_running_delete s t =
     list_ex (slot_cap_long_running_delete s) (List.map_filter (cap_slot t) [TCB_CTABLE_SLOT, TCB_VTABLE_SLOT])"

definition insert_tcb_cap_if_live :: "u64 \<Rightarrow> u64 \<Rightarrow> u64 \<Rightarrow> cap \<Rightarrow> u64 option \<Rightarrow> kstate \<Rightarrow> unit result" where
  "insert_tcb_cap_if_live tcb_slot target dest new_cap src_slot s = (case src_slot of
     None \<Rightarrow> succeed () s
   | Some src \<Rightarrow>
       if is_null new_cap then succeed () s
       else if \<not> same_object_as new_cap (slot_cap (ctes s) src)
             \<or> \<not> same_object_as (new_thread target) (slot_cap (ctes s) tcb_slot)
       then succeed () s
       else on_slots (cte_insert src new_cap dest) s)"

definition install_tcb_cap :: "u64 \<Rightarrow> u64 \<Rightarrow> nat \<Rightarrow> cap \<Rightarrow> u64 \<Rightarrow> kstate \<Rightarrow> unit result" where
  "install_tcb_cap tcb_slot target index new_cap src_slot s = (case cap_slot target index of
     None \<Rightarrow> fail InvalidCapability s
   | Some dest \<Rightarrow> try_bind (cte_delete dest True s) (\<lambda>_ s.
       insert_tcb_cap_if_live tcb_slot target dest new_cap (Some src_slot) s))"

definition install_tcb_buffer_cap :: "u64 \<Rightarrow> u64 \<Rightarrow> u64 \<Rightarrow> cap \<Rightarrow> u64 option \<Rightarrow> kstate \<Rightarrow> unit result" where
  "install_tcb_buffer_cap tcb_slot target buffer_uva buffer_cap buffer_src_slot s =
     (case cap_slot target TCB_BUFFER_SLOT of
        None \<Rightarrow> fail InvalidCapability s
      | Some dest \<Rightarrow> try_bind (cte_delete dest True s) (\<lambda>_ s.
          insert_tcb_cap_if_live tcb_slot target dest buffer_cap buffer_src_slot
            (set_ipc_buffer target buffer_uva buffer_cap s)))"

text \<open>The data words and the derivation of both roots, common to configuring a thread and setting its spaces.\<close>

definition derive_tcb_spaces :: "u64 \<Rightarrow> u64 \<Rightarrow> u64 \<Rightarrow> cap \<times> u64 \<Rightarrow> cap \<times> u64 \<Rightarrow> kstate \<Rightarrow> (cap \<times> cap) result" where
  "derive_tcb_spaces target cspace_data vspace_data cspace vspace s =
     (if tcb_space_slot_long_running_delete s target then fail IllegalOperation s
      else
        let cspace_cap = (if cspace_data \<noteq> 0 then update_cap_data False cspace_data (fst cspace) else fst cspace) in
        if cspace_data \<noteq> 0 \<and> is_null cspace_cap then fail IllegalOperation s
        else try_bind (derive_cap_for_copy (snd cspace) cspace_cap s) (\<lambda>cspace_cap s.
        try_bind (require_tcb_cspace_root cspace_cap s) (\<lambda>_ s.
        let vspace_cap = (if vspace_data \<noteq> 0 then update_cap_data False vspace_data (fst vspace) else fst vspace) in
        try_bind (derive_cap_for_copy (snd vspace) vspace_cap s) (\<lambda>vspace_cap s.
        try_bind (require_tcb_vspace_root vspace_cap s) (\<lambda>_ s. succeed (cspace_cap, vspace_cap) s)))))"

definition set_fault_endpoint_cptr :: "u64 \<Rightarrow> u64 \<Rightarrow> kstate \<Rightarrow> kstate" where
  "set_fault_endpoint_cptr t cptr s = upd_tcb t (\<lambda>x. x\<lparr> tcb_fault_endpoint_cptr := cptr \<rparr>) s"

definition tcb_configure :: "u64 \<Rightarrow> u64 \<Rightarrow> u64 \<Rightarrow> u64 \<Rightarrow> kstate \<Rightarrow> unit result" where
  "tcb_configure thread slot target len s =
     (if len < 4 then fail TruncatedMessage s
      else try_bind (require_extra_caps thread 3 s) (\<lambda>_ s.
        let uc = tcb_context (tcbs s thread); fault_ep = mr uc 0; buffer_uva = mr uc 3 in
        try_bind (lookup_tcb_space_cap_slot thread 0 s) (\<lambda>cspace s.
        try_bind (lookup_tcb_space_cap_slot thread 1 s) (\<lambda>vspace s.
        try_bind (lookup_ipc_buffer_cap_slot thread 2 buffer_uva s) (\<lambda>(buffer_cap, buffer_slot) s.
        try_bind (derive_tcb_spaces target (mr uc 1) (mr uc 2) cspace vspace s) (\<lambda>(cspace_cap, vspace_cap) s.
        try_bind (install_tcb_cap slot target TCB_CTABLE_SLOT cspace_cap (snd cspace) s) (\<lambda>_ s.
        try_bind (install_tcb_cap slot target TCB_VTABLE_SLOT vspace_cap (snd vspace) s) (\<lambda>_ s.
        install_tcb_buffer_cap slot target buffer_uva buffer_cap buffer_slot
          (set_fault_endpoint_cptr target fault_ep s)))))))))"

definition tcb_set_space :: "u64 \<Rightarrow> u64 \<Rightarrow> u64 \<Rightarrow> u64 \<Rightarrow> kstate \<Rightarrow> unit result" where
  "tcb_set_space thread slot target len s =
     (if len < 3 then fail TruncatedMessage s
      else try_bind (require_extra_caps thread 2 s) (\<lambda>_ s.
        let uc = tcb_context (tcbs s thread); fault_ep = mr uc 0 in
        try_bind (lookup_tcb_space_cap_slot thread 0 s) (\<lambda>cspace s.
        try_bind (lookup_tcb_space_cap_slot thread 1 s) (\<lambda>vspace s.
        try_bind (derive_tcb_spaces target (mr uc 1) (mr uc 2) cspace vspace s) (\<lambda>(cspace_cap, vspace_cap) s.
        try_bind (install_tcb_cap slot target TCB_CTABLE_SLOT cspace_cap (snd cspace)
            (set_fault_endpoint_cptr target fault_ep s)) (\<lambda>_ s.
        install_tcb_cap slot target TCB_VTABLE_SLOT vspace_cap (snd vspace) s))))))"

definition tcb_set_ipc_buffer :: "u64 \<Rightarrow> u64 \<Rightarrow> u64 \<Rightarrow> u64 \<Rightarrow> kstate \<Rightarrow> unit result" where
  "tcb_set_ipc_buffer thread slot target len s =
     (if len < 1 then fail TruncatedMessage s
      else try_bind (require_extra_caps thread 1 s) (\<lambda>_ s.
        let buffer_uva = mr (tcb_context (tcbs s thread)) 0 in
        try_bind (lookup_ipc_buffer_cap_slot thread 0 buffer_uva s) (\<lambda>(buffer_cap, buffer_slot) s.
        install_tcb_buffer_cap slot target buffer_uva buffer_cap buffer_slot s)))"

section \<open>Scheduling parameters\<close>

text \<open>The authority of a priority change, a thread capability, is checked; the value is only bounded.\<close>

definition require_authority :: "u64 \<Rightarrow> kstate \<Rightarrow> unit result" where
  "require_authority thread s =
     try_bind (lookup_extra_cap thread 0 s) (\<lambda>auth_cap s.
     try_bind (require_tag auth_cap TagThread s) (\<lambda>_ s.
     if as_thread auth_cap = None then fail InvalidCapability s else succeed () s))"

definition tcb_set_priority :: "u64 \<Rightarrow> u64 \<Rightarrow> kstate \<Rightarrow> unit result" where
  "tcb_set_priority thread len s =
     (if len < 1 then fail TruncatedMessage s
      else try_bind (require_extra_caps thread 1 s) (\<lambda>_ s.
        let prio = mr (tcb_context (tcbs s thread)) 0 in
        try_bind (require_authority thread s) (\<lambda>_ s. if 255 < prio then fail RangeError s else succeed () s)))"

definition tcb_set_mc_priority :: "u64 \<Rightarrow> u64 \<Rightarrow> kstate \<Rightarrow> unit result" where
  "tcb_set_mc_priority thread len s =
     (if len < 1 then fail TruncatedMessage s
      else try_bind (require_extra_caps thread 1 s) (\<lambda>_ s.
        let mcp = mr (tcb_context (tcbs s thread)) 0 in
        try_bind (require_authority thread s) (\<lambda>_ s. if 255 < mcp then fail RangeError s else succeed () s)))"

definition tcb_set_sched_params :: "u64 \<Rightarrow> u64 \<Rightarrow> kstate \<Rightarrow> unit result" where
  "tcb_set_sched_params thread len s =
     (if len < 2 then fail TruncatedMessage s
      else try_bind (require_extra_caps thread 1 s) (\<lambda>_ s.
        let mcp = mr (tcb_context (tcbs s thread)) 0; prio = mr (tcb_context (tcbs s thread)) 1 in
        try_bind (require_authority thread s) (\<lambda>_ s.
          if 255 < mcp \<or> 255 < prio then fail RangeError s else succeed () s)))"

section \<open>Registers\<close>

definition SEL4_TCB_FRAME_REGS :: "nat list" where
  "SEL4_TCB_FRAME_REGS = [0, reg_index Ra, reg_index Sp, reg_index Gp, 8, 9, 18, 19, 20, 21, 22, 23, 24, 25, 26, 27]"

definition SEL4_TCB_GP_REGS :: "nat list" where
  "SEL4_TCB_GP_REGS = [reg_index A0, reg_index A1, reg_index A2, reg_index A3, reg_index A4, reg_index A5,
     reg_index A6, reg_index A7, reg_index T0, 6, 7, 28, 29, 30, 31, reg_index Tp]"

definition SEL4_USER_CONTEXT_WORDS :: nat where
  "SEL4_USER_CONTEXT_WORDS = length SEL4_TCB_FRAME_REGS + length SEL4_TCB_GP_REGS"

definition SEL4_USER_CONTEXT_REGS :: "nat list" where
  "SEL4_USER_CONTEXT_REGS = [0, reg_index Ra, reg_index Sp, reg_index Gp, 8, 9, 18, 19, 20, 21, 22, 23, 24, 25, 26, 27,
     reg_index A0, reg_index A1, reg_index A2, reg_index A3, reg_index A4, reg_index A5,
     reg_index A6, reg_index A7, reg_index T0, 6, 7, 28, 29, 30, 31, reg_index Tp]"

text \<open>
  The register updates of \<^verbatim>\<open>TCB_WriteRegisters\<close>: the arrays \<^verbatim>\<open>reg_updates\<close> and \<^verbatim>\<open>reg_update_valid\<close> are one
  partial map from register indices. The words after the first four come from the IPC buffer.
\<close>

definition written_registers :: "u64 \<Rightarrow> u64 \<Rightarrow> u64 \<Rightarrow> kstate \<Rightarrow> nat \<Rightarrow> u64 option" where
  "written_registers thread len count s =
     (let buffered = (if 5 \<le> len \<and> 3 \<le> count \<and> current_has_ipc_buffer s
                      then fold (\<lambda>i m. m(SEL4_USER_CONTEXT_REGS ! (i - 2) \<mapsto> current_ipc_buffer_word s (1 + i)))
                             [4..<unat (min len (min (saturating_add64 count 2) 34))] Map.empty
                      else Map.empty)
      in if 2 \<le> count \<and> 4 \<le> len
         then buffered(SEL4_USER_CONTEXT_REGS ! 1 \<mapsto> mr (tcb_context (tcbs s thread)) 3) else buffered)"

definition tcb_write_registers :: "u64 \<Rightarrow> u64 \<Rightarrow> u64 \<Rightarrow> kstate \<Rightarrow> unit result" where
  "tcb_write_registers thread target len s =
     (if len < 2 then fail TruncatedMessage s
      else
        let uc = tcb_context (tcbs s thread); flag_word = mr uc 0; count = mr uc 1 in
        if len - 2 < count then fail TruncatedMessage s
        else if current_tcb s = Some target then fail IllegalOperation s
        else
          let updates = written_registers thread len count s;
              pc = (if 1 \<le> count \<and> 3 \<le> len then Some (mr uc 2) else None);
              regs = List.map_filter (\<lambda>i. map_option (Pair i) (updates i)) [0..<32];
              s1 = write_user_context target pc regs s
          in if flag_word AND 1 \<noteq> 0 then Option.bind (resume target s1) (succeed ()) else succeed () s1)"

definition read_reg :: "u64 \<Rightarrow> kstate \<Rightarrow> nat \<Rightarrow> u64" where
  "read_reg target s i = (if i < 32 then user_context_word s target i (SEL4_USER_CONTEXT_REGS ! i) else 0)"

definition tcb_read_registers :: "u64 \<Rightarrow> u64 \<Rightarrow> u64 \<Rightarrow> kstate \<Rightarrow> unit result" where
  "tcb_read_registers thread target len s =
     (if len < 2 then fail TruncatedMessage s
      else
        let uc = tcb_context (tcbs s thread); flag_word = mr uc 0; count = mr uc 1 in
        if count = 0 \<or> of_nat SEL4_USER_CONTEXT_WORDS < count then fail RangeError s
        else if current_tcb s = Some target then fail IllegalOperation s
        else
          let n = unat (min count 32);
              s1 = fold (\<lambda>i s. upd_context thread (set_mr i (read_reg target s i)) s) [0..<min n 4] s;
              s2 = fold (\<lambda>i s. snd (write_current_ipc_buffer_word (1 + i) (read_reg target s i) s)) [4..<n] s1
          in if flag_word AND 1 \<noteq> 0 then Option.bind (suspend target s2) (succeed ()) else succeed () s2)"

record tcb_copy_registers =
  cr_pc :: "u64 option"
  cr_regs :: "(nat \<times> u64) list"

definition snapshot_tcb_copy_registers :: "kstate \<Rightarrow> u64 \<Rightarrow> bool \<Rightarrow> bool \<Rightarrow> tcb_copy_registers" where
  "snapshot_tcb_copy_registers s src transfer_frame transfer_integer =
     \<lparr> cr_pc = (if transfer_frame then Some (user_context_word s src 0 0) else None),
       cr_regs =
         (if transfer_frame then map (\<lambda>r. (r, uc_regs (tcb_context (tcbs s src)) r)) (tl SEL4_TCB_FRAME_REGS) else []) @
         (if transfer_integer
          then map (\<lambda>r. (r, uc_regs (tcb_context (tcbs s src)) r)) (filter (\<lambda>r. r \<noteq> 0) SEL4_TCB_GP_REGS) else []) \<rparr>"

definition invoke_tcb_copy_registers :: "u64 \<Rightarrow> u64 \<Rightarrow> u64 \<Rightarrow> kstate \<Rightarrow> unit result" where
  "invoke_tcb_copy_registers thread dest len s =
     (if len < 1 then fail TruncatedMessage s
      else try_bind (require_extra_caps thread 1 s) (\<lambda>_ s.
        let flags = mr (tcb_context (tcbs s thread)) 0 in
        try_bind (lookup_extra_cap thread 0 s) (\<lambda>src_cap s.
        try_bind (require_tag src_cap TagThread s) (\<lambda>_ s.
        case as_thread src_cap of
          None \<Rightarrow> fail InvalidCapability s
        | Some src \<Rightarrow>
            let copied = snapshot_tcb_copy_registers s src (flags AND 4 \<noteq> 0) (flags AND 8 \<noteq> 0) in
            do {
              s1 \<leftarrow> (if flags AND 1 \<noteq> 0 then suspend src s else Some s);
              s2 \<leftarrow> (if flags AND 2 \<noteq> 0 then resume dest s1 else Some s1);
              succeed () (write_user_context dest (cr_pc copied) (cr_regs copied) s2)
            }))))"

section \<open>Threads\<close>

definition tcb_bind_notification :: "u64 \<Rightarrow> u64 \<Rightarrow> kstate \<Rightarrow> unit result" where
  "tcb_bind_notification thread target s =
     try_bind (require_extra_caps thread 1 s) (\<lambda>_ s.
     try_bind (lookup_extra_cap thread 0 s) (\<lambda>ntfn_cap s.
     if tag ntfn_cap \<noteq> Some TagNotification \<or> \<not> notification_can_receive ntfn_cap then fail IllegalOperation s
     else case as_notification ntfn_cap of
       None \<Rightarrow> fail IllegalOperation s
     | Some ntfn \<Rightarrow>
         if tcb_bound_notification (tcbs s target) \<noteq> None \<or> \<not> can_bind s ntfn then fail IllegalOperation s
         else succeed () (bind_notification target ntfn s)))"

definition tcb_suspend :: "u64 \<Rightarrow> kstate \<Rightarrow> unit result" where
  "tcb_suspend target s = do {
     s1 \<leftarrow> suspend target s;
     (if current_tcb s = Some target then fail Preempted s1 else succeed () s1)
   }"

definition tcb_resume :: "u64 \<Rightarrow> kstate \<Rightarrow> unit result" where
  "tcb_resume target s = do {
     s1 \<leftarrow> resume target s;
     succeed () (case current_tcb s of
       Some caller \<Rightarrow> if caller \<noteq> target then continue_current_once caller s1 else s1
     | None \<Rightarrow> s1)
   }"

definition handle_thread_inner :: "u64 \<Rightarrow> u64 \<Rightarrow> cap \<Rightarrow> u64 \<Rightarrow> u64 \<Rightarrow> bool \<Rightarrow> kstate \<Rightarrow> unit result" where
  "handle_thread_inner thread slot c label_id len reply s = (case as_thread c of
     None \<Rightarrow> fail InvalidCapability s
   | Some target \<Rightarrow>
       let s = remote_tcb_stall target s in
       if label_id = invocation_label_raw TcbConfigure then tcb_configure thread slot target len s
       else if label_id = invocation_label_raw TcbSetSpace then tcb_set_space thread slot target len s
       else if label_id = invocation_label_raw TcbSetIpcBuffer then tcb_set_ipc_buffer thread slot target len s
       else if label_id = invocation_label_raw TcbSetPriority then tcb_set_priority thread len s
       else if label_id = invocation_label_raw TcbSetMcPriority then tcb_set_mc_priority thread len s
       else if label_id = invocation_label_raw TcbSetSchedParams then tcb_set_sched_params thread len s
       else if label_id = invocation_label_raw TcbSuspend then tcb_suspend target s
       else if label_id = invocation_label_raw TcbResume then tcb_resume target s
       else if label_id = invocation_label_raw TcbWriteRegisters then tcb_write_registers thread target len s
       else if label_id = invocation_label_raw TcbReadRegisters then tcb_read_registers thread target len s
       else if label_id = invocation_label_raw TcbCopyRegisters then invoke_tcb_copy_registers thread target len s
       else if label_id = invocation_label_raw TcbBindNotification then tcb_bind_notification thread target s
       else if label_id = invocation_label_raw TcbUnbindNotification then
         (if tcb_bound_notification (tcbs s target) = None then fail IllegalOperation s
          else succeed () (unbind_notification target s))
       else if label_id = invocation_label_raw TcbSetTlsBase then
         (if len < 1 then fail TruncatedMessage s
          else succeed () (set_tls_base target (mr (tcb_context (tcbs s thread)) 0) s))
       else if label_id = invocation_label_raw TcbSetFlags then
         (if len < 2 then fail TruncatedMessage s
          else
            let uc = tcb_context (tcbs s thread); (flags, s1) = set_flags target (mr uc 0) (mr uc 1) s
            in succeed () (if reply then write_reply_mr0 thread flags s1 else s1))
       else fail IllegalOperation s)"

definition handle_thread :: "u64 \<Rightarrow> u64 \<Rightarrow> cap \<Rightarrow> u64 \<Rightarrow> u64 \<Rightarrow> kstate \<Rightarrow> unit result" where
  "handle_thread thread slot c label_id len s = handle_thread_inner thread slot c label_id len True s"

definition handle_thread_send :: "u64 \<Rightarrow> u64 \<Rightarrow> cap \<Rightarrow> u64 \<Rightarrow> u64 \<Rightarrow> kstate \<Rightarrow> unit result" where
  "handle_thread_send thread slot c label_id len s =
     (if \<not> invocation_label_matches label_id TcbSetFlags then succeed () s
      else handle_thread_inner thread slot c label_id len False s)"

section \<open>Register transfer\<close>

text \<open>The message layout of the registers is the frame registers followed by the integer registers.\<close>

lemma context_regs_layout:
  "SEL4_USER_CONTEXT_REGS = SEL4_TCB_FRAME_REGS @ SEL4_TCB_GP_REGS" "distinct SEL4_USER_CONTEXT_REGS"
  "set (tl SEL4_USER_CONTEXT_REGS) = set [1..<32]"
  by code_simp+

lemma fold_write_regs:
  assumes "distinct (map fst regs)" "\<forall>r\<in>set (map fst regs). r < 32"
  shows "uc_regs (fold (\<lambda>(i, v) uc. if i < 32 then uc\<lparr> uc_regs := (uc_regs uc)(i := v) \<rparr> else uc) regs uc) =
    (\<lambda>r. case map_of regs r of Some v \<Rightarrow> v | None \<Rightarrow> uc_regs uc r)"
  using assms
proof (induction regs arbitrary: uc)
  case (Cons p regs)
  then show ?case by (cases p) (auto simp: fun_eq_iff map_of_eq_None_iff image_iff split: option.split)
qed simp

text \<open>
  Copying both halves of the registers makes every general register of the destination equal to the
  source's, and its program counter.
\<close>

lemma copied_registers:
  assumes "copied = snapshot_tcb_copy_registers s src True True" "0 < r" "r < 32"
  shows "uc_regs (tcb_context (tcbs (write_user_context dest (cr_pc copied) (cr_regs copied) s2) dest)) r =
      uc_regs (tcb_context (tcbs s src)) r"
    and "cr_pc copied = Some (uc_restart_pc (tcb_context (tcbs s src)))"
proof -
  let ?f = "\<lambda>r. (r, uc_regs (tcb_context (tcbs s src)) r)"
  have regs: "cr_regs copied = map ?f (tl SEL4_USER_CONTEXT_REGS)"
    unfolding assms(1) snapshot_tcb_copy_registers_def context_regs_layout(1)
    by (simp add: SEL4_TCB_FRAME_REGS_def SEL4_TCB_GP_REGS_def)
  have tl: "set (tl SEL4_USER_CONTEXT_REGS) = {1..<32}" "distinct (tl SEL4_USER_CONTEXT_REGS)"
    using context_regs_layout(2,3) by (simp_all only: distinct_tl set_upt)
  have "map_of (map ?f xs) r = (if r \<in> set xs then Some (uc_regs (tcb_context (tcbs s src)) r) else None)" for xs
    by (induction xs) auto
  moreover have "map fst (cr_regs copied) = tl SEL4_USER_CONTEXT_REGS" by (simp add: regs o_def)
  ultimately show "uc_regs (tcb_context (tcbs (write_user_context dest (cr_pc copied) (cr_regs copied) s2) dest)) r =
      uc_regs (tcb_context (tcbs s src)) r"
    using assms(2,3) tl regs
    by (simp add: write_user_context_def upd_context_def upd_tcb_def Let_def fold_write_regs)
  show "cr_pc copied = Some (uc_restart_pc (tcb_context (tcbs s src)))"
    by (simp add: assms(1) snapshot_tcb_copy_registers_def user_context_word_def)
qed

end
