(* ===== verification/Rel4_Ipc.thy ===== *)
theory Rel4_Ipc
  imports Rel4_Threads
begin

text \<open>
  Message passing: the transfer of messages and capabilities between two threads, and the send,
  receive, call and reply operations on endpoints (\<^verbatim>\<open>api/ipc.rs\<close>), together with the delivery of
  faults to a handler endpoint (\<^verbatim>\<open>arch/riscv64/kernel/trap.rs\<close>), which they use.

  The saved registers \<^verbatim>\<open>uc\<close> of the running thread are the context in its thread control block.
\<close>

section \<open>Capability transfer\<close>

definition MSG_MAX_LENGTH :: u64 where "MSG_MAX_LENGTH = 120"
definition MSG_MAX_EXTRA_CAPS :: u64 where "MSG_MAX_EXTRA_CAPS = 3"
definition MR_REG_COUNT :: u64 where "MR_REG_COUNT = 4"

definition NO_EXTRA_CAPS :: "u64 option list" where "NO_EXTRA_CAPS = [None, None, None]"

datatype ipc_buffer_slot = CapsOrBadges | ReceiveCNode | ReceiveIndex | ReceiveDepth

fun ipc_buffer_slot_index :: "ipc_buffer_slot \<Rightarrow> nat" where
  "ipc_buffer_slot_index CapsOrBadges = 122"
| "ipc_buffer_slot_index ReceiveCNode = 125"
| "ipc_buffer_slot_index ReceiveIndex = 126"
| "ipc_buffer_slot_index ReceiveDepth = 127"

text \<open>The inner option of a lookup: \<^verbatim>\<open>None\<close> of the source, the error being dropped by \<^verbatim>\<open>ok()\<close>.\<close>

definition lookup_cap_in_tcb :: "kstate \<Rightarrow> u64 \<Rightarrow> u64 \<Rightarrow> (cap \<times> u64) option option" where
  "lookup_cap_in_tcb s t cptr =
     (let root = cspace_cap s t in
      if tag root \<noteq> Some TagCNode then Some None
      else do {
        r \<leftarrow> lookup_cap_in s root cptr WORD_BITS;
        Some (case r of
          Inl _ \<Rightarrow> None
        | Inr (c, slot) \<Rightarrow> if is_null c then None else Some (c, slot))
      })"

definition lookup_slot_in_tcb :: "kstate \<Rightarrow> u64 \<Rightarrow> u64 \<Rightarrow> u64 option option" where
  "lookup_slot_in_tcb s t cptr =
     (let root = cspace_cap s t in
      if tag root \<noteq> Some TagCNode then Some None
      else do {
        r \<leftarrow> lookup_slot_in s root cptr WORD_BITS;
        Some (case r of
          Inl _ \<Rightarrow> None
        | Inr res \<Rightarrow> if lr_bits_remaining res \<noteq> 0 then None else Some (lr_slot res))
      })"

definition receive_slot_in :: "kstate \<Rightarrow> cap \<Rightarrow> u64 \<Rightarrow> nat \<Rightarrow> u64 option option" where
  "receive_slot_in s root_cap index depth =
     (if tag root_cap \<noteq> Some TagCNode \<or> WORD_BITS < depth then Some None
      else do {
        r \<leftarrow> lookup_slot_in s root_cap index depth;
        Some (case r of
          Inl _ \<Rightarrow> None
        | Inr res \<Rightarrow>
            if lr_bits_remaining res \<noteq> 0 \<or> \<not> slot_is_empty (ctes s) (lr_slot res) then None
            else Some (lr_slot res))
      })"

definition get_receive_slot :: "kstate \<Rightarrow> u64 \<Rightarrow> u64 option option" where
  "get_receive_slot s receiver = (case tcb_ipc_buffer (tcbs s receiver) of
     None \<Rightarrow> Some None
   | Some buffer \<Rightarrow>
       let root_cptr = buffer_word s buffer (ipc_buffer_slot_index ReceiveCNode);
           index = buffer_word s buffer (ipc_buffer_slot_index ReceiveIndex);
           raw_depth = buffer_word s buffer (ipc_buffer_slot_index ReceiveDepth);
           depth = (if raw_depth = 0 then WORD_BITS else unat (raw_depth AND 0xFFFFFFFF))
       in do {
         r \<leftarrow> lookup_cap_in_tcb s receiver root_cptr;
         (case r of None \<Rightarrow> Some None | Some (root_cap, _) \<Rightarrow> receive_slot_in s root_cap index depth)
       })"

text \<open>The loop over the extra capabilities; \<open>receive_slot\<close> is cleared by the first insertion.\<close>

fun transfer_caps_loop :: "u64 \<Rightarrow> u64 option \<Rightarrow> u64 option list \<Rightarrow> nat list \<Rightarrow> u64 option \<Rightarrow> u64 \<Rightarrow> u64 \<Rightarrow> kstate
    \<Rightarrow> ((u64 \<times> u64) \<times> kstate) option" where
  "transfer_caps_loop buffer endpoint slots [] receive_slot unwrapped transferred s = Some ((unwrapped, transferred), s)"
| "transfer_caps_loop buffer endpoint slots (i # is) receive_slot unwrapped transferred s = (case slots ! i of
     None \<Rightarrow> Some ((unwrapped, transferred), s)
   | Some src_slot \<Rightarrow>
       let src_cap = slot_cap (ctes s) src_slot in
       if is_null src_cap then Some ((unwrapped, transferred), s)
       else if endpoint \<noteq> None \<and> as_endpoint src_cap = endpoint then
         (let (written, s1) = buffer_set_word buffer (ipc_buffer_slot_index CapsOrBadges + i) (endpoint_badge src_cap) s in
          if \<not> written then Some ((unwrapped, transferred), s1)
          else transfer_caps_loop buffer endpoint slots is receive_slot (unwrapped OR shl64 1 i) (of_nat i + 1) s1)
       else (case receive_slot of
         None \<Rightarrow> Some ((unwrapped, transferred), s)
       | Some dst \<Rightarrow> do {
           (r, s1) \<leftarrow> derive_cap_for_copy src_slot src_cap s;
           (case r of
              Inl _ \<Rightarrow> Some ((unwrapped, transferred), s1)
            | Inr derived \<Rightarrow>
                if is_null derived \<or> \<not> slot_is_empty (ctes s1) dst then Some ((unwrapped, transferred), s1)
                else do {
                  s2 \<leftarrow> upd_ctes_opt (cte_insert src_slot derived dst) s1;
                  transfer_caps_loop buffer endpoint slots is None unwrapped (of_nat i + 1) s2
                })
         }))"

definition transfer_caps :: "u64 \<Rightarrow> u64 \<Rightarrow> u64 option \<Rightarrow> bool \<Rightarrow> u64 option list \<Rightarrow> kstate
    \<Rightarrow> ((u64 \<times> u64) \<times> kstate) option" where
  "transfer_caps receiver info_in endpoint can_grant slots s =
     (if \<not> can_grant then Some ((0, 0), s)
      else
        let requested = min (mi_extra_caps info_in) MSG_MAX_EXTRA_CAPS in
        if requested = 0 \<or> slots ! 0 = None then Some ((0, 0), s)
        else case tcb_ipc_buffer (tcbs s receiver) of
          None \<Rightarrow> Some ((0, 0), s)
        | Some buffer \<Rightarrow> do {
            receive_slot \<leftarrow> get_receive_slot s receiver;
            transfer_caps_loop buffer endpoint slots [0..<unat requested] receive_slot 0 0 s
          })"

fun snapshot_loop :: "u64 \<Rightarrow> u64 \<Rightarrow> nat list \<Rightarrow> u64 option list \<Rightarrow> kstate \<Rightarrow> (u64 + u64 option list) option" where
  "snapshot_loop sender buffer [] slots s = Some (Inr slots)"
| "snapshot_loop sender buffer (i # is) slots s = (
     let cptr = buffer_word s buffer (ipc_buffer_slot_index CapsOrBadges + i) in do {
       r \<leftarrow> lookup_slot_in_tcb s sender cptr;
       (case r of None \<Rightarrow> Some (Inl cptr) | Some slot \<Rightarrow> snapshot_loop sender buffer is (slots[i := Some slot]) s)
     })"

definition snapshot_extra_cap_slots :: "u64 \<Rightarrow> u64 \<Rightarrow> bool \<Rightarrow> kstate \<Rightarrow> (u64 + u64 option list) option" where
  "snapshot_extra_cap_slots sender info can_grant s =
     (if \<not> can_grant then Some (Inr NO_EXTRA_CAPS)
      else
        let requested = unat (min (mi_extra_caps info) MSG_MAX_EXTRA_CAPS) in
        case tcb_ipc_buffer (tcbs s sender) of
          None \<Rightarrow> Some (Inr NO_EXTRA_CAPS)
        | Some buffer \<Rightarrow>
            if requested = 0 then Some (Inr NO_EXTRA_CAPS)
            else snapshot_loop sender buffer [0..<requested] NO_EXTRA_CAPS s)"

section \<open>Message transfer\<close>

text \<open>Words beyond the registers need a buffer on both sides; the length that arrives is answered.\<close>

definition copy_buffer_words :: "u64 \<Rightarrow> u64 \<Rightarrow> u64 \<Rightarrow> kstate \<Rightarrow> u64 \<times> kstate" where
  "copy_buffer_words sender receiver len s =
     (if MR_REG_COUNT < len then
        (case (tcb_ipc_buffer (tcbs s sender), tcb_ipc_buffer (tcbs s receiver)) of
           (Some from, Some to) \<Rightarrow>
             (len, snd (buffer_copy_words_from to from (1 + unat MR_REG_COUNT) (unat (len - MR_REG_COUNT)) s))
         | _ \<Rightarrow> (MR_REG_COUNT, s))
      else (len, s))"

definition transfer_message :: "u64 \<Rightarrow> u64 \<Rightarrow> u64 \<Rightarrow> u64 \<Rightarrow> u64 option \<Rightarrow> bool \<Rightarrow> u64 option list \<Rightarrow> kstate \<Rightarrow> kstate option" where
  "transfer_message sender receiver info_in badge endpoint can_grant slots s =
     (let label = mi_label info_in;
          len = min (mi_length info_in) MSG_MAX_LENGTH;
          s1 = write_ipc_message_regs receiver badge (ipc_message_regs s sender len) len s;
          (transferred_length, s2) = copy_buffer_words sender receiver len s1
      in do {
        ((caps_unwrapped, extra_caps), s3) \<leftarrow> transfer_caps receiver info_in endpoint can_grant slots s2;
        Some (write_message_info receiver (message_info_new label caps_unwrapped extra_caps transferred_length) s3)
      })"

definition transfer_fault_message :: "u64 \<Rightarrow> u64 \<Rightarrow> u64 \<Rightarrow> kstate \<Rightarrow> kstate" where
  "transfer_fault_message sender receiver badge s =
     (let x = tcbs s sender;
          len = min (tcb_fault_len x) MSG_MAX_LENGTH;
          info_out = message_info_new (tcb_fault_label x) 0 0 len;
          s1 = write_fault_ipc_message_regs receiver badge info_out (tcb_fault_mrs x) len s;
          copied_len = min len (of_nat (length (tcb_fault_mrs x)))
      in if MR_REG_COUNT < copied_len then
           (case tcb_ipc_buffer (tcbs s1 receiver) of
              Some buffer \<Rightarrow>
                snd (buffer_set_words buffer (1 + unat MR_REG_COUNT)
                  (drop (unat MR_REG_COUNT) (take (unat copied_len) (tcb_fault_mrs x))) s1)
            | None \<Rightarrow> s1)
         else s1)"

section \<open>Faults\<close>

datatype exception_code =
    InstructionAccessFault | IllegalInstruction | LoadAccessFault | StoreAccessFault
  | EnvironmentCallFromUser | InstructionPageFault | LoadPageFault | StorePageFault

definition exception_code_from_raw :: "u64 \<Rightarrow> exception_code option" where
  "exception_code_from_raw v =
     (if v = 1 then Some InstructionAccessFault
      else if v = 2 then Some IllegalInstruction
      else if v = 5 then Some LoadAccessFault
      else if v = 7 then Some StoreAccessFault
      else if v = 8 then Some EnvironmentCallFromUser
      else if v = 12 then Some InstructionPageFault
      else if v = 13 then Some LoadPageFault
      else if v = 15 then Some StorePageFault
      else None)"

text \<open>The array of fault registers, filled up with zeros.\<close>

definition fault_mrs :: "u64 list \<Rightarrow> u64 list" where
  "fault_mrs vs = vs @ replicate (FAULT_IPC_MRS - length vs) 0"

definition vm_fault_message :: "bool \<Rightarrow> u64 \<Rightarrow> u64 \<Rightarrow> user_context \<Rightarrow> u64 \<times> u64 \<times> u64 list" where
  "vm_fault_message instruction fsr stval uc =
     (fault_label_raw FlVmFault, 4, fault_mrs [uc_pc uc, stval, of_bool instruction, fsr])"

definition fault_message :: "u64 \<Rightarrow> u64 \<Rightarrow> user_context \<Rightarrow> u64 \<times> u64 \<times> u64 list" where
  "fault_message code stval uc = (case exception_code_from_raw code of
     Some InstructionAccessFault \<Rightarrow> vm_fault_message True 1 stval uc
   | Some InstructionPageFault \<Rightarrow> vm_fault_message True 1 stval uc
   | Some LoadAccessFault \<Rightarrow> vm_fault_message False 5 stval uc
   | Some LoadPageFault \<Rightarrow> vm_fault_message False 5 stval uc
   | Some StoreAccessFault \<Rightarrow> vm_fault_message False 7 stval uc
   | Some StorePageFault \<Rightarrow> vm_fault_message False 7 stval uc
   | _ \<Rightarrow> (fault_label_raw FlUserException, 4, fault_mrs [uc_pc uc, uc_get Sp uc, code, 0]))"

definition FAULT_MR_REG_COUNT :: u64 where "FAULT_MR_REG_COUNT = 4"

definition write_fault_ipc_message :: "u64 \<Rightarrow> u64 \<Rightarrow> u64 \<Rightarrow> u64 \<Rightarrow> u64 list \<Rightarrow> kstate \<Rightarrow> kstate" where
  "write_fault_ipc_message receiver badge label len mrs s =
     (let s1 = write_fault_ipc_message_regs receiver badge (message_info_new label 0 0 len) mrs len s;
          copied_len = min len (of_nat (length mrs))
      in if FAULT_MR_REG_COUNT < copied_len then
           (case tcb_ipc_buffer (tcbs s1 receiver) of
              Some buffer \<Rightarrow>
                snd (buffer_set_words buffer (1 + unat FAULT_MR_REG_COUNT)
                  (drop (unat FAULT_MR_REG_COUNT) (take (unat copied_len) mrs)) s1)
            | None \<Rightarrow> s1)
         else s1)"

definition clear_waiting_on :: "u64 \<Rightarrow> kstate \<Rightarrow> kstate" where
  "clear_waiting_on t s = upd_tcb t (\<lambda>x. x\<lparr> tcb_waiting_on := None \<rparr>) s"

definition finish_fault_ipc_receive :: "u64 \<Rightarrow> u64 \<Rightarrow> cap \<Rightarrow> kstate \<Rightarrow> kstate option" where
  "finish_fault_ipc_receive receiver fault_tcb handler_cap s =
     (let (receiver_can_grant, s1) = start_receiver_rendezvous receiver s in do {
        s2 \<leftarrow> (if endpoint_can_grant handler_cap \<or> endpoint_can_grant_reply handler_cap
               then do {
                 sd \<leftarrow> dequeue fault_tcb s1;
                 (ok, sc) \<leftarrow> setup_caller_cap fault_tcb receiver receiver_can_grant sd;
                 Some (if ok then sc else clear_waiting_on fault_tcb (set_inactive fault_tcb sc))
               }
               else Some (clear_waiting_on fault_tcb (set_inactive fault_tcb s1)));
        enqueue receiver (finish_receiver_rendezvous receiver s2)
      })"

text \<open>The endpoint capability a thread named as its fault handler.\<close>

definition fault_handler_cap :: "kstate \<Rightarrow> u64 \<Rightarrow> cap option" where
  "fault_handler_cap s t =
     (let cptr = tcb_fault_endpoint_cptr (tcbs s t) in
      if cptr = 0 then Some null_cap
      else do {
        r \<leftarrow> lookup_cap_in s (cspace_cap s t) cptr WORD_BITS;
        Some (case r of Inr (c, _) \<Rightarrow> c | Inl _ \<Rightarrow> null_cap)
      })"

definition deliver_fault_ipc :: "u64 \<Rightarrow> u64 \<Rightarrow> cap \<Rightarrow> u64 \<Rightarrow> u64 \<Rightarrow> u64 list \<Rightarrow> kstate \<Rightarrow> kstate option" where
  "deliver_fault_ipc cur ep handler_cap label len mrs s =
     (let (popped, s1) = pop_receiver ep (record_fault_message cur label len mrs s) in
      case popped of
        None \<Rightarrow> do {
          s2 \<leftarrow> dequeue cur s1;
          Some (ep_enqueue_waiter ep cur EpSending
            (set_blocked_fault_sender cur ep (endpoint_badge handler_cap) (endpoint_can_grant handler_cap)
              (endpoint_can_grant_reply handler_cap) label len mrs s2))
        }
      | Some receiver \<Rightarrow>
          finish_fault_ipc_receive receiver cur handler_cap
            (write_fault_ipc_message receiver (endpoint_badge handler_cap) label len mrs s1))"

definition send_synthetic_fault_ipc :: "u64 \<Rightarrow> u64 \<Rightarrow> u64 list \<Rightarrow> kstate \<Rightarrow> (bool \<times> kstate) option" where
  "send_synthetic_fault_ipc label len mrs s = (case current_tcb s of
     None \<Rightarrow> Some (False, s)
   | Some cur \<Rightarrow> do {
       handler_cap \<leftarrow> fault_handler_cap s cur;
       (if tag handler_cap \<noteq> Some TagEndpoint \<or> \<not> endpoint_can_send handler_cap
            \<or> \<not> (endpoint_can_grant handler_cap \<or> endpoint_can_grant_reply handler_cap)
        then Some (False, s)
        else case as_endpoint handler_cap of
          None \<Rightarrow> Some (False, s)
        | Some ep \<Rightarrow> do { s1 \<leftarrow> deliver_fault_ipc cur ep handler_cap label len mrs s; Some (True, s1) })
     })"

text \<open>\<open>send_fault_ipc\<close> repeats the checks of \<open>send_synthetic_fault_ipc\<close>; \<open>uc\<close> is the trapping context.\<close>

definition send_fault_ipc :: "user_context \<Rightarrow> u64 \<Rightarrow> u64 \<Rightarrow> kstate \<Rightarrow> (bool \<times> kstate) option" where
  "send_fault_ipc uc code stval s = (case current_tcb s of
     None \<Rightarrow> Some (False, s)
   | Some cur \<Rightarrow> do {
       handler_cap \<leftarrow> fault_handler_cap s cur;
       (if tag handler_cap \<noteq> Some TagEndpoint \<or> \<not> endpoint_can_send handler_cap
            \<or> \<not> (endpoint_can_grant handler_cap \<or> endpoint_can_grant_reply handler_cap)
        then Some (False, s)
        else case as_endpoint handler_cap of
          None \<Rightarrow> Some (False, s)
        | Some ep \<Rightarrow>
            let (label, len, mrs) = fault_message code stval uc in
            do { s1 \<leftarrow> deliver_fault_ipc cur ep handler_cap label len mrs s; Some (True, s1) })
     })"

definition send_cap_fault_ipc :: "user_context \<Rightarrow> u64 \<Rightarrow> bool \<Rightarrow> kstate \<Rightarrow> (bool \<times> kstate) option" where
  "send_cap_fault_ipc uc addr in_recv_phase s =
     send_synthetic_fault_ipc (fault_label_raw FlCapFault) 5
       (fault_mrs [uc_restart_pc uc, addr, of_bool in_recv_phase, 1, 0]) s"

definition send_unknown_syscall_fault :: "user_context \<Rightarrow> u64 \<Rightarrow> kstate \<Rightarrow> (bool \<times> kstate) option" where
  "send_unknown_syscall_fault uc sysno s =
     send_synthetic_fault_ipc (fault_label_raw FlUnknownSyscall) 11
       (fault_mrs [uc_restart_pc uc, uc_get Sp uc, uc_get Ra uc, uc_get A0 uc, uc_get A1 uc, uc_get A2 uc,
          uc_get A3 uc, uc_get A4 uc, uc_get A5 uc, uc_get A6 uc, sysno]) s"

section \<open>Blocking and completing\<close>

text \<open>
  In the operations below \<open>thread\<close> is the thread whose saved registers the source passes as \<^verbatim>\<open>uc\<close>.
\<close>

definition lookup_endpoint :: "kstate \<Rightarrow> u64 \<Rightarrow> (cap \<times> u64 \<times> u64) option option" where
  "lookup_endpoint s cptr = do {
     r \<leftarrow> lookup_cap_current s cptr;
     Some (case r of
       Inl _ \<Rightarrow> None
     | Inr (c, _) \<Rightarrow> (case as_endpoint c of None \<Rightarrow> None | Some ep \<Rightarrow> Some (c, ep, endpoint_badge c)))
   }"

definition block_sender :: "u64 \<Rightarrow> u64 \<Rightarrow> bool \<Rightarrow> u64 \<Rightarrow> bool \<Rightarrow> bool \<Rightarrow> u64 option list \<Rightarrow> kstate \<Rightarrow> kstate option" where
  "block_sender ep cur is_call badge can_grant can_grant_reply slots s = do {
     s1 \<leftarrow> dequeue cur s;
     Some (ep_enqueue_waiter ep cur EpSending
       (set_blocked_sender cur ep is_call badge can_grant can_grant_reply slots s1))
   }"

definition block_receiver :: "u64 \<Rightarrow> u64 \<Rightarrow> bool \<Rightarrow> kstate \<Rightarrow> kstate option" where
  "block_receiver ep cur can_grant s = do {
     s1 \<leftarrow> dequeue cur s;
     Some (ep_enqueue_waiter ep cur EpReceiving (set_blocked_receiver cur ep can_grant s1))
   }"

definition park_call_sender :: "u64 \<Rightarrow> u64 \<Rightarrow> bool \<Rightarrow> kstate \<Rightarrow> kstate option" where
  "park_call_sender sender receiver can_grant s = do {
     (ok, s1) \<leftarrow> setup_caller_cap sender receiver can_grant s;
     Some (if ok then finish_call_sender_after_rendezvous sender True s1
           else if fst (sender_fault s1 sender) then clear_waiting_on sender (set_inactive sender s1)
           else deactivate_queued_call_sender sender s1)
   }"

definition clear_message_regs :: "u64 \<Rightarrow> u64 \<Rightarrow> kstate \<Rightarrow> kstate" where
  "clear_message_regs thread badge s =
     upd_context thread (\<lambda>uc. fold (\<lambda>i. set_mr i 0) [0..<4] (set_msg_info 0 (set_cap_reg badge uc))) s"

definition zero_buffer_mrs :: "u64 option \<Rightarrow> kstate \<Rightarrow> kstate" where
  "zero_buffer_mrs buffer s = (case buffer of Some b \<Rightarrow> snd (buffer_zero_words b 1 4 s) | None \<Rightarrow> s)"

definition write_bound_notification_reply :: "u64 \<Rightarrow> u64 \<Rightarrow> u64 \<Rightarrow> kstate \<Rightarrow> kstate" where
  "write_bound_notification_reply thread cur badge s =
     (let s1 = clear_message_regs thread badge s in zero_buffer_mrs (tcb_ipc_buffer (tcbs s1 cur)) s1)"

definition write_empty_reply :: "u64 \<Rightarrow> kstate \<Rightarrow> kstate" where
  "write_empty_reply thread s =
     (let s1 = clear_message_regs thread 0 s
      in zero_buffer_mrs (Option.bind (current_tcb s1) (\<lambda>t. tcb_ipc_buffer (tcbs s1 t))) s1)"

text \<open>The latched badge of the bound notification, if there is one.\<close>

definition take_bound_badge :: "u64 \<Rightarrow> kstate \<Rightarrow> u64 option \<times> kstate" where
  "take_bound_badge cur s = (case tcb_bound_notification (tcbs s cur) of
     None \<Rightarrow> (None, s)
   | Some n \<Rightarrow> consume_active n s)"

definition consume_bound_notification_if_active :: "u64 \<Rightarrow> u64 \<Rightarrow> kstate \<Rightarrow> bool \<times> kstate" where
  "consume_bound_notification_if_active thread cur s =
     (let (badge, s1) = take_bound_badge cur s in
      case badge of
        None \<Rightarrow> (False, s1)
      | Some b \<Rightarrow> (True, write_bound_notification_reply thread cur b s1))"

definition complete_receive_from_sender :: "u64 \<Rightarrow> u64 \<Rightarrow> u64 \<Rightarrow> bool \<Rightarrow> kstate \<Rightarrow> kstate option" where
  "complete_receive_from_sender cur sender ep receiver_can_grant s =
     (let q = queued_sender s sender in do {
        s1 \<leftarrow> (if qs_is_fault q then Some (transfer_fault_message sender cur (qs_badge q) s)
               else transfer_message sender cur (qs_info_word q) (qs_badge q) (Some ep) (qs_can_grant q)
                      (qs_extra_cap_slots q) s);
        (if qs_is_call q then
           (if qs_can_grant q \<or> qs_can_grant_reply q then park_call_sender sender cur receiver_can_grant s1
            else Some (deactivate_queued_call_sender sender s1))
         else enqueue sender (wake_queued_sender sender s1))
      })"

section \<open>Send, receive, call, reply\<close>

definition send :: "u64 \<Rightarrow> bool \<Rightarrow> kstate \<Rightarrow> kstate option" where
  "send thread blocking s =
     (let uc = tcb_context (tcbs s thread); info = msg_info uc in do {
        found \<leftarrow> lookup_endpoint s (cap_reg uc);
        (case found of
           None \<Rightarrow> Some s
         | Some (c, ep, badge) \<Rightarrow>
             if \<not> endpoint_can_send c then Some s
             else (case current_tcb s of
               None \<Rightarrow> Some s
             | Some cur \<Rightarrow> do {
                 snap \<leftarrow> snapshot_extra_cap_slots cur info (endpoint_can_grant c) s;
                 (case snap of
                    Inl bad_cptr \<Rightarrow>
                      if blocking then map_option snd (send_cap_fault_ipc uc bad_cptr False s) else Some s
                  | Inr slots \<Rightarrow>
                      (case pop_receiver ep s of
                         (None, s1) \<Rightarrow>
                           if blocking
                           then block_sender ep cur False badge (endpoint_can_grant c) (endpoint_can_grant_reply c) slots s1
                           else Some s1
                       | (Some receiver, s1) \<Rightarrow> do {
                           s2 \<leftarrow> transfer_message cur receiver info badge (Some ep) (endpoint_can_grant c) slots s1;
                           enqueue receiver (wake_blocked_receiver_after_send receiver s2)
                         }))
               }))
      })"

definition recv :: "u64 \<Rightarrow> bool \<Rightarrow> kstate \<Rightarrow> kstate option" where
  "recv thread blocking s =
     (let uc = tcb_context (tcbs s thread); cptr = cap_reg uc in do {
        found \<leftarrow> lookup_endpoint s cptr;
        (case found of
           None \<Rightarrow> Some (write_empty_reply thread s)
         | Some (c, ep, _) \<Rightarrow>
             if \<not> endpoint_can_receive c then do {
               (sent, s1) \<leftarrow> send_cap_fault_ipc uc cptr True s;
               Some (if \<not> sent then write_empty_reply thread s1 else s1)
             }
             else (case current_tcb s of
               None \<Rightarrow> Some (write_empty_reply thread s)
             | Some cur \<Rightarrow> do {
                 s1 \<leftarrow> delete_caller_cap cur s;
                 (case pop_sender ep s1 of
                    (Some sender, s2) \<Rightarrow> complete_receive_from_sender cur sender ep (endpoint_can_grant c) s2
                  | (None, s2) \<Rightarrow>
                      if \<not> blocking then
                        (let (consumed, s3) = consume_bound_notification_if_active thread cur s2
                         in Some (if \<not> consumed then write_empty_reply thread s3 else s3))
                      else (case take_bound_badge cur s2 of
                        (Some badge, s3) \<Rightarrow> Some (write_bound_notification_reply thread cur badge s3)
                      | (None, s3) \<Rightarrow> block_receiver ep cur (endpoint_can_grant c) s3))
               }))
      })"

definition call :: "u64 \<Rightarrow> kstate \<Rightarrow> kstate option" where
  "call thread s =
     (let uc = tcb_context (tcbs s thread); info = msg_info uc in do {
        found \<leftarrow> lookup_endpoint s (cap_reg uc);
        (case found of
           None \<Rightarrow> Some s
         | Some (c, ep, badge) \<Rightarrow>
             if \<not> endpoint_can_send c then Some s
             else (case current_tcb s of
               None \<Rightarrow> Some s
             | Some cur \<Rightarrow> do {
                 snap \<leftarrow> snapshot_extra_cap_slots cur info (endpoint_can_grant c) s;
                 (case snap of
                    Inl bad_cptr \<Rightarrow> map_option snd (send_cap_fault_ipc uc bad_cptr False s)
                  | Inr slots \<Rightarrow>
                      (case pop_receiver ep s of
                         (None, s1) \<Rightarrow>
                           block_sender ep cur True badge (endpoint_can_grant c) (endpoint_can_grant_reply c) slots s1
                       | (Some receiver, s1) \<Rightarrow> do {
                           s2 \<leftarrow> transfer_message cur receiver info badge (Some ep) (endpoint_can_grant c) slots s1;
                           let (receiver_can_grant, s3) = start_receiver_rendezvous receiver s2;
                           s4 \<leftarrow> dequeue cur s3;
                           s5 \<leftarrow> (if endpoint_can_grant c \<or> endpoint_can_grant_reply c
                                  then park_call_sender cur receiver receiver_can_grant s4
                                  else Some (finish_call_sender_after_rendezvous cur False s4));
                           enqueue receiver (finish_receiver_rendezvous receiver s5)
                         }))
               }))
      })"

definition reply_mr :: "kstate \<Rightarrow> u64 \<Rightarrow> user_context \<Rightarrow> nat \<Rightarrow> u64" where
  "reply_mr s sender uc i =
     (if i < 4 then mr uc i
      else case tcb_ipc_buffer (tcbs s sender) of Some buffer \<Rightarrow> buffer_word s buffer (1 + i) | None \<Rightarrow> 0)"

definition USER_EXCEPTION_SP_REG :: nat where "USER_EXCEPTION_SP_REG = reg_index Sp"

definition apply_user_exception_reply :: "u64 \<Rightarrow> user_context \<Rightarrow> u64 \<Rightarrow> u64 \<Rightarrow> kstate \<Rightarrow> kstate" where
  "apply_user_exception_reply sender uc caller len s =
     (let n = min len 2 in
      write_user_context caller
        (if 1 \<le> n then Some (reply_mr s sender uc 0) else None)
        (if 2 \<le> n then [(USER_EXCEPTION_SP_REG, reply_mr s sender uc 1)] else []) s)"

definition UNKNOWN_SYSCALL_FAULT_IP_MR :: nat where "UNKNOWN_SYSCALL_FAULT_IP_MR = 0"

definition UNKNOWN_SYSCALL_REPLY_REGS :: "nat list" where
  "UNKNOWN_SYSCALL_REPLY_REGS = [0, reg_index Sp, reg_index Ra, reg_index A0, reg_index A1, reg_index A2, reg_index A3,
     reg_index A4, reg_index A5, reg_index A6, 0]"

definition apply_unknown_syscall_reply :: "u64 \<Rightarrow> user_context \<Rightarrow> u64 \<Rightarrow> u64 \<Rightarrow> kstate \<Rightarrow> kstate" where
  "apply_unknown_syscall_reply sender uc caller len s =
     (let n = unat (min len (of_nat (length UNKNOWN_SYSCALL_REPLY_REGS)));
          taken = take n (enumerate 0 UNKNOWN_SYSCALL_REPLY_REGS);
          pc = (if UNKNOWN_SYSCALL_FAULT_IP_MR < n then Some (reply_mr s sender uc UNKNOWN_SYSCALL_FAULT_IP_MR) else None);
          regs = List.map_filter (\<lambda>(i, reg). if i \<noteq> UNKNOWN_SYSCALL_FAULT_IP_MR \<and> reg \<noteq> 0
                   then Some (reg, reply_mr s sender uc i) else None) taken
      in write_user_context caller pc regs s)"

definition reply_to_tcb :: "u64 \<Rightarrow> u64 \<Rightarrow> bool \<Rightarrow> kstate \<Rightarrow> kstate option" where
  "reply_to_tcb thread caller can_grant s = (case current_tcb s of
     None \<Rightarrow> Some s
   | Some cur \<Rightarrow>
       let uc = tcb_context (tcbs s thread); info = msg_info uc; (was_fault, label) = sender_fault s caller in do {
         (wake_caller, s1) \<leftarrow>
           (if \<not> was_fault then map_option (Pair True) (transfer_message cur caller info 0 None can_grant NO_EXTRA_CAPS s)
            else if mi_label info = 0 then
              Some (True,
                if label = fault_label_raw FlUnknownSyscall then apply_unknown_syscall_reply cur uc caller (mi_length info) s
                else if label = fault_label_raw FlUserException then apply_user_exception_reply cur uc caller (mi_length info) s
                else s)
            else Some (label \<noteq> fault_label_raw FlUnknownSyscall \<and> label \<noteq> fault_label_raw FlUserException, s));
         let s2 = finish_reply_state caller was_fault wake_caller s1;
         (if wake_caller then enqueue caller (upd_links (clear_links caller) s2) else Some s2)
       })"

definition handle_reply_slot :: "u64 \<Rightarrow> cap \<times> u64 \<Rightarrow> kstate \<Rightarrow> kstate option" where
  "handle_reply_slot thread cs s = (case as_reply_thread (fst cs) of
     None \<Rightarrow> Some s
   | Some caller \<Rightarrow>
       if reply_is_master (fst cs) \<or> Some caller = current_tcb s then Some s
       else do {
         s1 \<leftarrow> reply_to_tcb thread caller (reply_can_grant (fst cs)) s;
         cte_delete_one (snd cs) s1
       })"

definition reply :: "u64 \<Rightarrow> kstate \<Rightarrow> kstate option" where
  "reply thread s = (case current_tcb s of
     None \<Rightarrow> Some s
   | Some cur \<Rightarrow>
       (case caller_reply_cap s cur of
          Some slot \<Rightarrow> handle_reply_slot thread slot s
        | None \<Rightarrow> Some s))"

definition reply_recv :: "u64 \<Rightarrow> kstate \<Rightarrow> kstate option" where
  "reply_recv thread s = Option.bind (reply thread s) (recv thread True)"

section \<open>A message arrives as it was sent\<close>

text \<open>The words of a thread's message: four registers, then the words of its buffer.\<close>

definition message_word :: "kstate \<Rightarrow> u64 \<Rightarrow> nat \<Rightarrow> u64" where
  "message_word s t i =
     (if i < 4 then mr (tcb_context (tcbs s t)) i
      else case tcb_ipc_buffer (tcbs s t) of Some b \<Rightarrow> buffer_word s b (1 + i) | None \<Rightarrow> 0)"

text \<open>Without a buffer on both sides only the registers are transferred.\<close>

definition delivered_length :: "kstate \<Rightarrow> u64 \<Rightarrow> u64 \<Rightarrow> u64 \<Rightarrow> u64" where
  "delivered_length s sender receiver info =
     (if tcb_ipc_buffer (tcbs s sender) = None \<or> tcb_ipc_buffer (tcbs s receiver) = None
      then min (mi_length info) MR_REG_COUNT else min (mi_length info) MSG_MAX_LENGTH)"

lemma word_addr_inj:
  fixes b :: u64
  assumes "i < 128" "j < 128"
  shows "(b + of_nat (i * 8) = b + of_nat (j * 8)) = (i = j)"
proof -
  have "take_bit 64 (i * 8) = i * 8" "take_bit 64 (j * 8) = j * 8"
    using assms by (simp_all add: take_bit_nat_eq_self)
  then show ?thesis by (simp add: word_of_nat_eq_iff del: of_nat_mult)
qed

lemma write_words_word:
  "start + length vs \<le> 128 \<Longrightarrow> j < 128 \<Longrightarrow> write_words b start vs m (b + of_nat (j * 8)) =
     (if start \<le> j \<and> j < start + length vs then vs ! (j - start) else m (b + of_nat (j * 8)))"
proof (induction vs arbitrary: start m)
  case (Cons v vs)
  have "(b + of_nat (j * 8) = b + of_nat (start * 8)) = (j = start)" using Cons.prems by (intro word_addr_inj) auto
  then show ?case using Cons.IH [of "Suc start"] Cons.prems by (auto simp: nth_Cons')
qed auto

lemma fold_set_mr:
  assumes "k \<le> 4"
  shows "mr (fold (\<lambda>i. set_mr i (f i)) [0..<k] uc) j = (if j < k then f j else mr uc j)"
    "cap_reg (fold (\<lambda>i. set_mr i (f i)) [0..<k] uc) = cap_reg uc"
    "msg_info (fold (\<lambda>i. set_mr i (f i)) [0..<k] uc) = msg_info uc"
  using assms by (induction k) auto

lemma message_info_fields:
  assumes "n \<le> 120"
  shows "mi_label (message_info_new (mi_label w) 0 0 n) = mi_label w"
    "mi_length (message_info_new (mi_label w) 0 0 n) = n" "mi_extra_caps (message_info_new (mi_label w) 0 0 n) = 0"
proof -
  have m: "0x000FFFFFFFFFFFFF = (mask 52 :: u64)" "0x7F = (mask 7 :: u64)" "3 = (mask 2 :: u64)"
    by (simp_all add: mask_eq_exp_minus_1)
  have "unat n < 2 ^ 7" using assms by (simp add: word_le_nat_alt)
  then have "unat (take_bit 7 n) = unat n" by (simp add: unsigned_take_bit_eq take_bit_nat_eq_self)
  then have n: "take_bit 7 n = n" by (simp add: word_unat_eq_iff)
  have nb: "\<not> bit n k" if "7 \<le> k" for k
    using that bit_take_bit_iff [of 7 n k] unfolding n by simp
  show "mi_length (message_info_new (mi_label w) 0 0 n) = n"
    unfolding mi_length_def message_info_new_def m
    by (rule bit_word_eqI) (use nb in \<open>auto simp: bit_simps mi_label_def not_le [symmetric]\<close>)
  show "mi_extra_caps (message_info_new (mi_label w) 0 0 n) = 0"
    unfolding mi_extra_caps_def message_info_new_def m
    by (rule bit_word_eqI) (use nb in \<open>auto simp: bit_simps mi_label_def\<close>)
  show "mi_label (message_info_new (mi_label w) 0 0 n) = mi_label w"
    unfolding mi_label_def message_info_new_def m
    by (rule bit_word_eqI) (use nb in \<open>auto simp: bit_simps\<close>)
qed

text \<open>The words beyond the registers: what is copied from one buffer to the other.\<close>

lemma copied_buffer_word:
  fixes len :: u64
  assumes "4 < len" "len \<le> 120" "4 \<le> i" "i < unat len"
    and "m = mem (snd (buffer_copy_words_from dst src 5 (unat (len - 4)) s))"
  shows "buffer_word (s\<lparr> mem := m \<rparr>) dst (1 + i) = buffer_word s src (1 + i)"
proof -
  have len: "unat len \<le> 120" "unat (len - 4) = unat len - 4"
    using assms(1,2) by (simp_all add: word_le_nat_alt word_less_nat_alt unat_sub)
  show ?thesis
  proof (cases "dst = src")
    case True
    then show ?thesis using assms(5) by (simp add: buffer_copy_words_from_def buffer_word_def)
  next
    case False
    let ?vs = "map (buffer_word s src) [5..<5 + (unat len - 4)]"
    have "m = write_words dst 5 ?vs (mem s)"
      using False assms(5) len by (simp add: buffer_copy_words_from_def buffer_set_words_def IPC_BUFFER_WORDS_def)
    then have "m (dst + of_nat ((1 + i) * 8)) = ?vs ! (1 + i - 5)"
      using write_words_word [of 5 ?vs "1 + i" dst "mem s"] assms(3,4) len by (simp del: of_nat_mult upt_Suc)
    also have "\<dots> = buffer_word s src ([5..<5 + (unat len - 4)] ! (1 + i - 5))"
      by (rule nth_map) (use assms(3,4) in simp)
    also have "\<dots> = buffer_word s src (1 + i)" using assms(3,4) by (simp del: upt_Suc)
    finally show ?thesis using assms(3,4) len by (simp add: buffer_word_def IPC_BUFFER_WORDS_def del: of_nat_mult)
  qed
qed

lemma buffer_copy_frame:
  "snd (buffer_copy_words_from to from start count s) =
     s\<lparr> mem := mem (snd (buffer_copy_words_from to from start count s)) \<rparr>"
  by (auto simp: buffer_copy_words_from_def buffer_set_words_def)

text \<open>Without a copy between buffers the registers are all that arrives.\<close>

lemma copy_buffer_words_registers:
  assumes len: "len = min (mi_length info) MSG_MAX_LENGTH" and n: "n = delivered_length s sender receiver info"
    and short: "len \<le> 4 \<or> tcb_ipc_buffer (tcbs s sender) = None \<or> tcb_ipc_buffer (tcbs s receiver) = None"
  shows "copy_buffer_words sender receiver len s = (n, s)" "unat n \<le> 4"
proof -
  have small: "mi_length info \<le> 4 \<and> mi_length info \<le> 120" if "len \<le> 4"
    using that len by (auto simp: MSG_MAX_LENGTH_def min_def word_le_nat_alt split: if_splits)
  have n4: "n = min (mi_length info) 4"
    using short small by (auto simp: n delivered_length_def MR_REG_COUNT_def MSG_MAX_LENGTH_def min_absorb1)
  then have "n \<le> 4" by simp
  then show "unat n \<le> 4" by (simp add: word_le_nat_alt)
  show "copy_buffer_words sender receiver len s = (n, s)"
  proof (cases "4 < len")
    case True
    then have "4 < mi_length info" using len by simp
    then have "n = 4" using n4 by simp
    then show ?thesis using True short by (auto simp: copy_buffer_words_def MR_REG_COUNT_def split: option.split)
  next
    case False
    then have "mi_length info \<le> 4 \<and> mi_length info \<le> 120" using small by auto
    then show ?thesis using False n4 len
      by (simp add: copy_buffer_words_def MR_REG_COUNT_def MSG_MAX_LENGTH_def min_absorb1)
  qed
qed

lemma copy_buffer_words_spec:
  assumes len: "len = min (mi_length info) MSG_MAX_LENGTH" and n: "n = delivered_length s sender receiver info"
  shows "\<exists>m. copy_buffer_words sender receiver len s = (n, s\<lparr> mem := m \<rparr>) \<and>
    (\<forall>i. 4 \<le> i \<and> i < unat n \<longrightarrow> (\<exists>src dst. tcb_ipc_buffer (tcbs s sender) = Some src \<and>
       tcb_ipc_buffer (tcbs s receiver) = Some dst \<and> buffer_word (s\<lparr> mem := m \<rparr>) dst (1 + i) = buffer_word s src (1 + i)))"
proof -
  consider src dst where "4 < len" "tcb_ipc_buffer (tcbs s sender) = Some src" "tcb_ipc_buffer (tcbs s receiver) = Some dst"
    | "len \<le> 4 \<or> tcb_ipc_buffer (tcbs s sender) = None \<or> tcb_ipc_buffer (tcbs s receiver) = None"
    using not_le [of len 4] by (metis not_None_eq)
  then show ?thesis
  proof cases
    case 1
    have "len \<le> 120" using len by (simp add: MSG_MAX_LENGTH_def)
    note copied = copied_buffer_word [OF 1(1) this]
    have "n = len" using 1 len n by (simp add: delivered_length_def)
    moreover define m where "m = mem (snd (buffer_copy_words_from dst src 5 (unat (len - 4)) s))"
    moreover have "copy_buffer_words sender receiver len s = (len, s\<lparr> mem := m \<rparr>)"
      using 1 buffer_copy_frame [of dst src 5 "unat (len - 4)" s] by (simp add: copy_buffer_words_def MR_REG_COUNT_def m_def)
    ultimately show ?thesis using 1 copied by blast
  next
    case 2
    from copy_buffer_words_registers [OF len n this] show ?thesis by (intro exI [of _ "mem s"]) auto
  qed
qed

lemma transfer_caps_none:
  "\<not> can_grant \<or> mi_extra_caps info = 0 \<Longrightarrow> transfer_caps receiver info endpoint can_grant slots s = Some ((0, 0), s)"
  by (auto simp: transfer_caps_def)

lemma snapshot_none:
  "\<not> can_grant \<or> mi_extra_caps info = 0 \<Longrightarrow> snapshot_extra_cap_slots t info can_grant s = Some (Inr NO_EXTRA_CAPS)"
  by (auto simp: snapshot_extra_cap_slots_def split: option.split)

lemma transfer_message_plain:
  assumes plain: "\<not> can_grant \<or> mi_extra_caps info = 0" and ne: "sender \<noteq> receiver"
    and n: "n = delivered_length s sender receiver info"
  shows "\<exists>m uc s'. transfer_message sender receiver info badge endpoint can_grant slots s = Some s' \<and>
    s' = upd_context receiver (\<lambda>_. uc) (s\<lparr> mem := m \<rparr>) \<and>
    cap_reg uc = badge \<and> msg_info uc = message_info_new (mi_label info) 0 0 n \<and>
    (\<forall>i<unat n. message_word s' receiver i = message_word s sender i)"
proof -
  define len where "len = min (mi_length info) MSG_MAX_LENGTH"
  define uc where "uc = fold (\<lambda>i. set_mr i (ipc_message_regs s sender len ! i)) [0..<unat (min len 4)]
      (set_cap_reg badge (tcb_context (tcbs s receiver)))"
  define uc' where "uc' = set_msg_info (message_info_new (mi_label info) 0 0 n) uc"
  let ?s1 = "upd_context receiver (\<lambda>_. uc) s"
  have k: "unat (min len 4) \<le> 4" by (simp add: min_def word_le_nat_alt)
  have s1: "write_ipc_message_regs receiver badge (ipc_message_regs s sender len) len s = ?s1"
    by (simp add: write_ipc_message_regs_def upd_context_def upd_tcb_def uc_def)
  have buf: "tcb_ipc_buffer (tcbs ?s1 t) = tcb_ipc_buffer (tcbs s t)" for t by (simp add: upd_context_def upd_tcb_def)
  then have n1: "n = delivered_length ?s1 sender receiver info" using n by (simp add: delivered_length_def)
  obtain m where m: "copy_buffer_words sender receiver len ?s1 = (n, ?s1\<lparr> mem := m \<rparr>)"
    "\<And>i. 4 \<le> i \<Longrightarrow> i < unat n \<Longrightarrow> \<exists>src dst. tcb_ipc_buffer (tcbs s sender) = Some src \<and>
       tcb_ipc_buffer (tcbs s receiver) = Some dst \<and> buffer_word (?s1\<lparr> mem := m \<rparr>) dst (1 + i) = buffer_word ?s1 src (1 + i)"
    using copy_buffer_words_spec [OF len_def n1] unfolding buf by blast
  let ?s' = "upd_context receiver (\<lambda>_. uc') (s\<lparr> mem := m \<rparr>)"
  have "transfer_message sender receiver info badge endpoint can_grant slots s = Some ?s'"
    using m(1) plain by (simp add: transfer_message_def Let_def len_def [symmetric] s1 transfer_caps_none
        write_message_info_def uc'_def upd_context_def upd_tcb_def)
  moreover have "message_word ?s' receiver i = message_word s sender i" if i: "i < unat n" for i
  proof (cases "i < 4")
    case True
    have "n \<le> len" using n
      by (auto simp: delivered_length_def len_def MR_REG_COUNT_def MSG_MAX_LENGTH_def min_def word_le_nat_alt)
    then have "i < unat (min len 4)" using True i by (auto simp: min_def word_le_nat_alt)
    then show ?thesis using True fold_set_mr(1) [OF k]
      by (simp add: message_word_def uc'_def uc_def ipc_message_regs_def upd_context_def upd_tcb_def)
  next
    case False
    then show ?thesis using m(2) [of i] i by (auto simp: message_word_def upd_context_def upd_tcb_def buffer_word_def)
  qed
  moreover have "cap_reg uc' = badge" using fold_set_mr(2) [OF k] by (simp add: uc'_def uc_def)
  ultimately show ?thesis
    by (intro exI [of _ m] exI [of _ uc'] exI [of _ ?s'] conjI) (simp_all add: uc'_def)
qed

lemma wait_inv_mem: "wait_inv s qs \<Longrightarrow> wait_inv (s\<lparr> mem := m \<rparr>) qs"
proof -
  assume inv: "wait_inv s qs"
  have "queues_inv (s\<lparr> mem := m \<rparr>) qs" by (rule queues_inv_same [OF wait_invD(1) [OF inv]]) simp_all
  then show ?thesis
    by (rule wait_inv_step [OF inv, where E = "{}" and N = "{}" and T = "{}"]) (use wait_invD(4) [OF inv] in auto)
qed

lemma pop_receiver_head:
  assumes inv: "wait_inv s qs" and q: "qs (EpQ ep) = r # rs" and st: "ep_state s ep = EpReceiving"
  shows "\<exists>s1. pop_receiver ep s = (Some r, s1) \<and> wait_inv s1 (qs(EpQ ep := rs)) \<and> tcbs s1 = tcbs s \<and> mem s1 = mem s \<and>
    ctes s1 = ctes s \<and> MAX_NUM_NODES s1 = MAX_NUM_NODES s \<and> idle_tcbs s1 = idle_tcbs s \<and>
    tcb_addr_ok r \<and> tcb_state (tcbs s r) = BlockedOnReceive \<and> (\<forall>i. r \<notin> set ((qs(EpQ ep := rs)) i))"
proof -
  note qinv = wait_invD(1) [OF inv]
  have r: "r \<in> set (qs (EpQ ep))" using q by simp
  have "ep_pop_head ep s = (Some r, snd (ep_pop_head ep s))"
    using ep_pop_head_spec(1) [OF qinv, of ep] q by (simp add: prod_eq_iff)
  then have "pop_receiver ep s = (Some r, snd (ep_pop_head ep s))"
    using st by (simp add: pop_receiver_def pop_waiter_if_state_def)
  moreover have "waits_on_endpoint s r ep False"
    using wait_invD(2) [OF inv, of ep] r st by (auto simp: ep_ok_def ep_state_def)
  then have "tcb_state (tcbs s r) = BlockedOnReceive" by (simp add: waits_on_endpoint_def)
  moreover have "r \<notin> set ((qs(EpQ ep := rs)) i)" for i
    using queues_invD(2) [OF qinv r, of i] queues_invD(4) [OF qinv, of "EpQ ep"] q by auto
  ultimately show ?thesis using ep_pop_wait_inv [OF inv, of ep] q queues_invD(5) [OF qinv r] by simp
qed

lemma woken_one:
  assumes "is_runnable s r" "\<not> is_idle_thread s r"
  shows "woken s [r] qs = qs(RunQ (home_core s r) := qs (RunQ (home_core s r)) @ [r])"
  using assms by (auto simp: woken_def fun_eq_iff split: qid.split)

lemma wake_after_send_sel:
  "tcb_context (tcbs (wake_blocked_receiver_after_send r s) t) = tcb_context (tcbs s t)"
  "tcb_ipc_buffer (tcbs (wake_blocked_receiver_after_send r s) t) = tcb_ipc_buffer (tcbs s t)"
  "tcb_affinity (tcbs (wake_blocked_receiver_after_send r s) t) = tcb_affinity (tcbs s t)"
  "tcb_state (tcbs (wake_blocked_receiver_after_send r s) r) = Running"
  "t \<noteq> r \<Longrightarrow> tcbs (wake_blocked_receiver_after_send r s) t = tcbs s t"
  "mem (wake_blocked_receiver_after_send r s) = mem s" "ctes (wake_blocked_receiver_after_send r s) = ctes s"
  "MAX_NUM_NODES (wake_blocked_receiver_after_send r s) = MAX_NUM_NODES s"
  "idle_tcbs (wake_blocked_receiver_after_send r s) = idle_tcbs s"
  by (simp_all add: wake_blocked_receiver_after_send_def upd_tcb_def clear_endpoint_ipc_state_def clear_fault_def)

text \<open>Waking the receiver that has its message.\<close>

lemma wake_and_enqueue:
  assumes inv: "wait_inv s qs" and r: "tcb_addr_ok r" "\<And>i. r \<notin> set (qs i)" "\<not> is_idle_thread s r"
    and cfg: "0 < MAX_NUM_NODES s"
  shows "\<exists>s'. enqueue r (wake_blocked_receiver_after_send r s) = Some s' \<and>
    wait_inv s' (qs(RunQ (home_core s r) := qs (RunQ (home_core s r)) @ [r])) \<and>
    tcbs s' = tcbs (wake_blocked_receiver_after_send r s) \<and> mem s' = mem s \<and> ctes s' = ctes s"
proof -
  let ?s = "wake_blocked_receiver_after_send r s"
  have inv': "wait_inv ?s qs"
    unfolding wake_blocked_receiver_after_send_def by (rule wait_inv_upd_tcb [OF inv]) (use r(2) in auto)
  obtain s' where s': "enqueue r ?s = Some s'" "wait_inv s' (woken s' [r] qs)" "only_queues_changed ?s s'"
    using wait_inv_enqueue [OF inv' r(1,2)] cfg by (auto simp: wake_after_send_sel)
  note same = only_queues_changedD [OF s'(3)] wake_after_send_sel
  have "is_runnable s' r" by (simp add: is_runnable_def same)
  moreover have "\<not> is_idle_thread s' r" using r(3) is_idle_thread_cong [of s' s] by (simp add: same)
  moreover have "home_core s' r = home_core s r" by (simp add: home_core_def core_for_affinity_def same)
  ultimately show ?thesis using s'(1,2) woken_one [of s' r qs] by (auto simp: same)
qed

text \<open>
  C4: A message sent to an endpoint where a receiver waits arrives as it was sent. The longest waiting
  receiver gets the badge of the sender's capability, the label, and the length, cut to four words when one of the
  two threads has no IPC buffer; every word up to that length is the sender's, from the registers and from the
  buffer, whatever the two buffers have in common. The receiver runs again: it leaves the endpoint's queue for
  the end of its ready queue. No other thread and no capability changes.
\<close>

theorem send_delivers_message:
  assumes inv: "wait_inv s qs" and cfg: "core_config_ok s" and cur: "current_tcb s = Some cur" "is_runnable s cur"
    and info: "info = msg_info (tcb_context (tcbs s cur))"
    and c: "lookup_endpoint s (cap_reg (tcb_context (tcbs s cur))) = Some (Some (c, ep, badge))" "endpoint_can_send c"
    and plain: "\<not> endpoint_can_grant c \<or> mi_extra_caps info = 0"
    and q: "qs (EpQ ep) = r # rs" "ep_state s ep = EpReceiving" "\<not> is_idle_thread s r"
    and n: "n = delivered_length s cur r info"
  shows "\<exists>s'. send cur blocking s = Some s' \<and>
    cap_reg (tcb_context (tcbs s' r)) = badge \<and> mi_label (msg_info (tcb_context (tcbs s' r))) = mi_label info \<and>
    mi_length (msg_info (tcb_context (tcbs s' r))) = n \<and> mi_extra_caps (msg_info (tcb_context (tcbs s' r))) = 0 \<and>
    (\<forall>i<unat n. message_word s' r i = message_word s cur i) \<and> tcb_state (tcbs s' r) = Running \<and>
    wait_inv s' ((qs(EpQ ep := rs))(RunQ (home_core s r) := qs (RunQ (home_core s r)) @ [r])) \<and>
    ctes s' = ctes s \<and> (\<forall>t. t \<noteq> r \<longrightarrow> tcbs s' t = tcbs s t)"
proof -
  let ?qs = "qs(EpQ ep := rs)"
  obtain s1 where s1: "pop_receiver ep s = (Some r, s1)" "wait_inv s1 ?qs" "tcbs s1 = tcbs s" "mem s1 = mem s"
    "ctes s1 = ctes s" "MAX_NUM_NODES s1 = MAX_NUM_NODES s" "idle_tcbs s1 = idle_tcbs s" "tcb_addr_ok r"
    "tcb_state (tcbs s r) = BlockedOnReceive" "\<And>i. r \<notin> set (?qs i)"
    using pop_receiver_head [OF inv q(1,2)] by blast
  have ne: "cur \<noteq> r" using cur(2) s1(9) by (auto simp: is_runnable_def)
  have n1: "n = delivered_length s1 cur r info" using n by (simp add: delivered_length_def s1(3))
  obtain m uc s2 where s2: "transfer_message cur r info badge (Some ep) (endpoint_can_grant c) NO_EXTRA_CAPS s1 = Some s2"
    "s2 = upd_context r (\<lambda>_. uc) (s1\<lparr> mem := m \<rparr>)" "cap_reg uc = badge" "msg_info uc = message_info_new (mi_label info) 0 0 n"
    "\<And>i. i < unat n \<Longrightarrow> message_word s2 r i = message_word s1 cur i"
    using transfer_message_plain [OF plain ne n1, of badge "Some ep" NO_EXTRA_CAPS] by blast
  have inv2: "wait_inv s2 ?qs"
    unfolding s2(2) upd_context_def by (rule wait_inv_upd_tcb [OF wait_inv_mem [OF s1(2)]]) (rule s1(10))+
  have idle2: "\<not> is_idle_thread s2 r" using q(3) is_idle_thread_cong [of s2 s] by (simp add: s2(2) s1 upd_context_def)
  have home2: "home_core s2 r = home_core s r"
    by (simp add: home_core_def core_for_affinity_def s2(2) s1 upd_context_def)
  have "0 < MAX_NUM_NODES s2" using cfg by (simp add: core_config_ok_def s2(2) s1 upd_context_def)
  then obtain s' where s': "enqueue r (wake_blocked_receiver_after_send r s2) = Some s'"
    "wait_inv s' (?qs(RunQ (home_core s r) := ?qs (RunQ (home_core s r)) @ [r]))"
    "tcbs s' = tcbs (wake_blocked_receiver_after_send r s2)" "mem s' = mem s2" "ctes s' = ctes s2"
    using wake_and_enqueue [OF inv2 s1(8,10) idle2] unfolding home2 by blast
  have "send cur blocking s = Some s'"
    using info c cur(1) plain s1(1) s2(1) s'(1) by (simp add: send_def snapshot_none)
  moreover have uc: "tcb_context (tcbs s' r) = uc" by (simp add: s' wake_after_send_sel s2(2) upd_context_def)
  moreover have "message_word s' t i = message_word s2 t i" for t i
    by (simp add: message_word_def s' wake_after_send_sel buffer_word_def split: option.split)
  moreover have "message_word s1 cur i = message_word s cur i" for i
    by (simp add: message_word_def s1 buffer_word_def split: option.split)
  moreover have "tcbs s' t = tcbs s t" if "t \<noteq> r" for t
    using that by (simp add: s' wake_after_send_sel(5) s2(2) upd_context_def s1(3))
  moreover have "n \<le> 120" using n by (auto simp: delivered_length_def MSG_MAX_LENGTH_def MR_REG_COUNT_def min_def word_le_nat_alt)
  ultimately show ?thesis
    using s2(3-5) s'(2) message_info_fields [of n info]
    by (intro exI [of _ s']) (simp add: s'(3,5) wake_after_send_sel s2(2) upd_context_def s1(5))
qed

text \<open>A thread about to send five words to an endpoint where another one waits.\<close>

definition before_block :: kstate where
  "before_block = (empty_kstate 1 0)\<lparr>
     cpu_current := (\<lambda>_. thr_a),
     tcbs := (\<lambda>_. tcb_zero)(
       thr_a := tcb_zero\<lparr> tcb_state := Running, tcb_ipc_buffer := Some 0xFFFFFFC085000000,
         tcb_context := set_cap_reg 1 (set_msg_info (message_info_new 20 0 0 5) (set_mr 0 11 uc_zero)) \<rparr>,
       thr_b := tcb_zero\<lparr> tcb_ipc_buffer := Some 0xFFFFFFC085001000 \<rparr>),
     ctes := (\<lambda>_. cte_null)(
       thr_a := \<lparr> cte_cap = root_cnode, cte_mdb = mdb_null \<rparr>,
       0xFFFFFFC084300020 := \<lparr> cte_cap = set_endpoint_badge 9 (new_endpoint ep_a), cte_mdb = mdb_null \<rparr>),
     mem := (\<lambda>_. 0)(0xFFFFFFC085000028 := 77) \<rparr>"

definition sending :: kstate where
  "sending = ep_enqueue_waiter ep_a thr_b EpReceiving (set_blocked_receiver thr_b ep_a False before_block)"

lemma before_block_inv: "wait_inv (set_blocked_receiver thr_b ep_a False before_block) (\<lambda>_. [])"
proof -
  have "queues_inv before_block (\<lambda>_. [])" by (rule queues_inv_same [OF queues_inv_empty [of 1 0]]) (simp_all add: before_block_def)
  then have "wait_inv before_block (\<lambda>_. [])"
    using wait_inv_empty [of 1 0] by (simp add: wait_inv_def ep_ok_def ntfn_ok_def before_block_def)
  then show ?thesis unfolding set_blocked_receiver_def by (rule wait_inv_upd_tcb) simp_all
qed

lemma sending_inv: "wait_inv sending ((\<lambda>_. [])(EpQ ep_a := [thr_b]))"
proof -
  have "wait_inv sending ((\<lambda>_. [])(EpQ ep_a := [] @ [thr_b]))"
    unfolding sending_def by (rule ep_enqueue_wait_inv [OF before_block_inv thr_addr_ok(2)])
      (simp_all add: waits_on_endpoint_def set_blocked_receiver_def)
  then show ?thesis by simp
qed

lemma sending_lookup:
  "lookup_endpoint sending (cap_reg (tcb_context (tcbs sending thr_a))) = Some (Some (set_endpoint_badge 9 (new_endpoint ep_a), ep_a, 9))"
  "endpoint_can_send (set_endpoint_badge 9 (new_endpoint ep_a))" "mi_extra_caps (msg_info (tcb_context (tcbs sending thr_a))) = 0"
  "current_tcb sending = Some thr_a" "core_config_ok sending" "is_runnable sending thr_a" "ep_state sending ep_a = EpReceiving"
  "\<not> is_idle_thread sending thr_b" "unat (delivered_length sending thr_a thr_b (msg_info (tcb_context (tcbs sending thr_a)))) = 5"
  "message_word sending thr_a 4 = 77"
  by code_simp+

theorem send_delivers_message_witness:
  "\<exists>s'. send thr_a True sending = Some s' \<and> cap_reg (tcb_context (tcbs s' thr_b)) = 9 \<and> message_word s' thr_b 4 = 77 \<and>
     tcb_state (tcbs s' thr_b) = Running"
proof -
  note m = send_delivers_message [OF sending_inv sending_lookup(5,4,6) refl sending_lookup(1,2) disjI2 [OF sending_lookup(3)]
      _ sending_lookup(7,8) refl, of "[]" True]
  then obtain s' where s': "send thr_a True sending = Some s'" "cap_reg (tcb_context (tcbs s' thr_b)) = 9"
    "\<forall>i<5. message_word s' thr_b i = message_word sending thr_a i" "tcb_state (tcbs s' thr_b) = Running"
    unfolding sending_lookup(9) by (metis fun_upd_same)
  then show ?thesis using sending_lookup(10) by auto
qed

end
