(* ===== verification/Rel4_Syscall.thy ===== *)
theory Rel4_Syscall
  imports Rel4_Ipc
begin

text \<open>
  System calls and traps: the dispatch of a capability invocation by the type of the capability
  (\<^verbatim>\<open>api/syscall.rs\<close>), the decoding of a trap, and the exit from the kernel with the choice of the
  thread to resume (\<^verbatim>\<open>arch/riscv64/kernel/trap.rs\<close>).

  \<open>thread\<close> is the thread whose saved registers the trap entry passes as \<^verbatim>\<open>uc\<close>.
\<close>

section \<open>Dispatch\<close>

definition write_ok_reply :: "u64 \<Rightarrow> u64 \<Rightarrow> u64 \<Rightarrow> kstate \<Rightarrow> kstate" where
  "write_ok_reply thread label len s =
     upd_context thread (\<lambda>uc. set_msg_info (message_info_new label 0 0 len) (set_cap_reg 0 uc)) s"

definition write_error_reply :: "u64 \<Rightarrow> syscall_error \<Rightarrow> kstate \<Rightarrow> kstate" where
  "write_error_reply thread e s =
     upd_context thread (\<lambda>uc. set_msg_info (message_info_new (to_label e) 0 0 0) (set_cap_reg 0 uc)) s"

definition restart_current_invocation_after_preemption :: "u64 \<Rightarrow> kstate \<Rightarrow> kstate" where
  "restart_current_invocation_after_preemption thread s = (case current_tcb s of
     Some cur \<Rightarrow> if is_runnable s cur then upd_context thread apply_preemption_restart s else s
   | None \<Rightarrow> s)"

definition message_length :: "u64 \<Rightarrow> u64 \<Rightarrow> kstate \<Rightarrow> u64" where
  "message_length t info s =
     (if of_nat N_MSG_REGISTERS < mi_length info \<and> tcb_ipc_buffer (tcbs s t) = None
      then of_nat N_MSG_REGISTERS else mi_length info)"

text \<open>The invocation of a capability other than an endpoint.\<close>

definition invoke_cap :: "u64 \<Rightarrow> u64 \<Rightarrow> cap \<Rightarrow> u64 \<Rightarrow> u64 \<Rightarrow> kstate \<Rightarrow> unit result" where
  "invoke_cap t slot c label len s = (case tag c of
     Some TagUntyped \<Rightarrow> handle_untyped t slot c label len s
   | Some TagCNode \<Rightarrow> handle_cnode t c label len s
   | Some TagFrame \<Rightarrow> handle_frame t slot c label len s
   | Some TagPageTable \<Rightarrow> handle_page_table t slot c label len s
   | Some TagThread \<Rightarrow> handle_thread t slot c label len s
   | Some TagNull \<Rightarrow> fail InvalidCapability s
   | Some TagDomain \<Rightarrow> handle_domain t label len s
   | Some TagAsidControl \<Rightarrow> handle_asid_control t label len s
   | Some TagAsidPool \<Rightarrow> handle_asid_pool t c label s
   | Some TagIrqControl \<Rightarrow> handle_irq_control t slot label len s
   | Some TagIrqHandler \<Rightarrow> handle_irq_handler t c label s
   | None \<Rightarrow> fail InvalidCapability s
   | _ \<Rightarrow> fail IllegalOperation s)"

definition finish_call :: "u64 \<Rightarrow> u64 \<Rightarrow> (syscall_error + unit) \<times> kstate \<Rightarrow> kstate" where
  "finish_call thread reply_length r = (case r of
     (Inr (), s) \<Rightarrow> write_ok_reply thread 0 reply_length s
   | (Inl Preempted, s) \<Rightarrow> restart_current_invocation_after_preemption thread s
   | (Inl e, s) \<Rightarrow> write_error_reply thread e s)"

definition do_call :: "u64 \<Rightarrow> kstate \<Rightarrow> kstate option" where
  "do_call thread s =
     (let uc = tcb_context (tcbs s thread); info = msg_info uc in
      case current_tcb s of
        None \<Rightarrow> Some (write_error_reply thread InvalidCapability s)
      | Some t \<Rightarrow> do {
          found \<leftarrow> lookup_cap_current s (cap_reg uc);
          (case found of
             Inl _ \<Rightarrow> Some (write_error_reply thread InvalidCapability s)
           | Inr (c, slot) \<Rightarrow>
               if tag c = Some TagEndpoint then
                 (if \<not> endpoint_can_send c then Some (write_error_reply thread InvalidCapability s) else call thread s)
               else map_option (finish_call thread (success_reply_length (tag c) (mi_label info)))
                      (invoke_cap t slot c (mi_label info) (message_length t info s) s))
        })"

definition do_send :: "u64 \<Rightarrow> bool \<Rightarrow> kstate \<Rightarrow> kstate option" where
  "do_send thread nb s =
     (let uc = tcb_context (tcbs s thread); info = msg_info uc in
      case current_tcb s of
        None \<Rightarrow> Some s
      | Some t \<Rightarrow> do {
          found \<leftarrow> lookup_cap_current s (cap_reg uc);
          (case found of
             Inl _ \<Rightarrow> Some s
           | Inr (c, slot) \<Rightarrow>
               (case tag c of
                  Some TagNotification \<Rightarrow>
                    (case as_notification c of
                       Some ntfn \<Rightarrow> if notification_can_send c then signal ntfn (notification_badge c) s else Some s
                     | None \<Rightarrow> Some s)
                | Some TagEndpoint \<Rightarrow> send thread (\<not> nb) s
                | Some TagReply \<Rightarrow> handle_reply_slot thread (c, slot) s
                | Some TagThread \<Rightarrow>
                    map_option snd (handle_thread_send t slot c (mi_label info) (message_length t info s) s)
                | _ \<Rightarrow> Some s))
        })"

definition clear_reply_message_registers :: "u64 \<Rightarrow> u64 \<Rightarrow> kstate \<Rightarrow> kstate" where
  "clear_reply_message_registers thread t s =
     (let s1 = upd_context thread (\<lambda>uc. fold (\<lambda>i. set_mr i 0) [0..<N_MSG_REGISTERS] uc) s in
      case tcb_ipc_buffer (tcbs s1 t) of
        Some buffer \<Rightarrow> snd (buffer_zero_words buffer 1 N_MSG_REGISTERS s1)
      | None \<Rightarrow> s1)"

definition write_empty :: "u64 \<Rightarrow> kstate \<Rightarrow> kstate" where
  "write_empty thread s =
     (let s1 = upd_context thread (\<lambda>uc. fold (\<lambda>i. set_mr i 0) [0..<N_MSG_REGISTERS] (set_msg_info 0 (set_cap_reg 0 uc))) s in
      case Option.bind (current_tcb s1) (\<lambda>t. tcb_ipc_buffer (tcbs s1 t)) of
        Some buffer \<Rightarrow> snd (buffer_zero_words buffer 1 N_MSG_REGISTERS s1)
      | None \<Rightarrow> s1)"

definition write_recv_cap_fault_or_empty :: "u64 \<Rightarrow> u64 \<Rightarrow> kstate \<Rightarrow> kstate option" where
  "write_recv_cap_fault_or_empty thread cptr s = do {
     (sent, s1) \<leftarrow> send_cap_fault_ipc (tcb_context (tcbs s thread)) cptr True s;
     Some (if \<not> sent then write_empty thread s1 else s1)
   }"

definition do_recv :: "u64 \<Rightarrow> bool \<Rightarrow> kstate \<Rightarrow> kstate option" where
  "do_recv thread blocking s = (case current_tcb s of
     None \<Rightarrow> Some (write_empty thread s)
   | Some cur \<Rightarrow> do {
       s1 \<leftarrow> delete_caller_cap cur s;
       let cptr = cap_reg (tcb_context (tcbs s1 thread));
       found \<leftarrow> lookup_cap_current s1 cptr;
       (case found of
          Inl _ \<Rightarrow> write_recv_cap_fault_or_empty thread cptr s1
        | Inr (c, _) \<Rightarrow>
            (case tag c of
               Some TagEndpoint \<Rightarrow> recv thread blocking s1
             | Some TagNotification \<Rightarrow>
                 (case as_notification c of
                    None \<Rightarrow> write_recv_cap_fault_or_empty thread cptr s1
                  | Some ntfn \<Rightarrow>
                      let bound = ntfn_bound_tcb (ntfns s1 ntfn) in
                      if \<not> notification_can_receive c \<or> (bound \<noteq> None \<and> bound \<noteq> Some cur)
                      then write_recv_cap_fault_or_empty thread cptr s1
                      else do {
                        (outcome, s2) \<leftarrow> ntfn_wait ntfn cur blocking s1;
                        Some (case outcome of
                          Got badge \<Rightarrow> clear_reply_message_registers thread cur
                            (upd_context thread (\<lambda>uc. set_msg_info 0 (set_cap_reg badge uc)) s2)
                        | Blocked \<Rightarrow> s2)
                      })
             | _ \<Rightarrow> write_recv_cap_fault_or_empty thread cptr s1))
     })"

section \<open>System calls\<close>

text \<open>
  The first zero byte of the message ends the name. Halting the machine is None.
\<close>

definition name_bytes :: "kstate \<Rightarrow> u64 \<Rightarrow> u8 list" where
  "name_bytes s buffer =
     concat (map (\<lambda>i. map (\<lambda>j. ucast (drop_bit (8 * j) (buffer_word s buffer (1 + i)))) [0..<8]) [0..<N_TOTAL_MSG_REGISTERS])"

definition handle_debug_name_thread :: "u64 \<Rightarrow> kstate \<Rightarrow> kstate option" where
  "handle_debug_name_thread thread s = do {
     found \<leftarrow> lookup_cap_current s (uc_get A0 (tcb_context (tcbs s thread)));
     (case found of
        Inl _ \<Rightarrow> None
      | Inr (c, _) \<Rightarrow> do {
          target \<leftarrow> as_thread c;
          cur \<leftarrow> current_tcb s;
          buffer \<leftarrow> tcb_ipc_buffer (tcbs s cur);
          let name = name_bytes s buffer;
          (if 0 \<in> set name then Some (set_debug_name target (takeWhile (\<lambda>b. b \<noteq> 0) name) s) else None)
        })
   }"

text \<open>
  Writing a character to the console is the only effect outside of the state. An unknown system call
  of a thread without a fault handler parks the core for ever.
\<close>

definition handle_syscall :: "u64 \<Rightarrow> kstate \<Rightarrow> kstate option" where
  "handle_syscall thread s =
     (let raw_sysno = uc_get A7 (tcb_context (tcbs s thread));
          s = upd_context thread (\<lambda>uc. uc\<lparr> uc_pc := uc_pc uc + 4 \<rparr>) s;
          uc = tcb_context (tcbs s thread)
      in case syscall_from_raw raw_sysno of
           Some SysDebugPutChar \<Rightarrow> Some s
         | Some SysDebugNameThread \<Rightarrow> handle_debug_name_thread thread s
         | Some SysDebugCapIdentify \<Rightarrow> do {
             found \<leftarrow> lookup_cap_current s (uc_get A0 uc);
             Some (upd_context thread (uc_put A0 (case found of Inr (c, _) \<Rightarrow> tag_raw c | Inl _ \<Rightarrow> 0)) s)
           }
         | Some SysDebugHalt \<Rightarrow> None
         | Some SysDebugSendIpi \<Rightarrow> None
         | Some SysSetTLSBase \<Rightarrow> Some (upd_context thread (\<lambda>uc. set_tls_reg (cap_reg uc) uc) s)
         | Some SysDebugDumpScheduler \<Rightarrow> Some s
         | Some SysDebugSnapshot \<Rightarrow> Some s
         | Some SysYield \<Rightarrow> (case current_tcb s of Some cur \<Rightarrow> yield_current cur s | None \<Rightarrow> Some s)
         | Some SysCall \<Rightarrow> do_call thread s
         | Some SysSend \<Rightarrow> do_send thread False s
         | Some SysNBSend \<Rightarrow> do_send thread True s
         | Some SysReply \<Rightarrow> reply thread s
         | Some SysRecv \<Rightarrow> do_recv thread True s
         | Some SysNBRecv \<Rightarrow> do_recv thread False s
         | Some SysReplyRecv \<Rightarrow> reply_recv thread s
         | None \<Rightarrow> do {
             (sent, s1) \<leftarrow> send_unknown_syscall_fault uc raw_sysno s;
             (if sent then Some s1 else None)
           })"

section \<open>Leaving the kernel\<close>

definition switch_to_kernel_vspace :: "kstate \<Rightarrow> kstate" where
  "switch_to_kernel_vspace s = (case kernel_vspace_root_of s of
     None \<Rightarrow> s
   | Some kernel_satp \<Rightarrow> if current_satp s \<noteq> kernel_satp then switch_satp kernel_satp s else s)"

definition switch_to_tcb_vspace :: "u64 \<Rightarrow> kstate \<Rightarrow> kstate" where
  "switch_to_tcb_vspace t s =
     (let vroot = vspace_cap s t; root_kva = page_table_base_ptr vroot; asid = page_table_mapped_asid vroot in
      if tag vroot \<noteq> Some TagPageTable then s
      else if root_kva = 0 then s
      else if \<not> page_table_is_mapped vroot \<or> asid = 0 then s
      else if asid_lookup s asid \<noteq> root_kva then s
      else
        let new_satp = satp_from_kva root_kva (ucast asid) in
        if new_satp = 0 then s else if current_satp s \<noteq> new_satp then switch_satp new_satp s else s)"

text \<open>
  The register frame that is restored is named by its thread; \<open>thread\<close> is the one whose frame the trap
  entry filled.
\<close>

definition finish_kernel_exit :: "u64 \<Rightarrow> kstate \<Rightarrow> u64 \<times> kstate" where
  "finish_kernel_exit ctx s = (ctx, program_next_timer s)"

definition restore_idle_context :: "kstate \<Rightarrow> (u64 \<times> kstate) option" where
  "restore_idle_context s = do {
     (idle, s1) \<leftarrow> switch_to_idle_thread s;
     Some (idle, prepare_for_user_restore idle (switch_to_kernel_vspace s1))
   }"

definition switch_to_scheduled :: "u64 \<Rightarrow> kstate \<Rightarrow> kstate" where
  "switch_to_scheduled nxt s =
     switch_to_tcb_vspace nxt (prepare_for_user_restore nxt (snd (set_current_tcb (Some nxt) s)))"

definition exit_to_idle :: "kstate \<Rightarrow> (u64 \<times> kstate) option" where
  "exit_to_idle s = map_option (\<lambda>(ctx, s1). finish_kernel_exit ctx s1) (restore_idle_context s)"

text \<open>The choice of the next thread once the current one does not keep the core.\<close>

definition exit_to_next :: "u64 \<Rightarrow> u64 option \<Rightarrow> kstate \<Rightarrow> (u64 \<times> kstate) option" where
  "exit_to_next thread cur s = do {
     (picked, s1) \<leftarrow> schedule s;
     (case picked of
        Some nxt \<Rightarrow>
          Some (if Some nxt \<noteq> cur then finish_kernel_exit nxt (switch_to_scheduled nxt s1)
                else finish_kernel_exit thread (prepare_for_user_restore nxt s1))
      | None \<Rightarrow>
          (case cur of
             Some c \<Rightarrow>
               if is_runnable_on_current_core s1 c
               then Some (finish_kernel_exit thread (prepare_for_user_restore c s1)) else exit_to_idle s1
           | None \<Rightarrow> exit_to_idle s1))
   }"

definition kernel_exit :: "u64 \<Rightarrow> kstate \<Rightarrow> (u64 \<times> kstate) option" where
  "kernel_exit thread s = (case current_tcb s of
     None \<Rightarrow> exit_to_next thread None s
   | Some cur \<Rightarrow> do {
       s1 \<leftarrow> enqueue_if_migrated_from_current_core cur s;
       let (continue, s2) = take_continue_current_once (Some cur) s1;
       (if continue \<and> is_runnable_on_current_core s2 cur
        then Some (finish_kernel_exit thread (prepare_for_user_restore cur s2))
        else
          let (rotate, s3) = take_reschedule_required s2 in
          if is_runnable_on_current_core s3 cur \<and> \<not> rotate
          then Some (finish_kernel_exit thread (prepare_for_user_restore cur s3))
          else do {
            s4 \<leftarrow> (if is_runnable_on_current_core s3 cur then enqueue cur s3 else Some s3);
            exit_to_next thread (Some cur) s4
          })
     })"

definition kernel_exit_after_remote_stall :: "kstate \<Rightarrow> (u64 \<times> kstate) option" where
  "kernel_exit_after_remote_stall s = do {
     (picked, s1) \<leftarrow> schedule s;
     (case picked of
        Some nxt \<Rightarrow> Some (finish_kernel_exit nxt (switch_to_scheduled nxt s1))
      | None \<Rightarrow> exit_to_idle s1)
   }"

definition restore_scheduled_or_idle :: "kstate \<Rightarrow> (u64 \<times> kstate) option" where
  "restore_scheduled_or_idle s = do {
     (picked, s1) \<leftarrow> schedule s;
     (t, s2) \<leftarrow> (case picked of
        Some nxt \<Rightarrow> Some (nxt, switch_to_scheduled nxt s1)
      | None \<Rightarrow> restore_idle_context s1);
     Some (t, program_next_timer s2)
   }"

section \<open>Traps\<close>

datatype interrupt_code = SupervisorSoftware | SupervisorTimer | SupervisorExternal

definition interrupt_code_from_raw :: "u64 \<Rightarrow> interrupt_code option" where
  "interrupt_code_from_raw v =
     (if v = 1 then Some SupervisorSoftware
      else if v = 5 then Some SupervisorTimer
      else if v = 9 then Some SupervisorExternal
      else None)"

text \<open>The pending bit of the software interrupt is not part of the state.\<close>

definition handle_software_interrupt :: "kstate \<Rightarrow> kstate" where
  "handle_software_interrupt s = s"

text \<open>
  \<open>stalled\<close> tells whether another core stalled this one while it waited for the kernel lock, and \<open>ctx\<close> is
  the thread whose register frame trap entry filled (None for a null pointer). A thread that faults
  without a handler parks the core for ever, which is None like a panic.
\<close>

definition handle_trap_rust :: "bool \<Rightarrow> u64 option \<Rightarrow> u64 \<Rightarrow> u64 \<Rightarrow> kstate \<Rightarrow> (u64 \<times> kstate) option" where
  "handle_trap_rust stalled ctx cause stval s =
     (if stalled then kernel_exit_after_remote_stall (handle_software_interrupt s)
      else do {
        thread \<leftarrow> ctx;
        let s1 = upd_context thread (\<lambda>uc. uc\<lparr> uc_restart_pc := uc_pc uc \<rparr>) s;
        let code = cause AND NOT (push_bit 63 1);
        s2 \<leftarrow> (if cause <s 0 then
                (case interrupt_code_from_raw code of
                   Some SupervisorSoftware \<Rightarrow> Some (handle_software_interrupt s1)
                 | Some SupervisorTimer \<Rightarrow> handle_timer_interrupt s1
                 | Some SupervisorExternal \<Rightarrow> map_option snd (service_pending_external_interrupt s1)
                 | None \<Rightarrow> None)
              else if exception_code_from_raw code = Some EnvironmentCallFromUser then handle_syscall thread s1
              else do {
                (sent, s2) \<leftarrow> send_fault_ipc (tcb_context (tcbs s1 thread)) code stval s1;
                (if sent then Some s2 else None)
              });
        kernel_exit thread s2
      })"

section \<open>What leaving the kernel changes\<close>

text \<open>Programming the timer and switching address spaces concern neither threads nor queues.\<close>

definition threads_kept :: "kstate \<Rightarrow> kstate \<Rightarrow> bool" where
  "threads_kept s s' \<longleftrightarrow> tcbs s' = tcbs s \<and> runqueues s' = runqueues s \<and> tlinks s' = tlinks s \<and>
     eps s' = eps s \<and> ntfns s' = ntfns s \<and> cpu_current s' = cpu_current s \<and>
     current_core_id s' = current_core_id s \<and> MAX_NUM_NODES s' = MAX_NUM_NODES s \<and>
     idle_tcbs s' = idle_tcbs s \<and> continue_once s' = continue_once s"

lemma threads_keptD:
  assumes "threads_kept s s'"
  shows "tcbs s' = tcbs s" "cpu_current s' = cpu_current s" "current_core_id s' = current_core_id s"
    "MAX_NUM_NODES s' = MAX_NUM_NODES s" "idle_tcbs s' = idle_tcbs s" "continue_once s' = continue_once s"
  using assms by (simp_all add: threads_kept_def)

lemma threads_kept_refl [simp]: "threads_kept s s"
  by (simp add: threads_kept_def)

lemma threads_kept_trans [trans]: "threads_kept s s' \<Longrightarrow> threads_kept s' s'' \<Longrightarrow> threads_kept s s''"
  by (simp add: threads_kept_def)

lemma threads_kept_queues: "threads_kept s s' \<Longrightarrow> queues_inv s qs \<Longrightarrow> queues_inv s' qs"
  by (rule queues_inv_same [of "{}" s]) (simp_all add: threads_kept_def)

lemma threads_kept_switch_satp: "threads_kept s (switch_satp v s)"
  by (simp add: threads_kept_def switch_satp_def log_event_def)

lemma threads_kept_exit [simp]:
  "threads_kept s (program_next_timer s)" "threads_kept s (switch_to_kernel_vspace s)"
  "threads_kept s (switch_to_tcb_vspace t s)" "threads_kept s (log_event e s)"
proof -
  show "threads_kept s (program_next_timer s)"
    by (simp add: threads_kept_def program_next_timer_def read_time_def synthetic_timer_irq_deadline_def
        log_event_def Let_def)
  show "threads_kept s (log_event e s)" by (simp add: threads_kept_def log_event_def)
qed (simp_all add: switch_to_kernel_vspace_def switch_to_tcb_vspace_def Let_def threads_kept_switch_satp
      split: option.split)

text \<open>
  Resuming \<open>ctx\<close>: it is the current thread of this core, it runs from where it is to restart, its
  status says whether it may use the floating point unit, and nothing else about the threads changes.
\<close>

definition restored :: "tcb \<Rightarrow> tcb" where
  "restored x =
     (let y = (if tcb_state x = Restart
        then x\<lparr> tcb_context := (tcb_context x)\<lparr> uc_pc := uc_restart_pc (tcb_context x) \<rparr>, tcb_state := Running \<rparr>
        else x)
      in y\<lparr> tcb_context := set_fpu_context_enabled (tcb_flags x AND TCB_FLAG_FPU_DISABLED = 0) (tcb_context y) \<rparr>)"

definition resumes :: "kstate \<Rightarrow> u64 \<Rightarrow> kstate \<Rightarrow> bool" where
  "resumes s ctx s' \<longleftrightarrow> current_tcb s' = Some ctx \<and> tcbs s' = (tcbs s)(ctx := restored (tcbs s ctx)) \<and>
     current_core_id s' = current_core_id s \<and> MAX_NUM_NODES s' = MAX_NUM_NODES s \<and>
     idle_tcbs s' = idle_tcbs s \<and> (\<forall>c. c \<noteq> current_core_id s \<longrightarrow> cpu_current s' c = cpu_current s c)"

lemma prepare_for_user_restore_kept:
  "threads_kept (upd_tcb t restored s) (prepare_for_user_restore t s)"
proof -
  have "upd_tcb t restored s = upd_context t (set_fpu_context_enabled (\<not> fpu_disabled s t)) (upd_tcb t (\<lambda>x.
      if tcb_state x = Restart
      then x\<lparr> tcb_context := (tcb_context x)\<lparr> uc_pc := uc_restart_pc (tcb_context x) \<rparr>, tcb_state := Running \<rparr>
      else x) s)"
    by (simp add: upd_context_def upd_tcb_def restored_def Let_def fpu_disabled_def)
  then show ?thesis
    by (simp add: prepare_for_user_restore_def fpu_lazy_restore_def threads_kept_def fpu_disabled_def
        upd_context_def upd_tcb_def log_event_def)
qed

lemma resumes_current:
  assumes "current_tcb s = Some t"
  shows "resumes s t (program_next_timer (prepare_for_user_restore t s))"
    and "queues_inv s qs \<Longrightarrow> queues_inv (program_next_timer (prepare_for_user_restore t s)) qs"
    and "continue_once (program_next_timer (prepare_for_user_restore t s)) = continue_once s"
proof -
  have kept: "threads_kept (upd_tcb t restored s) (program_next_timer (prepare_for_user_restore t s))"
    by (rule threads_kept_trans [OF prepare_for_user_restore_kept threads_kept_exit(1)])
  show "resumes s t (program_next_timer (prepare_for_user_restore t s))"
    using assms by (simp add: resumes_def current_tcb_def threads_keptD [OF kept] upd_tcb_def)
  show "queues_inv (program_next_timer (prepare_for_user_restore t s)) qs" if "queues_inv s qs"
    using threads_kept_queues [OF kept queues_inv_upds(1) [OF that]] .
  show "continue_once (program_next_timer (prepare_for_user_restore t s)) = continue_once s"
    by (simp add: threads_keptD [OF kept] upd_tcb_def)
qed

lemma resumes_set_current:
  assumes "t \<noteq> 0" "threads_kept (upd_tcb t restored (snd (set_current_tcb (Some t) s))) s'"
  shows "resumes s t s'" "queues_inv s qs \<Longrightarrow> queues_inv s' qs" "continue_once s' = continue_once s"
proof -
  show "resumes s t s'"
    using assms(1) by (simp add: resumes_def current_tcb_def threads_keptD [OF assms(2)] upd_tcb_def
        set_current_tcb_def from_kva_def kva_or_zero_def)
  show "queues_inv s' qs" if "queues_inv s qs"
  proof (rule threads_kept_queues [OF assms(2) queues_inv_upds(1)])
    show "queues_inv (snd (set_current_tcb (Some t) s)) qs"
      by (rule queues_inv_same [OF that]) (simp_all add: set_current_tcb_def)
  qed
  show "continue_once s' = continue_once s"
    by (simp add: threads_keptD [OF assms(2)] upd_tcb_def set_current_tcb_def)
qed

lemma switch_to_scheduled_kept:
  "threads_kept (upd_tcb t restored (snd (set_current_tcb (Some t) s))) (program_next_timer (switch_to_scheduled t s))"
  unfolding switch_to_scheduled_def
  by (rule threads_kept_trans [OF prepare_for_user_restore_kept
        threads_kept_trans [OF threads_kept_exit(3) threads_kept_exit(1)]])

lemma exit_to_idle_spec:
  assumes "current_core_id s < MAX_NUM_NODES s" "idle_tcbs s (current_core_id s) = idle" "idle \<noteq> 0"
  shows "\<exists>s'. exit_to_idle s = Some (idle, s') \<and> resumes s idle s' \<and> (queues_inv s qs \<longrightarrow> queues_inv s' qs) \<and>
    continue_once s' = continue_once s"
proof -
  let ?s1 = "snd (set_current_tcb (Some idle) s)"
  let ?s' = "program_next_timer (prepare_for_user_restore idle (switch_to_kernel_vspace ?s1))"
  have "threads_kept (upd_tcb idle restored ?s1) (upd_tcb idle restored (switch_to_kernel_vspace ?s1))"
    using threads_kept_exit(2) [of ?s1] by (simp add: threads_kept_def upd_tcb_def)
  then have kept: "threads_kept (upd_tcb idle restored ?s1) ?s'"
    by (rule threads_kept_trans [OF _ threads_kept_trans [OF prepare_for_user_restore_kept threads_kept_exit(1)]])
  have "exit_to_idle s = Some (idle, ?s')"
    using assms(1,2) by (simp add: exit_to_idle_def restore_idle_context_def switch_to_idle_thread_def
        idle_thread_of_def finish_kernel_exit_def)
  then show ?thesis using resumes_set_current [OF assms(3) kept] by blast
qed

lemma resumes_queues:
  assumes "only_queues_changed s s1" "resumes s1 ctx s'"
  shows "resumes s ctx s'"
  using assms(2) by (simp add: resumes_def only_queues_changedD [OF assms(1)])

lemma only_queues_changed_continue: "only_queues_changed s s' \<Longrightarrow> continue_once s' = continue_once s"
  by (auto simp: only_queues_changed_def)

lemma runnable_here_queues:
  assumes "only_queues_changed s s'"
  shows "is_runnable_on_current_core s' t = is_runnable_on_current_core s t" "current_tcb s' = current_tcb s"
  by (simp_all add: is_runnable_on_current_core_def core_for_affinity_def current_tcb_def
      only_queues_changedD [OF assms])

lemma runnable_here_iff:
  "is_runnable_on_current_core s t \<longleftrightarrow> is_runnable s t \<and> home_core s t = current_core_id s"
  by (simp add: is_runnable_on_current_core_def is_runnable_def home_core_def)

lemma exit_to_next_spec:
  assumes inv: "queues_inv s qs" and cfg: "current_core_id s < MAX_NUM_NODES s"
    and idle: "idle_tcbs s (current_core_id s) = idle" "idle \<noteq> 0"
    and cur: "cur = current_tcb s" "\<And>c. cur = Some c \<Longrightarrow> c = thread"
    and ys: "ys = dropWhile (\<lambda>t. \<not> is_runnable_on_current_core s t) (qs (RunQ (current_core_id s)))"
    and ctx: "ctx = (case ys of y # _ \<Rightarrow> y
        | [] \<Rightarrow> if cur = Some thread \<and> is_runnable_on_current_core s thread then thread else idle)"
  shows "\<exists>s'. exit_to_next thread cur s = Some (ctx, s') \<and> resumes s ctx s' \<and>
    queues_inv s' (qs(RunQ (current_core_id s) := tl ys)) \<and> continue_once s' = continue_once s"
proof -
  let ?qs = "qs(RunQ (current_core_id s) := tl ys)"
  obtain s1 where s1: "schedule s = Some (first_or ys None, s1)" "queues_inv s1 ?qs" "only_queues_changed s s1"
    using schedule_spec [OF inv cfg ys] by blast
  note same = only_queues_changedD [OF s1(3)] runnable_here_queues [OF s1(3)] only_queues_changed_continue [OF s1(3)]
  note fin = exit_to_next_def s1(1) finish_kernel_exit_def
  consider y zs where "ys = y # zs" "Some y \<noteq> cur" | y zs where "ys = y # zs" "cur = Some y"
    | "ys = []" "cur = Some thread" "is_runnable_on_current_core s thread"
    | "ys = []" "\<not> (cur = Some thread \<and> is_runnable_on_current_core s thread)"
    by (cases ys) auto
  then show ?thesis
  proof cases
    case 1
    then have "y \<in> set (qs (RunQ (current_core_id s)))" using ys set_dropWhileD by (metis list.set_intros(1))
    then have "y \<noteq> 0" using queues_invD(5) [OF inv] tcb_addr_nonzero by blast
    from resumes_set_current [OF this switch_to_scheduled_kept] show ?thesis
      using 1 ctx s1(2) resumes_queues [OF s1(3)] by (auto simp: fin same)
  next
    case 2
    then have "current_tcb s1 = Some y" using cur(1) by (simp add: same)
    from resumes_current [OF this] show ?thesis
      using 2 ctx cur(2) s1(2) resumes_queues [OF s1(3)] by (auto simp: fin same)
  next
    case 3
    then have "current_tcb s1 = Some thread" using cur(1) by (simp add: same)
    from resumes_current [OF this] show ?thesis
      using 3 ctx s1(2) resumes_queues [OF s1(3)] by (auto simp: fin same)
  next
    case 4
    have "exit_to_next thread cur s = exit_to_idle s1"
      using 4 cur(2) by (cases cur) (auto simp: fin same)
    moreover have "ctx = idle" using 4 ctx by auto
    ultimately show ?thesis
      using exit_to_idle_spec [of s1 idle ?qs] cfg idle s1(2) resumes_queues [OF s1(3)] by (auto simp: same)
  qed
qed

text \<open>
  The current thread keeps the core when it may and has not been asked to leave; otherwise it is
  queued behind the other ready threads of its home core, if it can run at all.
\<close>

definition keeps_core :: "kstate \<Rightarrow> u64 \<Rightarrow> bool" where
  "keeps_core s t \<longleftrightarrow> current_tcb s = Some t \<and> is_runnable_on_current_core s t \<and>
     (continue_once s (current_core_id s) = t \<or> \<not> resched s (current_core_id s))"

definition requeued :: "kstate \<Rightarrow> u64 \<Rightarrow> (qid \<Rightarrow> u64 list) \<Rightarrow> qid \<Rightarrow> u64 list" where
  "requeued s t qs = (if current_tcb s = Some t then enqueued s t qs else qs)"

definition flags_taken :: "kstate \<Rightarrow> kstate \<Rightarrow> bool" where
  "flags_taken s s' \<longleftrightarrow> (\<exists>co rs. s' = s\<lparr> continue_once := co, resched := rs \<rparr>)"

lemma flags_takenI [intro]: "flags_taken s (s\<lparr> continue_once := co, resched := rs \<rparr>)"
  by (auto simp: flags_taken_def)

lemma flags_takenD:
  assumes "flags_taken s s'"
  shows "is_runnable_on_current_core s' t = is_runnable_on_current_core s t" "current_tcb s' = current_tcb s"
    "current_core_id s' = current_core_id s" "MAX_NUM_NODES s' = MAX_NUM_NODES s" "idle_tcbs s' = idle_tcbs s"
    "resumes s' ctx s'' = resumes s ctx s''" "queues_inv s' qs = queues_inv s qs"
    "enqueued s' t qs = enqueued s t qs" "home_core s' t = home_core s t"
proof -
  obtain co rs where eq: "s' = s\<lparr> continue_once := co, resched := rs \<rparr>"
    using assms by (auto simp: flags_taken_def)
  show "enqueued s' t qs = enqueued s t qs" by (rule enqueued_cong) (simp_all add: eq)
  have "queues_inv s' qs" if "queues_inv s qs" by (rule queues_inv_same [OF that]) (simp_all add: eq)
  moreover have "queues_inv s qs" if "queues_inv s' qs" by (rule queues_inv_same [OF that]) (simp_all add: eq)
  ultimately show "queues_inv s' qs = queues_inv s qs" by blast
qed (use assms in \<open>auto simp: flags_taken_def is_runnable_on_current_core_def core_for_affinity_def
    current_tcb_def resumes_def home_core_def\<close>)

lemma kernel_exit_keeps:
  assumes keeps: "keeps_core s t" and inv: "queues_inv s qs"
  shows "\<exists>s'. kernel_exit t s = Some (t, s') \<and> resumes s t s' \<and> queues_inv s' qs"
proof -
  have cur: "current_tcb s = Some t" and here: "is_runnable_on_current_core s t"
    using keeps by (simp_all add: keeps_core_def)
  have mig: "enqueue_if_migrated_from_current_core t s = Some s"
    using here by (auto simp: enqueue_if_migrated_from_current_core_def is_runnable_on_current_core_def)
  define s2 where "s2 = (if continue_once s (current_core_id s) = t
      then s\<lparr> continue_once := (continue_once s)(current_core_id s := 0), resched := resched s \<rparr>
      else s\<lparr> continue_once := continue_once s, resched := (resched s)(current_core_id s := False) \<rparr>)"
  have flags: "flags_taken s s2" unfolding s2_def by (simp only: flags_takenI split: if_split) simp
  note same = flags_takenD [OF flags]
  have "kernel_exit t s = Some (finish_kernel_exit t (prepare_for_user_restore t s2))"
    using keeps here by (auto simp: kernel_exit_def cur mig take_continue_current_once_def
        take_reschedule_required_def keeps_core_def s2_def is_runnable_on_current_core_def core_for_affinity_def)
  moreover have "current_tcb s2 = Some t" using cur same by simp
  ultimately show ?thesis using resumes_current [of s2 t] inv same by (auto simp: finish_kernel_exit_def)
qed

lemma enqueue_if_migrated_spec:
  assumes inv: "queues_inv s qs" and t: "tcb_addr_ok t"
    and only: "\<And>i. t \<in> set (qs i) \<Longrightarrow> i = RunQ (home_core s t)"
  shows "\<exists>s'. enqueue_if_migrated_from_current_core t s = Some s' \<and> only_queues_changed s s' \<and>
    queues_inv s' (if is_runnable_on_current_core s t then qs else enqueued s t qs) \<and>
    (is_runnable_on_current_core s t \<longrightarrow> s' = s)"
proof (cases "\<not> is_idle_thread s t \<and> is_runnable s t \<and> home_core s t \<noteq> current_core_id s")
  case True
  then have "enqueue_if_migrated_from_current_core t s = enqueue t s"
    by (simp add: enqueue_if_migrated_from_current_core_def is_runnable_def home_core_def)
  then show ?thesis using enqueue_spec [OF inv t _ only] True by (auto simp: runnable_here_iff)
next
  case False
  then have "enqueue_if_migrated_from_current_core t s = Some s"
    by (auto simp: enqueue_if_migrated_from_current_core_def is_runnable_def home_core_def)
  moreover have "enqueued s t qs = qs" if "\<not> is_runnable_on_current_core s t"
    using False that by (auto simp: enqueued_def runnable_here_iff)
  ultimately show ?thesis using inv by simp
qed

lemma requeue_here:
  assumes inv: "queues_inv s qs" and t: "tcb_addr_ok t"
    and only: "\<And>i. t \<in> set (qs i) \<Longrightarrow> i = RunQ (home_core s t)"
  shows "\<exists>s'. (if is_runnable_on_current_core s t then enqueue t s else Some s) = Some s' \<and>
    only_queues_changed s s' \<and> queues_inv s' (if is_runnable_on_current_core s t then enqueued s t qs else qs)"
  using enqueue_spec [OF inv t _ only] inv by auto

lemma home_core_queues: "only_queues_changed s s' \<Longrightarrow> home_core s' t = home_core s t"
  by (simp add: home_core_def core_for_affinity_def only_queues_changedD)

lemma enqueued_queues: "only_queues_changed s s' \<Longrightarrow> enqueued s' t qs = enqueued s t qs"
  by (rule enqueued_cong) (simp_all add: only_queues_changedD)

lemma enqueued_only:
  "(\<And>i. t \<in> set (qs i) \<Longrightarrow> i = RunQ (home_core s t)) \<Longrightarrow> t \<in> set (enqueued s t qs i) \<Longrightarrow> i = RunQ (home_core s t)"
  by (auto simp: enqueued_def Let_def split: if_splits)

lemma only_queues_changed_flags:
  assumes "only_queues_changed s s1"
  shows "only_queues_changed (s\<lparr> continue_once := co, resched := rs \<rparr>) (s1\<lparr> continue_once := co, resched := rs \<rparr>)"
proof -
  obtain rq lk ev where s1: "s1 = s\<lparr> runqueues := rq, tlinks := lk, events := ev \<rparr>"
    using assms by (auto simp: only_queues_changed_def)
  have "s1\<lparr> continue_once := co, resched := rs \<rparr> =
      s\<lparr> continue_once := co, resched := rs, runqueues := rq, tlinks := lk, events := ev \<rparr>"
    unfolding s1 by (rule kstate.equality) simp_all
  then show ?thesis unfolding only_queues_changed_def by blast
qed

text \<open>Where the current thread goes when it does not keep the core.\<close>

lemma kernel_exit_requeues:
  assumes inv: "queues_inv s qs" and t: "tcb_addr_ok t" and cur: "current_tcb s = Some t"
    and only: "\<And>i. t \<in> set (qs i) \<Longrightarrow> i = RunQ (home_core s t)" and leaves: "\<not> keeps_core s t"
  shows "\<exists>s1 s2. kernel_exit t s = exit_to_next t (Some t) s2 \<and> flags_taken s s1 \<and> only_queues_changed s1 s2 \<and>
    queues_inv s2 (enqueued s t qs) \<and>
    (continue_once s (current_core_id s) \<noteq> t \<longrightarrow> continue_once s2 = continue_once s)"
proof -
  let ?here = "is_runnable_on_current_core s t"
  obtain s1 where s1: "enqueue_if_migrated_from_current_core t s = Some s1" "only_queues_changed s s1"
    "queues_inv s1 (if ?here then qs else enqueued s t qs)" "?here \<longrightarrow> s1 = s"
    using enqueue_if_migrated_spec [OF inv t only] by blast
  note same1 = only_queues_changedD [OF s1(2)] runnable_here_queues [OF s1(2)] home_core_queues [OF s1(2)]
    only_queues_changed_continue [OF s1(2)]
  define co where "co = (if continue_once s (current_core_id s) = t then (continue_once s)(current_core_id s := 0)
      else continue_once s)"
  define rs where "rs = (resched s)(current_core_id s := False)"
  define s3 where "s3 = s1\<lparr> continue_once := co, resched := rs \<rparr>"
  have flags: "flags_taken s1 s3" unfolding s3_def ..
  note same3 = flags_takenD [OF flags]
  have "\<exists>s4. (if is_runnable_on_current_core s3 t then enqueue t s3 else Some s3) = Some s4 \<and>
    only_queues_changed s3 s4 \<and> queues_inv s4 (if is_runnable_on_current_core s3 t
      then enqueued s3 t (if ?here then qs else enqueued s t qs) else if ?here then qs else enqueued s t qs)"
  proof (rule requeue_here [OF _ t])
    show "queues_inv s3 (if ?here then qs else enqueued s t qs)" using s1(3) by (simp add: same3)
    show "i = RunQ (home_core s3 t)" if "t \<in> set ((if ?here then qs else enqueued s t qs) i)" for i
      using that only enqueued_only [of t qs s i] by (auto simp: same3 same1 split: if_splits)
  qed
  then obtain s4 where s4: "(if ?here then enqueue t s3 else Some s3) = Some s4" "only_queues_changed s3 s4"
    "queues_inv s4 (enqueued s t qs)"
    by (auto simp: same3 same1 enqueued_queues [OF s1(2)] split: if_splits)
  have take: "take_continue_current_once (Some t) s1 = (continue_once s (current_core_id s) = t, s1\<lparr> continue_once := co \<rparr>)"
    by (simp add: take_continue_current_once_def same1 co_def)
  have "take_reschedule_required (s1\<lparr> continue_once := co \<rparr>) = (resched s (current_core_id s), s3)"
    by (simp add: take_reschedule_required_def same1 s3_def rs_def)
  moreover have "is_runnable_on_current_core (s1\<lparr> continue_once := co \<rparr>) t = ?here"
    using same1 by (simp add: is_runnable_on_current_core_def core_for_affinity_def)
  ultimately have "kernel_exit t s = exit_to_next t (Some t) s4"
    using leaves s4(1) by (auto simp: kernel_exit_def cur s1(1) take same3 same1 keeps_core_def split: if_splits)
  moreover have "only_queues_changed (s\<lparr> continue_once := co, resched := rs \<rparr>) s3"
    unfolding s3_def by (rule only_queues_changed_flags [OF s1(2)])
  then have "only_queues_changed (s\<lparr> continue_once := co, resched := rs \<rparr>) s4"
    using s4(2) only_queues_changed_trans by blast
  moreover have "continue_once s (current_core_id s) \<noteq> t \<longrightarrow> continue_once s4 = continue_once s"
    using only_queues_changed_continue [OF s4(2)] by (simp add: s3_def co_def)
  ultimately show ?thesis using s4(3) flags_takenI by blast
qed

lemma kernel_exit_leaves:
  assumes inv: "queues_inv s qs" and cfg: "core_config_ok s" and t: "tcb_addr_ok thread"
    and cur: "current_tcb s = None \<or> current_tcb s = Some thread"
    and only: "\<And>i. thread \<in> set (qs i) \<Longrightarrow> i = RunQ (home_core s thread)" and leaves: "\<not> keeps_core s thread"
    and idle: "idle_tcbs s (current_core_id s) = idle" "idle \<noteq> 0"
    and ys: "ys = dropWhile (\<lambda>t. \<not> is_runnable_on_current_core s t) (requeued s thread qs (RunQ (current_core_id s)))"
    and ctx: "ctx = (case ys of y # _ \<Rightarrow> y
        | [] \<Rightarrow> if current_tcb s = Some thread \<and> is_runnable_on_current_core s thread then thread else idle)"
  shows "\<exists>s'. kernel_exit thread s = Some (ctx, s') \<and> resumes s ctx s' \<and>
    queues_inv s' ((requeued s thread qs)(RunQ (current_core_id s) := tl ys)) \<and>
    (continue_once s (current_core_id s) \<noteq> thread \<longrightarrow> continue_once s' = continue_once s)"
proof -
  have core: "current_core_id s < MAX_NUM_NODES s" using cfg by (simp add: core_config_ok_def)
  show ?thesis
  proof (cases "current_tcb s")
    case None
    then have rq: "requeued s thread qs = qs" by (simp add: requeued_def)
    have "\<exists>s'. exit_to_next thread None s = Some (ctx, s') \<and> resumes s ctx s' \<and>
        queues_inv s' (qs(RunQ (current_core_id s) := tl ys)) \<and> continue_once s' = continue_once s"
      by (rule exit_to_next_spec [OF inv core idle]) (use None ys ctx rq in simp_all)
    then show ?thesis using None rq by (auto simp: kernel_exit_def)
  next
    case (Some c)
    with cur have c: "current_tcb s = Some thread" by simp
    then have rq: "requeued s thread qs = enqueued s thread qs" by (simp add: requeued_def)
    obtain s1 s2 where s2: "kernel_exit thread s = exit_to_next thread (Some thread) s2" "flags_taken s s1"
      "only_queues_changed s1 s2" "queues_inv s2 (enqueued s thread qs)"
      "continue_once s (current_core_id s) \<noteq> thread \<longrightarrow> continue_once s2 = continue_once s"
      using kernel_exit_requeues [OF inv t c only leaves] by blast
    note same = flags_takenD [OF s2(2)] only_queues_changedD [OF s2(3)] runnable_here_queues [OF s2(3)]
    have "\<exists>s'. exit_to_next thread (Some thread) s2 = Some (ctx, s') \<and> resumes s2 ctx s' \<and>
        queues_inv s' ((enqueued s thread qs)(RunQ (current_core_id s2) := tl ys)) \<and> continue_once s' = continue_once s2"
      by (rule exit_to_next_spec [OF s2(4), where idle = idle and ys = ys])
        (use core idle ys c in \<open>simp_all add: same rq ctx\<close>)
    then show ?thesis
      using s2(1,5) resumes_queues [OF s2(3)] by (auto simp: same rq)
  qed
qed

text \<open>A thread that wants this or another core: ready on its home core, or running now.\<close>

definition ready_to_run :: "kstate \<Rightarrow> (qid \<Rightarrow> u64 list) \<Rightarrow> u64 \<Rightarrow> bool" where
  "ready_to_run s qs t \<longleftrightarrow> is_runnable s t \<and> \<not> is_idle_thread s t \<and>
     (current_tcb s = Some t \<or> t \<in> set (qs (RunQ (home_core s t))))"

lemma ready_requeued:
  assumes "ready_to_run s qs t" "current_tcb s = None \<or> current_tcb s = Some thread"
  shows "t \<in> set (requeued s thread qs (RunQ (home_core s t)))"
  using assms by (auto simp: ready_to_run_def requeued_def enqueued_def Let_def)

lemma dropWhile_keeps: "x \<in> set xs \<Longrightarrow> \<not> P x \<Longrightarrow> x \<in> set (dropWhile P xs)"
  by (induction xs) auto

lemma kernel_exit_choice:
  assumes cur: "current_tcb s = None \<or> current_tcb s = Some thread"
    and ys: "ys = dropWhile (\<lambda>t. \<not> is_runnable_on_current_core s t) (requeued s thread qs (RunQ (current_core_id s)))"
    and ctx: "ctx = (case ys of y # _ \<Rightarrow> y
        | [] \<Rightarrow> if current_tcb s = Some thread \<and> is_runnable_on_current_core s thread then thread else idle)"
  shows "is_runnable_on_current_core s ctx \<or>
      ctx = idle \<and> (\<forall>t. ready_to_run s qs t \<longrightarrow> home_core s t \<noteq> current_core_id s)"
    and "ready_to_run s qs t \<Longrightarrow> t \<noteq> ctx \<Longrightarrow>
      t \<in> set (((requeued s thread qs)(RunQ (current_core_id s) := tl ys)) (RunQ (home_core s t)))"
proof -
  have in_ys: "t \<in> set ys" if "ready_to_run s qs t" "home_core s t = current_core_id s" for t
    unfolding ys
  proof (rule dropWhile_keeps)
    show "t \<in> set (requeued s thread qs (RunQ (current_core_id s)))" using ready_requeued [OF that(1) cur] that(2) by simp
    show "\<not> \<not> is_runnable_on_current_core s t" using that by (simp add: ready_to_run_def runnable_here_iff)
  qed
  have "is_runnable_on_current_core s y" if "ys = y # zs" for y zs
    using that ys by (metis dropWhile_eq_Cons_conv)
  then show "is_runnable_on_current_core s ctx \<or>
      ctx = idle \<and> (\<forall>t. ready_to_run s qs t \<longrightarrow> home_core s t \<noteq> current_core_id s)"
    using ctx in_ys by (cases ys) auto
  show "t \<in> set (((requeued s thread qs)(RunQ (current_core_id s) := tl ys)) (RunQ (home_core s t)))"
    if "ready_to_run s qs t" "t \<noteq> ctx"
    using in_ys [OF that(1)] ready_requeued [OF that(1) cur] that(2) ctx by (cases ys) auto
qed


text \<open>Two threads that only yield: one runs, the other one is ready to be enqueued.\<close>

definition yielding_pair :: kstate where
  "yielding_pair = (upd_context thr_a (uc_put A7 (- 7)) (upd_context thr_b (uc_put A7 (- 7)) two_threads))
     \<lparr> cpu_current := (\<lambda>_. thr_b) \<rparr>"

lemma yielding_pair_sel [simp]:
  "core_config_ok yielding_pair" "current_tcb yielding_pair = Some thr_b" "continue_once yielding_pair 0 = 0"
  "idle_tcbs yielding_pair 0 = 0xFFFFFFFF84000000" "current_core_id yielding_pair = 0"
  "MAX_NUM_NODES yielding_pair = 1" "home_core yielding_pair t = 0" "is_runnable yielding_pair thr_a"
  "is_runnable yielding_pair thr_b" "\<not> is_idle_thread yielding_pair thr_a" "\<not> is_idle_thread yielding_pair thr_b"
  "uc_get A7 (tcb_context (tcbs yielding_pair thr_a)) = - 7" "uc_get A7 (tcb_context (tcbs yielding_pair thr_b)) = - 7"
  by (simp_all add: yielding_pair_def core_config_ok_def two_threads_def set_state_def current_tcb_def
      from_kva_def thr_a_def thr_b_def is_runnable_def is_idle_thread_def idle_thread_of_def home_core_def
      core_for_affinity_def Let_def upd_context_def upd_tcb_def empty_kstate_def tcb_zero_def uc_get_def uc_put_def)

lemma yielding_pair_inv: "queues_inv yielding_pair (\<lambda>_. [])"
  by (rule queues_inv_same [OF two_threads_inv]) (simp_all add: yielding_pair_def upd_context_def upd_tcb_def)


section \<open>Yielding threads take turns\<close>

text \<open>
  \<open>t\<close> runs on the core, \<open>xs\<close> are the ready threads in the order of the queue, and each of them is about to make
  the system call \<open>Yield\<close>.
\<close>

definition yielding :: "kstate \<Rightarrow> u64 \<Rightarrow> bool" where
  "yielding s x \<longleftrightarrow> tcb_addr_ok x \<and> is_runnable_on_current_core s x \<and> \<not> is_idle_thread s x \<and>
     uc_get A7 (tcb_context (tcbs s x)) = - 7"

definition yield_ring :: "kstate \<Rightarrow> (qid \<Rightarrow> u64 list) \<Rightarrow> u64 \<Rightarrow> u64 list \<Rightarrow> bool" where
  "yield_ring s qs t xs \<longleftrightarrow> queues_inv s qs \<and> core_config_ok s \<and> current_tcb s = Some t \<and>
     qs (RunQ (current_core_id s)) = xs \<and> (\<forall>i. t \<notin> set (qs i)) \<and>
     continue_once s (current_core_id s) = 0 \<and> idle_tcbs s (current_core_id s) \<noteq> 0 \<and>
     (\<forall>x\<in>set (t # xs). yielding s x)"

fun yields :: "nat \<Rightarrow> u64 \<times> kstate \<Rightarrow> (u64 \<times> kstate) option" where
  "yields 0 r = Some r"
| "yields (Suc n) (t, s) = Option.bind (handle_trap_rust False (Some t) 8 0 s) (yields n)"

lemma handle_yield_trap:
  assumes "current_tcb s = Some t" "uc_get A7 (tcb_context (tcbs s t)) = - 7"
    and "s1 = upd_context t (\<lambda>uc. uc\<lparr> uc_pc := uc_pc uc + 4 \<rparr>) (upd_context t (\<lambda>uc. uc\<lparr> uc_restart_pc := uc_pc uc \<rparr>) s)"
  shows "handle_trap_rust False (Some t) 8 0 s = Option.bind (yield_current t s1) (kernel_exit t)"
proof -
  have "current_tcb s1 = Some t" using assms(1,3) by (simp add: current_tcb_def upd_context_def upd_tcb_def)
  moreover have "\<not> (8 :: u64) <s 0" by (simp add: word_sless_alt)
  moreover have "exception_code_from_raw 8 = Some EnvironmentCallFromUser" by (simp add: exception_code_from_raw_def)
  ultimately show ?thesis using assms(2,3)
    by (simp add: handle_trap_rust_def handle_syscall_def syscall_from_raw_def Let_def upd_context_def upd_tcb_def uc_get_def)
qed

lemma yield_current_ring:
  assumes inv: "queues_inv s qs" and t: "tcb_addr_ok t" "\<And>i. t \<notin> set (qs i)" "\<not> is_idle_thread s t"
    "is_runnable_on_current_core s t"
  shows "\<exists>s'. yield_current t s = Some s' \<and> tcbs s' = tcbs s \<and> MAX_NUM_NODES s' = MAX_NUM_NODES s \<and>
    current_core_id s' = current_core_id s \<and> idle_tcbs s' = idle_tcbs s \<and> cpu_current s' = cpu_current s \<and>
    continue_once s' = continue_once s \<and> resched s' (current_core_id s) \<and>
    queues_inv s' (qs(RunQ (current_core_id s) := qs (RunQ (current_core_id s)) @ [t]))"
proof -
  have "enqueued s t qs = qs(RunQ (current_core_id s) := qs (RunQ (current_core_id s)) @ [t])"
    using t by (simp add: enqueued_def runnable_here_iff Let_def)
  then obtain s1 where s1: "enqueue t s = Some s1" "only_queues_changed s s1"
    "queues_inv s1 (qs(RunQ (current_core_id s) := qs (RunQ (current_core_id s)) @ [t]))"
    using enqueue_spec [OF inv t(1)] t(2) by auto
  have "queues_inv (request_reschedule s1) (qs(RunQ (current_core_id s) := qs (RunQ (current_core_id s)) @ [t]))"
    by (rule queues_inv_same [OF s1(3)]) (simp_all add: request_reschedule_def)
  then show ?thesis
    using s1(1) t(3) only_queues_changedD [OF s1(2)] only_queues_changed_continue [OF s1(2)]
    by (simp add: yield_current_def request_reschedule_def)
qed

lemma runnable_here_cong:
  assumes "tcb_state (tcbs s' t) = tcb_state (tcbs s t)" "tcb_affinity (tcbs s' t) = tcb_affinity (tcbs s t)"
    "MAX_NUM_NODES s' = MAX_NUM_NODES s" "current_core_id s' = current_core_id s"
  shows "is_runnable_on_current_core s' t = is_runnable_on_current_core s t"
  using assms by (simp add: is_runnable_on_current_core_def core_for_affinity_def)

text \<open>What the ring needs of a thread survives the resumption of a thread.\<close>

lemma restored_sel [simp]:
  "tcb_affinity (restored x) = tcb_affinity x" "uc_get r (tcb_context (restored x)) = uc_get r (tcb_context x)"
  "ts_is_runnable (tcb_state (restored x)) = ts_is_runnable (tcb_state x)"
  by (simp_all add: restored_def Let_def set_fpu_context_enabled_def uc_get_def)

lemma resumes_sel:
  assumes "resumes s ctx s'"
  shows "is_runnable_on_current_core s' t = is_runnable_on_current_core s t"
    "uc_get r (tcb_context (tcbs s' t)) = uc_get r (tcb_context (tcbs s t))"
    "is_idle_thread s' = is_idle_thread s" "current_core_id s' = current_core_id s" "MAX_NUM_NODES s' = MAX_NUM_NODES s"
    "idle_tcbs s' = idle_tcbs s" "current_tcb s' = Some ctx"
  using assms is_idle_thread_cong [of s' s]
  by (simp_all add: resumes_def is_runnable_on_current_core_def core_for_affinity_def)

lemma yield_trap_requeues:
  assumes inv: "queues_inv s qs" and cur: "current_tcb s = Some t" and free: "\<And>i. t \<notin> set (qs i)"
    and t: "yielding s t"
  shows "\<exists>s2. handle_trap_rust False (Some t) 8 0 s = kernel_exit t s2 \<and> (\<forall>x. yielding s2 x = yielding s x) \<and>
    MAX_NUM_NODES s2 = MAX_NUM_NODES s \<and> current_core_id s2 = current_core_id s \<and> idle_tcbs s2 = idle_tcbs s \<and>
    current_tcb s2 = current_tcb s \<and> continue_once s2 = continue_once s \<and> resched s2 (current_core_id s) \<and>
    queues_inv s2 (qs(RunQ (current_core_id s) := qs (RunQ (current_core_id s)) @ [t]))"
proof -
  define s1 where "s1 = upd_context t (\<lambda>uc. uc\<lparr> uc_pc := uc_pc uc + 4 \<rparr>)
      (upd_context t (\<lambda>uc. uc\<lparr> uc_restart_pc := uc_pc uc \<rparr>) s)"
  have sel1: "MAX_NUM_NODES s1 = MAX_NUM_NODES s" "current_core_id s1 = current_core_id s" "idle_tcbs s1 = idle_tcbs s"
    "cpu_current s1 = cpu_current s" "continue_once s1 = continue_once s"
    "tcb_state (tcbs s1 x) = tcb_state (tcbs s x)" "tcb_affinity (tcbs s1 x) = tcb_affinity (tcbs s x)"
    "uc_get r (tcb_context (tcbs s1 x)) = uc_get r (tcb_context (tcbs s x))" for x r
    by (simp_all add: s1_def upd_context_def upd_tcb_def uc_get_def)
  have y1: "yielding s1 x = yielding s x" for x
    using runnable_here_cong [of s1 x s] is_idle_thread_cong [of s1 s] by (simp add: yielding_def sel1)
  have inv1: "queues_inv s1 qs" unfolding s1_def upd_context_def using inv queues_inv_upds(1) by blast
  obtain s2 where s2: "yield_current t s1 = Some s2" "tcbs s2 = tcbs s1" "MAX_NUM_NODES s2 = MAX_NUM_NODES s1"
    "current_core_id s2 = current_core_id s1" "idle_tcbs s2 = idle_tcbs s1" "cpu_current s2 = cpu_current s1"
    "continue_once s2 = continue_once s1" "resched s2 (current_core_id s1)"
    "queues_inv s2 (qs(RunQ (current_core_id s1) := qs (RunQ (current_core_id s1)) @ [t]))"
    using yield_current_ring [OF inv1, of t] free t y1 [of t] by (auto simp: yielding_def)
  have "yielding s2 x = yielding s x" for x
    using y1 [of x] runnable_here_cong [of s2 x s1] is_idle_thread_cong [of s2 s1] by (simp add: yielding_def s2)
  moreover have "handle_trap_rust False (Some t) 8 0 s = kernel_exit t s2"
    using handle_yield_trap [OF cur _ s1_def] t s2(1) by (simp add: yielding_def)
  moreover have "current_tcb s2 = current_tcb s" by (simp add: current_tcb_def s2 sel1)
  ultimately show ?thesis using s2 by (auto simp: sel1)
qed

lemma yield_step:
  assumes ring: "yield_ring s qs t xs" and l: "xs @ [t] = y # ys"
  shows "\<exists>s' qs'. handle_trap_rust False (Some t) 8 0 s = Some (y, s') \<and> yield_ring s' qs' y ys"
proof -
  let ?c = "current_core_id s" and ?qs = "qs(RunQ (current_core_id s) := xs @ [t])"
  have inv: "queues_inv s qs" and cfg: "core_config_ok s" and cur: "current_tcb s = Some t"
    and q: "qs (RunQ ?c) = xs" and free: "\<And>i. t \<notin> set (qs i)" and co: "continue_once s ?c = 0"
    and idle: "idle_tcbs s ?c \<noteq> 0" and t: "yielding s t"
    using ring by (simp_all add: yield_ring_def)
  have mem: "set (y # ys) = set (t # xs)" using l by (metis rotate1.simps(2) set_rotate1)
  then have all: "yielding s x" if "x \<in> set (y # ys)" for x using ring that unfolding yield_ring_def mem by blast
  obtain s2 where s2: "handle_trap_rust False (Some t) 8 0 s = kernel_exit t s2" "\<And>x. yielding s2 x = yielding s x"
    "MAX_NUM_NODES s2 = MAX_NUM_NODES s" "current_core_id s2 = ?c" "idle_tcbs s2 = idle_tcbs s"
    "current_tcb s2 = Some t" "continue_once s2 = continue_once s" "resched s2 ?c" "queues_inv s2 ?qs"
    using yield_trap_requeues [OF inv cur free t] cur q by auto
  have t0: "t \<noteq> 0" "tcb_addr_ok t" using t tcb_addr_nonzero by (auto simp: yielding_def)
  have home: "home_core s2 t = ?c" using t s2(2) [of t] by (simp add: yielding_def runnable_here_iff s2(4))
  have rq: "requeued s2 t ?qs = ?qs" by (simp add: requeued_def enqueued_def home)
  have ys: "dropWhile (\<lambda>t. \<not> is_runnable_on_current_core s2 t) (requeued s2 t ?qs (RunQ ?c)) = y # ys"
    using all [of y] s2(2) [of y] unfolding rq by (simp add: l yielding_def)
  have "\<exists>s'. kernel_exit t s2 = Some (y, s') \<and> resumes s2 y s' \<and>
      queues_inv s' ((requeued s2 t ?qs)(RunQ (current_core_id s2) := tl (y # ys))) \<and>
      (continue_once s2 (current_core_id s2) \<noteq> t \<longrightarrow> continue_once s' = continue_once s2)"
  proof (rule kernel_exit_leaves [OF s2(9), where idle = "idle_tcbs s ?c"])
    show "core_config_ok s2" using cfg by (simp add: core_config_ok_def s2)
    show "i = RunQ (home_core s2 t)" if "t \<in> set (?qs i)" for i
      using that free by (auto simp: home split: if_splits)
    show "\<not> keeps_core s2 t" using co t0 s2(8) by (simp add: keeps_core_def s2)
  qed (use t0 idle ys in \<open>simp_all add: s2\<close>)
  then obtain s' where s': "kernel_exit t s2 = Some (y, s')" "resumes s2 y s'" "queues_inv s' (?qs(RunQ ?c := ys))"
    "continue_once s' = continue_once s2"
    using co t0 by (auto simp: rq s2)
  note same = resumes_sel [OF s'(2)]
  have out: "y \<notin> set ((?qs(RunQ ?c := ys)) i)" for i
    using queues_invD(2) [OF s2(9), of y "RunQ ?c" i] queues_invD(4) [OF s2(9), of "RunQ ?c"] l by (auto split: if_splits)
  have "yielding s' x" if "x \<in> set (y # ys)" for x
    using all [OF that] s2(2) [of x] by (simp add: yielding_def same)
  then have "yield_ring s' (?qs(RunQ ?c := ys)) y ys"
    using s'(3) cfg out co idle by (simp add: yield_ring_def same s2 s'(4) core_config_ok_def)
  then show ?thesis using s2(1) s'(1) by auto
qed

lemma yields_rotate:
  assumes "yield_ring s qs t xs"
  shows "\<exists>s' qs'. yields n (t, s) = Some (hd (rotate n (t # xs)), s') \<and>
    yield_ring s' qs' (hd (rotate n (t # xs))) (tl (rotate n (t # xs)))"
  using assms
proof (induction n arbitrary: s qs t xs)
  case 0
  then show ?case by auto
next
  case (Suc n)
  obtain y ys where l: "xs @ [t] = y # ys" by (cases "xs @ [t]") auto
  obtain s1 qs1 where s1: "handle_trap_rust False (Some t) 8 0 s = Some (y, s1)" "yield_ring s1 qs1 y ys"
    using yield_step [OF Suc.prems l] by blast
  have "rotate (Suc n) (t # xs) = rotate n (y # ys)" using l by (simp add: rotate1_rotate_swap rotate_Suc)
  then show ?case using Suc.IH [OF s1(2)] s1(1) by simp
qed

lemma mod_reaches:
  fixes j k l :: nat
  assumes "j < l"
  shows "\<exists>n. k \<le> n \<and> n < k + l \<and> n mod l = j"
proof (intro exI [of _ "k + (j + l - k mod l) mod l"] conjI)
  have le: "k mod l \<le> l" using assms by (intro less_imp_le mod_less_divisor) simp
  have "(k + (j + l - k mod l) mod l) mod l = (k mod l + (j + l - k mod l)) mod l" by (simp add: mod_simps)
  also have "\<dots> = (j + l) mod l" using le by simp
  finally show "(k + (j + l - k mod l) mod l) mod l = j" using assms by simp
  show "k + (j + l - k mod l) mod l < k + l" using assms by simp
qed simp

text \<open>
  C6: Threads that yield take turns, through the whole of the trap handler. When \<open>t\<close> runs and \<open>xs\<close> are the ready
  threads of its core, and each of them traps with the system call \<open>Yield\<close> whenever it runs, then no trap
  fails and each of them gets the core again and again: from any point on, within as many traps as there
  are threads.
\<close>

theorem yielding_threads_take_turns:
  assumes "yield_ring s qs t xs" "x \<in> set (t # xs)"
  shows "\<exists>n s'. k \<le> n \<and> n < k + length (t # xs) \<and> yields n (t, s) = Some (x, s') \<and> current_tcb s' = Some x"
proof -
  obtain j where j: "j < length (t # xs)" "(t # xs) ! j = x" using assms(2) unfolding in_set_conv_nth by blast
  obtain n where n: "k \<le> n" "n < k + length (t # xs)" "n mod length (t # xs) = j" using mod_reaches [OF j(1)] by blast
  have "hd (rotate n (t # xs)) = x" using n(3) j(2) by (subst hd_rotate_conv_nth) simp_all
  then obtain s' qs' where "yields n (t, s) = Some (x, s')" "yield_ring s' qs' x (tl (rotate n (t # xs)))"
    using yields_rotate [OF assms(1), of n] by auto
  then show ?thesis using n by (auto simp: yield_ring_def)
qed

theorem yielding_threads_take_turns_witness:
  "\<exists>s n s'. enqueue thr_a yielding_pair = Some s \<and> 100 \<le> n \<and> n < 102 \<and> yields n (thr_b, s) = Some (thr_a, s')"
proof -
  obtain s where s: "enqueue thr_a yielding_pair = Some s" "only_queues_changed yielding_pair s"
    "queues_inv s (enqueued yielding_pair thr_a (\<lambda>_. []))"
    using enqueue_spec [OF yielding_pair_inv thr_addr_ok(1)] by auto
  note same = only_queues_changedD [OF s(2)] runnable_here_queues [OF s(2)] only_queues_changed_continue [OF s(2)]
  have q: "enqueued yielding_pair thr_a (\<lambda>_. []) = (\<lambda>_. [])(RunQ 0 := [thr_a])" by (simp add: enqueued_def)
  have "yielding yielding_pair thr_a" "yielding yielding_pair thr_b"
    using thr_addr_ok by (simp_all add: yielding_def runnable_here_iff)
  then have y: "yielding s thr_a" "yielding s thr_b"
    using is_idle_thread_cong [of s yielding_pair] unfolding yielding_def by (simp_all only: same simp_thms)
  have "yield_ring s ((\<lambda>_. [])(RunQ 0 := [thr_a])) thr_b [thr_a]"
    using s(3) y core_config_ok_def [of s] yielding_pair_sel(1) by (simp add: yield_ring_def q same core_config_ok_def)
  from yielding_threads_take_turns [OF this, of thr_a 100] show ?thesis using s(1) by auto
qed

end
