(* ===== verification/Rel4_Boot.thy ===== *)
theory Rel4_Boot
  imports Rel4_Untyped
begin

text \<open>
  The memory the kernel hands out when it starts (\<^verbatim>\<open>object/untyped.rs\<close>): a range of free memory is
  cut into chunks whose sizes are powers of two and which are aligned to their sizes, each of which
  becomes an untyped capability.
\<close>

section \<open>Chunks\<close>

definition leading_zeros :: "u64 \<Rightarrow> nat" where
  "leading_zeros w = length (takeWhile Not (map (bit w) (rev [0..<64])))"

definition trailing_zeros :: "u64 \<Rightarrow> nat" where
  "trailing_zeros w = length (takeWhile Not (map (bit w) [0..<64]))"

record free_range =
  fr_start_kva :: u64
  fr_size :: u64

record untyped_chunks =
  uc_cursor :: u64
  uc_end :: u64

definition chunks_new :: "free_range \<Rightarrow> untyped_chunks" where
  "chunks_new r = \<lparr> uc_cursor = fr_start_kva r, uc_end = fr_start_kva r + fr_size r \<rparr>"

definition chunk_bits :: "untyped_chunks \<Rightarrow> nat" where
  "chunk_bits c =
     (let max_by_size = 63 - leading_zeros (uc_end c - uc_cursor c);
          max_by_align = (if uc_cursor c = 0 then unat SEL4_MAX_UNTYPED_BITS else trailing_zeros (uc_cursor c))
      in min (min max_by_size max_by_align) (unat SEL4_MAX_UNTYPED_BITS))"

definition next_chunk :: "untyped_chunks \<Rightarrow> (u64 \<times> nat) option \<times> untyped_chunks" where
  "next_chunk c =
     (if uc_end c \<le> uc_cursor c then (None, c)
      else let bits = chunk_bits c in
        if bits < unat SEL4_MIN_UNTYPED_BITS then (None, c\<lparr> uc_cursor := uc_end c \<rparr>)
        else (Some (uc_cursor c, bits), c\<lparr> uc_cursor := uc_cursor c + push_bit bits 1 \<rparr>))"

definition make_untyped_cap :: "u64 \<Rightarrow> nat \<Rightarrow> bool \<Rightarrow> cap" where
  "make_untyped_cap base_kva bits is_device = new_untyped base_kva (of_nat bits) 0 is_device"

section \<open>Zeros of a word\<close>

lemma takeWhile_Not_map_upt:
  "length (takeWhile Not (map P [0..<n])) = (if \<exists>i<n. P i then LEAST i. P i else n)"
proof (induction n)
  case (Suc n)
  show ?case
  proof (cases "\<exists>i<n. P i")
    case True
    then have "True \<in> set (map P [0..<n])" by force
    then have "takeWhile Not (map P [0..<Suc n]) = takeWhile Not (map P [0..<n])"
      by (simp add: takeWhile_append1 [of True])
    with Suc True show ?thesis by (auto simp: less_Suc_eq)
  next
    case False
    then have none: "takeWhile Not (map P [0..<n]) = map P [0..<n]" by (simp add: takeWhile_eq_all_conv)
    have "(LEAST i. P i) = n" if "P n"
      using that False by (intro Least_equality) (auto simp: not_less [symmetric])
    with none False show ?thesis by (auto simp: takeWhile_append less_Suc_eq)
  qed
qed simp

lemma trailing_zeros_dvd: "2 ^ trailing_zeros w dvd unat w"
proof -
  let ?n = "trailing_zeros w"
  have "\<not> bit w i" if "i < ?n" for i
  proof (cases "\<exists>j<64. bit w j")
    case True
    then have "?n = (LEAST j. bit w j)" unfolding trailing_zeros_def takeWhile_Not_map_upt by auto
    then show ?thesis using that not_less_Least by metis
  next
    case False
    then have "?n = 64" unfolding trailing_zeros_def takeWhile_Not_map_upt by auto
    then show ?thesis using False that by auto
  qed
  then have "take_bit ?n (unat w) = 0"
    by (intro bit_eqI) (auto simp: bit_take_bit_iff bit_unsigned_iff)
  then show ?thesis by (simp add: take_bit_eq_mod dvd_eq_mod_eq_0)
qed

lemma word_has_bit:
  assumes "(w :: u64) \<noteq> 0"
  obtains j where "j < 64" "bit w j"
proof (rule ccontr)
  assume "\<not> thesis"
  then have "w = 0" using that by (intro bit_word_eqI) auto
  with assms show False ..
qed

lemma trailing_zeros_ge:
  assumes "2 ^ n dvd unat w" "w \<noteq> 0"
  shows "n \<le> trailing_zeros w"
proof -
  obtain j where j: "j < 64" "bit w j" using word_has_bit [OF assms(2)] by blast
  then have t: "trailing_zeros w = (LEAST j. bit w j)" unfolding trailing_zeros_def takeWhile_Not_map_upt by auto
  then have b: "bit w (trailing_zeros w)" using j(2) by (metis LeastI)
  show ?thesis
  proof (rule ccontr)
    assume "\<not> n \<le> trailing_zeros w"
    then have "bit (take_bit n (unat w)) (trailing_zeros w)" using b by (simp add: bit_take_bit_iff bit_unsigned_iff)
    moreover have "take_bit n (unat w) = 0" using assms(1) by (simp add: take_bit_eq_mod)
    ultimately show False by simp
  qed
qed

text \<open>The position of the highest bit.\<close>

lemma leading_zeros_bounds:
  assumes "w \<noteq> 0"
  shows "2 ^ (63 - leading_zeros w) \<le> unat w" "unat w < 2 ^ (64 - leading_zeros w)" "leading_zeros w \<le> 63"
proof -
  have rev: "map (bit w) (rev [0..<64]) = map (\<lambda>i. bit w (63 - i)) [0..<64]"
    by (rule nth_equalityI) (simp_all add: rev_nth)
  obtain j where j: "j < 64" "bit w j" by (rule word_has_bit [OF assms])
  have ex: "\<exists>i<64. bit w (63 - i)" using j by (intro exI [of _ "63 - j"]) simp
  then have l: "leading_zeros w = (LEAST i. bit w (63 - i))"
    unfolding leading_zeros_def rev takeWhile_Not_map_upt by simp
  have top: "bit w (63 - leading_zeros w)" unfolding l using ex by (metis LeastI)
  show le: "leading_zeros w \<le> 63" unfolding l using j by (intro Least_le [THEN order_trans [of _ "63 - j"]]) simp_all
  show "2 ^ (63 - leading_zeros w) \<le> unat w"
  proof (rule ccontr)
    assume "\<not> ?thesis"
    then have "take_bit (63 - leading_zeros w) (unat w) = unat w" by (simp add: take_bit_nat_eq_self)
    then have "\<not> bit (unat w) (63 - leading_zeros w)" by (metis bit_take_bit_iff less_irrefl)
    with top show False by (simp add: bit_unsigned_iff)
  qed
  have "take_bit (64 - leading_zeros w) (unat w) = unat w"
  proof (rule bit_eqI)
    fix n
    have "n < 64 - leading_zeros w" if "bit w n"
    proof (rule ccontr)
      assume n: "\<not> ?thesis"
      have "n < 64" using that bit_imp_le_length by force
      with n that have "63 - n < leading_zeros w" "bit w (63 - (63 - n))" using le by simp_all
      then show False unfolding l using not_less_Least by metis
    qed
    then show "bit (take_bit (64 - leading_zeros w) (unat w)) n = bit (unat w) n"
      by (auto simp: bit_take_bit_iff bit_unsigned_iff)
  qed
  then show "unat w < 2 ^ (64 - leading_zeros w)" by (metis take_bit_nat_less_exp)
qed

section \<open>All chunks of a range\<close>

lemma next_chunk_cases:
  assumes "next_chunk c = (Some (base, bits), c')"
  shows "base = uc_cursor c" "4 \<le> bits" "bits \<le> 38" "2 ^ bits dvd unat base" "unat base + 2 ^ bits \<le> unat (uc_end c)"
    "uc_end c' = uc_end c" "unat (uc_cursor c') = unat base + 2 ^ bits"
proof -
  have c: "uc_cursor c < uc_end c" "base = uc_cursor c" "bits = chunk_bits c" "4 \<le> bits"
    "c' = c\<lparr> uc_cursor := uc_cursor c + push_bit bits 1 \<rparr>"
    using assms by (auto simp: next_chunk_def Let_def SEL4_MIN_UNTYPED_BITS_def split: if_splits)
  show "base = uc_cursor c" "4 \<le> bits" "uc_end c' = uc_end c" using c by simp_all
  show b: "bits \<le> 38" by (simp add: c(3) chunk_bits_def Let_def SEL4_MAX_UNTYPED_BITS_def)
  have sub: "unat (uc_end c - uc_cursor c) = unat (uc_end c) - unat (uc_cursor c)" "unat (uc_cursor c) < unat (uc_end c)"
    using c(1) by (simp_all add: unat_sub word_less_nat_alt order_less_imp_le)
  have nz: "uc_end c - uc_cursor c \<noteq> 0" using c(1) by auto
  have "bits \<le> 63 - leading_zeros (uc_end c - uc_cursor c)" by (simp add: c(3) chunk_bits_def Let_def)
  then have "2 ^ bits \<le> (2 :: nat) ^ (63 - leading_zeros (uc_end c - uc_cursor c))" by (rule power_increasing) simp
  also have "\<dots> \<le> unat (uc_end c) - unat (uc_cursor c)" using leading_zeros_bounds(1) [OF nz] sub(1) by simp
  finally show fits: "unat base + 2 ^ bits \<le> unat (uc_end c)" using sub(2) c(2) by simp
  show "2 ^ bits dvd unat base"
  proof (cases "base = 0")
    case False
    then have "bits \<le> trailing_zeros base" using c(2) by (simp add: c(3) chunk_bits_def Let_def)
    then show ?thesis using trailing_zeros_dvd [of base] by (meson dvd_trans le_imp_power_dvd)
  qed simp
  have "unat base + 2 ^ bits < 2 ^ 64" using fits unsigned_less [of "uc_end c", where ?'a = nat] by simp
  then show "unat (uc_cursor c') = unat base + 2 ^ bits"
    using b unat_two_power [of bits] by (simp add: c unat_plus_if')
qed

function all_chunks :: "untyped_chunks \<Rightarrow> (u64 \<times> nat) list" where
  "all_chunks c = (case next_chunk c of (None, _) \<Rightarrow> [] | (Some x, c') \<Rightarrow> x # all_chunks c')"
  by pat_completeness auto

termination
proof (relation "measure (\<lambda>c. unat (uc_end c) - unat (uc_cursor c))")
  fix c r c' x
  assume "(r, c') = next_chunk c" "r = Some x"
  then obtain base bits where "next_chunk c = (Some (base, bits), c')" by (cases x) (metis)
  note n = next_chunk_cases [OF this]
  have "0 < (2 :: nat) ^ bits" by simp
  then have "unat (uc_cursor c) < unat (uc_cursor c') \<and> unat (uc_cursor c) < unat (uc_end c)"
    using n(5,7) unfolding n(1) by linarith
  then show "(c', c) \<in> measure (\<lambda>c. unat (uc_end c) - unat (uc_cursor c))" using n(6) by (simp add: diff_less_mono2)
qed simp

declare all_chunks.simps [simp del]

text \<open>The chunks lie one after the other, from one address to another.\<close>

fun tiles :: "nat \<Rightarrow> (u64 \<times> nat) list \<Rightarrow> nat \<Rightarrow> bool" where
  "tiles a [] b \<longleftrightarrow> a = b"
| "tiles a ((p, n) # cs) b \<longleftrightarrow> unat p = a \<and> tiles (a + 2 ^ n) cs b"

lemma next_chunk_None:
  assumes "next_chunk c = (None, c')" "16 dvd unat (uc_cursor c)"
  shows "unat (uc_end c) < unat (uc_cursor c) + 16"
proof (cases "uc_end c \<le> uc_cursor c")
  case True
  then show ?thesis by (simp add: word_le_nat_alt)
next
  case False
  then have c: "uc_cursor c < uc_end c" by simp
  then have nz: "uc_end c - uc_cursor c \<noteq> 0" by auto
  have few: "chunk_bits c < 4" using assms(1) False by (simp add: next_chunk_def Let_def SEL4_MIN_UNTYPED_BITS_def split: if_splits)
  have "4 \<le> trailing_zeros (uc_cursor c)" if "uc_cursor c \<noteq> 0" using trailing_zeros_ge [of 4] assms(2) that by simp
  with few have "63 - leading_zeros (uc_end c - uc_cursor c) < 4"
    by (auto simp: chunk_bits_def Let_def SEL4_MAX_UNTYPED_BITS_def split: if_splits)
  then have "64 - leading_zeros (uc_end c - uc_cursor c) \<le> 4" by simp
  then have "(2 :: nat) ^ (64 - leading_zeros (uc_end c - uc_cursor c)) \<le> 2 ^ 4" by (rule power_increasing) simp
  with leading_zeros_bounds(2) [OF nz] have "unat (uc_end c - uc_cursor c) < 16" by simp
  then show ?thesis using c by (simp add: unat_sub order_less_imp_le)
qed

lemma all_chunks_tile:
  "\<lbrakk>16 dvd unat (uc_cursor c); uc_cursor c \<le> uc_end c\<rbrakk> \<Longrightarrow>
     (\<exists>e. tiles (unat (uc_cursor c)) (all_chunks c) e \<and> e \<le> unat (uc_end c) \<and> unat (uc_end c) < e + 16) \<and>
     (\<forall>(b, n) \<in> set (all_chunks c). 4 \<le> n \<and> n \<le> 38 \<and> 2 ^ n dvd unat b)"
proof (induction c rule: all_chunks.induct)
  case (1 c)
  show ?case
  proof (cases "next_chunk c")
    case (Pair r c')
    show ?thesis
    proof (cases r)
      case None
      with Pair next_chunk_None [of c c'] 1(2,3) show ?thesis
        by (auto simp: all_chunks.simps [of c] word_le_nat_alt)
    next
      case (Some x)
      obtain base bits where x: "x = (base, bits)" by (cases x)
      with Pair Some have n: "next_chunk c = (Some (base, bits), c')" by simp
      note s = next_chunk_cases [OF n]
      have "16 dvd (2 :: nat) ^ bits" using le_imp_power_dvd [OF s(2), of "2 :: nat"] by simp
      then have "16 dvd unat (uc_cursor c')" using 1(2) s(1,7) by simp
      moreover have "uc_cursor c' \<le> uc_end c'" using s(5-7) by (simp add: word_le_nat_alt)
      ultimately show ?thesis
        using 1(1) [of r c' x] Pair Some s by (auto simp: all_chunks.simps [of c] n)
    qed
  qed
qed

text \<open>
  C23: a range of free memory that starts at a multiple of sixteen is handed out without gaps and
  overlaps, up to less than sixteen bytes at its end: the chunks lie one after the other, each is
  aligned to its size, a power of two between the smallest and the largest size of untyped memory,
  and the enumeration of the chunks ends.
\<close>

theorem untyped_chunks_cover:
  assumes "unat (fr_start_kva r) + unat (fr_size r) < 2 ^ 64" "16 dvd unat (fr_start_kva r)"
  shows "(\<exists>e. tiles (unat (fr_start_kva r)) (all_chunks (chunks_new r)) e \<and>
      e \<le> unat (fr_start_kva r) + unat (fr_size r) \<and> unat (fr_start_kva r) + unat (fr_size r) < e + 16) \<and>
    (\<forall>(b, n) \<in> set (all_chunks (chunks_new r)). 4 \<le> n \<and> n \<le> 38 \<and> 2 ^ n dvd unat b)"
proof -
  have e: "unat (fr_start_kva r + fr_size r) = unat (fr_start_kva r) + unat (fr_size r)"
    using assms(1) by (simp add: unat_plus_if')
  then have "fr_start_kva r \<le> fr_start_kva r + fr_size r" by (simp add: word_le_nat_alt)
  with all_chunks_tile [of "chunks_new r"] assms(2) show ?thesis by (simp add: chunks_new_def e)
qed

theorem untyped_chunks_cover_witness:
  "\<exists>e. tiles (unat (0x1000 :: u64)) (all_chunks (chunks_new \<lparr> fr_start_kva = 0x1000, fr_size = 0x3028 \<rparr>)) e \<and> 0x4018 < e \<and> e \<le> 0x4028"
  using untyped_chunks_cover [of "\<lparr> fr_start_kva = 0x1000, fr_size = 0x3028 \<rparr>"] by auto

end
