(* ===== verification/Rel4_Smp.thy ===== *)
theory Rel4_Smp
  imports Rel4_State
begin

text \<open>
  The cores side by side: the big kernel lock and the requests of one core to another of
  \<^verbatim>\<open>kernel/smp.rs\<close>, step by step. The other theories describe what the kernel does while it
  holds the lock; here every load and store of the variables the cores share is a step of its own,
  and the steps of the cores are taken in any order.

  Loads and stores take effect one after the other: the acquire and release orderings of the source
  and its memory barriers are taken to be as strong as that.
\<close>

section \<open>State\<close>

definition NO_KERNEL_LOCK_OWNER :: u64 where "NO_KERNEL_LOCK_OWNER = - 1"
definition REMOTE_OP_STALL_TCB :: u64 where "REMOTE_OP_STALL_TCB = 1"
definition REMOTE_OP_RELEASE_FPU_OWNER :: u64 where "REMOTE_OP_RELEASE_FPU_OWNER = 2"
definition REMOTE_OP_FLUSH_VMA_ALL :: u64 where "REMOTE_OP_FLUSH_VMA_ALL = 3"
definition REMOTE_OP_FLUSH_VMA_ASID :: u64 where "REMOTE_OP_FLUSH_VMA_ASID = 4"

text \<open>
  Where a core is: in \<open>service_phase\<close> inside \<^verbatim>\<open>service_pending_remote_core_op\<close>, with what it has
  loaded so far; in \<open>request_phase\<close> inside \<^verbatim>\<open>remote_core_op\<close>, about to do what the name says.
  \<open>Outside\<close> is user mode or the idle loop.
\<close>

datatype service_phase = LoadPending | LoadDone | LoadTarget | LoadOp u64 | Perform u64 u64 | Complete bool

datatype request_phase =
    PutTarget | PutOp | ClearDone | PutPending | SendIpi | Await | ClearPending | ClearTarget | ClearOp

datatype phase =
    Outside
  | Spin
  | Service service_phase
  | StoreOwner
  | Inside
  | Request request_phase nat u64 u64
  | ClearOwner
  | Unlock

record core =
  cr_phase :: phase
  cr_current :: u64
  cr_fpu_owner :: u64
  cr_user_context :: u64
  cr_stalled :: bool
  cr_ipi :: bool
  cr_flushes :: "u64 option list"

record smp =
  sm_nodes :: nat
  sm_online :: "nat \<Rightarrow> bool"
  sm_idle :: "nat \<Rightarrow> u64"
  sm_locked :: bool
  sm_owner :: u64
  sm_pending :: u64
  sm_done :: u64
  sm_target :: u64
  sm_op :: u64
  sm_cores :: "nat \<Rightarrow> core"

definition upd_core :: "nat \<Rightarrow> (core \<Rightarrow> core) \<Rightarrow> smp \<Rightarrow> smp" where
  "upd_core i f s = s\<lparr> sm_cores := (sm_cores s)(i := f (sm_cores s i)) \<rparr>"

definition phase_of :: "smp \<Rightarrow> nat \<Rightarrow> phase" where
  "phase_of s i = cr_phase (sm_cores s i)"

definition goto :: "nat \<Rightarrow> phase \<Rightarrow> smp \<Rightarrow> smp" where
  "goto i ph = upd_core i (\<lambda>c. c\<lparr> cr_phase := ph \<rparr>)"

section \<open>The kernel lock\<close>

definition core_bit :: "nat \<Rightarrow> u64 option" where
  "core_bit core = (if core < 64 then Some (push_bit core 1) else None)"

text \<open>One attempt to take the lock; after a failed one the core looks for a request to it.\<close>

definition spin_lock_step :: "nat \<Rightarrow> smp \<Rightarrow> smp" where
  "spin_lock_step i s =
     (if \<not> sm_locked s then goto i StoreOwner (s\<lparr> sm_locked := True \<rparr>) else goto i (Service LoadPending) s)"

definition store_owner_step :: "nat \<Rightarrow> smp \<Rightarrow> smp" where
  "store_owner_step i s = goto i Inside (s\<lparr> sm_owner := of_nat i \<rparr>)"

definition kernel_lock_is_held_by :: "nat \<Rightarrow> smp \<Rightarrow> bool" where
  "kernel_lock_is_held_by i s \<longleftrightarrow> sm_owner s = of_nat i"

definition clear_owner_step :: "nat \<Rightarrow> smp \<Rightarrow> smp" where
  "clear_owner_step i s = goto i Unlock (s\<lparr> sm_owner := NO_KERNEL_LOCK_OWNER \<rparr>)"

definition unlock_step :: "nat \<Rightarrow> smp \<Rightarrow> smp" where
  "unlock_step i s = goto i Outside (s\<lparr> sm_locked := False \<rparr>)"

section \<open>Answering a request\<close>

definition smp_idle_thread :: "smp \<Rightarrow> u64 \<Rightarrow> bool" where
  "smp_idle_thread s t \<longleftrightarrow> list_ex (\<lambda>core. sm_idle s core = t) [0..<sm_nodes s]"

text \<open>
  What the request asks for. A stall makes the idle thread current if the target is the thread the
  core runs, and forgets the context that the trap has saved; the second component says so.
\<close>

definition perform_remote_op :: "nat \<Rightarrow> u64 \<Rightarrow> u64 \<Rightarrow> smp \<Rightarrow> bool \<times> smp" where
  "perform_remote_op i target op s =
     (if op = REMOTE_OP_RELEASE_FPU_OWNER then
        (False, if target \<noteq> 0 \<and> cr_fpu_owner (sm_cores s i) = target
                then upd_core i (\<lambda>c. c\<lparr> cr_fpu_owner := 0 \<rparr>) s else s)
      else if op = REMOTE_OP_FLUSH_VMA_ALL then
        (False, upd_core i (\<lambda>c. c\<lparr> cr_flushes := cr_flushes c @ [None] \<rparr>) s)
      else if op = REMOTE_OP_FLUSH_VMA_ASID then
        (False, upd_core i (\<lambda>c. c\<lparr> cr_flushes := cr_flushes c @ [Some target] \<rparr>) s)
      else if target \<noteq> 0 \<and> cr_current (sm_cores s i) = target then
        (True, upd_core i (\<lambda>c. c\<lparr> cr_current := sm_idle s i, cr_user_context := 0 \<rparr>) s)
      else (False, s))"

fun service_step :: "nat \<Rightarrow> service_phase \<Rightarrow> smp \<Rightarrow> smp" where
  "service_step i LoadPending s = (case core_bit i of
     None \<Rightarrow> goto i Spin s
   | Some b \<Rightarrow> if sm_pending s AND b = 0 then goto i Spin s else goto i (Service LoadDone) s)"
| "service_step i LoadDone s = (case core_bit i of
     None \<Rightarrow> goto i Spin s
   | Some b \<Rightarrow> if sm_done s AND b \<noteq> 0 then goto i Spin s else goto i (Service LoadTarget) s)"
| "service_step i LoadTarget s = goto i (Service (LoadOp (sm_target s))) s"
| "service_step i (LoadOp target) s = goto i (Service (Perform target (sm_op s))) s"
| "service_step i (Perform target op) s =
     (case perform_remote_op i target op s of (stalled, s') \<Rightarrow> goto i (Service (Complete stalled)) s')"
| "service_step i (Complete stalled) s = (case core_bit i of
     None \<Rightarrow> goto i Spin s
   | Some b \<Rightarrow> goto i Spin
       (upd_core i (\<lambda>c. c\<lparr> cr_stalled := cr_stalled c \<or> stalled \<rparr>) (s\<lparr> sm_done := sm_done s OR b \<rparr>)))"

section \<open>Making a request\<close>

definition remote_online :: "nat \<Rightarrow> nat \<Rightarrow> smp \<Rightarrow> bool" where
  "remote_online i core s \<longleftrightarrow> core < sm_nodes s \<and> core < MAX_BOOT_CPUS \<and> core \<noteq> i \<and> sm_online s core"

definition smp_wake_core :: "nat \<Rightarrow> nat \<Rightarrow> smp \<Rightarrow> smp" where
  "smp_wake_core i core s = (if remote_online i core s then upd_core core (\<lambda>c. c\<lparr> cr_ipi := True \<rparr>) s else s)"

definition remote_core_op :: "nat \<Rightarrow> nat \<Rightarrow> u64 \<Rightarrow> u64 \<Rightarrow> smp \<Rightarrow> smp" where
  "remote_core_op i core op target s =
     (if core_bit core = None \<or> \<not> remote_online i core s then s else goto i (Request PutTarget core op target) s)"

fun request_step :: "nat \<Rightarrow> request_phase \<Rightarrow> nat \<Rightarrow> u64 \<Rightarrow> u64 \<Rightarrow> smp \<Rightarrow> smp" where
  "request_step i PutTarget core op target s = goto i (Request PutOp core op target) (s\<lparr> sm_target := target \<rparr>)"
| "request_step i PutOp core op target s = goto i (Request ClearDone core op target) (s\<lparr> sm_op := op \<rparr>)"
| "request_step i ClearDone core op target s = goto i (Request PutPending core op target) (s\<lparr> sm_done := 0 \<rparr>)"
| "request_step i PutPending core op target s =
     goto i (Request SendIpi core op target) (s\<lparr> sm_pending := push_bit core 1 \<rparr>)"
| "request_step i SendIpi core op target s = goto i (Request Await core op target) (smp_wake_core i core s)"
| "request_step i Await core op target s =
     (if sm_done s AND push_bit core 1 = 0 then s else goto i (Request ClearPending core op target) s)"
| "request_step i ClearPending core op target s = goto i (Request ClearTarget core op target) (s\<lparr> sm_pending := 0 \<rparr>)"
| "request_step i ClearTarget core op target s = goto i (Request ClearOp core op target) (s\<lparr> sm_target := 0 \<rparr>)"
| "request_step i ClearOp core op target s = goto i Inside (s\<lparr> sm_op := REMOTE_OP_STALL_TCB \<rparr>)"

section \<open>What the kernel does with the lock\<close>

definition smp_core_of_tcb :: "u64 \<Rightarrow> smp \<Rightarrow> nat option" where
  "smp_core_of_tcb t s =
     find (\<lambda>core. sm_online s core \<and> cr_current (sm_cores s core) = t) [0..<min (sm_nodes s) MAX_BOOT_CPUS]"

definition smp_tcb_stall :: "nat \<Rightarrow> u64 \<Rightarrow> smp \<Rightarrow> smp" where
  "smp_tcb_stall i t s =
     (if smp_idle_thread s t then s
      else case smp_core_of_tcb t s of
             None \<Rightarrow> s
           | Some core \<Rightarrow> if core = i then s else remote_core_op i core REMOTE_OP_STALL_TCB t s)"

definition remote_fpu_owner_release :: "nat \<Rightarrow> nat \<Rightarrow> u64 \<Rightarrow> smp \<Rightarrow> smp" where
  "remote_fpu_owner_release i core t s =
     (if sm_nodes s \<le> core \<or> core = i then s else remote_core_op i core REMOTE_OP_RELEASE_FPU_OWNER t s)"

definition smp_owner_core :: "u64 \<Rightarrow> smp \<Rightarrow> nat option" where
  "smp_owner_core t s = find (\<lambda>core. cr_fpu_owner (sm_cores s core) = t) [0..<sm_nodes s]"

definition smp_fpu_release :: "nat \<Rightarrow> u64 \<Rightarrow> smp \<Rightarrow> smp" where
  "smp_fpu_release i t s = (case smp_owner_core t s of
     None \<Rightarrow> s
   | Some core \<Rightarrow>
       if core = i then upd_core i (\<lambda>c. c\<lparr> cr_fpu_owner := 0 \<rparr>) s else remote_fpu_owner_release i core t s)"

text \<open>
  The steps a core may choose with the lock: make a thread current, give it the floating-point unit,
  stall a thread, take the floating-point unit from a thread, acknowledge the inter-processor
  interrupt, or leave with a context to restore. Threads are named by their address, which is not
  zero.
\<close>

datatype kernel_move = SetCurrent u64 | LoadFpu u64 | Stall u64 | ReleaseFpu u64 | AckIpi | Leave u64

fun kernel_step :: "nat \<Rightarrow> kernel_move \<Rightarrow> smp \<Rightarrow> smp option" where
  "kernel_step i (SetCurrent t) s = (if t = 0 then None else Some (upd_core i (\<lambda>c. c\<lparr> cr_current := t \<rparr>) s))"
| "kernel_step i (LoadFpu t) s = (if t = 0 then None else Some (upd_core i (\<lambda>c. c\<lparr> cr_fpu_owner := t \<rparr>) s))"
| "kernel_step i (Stall t) s = (if t = 0 then None else Some (smp_tcb_stall i t s))"
| "kernel_step i (ReleaseFpu t) s = (if t = 0 then None else Some (smp_fpu_release i t s))"
| "kernel_step i AckIpi s = Some (upd_core i (\<lambda>c. c\<lparr> cr_ipi := False \<rparr>) s)"
| "kernel_step i (Leave ctx) s =
     (if ctx = 0 then None else Some (goto i ClearOwner (upd_core i (\<lambda>c. c\<lparr> cr_user_context := ctx \<rparr>) s)))"

section \<open>Steps of the system\<close>

text \<open>A core outside the kernel may trap at any time; the lock's local flag starts false.\<close>

datatype move = Trap | Go | Kernel kernel_move

definition trap_step :: "nat \<Rightarrow> smp \<Rightarrow> smp" where
  "trap_step i s = goto i Spin (upd_core i (\<lambda>c. c\<lparr> cr_stalled := False \<rparr>) s)"

definition smp_step :: "nat \<Rightarrow> move \<Rightarrow> smp \<Rightarrow> smp option" where
  "smp_step i m s = (case (m, phase_of s i) of
     (Trap, Outside) \<Rightarrow> Some (trap_step i s)
   | (Go, Spin) \<Rightarrow> Some (spin_lock_step i s)
   | (Go, Service ph) \<Rightarrow> Some (service_step i ph s)
   | (Go, StoreOwner) \<Rightarrow> Some (store_owner_step i s)
   | (Kernel k, Inside) \<Rightarrow> kernel_step i k s
   | (Go, Request ph core op target) \<Rightarrow> Some (request_step i ph core op target s)
   | (Go, ClearOwner) \<Rightarrow> Some (clear_owner_step i s)
   | (Go, Unlock) \<Rightarrow> Some (unlock_step i s)
   | _ \<Rightarrow> None)"

definition smp_initial :: "smp \<Rightarrow> bool" where
  "smp_initial s \<longleftrightarrow> sm_nodes s \<le> MAX_BOOT_CPUS \<and> \<not> sm_locked s \<and> sm_owner s = NO_KERNEL_LOCK_OWNER \<and>
     sm_pending s = 0 \<and> sm_done s = 0 \<and> sm_target s = 0 \<and> sm_op s = REMOTE_OP_STALL_TCB \<and> (\<forall>i. phase_of s i = Outside)"

inductive smp_reach :: "smp \<Rightarrow> bool" where
  start: "smp_initial s \<Longrightarrow> smp_reach s"
| step: "\<lbrakk>smp_reach s; i < sm_nodes s; sm_online s i; smp_step i m s = Some s'\<rbrakk> \<Longrightarrow> smp_reach s'"

fun smp_run :: "(nat \<times> move) list \<Rightarrow> smp \<Rightarrow> smp option" where
  "smp_run [] s = Some s"
| "smp_run ((i, m) # ms) s =
     (if i < sm_nodes s \<and> sm_online s i then Option.bind (smp_step i m s) (smp_run ms) else None)"

lemma smp_run_reach: "\<lbrakk>smp_reach s; smp_run ms s = Some s'\<rbrakk> \<Longrightarrow> smp_reach s'"
proof (induction ms arbitrary: s)
  case (Cons a ms)
  then show ?case
    by (cases a) (auto simp: split: if_splits option.splits bind_splits intro: smp_reach.step)
qed simp

section \<open>Frame of the steps\<close>

lemma upd_core_sel [simp]:
  "sm_nodes (upd_core i f s) = sm_nodes s" "sm_online (upd_core i f s) = sm_online s"
  "sm_idle (upd_core i f s) = sm_idle s" "sm_locked (upd_core i f s) = sm_locked s"
  "sm_owner (upd_core i f s) = sm_owner s" "sm_pending (upd_core i f s) = sm_pending s"
  "sm_done (upd_core i f s) = sm_done s" "sm_target (upd_core i f s) = sm_target s"
  "sm_op (upd_core i f s) = sm_op s"
  "sm_cores (upd_core i f s) j = (if j = i then f (sm_cores s i) else sm_cores s j)"
  by (simp_all add: upd_core_def)

lemma phase_of_upd [simp]:
  "phase_of (upd_core i f s) j = (if j = i then cr_phase (f (sm_cores s i)) else phase_of s j)"
  "phase_of (s\<lparr> sm_locked := b \<rparr>) j = phase_of s j" "phase_of (s\<lparr> sm_owner := w \<rparr>) j = phase_of s j"
  "phase_of (s\<lparr> sm_pending := w \<rparr>) j = phase_of s j" "phase_of (s\<lparr> sm_done := w \<rparr>) j = phase_of s j"
  "phase_of (s\<lparr> sm_target := w \<rparr>) j = phase_of s j" "phase_of (s\<lparr> sm_op := w \<rparr>) j = phase_of s j"
  by (simp_all add: phase_of_def)

lemma goto_sel [simp]:
  "sm_nodes (goto i ph s) = sm_nodes s" "sm_online (goto i ph s) = sm_online s"
  "sm_idle (goto i ph s) = sm_idle s" "sm_locked (goto i ph s) = sm_locked s"
  "sm_owner (goto i ph s) = sm_owner s" "sm_pending (goto i ph s) = sm_pending s"
  "sm_done (goto i ph s) = sm_done s" "sm_target (goto i ph s) = sm_target s"
  "sm_op (goto i ph s) = sm_op s"
  "phase_of (goto i ph s) j = (if j = i then ph else phase_of s j)"
  "cr_current (sm_cores (goto i ph s) j) = cr_current (sm_cores s j)"
  "cr_fpu_owner (sm_cores (goto i ph s) j) = cr_fpu_owner (sm_cores s j)"
  "cr_ipi (sm_cores (goto i ph s) j) = cr_ipi (sm_cores s j)"
  by (simp_all add: goto_def)

lemma perform_sel [simp]:
  "sm_nodes (snd (perform_remote_op i t op s)) = sm_nodes s" "sm_online (snd (perform_remote_op i t op s)) = sm_online s"
  "sm_idle (snd (perform_remote_op i t op s)) = sm_idle s" "sm_locked (snd (perform_remote_op i t op s)) = sm_locked s"
  "sm_owner (snd (perform_remote_op i t op s)) = sm_owner s" "sm_pending (snd (perform_remote_op i t op s)) = sm_pending s"
  "sm_done (snd (perform_remote_op i t op s)) = sm_done s" "sm_target (snd (perform_remote_op i t op s)) = sm_target s"
  "sm_op (snd (perform_remote_op i t op s)) = sm_op s" "phase_of (snd (perform_remote_op i t op s)) j = phase_of s j"
  "cr_ipi (sm_cores (snd (perform_remote_op i t op s)) j) = cr_ipi (sm_cores s j)"
  "j \<noteq> i \<Longrightarrow> sm_cores (snd (perform_remote_op i t op s)) j = sm_cores s j"
  by (auto simp: perform_remote_op_def phase_of_def)

text \<open>
  What a core with the lock may do: it touches no shared variable and no other core, and goes on,
  leaves, or begins a request to another core that is online, about a thread that is not an idle one.
\<close>

definition request_ok :: "smp \<Rightarrow> nat \<Rightarrow> nat \<Rightarrow> u64 \<Rightarrow> u64 \<Rightarrow> bool" where
  "request_ok s i core op target \<longleftrightarrow> remote_online i core s \<and> target \<noteq> 0 \<and>
     (op = REMOTE_OP_STALL_TCB \<and> \<not> smp_idle_thread s target \<or> op = REMOTE_OP_RELEASE_FPU_OWNER)"

definition shared_vars :: "smp \<Rightarrow> (nat \<times> (nat \<Rightarrow> bool) \<times> (nat \<Rightarrow> u64)) \<times> bool \<times> u64 \<times> u64 \<times> u64 \<times> u64 \<times> u64" where
  "shared_vars s = ((sm_nodes s, sm_online s, sm_idle s), sm_locked s, sm_owner s, sm_pending s, sm_done s, sm_target s, sm_op s)"

lemma remote_core_op_cases:
  assumes "phase_of s i = Inside"
    and "op = REMOTE_OP_STALL_TCB \<and> \<not> smp_idle_thread s t \<or> op = REMOTE_OP_RELEASE_FPU_OWNER" "t \<noteq> 0"
  shows "remote_core_op i c op t s = s \<or>
    remote_core_op i c op t s = goto i (Request PutTarget c op t) s \<and> request_ok s i c op t"
  using assms by (auto simp: remote_core_op_def request_ok_def core_bit_def remote_online_def)

lemma kernel_step_cases:
  assumes "kernel_step i k s = Some s'" "phase_of s i = Inside"
  obtains "shared_vars s' = shared_vars s" "\<forall>j. j \<noteq> i \<longrightarrow> sm_cores s' j = sm_cores s j"
      "phase_of s' i = Inside \<or> phase_of s' i = ClearOwner"
    | c op t where "s' = goto i (Request PutTarget c op t) s" "request_ok s i c op t"
proof (cases k)
  case (Stall t)
  then have t: "t \<noteq> 0" "s' = smp_tcb_stall i t s"
    using assms(1) by (auto split: if_splits)
  show thesis
  proof (cases "smp_tcb_stall i t s = s")
    case True
    then show thesis using assms(2) t that(1) by simp
  next
    case False
    then obtain c where "smp_tcb_stall i t s = remote_core_op i c REMOTE_OP_STALL_TCB t s" "\<not> smp_idle_thread s t"
      by (auto simp: smp_tcb_stall_def split: if_splits option.splits)
    with remote_core_op_cases [OF assms(2), of REMOTE_OP_STALL_TCB t c] t False that(2) show thesis
      by auto
  qed
next
  case (ReleaseFpu t)
  then have t: "t \<noteq> 0" "s' = smp_fpu_release i t s"
    using assms(1) by (auto split: if_splits)
  have "smp_fpu_release i t s = s \<or> smp_fpu_release i t s = upd_core i (\<lambda>c. c\<lparr> cr_fpu_owner := 0 \<rparr>) s \<or>
    (\<exists>c. smp_fpu_release i t s = remote_core_op i c REMOTE_OP_RELEASE_FPU_OWNER t s)"
  proof (cases "smp_owner_core t s")
    case (Some c)
    then show ?thesis
      by (cases "c = i"; cases "sm_nodes s \<le> c") (auto simp: smp_fpu_release_def remote_fpu_owner_release_def)
  qed (simp add: smp_fpu_release_def)
  then consider "smp_fpu_release i t s = s" | "smp_fpu_release i t s = upd_core i (\<lambda>c. c\<lparr> cr_fpu_owner := 0 \<rparr>) s"
    | c where "smp_fpu_release i t s = remote_core_op i c REMOTE_OP_RELEASE_FPU_OWNER t s"
    by blast
  then show thesis
  proof cases
    case 1
    then show thesis using assms(2) t that(1) by simp
  next
    case 2
    then show thesis using assms(2) t that(1) by (simp add: shared_vars_def phase_of_def)
  next
    case 3
    with remote_core_op_cases [OF assms(2), of REMOTE_OP_RELEASE_FPU_OWNER t c] t that assms(2) show thesis
      by auto
  qed
next
  case (SetCurrent t)
  then have "s' = upd_core i (\<lambda>c. c\<lparr> cr_current := t \<rparr>) s" using assms(1) by (auto split: if_splits)
  then show thesis using assms(2) by (intro that(1)) (simp_all add: shared_vars_def phase_of_def)
next
  case (LoadFpu t)
  then have "s' = upd_core i (\<lambda>c. c\<lparr> cr_fpu_owner := t \<rparr>) s" using assms(1) by (auto split: if_splits)
  then show thesis using assms(2) by (intro that(1)) (simp_all add: shared_vars_def phase_of_def)
next
  case AckIpi
  then have "s' = upd_core i (\<lambda>c. c\<lparr> cr_ipi := False \<rparr>) s" using assms(1) by simp
  then show thesis using assms(2) by (intro that(1)) (simp_all add: shared_vars_def phase_of_def)
next
  case (Leave ctx)
  then have "s' = goto i ClearOwner (upd_core i (\<lambda>c. c\<lparr> cr_user_context := ctx \<rparr>) s)"
    using assms(1) by (auto split: if_splits)
  then show thesis by (intro that(1)) (simp_all add: shared_vars_def goto_def)
qed

text \<open>The steps of the system, one case for each kind of step.\<close>

lemma smp_step_cases:
  assumes "smp_step i m s = Some s'"
  obtains "phase_of s i = Outside" "s' = trap_step i s"
    | "phase_of s i = Spin" "s' = spin_lock_step i s"
    | ph where "phase_of s i = Service ph" "s' = service_step i ph s"
    | "phase_of s i = StoreOwner" "s' = store_owner_step i s"
    | k where "phase_of s i = Inside" "kernel_step i k s = Some s'"
    | ph c op t where "phase_of s i = Request ph c op t" "s' = request_step i ph c op t s"
    | "phase_of s i = ClearOwner" "s' = clear_owner_step i s"
    | "phase_of s i = Unlock" "s' = unlock_step i s"
  using assms by (auto simp: smp_step_def split: move.splits phase.splits)

section \<open>Mutual exclusion\<close>

text \<open>
  \<open>holds\<close> are the phases between taking and releasing the lock, \<open>owns\<close> those in which the owner
  variable names the core.
\<close>

fun holds :: "phase \<Rightarrow> bool" where
  "holds Outside = False"
| "holds Spin = False"
| "holds (Service _) = False"
| "holds _ = True"

fun owns :: "phase \<Rightarrow> bool" where
  "owns Inside = True"
| "owns (Request _ _ _ _) = True"
| "owns ClearOwner = True"
| "owns _ = False"

lemma owns_holds: "owns ph \<Longrightarrow> holds ph"
  by (cases ph) simp_all

definition lock_ok :: "smp \<Rightarrow> bool" where
  "lock_ok s \<longleftrightarrow> sm_nodes s \<le> 8 \<and> (\<forall>i. phase_of s i \<noteq> Outside \<longrightarrow> i < sm_nodes s) \<and>
     (\<forall>i j. holds (phase_of s i) \<and> holds (phase_of s j) \<longrightarrow> i = j) \<and> (\<forall>i. holds (phase_of s i) \<longrightarrow> sm_locked s) \<and>
     (\<forall>i. owns (phase_of s i) \<longrightarrow> sm_owner s = of_nat i) \<and>
     (sm_owner s = NO_KERNEL_LOCK_OWNER \<or> (\<exists>i. owns (phase_of s i)))"

lemma lock_okD:
  assumes "lock_ok s"
  shows "sm_nodes s \<le> 8" "phase_of s i \<noteq> Outside \<Longrightarrow> i < sm_nodes s"
    "holds (phase_of s i) \<Longrightarrow> holds (phase_of s j) \<Longrightarrow> i = j" "holds (phase_of s i) \<Longrightarrow> sm_locked s"
    "owns (phase_of s i) \<Longrightarrow> sm_owner s = of_nat i" "sm_owner s \<noteq> NO_KERNEL_LOCK_OWNER \<Longrightarrow> \<exists>i. owns (phase_of s i)"
  using assms by (auto simp: lock_ok_def)

text \<open>A step that keeps whether the core holds and owns the lock, and the lock's variables, keeps \<open>lock_ok\<close>.\<close>

lemma lock_ok_same:
  assumes "lock_ok s" "i < sm_nodes s" "sm_nodes s' = sm_nodes s" "sm_locked s' = sm_locked s" "sm_owner s' = sm_owner s"
    and "\<And>j. j \<noteq> i \<Longrightarrow> phase_of s' j = phase_of s j" "holds (phase_of s' i) = holds (phase_of s i)"
    "owns (phase_of s' i) = owns (phase_of s i)"
  shows "lock_ok s'"
proof -
  have h: "holds (phase_of s' j) = holds (phase_of s j)" "owns (phase_of s' j) = owns (phase_of s j)" for j
    using assms(6-8) by (cases "j = i"; simp)+
  have o: "phase_of s' j \<noteq> Outside \<Longrightarrow> j < sm_nodes s" for j
    using assms(2,6) lock_okD(2) [OF assms(1)] by (cases "j = i") auto
  show ?thesis
    unfolding lock_ok_def h assms(3-5) using o assms(1) by (simp add: lock_ok_def)
qed

lemma service_step_phase: "\<exists>ph'. phase_of (service_step i ph s) i = Spin \<or> phase_of (service_step i ph s) i = Service ph'"
  by (cases ph) (auto simp: split: option.splits prod.splits)

lemma perform_split: "(case perform_remote_op i t op s of (b, s') \<Rightarrow> f b s') = f (fst (perform_remote_op i t op s)) (snd (perform_remote_op i t op s))"
  by (simp add: prod.case_eq_if)

lemma service_step_frame [simp]:
  "sm_nodes (service_step i ph s) = sm_nodes s" "sm_online (service_step i ph s) = sm_online s"
  "sm_idle (service_step i ph s) = sm_idle s" "sm_locked (service_step i ph s) = sm_locked s"
  "sm_owner (service_step i ph s) = sm_owner s" "sm_pending (service_step i ph s) = sm_pending s"
  "sm_target (service_step i ph s) = sm_target s" "sm_op (service_step i ph s) = sm_op s"
  "cr_ipi (sm_cores (service_step i ph s) j) = cr_ipi (sm_cores s j)"
  "j \<noteq> i \<Longrightarrow> phase_of (service_step i ph s) j = phase_of s j"
  "j \<noteq> i \<Longrightarrow> sm_cores (service_step i ph s) j = sm_cores s j"
  by (cases ph; simp add: perform_split goto_def split: option.split)+

lemma request_step_frame [simp]:
  "sm_nodes (request_step i ph c op t s) = sm_nodes s" "sm_online (request_step i ph c op t s) = sm_online s"
  "sm_idle (request_step i ph c op t s) = sm_idle s" "sm_locked (request_step i ph c op t s) = sm_locked s"
  "sm_owner (request_step i ph c op t s) = sm_owner s"
  "cr_current (sm_cores (request_step i ph c op t s) j) = cr_current (sm_cores s j)"
  "cr_fpu_owner (sm_cores (request_step i ph c op t s) j) = cr_fpu_owner (sm_cores s j)"
  "j \<noteq> i \<Longrightarrow> phase_of (request_step i ph c op t s) j = phase_of s j"
  by (cases ph; simp add: smp_wake_core_def goto_def phase_of_def)+

lemma request_step_phase:
  "phase_of s i = Request ph c op t \<Longrightarrow> \<exists>ph'. phase_of (request_step i ph c op t s) i = Inside \<or>
     phase_of (request_step i ph c op t s) i = Request ph' c op t"
  by (cases ph) (auto simp: smp_wake_core_def)

lemma lock_ok_step:
  assumes "lock_ok s" "i < sm_nodes s" "smp_step i m s = Some s'"
  shows "lock_ok s'"
  using assms(3)
proof (cases rule: smp_step_cases)
  case 1
  then show ?thesis
    by (intro lock_ok_same [OF assms(1,2)]) (simp_all add: trap_step_def)
next
  case 2
  show ?thesis
  proof (cases "sm_locked s")
    case True
    then show ?thesis using 2
      by (intro lock_ok_same [OF assms(1,2)]) (simp_all add: spin_lock_step_def)
  next
    case False
    then have none: "\<not> holds (phase_of s j)" "\<not> owns (phase_of s j)" for j
      using lock_okD(4) [OF assms(1)] owns_holds by blast+
    have "sm_owner s = NO_KERNEL_LOCK_OWNER" using lock_okD(6) [OF assms(1)] none(2) by blast
    with 2 False none lock_okD(1,2) [OF assms(1)] assms(2) show ?thesis
      by (auto simp: lock_ok_def spin_lock_step_def)
  qed
next
  case (3 ph)
  with service_step_phase [of i ph s] show ?thesis
    by (intro lock_ok_same [OF assms(1,2)]) auto
next
  case 4
  then have "\<not> holds (phase_of s j)" "\<not> owns (phase_of s j)" if "j \<noteq> i" for j
    using that lock_okD(3) [OF assms(1), of i j] owns_holds by auto
  moreover have "sm_locked s" using lock_okD(4) [OF assms(1), of i] 4(1) by simp
  ultimately show ?thesis using 4 lock_okD(1,2) [OF assms(1)] assms(2)
    by (auto simp: lock_ok_def store_owner_step_def)
next
  case (5 k)
  from 5(2,1) show ?thesis
  proof (cases rule: kernel_step_cases)
    case 1
    then show ?thesis using 5(1)
      by (intro lock_ok_same [OF assms(1,2)]) (auto simp: shared_vars_def phase_of_def)
  next
    case (2 c op t)
    then show ?thesis using 5(1)
      by (intro lock_ok_same [OF assms(1,2)]) simp_all
  qed
next
  case (6 ph c op t)
  with request_step_phase [OF 6(1)] show ?thesis
    by (intro lock_ok_same [OF assms(1,2)]) auto
next
  case 7
  then have "\<not> holds (phase_of s j)" "\<not> owns (phase_of s j)" if "j \<noteq> i" for j
    using that lock_okD(3) [OF assms(1), of i j] owns_holds by auto
  moreover have "sm_locked s" using lock_okD(4) [OF assms(1), of i] 7(1) by simp
  ultimately show ?thesis using 7 lock_okD(1,2) [OF assms(1)] assms(2)
    by (auto simp: lock_ok_def clear_owner_step_def)
next
  case 8
  then have none: "\<not> holds (phase_of s j)" "\<not> owns (phase_of s j)" if "j \<noteq> i" for j
    using that lock_okD(3) [OF assms(1), of i j] owns_holds by auto
  have "\<not> owns (phase_of s j)" for j using none(2) 8(1) by (cases "j = i") simp_all
  then have "sm_owner s = NO_KERNEL_LOCK_OWNER" using lock_okD(6) [OF assms(1)] by blast
  with 8 none lock_okD(1,2) [OF assms(1)] show ?thesis
    by (auto simp: lock_ok_def unlock_step_def)
qed

lemma smp_reach_lock_ok: "smp_reach s \<Longrightarrow> lock_ok s"
proof (induction rule: smp_reach.induct)
  case (start s)
  then show ?case by (simp add: smp_initial_def lock_ok_def MAX_BOOT_CPUS_def)
next
  case (step s i m s')
  then show ?case using lock_ok_step by blast
qed

section \<open>Requests\<close>

lemma and_core_bit: "(w :: u64) AND 2 ^ c = 0 \<longleftrightarrow> \<not> bit w c"
  by (rule and_exp_eq_0_iff_not_bit)

lemma bit_core_bit: "bit (2 ^ c :: u64) j \<longleftrightarrow> j = c \<and> c < 64"
  by (auto simp: bit_exp_iff possible_bit_def)

lemma request_ok_cong:
  "\<lbrakk>sm_nodes s' = sm_nodes s; sm_online s' = sm_online s; sm_idle s' = sm_idle s\<rbrakk> \<Longrightarrow> request_ok s' i c op t = request_ok s i c op t"
  by (simp add: request_ok_def remote_online_def smp_idle_thread_def)

text \<open>
  What holds of the requests: they are sound, the variables say what the requester has stored so far,
  and a core that is waited for outside the kernel has an interrupt pending. Without a request
  nothing is pending.
\<close>

definition request_stored :: "smp \<Rightarrow> request_phase \<Rightarrow> nat \<Rightarrow> u64 \<Rightarrow> u64 \<Rightarrow> bool" where
  "request_stored s ph c op t \<longleftrightarrow> (ph \<notin> {PutTarget, ClearOp} \<longrightarrow> sm_target s = t) \<and> (ph \<notin> {PutTarget, PutOp} \<longrightarrow> sm_op s = op) \<and>
     sm_pending s = (if ph \<in> {SendIpi, Await, ClearPending} then push_bit c 1 else 0)"

definition requests_ok :: "smp \<Rightarrow> bool" where
  "requests_ok s \<longleftrightarrow>
     (\<forall>i ph c op t. phase_of s i = Request ph c op t \<longrightarrow> request_ok s i c op t \<and> request_stored s ph c op t \<and>
        (ph = Await \<and> phase_of s c = Outside \<longrightarrow> cr_ipi (sm_cores s c))) \<and>
     (sm_pending s \<noteq> 0 \<longrightarrow> (\<exists>i ph c op t. phase_of s i = Request ph c op t))"

lemma requests_okD:
  assumes "requests_ok s" "phase_of s i = Request ph c op t"
  shows "request_ok s i c op t" "request_stored s ph c op t" "ph = Await \<Longrightarrow> phase_of s c = Outside \<Longrightarrow> cr_ipi (sm_cores s c)"
  using assms unfolding requests_ok_def by blast+

lemma request_ok_remote: "request_ok s i c op t \<Longrightarrow> c < sm_nodes s \<and> c < 8 \<and> c \<noteq> i \<and> sm_online s c"
  by (simp add: request_ok_def remote_online_def MAX_BOOT_CPUS_def)

lemma sole_request:
  "\<lbrakk>lock_ok s; holds (phase_of s i); phase_of s j = Request ph c op t\<rbrakk> \<Longrightarrow> j = i"
  using lock_okD(3) [of s i j] by simp

text \<open>The step of a core without the lock, and of a core with it that makes no request.\<close>

lemma requests_ok_unlocked:
  assumes "requests_ok s" "shared_vars s' = (fst (shared_vars s), l, w, sm_pending s, d, sm_target s, sm_op s)"
    and "\<And>j ph c op t. phase_of s' j = Request ph c op t \<longleftrightarrow> phase_of s j = Request ph c op t"
    and "\<And>j. phase_of s' j = Outside \<Longrightarrow> phase_of s j = Outside" "\<And>j. cr_ipi (sm_cores s' j) = cr_ipi (sm_cores s j)"
  shows "requests_ok s'"
proof -
  have v: "sm_nodes s' = sm_nodes s" "sm_online s' = sm_online s" "sm_idle s' = sm_idle s" "sm_pending s' = sm_pending s"
    "sm_target s' = sm_target s" "sm_op s' = sm_op s"
    using assms(2) by (simp_all add: shared_vars_def)
  have stored: "request_stored s' = request_stored s"
    by (intro ext) (simp add: request_stored_def v)
  show ?thesis
    using assms(1,4,5) unfolding requests_ok_def assms(3) request_ok_cong [OF v(1-3)] stored v by blast
qed

lemma requests_ok_none:
  assumes "lock_ok s" "requests_ok s" "holds (phase_of s i)" "\<And>ph c op t. phase_of s i \<noteq> Request ph c op t"
  shows "phase_of s j \<noteq> Request ph c op t" "sm_pending s = 0"
proof -
  show none: "phase_of s j \<noteq> Request ph c op t" for j ph c op t
    using sole_request [OF assms(1,3)] assms(4) by metis
  then show "sm_pending s = 0" using assms(2) unfolding requests_ok_def by metis
qed

lemma requests_ok_idle:
  assumes "sm_pending s' = 0" "\<And>j ph c op t. phase_of s' j \<noteq> Request ph c op t"
  shows "requests_ok s'"
  using assms unfolding requests_ok_def by simp

lemma request_step_stored:
  "request_stored s ph c op t \<Longrightarrow> phase_of (request_step i ph c op t s) i = Request ph' c op t \<Longrightarrow> phase_of s i = Request ph c op t \<Longrightarrow>
     request_stored (request_step i ph c op t s) ph' c op t"
  by (cases ph) (auto simp: request_stored_def smp_wake_core_def split: if_splits)

lemma requests_ok_request:
  assumes "lock_ok s" "requests_ok s" "phase_of s i = Request ph c op t"
  shows "requests_ok (request_step i ph c op t s)"
proof -
  let ?s = "request_step i ph c op t s"
  note r = requests_okD [OF assms(2,3)]
  have c: "c \<noteq> i" using request_ok_remote [OF r(1)] by simp
  have none: "phase_of ?s j \<noteq> Request ph' c' op' t'" if "j \<noteq> i" for j ph' c' op' t'
    using that sole_request [OF assms(1), of i j] assms(3) by auto
  have ipi: "cr_ipi (sm_cores ?s c)" if "phase_of ?s i = Request Await c op t" "phase_of ?s c = Outside"
    using that assms(3) c r(3) request_ok_remote [OF r(1)] by (cases ph)
      (auto simp: smp_wake_core_def remote_online_def MAX_BOOT_CPUS_def goto_def split: if_splits)
  from request_step_phase [OF assms(3)] consider "phase_of ?s i = Inside" | ph' where "phase_of ?s i = Request ph' c op t"
    by blast
  then show ?thesis
  proof cases
    case 1
    then have "ph = ClearOp" using assms(3) by (cases ph) (auto split: if_splits)
    then have "sm_pending ?s = 0" using r(2) by (simp add: request_stored_def)
    moreover have "phase_of ?s j \<noteq> Request ph' c' op' t'" for j ph' c' op' t'
      using none 1 by (cases "j = i") auto
    ultimately show ?thesis by (rule requests_ok_idle)
  next
    case (2 ph')
    have "request_ok ?s i c op t" using r(1) by (simp add: request_ok_def remote_online_def smp_idle_thread_def)
    with 2 ipi request_step_stored [OF r(2) 2 assms(3)] none show ?thesis
      unfolding requests_ok_def by (metis phase.inject(2))
  qed
qed

lemma requests_ok_step:
  assumes "lock_ok s" "requests_ok s" "smp_step i m s = Some s'"
  shows "requests_ok s'"
  using assms(3)
proof (cases rule: smp_step_cases)
  case 1
  then show ?thesis
    by (intro requests_ok_unlocked [OF assms(2)]) (auto simp: trap_step_def shared_vars_def split: if_splits)
next
  case 2
  then show ?thesis
    by (intro requests_ok_unlocked [OF assms(2)]) (auto simp: spin_lock_step_def shared_vars_def split: if_splits)
next
  case (3 ph)
  have new: "phase_of s' j = phase_of s j \<or> phase_of s' j = Spin \<or> (\<exists>ph'. phase_of s' j = Service ph')"
    "j = i \<Longrightarrow> phase_of s' j = Spin \<or> (\<exists>ph'. phase_of s' j = Service ph')" for j
    using service_step_phase [of i ph s] 3(2) by (cases "j = i"; auto)+
  show ?thesis
  proof (rule requests_ok_unlocked [OF assms(2)])
    show "phase_of s' j = Request rp c op t \<longleftrightarrow> phase_of s j = Request rp c op t" for j rp c op t
      using new(2) [of j] 3 by (cases "j = i") auto
    show "phase_of s j = Outside" if "phase_of s' j = Outside" for j
      using new(1) [of j] that by auto
  qed (simp_all add: 3(2) shared_vars_def)
next
  case 4
  with requests_ok_none [OF assms(1,2), of i] show ?thesis
    by (intro requests_ok_idle) (auto simp: store_owner_step_def)
next
  case (5 k)
  note none = requests_ok_none [OF assms(1,2), of i, unfolded 5(1), simplified]
  from 5(2,1) show ?thesis
  proof (cases rule: kernel_step_cases)
    case 1
    have "phase_of s' j \<noteq> Request ph c op t" for j ph c op t
      using 1(2,3) none(1) by (cases "j = i") (auto simp: phase_of_def)
    with 1(1) none(2) show ?thesis by (intro requests_ok_idle) (auto simp: shared_vars_def)
  next
    case (2 c op t)
    have "request_ok s' i c op t" using 2 by (simp add: request_ok_def remote_online_def smp_idle_thread_def)
    with 2 none show ?thesis
      unfolding requests_ok_def by (auto simp: request_stored_def split: if_splits)
  qed
next
  case (6 ph c op t)
  then show ?thesis using requests_ok_request [OF assms(1,2)] by simp
next
  case 7
  with requests_ok_none [OF assms(1,2), of i] show ?thesis
    by (intro requests_ok_idle) (auto simp: clear_owner_step_def)
next
  case 8
  with requests_ok_none [OF assms(1,2), of i] show ?thesis
    by (intro requests_ok_idle) (auto simp: unlock_step_def)
qed

lemma smp_reach_requests_ok: "smp_reach s \<Longrightarrow> requests_ok s"
proof (induction rule: smp_reach.induct)
  case (start s)
  then show ?case by (simp add: smp_initial_def requests_ok_def)
next
  case (step s i m s')
  then show ?case using requests_ok_step smp_reach_lock_ok by blast
qed

section \<open>The handshake with two cores\<close>

text \<open>
  What a request is for; that a core is being asked, from the moment the bits of the answers are
  cleared until the requester has seen the answer; and what a core that answers knows.
\<close>

definition performed :: "smp \<Rightarrow> nat \<Rightarrow> u64 \<Rightarrow> u64 \<Rightarrow> bool" where
  "performed s c op t \<longleftrightarrow> (op = REMOTE_OP_STALL_TCB \<longrightarrow> cr_current (sm_cores s c) \<noteq> t) \<and>
     (op = REMOTE_OP_RELEASE_FPU_OWNER \<longrightarrow> cr_fpu_owner (sm_cores s c) \<noteq> t)"

definition asked :: "smp \<Rightarrow> nat \<Rightarrow> u64 \<Rightarrow> u64 \<Rightarrow> bool" where
  "asked s c op t \<longleftrightarrow> (\<exists>i ph. phase_of s i = Request ph c op t \<and> ph \<in> {PutPending, SendIpi, Await})"

fun served :: "smp \<Rightarrow> nat \<Rightarrow> service_phase \<Rightarrow> bool" where
  "served s c LoadPending \<longleftrightarrow> True"
| "served s c LoadDone \<longleftrightarrow> bit (sm_done s) c \<or> (\<exists>op t. asked s c op t)"
| "served s c LoadTarget \<longleftrightarrow> \<not> bit (sm_done s) c \<and> (\<exists>op t. asked s c op t)"
| "served s c (LoadOp t) \<longleftrightarrow> \<not> bit (sm_done s) c \<and> (\<exists>op. asked s c op t)"
| "served s c (Perform t op) \<longleftrightarrow> \<not> bit (sm_done s) c \<and> asked s c op t"
| "served s c (Complete _) \<longleftrightarrow> \<not> bit (sm_done s) c \<and> (\<exists>op t. asked s c op t \<and> performed s c op t)"

definition answered :: "smp \<Rightarrow> request_phase \<Rightarrow> nat \<Rightarrow> u64 \<Rightarrow> u64 \<Rightarrow> bool" where
  "answered s ph c op t \<longleftrightarrow> (ph = ClearPending \<longrightarrow> bit (sm_done s) c) \<and>
     (ph \<in> {ClearPending, ClearTarget, ClearOp} \<or> ph \<in> {PutPending, SendIpi, Await} \<and> bit (sm_done s) c \<longrightarrow> performed s c op t)"

definition handshake_ok :: "smp \<Rightarrow> bool" where
  "handshake_ok s \<longleftrightarrow> (\<forall>c ph. phase_of s c = Service ph \<longrightarrow> served s c ph) \<and>
     (\<forall>i ph c op t. phase_of s i = Request ph c op t \<longrightarrow> answered s ph c op t)"

lemma handshake_okD:
  assumes "handshake_ok s"
  shows "phase_of s c = Service ph \<Longrightarrow> served s c ph" "phase_of s i = Request rp c op t \<Longrightarrow> answered s rp c op t"
  using assms unfolding handshake_ok_def by blast+

lemma served_cong:
  assumes "asked s' c = asked s c" "sm_done s' = sm_done s" "performed s' c = performed s c"
  shows "served s' c ph = served s c ph"
  by (cases ph) (simp_all add: assms)

lemma performed_cong:
  "\<lbrakk>cr_current (sm_cores s' c) = cr_current (sm_cores s c); cr_fpu_owner (sm_cores s' c) = cr_fpu_owner (sm_cores s c)\<rbrakk>
     \<Longrightarrow> performed s' c op t = performed s c op t"
  by (simp add: performed_def)

text \<open>A step that touches neither requests nor answers, of a core that does not answer then.\<close>

lemma handshake_ok_same:
  assumes "handshake_ok s" "sm_done s' = sm_done s"
    and r: "\<And>j ph c op t. phase_of s' j = Request ph c op t \<longleftrightarrow> phase_of s j = Request ph c op t"
    and p: "\<And>j op t. performed s' j op t = performed s j op t"
    and new: "\<And>j ph. phase_of s' j = Service ph \<Longrightarrow> phase_of s j = Service ph \<or> served s' j ph"
  shows "handshake_ok s'"
proof -
  have a: "asked s' c = asked s c" for c by (intro ext) (simp add: asked_def r)
  have p': "performed s' c = performed s c" for c by (intro ext p)
  have "answered s' ph c op t = answered s ph c op t" for ph c op t by (simp add: answered_def p assms(2))
  moreover have "served s' c ph = served s c ph" for c ph by (rule served_cong) (simp_all add: a p' assms(2))
  ultimately show ?thesis using assms(1) new unfolding handshake_ok_def r by blast
qed

text \<open>The step of a core with the lock that is in no request: nobody is being asked, before and after.\<close>

lemma handshake_ok_quiet:
  assumes "handshake_ok s" "sm_done s' = sm_done s" "\<And>c op t. \<not> asked s c op t"
    and new: "\<And>j ph. phase_of s' j = Service ph \<Longrightarrow> phase_of s j = Service ph"
    and req: "\<And>j ph c op t. phase_of s' j = Request ph c op t \<Longrightarrow> ph = PutTarget"
  shows "handshake_ok s'"
proof -
  have "served s' c ph" if "phase_of s' c = Service ph" for c ph
    using handshake_okD(1) [OF assms(1) new [OF that]] assms(2,3) by (cases ph) auto
  then show ?thesis using req unfolding handshake_ok_def answered_def by fastforce
qed

text \<open>The requester's own step. With two cores the core it asks is the only other one.\<close>

lemma handshake_ok_request:
  assumes "lock_ok s" "requests_ok s" "handshake_ok s" "phase_of s i = Request ph c op t" "sm_nodes s \<le> 2"
  shows "handshake_ok (request_step i ph c op t s)"
proof -
  let ?s = "request_step i ph c op t s"
  have p: "performed ?s = performed s" by (intro ext performed_cong) simp_all
  have c: "c < 2" "c \<noteq> i" using request_ok_remote [OF requests_okD(1) [OF assms(2,4)]] assms(5) by auto
  have i: "i < 2" using lock_okD(2) [OF assms(1), of i] assms(4,5) by auto
  have only: "j = i" if "phase_of s j = Request rp c' op' t'" for j rp c' op' t'
    using sole_request [OF assms(1) _ that] assms(4) by simp
  have asked: "asked s = (\<lambda>c' op' t'. c' = c \<and> op' = op \<and> t' = t \<and> ph \<in> {PutPending, SendIpi, Await})"
    using only assms(4) unfolding asked_def by (intro ext) fastforce
  have asked': "asked ?s = (\<lambda>c' op' t'. \<exists>rp. phase_of ?s i = Request rp c' op' t' \<and> rp \<in> {PutPending, SendIpi, Await})"
    using only unfolding asked_def by (intro ext) (metis request_step_frame(8))
  have a: "answered s ph c op t" by (rule handshake_okD(2) [OF assms(3,4)])
  have serv: "served ?s j sp" if "phase_of ?s j = Service sp" for j sp
  proof -
    have j: "j \<noteq> i" using that request_step_phase [OF assms(4)] by auto
    with that have sp: "phase_of s j = Service sp" by simp
    then have "j < 2" using lock_okD(2) [OF assms(1), of j] assms(5) by auto
    with j i c have "j = c" by linarith
    with handshake_okD(1) [OF assms(3) sp] a asked asked' p show ?thesis
      by (cases ph; cases sp) (auto simp: answered_def and_core_bit smp_wake_core_def assms(4) split: if_splits)
  qed
  have "answered ?s rp c' op' t'" if "phase_of ?s j = Request rp c' op' t'" for j rp c' op' t'
  proof -
    have "j = i" using that only by (cases "j = i") auto
    with that a p assms(4) show ?thesis
      by (cases ph) (auto simp: answered_def and_core_bit smp_wake_core_def split: if_splits)
  qed
  with serv show ?thesis unfolding handshake_ok_def by blast
qed

text \<open>The step of a core that answers.\<close>

lemma perform_performed:
  assumes "request_ok s i c op t"
  shows "performed (snd (perform_remote_op c t op s)) c op t"
proof -
  have "sm_idle s c \<noteq> t" if "op = REMOTE_OP_STALL_TCB"
    using assms that request_ok_remote [OF assms]
    by (auto simp: request_ok_def smp_idle_thread_def list_ex_iff REMOTE_OP_STALL_TCB_def REMOTE_OP_RELEASE_FPU_OWNER_def)
  with assms show ?thesis
    by (auto simp: request_ok_def performed_def perform_remote_op_def REMOTE_OP_STALL_TCB_def REMOTE_OP_RELEASE_FPU_OWNER_def
        REMOTE_OP_FLUSH_VMA_ALL_def REMOTE_OP_FLUSH_VMA_ASID_def)
qed

lemma pending_asked:
  assumes "lock_ok s" "requests_ok s" "handshake_ok s" "bit (sm_pending s) c"
  shows "served s c LoadDone"
proof -
  have "sm_pending s \<noteq> 0" using assms(4) by auto
  then obtain i ph c' op t where r: "phase_of s i = Request ph c' op t"
    using assms(2) unfolding requests_ok_def by blast
  with requests_okD(2) [OF assms(2) r] assms(4) have "c' = c" "ph \<in> {SendIpi, Await, ClearPending}"
    by (auto simp: request_stored_def bit_core_bit split: if_splits)
  moreover have "bit (sm_done s) c" if "ph = ClearPending" "c' = c"
    using handshake_okD(2) [OF assms(3) r] that by (simp add: answered_def)
  moreover have "asked s c op t" if "ph \<in> {SendIpi, Await}" "c' = c"
    using r that unfolding asked_def by blast
  ultimately show ?thesis by auto
qed

lemma asked_unique:
  "\<lbrakk>lock_ok s; asked s c op t; phase_of s i = Request ph c' op' t'\<rbrakk> \<Longrightarrow>
     c' = c \<and> op' = op \<and> t' = t \<and> ph \<in> {PutPending, SendIpi, Await}"
  unfolding asked_def using sole_request [of s i] by (metis holds.simps(6) phase.inject(2))

lemma served_busy:
  assumes "served s c ph" "ph \<noteq> LoadPending" "ph \<noteq> LoadDone"
  shows "\<not> bit (sm_done s) c" "\<exists>op t. asked s c op t"
  using assms by (cases ph; auto)+

lemma service_step_asked: "phase_of s c = Service ph \<Longrightarrow> asked (service_step c ph s) = asked s"
proof (intro ext)
  fix c' op t
  assume "phase_of s c = Service ph"
  then have "phase_of (service_step c ph s) j = Request rp c' op t \<longleftrightarrow> phase_of s j = Request rp c' op t" for j rp
    using service_step_phase [of c ph s] by (cases "j = c") auto
  then show "asked (service_step c ph s) c' op t = asked s c' op t" by (simp add: asked_def)
qed

lemma service_step_done:
  "c < 64 \<Longrightarrow> bit (sm_done (service_step c ph s)) j \<longleftrightarrow> bit (sm_done s) j \<or> j = c \<and> (\<exists>b. ph = Complete b)"
  by (cases ph) (auto simp: core_bit_def perform_split bit_or_iff bit_core_bit)

lemma service_step_performed:
  "\<lbrakk>\<And>t op. ph \<noteq> Perform t op\<rbrakk> \<Longrightarrow> performed (service_step c ph s) = performed s"
  by (intro ext performed_cong; cases ph) (auto simp: goto_def split: option.splits)

lemma service_step_served:
  assumes "lock_ok s" "requests_ok s" "handshake_ok s" "phase_of s c = Service ph" "phase_of (service_step c ph s) c = Service ph'"
  shows "served (service_step c ph s) c ph'"
proof -
  have c: "c < 64" using lock_okD(1) [OF assms(1)] lock_okD(2) [OF assms(1), of c] assms(4) by auto
  note a = service_step_asked [OF assms(4)] and s = handshake_okD(1) [OF assms(3,4)]
  show ?thesis
  proof (cases ph)
    case LoadPending
    then have "bit (sm_pending s) c" "ph' = LoadDone" using assms(5) c by (auto simp: core_bit_def and_core_bit split: if_splits)
    with pending_asked [OF assms(1-3)] a LoadPending c show ?thesis by (simp add: core_bit_def)
  next
    case LoadDone
    then show ?thesis using s a assms(5) c by (auto simp: core_bit_def and_core_bit split: if_splits)
  next
    case LoadTarget
    then obtain op t where "asked s c op t" using s by auto
    moreover from this have "sm_target s = t"
      using requests_okD(2) [OF assms(2)] unfolding asked_def request_stored_def by fastforce
    ultimately show ?thesis using LoadTarget s a assms(5) by auto
  next
    case (LoadOp t)
    then obtain op where "asked s c op t" using s by auto
    moreover from this have "sm_op s = op"
      using requests_okD(2) [OF assms(2)] unfolding asked_def request_stored_def by fastforce
    ultimately show ?thesis using LoadOp s a assms(5) by auto
  next
    case (Perform t op)
    then obtain i rp where "phase_of s i = Request rp c op t" using s by (auto simp: asked_def)
    from perform_performed [OF requests_okD(1) [OF assms(2) this]]
    have "performed (service_step c ph s) c op t" by (simp add: Perform perform_split performed_def)
    moreover have "asked (service_step c ph s) c op t" using s Perform unfolding a by simp
    moreover have "\<not> bit (sm_done (service_step c ph s)) c" using s by (simp add: Perform perform_split)
    moreover have "ph' = Complete (fst (perform_remote_op c t op s))" using assms(5) by (simp add: Perform perform_split)
    ultimately show ?thesis by (simp only: served.simps) blast
  next
    case (Complete b)
    then show ?thesis using assms(5) by (auto split: option.splits)
  qed
qed

lemma handshake_ok_service:
  assumes "lock_ok s" "requests_ok s" "handshake_ok s" "phase_of s c = Service ph"
  shows "handshake_ok (service_step c ph s)"
proof -
  let ?s = "service_step c ph s"
  have c: "c < 64" using lock_okD(1) [OF assms(1)] lock_okD(2) [OF assms(1), of c] assms(4) by auto
  note a = service_step_asked [OF assms(4)] and d = service_step_done [OF c] and s = handshake_okD(1) [OF assms(3,4)]
  have other: "performed ?s j = performed s j" if "j \<noteq> c" for j
    using that by (intro ext performed_cong) simp_all
  have "served ?s j ph'" if "phase_of ?s j = Service ph'" for j ph'
  proof (cases "j = c")
    case True
    then show ?thesis using service_step_served [OF assms] that by simp
  next
    case False
    then have "served s j ph'" using that handshake_okD(1) [OF assms(3)] by simp
    with False show ?thesis by (cases ph') (simp_all add: a d other)
  qed
  moreover have "answered ?s rp c' op t" if r': "phase_of ?s i = Request rp c' op t" for i rp c' op t
  proof -
    have r: "phase_of s i = Request rp c' op t"
      using r' service_step_phase [of c ph s] by (cases "i = c") auto
    note ans = handshake_okD(2) [OF assms(3) r]
    consider "c' \<noteq> c" | "c' = c" "ph = LoadPending \<or> ph = LoadDone" | "c' = c" "ph \<noteq> LoadPending" "ph \<noteq> LoadDone" by blast
    then show ?thesis
    proof cases
      case 1
      then show ?thesis using ans by (simp add: answered_def d other)
    next
      case 2
      then show ?thesis using ans service_step_performed [of ph c s] by (auto simp: answered_def d)
    next
      case 3
      obtain op' t' where as: "asked s c op' t'" using served_busy [OF s 3(2,3)] by blast
      note u = asked_unique [OF assms(1) as r]
      show ?thesis
      proof (cases "\<exists>b. ph = Complete b")
        case True
        then obtain op'' t'' where "asked s c op'' t''" "performed s c op'' t''" using s by auto
        with asked_unique [OF assms(1) _ r] have "performed s c op t" by blast
        with True u 3(1) service_step_performed [of ph c s] show ?thesis by (auto simp: answered_def)
      next
        case False
        with u 3 served_busy(1) [OF s 3(2,3)] show ?thesis by (auto simp: answered_def d)
      qed
    qed
  qed
  ultimately show ?thesis unfolding handshake_ok_def by blast
qed

lemma handshake_ok_step:
  assumes "lock_ok s" "requests_ok s" "handshake_ok s" "sm_nodes s \<le> 2" "smp_step i m s = Some s'"
  shows "handshake_ok s'"
  using assms(5)
proof (cases rule: smp_step_cases)
  case 1
  then show ?thesis
    by (intro handshake_ok_same [OF assms(3)]) (auto simp: trap_step_def performed_def split: if_splits)
next
  case 2
  then show ?thesis
    by (intro handshake_ok_same [OF assms(3)]) (auto simp: spin_lock_step_def performed_def split: if_splits)
next
  case (3 ph)
  then show ?thesis using handshake_ok_service [OF assms(1-3)] by simp
next
  case 4
  with requests_ok_none(1) [OF assms(1,2), of i] show ?thesis
    by (intro handshake_ok_quiet [OF assms(3)]) (auto simp: store_owner_step_def asked_def split: if_splits)
next
  case (5 k)
  note none = requests_ok_none(1) [OF assms(1,2), of i, unfolded 5(1), simplified]
  from 5(2,1) show ?thesis
  proof (cases rule: kernel_step_cases)
    case 1
    have "phase_of s' j = phase_of s j" if "j \<noteq> i" for j using 1(2) that by (simp add: phase_of_def)
    then have same: "phase_of s' j = phase_of s j \<or> phase_of s' j = Inside \<or> phase_of s' j = ClearOwner" for j
      using 1(3) by (cases "j = i") simp_all
    show ?thesis
    proof (rule handshake_ok_quiet [OF assms(3)])
      show "phase_of s j = Service ph" if "phase_of s' j = Service ph" for j ph using same [of j] that by auto
      show "ph = PutTarget" if "phase_of s' j = Request ph c op t" for j ph c op t using same [of j] that none [of j ph c op t] by auto
    qed (use 1(1) none in \<open>auto simp: shared_vars_def asked_def\<close>)
  next
    case (2 c op t)
    with none show ?thesis
      by (intro handshake_ok_quiet [OF assms(3)]) (auto simp: asked_def split: if_splits)
  qed
next
  case (6 ph c op t)
  then show ?thesis using handshake_ok_request [OF assms(1-3) _ assms(4)] by simp
next
  case 7
  with requests_ok_none(1) [OF assms(1,2), of i] show ?thesis
    by (intro handshake_ok_quiet [OF assms(3)]) (auto simp: clear_owner_step_def asked_def split: if_splits)
next
  case 8
  with requests_ok_none(1) [OF assms(1,2), of i] show ?thesis
    by (intro handshake_ok_quiet [OF assms(3)]) (auto simp: unlock_step_def asked_def split: if_splits)
qed

lemma smp_step_nodes: "smp_step i m s = Some s' \<Longrightarrow> sm_nodes s' = sm_nodes s"
  by (erule smp_step_cases)
    (auto simp: trap_step_def spin_lock_step_def store_owner_step_def clear_owner_step_def unlock_step_def shared_vars_def
      elim!: kernel_step_cases)

lemma smp_reach_handshake_ok: "smp_reach s \<Longrightarrow> sm_nodes s \<le> 2 \<Longrightarrow> handshake_ok s"
proof (induction rule: smp_reach.induct)
  case (start s)
  then show ?case by (simp add: smp_initial_def handshake_ok_def)
next
  case (step s i m s')
  then show ?case
    using handshake_ok_step [OF smp_reach_lock_ok smp_reach_requests_ok] smp_step_nodes by metis
qed

section \<open>Properties\<close>

lemma owner_code:
  assumes "i < 8" "j < 8"
  shows "(of_nat i = (of_nat j :: u64)) \<longleftrightarrow> i = j" "of_nat i \<noteq> NO_KERNEL_LOCK_OWNER"
proof -
  have u: "unat (of_nat k :: u64) = k" if "k < 9" for k
    using that by (simp add: unat_of_nat take_bit_eq_mod)
  have "i < 9" "j < 9" "Suc i < 9" using assms by simp_all
  then show "(of_nat i = (of_nat j :: u64)) \<longleftrightarrow> i = j" using u by metis
  show "of_nat i \<noteq> NO_KERNEL_LOCK_OWNER"
  proof
    assume "of_nat i = NO_KERNEL_LOCK_OWNER"
    then have "(of_nat (Suc i) :: u64) = 0" unfolding NO_KERNEL_LOCK_OWNER_def of_nat_Suc by (simp only: add.right_inverse)
    with u [OF \<open>Suc i < 9\<close>] show False by (simp only: unat_0)
  qed
qed

text \<open>
  C11: the big kernel lock excludes: in whatever order the cores take their steps, at most one of
  them is between taking and releasing the lock, and the test that guards every access to kernel
  objects is true exactly for the core that is inside the kernel.
\<close>

theorem kernel_lock_excludes:
  assumes "smp_reach s"
  shows "(\<forall>i j. holds (phase_of s i) \<and> holds (phase_of s j) \<longrightarrow> i = j) \<and>
    (\<forall>i < sm_nodes s. kernel_lock_is_held_by i s \<longleftrightarrow> owns (phase_of s i))"
proof (intro conjI allI impI)
  note ok = smp_reach_lock_ok [OF assms]
  show "i = j" if "holds (phase_of s i) \<and> holds (phase_of s j)" for i j
    using lock_okD(3) [OF ok] that by blast
  show "kernel_lock_is_held_by i s \<longleftrightarrow> owns (phase_of s i)" if "i < sm_nodes s" for i
  proof
    have i: "i < 8" using that lock_okD(1) [OF ok] by simp
    assume held: "kernel_lock_is_held_by i s"
    then have "sm_owner s \<noteq> NO_KERNEL_LOCK_OWNER" using owner_code(2) [OF i i] by (simp add: kernel_lock_is_held_by_def)
    then obtain j where j: "owns (phase_of s j)" using lock_okD(6) [OF ok] by blast
    then have "j < 8" using lock_okD(2) [OF ok, of j] lock_okD(1) [OF ok] by force
    with held lock_okD(5) [OF ok j] have "i = j" using owner_code(1) [OF i, of j] by (simp add: kernel_lock_is_held_by_def)
    with j show "owns (phase_of s i)" by simp
  qed (simp add: kernel_lock_is_held_by_def lock_okD(5) [OF ok])
qed

text \<open>
  C12: on a machine with at most two cores a request to the other core does what it promises: when
  the wait for the answer is over, the other core does not run the thread that was to be stalled,
  or does not hold the floating-point state that was to be released.
\<close>

theorem remote_op_is_performed:
  assumes "smp_reach s" "sm_nodes s \<le> 2" "phase_of s i = Request ph c op t" "ph \<in> {ClearPending, ClearTarget, ClearOp}"
  shows "c \<noteq> i \<and> (op = REMOTE_OP_STALL_TCB \<and> cr_current (sm_cores s c) \<noteq> t \<or>
    op = REMOTE_OP_RELEASE_FPU_OWNER \<and> cr_fpu_owner (sm_cores s c) \<noteq> t)"
proof -
  have r: "request_ok s i c op t" by (rule requests_okD(1) [OF smp_reach_requests_ok [OF assms(1)] assms(3)])
  have "performed s c op t"
    using handshake_okD(2) [OF smp_reach_handshake_ok [OF assms(1,2)] assms(3)] assms(4) by (auto simp: answered_def)
  with r request_ok_remote [OF r] show ?thesis by (auto simp: performed_def request_ok_def)
qed

text \<open>
  The awaited core on its own: it traps if it is outside the kernel, and takes its next step
  otherwise. \<open>answer_distance\<close> bounds the steps to the answer.
\<close>

definition answer_step :: "nat \<Rightarrow> smp \<Rightarrow> smp option" where
  "answer_step c s = smp_step c (if phase_of s c = Outside then Trap else Go) s"

primrec answer_run :: "nat \<Rightarrow> nat \<Rightarrow> smp \<Rightarrow> smp option" where
  "answer_run 0 c s = Some s"
| "answer_run (Suc n) c s = Option.bind (answer_step c s) (answer_run n c)"

fun answer_distance :: "phase \<Rightarrow> nat" where
  "answer_distance Outside = 8"
| "answer_distance Spin = 7"
| "answer_distance (Service LoadPending) = 6"
| "answer_distance (Service LoadDone) = 5"
| "answer_distance (Service LoadTarget) = 4"
| "answer_distance (Service (LoadOp _)) = 3"
| "answer_distance (Service (Perform _ _)) = 2"
| "answer_distance (Service (Complete _)) = 1"
| "answer_distance _ = 0"

definition awaited :: "nat \<Rightarrow> nat \<Rightarrow> u64 \<Rightarrow> u64 \<Rightarrow> smp \<Rightarrow> bool" where
  "awaited i c op t s \<longleftrightarrow> phase_of s i = Request Await c op t \<and> c \<noteq> i \<and> c < 64 \<and> sm_pending s = push_bit c 1 \<and>
     sm_locked s \<and> \<not> holds (phase_of s c)"

lemma answer_step_closer:
  assumes "awaited i c op t s" "\<not> bit (sm_done s) c"
  obtains s' where "answer_step c s = Some s'" "awaited i c op t s'"
    "bit (sm_done s') c \<or> answer_distance (phase_of s' c) < answer_distance (phase_of s c)"
proof (cases "phase_of s c")
  case Outside
  then show thesis using assms
    by (intro that [of "trap_step c s"]) (simp_all add: answer_step_def smp_step_def awaited_def trap_step_def)
next
  case Spin
  then show thesis using assms
    by (intro that [of "spin_lock_step c s"]) (simp_all add: answer_step_def smp_step_def awaited_def spin_lock_step_def)
next
  case (Service ph)
  have "awaited i c op t (service_step c ph s)"
    using assms(1) service_step_phase [of c ph s] by (auto simp: awaited_def)
  moreover have "bit (sm_done (service_step c ph s)) c \<or>
      answer_distance (phase_of (service_step c ph s) c) < answer_distance (phase_of s c)"
    using Service assms by (cases ph) (auto simp: awaited_def core_bit_def and_core_bit bit_core_bit perform_split bit_or_iff)
  ultimately show thesis using Service by (intro that [of "service_step c ph s"]) (simp_all add: answer_step_def smp_step_def)
qed (use assms in \<open>simp_all add: awaited_def\<close>)

lemma answer_run_answers:
  "awaited i c op t s \<Longrightarrow> \<exists>n s'. n \<le> answer_distance (phase_of s c) \<and> answer_run n c s = Some s' \<and> awaited i c op t s' \<and>
     bit (sm_done s') c"
proof (induction "answer_distance (phase_of s c)" arbitrary: s rule: less_induct)
  case less
  show ?case
  proof (cases "bit (sm_done s) c")
    case True
    then show ?thesis using less.prems by (intro exI [of _ 0]) simp
  next
    case False
    obtain s' where s': "answer_step c s = Some s'" "awaited i c op t s'"
      "bit (sm_done s') c \<or> answer_distance (phase_of s' c) < answer_distance (phase_of s c)"
      by (rule answer_step_closer [OF less.prems False])
    have pos: "0 < answer_distance (phase_of s c)"
      using less.prems by (cases "phase_of s c" rule: answer_distance.cases) (simp_all add: awaited_def)
    show ?thesis
    proof (cases "bit (sm_done s') c")
      case True
      then show ?thesis using s' pos by (intro exI [of _ 1] exI [of _ s']) simp
    next
      case False
      with s'(3) have lt: "answer_distance (phase_of s' c) < answer_distance (phase_of s c)" by simp
      from less.hyps [OF lt s'(2)] obtain n s'' where "n \<le> answer_distance (phase_of s' c)" "answer_run n c s' = Some s''"
        "awaited i c op t s''" "bit (sm_done s'') c" by blast
      then show ?thesis using s'(1) lt by (intro exI [of _ "Suc n"] exI [of _ s'']) simp
    qed
  qed
qed

text \<open>
  C13: a request to another core is answered, on any number of cores: a core that is waited for and
  is not in the kernel has an interrupt pending, and within eight steps of its own, whatever it was
  doing, the waiting core is let go.
\<close>

theorem remote_op_is_answered:
  assumes "smp_reach s" "phase_of s i = Request Await c op t"
  shows "(phase_of s c = Outside \<longrightarrow> cr_ipi (sm_cores s c)) \<and>
    (\<exists>n s'. n \<le> 8 \<and> answer_run n c s = Some s' \<and>
       smp_step i Go s' = Some (goto i (Request ClearPending c op t) s'))"
proof -
  note ok = smp_reach_lock_ok [OF assms(1)] and rq = smp_reach_requests_ok [OF assms(1)]
  note r = requests_okD [OF rq assms(2)] and c = request_ok_remote [OF requests_okD(1) [OF rq assms(2)]]
  have "awaited i c op t s"
    using r(2) c assms(2) lock_okD(3) [OF ok, of c i] lock_okD(4) [OF ok, of i] by (auto simp: awaited_def request_stored_def)
  from answer_run_answers [OF this] obtain n s' where n: "n \<le> answer_distance (phase_of s c)" "answer_run n c s = Some s'"
    "awaited i c op t s'" "bit (sm_done s') c"
    by blast
  have "answer_distance (phase_of s c) \<le> 8" by (cases "phase_of s c" rule: answer_distance.cases) simp_all
  moreover have "smp_step i Go s' = Some (goto i (Request ClearPending c op t) s')"
    using n(3,4) by (simp add: smp_step_def awaited_def and_core_bit)
  ultimately show ?thesis using n(1,2) r(3) by (meson le_trans)
qed

section \<open>Three cores\<close>

text \<open>
  A machine whose cores run a thread each; the second one holds its thread's floating-point state.
\<close>

definition running :: "u64 \<Rightarrow> u64 \<Rightarrow> core" where
  "running t fpu = \<lparr> cr_phase = Outside, cr_current = t, cr_fpu_owner = fpu, cr_user_context = t, cr_stalled = False,
     cr_ipi = False, cr_flushes = [] \<rparr>"

definition smp_machine :: "nat \<Rightarrow> smp" where
  "smp_machine n = \<lparr> sm_nodes = n, sm_online = (\<lambda>i. i < n), sm_idle = (\<lambda>i. 0x1000 + of_nat i), sm_locked = False,
     sm_owner = NO_KERNEL_LOCK_OWNER, sm_pending = 0, sm_done = 0, sm_target = 0, sm_op = REMOTE_OP_STALL_TCB,
     sm_cores = (\<lambda>i. running (0x2000 + of_nat i) (if i = 1 then 0x2001 else 0)) \<rparr>"

lemma smp_machine_initial: "n \<le> 8 \<Longrightarrow> smp_initial (smp_machine n)"
  by (simp add: smp_initial_def smp_machine_def MAX_BOOT_CPUS_def phase_of_def running_def)

definition enter :: "nat \<Rightarrow> (nat \<times> move) list" where
  "enter i = [(i, Trap), (i, Go), (i, Go)]"

definition ask :: "nat \<Rightarrow> kernel_move \<Rightarrow> (nat \<times> move) list" where
  "ask i k = (i, Kernel k) # replicate 5 (i, Go)"

text \<open>
  The first core takes the floating-point state from the thread of the second, which has answered
  and looks for requests again: it loads the pending bit, which is still set. Then the first core
  stalls the thread of the third core. The second core loads the done bit, which the first has just
  cleared, and takes up this request though it is not meant. Before it performs it the first core
  asks again, now to stall the second core's own thread.
\<close>

definition stale_answer :: "(nat \<times> move) list" where
  "stale_answer =
     enter 0 @ ask 0 (ReleaseFpu 0x2001) @
     (1, Trap) # replicate 9 (1, Go) @
     replicate 4 (0, Go) @ ask 0 (Stall 0x2002) @
     replicate 3 (1, Go) @
     (2, Trap) # replicate 7 (2, Go) @
     replicate 4 (0, Go) @ ask 0 (Stall 0x2001) @
     replicate 2 (1, Go) @
     replicate 3 (0, Go)"

text \<open>
  C14: with three cores a stall can be missed: the first core's wait for the stall of the thread
  that the second core runs is over, and the second core still runs it; it goes on to leave the
  kernel with this thread.
\<close>

theorem remote_stall_can_be_missed:
  "\<exists>s s'. smp_reach s \<and> phase_of s 0 = Request ClearOp 1 REMOTE_OP_STALL_TCB 0x2001 \<and> cr_current (sm_cores s 1) = 0x2001 \<and>
     smp_run [(0, Go), (0, Kernel (Leave 0x2000)), (0, Go), (0, Go), (1, Go), (1, Go), (1, Kernel (Leave 0x2001)), (1, Go), (1, Go)] s
       = Some s' \<and> phase_of s' 1 = Outside \<and> cr_current (sm_cores s' 1) = 0x2001"
proof -
  let ?fin = "[(0, Go), (0, Kernel (Leave 0x2000)), (0, Go), (0, Go), (1, Go), (1, Go), (1, Kernel (Leave 0x2001)), (1, Go), (1, Go)]"
  have "map_option (\<lambda>s. (phase_of s 0, cr_current (sm_cores s 1),
      map_option (\<lambda>s'. (phase_of s' 1, cr_current (sm_cores s' 1))) (smp_run ?fin s))) (smp_run stale_answer (smp_machine 3)) =
    Some (Request ClearOp 1 REMOTE_OP_STALL_TCB 0x2001, 0x2001, Some (Outside, 0x2001))"
    by code_simp
  then obtain s s' where "smp_run stale_answer (smp_machine 3) = Some s"
    "phase_of s 0 = Request ClearOp 1 REMOTE_OP_STALL_TCB 0x2001" "cr_current (sm_cores s 1) = 0x2001"
    "smp_run ?fin s = Some s'" "phase_of s' 1 = Outside" "cr_current (sm_cores s' 1) = 0x2001"
    by auto
  moreover from this have "smp_reach s"
    using smp_run_reach [OF smp_reach.start [OF smp_machine_initial [of 3]]] by simp
  ultimately show ?thesis by blast
qed

section \<open>Witnesses\<close>

lemma smp_machine_reach: "n \<le> 8 \<Longrightarrow> smp_run ms (smp_machine n) = Some s \<Longrightarrow> smp_reach s"
  by (rule smp_run_reach [OF smp_reach.start [OF smp_machine_initial]])

theorem kernel_lock_excludes_witness:
  "\<exists>s. smp_run (enter 0) (smp_machine 2) = Some s \<and> kernel_lock_is_held_by 0 s \<and> \<not> kernel_lock_is_held_by 1 s"
proof -
  have "map_option (\<lambda>s. (phase_of s 0, phase_of s 1, sm_nodes s)) (smp_run (enter 0) (smp_machine 2)) = Some (Inside, Outside, 2)"
    by code_simp
  then obtain s where s: "smp_run (enter 0) (smp_machine 2) = Some s" "phase_of s 0 = Inside" "phase_of s 1 = Outside" "sm_nodes s = 2"
    by auto
  have "smp_reach s" using smp_machine_reach [OF _ s(1)] by simp
  with kernel_lock_excludes s show ?thesis by auto
qed

theorem remote_op_is_performed_witness:
  "\<exists>s. smp_run (enter 0 @ ask 0 (Stall 0x2001) @ (1, Trap) # replicate 7 (1, Go) @ [(0, Go)]) (smp_machine 2) = Some s \<and>
     cr_current (sm_cores s 1) \<noteq> 0x2001"
proof -
  let ?ms = "enter 0 @ ask 0 (Stall 0x2001) @ (1, Trap) # replicate 7 (1, Go) @ [(0, Go)]"
  have "map_option (\<lambda>s. (phase_of s 0, sm_nodes s)) (smp_run ?ms (smp_machine 2)) =
      Some (Request ClearPending 1 REMOTE_OP_STALL_TCB 0x2001, 2)"
    by code_simp
  then obtain s where s: "smp_run ?ms (smp_machine 2) = Some s" "phase_of s 0 = Request ClearPending 1 REMOTE_OP_STALL_TCB 0x2001"
    "sm_nodes s = 2"
    by (auto simp del: smp_run.simps)
  have "smp_reach s" using smp_machine_reach [OF _ s(1)] by simp
  from remote_op_is_performed [OF this _ s(2)] s(3) have "cr_current (sm_cores s 1) \<noteq> 0x2001"
    by (simp add: REMOTE_OP_STALL_TCB_def REMOTE_OP_RELEASE_FPU_OWNER_def)
  with s(1) show ?thesis by blast
qed

theorem remote_op_is_answered_witness:
  "\<exists>s n s'. smp_run (enter 0 @ ask 0 (Stall 0x2001)) (smp_machine 2) = Some s \<and> n \<le> 8 \<and> answer_run n 1 s = Some s' \<and>
     smp_step 0 Go s' = Some (goto 0 (Request ClearPending 1 REMOTE_OP_STALL_TCB 0x2001) s')"
proof -
  have "map_option (\<lambda>s. phase_of s 0) (smp_run (enter 0 @ ask 0 (Stall 0x2001)) (smp_machine 2)) =
      Some (Request Await 1 REMOTE_OP_STALL_TCB 0x2001)"
    by code_simp
  then obtain s where s: "smp_run (enter 0 @ ask 0 (Stall 0x2001)) (smp_machine 2) = Some s"
    "phase_of s 0 = Request Await 1 REMOTE_OP_STALL_TCB 0x2001"
    by (auto simp del: smp_run.simps)
  have "smp_reach s" using smp_machine_reach [OF _ s(1)] by simp
  from remote_op_is_answered [OF this s(2)] s(1) show ?thesis by blast
qed

section \<open>The sequential view\<close>

text \<open>
  What \<open>Rel4_State\<close> lets a stall do to the other core, in one step and unless its input says that the
  answer is a stale one, is what that core does when it performs the request. That a stale answer is
  possible with three cores, and not with two, is what the theorems above show.
\<close>

lemma service_remote_stall_performs:
  assumes "\<forall>i. cpu_current k i = cr_current (sm_cores s i)" "idle_tcbs k c = sm_idle s c"
  shows "cpu_current (service_remote_stall c t k) i =
    cr_current (sm_cores (snd (perform_remote_op c t REMOTE_OP_STALL_TCB s)) i)"
  using assms by (auto simp: service_remote_stall_def perform_remote_op_def REMOTE_OP_STALL_TCB_def REMOTE_OP_RELEASE_FPU_OWNER_def
      REMOTE_OP_FLUSH_VMA_ALL_def REMOTE_OP_FLUSH_VMA_ASID_def)

end
