(* ===== verification/Rel4_Fpu.thy ===== *)
theory Rel4_Fpu
  imports Rel4_State
begin

text \<open>
  The floating-point unit (\<^verbatim>\<open>arch/riscv64/machine/fpu.rs\<close>): every core records the thread whose state
  its registers hold, and saves and loads register files only when another thread needs them. The
  other theories record the calls as events; here is what they do, on all cores, and that every
  thread sees its own registers.
\<close>

section \<open>State\<close>

text \<open>
  \<open>fp_unit\<close> are the register files of the cores, \<open>fp_saved\<close> and \<open>fp_enabled\<close> the saved register
  file of a thread and whether its context turns the unit on, \<open>fp_home\<close> the core its affinity names,
  \<open>fp_current\<close> the current thread of a core and \<open>fp_in_user\<close> whether the core is in user mode.
\<close>

record fpu_state =
  fs_regs :: "u64 list"
  fs_fcsr :: u32

record fpu =
  fp_nodes :: nat
  fp_owner :: "nat \<Rightarrow> u64"
  fp_access :: "nat \<Rightarrow> bool"
  fp_unit :: "nat \<Rightarrow> fpu_state"
  fp_saved :: "u64 \<Rightarrow> fpu_state"
  fp_enabled :: "u64 \<Rightarrow> bool"
  fp_disabled :: "u64 \<Rightarrow> bool"
  fp_home :: "u64 \<Rightarrow> nat"
  fp_current :: "nat \<Rightarrow> u64"
  fp_in_user :: "nat \<Rightarrow> bool"

section \<open>Operations\<close>

definition disable_access :: "nat \<Rightarrow> fpu \<Rightarrow> fpu" where
  "disable_access core s = s\<lparr> fp_access := (fp_access s)(core := False) \<rparr>"

definition enable_access :: "nat \<Rightarrow> fpu \<Rightarrow> fpu" where
  "enable_access core s = s\<lparr> fp_access := (fp_access s)(core := True) \<rparr>"

definition owner_of_core :: "nat \<Rightarrow> fpu \<Rightarrow> u64 option" where
  "owner_of_core core s = from_kva (fp_owner s core)"

definition owner_core :: "u64 \<Rightarrow> fpu \<Rightarrow> nat option" where
  "owner_core thread s = find (\<lambda>core. owner_of_core core s = Some thread) [0..<fp_nodes s]"

definition init_current_core :: "nat \<Rightarrow> fpu \<Rightarrow> fpu" where
  "init_current_core core s = disable_access core
     (s\<lparr> fp_owner := (fp_owner s)(core := 0), fp_unit := (fp_unit s)(core := (fp_unit s core)\<lparr> fs_fcsr := 0 \<rparr>) \<rparr>)"

definition save_fpu_state :: "nat \<Rightarrow> u64 \<Rightarrow> fpu \<Rightarrow> fpu" where
  "save_fpu_state core thread s = s\<lparr> fp_saved := (fp_saved s)(thread := fp_unit s core) \<rparr>"

definition load_fpu_state :: "nat \<Rightarrow> u64 \<Rightarrow> fpu \<Rightarrow> fpu" where
  "load_fpu_state core thread s = s\<lparr> fp_unit := (fp_unit s)(core := fp_saved s thread) \<rparr>"

definition set_context_enabled :: "u64 \<Rightarrow> bool \<Rightarrow> fpu \<Rightarrow> fpu" where
  "set_context_enabled thread enabled s = s\<lparr> fp_enabled := (fp_enabled s)(thread := enabled) \<rparr>"

definition switch_local_owner :: "nat \<Rightarrow> u64 option \<Rightarrow> fpu \<Rightarrow> fpu" where
  "switch_local_owner core new_owner s =
     (let s1 = enable_access core s;
          s2 = (case owner_of_core core s of Some old_owner \<Rightarrow> save_fpu_state core old_owner s1 | None \<Rightarrow> s1);
          s3 = (case new_owner of
                  None \<Rightarrow> disable_access core s2
                | Some thread \<Rightarrow>
                    let s' = load_fpu_state core thread s2 in set_context_enabled thread (fp_access s' core) s')
      in s3\<lparr> fp_owner := (fp_owner s3)(core := kva_or_zero new_owner) \<rparr>)"

definition lazy_restore :: "nat \<Rightarrow> u64 \<Rightarrow> fpu \<Rightarrow> fpu" where
  "lazy_restore core thread s =
     (if fp_disabled s thread then set_context_enabled thread False (disable_access core s)
      else if owner_of_core core s = Some thread then
        let s1 = enable_access core s in set_context_enabled thread (fp_access s1 core) s1
      else switch_local_owner core (Some thread) s)"

definition release_on_current_core :: "nat \<Rightarrow> u64 \<Rightarrow> fpu \<Rightarrow> fpu" where
  "release_on_current_core core thread s =
     (if owner_of_core core s \<noteq> Some thread then s else switch_local_owner core None s)"

text \<open>
  Another core that holds the state is asked to release it; it answers in the kernel, so that it has
  left user mode before.
\<close>

definition fpu_release :: "u64 \<Rightarrow> fpu \<Rightarrow> fpu" where
  "fpu_release thread s = (case owner_core thread s of
     None \<Rightarrow> s
   | Some core \<Rightarrow> release_on_current_core core thread (s\<lparr> fp_in_user := (fp_in_user s)(core := False) \<rparr>))"

text \<open>The callers: the flag of a thread, its affinity, and the return to user mode.\<close>

definition fpu_set_flags :: "nat \<Rightarrow> u64 \<Rightarrow> bool \<Rightarrow> fpu \<Rightarrow> fpu" where
  "fpu_set_flags core thread disabled s =
     (let s1 = s\<lparr> fp_disabled := (fp_disabled s)(thread := disabled) \<rparr> in
      if disabled then set_context_enabled thread False (fpu_release thread s1)
      else if fp_current s core = thread then lazy_restore core thread s1 else s1)"

definition fpu_set_affinity :: "u64 \<Rightarrow> nat \<Rightarrow> fpu \<Rightarrow> fpu" where
  "fpu_set_affinity thread home s =
     (let s1 = (if fp_home s thread \<noteq> home then fpu_release thread s else s)
      in s1\<lparr> fp_home := (fp_home s1)(thread := home) \<rparr>)"

section \<open>Steps\<close>

text \<open>
  What may happen to the unit: a core enters the kernel; in the kernel it resumes a thread whose
  home it is and which is current nowhere else, releases a thread, sets a thread's flag or affinity;
  a thread in user mode whose context turns the unit on computes with the registers of its core.
  The steps may come in any order and on any core. The kernel takes fewer: nothing calls
  \<^verbatim>\<open>set_affinity\<close>, and the thread invocations stop their target on other cores first. What holds
  for all orders holds for those.
\<close>

datatype fpu_event =
    FpTrap nat
  | FpResume nat u64
  | FpRelease u64
  | FpSetFlags nat u64 bool
  | FpSetAffinity u64 nat
  | FpCompute nat "fpu_state \<Rightarrow> fpu_state"

definition fpu_resume :: "nat \<Rightarrow> u64 \<Rightarrow> fpu \<Rightarrow> fpu" where
  "fpu_resume core thread s = (let s1 = lazy_restore core thread s in
     s1\<lparr> fp_current := (fp_current s1)(core := thread), fp_in_user := (fp_in_user s1)(core := True) \<rparr>)"

fun fpu_step :: "fpu_event \<Rightarrow> fpu \<Rightarrow> fpu option" where
  "fpu_step (FpTrap core) s = Some (s\<lparr> fp_in_user := (fp_in_user s)(core := False) \<rparr>)"
| "fpu_step (FpResume core thread) s =
     (if core < fp_nodes s \<and> \<not> fp_in_user s core \<and> thread \<noteq> 0 \<and> fp_home s thread = core \<and>
        list_all (\<lambda>c. c \<noteq> core \<longrightarrow> fp_current s c \<noteq> thread) [0..<fp_nodes s]
      then Some (fpu_resume core thread s) else None)"
| "fpu_step (FpRelease thread) s = (if thread \<noteq> 0 then Some (fpu_release thread s) else None)"
| "fpu_step (FpSetFlags core thread disabled) s =
     (if core < fp_nodes s \<and> \<not> fp_in_user s core \<and> thread \<noteq> 0
      then Some (fpu_set_flags core thread disabled s) else None)"
| "fpu_step (FpSetAffinity thread home) s =
     (if thread \<noteq> 0 \<and> home < fp_nodes s then Some (fpu_set_affinity thread home s) else None)"
| "fpu_step (FpCompute core f) s =
     (if core < fp_nodes s \<and> fp_in_user s core \<and> fp_enabled s (fp_current s core)
      then Some (s\<lparr> fp_unit := (fp_unit s)(core := f (fp_unit s core)) \<rparr>) else None)"

text \<open>
  Turning the unit on for the current thread is safe on its home core, which is where the kernel does
  it: a thread is resumed on its home core and its affinity stays the same meanwhile.
\<close>

fun fpu_safe :: "fpu_event \<Rightarrow> fpu \<Rightarrow> bool" where
  "fpu_safe (FpSetFlags core thread disabled) s = (disabled \<or> fp_current s core \<noteq> thread \<or> fp_home s thread = core)"
| "fpu_safe _ s = True"

fun fpu_run :: "fpu_event list \<Rightarrow> fpu \<Rightarrow> fpu option" where
  "fpu_run [] s = Some s"
| "fpu_run (e # es) s = Option.bind (fpu_step e s) (fpu_run es)"

section \<open>Abstraction\<close>

text \<open>
  The registers of a thread: in the unit of the core that holds them, or saved. A state is sound if
  only the home of a thread holds its registers, no thread is current on two cores, and a core that
  runs a thread with the unit on holds its registers.
\<close>

definition fpu_contents :: "fpu \<Rightarrow> u64 \<Rightarrow> fpu_state" where
  "fpu_contents s thread = (case owner_core thread s of Some core \<Rightarrow> fp_unit s core | None \<Rightarrow> fp_saved s thread)"

definition fpu_ok :: "fpu \<Rightarrow> bool" where
  "fpu_ok s \<longleftrightarrow> (\<forall>core < fp_nodes s. fp_owner s core \<noteq> 0 \<longrightarrow> fp_home s (fp_owner s core) = core) \<and>
     (\<forall>c < fp_nodes s. \<forall>d < fp_nodes s. fp_current s c = fp_current s d \<and> fp_current s c \<noteq> 0 \<longrightarrow> c = d) \<and>
     (\<forall>core < fp_nodes s. fp_in_user s core \<longrightarrow> fp_current s core \<noteq> 0 \<and>
        (fp_enabled s (fp_current s core) \<longrightarrow> fp_owner s core = fp_current s core))"

fun fpu_effect :: "fpu_event \<Rightarrow> fpu \<Rightarrow> (u64 \<Rightarrow> fpu_state) \<Rightarrow> (u64 \<Rightarrow> fpu_state)" where
  "fpu_effect (FpCompute core f) s m = m(fp_current s core := f (m (fp_current s core)))"
| "fpu_effect _ s m = m"

lemma owner_of_core_Some [simp]: "owner_of_core core s = Some t \<longleftrightarrow> t \<noteq> 0 \<and> fp_owner s core = t"
  by (auto simp: owner_of_core_def from_kva_def)

lemma owner_core_ok:
  assumes "fpu_ok s"
  shows "owner_core t s = (if t \<noteq> 0 \<and> fp_home s t < fp_nodes s \<and> fp_owner s (fp_home s t) = t then Some (fp_home s t) else None)"
proof (cases "\<exists>core < fp_nodes s. t \<noteq> 0 \<and> fp_owner s core = t")
  case True
  then obtain core where core: "core < fp_nodes s" "t \<noteq> 0" "fp_owner s core = t" by blast
  have home: "c = fp_home s t" if "c < fp_nodes s" "fp_owner s c = t" for c
    using that assms core(2) by (auto simp: fpu_ok_def)
  have "owner_core t s \<noteq> None" using core by (auto simp: owner_core_def find_None_iff)
  then obtain c where c: "owner_core t s = Some c" by blast
  then have "c < fp_nodes s" "fp_owner s c = t" by (auto simp: owner_core_def find_Some_iff)
  with home have "c = fp_home s t" by blast
  with c core(2) \<open>c < fp_nodes s\<close> \<open>fp_owner s c = t\<close> show ?thesis by simp
next
  case False
  then have "owner_core t s = None" by (auto simp: owner_core_def find_None_iff)
  with False show ?thesis by auto
qed

section \<open>What the operations do\<close>

definition saved_by :: "nat \<Rightarrow> fpu \<Rightarrow> u64 \<Rightarrow> fpu_state" where
  "saved_by core s = (if fp_owner s core \<noteq> 0 then (fp_saved s)(fp_owner s core := fp_unit s core) else fp_saved s)"

lemmas fpu_access_defs = enable_access_def disable_access_def save_fpu_state_def load_fpu_state_def set_context_enabled_def

lemma switch_local_owner_sel [simp]:
  "fp_nodes (switch_local_owner core r s) = fp_nodes s" "fp_home (switch_local_owner core r s) = fp_home s"
  "fp_current (switch_local_owner core r s) = fp_current s" "fp_in_user (switch_local_owner core r s) = fp_in_user s"
  "fp_disabled (switch_local_owner core r s) = fp_disabled s"
  "fp_owner (switch_local_owner core r s) = (fp_owner s)(core := kva_or_zero r)"
  "fp_saved (switch_local_owner core r s) = saved_by core s"
  by (simp_all add: switch_local_owner_def fpu_access_defs saved_by_def owner_of_core_def from_kva_def Let_def split: option.split)

lemma switch_local_owner_unit:
  "fp_unit (switch_local_owner core None s) = fp_unit s" "fp_enabled (switch_local_owner core None s) = fp_enabled s"
  "fp_unit (switch_local_owner core (Some t) s) = (fp_unit s)(core := saved_by core s t)"
  "fp_enabled (switch_local_owner core (Some t) s) = (fp_enabled s)(t := True)"
  by (simp_all add: switch_local_owner_def fpu_access_defs saved_by_def owner_of_core_def from_kva_def Let_def)

lemma fpu_contents_ok:
  assumes "fpu_ok s" "t \<noteq> 0"
  shows "fpu_contents s t =
    (if fp_home s t < fp_nodes s \<and> fp_owner s (fp_home s t) = t then fp_unit s (fp_home s t) else fp_saved s t)"
  using assms(2) by (simp add: fpu_contents_def owner_core_ok [OF assms(1)])

lemma fpu_contents_zero: "fpu_contents s 0 = fp_saved s 0"
proof -
  have "owner_core 0 s = None" by (simp add: owner_core_def find_None_iff)
  then show ?thesis by (simp add: fpu_contents_def)
qed

lemma fpu_okD:
  assumes "fpu_ok s" "core < fp_nodes s"
  shows "fp_owner s core \<noteq> 0 \<Longrightarrow> fp_home s (fp_owner s core) = core"
    "d < fp_nodes s \<Longrightarrow> fp_current s core = fp_current s d \<Longrightarrow> fp_current s core \<noteq> 0 \<Longrightarrow> core = d"
    "fp_in_user s core \<Longrightarrow> fp_current s core \<noteq> 0"
    "fp_in_user s core \<Longrightarrow> fp_enabled s (fp_current s core) \<Longrightarrow> fp_owner s core = fp_current s core"
  using assms unfolding fpu_ok_def by blast+

text \<open>Two sound states have the same contents if the holders and the registers agree as follows.\<close>

lemma fpu_contents_same:
  assumes "fpu_ok s" "fpu_ok s'" "fp_nodes s' = fp_nodes s" "fp_home s' = fp_home s" "fp_saved s' 0 = fp_saved s 0"
    and "\<And>t. t \<noteq> 0 \<Longrightarrow> (if fp_home s t < fp_nodes s \<and> fp_owner s' (fp_home s t) = t then fp_unit s' (fp_home s t) else fp_saved s' t) =
      (if fp_home s t < fp_nodes s \<and> fp_owner s (fp_home s t) = t then fp_unit s (fp_home s t) else fp_saved s t)"
  shows "fpu_contents s' = fpu_contents s"
proof
  fix t
  show "fpu_contents s' t = fpu_contents s t"
  proof (cases "t = 0")
    case False
    show ?thesis
      unfolding fpu_contents_ok [OF assms(1) False] fpu_contents_ok [OF assms(2) False] assms(3,4) by (rule assms(6) [OF False])
  qed (simp add: fpu_contents_zero assms(5))
qed

lemma switch_to_thread:
  assumes ok: "fpu_ok s" and t: "core < fp_nodes s" "t \<noteq> 0" "fp_home s t = core" "fp_owner s core \<noteq> t" "\<not> fp_in_user s core"
    "\<And>c. c < fp_nodes s \<Longrightarrow> c \<noteq> core \<Longrightarrow> fp_current s c \<noteq> t"
  shows "fpu_ok (switch_local_owner core (Some t) s)" "fpu_contents (switch_local_owner core (Some t) s) = fpu_contents s"
proof -
  let ?s = "switch_local_owner core (Some t) s"
  note u = switch_local_owner_unit
  show ok': "fpu_ok ?s"
    unfolding fpu_ok_def
  proof (intro conjI allI impI)
    show "fp_home ?s (fp_owner ?s c) = c" if "c < fp_nodes ?s" "fp_owner ?s c \<noteq> 0" for c
      using that t(3) fpu_okD(1) [OF ok, of c] by (cases "c = core") (auto simp: kva_or_zero_def)
    show "c = d" if "c < fp_nodes ?s" "d < fp_nodes ?s" "fp_current ?s c = fp_current ?s d \<and> fp_current ?s c \<noteq> 0" for c d
      using that fpu_okD(2) [OF ok, of c d] by auto
    fix c
    assume c: "c < fp_nodes ?s" "fp_in_user ?s c"
    then have ne: "c \<noteq> core" "fp_current s c \<noteq> t" using t(5,6) by auto
    show "fp_current ?s c \<noteq> 0" using c fpu_okD(3) [OF ok, of c] by simp
    show "fp_owner ?s c = fp_current ?s c" if "fp_enabled ?s (fp_current ?s c)"
      using that ne c fpu_okD(4) [OF ok, of c] by (simp add: u)
  qed
  show "fpu_contents ?s = fpu_contents s"
  proof (rule fpu_contents_same [OF ok ok'])
    fix r :: u64
    assume r: "r \<noteq> 0"
    show "(if fp_home s r < fp_nodes s \<and> fp_owner ?s (fp_home s r) = r then fp_unit ?s (fp_home s r) else fp_saved ?s r) =
      (if fp_home s r < fp_nodes s \<and> fp_owner s (fp_home s r) = r then fp_unit s (fp_home s r) else fp_saved s r)"
      using r t fpu_okD(1) [OF ok t(1)] by (auto simp: kva_or_zero_def u saved_by_def)
  qed (auto simp: saved_by_def)
qed

lemma switch_to_none:
  assumes ok: "fpu_ok s" and t: "core < fp_nodes s" "fp_owner s core \<noteq> 0" "\<not> fp_in_user s core"
  shows "fpu_ok (switch_local_owner core None s)" "fpu_contents (switch_local_owner core None s) = fpu_contents s"
proof -
  let ?s = "switch_local_owner core None s"
  note u = switch_local_owner_unit
  show ok': "fpu_ok ?s"
    unfolding fpu_ok_def using fpu_okD [OF ok] t by (auto simp: kva_or_zero_def u)
  show "fpu_contents ?s = fpu_contents s"
  proof (rule fpu_contents_same [OF ok ok'])
    fix r :: u64
    assume r: "r \<noteq> 0"
    show "(if fp_home s r < fp_nodes s \<and> fp_owner ?s (fp_home s r) = r then fp_unit ?s (fp_home s r) else fp_saved ?s r) =
      (if fp_home s r < fp_nodes s \<and> fp_owner s (fp_home s r) = r then fp_unit s (fp_home s r) else fp_saved s r)"
      using r t fpu_okD(1) [OF ok t(1)] by (auto simp: kva_or_zero_def u saved_by_def)
  qed (auto simp: saved_by_def t(2))
qed

text \<open>Changes that leave owners, homes, units and saved registers alone.\<close>

lemma fpu_contents_cong:
  assumes "fp_nodes s' = fp_nodes s" "fp_owner s' = fp_owner s" "fp_unit s' = fp_unit s" "fp_saved s' = fp_saved s"
  shows "fpu_contents s' = fpu_contents s"
  unfolding fpu_contents_def owner_core_def owner_of_core_def assms ..

lemma fpu_ok_trap: "fpu_ok s \<Longrightarrow> fpu_ok (s\<lparr> fp_in_user := (fp_in_user s)(core := False) \<rparr>)"
  unfolding fpu_ok_def by auto

lemma fpu_release_keeps:
  assumes "fpu_ok s" "t \<noteq> 0"
  shows "fpu_ok (fpu_release t s)" "fpu_contents (fpu_release t s) = fpu_contents s"
    "core < fp_nodes s \<Longrightarrow> fp_owner (fpu_release t s) core \<noteq> t"
    "fp_nodes (fpu_release t s) = fp_nodes s" "fp_home (fpu_release t s) = fp_home s"
    "fp_current (fpu_release t s) = fp_current s" "fp_enabled (fpu_release t s) = fp_enabled s"
    "fp_in_user (fpu_release t s) c \<Longrightarrow> fp_in_user s c"
proof -
  let ?c = "fp_home s t"
  let ?s = "s\<lparr> fp_in_user := (fp_in_user s)(?c := False) \<rparr>"
  have ok: "fpu_ok ?s" by (rule fpu_ok_trap [OF assms(1)])
  have same: "fpu_contents ?s = fpu_contents s" by (rule fpu_contents_cong) simp_all
  have eq: "fpu_release t s = (if ?c < fp_nodes s \<and> fp_owner s ?c = t then switch_local_owner ?c None ?s else s)"
    using assms(2) by (simp add: fpu_release_def owner_core_ok [OF assms(1)] release_on_current_core_def)
  note none = switch_to_none [OF ok, of ?c]
  show "fpu_ok (fpu_release t s)" "fpu_contents (fpu_release t s) = fpu_contents s"
    using none assms same by (auto simp: eq)
  show "core < fp_nodes s \<Longrightarrow> fp_owner (fpu_release t s) core \<noteq> t"
    using assms(2) fpu_okD(1) [OF assms(1), of core] by (auto simp: eq kva_or_zero_def)
  show "fp_nodes (fpu_release t s) = fp_nodes s" "fp_home (fpu_release t s) = fp_home s"
    "fp_current (fpu_release t s) = fp_current s" "fp_enabled (fpu_release t s) = fp_enabled s"
    by (simp_all add: eq switch_local_owner_unit)
  show "fp_in_user (fpu_release t s) c \<Longrightarrow> fp_in_user s c" by (auto simp: eq split: if_splits)
qed

lemma lazy_restore_sel [simp]:
  "fp_nodes (lazy_restore core t s) = fp_nodes s" "fp_home (lazy_restore core t s) = fp_home s"
  "fp_current (lazy_restore core t s) = fp_current s" "fp_in_user (lazy_restore core t s) = fp_in_user s"
  by (simp_all add: lazy_restore_def fpu_access_defs Let_def)

text \<open>Setting whether a context turns the unit on, for a thread that is not in user mode.\<close>

lemma set_enabled_keeps:
  assumes "fpu_ok s" "\<And>c. c < fp_nodes s \<Longrightarrow> fp_in_user s c \<Longrightarrow> fp_current s c \<noteq> t \<or> \<not> b"
  shows "fpu_ok (set_context_enabled t b s)" "fpu_contents (set_context_enabled t b s) = fpu_contents s"
proof -
  show "fpu_ok (set_context_enabled t b s)"
    using assms unfolding fpu_ok_def set_context_enabled_def by (auto split: if_splits)
  show "fpu_contents (set_context_enabled t b s) = fpu_contents s"
    by (rule fpu_contents_cong) (simp_all add: set_context_enabled_def)
qed

lemma set_access_keeps:
  assumes "fpu_ok s"
  shows "fpu_ok (enable_access c s)" "fpu_ok (disable_access c s)"
    "fpu_contents (enable_access c s) = fpu_contents s" "fpu_contents (disable_access c s) = fpu_contents s"
proof -
  show "fpu_ok (enable_access c s)" "fpu_ok (disable_access c s)"
    using assms by (auto simp: fpu_ok_def enable_access_def disable_access_def)
  show "fpu_contents (enable_access c s) = fpu_contents s" "fpu_contents (disable_access c s) = fpu_contents s"
    by (rule fpu_contents_cong; simp add: enable_access_def disable_access_def)+
qed

lemma lazy_restore_keeps:
  assumes ok: "fpu_ok s" and t: "core < fp_nodes s" "t \<noteq> 0" "fp_home s t = core" "\<not> fp_in_user s core"
    "\<And>c. c < fp_nodes s \<Longrightarrow> c \<noteq> core \<Longrightarrow> fp_current s c \<noteq> t"
  shows "fpu_ok (lazy_restore core t s)" "fpu_contents (lazy_restore core t s) = fpu_contents s"
    "fp_enabled (lazy_restore core t s) t \<Longrightarrow> fp_owner (lazy_restore core t s) core = t"
proof -
  have away: "fp_current s c \<noteq> t" if "c < fp_nodes s" "fp_in_user s c" for c
    using that t(4,5) by (cases "c = core") auto
  have keep: "fpu_ok (set_context_enabled t b (enable_access core s))" "fpu_ok (set_context_enabled t b (disable_access core s))"
    "fpu_contents (set_context_enabled t b (enable_access core s)) = fpu_contents s"
    "fpu_contents (set_context_enabled t b (disable_access core s)) = fpu_contents s" for b
    using set_enabled_keeps [OF set_access_keeps(1) [OF ok], of core t b] set_enabled_keeps [OF set_access_keeps(2) [OF ok], of core t b]
      set_access_keeps(3,4) [OF ok] away by (simp_all add: enable_access_def disable_access_def)
  have sw: "fpu_ok (switch_local_owner core (Some t) s)" "fpu_contents (switch_local_owner core (Some t) s) = fpu_contents s"
    if "fp_owner s core \<noteq> t"
    using switch_to_thread [OF ok t(1-3) that t(4,5)] by simp_all
  show "fpu_ok (lazy_restore core t s)" "fpu_contents (lazy_restore core t s) = fpu_contents s"
    using keep sw t(2) by (simp_all add: lazy_restore_def Let_def)
  show "fp_owner (lazy_restore core t s) core = t" if "fp_enabled (lazy_restore core t s) t"
    using that t(2) by (auto simp: lazy_restore_def Let_def set_context_enabled_def enable_access_def disable_access_def
        kva_or_zero_def split: if_splits)
qed

lemma fpu_set_flags_keeps:
  assumes ok: "fpu_ok s" and t: "core < fp_nodes s" "\<not> fp_in_user s core" "t \<noteq> 0"
    and safe: "d \<or> fp_current s core \<noteq> t \<or> fp_home s t = core"
  shows "fpu_ok (fpu_set_flags core t d s) \<and> fpu_contents (fpu_set_flags core t d s) = fpu_contents s"
proof -
  let ?s = "s\<lparr> fp_disabled := (fp_disabled s)(t := d) \<rparr>"
  have ok': "fpu_ok ?s" using ok by (auto simp: fpu_ok_def)
  have same: "fpu_contents ?s = fpu_contents s" by (rule fpu_contents_cong) simp_all
  show ?thesis
  proof (cases "d")
    case True
    then show ?thesis
      using set_enabled_keeps [of "fpu_release t ?s" t False] fpu_release_keeps(1,2) [OF ok' t(3)] same
      by (simp add: fpu_set_flags_def)
  next
    case False
    show ?thesis
    proof (cases "fp_current s core = t")
      case True
      have "fp_current ?s c \<noteq> t" if "c < fp_nodes ?s" "c \<noteq> core" for c
        using fpu_okD(2) [OF ok, of c core] that t True by auto
      with lazy_restore_keeps(1,2) [OF ok', of core t] t safe True False same show ?thesis
        by (simp add: fpu_set_flags_def)
    next
      case False
      with \<open>\<not> d\<close> ok' same show ?thesis by (simp add: fpu_set_flags_def)
    qed
  qed
qed

lemma fpu_resume_keeps:
  assumes ok: "fpu_ok s" and t: "core < fp_nodes s" "\<not> fp_in_user s core" "t \<noteq> 0" "fp_home s t = core"
    "\<And>c. c < fp_nodes s \<Longrightarrow> c \<noteq> core \<Longrightarrow> fp_current s c \<noteq> t"
  shows "fpu_ok (fpu_resume core t s) \<and> fpu_contents (fpu_resume core t s) = fpu_contents s"
proof
  note l = lazy_restore_keeps [OF ok t(1,3,4,2,5)]
  have away: "fp_current s c \<noteq> t" if "c < fp_nodes s" "fp_in_user s c" for c
    using that t(2,5) by (cases "c = core") auto
  show "fpu_contents (fpu_resume core t s) = fpu_contents s"
    using l(2) fpu_contents_cong [of "fpu_resume core t s" "lazy_restore core t s"] by (simp add: fpu_resume_def Let_def)
  show "fpu_ok (fpu_resume core t s)"
    unfolding fpu_ok_def
  proof (intro conjI allI impI)
    let ?s = "fpu_resume core t s"
    show "fp_home ?s (fp_owner ?s c) = c" if "c < fp_nodes ?s" "fp_owner ?s c \<noteq> 0" for c
      using that fpu_okD(1) [OF l(1), of c] by (simp add: fpu_resume_def Let_def)
    show "c = d" if "c < fp_nodes ?s" "d < fp_nodes ?s" "fp_current ?s c = fp_current ?s d \<and> fp_current ?s c \<noteq> 0" for c d
      using that t(5) [of c] t(5) [of d] fpu_okD(2) [OF ok, of c d] by (auto simp: fpu_resume_def Let_def split: if_splits)
    fix c
    assume c: "c < fp_nodes ?s" "fp_in_user ?s c"
    show "fp_current ?s c \<noteq> 0" using c t(3) fpu_okD(3) [OF l(1), of c] by (auto simp: fpu_resume_def Let_def)
    show "fp_owner ?s c = fp_current ?s c" if "fp_enabled ?s (fp_current ?s c)"
      using that c l(3) fpu_okD(4) [OF l(1), of c] by (auto simp: fpu_resume_def Let_def split: if_splits)
  qed
qed

lemma fpu_ok_home:
  "fpu_ok s \<Longrightarrow> (\<And>c. c < fp_nodes s \<Longrightarrow> fp_owner s c \<noteq> 0 \<Longrightarrow> h (fp_owner s c) = c) \<Longrightarrow> fpu_ok (s\<lparr> fp_home := h \<rparr>)"
  unfolding fpu_ok_def by auto

lemma fpu_set_affinity_keeps:
  assumes "fpu_ok s" "t \<noteq> 0"
  shows "fpu_ok (fpu_set_affinity t home s) \<and> fpu_contents (fpu_set_affinity t home s) = fpu_contents s"
proof -
  let ?r = "if fp_home s t \<noteq> home then fpu_release t s else s"
  have r: "fpu_ok ?r" "fpu_contents ?r = fpu_contents s" "fp_home ?r = fp_home s"
    "fp_home s t \<noteq> home \<Longrightarrow> c < fp_nodes ?r \<Longrightarrow> fp_owner ?r c \<noteq> t" for c
    using fpu_release_keeps [OF assms] assms(1) by auto
  have s': "fpu_set_affinity t home s = ?r\<lparr> fp_home := (fp_home s)(t := home) \<rparr>"
    by (simp add: fpu_set_affinity_def Let_def r(3))
  have same: "fpu_contents (?r\<lparr> fp_home := h \<rparr>) = fpu_contents ?r" for h by (rule fpu_contents_cong) simp_all
  have "fpu_ok (?r\<lparr> fp_home := (fp_home s)(t := home) \<rparr>)"
  proof (cases "fp_home s t = home")
    case True
    then have "(fp_home s)(t := home) = fp_home s" by auto
    moreover have "s\<lparr> fp_home := fp_home s \<rparr> = s" by simp
    ultimately show ?thesis using True assms(1) by simp
  next
    case False
    have "((fp_home s)(t := home)) (fp_owner ?r c) = c" if "c < fp_nodes ?r" "fp_owner ?r c \<noteq> 0" for c
      using r(4) [OF False that(1)] fpu_okD(1) [OF r(1) that] unfolding r(3) by simp
    then show ?thesis by (intro fpu_ok_home [OF r(1)])
  qed
  with same r(2) s' show ?thesis by simp
qed

section \<open>Properties\<close>

lemma fpu_compute_effect:
  assumes ok: "fpu_ok s" and c: "core < fp_nodes s" "fp_in_user s core" "fp_enabled s (fp_current s core)"
    and s'_def: "s' = s\<lparr> fp_unit := (fp_unit s)(core := f (fp_unit s core)) \<rparr>"
  shows "fpu_ok s' \<and> fpu_contents s' = (fpu_contents s)(fp_current s core := f (fpu_contents s (fp_current s core)))"
proof
  show ok': "fpu_ok s'" using ok unfolding s'_def by (auto simp: fpu_ok_def)
  have own: "fp_owner s core = fp_current s core" "fp_current s core \<noteq> 0"
    using fpu_okD(3,4) [OF ok c(1)] c(2,3) by blast+
  then have home: "fp_home s (fp_current s core) = core" using fpu_okD(1) [OF ok c(1)] by simp
  show "fpu_contents s' = (fpu_contents s)(fp_current s core := f (fpu_contents s (fp_current s core)))"
  proof
    fix t
    show "fpu_contents s' t = ((fpu_contents s)(fp_current s core := f (fpu_contents s (fp_current s core)))) t"
    proof (cases "t = 0")
      case True
      then show ?thesis using own(2) by (simp add: fpu_contents_zero) (simp add: s'_def)
    next
      case False
      have "fp_home s t \<noteq> core \<or> fp_owner s (fp_home s t) \<noteq> t" if "t \<noteq> fp_current s core"
        using that own(1) by auto
      then show ?thesis
        using own home c(1) unfolding fpu_contents_ok [OF ok' False] fun_upd_apply fpu_contents_ok [OF ok False]
          fpu_contents_ok [OF ok own(2)] by (auto simp: s'_def)
    qed
  qed
qed

lemma fpu_step_effect:
  assumes "fpu_ok s" "fpu_step e s = Some s'" "fpu_safe e s"
  shows "fpu_ok s' \<and> fpu_contents s' = fpu_effect e s (fpu_contents s)"
proof (cases e)
  case (FpTrap core)
  then have s': "s' = s\<lparr> fp_in_user := (fp_in_user s)(core := False) \<rparr>" using assms(2) by simp
  have "fpu_contents s' = fpu_contents s" unfolding s' by (rule fpu_contents_cong) simp_all
  then show ?thesis using fpu_ok_trap [OF assms(1)] FpTrap s' by simp
next
  case (FpResume core t)
  then show ?thesis using assms fpu_resume_keeps [OF assms(1), of core t] by (auto simp: list_all_iff split: if_splits)
next
  case (FpRelease t)
  then show ?thesis using assms fpu_release_keeps(1,2) [OF assms(1), of t] by (auto split: if_splits)
next
  case (FpSetFlags core t d)
  then show ?thesis using assms fpu_set_flags_keeps [OF assms(1), of core t d] by (auto split: if_splits)
next
  case (FpSetAffinity t home)
  then show ?thesis using assms fpu_set_affinity_keeps [OF assms(1), of t home] by (auto split: if_splits)
next
  case (FpCompute core f)
  then show ?thesis using assms fpu_compute_effect [OF assms(1), of core s' f] by (auto split: if_splits)
qed

text \<open>What the computations of a run make of the registers of the threads, and that all its steps are safe.\<close>

fun fpu_effects :: "fpu_event list \<Rightarrow> fpu \<Rightarrow> (u64 \<Rightarrow> fpu_state) \<Rightarrow> (u64 \<Rightarrow> fpu_state)" where
  "fpu_effects [] s m = m"
| "fpu_effects (e # es) s m = (case fpu_step e s of None \<Rightarrow> m | Some s' \<Rightarrow> fpu_effects es s' (fpu_effect e s m))"

fun fpu_safe_run :: "fpu_event list \<Rightarrow> fpu \<Rightarrow> bool" where
  "fpu_safe_run [] s = True"
| "fpu_safe_run (e # es) s = (fpu_safe e s \<and> (case fpu_step e s of None \<Rightarrow> True | Some s' \<Rightarrow> fpu_safe_run es s'))"

text \<open>
  C21: lazy switching is invisible: whatever threads are resumed, moved between cores, released and
  given or denied the unit, in whatever order and on whatever cores, each thread finds in the unit
  what its own computations left there. The one step that is left out turns the unit on for a thread
  that has just been moved away from the core it is current on.
\<close>

theorem fpu_contents_are_private:
  assumes "fpu_ok s" "fpu_run es s = Some s'" "fpu_safe_run es s"
  shows "fpu_contents s' = fpu_effects es s (fpu_contents s) \<and>
    (\<forall>core < fp_nodes s'. fp_in_user s' core \<and> fp_enabled s' (fp_current s' core) \<longrightarrow>
       fp_unit s' core = fpu_contents s' (fp_current s' core))"
proof -
  have run: "fpu_ok s' \<and> fpu_contents s' = fpu_effects es s (fpu_contents s)"
    using assms
  proof (induction es arbitrary: s)
    case (Cons e es)
    then obtain s1 where s1: "fpu_step e s = Some s1" "fpu_run es s1 = Some s'" by (auto split: bind_splits)
    with Cons.prems fpu_step_effect [OF Cons.prems(1) s1(1)] Cons.IH [of s1] show ?case by simp
  qed simp
  have "fp_unit s' core = fpu_contents s' (fp_current s' core)"
    if c: "core < fp_nodes s'" "fp_in_user s' core" "fp_enabled s' (fp_current s' core)" for core
  proof -
    have "fp_owner s' core = fp_current s' core" "fp_current s' core \<noteq> 0" using fpu_okD(3,4) [of s' core] run c by blast+
    then show ?thesis using fpu_okD(1) [of s' core] fpu_contents_ok [of s'] run c(1) by simp
  qed
  with run show ?thesis by blast
qed

text \<open>Two cores; thread \<open>0xA\<close> and \<open>0xB\<close> belong to the first, \<open>0xC\<close> to the second, \<open>0xF\<close> is idle.\<close>

definition fpu_machine :: fpu where
  "fpu_machine = \<lparr> fp_nodes = 2, fp_owner = (\<lambda>_. 0), fp_access = (\<lambda>_. False), fp_unit = (\<lambda>_. \<lparr> fs_regs = [], fs_fcsr = 0 \<rparr>),
     fp_saved = (\<lambda>_. \<lparr> fs_regs = [], fs_fcsr = 0 \<rparr>), fp_enabled = (\<lambda>_. False), fp_disabled = (\<lambda>t. t = 0xF),
     fp_home = (\<lambda>t. if t = 0xC then 1 else 0), fp_current = (\<lambda>_. 0), fp_in_user = (\<lambda>_. False) \<rparr>"

definition put :: "u64 \<Rightarrow> fpu_state \<Rightarrow> fpu_state" where
  "put v x = x\<lparr> fs_regs := [v] \<rparr>"

lemma fpu_machine_ok: "fpu_ok fpu_machine"
  by (simp add: fpu_ok_def fpu_machine_def)

theorem fpu_contents_are_private_witness:
  "\<exists>s'. fpu_run [FpResume 0 0xA, FpCompute 0 (put 1), FpTrap 0, FpResume 0 0xB, FpCompute 0 (put 2), FpSetAffinity 0xA 1,
       FpResume 1 0xA] fpu_machine = Some s' \<and> fs_regs (fp_unit s' 1) = [1]"
proof -
  let ?es = "[FpResume 0 0xA, FpCompute 0 (put 1), FpTrap 0, FpResume 0 0xB, FpCompute 0 (put 2), FpSetAffinity 0xA 1, FpResume 1 0xA]"
  have "map_option (\<lambda>s. (fp_nodes s, fp_in_user s 1, fp_current s 1, fp_enabled s 0xA)) (fpu_run ?es fpu_machine) = Some (2, True, 0xA, True)"
    by code_simp
  then obtain s' where s': "fpu_run ?es fpu_machine = Some s'" "fp_nodes s' = 2" "fp_in_user s' 1" "fp_current s' 1 = 0xA" "fp_enabled s' 0xA"
    by (auto simp del: fpu_run.simps)
  have safe: "fpu_safe_run ?es fpu_machine" by code_simp
  have "fs_regs (fpu_effects ?es fpu_machine (fpu_contents fpu_machine) 0xA) = [1]" by code_simp
  moreover have "fp_unit s' 1 = fpu_effects ?es fpu_machine (fpu_contents fpu_machine) 0xA"
    using fpu_contents_are_private [OF fpu_machine_ok s'(1) safe] s'(2-5) by (simp del: fpu_effects.simps)
  ultimately show ?thesis using s'(1) by (metis (no_types))
qed

end
