(* ===== verification/Vfs_Abi.thy ===== *)
theory Vfs_Abi
  imports Rel4_Prelude
begin

text \<open>
  The interface between the Linux personality and the file server (\<^verbatim>\<open>userspace/linux-abi/src/lib.rs\<close>): error
  numbers, open flags, limits, the operations of the server and the words it answers.

  \<^verbatim>\<open>usize\<close> values of the server are natural numbers below \<open>2 ^ 64\<close>; where the source lets an addition wrap
  around or saturate, the model says so.
\<close>

section \<open>Constants\<close>

definition ENOENT :: int where "ENOENT = 2"
definition EBADF :: int where "EBADF = 9"
definition ENOMEM :: int where "ENOMEM = 12"
definition EEXIST :: int where "EEXIST = 17"
definition ENOTDIR :: int where "ENOTDIR = 20"
definition EISDIR :: int where "EISDIR = 21"
definition EINVAL :: int where "EINVAL = 22"
definition ENOSPC :: int where "ENOSPC = 28"
definition ENOSYS :: int where "ENOSYS = 38"
definition ENOTEMPTY :: int where "ENOTEMPTY = 39"

lemmas errno_defs = ENOENT_def EBADF_def ENOMEM_def EEXIST_def ENOTDIR_def EISDIR_def EINVAL_def ENOSPC_def ENOSYS_def
  ENOTEMPTY_def

definition O_WRONLY :: u32 where "O_WRONLY = 1"
definition O_RDWR :: u32 where "O_RDWR = 2"
definition O_ACCMODE :: u32 where "O_ACCMODE = 3"
definition O_CREAT :: u32 where "O_CREAT = 0x40"
definition O_EXCL :: u32 where "O_EXCL = 0x80"
definition O_TRUNC :: u32 where "O_TRUNC = 0x200"
definition O_DIRECTORY :: u32 where "O_DIRECTORY = 0x10000"
definition AT_REMOVEDIR :: u32 where "AT_REMOVEDIR = 0x200"

definition SEEK_SET :: u32 where "SEEK_SET = 0"
definition SEEK_CUR :: u32 where "SEEK_CUR = 1"
definition SEEK_END :: u32 where "SEEK_END = 2"

definition S_IFMT :: u32 where "S_IFMT = 0xF000"
definition S_IFDIR :: u32 where "S_IFDIR = 0x4000"
definition S_IFCHR :: u32 where "S_IFCHR = 0x2000"
definition S_IFREG :: u32 where "S_IFREG = 0x8000"

definition ROOT_INO :: nat where "ROOT_INO = 1"
definition CONSOLE_INO :: nat where "CONSOLE_INO = 3"

definition LINUX_ABI_VERSION :: u64 where "LINUX_ABI_VERSION = 1"
definition MAX_PATH_BYTES :: nat where "MAX_PATH_BYTES = 384"
definition MAX_PIPES :: nat where "MAX_PIPES = 32"
definition PIPE_BUF :: nat where "PIPE_BUF = 512"
definition MAX_OPEN_FILES :: nat where "MAX_OPEN_FILES = 128"
definition MAX_IO_BYTES :: nat where "MAX_IO_BYTES = 16 * 1024"

section \<open>Kinds, operations, status words\<close>

datatype file_kind = Directory | RegularFile | Device

fun file_kind_raw :: "file_kind \<Rightarrow> u16" where
  "file_kind_raw Directory = 1"
| "file_kind_raw RegularFile = 2"
| "file_kind_raw Device = 3"

definition file_kind_from_raw :: "u16 \<Rightarrow> file_kind option" where
  "file_kind_from_raw v =
     (if v = 1 then Some Directory else if v = 2 then Some RegularFile else if v = 3 then Some Device else None)"

datatype ipc_status = StOk | StWouldBlock | StBusy | StInvalidArgument | StBrokenPipe | StNoSyscall

fun ipc_status_raw :: "ipc_status \<Rightarrow> u64" where
  "ipc_status_raw StOk = 0"
| "ipc_status_raw StWouldBlock = 11"
| "ipc_status_raw StBusy = 16"
| "ipc_status_raw StInvalidArgument = 22"
| "ipc_status_raw StBrokenPipe = 32"
| "ipc_status_raw StNoSyscall = 38"

datatype ipc_protocol = HostToVfs | HostToVfsAsync | VfsToUart | VfsToUartAsync

fun ipc_protocol_raw :: "ipc_protocol \<Rightarrow> u64" where
  "ipc_protocol_raw HostToVfs = 0x6C78766673"
| "ipc_protocol_raw HostToVfsAsync = 0x6C7876667361"
| "ipc_protocol_raw VfsToUart = 0x6C78756172"
| "ipc_protocol_raw VfsToUartAsync = 0x6C7875617261"

datatype vfs_op =
    VfsInit | VfsProcInit | VfsProcFork | VfsProcExit | VfsOpen | VfsClose | VfsDup | VfsRead | VfsWrite | VfsFstat
  | VfsChdir | VfsPipe | VfsUnlink | VfsMkdir | VfsExecOpen | VfsExecRead | VfsExecClose | VfsGetcwd | VfsLseek

definition vfs_op_from_raw :: "u64 \<Rightarrow> vfs_op option" where
  "vfs_op_from_raw v =
     (if v = 0 then Some VfsInit else if v = 1 then Some VfsProcInit else if v = 2 then Some VfsProcFork
      else if v = 3 then Some VfsProcExit else if v = 4 then Some VfsOpen else if v = 5 then Some VfsClose
      else if v = 6 then Some VfsDup else if v = 7 then Some VfsRead else if v = 8 then Some VfsWrite
      else if v = 9 then Some VfsFstat else if v = 10 then Some VfsChdir else if v = 11 then Some VfsPipe
      else if v = 12 then Some VfsUnlink else if v = 13 then Some VfsMkdir else if v = 14 then Some VfsExecOpen
      else if v = 15 then Some VfsExecRead else if v = 16 then Some VfsExecClose else if v = 17 then Some VfsGetcwd
      else if v = 18 then Some VfsLseek else None)"

datatype uart_op = UartInit | UartPutChar | UartGetChar

fun uart_op_raw :: "uart_op \<Rightarrow> u64" where
  "uart_op_raw UartInit = 0"
| "uart_op_raw UartPutChar = 1"
| "uart_op_raw UartGetChar = 2"

section \<open>Flags and packed words\<close>

definition open_readable :: "u32 \<Rightarrow> bool" where
  "open_readable flags \<longleftrightarrow> flags AND O_ACCMODE \<noteq> O_WRONLY"

definition open_writable :: "u32 \<Rightarrow> bool" where
  "open_writable flags \<longleftrightarrow> flags AND O_ACCMODE = O_WRONLY \<or> flags AND O_ACCMODE = O_RDWR"

definition pack_stat_kind_nlink :: "u16 \<Rightarrow> u16 \<Rightarrow> u64" where
  "pack_stat_kind_nlink kind nlink = ucast kind OR push_bit 16 (ucast nlink)"

definition unpack_stat_kind :: "u64 \<Rightarrow> u16" where "unpack_stat_kind v = ucast v"
definition unpack_stat_nlink :: "u64 \<Rightarrow> u16" where "unpack_stat_nlink v = ucast (drop_bit 16 v)"

lemma unpack_pack_stat:
  "unpack_stat_kind (pack_stat_kind_nlink k n) = k" "unpack_stat_nlink (pack_stat_kind_nlink k n) = n"
  unfolding unpack_stat_kind_def unpack_stat_nlink_def pack_stat_kind_nlink_def
  by (rule bit_word_eqI; auto simp: bit_simps dest: bit_imp_le_length)+

section \<open>Fallible operations of the server\<close>

text \<open>
  An operation answers an error number or a value, and the new state; \<open>None\<close> is a panic, which stops
  the server.
\<close>

type_synonym ('s, 'a) fallible = "((int + 'a) \<times> 's) option"

definition ok_with :: "'a \<Rightarrow> 's \<Rightarrow> ('s, 'a) fallible" where "ok_with a s = Some (Inr a, s)"
definition err_with :: "int \<Rightarrow> 's \<Rightarrow> ('s, 'a) fallible" where "err_with e s = Some (Inl e, s)"

definition and_then :: "('s, 'a) fallible \<Rightarrow> ('a \<Rightarrow> 's \<Rightarrow> ('s, 'b) fallible) \<Rightarrow> ('s, 'b) fallible" where
  "and_then m f = (case m of None \<Rightarrow> None | Some (Inl e, s) \<Rightarrow> Some (Inl e, s) | Some (Inr a, s) \<Rightarrow> f a s)"

lemma and_then_simps [simp]:
  "and_then None f = None" "and_then (Some (Inl e, s)) f = Some (Inl e, s)" "and_then (Some (Inr a, s)) f = f a s"
  "and_then (ok_with a s) f = f a s" "and_then (err_with e s) f = Some (Inl e, s)"
  by (simp_all add: and_then_def ok_with_def err_with_def)

lemma and_then_ok:
  "and_then m f = Some (Inr b, s') \<longleftrightarrow> (\<exists>a s. m = Some (Inr a, s) \<and> f a s = Some (Inr b, s'))"
  by (auto simp: and_then_def split: option.splits sum.splits prod.splits)

lemma and_then_Some:
  "and_then m f = Some (r, s') \<longleftrightarrow>
     (\<exists>e. m = Some (Inl e, s') \<and> r = Inl e) \<or> (\<exists>a s. m = Some (Inr a, s) \<and> f a s = Some (r, s'))"
  by (auto simp: and_then_def split: option.splits sum.splits prod.splits)

end
