(* ===== verification/Vfs_Ramfs.thy ===== *)
theory Vfs_Ramfs
  imports Vfs_Abi
begin

text \<open>
  The in-memory file system of the file server (\<^verbatim>\<open>userspace/vfs-server/src/ramfs.rs\<close>): inodes, directory
  entries and data pages in fixed arrays, path resolution, creation and removal, reading and writing.

  The arrays are functions on indices; an index that the source does not check itself is checked here, and
  answers a panic. The array of page numbers of a file is the list of its valid entries, the name of an entry
  the list of its valid bytes. The archive with the initial files is generated by the build and is the
  parameter \<open>rootfs\<close>.
\<close>

section \<open>State\<close>

definition MAX_INODES :: nat where "MAX_INODES = 256"
definition MAX_DIR_ENTRIES :: nat where "MAX_DIR_ENTRIES = 1024"
definition NAME_MAX :: nat where "NAME_MAX = 64"
definition MAX_DATA_PAGES :: nat where "MAX_DATA_PAGES = 128"
definition PAGE :: nat where "PAGE = 4096"
definition MAX_FILE_PAGES :: nat where "MAX_FILE_PAGES = 256"

datatype inode_data = NoData | Embedded nat nat | Pages "nat list"

record inode =
  in_used :: bool
  in_kind :: file_kind
  in_nlink :: nat
  in_refs :: nat
  in_mode :: u32
  in_size :: nat
  in_parent :: nat
  in_src :: inode_data

definition inode_empty :: inode where
  "inode_empty = \<lparr> in_used = False, in_kind = RegularFile, in_nlink = 0, in_refs = 0, in_mode = 0, in_size = 0,
     in_parent = 0, in_src = NoData \<rparr>"

record dirent =
  de_used :: bool
  de_parent :: nat
  de_child :: nat
  de_name :: "u8 list"

definition dirent_empty :: dirent where
  "dirent_empty = \<lparr> de_used = False, de_parent = 0, de_child = 0, de_name = [] \<rparr>"

record ramfs =
  inodes :: "nat \<Rightarrow> inode"
  dirents :: "nat \<Rightarrow> dirent"
  pages :: "nat \<Rightarrow> nat \<Rightarrow> u8"
  page_used :: "nat \<Rightarrow> bool"

definition ramfs_new :: ramfs where
  "ramfs_new = \<lparr> inodes = (\<lambda>_. inode_empty), dirents = (\<lambda>_. dirent_empty), pages = (\<lambda>_ _. 0), page_used = (\<lambda>_. False) \<rparr>"

definition upd_inode :: "nat \<Rightarrow> (inode \<Rightarrow> inode) \<Rightarrow> ramfs \<Rightarrow> ramfs" where
  "upd_inode i f fs = fs\<lparr> inodes := (inodes fs)(i := f (inodes fs i)) \<rparr>"

definition fs_reset :: "ramfs \<Rightarrow> ramfs" where
  "fs_reset fs = fs\<lparr> inodes := (\<lambda>i. if i < MAX_INODES then inode_empty else inodes fs i),
     dirents := (\<lambda>i. if i < MAX_DIR_ENTRIES then dirent_empty else dirents fs i),
     page_used := (\<lambda>i. if i < MAX_DATA_PAGES then False else page_used fs i) \<rparr>"

definition init_root :: "ramfs \<Rightarrow> bool \<times> ramfs" where
  "init_root fs =
     (if MAX_INODES \<le> ROOT_INO then (False, fs)
      else (True, upd_inode ROOT_INO (\<lambda>_. \<lparr> in_used = True, in_kind = Directory, in_nlink = 2, in_refs = 1,
              in_mode = S_IFDIR OR 0x1ED, in_size = 0, in_parent = ROOT_INO, in_src = NoData \<rparr>) fs))"

definition inode_of :: "ramfs \<Rightarrow> nat \<Rightarrow> inode option" where
  "inode_of fs inum = (if inum < MAX_INODES \<and> in_used (inodes fs inum) then Some (inodes fs inum) else None)"

definition retain :: "nat \<Rightarrow> ramfs \<Rightarrow> bool \<times> ramfs" where
  "retain inum fs =
     (if MAX_INODES \<le> inum \<or> \<not> in_used (inodes fs inum) \<or> in_refs (inodes fs inum) = 65535 then (False, fs)
      else (True, upd_inode inum (\<lambda>x. x\<lparr> in_refs := in_refs x + 1 \<rparr>) fs))"

definition release :: "nat \<Rightarrow> ramfs \<Rightarrow> bool \<times> ramfs" where
  "release inum fs =
     (if MAX_INODES \<le> inum \<or> \<not> in_used (inodes fs inum) then (False, fs)
      else (True, upd_inode inum (\<lambda>x. if 0 < in_refs x then x\<lparr> in_refs := in_refs x - 1 \<rparr> else x) fs))"

section \<open>Path resolution\<close>

definition slash :: u8 where "slash = 0x2F"
definition dot :: u8 where "dot = 0x2E"

definition name_eq :: "dirent \<Rightarrow> u8 list \<Rightarrow> bool" where
  "name_eq d name \<longleftrightarrow> length (de_name d) = length name \<and> de_name d = name"

definition matching :: "ramfs \<Rightarrow> nat \<Rightarrow> u8 list \<Rightarrow> nat \<Rightarrow> bool" where
  "matching fs dir name i \<longleftrightarrow> de_used (dirents fs i) \<and> de_parent (dirents fs i) = dir \<and> name_eq (dirents fs i) name"

definition lookup :: "ramfs \<Rightarrow> nat \<Rightarrow> u8 list \<Rightarrow> nat option" where
  "lookup fs dir name = map_option (\<lambda>i. de_child (dirents fs i)) (find (matching fs dir name) [0..<MAX_DIR_ENTRIES])"

lemma path_rest_shorter:
  assumes "dropWhile (\<lambda>b. b = slash) path \<noteq> []"
  shows "length (dropWhile (\<lambda>b. b \<noteq> slash) (dropWhile (\<lambda>b. b = slash) path)) < length path"
proof -
  obtain b bs where b: "dropWhile (\<lambda>b. b = slash) path = b # bs" using assms by (meson neq_Nil_conv)
  then have "b \<noteq> slash" using hd_dropWhile [of "\<lambda>b. b = slash" path] by simp
  then have "length (dropWhile (\<lambda>b. b \<noteq> slash) (b # bs)) \<le> length bs" using length_dropWhile_le [of _ bs] by simp
  moreover have "length (b # bs) \<le> length path" using length_dropWhile_le [of "\<lambda>b. b = slash" path] b by simp
  ultimately show ?thesis unfolding b by simp
qed

function walk_from :: "ramfs \<Rightarrow> nat \<Rightarrow> u8 list \<Rightarrow> int + nat" where
  "walk_from fs cur path =
     (let p = dropWhile (\<lambda>b. b = slash) path in
      if p = [] then Inr cur
      else
        let name = takeWhile (\<lambda>b. b \<noteq> slash) p; rest = dropWhile (\<lambda>b. b \<noteq> slash) p in
        if name = [dot] then walk_from fs cur rest
        else if name = [dot, dot] then walk_from fs (case inode_of fs cur of Some node \<Rightarrow> in_parent node | None \<Rightarrow> cur) rest
        else case lookup fs cur name of None \<Rightarrow> Inl ENOENT | Some c \<Rightarrow> walk_from fs c rest)"
  by pat_completeness auto
termination by (relation "measure (\<lambda>(_, _, path). length path)") (auto intro: path_rest_shorter)

definition walk :: "ramfs \<Rightarrow> u8 list \<Rightarrow> int + nat" where
  "walk fs path = (if path = [] then Inl ENOENT else walk_from fs ROOT_INO path)"

definition split_parent :: "ramfs \<Rightarrow> u8 list \<Rightarrow> (nat \<times> u8 list) option" where
  "split_parent fs path =
     (if path = [] then None
      else
        let stripped = rev (dropWhile (\<lambda>b. b = slash) (rev path)) in
        if stripped = [] then Some (ROOT_INO, [])
        else
          let name = rev (takeWhile (\<lambda>b. b \<noteq> slash) (rev stripped));
              start = length stripped - length name;
              parent_path = (if start \<le> 1 then [slash] else take (start - 1) path)
          in case walk fs parent_path of Inl _ \<Rightarrow> None | Inr parent \<Rightarrow> Some (parent, name))"

declare walk_from.simps [simp del]

section \<open>Data pages\<close>

definition free_inode_data :: "nat \<Rightarrow> ramfs \<Rightarrow> ramfs" where
  "free_inode_data inum fs =
     (let fs1 = (case in_src (inodes fs inum) of
                   Pages ps \<Rightarrow> fs\<lparr> page_used := (\<lambda>p. if p \<in> set ps \<and> p < MAX_DATA_PAGES then False else page_used fs p) \<rparr>
                 | _ \<Rightarrow> fs)
      in upd_inode inum (\<lambda>x. x\<lparr> in_src := NoData, in_size := 0 \<rparr>) fs1)"

definition alloc_page :: "ramfs \<Rightarrow> (ramfs, nat) fallible" where
  "alloc_page fs = (case find (\<lambda>i. \<not> page_used fs i) [0..<MAX_DATA_PAGES] of
     Some i \<Rightarrow> ok_with i (fs\<lparr> page_used := (page_used fs)(i := True), pages := (pages fs)(i := (\<lambda>_. 0)) \<rparr>)
   | None \<Rightarrow> err_with ENOSPC fs)"

definition truncate_inode :: "nat \<Rightarrow> ramfs \<Rightarrow> ramfs" where
  "truncate_inode inum fs = upd_inode inum (\<lambda>x. x\<lparr> in_size := 0, in_src := Pages [] \<rparr>) (free_inode_data inum fs)"

text \<open>Reading: the answer is the bytes that are copied to the caller's buffer.\<close>

function read_pages :: "ramfs \<Rightarrow> nat list \<Rightarrow> nat \<Rightarrow> nat \<Rightarrow> u8 list option" where
  "read_pages fs ps pos n =
     (if n = 0 then Some []
      else if length ps \<le> pos div PAGE then Some []
      else
        let page = ps ! (pos div PAGE); inner = pos mod PAGE; chunk = min n (PAGE - inner) in
        if MAX_DATA_PAGES \<le> page then None
        else map_option (\<lambda>rest. map (pages fs page) [inner..<inner + chunk] @ rest) (read_pages fs ps (pos + chunk) (n - chunk)))"
  by pat_completeness auto
termination by (relation "measure (\<lambda>(_, _, _, n). n)") (auto simp: PAGE_def)

definition read_inode :: "u8 list \<Rightarrow> nat \<Rightarrow> nat \<Rightarrow> nat \<Rightarrow> ramfs \<Rightarrow> (int + u8 list) option" where
  "read_inode rootfs inum offset len fs = (case inode_of fs inum of
     None \<Rightarrow> Some (Inl ENOENT)
   | Some node \<Rightarrow>
       if in_size node \<le> offset then Some (Inr [])
       else
         let n = min len (in_size node - offset) in
         case in_src node of
           Embedded base _ \<Rightarrow>
             if base + offset + n \<le> length rootfs then Some (Inr (take n (drop (base + offset) rootfs))) else None
         | Pages ps \<Rightarrow> map_option Inr (read_pages fs ps offset n)
         | NoData \<Rightarrow> Some (Inr []))"

text \<open>
  Writing. Missing pages are appended one by one, each recorded in the inode at once; then the file is written
  page by page.
\<close>

primrec grow_pages :: "nat \<Rightarrow> nat \<Rightarrow> nat list \<Rightarrow> ramfs \<Rightarrow> (ramfs, nat list) fallible" where
  "grow_pages inum 0 ps fs = ok_with ps fs"
| "grow_pages inum (Suc k) ps fs =
     and_then (alloc_page fs) (\<lambda>page fs.
       grow_pages inum k (ps @ [page]) (upd_inode inum (\<lambda>x. x\<lparr> in_src := Pages (ps @ [page]) \<rparr>) fs))"

definition store_bytes :: "nat \<Rightarrow> nat \<Rightarrow> u8 list \<Rightarrow> ramfs \<Rightarrow> ramfs" where
  "store_bytes page inner bs fs = fs\<lparr> pages := (pages fs)(page :=
     (\<lambda>k. if inner \<le> k \<and> k < inner + length bs then bs ! (k - inner) else pages fs page k)) \<rparr>"

function write_pages :: "nat \<Rightarrow> nat list \<Rightarrow> nat \<Rightarrow> u8 list \<Rightarrow> ramfs \<Rightarrow> (ramfs, unit) fallible" where
  "write_pages inum ps pos src fs =
     (if src = [] then ok_with () fs
      else if MAX_FILE_PAGES \<le> pos div PAGE then err_with ENOSPC fs
      else and_then (grow_pages inum (Suc (pos div PAGE) - length ps) ps fs) (\<lambda>ps fs.
        let page = ps ! (pos div PAGE); inner = pos mod PAGE; chunk = min (length src) (PAGE - inner) in
        if MAX_DATA_PAGES \<le> page then None
        else write_pages inum ps (pos + chunk) (drop chunk src) (store_bytes page inner (take chunk src) fs)))"
  by pat_completeness auto
termination by (relation "measure (\<lambda>(_, _, _, src, _). length src)") (auto simp: PAGE_def)

declare read_pages.simps [simp del] write_pages.simps [simp del]

text \<open>
  \<^verbatim>\<open>write_inode\<close> and \<^verbatim>\<open>make_writable\<close> call each other: an embedded file is first copied to pages, by writes
  that find it on pages already. The recursion is unrolled to this depth; \<open>make_writable_eq\<close> below gives back
  the equation of the source.
\<close>

definition write_inode_by :: "(nat \<Rightarrow> ramfs \<Rightarrow> (ramfs, unit) fallible) \<Rightarrow> nat \<Rightarrow> nat \<Rightarrow> u8 list \<Rightarrow> ramfs \<Rightarrow> (ramfs, nat) fallible" where
  "write_inode_by mk inum offset src fs =
     and_then (mk inum fs) (\<lambda>_ fs.
       let node = inodes fs inum in
       if \<not> in_used node \<or> in_kind node \<noteq> RegularFile then err_with EISDIR fs
       else
         let end = min (offset + length src) (2 ^ 64 - 1);
             fs1 = (if in_size node < end then upd_inode inum (\<lambda>x. x\<lparr> in_size := end \<rparr>) fs else fs)
         in case in_src node of
              Pages ps \<Rightarrow> and_then (write_pages inum ps offset src fs1) (\<lambda>_ fs. ok_with (length src) fs)
            | _ \<Rightarrow> err_with ENOMEM fs1)"

function copy_embedded :: "(nat \<Rightarrow> nat \<Rightarrow> u8 list \<Rightarrow> ramfs \<Rightarrow> (ramfs, nat) fallible) \<Rightarrow> u8 list \<Rightarrow> nat \<Rightarrow> nat \<Rightarrow> nat \<Rightarrow> nat
    \<Rightarrow> ramfs \<Rightarrow> (ramfs, unit) fallible" where
  "copy_embedded wr rootfs inum offset len copied fs =
     (if len \<le> copied then ok_with () fs
      else
        let chunk = min (len - copied) 512 in
        if length rootfs < offset + copied + chunk then None
        else and_then (wr inum copied (take chunk (drop (offset + copied) rootfs)) fs) (\<lambda>_ fs.
          copy_embedded wr rootfs inum offset len (copied + chunk) fs))"
  by pat_completeness auto
termination by (relation "measure (\<lambda>(_, _, _, _, len, copied, _). len - copied)") auto

declare copy_embedded.simps [simp del]

definition make_writable_by :: "(nat \<Rightarrow> nat \<Rightarrow> u8 list \<Rightarrow> ramfs \<Rightarrow> (ramfs, nat) fallible) \<Rightarrow> u8 list \<Rightarrow> nat \<Rightarrow> ramfs
    \<Rightarrow> (ramfs, unit) fallible" where
  "make_writable_by wr rootfs inum fs = (case inode_of fs inum of
     None \<Rightarrow> err_with ENOENT fs
   | Some node \<Rightarrow>
       (case in_src node of
          Pages _ \<Rightarrow> ok_with () fs
        | NoData \<Rightarrow> ok_with () (upd_inode inum (\<lambda>x. x\<lparr> in_src := Pages [] \<rparr>) fs)
        | Embedded offset len \<Rightarrow>
            copy_embedded wr rootfs inum offset len 0 (upd_inode inum (\<lambda>x. x\<lparr> in_src := Pages [], in_size := 0 \<rparr>) fs)))"

definition write_resident :: "u8 list \<Rightarrow> nat \<Rightarrow> nat \<Rightarrow> u8 list \<Rightarrow> ramfs \<Rightarrow> (ramfs, nat) fallible" where
  "write_resident rootfs = write_inode_by (make_writable_by (\<lambda>_ _ _ _. None) rootfs)"

definition make_writable :: "u8 list \<Rightarrow> nat \<Rightarrow> ramfs \<Rightarrow> (ramfs, unit) fallible" where
  "make_writable rootfs = make_writable_by (write_resident rootfs) rootfs"

definition write_inode :: "u8 list \<Rightarrow> nat \<Rightarrow> nat \<Rightarrow> u8 list \<Rightarrow> ramfs \<Rightarrow> (ramfs, nat) fallible" where
  "write_inode rootfs = write_inode_by (make_writable rootfs)"

section \<open>Creating and removing\<close>

definition alloc_inode :: "file_kind \<Rightarrow> u32 \<Rightarrow> nat \<Rightarrow> ramfs \<Rightarrow> (ramfs, nat) fallible" where
  "alloc_inode kind mode parent fs = (case find (\<lambda>i. \<not> in_used (inodes fs i)) [1..<MAX_INODES] of
     Some i \<Rightarrow> ok_with i (upd_inode i (\<lambda>_. \<lparr> in_used = True, in_kind = kind, in_nlink = (if kind = Directory then 2 else 1),
       in_refs = 0, in_mode = mode, in_size = 0, in_parent = parent, in_src = NoData \<rparr>) fs)
   | None \<Rightarrow> err_with ENOSPC fs)"

definition add_dirent :: "nat \<Rightarrow> nat \<Rightarrow> u8 list \<Rightarrow> ramfs \<Rightarrow> (ramfs, unit) fallible" where
  "add_dirent parent child name fs = (case find (\<lambda>i. \<not> de_used (dirents fs i)) [0..<MAX_DIR_ENTRIES] of
     Some i \<Rightarrow> ok_with () (fs\<lparr> dirents := (dirents fs)(i :=
       \<lparr> de_used = True, de_parent = parent, de_child = child, de_name = name \<rparr>) \<rparr>)
   | None \<Rightarrow> err_with ENOSPC fs)"

definition remove_dirent :: "nat \<Rightarrow> u8 list \<Rightarrow> ramfs \<Rightarrow> (ramfs, unit) fallible" where
  "remove_dirent parent name fs = (case find (matching fs parent name) [0..<MAX_DIR_ENTRIES] of
     Some i \<Rightarrow> ok_with () (fs\<lparr> dirents := (dirents fs)(i := dirent_empty) \<rparr>)
   | None \<Rightarrow> err_with ENOENT fs)"

definition dir_empty :: "ramfs \<Rightarrow> nat \<Rightarrow> bool" where
  "dir_empty fs dir \<longleftrightarrow> list_all (\<lambda>i. \<not> (de_used (dirents fs i) \<and> de_parent (dirents fs i) = dir)) [0..<MAX_DIR_ENTRIES]"

definition create_file :: "nat \<Rightarrow> u8 list \<Rightarrow> file_kind \<Rightarrow> u32 \<Rightarrow> ramfs \<Rightarrow> (ramfs, nat) fallible" where
  "create_file parent name kind mode fs =
     (if length name = 0 \<or> NAME_MAX < length name then err_with EINVAL fs
      else if lookup fs parent name \<noteq> None then err_with EEXIST fs
      else case inode_of fs parent of
        None \<Rightarrow> err_with ENOENT fs
      | Some parent_node \<Rightarrow>
          if in_kind parent_node \<noteq> Directory then err_with ENOTDIR fs
          else
            and_then (alloc_inode kind mode parent fs) (\<lambda>inum fs.
            and_then (add_dirent parent inum name fs) (\<lambda>_ fs.
            ok_with inum (if kind = Directory
              then upd_inode parent (\<lambda>x. x\<lparr> in_nlink := min 65535 (in_nlink x + 1) \<rparr>) fs else fs))))"

definition plain_name :: "u8 list \<Rightarrow> bool" where
  "plain_name name \<longleftrightarrow> name \<noteq> [] \<and> name \<noteq> [dot] \<and> name \<noteq> [dot, dot]"

definition wants_file_write :: "u32 \<Rightarrow> bool" where
  "wants_file_write flags = open_writable flags"

definition open_existing :: "nat \<Rightarrow> u32 \<Rightarrow> ramfs \<Rightarrow> (ramfs, nat \<times> file_kind \<times> nat) fallible" where
  "open_existing inum flags fs =
     (if flags AND O_EXCL \<noteq> 0 \<and> flags AND O_CREAT \<noteq> 0 then err_with EEXIST fs
      else case inode_of fs inum of
        None \<Rightarrow> err_with ENOENT fs
      | Some node \<Rightarrow>
          if flags AND O_DIRECTORY \<noteq> 0 \<and> in_kind node \<noteq> Directory then err_with ENOTDIR fs
          else if in_kind node = Directory \<and> (flags AND O_TRUNC \<noteq> 0 \<or> wants_file_write flags) then err_with EISDIR fs
          else
            let fs1 = (if flags AND O_TRUNC \<noteq> 0 \<and> in_kind node = RegularFile then truncate_inode inum fs else fs);
                fs2 = snd (retain inum fs1)
            in case inode_of fs2 inum of
                 None \<Rightarrow> err_with ENOENT fs2
               | Some node \<Rightarrow> ok_with (inum, in_kind node, in_size node) fs2)"

definition open_path :: "u8 list \<Rightarrow> u32 \<Rightarrow> ramfs \<Rightarrow> (ramfs, nat \<times> file_kind \<times> nat) fallible" where
  "open_path path flags fs = (case walk fs path of
     Inr inum \<Rightarrow> open_existing inum flags fs
   | Inl e \<Rightarrow>
       if e = ENOENT \<and> flags AND O_CREAT \<noteq> 0 then
         (case split_parent fs path of
            None \<Rightarrow> err_with ENOENT fs
          | Some (parent, name) \<Rightarrow>
              if \<not> plain_name name then err_with EINVAL fs
              else and_then (create_file parent name RegularFile (S_IFREG OR 0x1A4) fs) (\<lambda>inum fs.
                ok_with (inum, RegularFile, 0) (snd (retain inum fs))))
       else err_with e fs)"

definition mkdir :: "u8 list \<Rightarrow> ramfs \<Rightarrow> (ramfs, nat) fallible" where
  "mkdir path fs = (case walk fs path of
     Inr _ \<Rightarrow> err_with EEXIST fs
   | Inl _ \<Rightarrow>
       (case split_parent fs path of
          None \<Rightarrow> err_with ENOENT fs
        | Some (parent, name) \<Rightarrow>
            if \<not> plain_name name then err_with EINVAL fs
            else create_file parent name Directory (S_IFDIR OR 0x1ED) fs))"

definition drop_link :: "nat \<Rightarrow> ramfs \<Rightarrow> ramfs" where
  "drop_link inum fs =
     (let fs1 = upd_inode inum (\<lambda>x. if 0 < in_nlink x then x\<lparr> in_nlink := in_nlink x - 1 \<rparr> else x) fs;
          node = inodes fs1 inum
      in if in_nlink node = 0 \<and> in_refs node = 0 \<and> in_kind node \<noteq> Directory
         then upd_inode inum (\<lambda>_. inode_empty) (free_inode_data inum fs1) else fs1)"

definition unlink :: "u8 list \<Rightarrow> u32 \<Rightarrow> ramfs \<Rightarrow> (ramfs, unit) fallible" where
  "unlink path flags fs = (case walk fs path of
     Inl _ \<Rightarrow> err_with ENOENT fs
   | Inr inum \<Rightarrow>
       (case inode_of fs inum of
          None \<Rightarrow> err_with ENOENT fs
        | Some node \<Rightarrow>
            if flags AND AT_REMOVEDIR \<noteq> 0 \<and> in_kind node \<noteq> Directory then err_with ENOTDIR fs
            else if flags AND AT_REMOVEDIR \<noteq> 0 \<and> \<not> dir_empty fs inum then err_with ENOTEMPTY fs
            else if flags AND AT_REMOVEDIR = 0 \<and> in_kind node = Directory then err_with EISDIR fs
            else case split_parent fs path of
              None \<Rightarrow> err_with ENOENT fs
            | Some (parent, name) \<Rightarrow> and_then (remove_dirent parent name fs) (\<lambda>_ fs. ok_with () (drop_link inum fs))))"

definition ensure_dir :: "u8 list \<Rightarrow> ramfs \<Rightarrow> (ramfs, nat) fallible" where
  "ensure_dir path fs = (case walk fs path of
     Inr inum \<Rightarrow>
       (case inode_of fs inum of
          None \<Rightarrow> err_with ENOENT fs
        | Some node \<Rightarrow> if in_kind node \<noteq> Directory then err_with ENOTDIR fs else ok_with inum fs)
   | Inl e \<Rightarrow> if e = ENOENT then mkdir path fs else err_with e fs)"

definition ascii :: "string \<Rightarrow> u8 list" where
  "ascii cs = map (\<lambda>c. of_nat (of_char c)) cs"

definition dev_inum :: "ramfs \<Rightarrow> nat" where
  "dev_inum fs = (case walk fs (ascii ''/dev'') of Inr i \<Rightarrow> i | Inl _ \<Rightarrow> ROOT_INO)"

definition install_console :: "ramfs \<Rightarrow> (ramfs, nat) fallible" where
  "install_console fs = (case walk fs (ascii ''/dev/console'') of
     Inr inum \<Rightarrow> ok_with inum fs
   | Inl _ \<Rightarrow> and_then (ensure_dir (ascii ''/dev'') fs) (\<lambda>_ fs.
       if CONSOLE_INO < MAX_INODES \<and> \<not> in_used (inodes fs CONSOLE_INO) then
         (let fs1 = upd_inode CONSOLE_INO (\<lambda>_. \<lparr> in_used = True, in_kind = Device, in_nlink = 1, in_refs = 0,
                in_mode = S_IFCHR OR 0x1B6, in_size = 0, in_parent = dev_inum fs, in_src = NoData \<rparr>) fs
          in and_then (add_dirent (dev_inum fs1) CONSOLE_INO (ascii ''console'') fs1) (\<lambda>_ fs. ok_with CONSOLE_INO fs))
       else create_file (dev_inum fs) (ascii ''console'') Device (S_IFCHR OR 0x1B6) fs))"

definition embed_file :: "u8 list \<Rightarrow> nat \<Rightarrow> nat \<Rightarrow> u32 \<Rightarrow> ramfs \<Rightarrow> (ramfs, nat) fallible" where
  "embed_file path offset len mode fs = (case walk fs path of
     Inr inum \<Rightarrow> ok_with inum fs
   | Inl _ \<Rightarrow>
       (case split_parent fs path of
          None \<Rightarrow> err_with ENOENT fs
        | Some (parent, name) \<Rightarrow>
            if name = [] then ok_with parent fs
            else if MAX_INODES \<le> parent then None
            else if \<not> in_used (inodes fs parent) then err_with ENOENT fs
            else and_then (create_file parent name RegularFile (mode OR S_IFREG) fs) (\<lambda>inum fs.
              ok_with inum (upd_inode inum (\<lambda>x. x\<lparr> in_size := len, in_src := Embedded offset len \<rparr>) fs))))"

definition embed_dir :: "u8 list \<Rightarrow> ramfs \<Rightarrow> (ramfs, nat) fallible" where
  "embed_dir path fs = ensure_dir path fs"

section \<open>Offsets and paths in messages\<close>

definition as_isize :: "nat \<Rightarrow> int" where
  "as_isize n = (if n < 2 ^ 63 then int n else int n - 2 ^ 64)"

definition saturate_isize :: "int \<Rightarrow> int" where
  "saturate_isize i = max (- (2 ^ 63)) (min (2 ^ 63 - 1) i)"

definition seek :: "nat \<Rightarrow> nat \<Rightarrow> int \<Rightarrow> u64 \<Rightarrow> ramfs \<Rightarrow> int + nat" where
  "seek inum current offset whence fs = (case inode_of fs inum of
     None \<Rightarrow> Inl ENOENT
   | Some node \<Rightarrow>
       let w = (ucast whence :: u32);
           base = (if w = SEEK_SET then Some 0 else if w = SEEK_CUR then Some (as_isize current)
                   else if w = SEEK_END then Some (as_isize (in_size node)) else None)
       in case base of
            None \<Rightarrow> Inl EINVAL
          | Some b \<Rightarrow> let nxt = saturate_isize (b + offset) in if nxt < 0 then Inl EINVAL else Inr (nat nxt))"

text \<open>\<open>None\<close> is the panic of an index beyond the message, \<open>Some None\<close> a path that is empty or too long.\<close>

definition path_from_words :: "u64 list \<Rightarrow> nat \<Rightarrow> nat \<Rightarrow> u8 list option option" where
  "path_from_words words start len =
     (if len = 0 \<or> MAX_PATH_BYTES < len then Some None
      else if length words \<le> start + (len - 1) div 8 then None
      else Some (Some (map (\<lambda>i. ucast (drop_bit (i mod 8 * 8) (words ! (start + i div 8)) AND 0xFF)) [0..<len])))"

end
