(* ===== verification/Vfs_Data.thy ===== *)
theory Vfs_Data
  imports Vfs_Ramfs
begin

text \<open>
  File contents. Every data page belongs to at most one file, a file's pages hold zeroes past its end, and data in the
  archive lies within it: this is \<open>data_ok\<close>, kept by all operations on data, also by those that fail. On top of it,
  reading yields a part of the file's bytes, and writing replaces a part of them and leaves all other files alone.
\<close>

section \<open>Ownership of pages\<close>

definition owned :: "ramfs \<Rightarrow> nat \<Rightarrow> nat list" where
  "owned fs i = (if in_used (inodes fs i) then (case in_src (inodes fs i) of Pages ps \<Rightarrow> ps | _ \<Rightarrow> []) else [])"

definition file_byte :: "ramfs \<Rightarrow> nat list \<Rightarrow> nat \<Rightarrow> u8" where
  "file_byte fs ps k = pages fs (ps ! (k div PAGE)) (k mod PAGE)"

definition file_ok :: "nat \<Rightarrow> ramfs \<Rightarrow> nat \<Rightarrow> bool" where
  "file_ok L fs i \<longleftrightarrow> distinct (owned fs i) \<and> (\<forall>p \<in> set (owned fs i). p < MAX_DATA_PAGES \<and> page_used fs p) \<and>
     (\<forall>k. in_size (inodes fs i) \<le> k \<and> k < PAGE * length (owned fs i) \<longrightarrow> file_byte fs (owned fs i) k = 0) \<and>
     (in_used (inodes fs i) \<longrightarrow> (case in_src (inodes fs i) of
        Embedded off len \<Rightarrow> off + len \<le> L \<and> in_size (inodes fs i) = len \<and> in_kind (inodes fs i) = RegularFile
      | NoData \<Rightarrow> in_size (inodes fs i) = 0
      | Pages _ \<Rightarrow> True))"

definition data_ok :: "nat \<Rightarrow> ramfs \<Rightarrow> bool" where
  "data_ok L fs \<longleftrightarrow> (\<forall>i < MAX_INODES. file_ok L fs i) \<and>
     (\<forall>i < MAX_INODES. \<forall>j < MAX_INODES. i \<noteq> j \<longrightarrow> set (owned fs i) \<inter> set (owned fs j) = {})"

text \<open>A step that touches only the data of file \<open>i\<close>, and takes only pages that were free.\<close>

definition touches :: "nat \<Rightarrow> ramfs \<Rightarrow> ramfs \<Rightarrow> bool" where
  "touches i fs fs' \<longleftrightarrow> dirents fs' = dirents fs \<and> (\<forall>j. j \<noteq> i \<longrightarrow> inodes fs' j = inodes fs j) \<and>
     (\<exists>src n. inodes fs' i = (inodes fs i)\<lparr> in_src := src, in_size := n \<rparr>) \<and>
     (\<forall>p. page_used fs p \<and> p \<notin> set (owned fs i) \<longrightarrow> page_used fs' p \<and> pages fs' p = pages fs p) \<and>
     (\<forall>p \<in> set (owned fs' i). p \<in> set (owned fs i) \<or> \<not> page_used fs p)"

lemma touchesI:
  assumes "dirents fs' = dirents fs" "\<And>j. j \<noteq> i \<Longrightarrow> inodes fs' j = inodes fs j"
    "inodes fs' i = (inodes fs i)\<lparr> in_src := src, in_size := n \<rparr>"
    "\<And>p. page_used fs p \<Longrightarrow> p \<notin> set (owned fs i) \<Longrightarrow> page_used fs' p \<and> pages fs' p = pages fs p"
    "\<And>p. p \<in> set (owned fs' i) \<Longrightarrow> p \<in> set (owned fs i) \<or> \<not> page_used fs p"
  shows "touches i fs fs'"
  using assms unfolding touches_def by blast

lemma touches_refl [simp]: "touches i fs fs"
  unfolding touches_def by (auto intro!: exI [of _ "in_src (inodes fs i)"] exI [of _ "in_size (inodes fs i)"])

lemma touches_trans:
  assumes "touches i a b" "touches i b c"
  shows "touches i a c"
proof -
  have "\<exists>src n. inodes c i = (inodes a i)\<lparr> in_src := src, in_size := n \<rparr>" using assms by (fastforce simp: touches_def)
  then show ?thesis using assms unfolding touches_def by (metis (no_types, lifting))
qed

lemma data_ok_file: "data_ok L fs \<Longrightarrow> i < MAX_INODES \<Longrightarrow> file_ok L fs i"
  by (simp add: data_ok_def)

lemma data_ok_owned:
  assumes "data_ok L fs" "i < MAX_INODES" "p \<in> set (owned fs i)"
  shows "p < MAX_DATA_PAGES" "page_used fs p" "j < MAX_INODES \<Longrightarrow> j \<noteq> i \<Longrightarrow> p \<notin> set (owned fs j)"
  using assms unfolding data_ok_def file_ok_def by (blast, blast, metis disjoint_iff)

lemma page_index: "k < PAGE * n \<Longrightarrow> k div PAGE < n"
  by (simp add: PAGE_def less_mult_imp_div_less mult.commute)

lemma touches_data_ok:
  assumes "data_ok L fs" "touches i fs fs'" "file_ok L fs' i" "i < MAX_INODES"
  shows "data_ok L fs'"
proof -
  have inode: "inodes fs' j = inodes fs j" if "j \<noteq> i" for j using assms(2) that unfolding touches_def by blast
  then have other: "inodes fs' j = inodes fs j" "owned fs' j = owned fs j" if "j \<noteq> i" for j
    using that by (simp_all add: owned_def)
  have keep: "page_used fs' p \<and> pages fs' p = pages fs p" if "j < MAX_INODES" "j \<noteq> i" "p \<in> set (owned fs j)" for j p
  proof -
    have "page_used fs p" "p \<notin> set (owned fs i)" using data_ok_owned [OF assms(1) that(1,3)] assms(4) that(2) by auto
    then show ?thesis using assms(2) by (simp add: touches_def)
  qed
  have "file_ok L fs' j" if "j < MAX_INODES" for j
  proof (cases "j = i")
    case False
    have "file_byte fs' (owned fs j) k = file_byte fs (owned fs j) k" if "k < PAGE * length (owned fs j)" for k
      using keep [OF \<open>j < MAX_INODES\<close> False nth_mem] page_index [OF that] by (simp add: file_byte_def)
    then show ?thesis using data_ok_file [OF assms(1) that] keep [OF that False] unfolding file_ok_def other [OF False] by auto
  qed (use assms(3) in simp)
  moreover have new: "set (owned fs' i) \<inter> set (owned fs j) = {}" if "j < MAX_INODES" "j \<noteq> i" for j
    using assms(2) data_ok_owned [OF assms(1) that(1)] assms(4) that(2) unfolding touches_def by blast
  moreover have "set (owned fs' a) \<inter> set (owned fs' b) = {}" if "a < MAX_INODES" "b < MAX_INODES" "a \<noteq> b" for a b
    using that new [of a] new [of b] assms(1) other(2) [of a] other(2) [of b]
    by (cases "a = i"; cases "b = i") (auto simp: data_ok_def)
  ultimately show ?thesis by (simp add: data_ok_def)
qed

section \<open>Contents\<close>

text \<open>The bytes of a file, wherever they are, and what a write makes of them.\<close>

definition file_content :: "u8 list \<Rightarrow> ramfs \<Rightarrow> nat \<Rightarrow> u8 list" where
  "file_content rootfs fs i = (case in_src (inodes fs i) of
     NoData \<Rightarrow> []
   | Embedded off _ \<Rightarrow> take (in_size (inodes fs i)) (drop off rootfs)
   | Pages ps \<Rightarrow> map (file_byte fs ps) [0..<min (in_size (inodes fs i)) (PAGE * length ps)])"

text \<open>All of a file's bytes are there: no write to it has run out of space.\<close>

definition backed :: "ramfs \<Rightarrow> nat \<Rightarrow> bool" where
  "backed fs i \<longleftrightarrow> (case in_src (inodes fs i) of Pages ps \<Rightarrow> in_size (inodes fs i) \<le> PAGE * length ps | _ \<Rightarrow> True)"

definition overwrite :: "nat \<Rightarrow> 'a \<Rightarrow> 'a list \<Rightarrow> 'a list \<Rightarrow> 'a list" where
  "overwrite off zero src xs = take off (xs @ replicate (off - length xs) zero) @ src @ drop (off + length src) xs"

lemma length_overwrite [simp]: "length (overwrite off zero src xs) = max (length xs) (off + length src)"
  by (auto simp: overwrite_def)

lemma nth_overwrite:
  "overwrite off zero src xs ! k =
     (if k < off then (if k < length xs then xs ! k else zero)
      else if k < off + length src then src ! (k - off) else xs ! k)"
  if "k < max (length xs) (off + length src)"
  using that by (auto simp: overwrite_def nth_append min_def)

lemma touches_file_content:
  assumes "data_ok L fs" "touches i fs fs'" "i < MAX_INODES" "j < MAX_INODES" "j \<noteq> i" "in_used (inodes fs j)"
  shows "file_content rootfs fs' j = file_content rootfs fs j"
proof -
  have same: "inodes fs' j = inodes fs j" using assms by (simp add: touches_def)
  show ?thesis
  proof (cases "in_src (inodes fs j)")
    case (Pages ps)
    have own: "owned fs j = ps" using assms(6) Pages by (simp add: owned_def)
    have "pages fs' p = pages fs p" if "p \<in> set ps" for p
    proof -
      have "page_used fs p" "p \<notin> set (owned fs i)" using data_ok_owned [OF assms(1,4)] assms(3,5) that own by auto
      then show ?thesis using assms(2) by (simp add: touches_def)
    qed
    then have "file_byte fs' ps k = file_byte fs ps k" if "k < PAGE * length ps" for k
      using page_index [OF that] by (simp add: file_byte_def)
    then show ?thesis by (simp add: file_content_def same Pages)
  qed (simp_all add: file_content_def same)
qed

section \<open>Reading\<close>

lemma in_page:
  assumes "j < PAGE - pos mod PAGE"
  shows "(pos + j) div PAGE = pos div PAGE" "(pos + j) mod PAGE = pos mod PAGE + j"
proof -
  have "pos + j = PAGE * (pos div PAGE) + (pos mod PAGE + j)" by simp
  moreover have "pos mod PAGE + j < PAGE" using assms by simp
  ultimately show "(pos + j) div PAGE = pos div PAGE" "(pos + j) mod PAGE = pos mod PAGE + j"
    by (metis add.right_neutral add_diff_cancel_left' div_less div_mult_self4 less_nat_zero_code mod_less mod_mult_self4 mult_0)+
qed

lemma page_chunk:
  assumes "chunk \<le> PAGE - pos mod PAGE"
  shows "map (pages fs (ps ! (pos div PAGE))) [pos mod PAGE..<pos mod PAGE + chunk] = map (file_byte fs ps) [pos..<pos + chunk]"
  using assms in_page [of _ pos] by (auto simp: file_byte_def intro!: nth_equalityI)

lemma upt_split: "i \<le> j \<Longrightarrow> j \<le> k \<Longrightarrow> [i..<k] = [i..<j] @ [j..<k]"
  by (metis le_add_diff_inverse upt_add_eq_append)

lemma read_pages_eq:
  assumes "\<forall>p \<in> set ps. p < MAX_DATA_PAGES"
  shows "read_pages fs ps pos n = Some (map (file_byte fs ps) [pos..<min (pos + n) (PAGE * length ps)])"
  using assms
proof (induction fs ps pos n rule: read_pages.induct)
  case (1 fs ps pos n)
  show ?case
  proof (cases "n = 0 \<or> length ps \<le> pos div PAGE")
    case True
    have "PAGE * length ps \<le> pos" if "length ps \<le> pos div PAGE"
      using that by (metis div_le_mono less_eq_div_iff_mult_less_eq PAGE_def mult.commute zero_less_numeral)
    with True show ?thesis by (subst read_pages.simps) auto
  next
    case False
    define chunk where "chunk = min n (PAGE - pos mod PAGE)"
    have page: "ps ! (pos div PAGE) < MAX_DATA_PAGES" using 1(2) False by auto
    have chunk: "0 < chunk" "chunk \<le> n" "chunk \<le> PAGE - pos mod PAGE" using False by (auto simp: chunk_def PAGE_def)
    have "PAGE * (pos div PAGE) + pos mod PAGE = pos" by simp
    then have "pos + chunk \<le> PAGE * Suc (pos div PAGE)" using chunk(1,3) by (simp only: mult_Suc_right)
    also have "\<dots> \<le> PAGE * length ps" using False by (intro mult_le_mono2) simp
    finally have fits: "pos + chunk \<le> PAGE * length ps" .
    have IH: "read_pages fs ps (pos + chunk) (n - chunk) =
        Some (map (file_byte fs ps) [pos + chunk..<min (pos + chunk + (n - chunk)) (PAGE * length ps)])"
      using 1(1) [OF _ _ refl refl chunk_def] 1(2) False page by simp
    have "[pos..<min (pos + n) (PAGE * length ps)] =
        [pos..<pos + chunk] @ [pos + chunk..<min (pos + chunk + (n - chunk)) (PAGE * length ps)]"
      using fits chunk(2) by (subst upt_split [of pos "pos + chunk"]) simp_all
    then show ?thesis using False page chunk(1)
      by (subst read_pages.simps)
        (simp add: Let_def chunk_def [symmetric] page_chunk [OF chunk(3)] IH del: upt_Suc)
  qed
qed

lemma read_inode_eq:
  assumes "data_ok (length rootfs) fs" "inode_of fs i = Some node"
  shows "read_inode rootfs i off n fs = Some (Inr (take n (drop off (file_content rootfs fs i))))"
proof -
  have i: "i < MAX_INODES" "in_used (inodes fs i)" "node = inodes fs i"
    using assms(2) by (auto simp: inode_of_def split: if_splits)
  have ok: "file_ok (length rootfs) fs i" using assms(1) i(1) by (rule data_ok_file)
  show ?thesis
  proof (cases "in_src node")
    case NoData
    then show ?thesis using assms(2) ok i by (simp add: read_inode_def file_content_def file_ok_def)
  next
    case (Embedded b len)
    then have l: "b + len \<le> length rootfs" "in_size node = len" using ok i by (simp_all add: file_ok_def)
    show ?thesis
    proof (cases "len \<le> off")
      case False
      then have "b + off + min n (len - off) \<le> length rootfs" using l(1) by simp
      moreover have "take n (drop off (take len (drop b rootfs))) = take (min n (len - off)) (drop (b + off) rootfs)"
        by (simp add: drop_take min.commute add.commute)
      ultimately show ?thesis using assms(2) Embedded l(2) False i by (simp add: read_inode_def file_content_def Let_def)
    qed (use assms(2) Embedded l i in \<open>simp add: read_inode_def file_content_def\<close>)
  next
    case (Pages ps)
    then have "\<forall>p \<in> set ps. p < MAX_DATA_PAGES" using ok i by (simp add: file_ok_def owned_def)
    note rp = read_pages_eq [OF this]
    have "take n (drop off (map f [0..<m])) = map f [off..<min (off + n) m]" for f :: "nat \<Rightarrow> u8" and m
      by (simp add: take_map drop_map take_upt min_def)
    then show ?thesis using assms(2) Pages i
      by (simp add: read_inode_def file_content_def Let_def rp) (auto simp: min_def intro: arg_cong2 [where f = upt])
  qed
qed

section \<open>Writing\<close>

text \<open>File \<open>i\<close> is on the pages \<open>ps\<close>, in a sound state.\<close>

definition resident :: "nat \<Rightarrow> nat \<Rightarrow> nat list \<Rightarrow> ramfs \<Rightarrow> bool" where
  "resident L i ps fs \<longleftrightarrow> data_ok L fs \<and> i < MAX_INODES \<and> in_used (inodes fs i) \<and> in_src (inodes fs i) = Pages ps"

text \<open>Pages have been appended; outside \<open>lo..<hi\<close> old bytes are kept and new bytes are zero.\<close>

definition writes_at :: "nat \<Rightarrow> nat \<Rightarrow> ramfs \<Rightarrow> nat list \<Rightarrow> ramfs \<Rightarrow> nat list \<Rightarrow> bool" where
  "writes_at lo hi fs ps fs' ps' \<longleftrightarrow> length ps \<le> length ps' \<and> (\<forall>k < PAGE * length ps'. k < lo \<or> hi \<le> k \<longrightarrow>
     file_byte fs' ps' k = (if k < PAGE * length ps then file_byte fs ps k else 0))"

definition free_pages :: "ramfs \<Rightarrow> nat" where
  "free_pages fs = card {p. p < MAX_DATA_PAGES \<and> \<not> page_used fs p}"

lemma writes_at_trans:
  assumes "writes_at a b f p g q" "writes_at c d g q h r" "lo \<le> a" "lo \<le> c" "b \<le> hi" "d \<le> hi"
  shows "writes_at lo hi f p h r"
proof -
  have "file_byte h r k = (if k < PAGE * length p then file_byte f p k else 0)"
    if "k < PAGE * length r" "k < lo \<or> hi \<le> k" for k
  proof -
    have "k < c \<or> d \<le> k" "k < a \<or> b \<le> k" using that assms(3-6) by auto
    moreover have "k < PAGE * length q" if "k < PAGE * length p"
      using that assms(1) by (meson less_le_trans mult_le_mono2 writes_at_def)
    ultimately show ?thesis using assms(1,2) that(1) unfolding writes_at_def by (metis (full_types))
  qed
  then show ?thesis using assms(1,2) by (auto simp: writes_at_def)
qed

lemma residentD:
  assumes "resident L i ps fs"
  shows "owned fs i = ps" "distinct ps" "\<And>p. p \<in> set ps \<Longrightarrow> p < MAX_DATA_PAGES \<and> page_used fs p"
    "\<And>k. in_size (inodes fs i) \<le> k \<Longrightarrow> k < PAGE * length ps \<Longrightarrow> file_byte fs ps k = 0"
proof -
  show own: "owned fs i = ps" using assms by (simp add: resident_def owned_def)
  have "file_ok L fs i" using assms by (simp add: resident_def data_ok_file)
  then show "distinct ps" "\<And>p. p \<in> set ps \<Longrightarrow> p < MAX_DATA_PAGES \<and> page_used fs p"
    "\<And>k. in_size (inodes fs i) \<le> k \<Longrightarrow> k < PAGE * length ps \<Longrightarrow> file_byte fs ps k = 0"
    by (auto simp: file_ok_def own)
qed

lemma residentI:
  assumes "resident L i ps fs" "touches i fs fs'" "in_src (inodes fs' i) = Pages ps'" "distinct ps'"
    "\<And>p. p \<in> set ps' \<Longrightarrow> p < MAX_DATA_PAGES \<and> page_used fs' p"
    "\<And>k. in_size (inodes fs' i) \<le> k \<Longrightarrow> k < PAGE * length ps' \<Longrightarrow> file_byte fs' ps' k = 0"
  shows "resident L i ps' fs'"
proof -
  have i: "i < MAX_INODES" "data_ok L fs" "in_used (inodes fs i)" using assms(1) by (simp_all add: resident_def)
  obtain src n where "inodes fs' i = (inodes fs i)\<lparr> in_src := src, in_size := n \<rparr>" using assms(2) unfolding touches_def by blast
  then have used: "in_used (inodes fs' i)" using i(3) by simp
  then have "owned fs' i = ps'" using assms(3) by (simp add: owned_def)
  then have "file_ok L fs' i" using assms(3-6) by (simp add: file_ok_def)
  then show ?thesis using touches_data_ok [OF i(2) assms(2) _ i(1)] i(1) used assms(3) by (simp add: resident_def)
qed

text \<open>Appending one fresh page.\<close>

lemma alloc_page_cases:
  obtains p where "p < MAX_DATA_PAGES" "\<not> page_used fs p"
      "alloc_page fs = ok_with p (fs\<lparr> page_used := (page_used fs)(p := True), pages := (pages fs)(p := (\<lambda>_. 0)) \<rparr>)"
  | "alloc_page fs = err_with ENOSPC fs" "free_pages fs = 0"
proof (cases "find (\<lambda>i. \<not> page_used fs i) [0..<MAX_DATA_PAGES]")
  case None
  then have "free_pages fs = 0" by (auto simp: free_pages_def find_None_iff)
  then show thesis using None that(2) by (simp add: alloc_page_def)
next
  case (Some p)
  then have "p < MAX_DATA_PAGES" "\<not> page_used fs p" by (auto simp: find_Some_iff)
  then show thesis using Some that(1) by (simp add: alloc_page_def)
qed

lemma append_page:
  assumes "resident L i ps fs" "p < MAX_DATA_PAGES" "\<not> page_used fs p"
    and fs': "fs' = upd_inode i (\<lambda>x. x\<lparr> in_src := Pages (ps @ [p]) \<rparr>)
      (fs\<lparr> page_used := (page_used fs)(p := True), pages := (pages fs)(p := (\<lambda>_. 0)) \<rparr>)"
  shows "resident L i (ps @ [p]) fs'" "touches i fs fs'" "writes_at lo lo fs ps fs' (ps @ [p])"
    "Suc (free_pages fs') = free_pages fs"
proof -
  note r = residentD [OF assms(1)]
  have new: "p \<notin> set ps" using r(3) assms(3) by auto
  have ino: "inodes fs' i = (inodes fs i)\<lparr> in_src := Pages (ps @ [p]) \<rparr>" by (simp add: fs' upd_inode_def)
  have own: "owned fs' i = ps @ [p]" using assms(1) by (simp add: owned_def ino resident_def)
  have "\<exists>src n. inodes fs' i = (inodes fs i)\<lparr> in_src := src, in_size := n \<rparr>"
    using ino by (intro exI [of _ "Pages (ps @ [p])"] exI [of _ "in_size (inodes fs i)"]) simp
  then show t: "touches i fs fs'" using assms(3) unfolding touches_def own r(1) by (auto simp: fs' upd_inode_def)
  have byte: "file_byte fs' (ps @ [p]) k = (if k < PAGE * length ps then file_byte fs ps k else 0)"
    if "k < PAGE * length (ps @ [p])" for k
  proof (cases "k < PAGE * length ps")
    case True
    then have "k div PAGE < length ps" by (rule page_index)
    then have "ps ! (k div PAGE) \<noteq> p" using new by (metis nth_mem)
    then show ?thesis using True page_index [OF True] by (simp add: file_byte_def fs' upd_inode_def nth_append)
  next
    case False
    then have "k div PAGE = length ps" using page_index [OF that] by (simp add: PAGE_def)
    then show ?thesis using False by (simp add: file_byte_def fs' upd_inode_def nth_append)
  qed
  then show "writes_at lo lo fs ps fs' (ps @ [p])" by (simp add: writes_at_def)
  show "resident L i (ps @ [p]) fs'"
    by (rule residentI [OF assms(1) t]) (use r new byte assms(2) in \<open>auto simp: ino fs' upd_inode_def\<close>)
  have "{q. q < MAX_DATA_PAGES \<and> \<not> page_used fs q} = insert p {q. q < MAX_DATA_PAGES \<and> \<not> page_used fs' q}"
    using assms(2,3) by (auto simp: fs' upd_inode_def)
  moreover have "p \<notin> {q. q < MAX_DATA_PAGES \<and> \<not> page_used fs' q}" by (simp add: fs' upd_inode_def)
  ultimately show "Suc (free_pages fs') = free_pages fs" by (simp add: free_pages_def)
qed

text \<open>What the steps of a write have in common.\<close>

definition wrote :: "nat \<Rightarrow> nat \<Rightarrow> nat \<Rightarrow> nat \<Rightarrow> ramfs \<Rightarrow> nat list \<Rightarrow> ramfs \<Rightarrow> nat list \<Rightarrow> bool" where
  "wrote L i lo hi fs ps fs' ps' \<longleftrightarrow> resident L i ps' fs' \<and> touches i fs fs' \<and> writes_at lo hi fs ps fs' ps' \<and>
     inodes fs' i = (inodes fs i)\<lparr> in_src := Pages ps' \<rparr> \<and> free_pages fs' + length ps' = free_pages fs + length ps"

lemma wrote_trans:
  assumes "wrote L i a b f p g q" "wrote L i c d g q h r" "lo \<le> a" "lo \<le> c" "b \<le> hi" "d \<le> hi"
  shows "wrote L i lo hi f p h r"
  using assms writes_at_trans [of a b f p g q c d h r lo hi] unfolding wrote_def by (auto intro: touches_trans)

lemma wrote_refl: "resident L i ps fs \<Longrightarrow> wrote L i lo hi fs ps fs ps"
  by (simp add: wrote_def writes_at_def resident_def)

lemma grow_pages_law:
  assumes "resident L i ps fs"
  shows "\<exists>r fs' ps'. grow_pages i n ps fs = Some (r, fs') \<and> wrote L i lo lo fs ps fs' ps' \<and>
    (r = Inr ps' \<and> length ps' = length ps + n \<or> r = Inl ENOSPC \<and> free_pages fs < n)"
  using assms
proof (induction n arbitrary: ps fs)
  case 0
  then show ?case using wrote_refl [OF 0] by (auto simp: ok_with_def)
next
  case (Suc n)
  show ?case
  proof (cases rule: alloc_page_cases [of fs])
    case (1 p)
    define fs1 where "fs1 = upd_inode i (\<lambda>x. x\<lparr> in_src := Pages (ps @ [p]) \<rparr>)
      (fs\<lparr> page_used := (page_used fs)(p := True), pages := (pages fs)(p := (\<lambda>_. 0)) \<rparr>)"
    note a = append_page [OF Suc.prems 1(1,2) fs1_def]
    have w: "wrote L i lo lo fs ps fs1 (ps @ [p])"
      using a(1,2,4) a(3) [of lo] by (simp add: wrote_def) (simp add: fs1_def upd_inode_def)
    have g: "grow_pages i (Suc n) ps fs = grow_pages i n (ps @ [p]) fs1" by (simp add: 1(3) fs1_def)
    obtain r fs' ps' where IH: "grow_pages i n (ps @ [p]) fs1 = Some (r, fs')" "wrote L i lo lo fs1 (ps @ [p]) fs' ps'"
      "r = Inr ps' \<and> length ps' = length (ps @ [p]) + n \<or> r = Inl ENOSPC \<and> free_pages fs1 < n"
      using Suc.IH [OF a(1)] by blast
    have "wrote L i lo lo fs ps fs' ps'" by (rule wrote_trans [OF w IH(2)]) simp_all
    then show ?thesis using IH(1,3) a(4) unfolding g by auto
  next
    case 2
    then show ?thesis using wrote_refl [OF Suc.prems] by (auto simp: err_with_def)
  qed
qed

lemma store_bytes_law:
  assumes "resident L i ps fs" "pos div PAGE < length ps" "length bs \<le> PAGE - pos mod PAGE"
    "pos + length bs \<le> in_size (inodes fs i)"
    and fs': "fs' = store_bytes (ps ! (pos div PAGE)) (pos mod PAGE) bs fs"
  shows "wrote L i pos (pos + length bs) fs ps fs' ps"
    "\<And>k. k < length bs \<Longrightarrow> file_byte fs' ps (pos + k) = bs ! k"
proof -
  note r = residentD [OF assms(1)]
  have byte: "file_byte fs' ps k = (if pos \<le> k \<and> k < pos + length bs then bs ! (k - pos) else file_byte fs ps k)"
    if "k < PAGE * length ps" for k
  proof -
    have kq: "k div PAGE < length ps" using that by (rule page_index)
    have same: "ps ! (k div PAGE) = ps ! (pos div PAGE) \<longleftrightarrow> k div PAGE = pos div PAGE"
      using r(2) kq assms(2) by (simp add: nth_eq_iff_index_eq)
    have "k div PAGE = pos div PAGE \<and> pos mod PAGE \<le> k mod PAGE \<and> k mod PAGE < pos mod PAGE + length bs
        \<longleftrightarrow> pos \<le> k \<and> k < pos + length bs" (is "?l \<longleftrightarrow> ?r")
    proof
      assume l: ?l
      have "k = PAGE * (k div PAGE) + k mod PAGE" "pos = PAGE * (pos div PAGE) + pos mod PAGE" by simp_all
      with l show ?r by (metis add.assoc add_le_cancel_left add_less_cancel_left)
    next
      assume "pos \<le> k \<and> k < pos + length bs"
      then show ?l using in_page [of "k - pos" pos] assms(3) by auto
    qed
    moreover have "k mod PAGE - pos mod PAGE = k - pos" if "pos \<le> k \<and> k < pos + length bs"
      using in_page [of "k - pos" pos] assms(3) that by auto
    ultimately show ?thesis using same by (auto simp: file_byte_def fs' store_bytes_def)
  qed
  have ino: "inodes fs' = inodes fs" "dirents fs' = dirents fs" "page_used fs' = page_used fs"
    by (simp_all add: fs' store_bytes_def)
  have p: "ps ! (pos div PAGE) \<in> set ps" using assms(2) by simp
  have own: "owned fs' i = owned fs i" by (simp add: owned_def ino)
  have pg: "pages fs' q = pages fs q" if "q \<noteq> ps ! (pos div PAGE)" for q using that by (simp add: fs' store_bytes_def)
  have "touches i fs fs'"
    by (rule touchesI [where src = "in_src (inodes fs i)" and n = "in_size (inodes fs i)"])
      (use p r(1) pg in \<open>auto simp: own ino, metis\<close>)
  moreover have "resident L i ps fs'"
    by (rule residentI [OF assms(1) \<open>touches i fs fs'\<close>])
      (use r byte assms(1,4) in \<open>auto simp: ino resident_def\<close>)
  moreover have "inodes fs i = (inodes fs i)\<lparr> in_src := Pages ps \<rparr>" using assms(1) by (simp add: resident_def)
  ultimately show "wrote L i pos (pos + length bs) fs ps fs' ps"
    using byte by (auto simp: wrote_def writes_at_def ino free_pages_def)
  show "file_byte fs' ps (pos + k) = bs ! k" if "k < length bs" for k
  proof -
    have "(pos + k) div PAGE = pos div PAGE" using in_page(1) [of k pos] that assms(3) by simp
    then have "pos + k < PAGE * length ps" using assms(2) by (metis PAGE_def div_less_iff_less_mult mult.commute zero_less_numeral)
    then show ?thesis using byte that by simp
  qed
qed

lemma page_start: "n \<le> pos div PAGE \<Longrightarrow> PAGE * n \<le> pos"
  by (metis div_times_less_eq_dividend le_trans mult.commute mult_le_mono2)

lemma write_pages_step:
  assumes "resident L i ps fs" "pos + length src \<le> in_size (inodes fs i)" "src \<noteq> []" "pos div PAGE < MAX_FILE_PAGES"
  obtains fs1 ps1 where "write_pages i ps pos src fs = Some (Inl ENOSPC, fs1)" "wrote L i pos (pos + length src) fs ps fs1 ps1"
      "PAGE * (free_pages fs + length ps) < pos + length src"
  | chunk fs2 ps1 where "0 < chunk" "chunk \<le> length src" "pos + chunk \<le> PAGE * length ps1"
      "write_pages i ps pos src fs = write_pages i ps1 (pos + chunk) (drop chunk src) fs2"
      "wrote L i pos (pos + chunk) fs ps fs2 ps1" "\<And>k. k < chunk \<Longrightarrow> file_byte fs2 ps1 (pos + k) = src ! k"
proof -
  obtain r fs1 ps1 where g: "grow_pages i (Suc (pos div PAGE) - length ps) ps fs = Some (r, fs1)"
    "wrote L i pos pos fs ps fs1 ps1"
    "r = Inr ps1 \<and> length ps1 = length ps + (Suc (pos div PAGE) - length ps) \<or>
     r = Inl ENOSPC \<and> free_pages fs < Suc (pos div PAGE) - length ps"
    using grow_pages_law [OF assms(1)] by blast
  show thesis
  proof (cases "r = Inr ps1")
    case False
    then have n: "free_pages fs + length ps \<le> pos div PAGE" "r = Inl ENOSPC" using g(3) by auto
    have "0 < length src" using assms(3) by simp
    then have "PAGE * (free_pages fs + length ps) < pos + length src" using page_start [OF n(1)] by linarith
    moreover have "wrote L i pos (pos + length src) fs ps fs1 ps1"
      by (rule wrote_trans [OF g(2) wrote_refl [of L i ps1 fs1 pos pos]]) (use g(2) in \<open>simp_all add: wrote_def\<close>)
    ultimately show thesis using that(1) assms(3,4) g(1) n(2) by (subst (asm) write_pages.simps) auto
  next
    case True
    then have idx: "pos div PAGE < length ps1" using g(3) by auto
    define chunk where "chunk = min (length src) (PAGE - pos mod PAGE)"
    have chunk: "0 < chunk" "chunk \<le> length src" "chunk \<le> PAGE - pos mod PAGE" using assms(3) by (auto simp: chunk_def PAGE_def)
    have res1: "resident L i ps1 fs1" "in_size (inodes fs1 i) = in_size (inodes fs i)" using g(2) by (simp_all add: wrote_def)
    define fs2 where "fs2 = store_bytes (ps1 ! (pos div PAGE)) (pos mod PAGE) (take chunk src) fs1"
    have st: "wrote L i pos (pos + chunk) fs1 ps1 fs2 ps1" "\<And>k. k < chunk \<Longrightarrow> file_byte fs2 ps1 (pos + k) = src ! k"
      using store_bytes_law [OF res1(1) idx, of "take chunk src" fs2] assms(2) chunk res1(2) by (simp_all add: fs2_def)
    have "wrote L i pos (pos + chunk) fs ps fs2 ps1" by (rule wrote_trans [OF g(2) st(1)]) simp_all
    moreover have "pos + chunk \<le> PAGE * length ps1"
    proof -
      have "PAGE * (pos div PAGE) + pos mod PAGE = pos" by simp
      then have "pos + chunk \<le> PAGE * Suc (pos div PAGE)" using chunk(1,3) by (simp only: mult_Suc_right)
      also have "\<dots> \<le> PAGE * length ps1" using idx by (intro mult_le_mono2) simp
      finally show ?thesis .
    qed
    moreover have "ps1 ! (pos div PAGE) < MAX_DATA_PAGES" using residentD(3) [OF res1(1) nth_mem [OF idx]] by simp
    then have "write_pages i ps pos src fs = write_pages i ps1 (pos + chunk) (drop chunk src) fs2"
      using assms(3,4) g(1) True by (subst write_pages.simps) (simp add: Let_def chunk_def [symmetric] fs2_def)
    ultimately show thesis using that(2) chunk(1,2) st(2) by blast
  qed
qed

lemma wrote_keeps:
  assumes "wrote L i lo hi fs ps fs' ps'" "k < lo" "k < PAGE * length ps"
  shows "file_byte fs' ps' k = file_byte fs ps k"
proof -
  have "length ps \<le> length ps'" using assms(1) by (simp add: wrote_def writes_at_def)
  then have "k < PAGE * length ps'" using assms(3) by (meson less_le_trans mult_le_mono2)
  then show ?thesis using assms by (simp add: wrote_def writes_at_def)
qed

text \<open>
  A write either stores all of its bytes, or finds no space: the end lies beyond the largest file, or the free pages
  do not suffice. Either way the file stays sound and no other file is touched.
\<close>

lemma write_pages_law:
  assumes "resident L i ps fs" "pos + length src \<le> in_size (inodes fs i)"
  shows "\<exists>r fs' ps'. write_pages i ps pos src fs = Some (r, fs') \<and> wrote L i pos (pos + length src) fs ps fs' ps' \<and>
    (r = Inr () \<and> (src \<noteq> [] \<longrightarrow> pos + length src \<le> PAGE * length ps') \<and> (\<forall>k < length src. file_byte fs' ps' (pos + k) = src ! k) \<or>
     r = Inl ENOSPC \<and> (PAGE * MAX_FILE_PAGES < pos + length src \<or> PAGE * (free_pages fs + length ps) < pos + length src))"
  using assms
proof (induction "length src" arbitrary: ps pos src fs rule: less_induct)
  case less
  show ?case
  proof (cases "src = [] \<or> MAX_FILE_PAGES \<le> pos div PAGE")
    case True
    have "PAGE * MAX_FILE_PAGES < pos + length src" if "src \<noteq> []" "MAX_FILE_PAGES \<le> pos div PAGE"
      using page_start [OF that(2)] that(1) by (simp add: le_less_trans)
    then show ?thesis using True wrote_refl [OF less.prems(1)]
      by (subst write_pages.simps) (auto simp: ok_with_def err_with_def)
  next
    case False
    then have ne: "src \<noteq> []" "pos div PAGE < MAX_FILE_PAGES" by auto
    show ?thesis
    proof (cases rule: write_pages_step [OF less.prems ne])
      case 1
      then show ?thesis by blast
    next
      case (2 chunk fs2 ps1)
      have res2: "resident L i ps1 fs2" and le: "pos + chunk + length (drop chunk src) \<le> in_size (inodes fs2 i)"
        using 2(2,5) less.prems(2) by (simp_all add: wrote_def)
      have shorter: "length (drop chunk src) < length src" using 2(1) ne(1) by simp
      have hi: "pos + chunk + length (drop chunk src) = pos + length src" using 2(2) by simp
      obtain r fs' ps' where IH: "write_pages i ps1 (pos + chunk) (drop chunk src) fs2 = Some (r, fs')"
        "wrote L i (pos + chunk) (pos + length src) fs2 ps1 fs' ps'"
        "r = Inr () \<and> (drop chunk src \<noteq> [] \<longrightarrow> pos + length src \<le> PAGE * length ps') \<and>
           (\<forall>k < length (drop chunk src). file_byte fs' ps' (pos + chunk + k) = drop chunk src ! k) \<or>
         r = Inl ENOSPC \<and> (PAGE * MAX_FILE_PAGES < pos + length src \<or> PAGE * (free_pages fs2 + length ps1) < pos + length src)"
        using less.hyps [OF shorter res2 le] unfolding hi by blast
      have w: "wrote L i pos (pos + length src) fs ps fs' ps'" by (rule wrote_trans [OF 2(5) IH(2)]) (use 2(2) in simp_all)
      have free: "free_pages fs2 + length ps1 = free_pages fs + length ps" using 2(5) by (simp add: wrote_def)
      have bytes: "file_byte fs' ps' (pos + k) = src ! k" if "r = Inr ()" "k < length src" for k
      proof (cases "k < chunk")
        case True
        then show ?thesis using wrote_keeps [OF IH(2), of "pos + k"] 2(3,6) by simp
      next
        case False
        have "\<forall>k < length (drop chunk src). file_byte fs' ps' (pos + chunk + k) = drop chunk src ! k"
          using IH(3) unfolding that(1) by blast
        moreover have "k - chunk < length (drop chunk src)" using False that(2) by simp
        ultimately have "file_byte fs' ps' (pos + chunk + (k - chunk)) = drop chunk src ! (k - chunk)" by blast
        then show ?thesis using False 2(2) by simp
      qed
      have "PAGE * length ps1 \<le> PAGE * length ps'" using IH(2) by (intro mult_le_mono2) (simp add: wrote_def writes_at_def)
      then have "pos + chunk \<le> PAGE * length ps'" using 2(3) by (rule le_trans [rotated])
      then have "pos + length src \<le> PAGE * length ps'" if "r = Inr ()" using IH(3) that 2(2)
        by (cases "drop chunk src = []") auto
      then show ?thesis using IH(1,3) w bytes unfolding 2(4) free by auto
    qed
  qed
qed

section \<open>Whole writes\<close>

lemma resident_enlarge:
  assumes "resident L i ps fs" "in_size (inodes fs i) \<le> n"
  shows "resident L i ps (upd_inode i (\<lambda>x. x\<lparr> in_size := n \<rparr>) fs)" "touches i fs (upd_inode i (\<lambda>x. x\<lparr> in_size := n \<rparr>) fs)"
proof -
  let ?fs = "upd_inode i (\<lambda>x. x\<lparr> in_size := n \<rparr>) fs"
  have ino: "inodes ?fs i = (inodes fs i)\<lparr> in_size := n \<rparr>" "\<And>j. j \<noteq> i \<Longrightarrow> inodes ?fs j = inodes fs j" "dirents ?fs = dirents fs"
    "page_used ?fs = page_used fs" "pages ?fs = pages fs" by (simp_all add: upd_inode_def)
  have own: "owned ?fs i = owned fs i" by (simp add: owned_def ino(1))
  have "inodes ?fs i = (inodes fs i)\<lparr> in_src := Pages ps, in_size := n \<rparr>" using assms(1) by (simp add: ino(1) resident_def)
  then show t: "touches i fs ?fs" by (rule touchesI [rotated 2]) (simp_all add: ino own)
  have "file_byte ?fs ps k = file_byte fs ps k" for k by (simp add: file_byte_def ino(5))
  then show "resident L i ps ?fs"
    by (intro residentI [OF assms(1) t]) (use residentD [OF assms(1)] assms in \<open>auto simp: ino(1,4) resident_def\<close>)
qed

text \<open>The end of a write: bytes are stored as far as pages can be had; then the new bytes are in their place.\<close>

definition write_result :: "nat \<Rightarrow> nat \<Rightarrow> nat \<Rightarrow> nat \<Rightarrow> u8 list \<Rightarrow> ramfs \<Rightarrow> nat list \<Rightarrow> int + nat \<Rightarrow> ramfs \<Rightarrow> nat list \<Rightarrow> bool" where
  "write_result L i off sz src fs ps r fs' ps' \<longleftrightarrow> resident L i ps' fs' \<and> touches i fs fs' \<and>
     inodes fs' i = (inodes fs i)\<lparr> in_src := Pages ps', in_size := sz \<rparr> \<and> free_pages fs' + length ps' = free_pages fs + length ps \<and>
     (r = Inr (length src) \<and> writes_at off (off + length src) fs ps fs' ps' \<and>
        (src \<noteq> [] \<longrightarrow> off + length src \<le> PAGE * length ps') \<and> (\<forall>k < length src. file_byte fs' ps' (off + k) = src ! k) \<or>
      r = Inl ENOSPC \<and> (PAGE * MAX_FILE_PAGES < off + length src \<or> PAGE * (free_pages fs + length ps) < off + length src))"

lemma write_pages_any:
  assumes res: "resident L i ps fs" and len: "length src < 2 ^ 63" and sz: "min (off + length src) (2 ^ 64 - 1) \<le> in_size (inodes fs i)"
  shows "\<exists>r fs' ps'. write_pages i ps off src fs = Some (r, fs') \<and> wrote L i off (off + length src) fs ps fs' ps' \<and>
    (r = Inr () \<and> (src \<noteq> [] \<longrightarrow> off + length src \<le> PAGE * length ps') \<and> (\<forall>k < length src. file_byte fs' ps' (off + k) = src ! k) \<or>
     r = Inl ENOSPC \<and> (PAGE * MAX_FILE_PAGES < off + length src \<or> PAGE * (free_pages fs + length ps) < off + length src))"
proof (cases "src = []")
  case True
  then show ?thesis using wrote_refl [OF res] by (subst write_pages.simps) (auto simp: ok_with_def)
next
  case ne: False
  show ?thesis
  proof (cases "MAX_FILE_PAGES \<le> off div PAGE")
    case True
    then have "write_pages i ps off src fs = Some (Inl ENOSPC, fs)" using ne by (subst write_pages.simps) (simp add: err_with_def)
    moreover have "PAGE * MAX_FILE_PAGES < off + length src" using page_start [OF True] ne by (simp add: le_less_trans)
    ultimately show ?thesis using wrote_refl [OF res] by blast
  next
    case False
    then have "off < 2 ^ 63" by (simp add: PAGE_def MAX_FILE_PAGES_def)
    then have "off + length src \<le> in_size (inodes fs i)" using len sz by simp
    from write_pages_law [OF res this] show ?thesis .
  qed
qed

lemma upd_inode_same: "f (inodes fs i) = inodes fs i \<Longrightarrow> upd_inode i f fs = fs"
  by (simp add: upd_inode_def)

lemma write_inode_by_law:
  assumes mk: "mk i fs = Some (Inr (), fs0)" and res: "resident L i ps fs0" and kind: "in_kind (inodes fs0 i) = RegularFile"
    and len: "length src < 2 ^ 63"
  shows "\<exists>r fs' ps'. write_inode_by mk i off src fs = Some (r, fs') \<and>
    write_result L i off (max (in_size (inodes fs0 i)) (min (off + length src) (2 ^ 64 - 1))) src fs0 ps r fs' ps'"
proof -
  define m n where "m = min (off + length src) (2 ^ 64 - 1)" and "n = max (in_size (inodes fs0 i)) m"
  define fs1 where "fs1 = upd_inode i (\<lambda>x. x\<lparr> in_size := n \<rparr>) fs0"
  have "in_size (inodes fs0 i) \<le> n" by (simp add: n_def)
  note e = resident_enlarge [OF res this, folded fs1_def]
  have ino1: "inodes fs1 i = (inodes fs0 i)\<lparr> in_size := n \<rparr>" by (simp add: fs1_def upd_inode_def)
  have bytes: "file_byte fs1 = file_byte fs0" "free_pages fs1 = free_pages fs0"
    by (simp_all add: fs1_def upd_inode_def file_byte_def free_pages_def fun_eq_iff)
  have used: "in_used (inodes fs0 i)" "in_src (inodes fs0 i) = Pages ps" using res by (simp_all add: resident_def)
  have fs1: "(if in_size (inodes fs0 i) < m then upd_inode i (\<lambda>x. x\<lparr> in_size := m \<rparr>) fs0 else fs0) = fs1"
    by (auto simp: fs1_def n_def max_def upd_inode_same)
  have unf: "write_inode_by mk i off src fs = and_then (write_pages i ps off src fs1) (\<lambda>_ fs. ok_with (length src) fs)"
    using mk used kind fs1 unfolding write_inode_by_def m_def [symmetric] by (simp add: Let_def)
  have "min (off + length src) (2 ^ 64 - 1) \<le> in_size (inodes fs1 i)" by (simp add: ino1 n_def m_def)
  from write_pages_any [OF e(1) len this] obtain r fs' ps' where
    w: "write_pages i ps off src fs1 = Some (r, fs')" "wrote L i off (off + length src) fs1 ps fs' ps'"
      "r = Inr () \<and> (src \<noteq> [] \<longrightarrow> off + length src \<le> PAGE * length ps') \<and> (\<forall>k < length src. file_byte fs' ps' (off + k) = src ! k) \<or>
       r = Inl ENOSPC \<and> (PAGE * MAX_FILE_PAGES < off + length src \<or> PAGE * (free_pages fs1 + length ps) < off + length src)"
    by blast
  have "touches i fs0 fs'" using e(2) w(2) by (auto simp: wrote_def intro: touches_trans)
  moreover have "writes_at off (off + length src) fs0 ps fs' ps'" using w(2) by (simp add: wrote_def writes_at_def bytes)
  moreover have "inodes fs' i = (inodes fs0 i)\<lparr> in_src := Pages ps', in_size := n \<rparr>" using w(2) by (simp add: wrote_def ino1)
  moreover have "resident L i ps' fs'" "free_pages fs' + length ps' = free_pages fs0 + length ps"
    using w(2) by (simp_all add: wrote_def bytes)
  moreover define r' where "r' = (case r of Inl e \<Rightarrow> Inl e | Inr _ \<Rightarrow> Inr (length src))"
  ultimately have "write_result L i off n src fs0 ps r' fs' ps'" using w(3) unfolding write_result_def bytes by auto
  moreover have "write_inode_by mk i off src fs = Some (r', fs')" unfolding unf w(1) by (cases r) (simp_all add: ok_with_def r'_def)
  ultimately show ?thesis unfolding n_def m_def by blast
qed

lemma resident_content:
  "resident L i ps fs \<Longrightarrow> file_content rootfs fs i = map (file_byte fs ps) [0..<min (in_size (inodes fs i)) (PAGE * length ps)]"
  by (simp add: resident_def file_content_def)

lemma resident_backed: "resident L i ps fs \<Longrightarrow> backed fs i \<longleftrightarrow> in_size (inodes fs i) \<le> PAGE * length ps"
  by (simp add: resident_def backed_def)

lemma write_result_content:
  assumes w: "write_result L i off sz src fs ps (Inr n) fs' ps'" and res: "resident L i ps fs" and b: "backed fs i"
    and ne: "src \<noteq> []" and sz: "sz = max (in_size (inodes fs i)) (off + length src)"
  shows "backed fs' i" "file_content rootfs fs' i = overwrite off 0 src (file_content rootfs fs i)" "n = length src"
proof -
  let ?s = "in_size (inodes fs i)"
  show "n = length src" using w by (simp add: write_result_def)
  have res': "resident L i ps' fs'" and s': "in_size (inodes fs' i) = sz" and fits: "off + length src \<le> PAGE * length ps'"
    and at: "writes_at off (off + length src) fs ps fs' ps'" and new: "\<And>k. k < length src \<Longrightarrow> file_byte fs' ps' (off + k) = src ! k"
    using w ne by (auto simp: write_result_def)
  have s: "?s \<le> PAGE * length ps" using b resident_backed [OF res] by simp
  also have le: "PAGE * length ps \<le> PAGE * length ps'" using at by (intro mult_le_mono2) (simp add: writes_at_def)
  finally have sz': "sz \<le> PAGE * length ps'" using fits sz by simp
  then show "backed fs' i" using resident_backed [OF res'] s' by simp
  have c': "file_content rootfs fs' i = map (file_byte fs' ps') [0..<sz]"
    using sz' by (simp add: resident_content [OF res'] s' min_absorb1)
  have c: "file_content rootfs fs i = map (file_byte fs ps) [0..<?s]"
    using s by (simp add: resident_content [OF res] min_absorb1)
  show "file_content rootfs fs' i = overwrite off 0 src (file_content rootfs fs i)"
  proof (rule nth_equalityI)
    show len: "length (file_content rootfs fs' i) = length (overwrite off 0 src (file_content rootfs fs i))"
      by (simp add: c c' sz)
    fix k assume "k < length (file_content rootfs fs' i)"
    then have k: "k < sz" "k < PAGE * length ps'" using sz' by (simp_all add: c')
    have zero: "file_byte fs ps k = 0" if "?s \<le> k" "k < PAGE * length ps" using residentD(4) [OF res that] .
    have old: "file_byte fs' ps' k = (if k < PAGE * length ps then file_byte fs ps k else 0)" if "k < off \<or> off + length src \<le> k"
      using at k(2) that unfolding writes_at_def by blast
    have new': "file_byte fs' ps' k = src ! (k - off)" if "off \<le> k" "k < off + length src" using new [of "k - off"] that by simp
    have "overwrite off 0 src (file_content rootfs fs i) ! k =
        (if k < off then (if k < ?s then file_byte fs ps k else 0) else if k < off + length src then src ! (k - off) else file_byte fs ps k)"
      using k(1) by (subst nth_overwrite) (auto simp: c sz)
    then show "file_content rootfs fs' i ! k = overwrite off 0 src (file_content rootfs fs i) ! k"
      using k(1) zero old new' s by (auto simp: c' sz)
  qed
qed

text \<open>Moving a file from the archive to pages.\<close>

lemma write_resident_law:
  assumes "resident L i ps fs" "in_kind (inodes fs i) = RegularFile" "length src < 2 ^ 63"
  shows "\<exists>r fs' ps'. write_resident rootfs i off src fs = Some (r, fs') \<and>
    write_result L i off (max (in_size (inodes fs i)) (min (off + length src) (2 ^ 64 - 1))) src fs ps r fs' ps'"
proof -
  have "make_writable_by (\<lambda>_ _ _ _. None) rootfs i fs = Some (Inr (), fs)"
    using assms(1) by (simp add: make_writable_by_def inode_of_def resident_def ok_with_def)
  from write_inode_by_law [where mk = "make_writable_by (\<lambda>_ _ _ _. None) rootfs", OF this assms] show ?thesis
    by (simp add: write_resident_def)
qed

lemma overwrite_end: "overwrite (length xs) zero src xs = xs @ src"
  by (simp add: overwrite_def)

lemma copy_embedded_law:
  assumes "resident L i ps fs" "in_kind (inodes fs i) = RegularFile" "backed fs i" "in_size (inodes fs i) = copied"
    "file_content rootfs fs i = take copied (drop off rootfs)" "copied \<le> len" "off + len \<le> length rootfs" "length rootfs < 2 ^ 63"
  shows "\<exists>r fs' ps'. copy_embedded (write_resident rootfs) rootfs i off len copied fs = Some (r, fs') \<and> resident L i ps' fs' \<and>
    touches i fs fs' \<and> in_kind (inodes fs' i) = RegularFile \<and> free_pages fs' + length ps' = free_pages fs + length ps \<and>
    (r = Inr () \<and> backed fs' i \<and> in_size (inodes fs' i) = len \<and> file_content rootfs fs' i = take len (drop off rootfs) \<or>
     r = Inl ENOSPC \<and> (PAGE * MAX_FILE_PAGES < len \<or> PAGE * (free_pages fs + length ps) < len))"
  using assms
proof (induction "len - copied" arbitrary: fs ps copied rule: less_induct)
  case less
  show ?case
  proof (cases "len \<le> copied")
    case True
    then show ?thesis using less.prems by (subst copy_embedded.simps) (auto simp: ok_with_def)
  next
    case False
    define chunk where "chunk = min (len - copied) 512"
    define src where "src = take chunk (drop (off + copied) rootfs)"
    have chunk: "0 < chunk" "copied + chunk \<le> len" using False by (auto simp: chunk_def)
    have src: "length src = chunk" "src \<noteq> []" "length src < 2 ^ 63"
      using chunk less.prems(7,8) by (auto simp: src_def)
    have size: "max (in_size (inodes fs i)) (min (copied + length src) (2 ^ 64 - 1)) = max (in_size (inodes fs i)) (copied + length src)"
      using chunk src(1) less.prems(7,8) by (simp add: min_def)
    obtain r fs1 ps1 where w: "write_resident rootfs i copied src fs = Some (r, fs1)"
      "write_result L i copied (max (in_size (inodes fs i)) (copied + length src)) src fs ps r fs1 ps1"
      using write_resident_law [OF less.prems(1,2) src(3), of rootfs copied] unfolding size by blast
    have unf: "copy_embedded (write_resident rootfs) rootfs i off len copied fs =
        and_then (Some (r, fs1)) (\<lambda>_ fs. copy_embedded (write_resident rootfs) rootfs i off len (copied + chunk) fs)"
      using False less.prems(7) chunk
      by (subst copy_embedded.simps) (simp add: Let_def chunk_def [symmetric] src_def [symmetric] w(1))
    have f1: "resident L i ps1 fs1" "touches i fs fs1" "in_kind (inodes fs1 i) = RegularFile"
      "free_pages fs1 + length ps1 = free_pages fs + length ps" using w(2) less.prems(2) by (simp_all add: write_result_def)
    show ?thesis
    proof (cases r)
      case (Inl e)
      then have "e = ENOSPC" "PAGE * MAX_FILE_PAGES < len \<or> PAGE * (free_pages fs + length ps) < len"
        using w(2) chunk(2) src(1) by (auto simp: write_result_def)
      then show ?thesis using f1 Inl unfolding unf by auto
    next
      case (Inr n)
      note c = write_result_content [OF w(2) [unfolded Inr] less.prems(1,3) src(2) refl]
      have l: "length (file_content rootfs fs i) = copied" using less.prems(5,6,7) by simp
      have "file_content rootfs fs1 i = file_content rootfs fs i @ src"
        using c(2) [of rootfs] overwrite_end [of "file_content rootfs fs i" 0 src] unfolding l by simp
      then have "file_content rootfs fs1 i = take copied (drop off rootfs) @ src" unfolding less.prems(5) .
      also have "\<dots> = take (copied + chunk) (drop off rootfs)" unfolding src_def take_add drop_drop by (simp add: add.commute)
      finally have content: "file_content rootfs fs1 i = take (copied + chunk) (drop off rootfs)" .
      have size1: "in_size (inodes fs1 i) = copied + chunk" using w(2) less.prems(4) src(1) by (simp add: write_result_def)
      have "len - (copied + chunk) < len - copied" using chunk by simp
      from less.hyps [OF this f1(1,3) c(1) size1 content chunk(2) less.prems(7,8)] f1 show ?thesis
        unfolding unf Inr by (auto intro: touches_trans)
    qed
  qed
qed

lemma start_pages:
  assumes "data_ok L fs" "i < MAX_INODES" "in_used (inodes fs i)" "owned fs i = []"
    and fs': "fs' = upd_inode i f fs" "f (inodes fs i) = (inodes fs i)\<lparr> in_src := Pages [], in_size := n \<rparr>"
  shows "resident L i [] fs'" "touches i fs fs'" "free_pages fs' = free_pages fs"
    "inodes fs' i = (inodes fs i)\<lparr> in_src := Pages [], in_size := n \<rparr>"
proof -
  show ino: "inodes fs' i = (inodes fs i)\<lparr> in_src := Pages [], in_size := n \<rparr>" using fs'(2) by (simp add: fs'(1) upd_inode_def)
  have own: "owned fs' i = []" by (simp add: owned_def ino)
  have rest: "dirents fs' = dirents fs" "\<And>j. j \<noteq> i \<Longrightarrow> inodes fs' j = inodes fs j" "page_used fs' = page_used fs" "pages fs' = pages fs"
    by (simp_all add: fs'(1) upd_inode_def)
  show t: "touches i fs fs'" by (rule touchesI [OF rest(1,2) ino]) (simp_all add: own rest)
  have "file_ok L fs' i" by (simp add: file_ok_def own ino)
  then show "resident L i [] fs'" using touches_data_ok [OF assms(1) t _ assms(2)] assms(2,3) by (simp add: resident_def ino)
  show "free_pages fs' = free_pages fs" by (simp add: free_pages_def fs'(1) upd_inode_def)
qed

lemma make_writable_law:
  assumes "data_ok (length rootfs) fs" "inode_of fs i = Some node" "length rootfs < 2 ^ 63"
  shows "\<exists>r fs' ps. make_writable rootfs i fs = Some (r, fs') \<and> resident (length rootfs) i ps fs' \<and> touches i fs fs' \<and>
    in_kind (inodes fs' i) = in_kind (inodes fs i) \<and> free_pages fs' + length ps = free_pages fs + length (owned fs i) \<and>
    (r = Inr () \<and> (backed fs i \<longrightarrow> backed fs' i) \<and> in_size (inodes fs' i) = in_size (inodes fs i) \<and>
       file_content rootfs fs' i = file_content rootfs fs i \<or>
     r = Inl ENOSPC \<and> (PAGE * MAX_FILE_PAGES < in_size (inodes fs i) \<or>
       PAGE * (free_pages fs + length (owned fs i)) < in_size (inodes fs i)))"
proof -
  have i: "i < MAX_INODES" "in_used (inodes fs i)" "node = inodes fs i"
    using assms(2) by (auto simp: inode_of_def split: if_splits)
  show ?thesis
  proof (cases "in_src (inodes fs i)")
    case NoData
    have own: "owned fs i = []" by (simp add: owned_def NoData)
    define fs1 where "fs1 = upd_inode i (\<lambda>x. x\<lparr> in_src := Pages [] \<rparr>) fs"
    have m: "make_writable rootfs i fs = Some (Inr (), fs1)"
      using assms(2) NoData i by (simp add: make_writable_def make_writable_by_def ok_with_def fs1_def)
    have s0: "in_size (inodes fs i) = 0" using data_ok_file [OF assms(1) i(1)] i(2) NoData by (simp add: file_ok_def)
    note p = start_pages [OF assms(1) i(1,2) own fs1_def, of "in_size (inodes fs i)"]
    show ?thesis using p m s0 by (auto simp: own backed_def file_content_def NoData)
  next
    case (Pages ps)
    then have "resident (length rootfs) i ps fs" "owned fs i = ps" using assms(1) i by (simp_all add: resident_def owned_def)
    moreover have "make_writable rootfs i fs = Some (Inr (), fs)"
      using assms(2) Pages i by (simp add: make_writable_def make_writable_by_def ok_with_def)
    ultimately show ?thesis by auto
  next
    case (Embedded off len)
    have own: "owned fs i = []" by (simp add: owned_def Embedded)
    have emb: "off + len \<le> length rootfs" "in_size (inodes fs i) = len" "in_kind (inodes fs i) = RegularFile"
      using data_ok_file [OF assms(1) i(1)] i(2) Embedded by (simp_all add: file_ok_def)
    define fs1 where "fs1 = upd_inode i (\<lambda>x. x\<lparr> in_src := Pages [], in_size := 0 \<rparr>) fs"
    note p = start_pages [OF assms(1) i(1,2) own fs1_def, of 0, simplified]
    have m: "make_writable rootfs i fs = copy_embedded (write_resident rootfs) rootfs i off len 0 fs1"
      using assms(2) Embedded i by (simp add: make_writable_def make_writable_by_def fs1_def)
    obtain r fs' ps' where c: "copy_embedded (write_resident rootfs) rootfs i off len 0 fs1 = Some (r, fs')"
      "resident (length rootfs) i ps' fs'" "touches i fs1 fs'" "in_kind (inodes fs' i) = RegularFile"
      "free_pages fs' + length ps' = free_pages fs"
      "r = Inr () \<and> backed fs' i \<and> in_size (inodes fs' i) = len \<and> file_content rootfs fs' i = take len (drop off rootfs) \<or>
       r = Inl ENOSPC \<and> (PAGE * MAX_FILE_PAGES < len \<or> PAGE * free_pages fs < len)"
      using copy_embedded_law [OF p(1), of 0 rootfs off len] p emb assms(3) by (auto simp: backed_def file_content_def)
    show ?thesis using c(1,2,4-6) touches_trans [OF p(2) c(3)] emb own unfolding m
      by (auto simp: file_content_def Embedded)
  qed
qed

lemma write_inode_cases:
  assumes "data_ok (length rootfs) fs" "inode_of fs i = Some node" "length rootfs < 2 ^ 63" "length src < 2 ^ 63"
  shows "\<exists>r fs' ps. write_inode rootfs i off src fs = Some (r, fs') \<and> resident (length rootfs) i ps fs' \<and> touches i fs fs' \<and>
    (in_kind node = RegularFile \<longrightarrow>
      (\<exists>fs0 ps0. r = Inr (length src) \<and> resident (length rootfs) i ps0 fs0 \<and> (backed fs i \<longrightarrow> backed fs0 i) \<and>
         in_size (inodes fs0 i) = in_size node \<and> file_content rootfs fs0 i = file_content rootfs fs i \<and>
         write_result (length rootfs) i off (max (in_size node) (min (off + length src) (2 ^ 64 - 1))) src fs0 ps0 r fs' ps) \<or>
      r = Inl ENOSPC \<and> (PAGE * MAX_FILE_PAGES < max (in_size node) (off + length src) \<or>
         PAGE * (free_pages fs + length (owned fs i)) < max (in_size node) (off + length src)))"
proof -
  have node: "node = inodes fs i" using assms(2) by (auto simp: inode_of_def split: if_splits)
  obtain r0 fs0 ps0 where m: "make_writable rootfs i fs = Some (r0, fs0)" "resident (length rootfs) i ps0 fs0" "touches i fs fs0"
    "in_kind (inodes fs0 i) = in_kind (inodes fs i)" "free_pages fs0 + length ps0 = free_pages fs + length (owned fs i)"
    "r0 = Inr () \<and> (backed fs i \<longrightarrow> backed fs0 i) \<and> in_size (inodes fs0 i) = in_size (inodes fs i) \<and>
       file_content rootfs fs0 i = file_content rootfs fs i \<or>
     r0 = Inl ENOSPC \<and> (PAGE * MAX_FILE_PAGES < in_size (inodes fs i) \<or>
       PAGE * (free_pages fs + length (owned fs i)) < in_size (inodes fs i))"
    using make_writable_law [OF assms(1-3)] by blast
  show ?thesis
  proof (cases "r0 = Inr () \<and> in_kind node = RegularFile")
    case True
    then have kind: "in_kind (inodes fs0 i) = RegularFile" using m(4) node by simp
    have mk: "make_writable rootfs i fs = Some (Inr (), fs0)" using True m(1) by simp
    obtain r fs' ps where w: "write_inode rootfs i off src fs = Some (r, fs')"
      "write_result (length rootfs) i off (max (in_size node) (min (off + length src) (2 ^ 64 - 1))) src fs0 ps0 r fs' ps"
      using write_inode_by_law [where mk = "make_writable rootfs", OF mk m(2) kind assms(4), of off] True m(6) node
      by (auto simp: write_inode_def)
    have "resident (length rootfs) i ps fs'" "touches i fs fs'" using w(2) m(3) by (auto simp: write_result_def intro: touches_trans)
    moreover have "r = Inr (length src) \<or> r = Inl ENOSPC \<and> (PAGE * MAX_FILE_PAGES < off + length src \<or>
        PAGE * (free_pages fs + length (owned fs i)) < off + length src)"
      using w(2) m(5) by (auto simp: write_result_def)
    ultimately show ?thesis using w m(2,6) True node by (intro exI [of _ r] exI [of _ fs'] exI [of _ ps]) auto
  next
    case False
    have "in_used (inodes fs0 i)" using m(2) by (simp add: resident_def)
    then have "write_inode rootfs i off src fs = Some (case r0 of Inl e \<Rightarrow> Inl e | Inr _ \<Rightarrow> Inl EISDIR, fs0)"
      using False m(1,4) node by (cases r0) (auto simp: write_inode_def write_inode_by_def err_with_def Let_def)
    then show ?thesis using False m(2,3,6) node by auto
  qed
qed

text \<open>
  The equation of the source for \<^verbatim>\<open>make_writable\<close>, which calls \<^verbatim>\<open>write_inode\<close> as a whole: a file on pages stays
  on pages, so that the writes of the copying never have to copy in turn.
\<close>

definition on_pages :: "nat \<Rightarrow> ramfs \<Rightarrow> bool" where
  "on_pages i fs \<longleftrightarrow> i < MAX_INODES \<and> in_used (inodes fs i) \<and> (\<exists>ps. in_src (inodes fs i) = Pages ps)"

lemma grow_pages_on_pages: "on_pages i fs \<Longrightarrow> grow_pages i n ps fs = Some (r, fs') \<Longrightarrow> on_pages i fs'"
proof (induction n arbitrary: ps fs)
  case (Suc n)
  then show ?case
    by (cases rule: alloc_page_cases [of fs]) (auto simp: err_with_def on_pages_def upd_inode_def dest!: Suc.IH [rotated])
qed (simp add: ok_with_def)

lemma write_pages_on_pages: "on_pages i fs \<Longrightarrow> write_pages i ps pos src fs = Some (r, fs') \<Longrightarrow> on_pages i fs'"
proof (induction i ps pos src fs rule: write_pages.induct)
  case (1 i ps pos src fs)
  show ?case
  proof (cases "src = [] \<or> MAX_FILE_PAGES \<le> pos div PAGE")
    case True
    then show ?thesis using 1(2,3) by (subst (asm) write_pages.simps) (auto simp: ok_with_def err_with_def split: if_splits)
  next
    case False
    obtain r1 fs1 where g: "grow_pages i (Suc (pos div PAGE) - length ps) ps fs = Some (r1, fs1)" "on_pages i fs1"
      using 1(2,3) False grow_pages_on_pages [OF 1(2)]
      by (subst (asm) write_pages.simps) (auto simp: and_then_def split: option.splits)
    have st: "on_pages i (store_bytes p k bs fs1)" for p k bs using g(2) by (simp add: on_pages_def store_bytes_def)
    show ?thesis
    proof (cases r1)
      case (Inl e)
      then show ?thesis using 1(3) False g by (subst (asm) write_pages.simps) auto
    next
      case (Inr qs)
      define chunk where "chunk = min (length src) (PAGE - pos mod PAGE)"
      have "write_pages i ps pos src fs = (if MAX_DATA_PAGES \<le> qs ! (pos div PAGE) then None
          else write_pages i qs (pos + chunk) (drop chunk src)
            (store_bytes (qs ! (pos div PAGE)) (pos mod PAGE) (take chunk src) fs1))"
        using False g(1) Inr by (subst write_pages.simps) (simp add: Let_def chunk_def)
      then show ?thesis using 1(3) 1(1) [OF _ _ refl refl chunk_def _ st] False by (simp split: if_splits)
    qed
  qed
qed

lemma write_inode_on_pages:
  assumes "on_pages i fs"
  shows "write_inode rootfs i off src fs = write_resident rootfs i off src fs"
    "write_resident rootfs i off src fs = Some (r, fs') \<Longrightarrow> on_pages i fs'"
proof -
  have "make_writable_by wr rootfs i fs = ok_with () fs" for wr
    using assms by (auto simp: make_writable_by_def inode_of_def on_pages_def)
  then have eq: "write_inode_by (make_writable_by wr rootfs) i off src fs = write_inode_by (\<lambda>_ fs. ok_with () fs) i off src fs" for wr
    by (simp add: write_inode_by_def)
  then show "write_inode rootfs i off src fs = write_resident rootfs i off src fs"
    by (simp add: write_inode_def write_resident_def make_writable_def)
  assume "write_resident rootfs i off src fs = Some (r, fs')"
  then show "on_pages i fs'" using assms unfolding write_resident_def eq
    by (auto simp: write_inode_by_def Let_def on_pages_def ok_with_def err_with_def and_then_Some upd_inode_def
        dest!: write_pages_on_pages [rotated] split: if_splits)
qed

lemma copy_embedded_write_inode:
  "on_pages i fs \<Longrightarrow> copy_embedded (write_inode rootfs) rootfs i off len copied fs =
     copy_embedded (write_resident rootfs) rootfs i off len copied fs"
proof (induction "len - copied" arbitrary: copied fs rule: less_induct)
  case less
  have "copy_embedded (write_inode rootfs) rootfs i off len (copied + min (len - copied) 512) fs' =
      copy_embedded (write_resident rootfs) rootfs i off len (copied + min (len - copied) 512) fs'"
    if "\<not> len \<le> copied" "on_pages i fs'" for fs' by (rule less.hyps) (use that in auto)
  then show ?case using write_inode_on_pages(2) [OF less.prems]
    by (subst (1 2) copy_embedded.simps)
      (auto simp: Let_def write_inode_on_pages(1) [OF less.prems] and_then_def split: option.splits sum.splits)
qed

lemma make_writable_eq: "make_writable rootfs i fs = make_writable_by (write_inode rootfs) rootfs i fs"
  unfolding make_writable_def make_writable_by_def
  by (auto simp: inode_of_def on_pages_def upd_inode_def copy_embedded_write_inode split: option.splits inode_data.splits)

text \<open>
  C10: a write to a regular file for which there is space stores all of its bytes and makes the file what it was
  with this part replaced, filled with zeroes where the offset lies beyond its end, wherever the file was kept
  before; so every later read yields the part asked for of exactly these bytes. All other files keep their contents,
  and pages are never shared. Space is lacking only beyond the largest file or the pages that are free.
\<close>
theorem write_refines_overwrite:
  assumes "data_ok (length rootfs) fs" "inode_of fs i = Some node" "in_kind node = RegularFile" "backed fs i" "src \<noteq> []"
    and lens: "length rootfs < 2 ^ 63" "length src < 2 ^ 63"
    and space: "max (in_size node) (off + length src) \<le> PAGE * MAX_FILE_PAGES"
      "max (in_size node) (off + length src) \<le> PAGE * (free_pages fs + length (owned fs i))"
  shows "\<exists>fs'. write_inode rootfs i off src fs = Some (Inr (length src), fs') \<and> data_ok (length rootfs) fs' \<and> backed fs' i \<and>
    file_content rootfs fs' i = overwrite off 0 src (file_content rootfs fs i) \<and>
    (\<forall>pos n. read_inode rootfs i pos n fs' = Some (Inr (take n (drop pos (overwrite off 0 src (file_content rootfs fs i)))))) \<and>
    (\<forall>j node'. j \<noteq> i \<and> inode_of fs j = Some node' \<longrightarrow> inode_of fs' j = Some node' \<and> file_content rootfs fs' j = file_content rootfs fs j)"
proof -
  have i: "i < MAX_INODES" "node = inodes fs i" using assms(2) by (auto simp: inode_of_def split: if_splits)
  obtain r fs' ps where w: "write_inode rootfs i off src fs = Some (r, fs')" "resident (length rootfs) i ps fs'" "touches i fs fs'"
    and c: "(\<exists>fs0 ps0. r = Inr (length src) \<and> resident (length rootfs) i ps0 fs0 \<and> (backed fs i \<longrightarrow> backed fs0 i) \<and>
         in_size (inodes fs0 i) = in_size node \<and> file_content rootfs fs0 i = file_content rootfs fs i \<and>
         write_result (length rootfs) i off (max (in_size node) (min (off + length src) (2 ^ 64 - 1))) src fs0 ps0 r fs' ps) \<or>
      r = Inl ENOSPC \<and> (PAGE * MAX_FILE_PAGES < max (in_size node) (off + length src) \<or>
         PAGE * (free_pages fs + length (owned fs i)) < max (in_size node) (off + length src))"
    using write_inode_cases [OF assms(1,2) lens, of off] assms(3) by blast
  obtain fs0 ps0 where r: "r = Inr (length src)" and f0: "resident (length rootfs) i ps0 fs0" "backed fs0 i"
      "in_size (inodes fs0 i) = in_size node" "file_content rootfs fs0 i = file_content rootfs fs i"
    and wr: "write_result (length rootfs) i off (max (in_size node) (min (off + length src) (2 ^ 64 - 1))) src fs0 ps0 r fs' ps"
    using c assms(4) space by auto
  have "off + length src \<le> 2 ^ 64 - 1" using space(1) by (simp add: PAGE_def MAX_FILE_PAGES_def)
  then have "max (in_size node) (min (off + length src) (2 ^ 64 - 1)) = max (in_size (inodes fs0 i)) (off + length src)"
    by (simp add: f0(3))
  note content = write_result_content [OF wr [unfolded r this] f0(1,2) assms(5) refl]
  have ok: "data_ok (length rootfs) fs'" "inode_of fs' i = Some (inodes fs' i)" using w(2) by (simp_all add: resident_def inode_of_def)
  have c': "file_content rootfs fs' i = overwrite off 0 src (file_content rootfs fs i)" using content(2) [of rootfs] f0(4) by simp
  have "inode_of fs' j = Some node'" "file_content rootfs fs' j = file_content rootfs fs j" if "j \<noteq> i" "inode_of fs j = Some node'" for j node'
    using that w(3) touches_file_content [OF assms(1) w(3) i(1), of j rootfs]
    by (auto simp: inode_of_def touches_def split: if_splits)
  then show ?thesis using w(1) r ok content(1) c' read_inode_eq [OF ok] by simp
qed

lemma write_refines_overwrite_witness:
  "\<exists>fs'. write_inode [7, 8, 9] 5 4 [1] (upd_inode 5 (\<lambda>x. x\<lparr> in_used := True, in_size := 2, in_src := Embedded 1 2 \<rparr>) ramfs_new) =
      Some (Inr 1, fs') \<and> read_inode [7, 8, 9] 5 0 10 fs' = Some (Inr [8, 9, 0, 0, 1])"
proof -
  let ?fs = "upd_inode 5 (\<lambda>x. x\<lparr> in_used := True, in_size := 2, in_src := Embedded 1 2 \<rparr>) ramfs_new"
  have own: "owned ?fs j = []" for j by (simp add: owned_def upd_inode_def ramfs_new_def inode_empty_def)
  have ok: "data_ok (length [7, 8, 9 :: u8]) ?fs"
  proof -
    have "file_ok (length [7, 8, 9 :: u8]) ?fs j" for j
      unfolding file_ok_def own by (simp add: upd_inode_def ramfs_new_def inode_empty_def)
    then show ?thesis unfolding data_ok_def own by (intro conjI allI impI) simp_all
  qed
  have node: "inode_of ?fs 5 = Some (inodes ?fs 5)" by (simp add: inode_of_def upd_inode_def MAX_INODES_def)
  have free: "free_pages ?fs = 128" by (simp add: free_pages_def upd_inode_def ramfs_new_def MAX_DATA_PAGES_def)
  have sz: "in_size (inodes ?fs 5) = 2" by (simp add: upd_inode_def)
  have content: "file_content [7, 8, 9] ?fs 5 = [8, 9]" by (simp add: file_content_def upd_inode_def)
  have kind: "in_kind (inodes ?fs 5) = RegularFile" "backed ?fs 5"
    by (simp_all add: upd_inode_def ramfs_new_def inode_empty_def backed_def)
  have "overwrite 4 0 [1] [8, 9] = [8, 9, 0, 0, 1 :: u8]" by code_simp
  moreover have "max (in_size (inodes ?fs 5)) (4 + length [1 :: u8]) \<le> PAGE * MAX_FILE_PAGES"
    "max (in_size (inodes ?fs 5)) (4 + length [1 :: u8]) \<le> PAGE * (free_pages ?fs + length (owned ?fs 5))"
    unfolding own free sz by (simp_all add: PAGE_def MAX_FILE_PAGES_def)
  ultimately obtain fs' where "write_inode [7, 8, 9] 5 4 [1] ?fs = Some (Inr (length [1 :: u8]), fs')"
    "read_inode [7, 8, 9] 5 0 10 fs' = Some (Inr (take 10 (drop 0 [8, 9, 0, 0, 1])))"
    using write_refines_overwrite [OF ok node kind, of "[1]" 4] unfolding content by auto
  then show ?thesis by (intro exI [of _ fs']) simp
qed

section \<open>Giving data back\<close>

lemma free_data_law:
  assumes "data_ok L fs" "i < MAX_INODES" "in_used (inodes fs i)"
  shows "data_ok L (free_inode_data i fs)" "touches i fs (free_inode_data i fs)" "owned (free_inode_data i fs) i = []"
proof -
  let ?fs = "free_inode_data i fs"
  have ino: "inodes ?fs i = (inodes fs i)\<lparr> in_src := NoData, in_size := 0 \<rparr>" "\<And>j. j \<noteq> i \<Longrightarrow> inodes ?fs j = inodes fs j"
    "dirents ?fs = dirents fs" "pages ?fs = pages fs"
    by (auto simp: free_inode_data_def upd_inode_def Let_def split: inode_data.splits)
  show own: "owned ?fs i = []" by (simp add: owned_def ino(1))
  have used: "page_used ?fs p \<longleftrightarrow> page_used fs p \<and> \<not> (\<exists>ps. in_src (inodes fs i) = Pages ps \<and> p \<in> set ps \<and> p < MAX_DATA_PAGES)" for p
    by (auto simp: free_inode_data_def upd_inode_def Let_def split: inode_data.splits)
  have "page_used ?fs p \<and> pages ?fs p = pages fs p" if "page_used fs p" "p \<notin> set (owned fs i)" for p
    using that assms(3) unfolding used ino(4) owned_def by auto
  then show t: "touches i fs ?fs" by (intro touchesI [OF ino(3,2,1)]) (simp_all add: own)
  have "file_ok L ?fs i" by (simp add: file_ok_def own ino)
  then show "data_ok L ?fs" using touches_data_ok [OF assms(1) t _ assms(2)] by simp
qed

end
