(* ===== verification/Vfs_Paths.thy ===== *)
theory Vfs_Paths
  imports Vfs_Ramfs
begin

text \<open>
  Names and paths. Entries lie in directories, lead to inodes in use, and are unique; this is \<open>names_ok\<close>, kept by all
  operations. On top of it, what resolving a path means is related to the split of a path into its directory and its
  last name, on which creation and removal are based.
\<close>

section \<open>Resolving composed paths\<close>

lemma walk_from_slash [simp]: "walk_from fs cur (slash # q) = walk_from fs cur q"
  by (subst (1 2) walk_from.simps) simp

lemma walk_from_slashes: "list_all (\<lambda>b. b = slash) s \<Longrightarrow> walk_from fs cur (s @ q) = walk_from fs cur q"
  by (induction s) simp_all

lemma walk_from_Nil [simp]: "walk_from fs cur [] = Inr cur"
  by (subst walk_from.simps) simp

text \<open>One step, with the rest of the path still to go.\<close>

definition walk_name :: "ramfs \<Rightarrow> nat \<Rightarrow> u8 list \<Rightarrow> int + nat" where
  "walk_name fs cur name =
     (if name = [dot] then Inr cur
      else if name = [dot, dot] then Inr (case inode_of fs cur of Some node \<Rightarrow> in_parent node | None \<Rightarrow> cur)
      else case lookup fs cur name of None \<Rightarrow> Inl ENOENT | Some c \<Rightarrow> Inr c)"

definition and_walk :: "int + nat \<Rightarrow> (nat \<Rightarrow> int + nat) \<Rightarrow> int + nat" where
  "and_walk r k = (case r of Inl e \<Rightarrow> Inl e | Inr c \<Rightarrow> k c)"

lemma and_walk_simps [simp]: "and_walk (Inl e) k = Inl e" "and_walk (Inr c) k = k c" "and_walk r Inr = r"
  by (simp_all add: and_walk_def split: sum.splits)

lemma and_walk_assoc: "and_walk (and_walk r k) h = and_walk r (\<lambda>c. and_walk (k c) h)"
  by (simp add: and_walk_def split: sum.splits)

lemma walk_from_step:
  assumes "p \<noteq> []" "hd p \<noteq> slash"
  shows "walk_from fs cur p = and_walk (walk_name fs cur (takeWhile (\<lambda>b. b \<noteq> slash) p))
    (\<lambda>c. walk_from fs c (dropWhile (\<lambda>b. b \<noteq> slash) p))"
proof -
  have "dropWhile (\<lambda>b. b = slash) p = p" using assms by (cases p) auto
  then show ?thesis using assms(1)
    by (subst walk_from.simps) (simp add: Let_def walk_name_def and_walk_def split: option.splits)
qed

lemma walk_from_append: "walk_from fs cur (p @ slash # q) = and_walk (walk_from fs cur p) (\<lambda>c. walk_from fs c q)"
proof (induction "length p" arbitrary: p cur rule: less_induct)
  case less
  define p' where "p' = dropWhile (\<lambda>b. b = slash) p"
  define s where "s = takeWhile (\<lambda>b. b = slash) p"
  have p: "p = s @ p'" and s: "list_all (\<lambda>b. b = slash) s"
    by (simp_all add: p'_def s_def list_all_iff) (auto dest: set_takeWhileD)
  have drop: "walk_from fs cur p = walk_from fs cur p'" "walk_from fs cur (p @ slash # q) = walk_from fs cur (p' @ slash # q)"
    unfolding p by (simp_all add: walk_from_slashes [OF s])
  show ?case
  proof (cases "p' = []")
    case False
    then have hd: "hd p' \<noteq> slash" using hd_dropWhile [of "\<lambda>b. b = slash" p] by (simp add: p'_def)
    define rest where "rest = dropWhile (\<lambda>b. b \<noteq> slash) p'"
    have shorter: "length rest < length p" using path_rest_shorter [of p] False by (simp add: rest_def p'_def)
    have tw: "takeWhile (\<lambda>b. b \<noteq> slash) (p' @ slash # q) = takeWhile (\<lambda>b. b \<noteq> slash) p'"
      by (induction p') auto
    have dw: "dropWhile (\<lambda>b. b \<noteq> slash) (p' @ slash # q) = rest @ slash # q"
      unfolding rest_def by (induction p') auto
    have hd2: "hd (p' @ slash # q) \<noteq> slash" using hd False by simp
    show ?thesis unfolding drop walk_from_step [OF False hd] walk_from_step [OF _ hd2, of fs cur, simplified] tw dw
      rest_def [symmetric] and_walk_assoc using less.hyps [OF shorter] by simp
  qed (simp add: drop)
qed

lemma walk_from_name:
  assumes "name \<noteq> []" "slash \<notin> set name" "list_all (\<lambda>b. b = slash) s"
  shows "walk_from fs cur (name @ s) = walk_name fs cur name"
proof -
  have hd: "hd (name @ s) \<noteq> slash" using assms(1,2) by (cases name) auto
  have tw: "takeWhile (\<lambda>b. b \<noteq> slash) (name @ s) = name" "dropWhile (\<lambda>b. b \<noteq> slash) (name @ s) = s"
    using assms(2,3) by (cases s; auto simp: takeWhile_append dropWhile_append)+
  show ?thesis using walk_from_step [OF _ hd, of fs cur] assms(1) walk_from_slashes [OF assms(3), of fs _ "[]"] unfolding tw by simp
qed

text \<open>The split of a path agrees with resolving it: the last name is looked up in the directory of the rest.\<close>

lemma path_split:
  assumes "path \<noteq> []"
  obtains "list_all (\<lambda>b. b = slash) path" "\<And>fs. split_parent fs path = Some (ROOT_INO, [])"
  | q name where "name \<noteq> []" "slash \<notin> set name"
      "\<And>fs. split_parent fs path = (case walk fs q of Inl _ \<Rightarrow> None | Inr parent \<Rightarrow> Some (parent, name))"
      "\<And>fs. walk fs path = and_walk (walk fs q) (\<lambda>parent. walk_name fs parent name)"
proof -
  define st where "st = rev (dropWhile (\<lambda>b. b = slash) (rev path))"
  define s where "s = rev (takeWhile (\<lambda>b. b = slash) (rev path))"
  define nm where "nm = rev (takeWhile (\<lambda>b. b \<noteq> slash) (rev st))"
  define pre where "pre = rev (dropWhile (\<lambda>b. b \<noteq> slash) (rev st))"
  have path: "path = st @ s" unfolding st_def s_def by (metis rev_append rev_rev_ident takeWhile_dropWhile_id)
  have s: "list_all (\<lambda>b. b = slash) s" by (auto simp: s_def list_all_iff dest: set_takeWhileD)
  have st: "st = pre @ nm" unfolding pre_def nm_def by (metis rev_append rev_rev_ident takeWhile_dropWhile_id)
  have nm: "slash \<notin> set nm" by (auto simp: nm_def dest: set_takeWhileD)
  have pre: "pre = [] \<or> last pre = slash"
    using hd_dropWhile [of "\<lambda>b. b \<noteq> slash" "rev st"] by (auto simp: pre_def last_rev)
  show thesis
  proof (cases "st = []")
    case True
    then have "split_parent fs path = Some (ROOT_INO, [])" for fs
      using assms unfolding split_parent_def Let_def st_def [symmetric] by simp
    moreover have "list_all (\<lambda>b. b = slash) path" using True s by (simp add: path)
    ultimately show thesis using that(1) by blast
  next
    case False
    have "dropWhile (\<lambda>b. b = slash) (rev path) \<noteq> []" using False by (simp add: st_def)
    from hd_dropWhile [OF this] have "hd (rev st) \<noteq> slash" by (simp add: st_def)
    then have nm_ne: "nm \<noteq> []" using False by (cases "rev st") (auto simp: nm_def)
    define q where "q = (if length pre \<le> 1 then [slash] else take (length pre - 1) path)"
    have start: "length st - length nm = length pre" by (simp add: st)
    have sp: "split_parent fs path = (case walk fs q of Inl _ \<Rightarrow> None | Inr parent \<Rightarrow> Some (parent, nm))" for fs
      using assms False unfolding split_parent_def Let_def st_def [symmetric] nm_def [symmetric] start q_def by argo
    have "walk fs path = and_walk (walk fs q) (\<lambda>parent. walk_name fs parent nm)" for fs
    proof (cases "length pre \<le> 1")
      case True
      then have "pre = [] \<or> pre = [slash]" using pre by (cases pre) auto
      then have "walk fs path = walk_from fs ROOT_INO (nm @ s)" using assms by (auto simp: walk_def path st)
      then show ?thesis using True walk_from_name [OF nm_ne nm s] by (simp add: walk_def q_def)
    next
      case False
      then have "q = butlast pre" by (simp add: q_def path st butlast_conv_take)
      moreover have "butlast pre \<noteq> []" using False by (cases pre; auto simp: butlast_conv_take)
      moreover have "path = butlast pre @ slash # (nm @ s)" using pre False
        by (metis append.assoc append_Cons append_Nil append_butlast_last_id list.size(3) path st zero_le)
      ultimately show ?thesis using assms walk_from_name [OF nm_ne nm s] by (simp add: walk_def walk_from_append)
    qed
    with that(2) nm_ne nm sp show thesis by blast
  qed
qed

lemma split_parent_walk:
  assumes "split_parent fs path = Some (parent, name)"
  shows "name = [] \<and> parent = ROOT_INO \<or> name \<noteq> [] \<and> slash \<notin> set name \<and> walk fs path = walk_name fs parent name"
proof -
  have "path \<noteq> []" using assms by (auto simp: split_parent_def)
  then show ?thesis
    by (cases rule: path_split) (use assms in \<open>auto simp: and_walk_def split: sum.splits\<close>)
qed

section \<open>Sound names\<close>

definition dir_ok :: "ramfs \<Rightarrow> nat \<Rightarrow> bool" where
  "dir_ok fs i \<longleftrightarrow> i < MAX_INODES \<and> in_used (inodes fs i) \<and> in_kind (inodes fs i) = Directory"

definition used_entry :: "ramfs \<Rightarrow> nat \<Rightarrow> bool" where
  "used_entry fs d \<longleftrightarrow> d < MAX_DIR_ENTRIES \<and> de_used (dirents fs d)"

definition entry_ok :: "ramfs \<Rightarrow> dirent \<Rightarrow> bool" where
  "entry_ok fs e \<longleftrightarrow> dir_ok fs (de_parent e) \<and> de_child e < MAX_INODES \<and> in_used (inodes fs (de_child e)) \<and>
     plain_name (de_name e) \<and> slash \<notin> set (de_name e)"

definition apart :: "dirent \<Rightarrow> dirent \<Rightarrow> bool" where
  "apart e e' \<longleftrightarrow> (de_parent e, de_name e) \<noteq> (de_parent e', de_name e') \<and> de_child e \<noteq> de_child e'"

definition names_ok :: "ramfs \<Rightarrow> bool" where
  "names_ok fs \<longleftrightarrow> (\<forall>d. used_entry fs d \<longrightarrow> entry_ok fs (dirents fs d)) \<and>
     (\<forall>d d'. used_entry fs d \<and> used_entry fs d' \<and> d \<noteq> d' \<longrightarrow> apart (dirents fs d) (dirents fs d')) \<and>
     (\<forall>i < MAX_INODES. in_used (inodes fs i) \<longrightarrow> dir_ok fs (in_parent (inodes fs i)) \<and> dir_ok fs ROOT_INO)"

lemma names_okD:
  assumes "names_ok fs"
  shows "used_entry fs d \<Longrightarrow> entry_ok fs (dirents fs d)"
    "used_entry fs d \<Longrightarrow> used_entry fs d' \<Longrightarrow> d \<noteq> d' \<Longrightarrow> apart (dirents fs d) (dirents fs d')"
    "i < MAX_INODES \<Longrightarrow> in_used (inodes fs i) \<Longrightarrow> dir_ok fs (in_parent (inodes fs i)) \<and> dir_ok fs ROOT_INO"
  using assms unfolding names_ok_def by blast+

text \<open>What a step that only concerns data, references or link counts leaves alone.\<close>

definition same_names :: "ramfs \<Rightarrow> ramfs \<Rightarrow> bool" where
  "same_names fs fs' \<longleftrightarrow> dirents fs' = dirents fs \<and> (\<forall>i. in_used (inodes fs' i) = in_used (inodes fs i) \<and>
     in_kind (inodes fs' i) = in_kind (inodes fs i) \<and> in_parent (inodes fs' i) = in_parent (inodes fs i))"

lemma same_names_refl [simp]: "same_names fs fs"
  by (simp add: same_names_def)

lemma same_names_trans: "same_names a b \<Longrightarrow> same_names b c \<Longrightarrow> same_names a c"
  by (simp add: same_names_def)

lemma same_names_simps:
  assumes "same_names fs fs'"
  shows "dir_ok fs' = dir_ok fs" "used_entry fs' = used_entry fs" "entry_ok fs' = entry_ok fs" "lookup fs' = lookup fs"
    "names_ok fs' = names_ok fs"
proof -
  have d: "dirents fs' = dirents fs" and i: "\<And>i. in_used (inodes fs' i) = in_used (inodes fs i)"
    "\<And>i. in_kind (inodes fs' i) = in_kind (inodes fs i)" "\<And>i. in_parent (inodes fs' i) = in_parent (inodes fs i)"
    using assms by (simp_all add: same_names_def)
  show dir: "dir_ok fs' = dir_ok fs" by (simp add: dir_ok_def i fun_eq_iff)
  show ue: "used_entry fs' = used_entry fs" by (simp add: used_entry_def d fun_eq_iff)
  show eo: "entry_ok fs' = entry_ok fs" by (simp add: entry_ok_def dir i fun_eq_iff)
  have "matching fs' = matching fs" by (intro ext) (simp add: matching_def d)
  then show "lookup fs' = lookup fs" by (intro ext) (simp add: lookup_def d)
  show "names_ok fs' = names_ok fs" by (simp add: names_ok_def dir ue eo d i)
qed

lemma same_names_steps [simp]:
  "same_names fs (snd (retain i fs))" "same_names fs (snd (release i fs))" "same_names fs (truncate_inode i fs)"
  "same_names fs (free_inode_data i fs)"
  by (auto simp: same_names_def retain_def release_def truncate_inode_def free_inode_data_def upd_inode_def Let_def
      split: inode_data.splits)

lemma lookup_iff:
  assumes "names_ok fs"
  shows "lookup fs dir name = Some c \<longleftrightarrow>
    (\<exists>d. used_entry fs d \<and> de_parent (dirents fs d) = dir \<and> de_name (dirents fs d) = name \<and> de_child (dirents fs d) = c)"
proof
  assume "lookup fs dir name = Some c"
  then show "\<exists>d. used_entry fs d \<and> de_parent (dirents fs d) = dir \<and> de_name (dirents fs d) = name \<and> de_child (dirents fs d) = c"
    by (auto simp: lookup_def find_Some_iff matching_def name_eq_def used_entry_def)
next
  assume "\<exists>d. used_entry fs d \<and> de_parent (dirents fs d) = dir \<and> de_name (dirents fs d) = name \<and> de_child (dirents fs d) = c"
  then obtain d where d: "used_entry fs d" "de_parent (dirents fs d) = dir" "de_name (dirents fs d) = name" "de_child (dirents fs d) = c"
    by blast
  then have "find (matching fs dir name) [0..<MAX_DIR_ENTRIES] \<noteq> None"
    by (auto simp: find_None_iff matching_def name_eq_def used_entry_def)
  then obtain e where e: "find (matching fs dir name) [0..<MAX_DIR_ENTRIES] = Some e" by blast
  then have "used_entry fs e" "de_parent (dirents fs e) = dir" "de_name (dirents fs e) = name"
    by (auto simp: find_Some_iff matching_def name_eq_def used_entry_def)
  then have "e = d" using names_okD(2) [OF assms d(1), of e] d by (auto simp: apart_def)
  then show "lookup fs dir name = Some c" using e d(4) by (simp add: lookup_def)
qed

lemma lookup_None_iff:
  "lookup fs dir name = None \<longleftrightarrow> (\<forall>d. used_entry fs d \<longrightarrow> (de_parent (dirents fs d), de_name (dirents fs d)) \<noteq> (dir, name))"
  by (auto simp: lookup_def find_None_iff matching_def name_eq_def used_entry_def)

text \<open>Resolving stays among inodes in use.\<close>

lemma walk_name_used:
  assumes "names_ok fs" "cur < MAX_INODES" "walk_name fs cur name = Inr i"
  shows "i < MAX_INODES" "in_used (inodes fs cur) \<Longrightarrow> in_used (inodes fs i)"
proof -
  have l: "i < MAX_INODES \<and> in_used (inodes fs i)" if "lookup fs cur name = Some i"
    using that names_okD(1) [OF assms(1)] by (auto simp: lookup_iff [OF assms(1)] entry_ok_def)
  show "i < MAX_INODES" "in_used (inodes fs cur) \<Longrightarrow> in_used (inodes fs i)"
    using assms l names_okD(3) [OF assms(1), of cur]
    by (auto simp: walk_name_def inode_of_def dir_ok_def split: if_splits option.splits)
qed

lemma walk_from_used:
  assumes "names_ok fs" "cur < MAX_INODES" "walk_from fs cur path = Inr i"
  shows "i < MAX_INODES \<and> (in_used (inodes fs cur) \<longrightarrow> in_used (inodes fs i))"
  using assms(2,3)
proof (induction "length path" arbitrary: path cur rule: less_induct)
  case less
  define p where "p = dropWhile (\<lambda>b. b = slash) path"
  have "path = takeWhile (\<lambda>b. b = slash) path @ p" "list_all (\<lambda>b. b = slash) (takeWhile (\<lambda>b. b = slash) path)"
    by (auto simp: p_def list_all_iff dest: set_takeWhileD)
  then have eq: "walk_from fs cur path = walk_from fs cur p" by (metis walk_from_slashes)
  show ?case
  proof (cases "p = []")
    case False
    then have hd: "hd p \<noteq> slash" using hd_dropWhile [of "\<lambda>b. b = slash" path] by (simp add: p_def)
    define rest where "rest = dropWhile (\<lambda>b. b \<noteq> slash) p"
    have shorter: "length rest < length path" using path_rest_shorter [of path] False by (simp add: rest_def p_def)
    obtain c where c: "walk_name fs cur (takeWhile (\<lambda>b. b \<noteq> slash) p) = Inr c" "walk_from fs c rest = Inr i"
      using less.prems(2) unfolding eq walk_from_step [OF False hd] rest_def [symmetric] by (auto simp: and_walk_def split: sum.splits)
    show ?thesis using walk_name_used [OF assms(1) less.prems(1) c(1)] less.hyps [OF shorter _ c(2)] by blast
  qed (use less.prems eq in auto)
qed

lemma ROOT_INO_bound [simp]: "ROOT_INO < MAX_INODES"
  by (simp add: ROOT_INO_def MAX_INODES_def)

lemma walk_used: "names_ok fs \<Longrightarrow> walk fs path = Inr i \<Longrightarrow> i < MAX_INODES \<and> (in_used (inodes fs ROOT_INO) \<longrightarrow> in_used (inodes fs i))"
  by (auto simp: walk_def dest: walk_from_used [OF _ ROOT_INO_bound] split: if_splits)

section \<open>Creation\<close>

lemma names_ok_new_inode:
  assumes "names_ok fs" "i < MAX_INODES" "\<not> in_used (inodes fs i)" "dir_ok fs (in_parent x)" "in_used x"
    and fs': "fs' = upd_inode i (\<lambda>_. x) fs"
  shows "names_ok fs'" "lookup fs' = lookup fs" "\<And>j. dir_ok fs j \<Longrightarrow> dir_ok fs' j"
proof -
  have ino: "inodes fs' j = (if j = i then x else inodes fs j)" for j by (simp add: fs' upd_inode_def)
  have d: "dirents fs' = dirents fs" by (simp add: fs' upd_inode_def)
  show dir: "dir_ok fs' j" if "dir_ok fs j" for j using that assms(3) by (auto simp: dir_ok_def ino)
  have ue: "used_entry fs' e = used_entry fs e" for e by (simp add: used_entry_def d)
  have "matching fs' = matching fs" by (intro ext) (simp add: matching_def d)
  then show "lookup fs' = lookup fs" by (intro ext) (simp add: lookup_def d)
  have root: "dir_ok fs ROOT_INO" using assms(4) names_okD(3) [OF assms(1)] by (auto simp: dir_ok_def)
  have "entry_ok fs' (dirents fs e)" if "used_entry fs e" for e
    using names_okD(1) [OF assms(1) that] dir assms(5) by (auto simp: entry_ok_def ino)
  moreover have "dir_ok fs' (in_parent (inodes fs' j)) \<and> dir_ok fs' ROOT_INO" if "j < MAX_INODES" "in_used (inodes fs' j)" for j
    using that names_okD(3) [OF assms(1), of j] dir root assms(4) by (auto simp: ino split: if_splits)
  ultimately show "names_ok fs'" using names_okD(2) [OF assms(1)] unfolding names_ok_def d ue by blast
qed

lemma names_ok_new_entry:
  assumes "names_ok fs" "d < MAX_DIR_ENTRIES" "\<not> de_used (dirents fs d)" "entry_ok fs e" "de_used e"
    and fresh: "lookup fs (de_parent e) (de_name e) = None" "\<And>d'. used_entry fs d' \<Longrightarrow> de_child (dirents fs d') \<noteq> de_child e"
    and fs': "fs' = fs\<lparr> dirents := (dirents fs)(d := e) \<rparr>"
  shows "names_ok fs'" "lookup fs' dir name = (if (dir, name) = (de_parent e, de_name e) then Some (de_child e) else lookup fs dir name)"
    "inodes fs' = inodes fs"
proof -
  show ino: "inodes fs' = inodes fs" by (simp add: fs')
  have ent: "dirents fs' d' = (if d' = d then e else dirents fs d')" for d' by (simp add: fs')
  have ue: "used_entry fs' d' \<longleftrightarrow> d' = d \<or> used_entry fs d'" for d' using assms(2,5) by (auto simp: used_entry_def ent)
  have nd: "\<not> used_entry fs d" using assms(3) by (simp add: used_entry_def)
  have dir: "dir_ok fs' = dir_ok fs" "entry_ok fs' = entry_ok fs" by (simp_all add: fun_eq_iff dir_ok_def entry_ok_def ino)
  have ap: "apart e (dirents fs d') \<and> apart (dirents fs d') e" if "used_entry fs d'" for d'
    using fresh(1) fresh(2) [OF that] that unfolding apart_def lookup_None_iff by metis
  have 1: "entry_ok fs' (dirents fs' d')" if "used_entry fs' d'" for d'
    using that assms(4) names_okD(1) [OF assms(1)] nd by (auto simp: ue dir ent)
  have 2: "apart (dirents fs' a) (dirents fs' b)" if "used_entry fs' a" "used_entry fs' b" "a \<noteq> b" for a b
    using that ap names_okD(2) [OF assms(1)] nd by (auto simp: ue ent)
  show ok: "names_ok fs'" using 1 2 names_okD(3) [OF assms(1)] unfolding names_ok_def dir ino by blast
  show "lookup fs' dir name = (if (dir, name) = (de_parent e, de_name e) then Some (de_child e) else lookup fs dir name)"
  proof (cases "(dir, name) = (de_parent e, de_name e)")
    case True
    then show ?thesis by (auto simp: lookup_iff [OF ok] ue ent)
  next
    case False
    then have "lookup fs' dir name = Some c \<longleftrightarrow> lookup fs dir name = Some c" for c
      unfolding lookup_iff [OF ok] lookup_iff [OF assms(1)] using nd by (auto simp: ue ent)
    then have "lookup fs' dir name = lookup fs dir name" by (metis not_Some_eq)
    then show ?thesis using False by auto
  qed
qed

text \<open>
  The result of creating \<open>name\<close> in \<open>parent\<close>: a new inode with the one new name; link counts aside, every
  inode in use is as before.
\<close>

definition created :: "nat \<Rightarrow> u8 list \<Rightarrow> file_kind \<Rightarrow> nat \<Rightarrow> ramfs \<Rightarrow> ramfs \<Rightarrow> bool" where
  "created parent name kind inum fs fs' \<longleftrightarrow> inum < MAX_INODES \<and> \<not> in_used (inodes fs inum) \<and> dir_ok fs parent \<and>
     in_used (inodes fs' inum) \<and> in_kind (inodes fs' inum) = kind \<and> in_size (inodes fs' inum) = 0 \<and> in_src (inodes fs' inum) = NoData \<and>
     (\<forall>j. j \<noteq> inum \<longrightarrow> (\<exists>n. inodes fs' j = (inodes fs j)\<lparr> in_nlink := n \<rparr>)) \<and> lookup fs parent name = None \<and>
     (\<forall>dir nm. lookup fs' dir nm = (if (dir, nm) = (parent, name) then Some inum else lookup fs dir nm))"

lemma alloc_inode_cases:
  obtains i where "0 < i" "i < MAX_INODES" "\<not> in_used (inodes fs i)"
      "alloc_inode kind mode parent fs = ok_with i (upd_inode i (\<lambda>_. \<lparr> in_used = True, in_kind = kind,
         in_nlink = (if kind = Directory then 2 else 1), in_refs = 0, in_mode = mode, in_size = 0, in_parent = parent, in_src = NoData \<rparr>) fs)"
  | "alloc_inode kind mode parent fs = err_with ENOSPC fs"
proof (cases "find (\<lambda>i. \<not> in_used (inodes fs i)) [1..<MAX_INODES]")
  case None
  then show thesis using that(2) by (simp add: alloc_inode_def)
next
  case (Some i)
  then have "0 < i" "i < MAX_INODES" "\<not> in_used (inodes fs i)" by (auto simp: find_Some_iff)
  then show thesis using that(1) Some by (simp add: alloc_inode_def)
qed

lemma add_dirent_cases:
  obtains d where "d < MAX_DIR_ENTRIES" "\<not> de_used (dirents fs d)"
      "add_dirent parent child name fs = ok_with () (fs\<lparr> dirents := (dirents fs)(d :=
         \<lparr> de_used = True, de_parent = parent, de_child = child, de_name = name \<rparr>) \<rparr>)"
  | "add_dirent parent child name fs = err_with ENOSPC fs"
proof (cases "find (\<lambda>i. \<not> de_used (dirents fs i)) [0..<MAX_DIR_ENTRIES]")
  case None
  then show thesis using that(2) by (simp add: add_dirent_def)
next
  case (Some d)
  then have "d < MAX_DIR_ENTRIES" "\<not> de_used (dirents fs d)" by (auto simp: find_Some_iff)
  then show thesis using that(1) Some by (simp add: add_dirent_def)
qed

lemma unused_child:
  assumes "names_ok fs" "\<not> in_used (inodes fs i)" "used_entry fs d"
  shows "de_child (dirents fs d) \<noteq> i" "de_parent (dirents fs d) \<noteq> i"
  using names_okD(1) [OF assms(1,3)] assms(2) by (auto simp: entry_ok_def dir_ok_def)

lemma same_names_nlink: "same_names fs (upd_inode i (\<lambda>x. x\<lparr> in_nlink := g x \<rparr>) fs)"
  by (simp add: same_names_def upd_inode_def)

lemma create_file_cases:
  assumes "names_ok fs" "plain_name name" "slash \<notin> set name"
  shows "\<exists>r fs'. create_file parent name kind mode fs = Some (r, fs') \<and> names_ok fs' \<and>
    (case r of
       Inr inum \<Rightarrow> created parent name kind inum fs fs' \<and> in_parent (inodes fs' inum) = parent
     | Inl _ \<Rightarrow> fs' = fs \<or> (\<exists>i. i < MAX_INODES \<and> \<not> in_used (inodes fs i) \<and> dir_ok fs parent \<and>
         (\<exists>n. fs' = upd_inode i (\<lambda>_. \<lparr> in_used = True, in_kind = kind, in_nlink = n, in_refs = 0, in_mode = mode, in_size = 0,
            in_parent = parent, in_src = NoData \<rparr>) fs)))"
proof (cases "length name = 0 \<or> NAME_MAX < length name \<or> lookup fs parent name \<noteq> None \<or> \<not> dir_ok fs parent")
  case True
  then show ?thesis using assms(1)
    by (auto simp: create_file_def err_with_def inode_of_def dir_ok_def split: option.splits if_splits)
next
  case False
  then have dir: "dir_ok fs parent" and free: "lookup fs parent name = None" by auto
  have go: "create_file parent name kind mode fs = and_then (alloc_inode kind mode parent fs) (\<lambda>inum fs.
      and_then (add_dirent parent inum name fs) (\<lambda>_ fs. ok_with inum (if kind = Directory
        then upd_inode parent (\<lambda>x. x\<lparr> in_nlink := min 65535 (in_nlink x + 1) \<rparr>) fs else fs)))"
    using False by (auto simp: create_file_def inode_of_def dir_ok_def)
  show ?thesis
  proof (cases rule: alloc_inode_cases [of fs kind mode parent])
    case (1 i)
    define x where "x = \<lparr> in_used = True, in_kind = kind, in_nlink = (if kind = Directory then 2 else 1), in_refs = 0, in_mode = mode,
      in_size = 0, in_parent = parent, in_src = NoData \<rparr>"
    define fs1 where "fs1 = upd_inode i (\<lambda>_. x) fs"
    have xs: "in_parent x = parent" "in_used x" by (simp_all add: x_def)
    note n1 = names_ok_new_inode [OF assms(1) 1(2,3) _ xs(2) fs1_def, unfolded xs(1), OF dir]
    have ino1: "inodes fs1 j = (if j = i then x else inodes fs j)" for j by (simp add: fs1_def upd_inode_def)
    have go1: "create_file parent name kind mode fs = and_then (add_dirent parent i name fs1) (\<lambda>_ fs. ok_with i (if kind = Directory
        then upd_inode parent (\<lambda>x. x\<lparr> in_nlink := min 65535 (in_nlink x + 1) \<rparr>) fs else fs))"
      by (simp add: go 1(4) fs1_def x_def)
    show ?thesis
    proof (cases rule: add_dirent_cases [of fs1 parent i name])
      case d: (1 d)
      define e where "e = \<lparr> de_used = True, de_parent = parent, de_child = i, de_name = name \<rparr>"
      define fs2 where "fs2 = fs1\<lparr> dirents := (dirents fs1)(d := e) \<rparr>"
      define fs3 where "fs3 = (if kind = Directory then upd_inode parent (\<lambda>x. x\<lparr> in_nlink := min 65535 (in_nlink x + 1) \<rparr>) fs2 else fs2)"
      have es: "de_parent e = parent" "de_name e = name" "de_child e = i" "de_used e" by (simp_all add: e_def)
      have eok: "entry_ok fs1 e" using n1(3) [OF dir] assms(2,3) 1(2) by (simp add: entry_ok_def es ino1 xs)
      have uc: "de_child (dirents fs1 d') \<noteq> i" if "used_entry fs1 d'" for d'
        using unused_child(1) [OF assms(1) 1(3), of d'] that by (simp add: fs1_def upd_inode_def used_entry_def)
      note n2 = names_ok_new_entry [OF n1(1) d(1,2) eok es(4) _ _ fs2_def, unfolded es n1(2), OF free uc]
      have s3: "same_names fs2 fs3" by (simp add: fs3_def same_names_nlink)
      have res: "create_file parent name kind mode fs = Some (Inr i, fs3)"
        by (simp add: go1 d(3) fs3_def fs2_def e_def ok_with_def)
      have "i \<noteq> parent" using 1(3) dir by (auto simp: dir_ok_def)
      then have "inodes fs3 i = x" using n2(3) by (simp add: fs3_def upd_inode_def ino1)
      moreover have "\<exists>n. inodes fs3 j = (inodes fs j)\<lparr> in_nlink := n \<rparr>" if "j \<noteq> i" for j
      proof -
        have "inodes fs2 j = inodes fs j" using that n2(3) by (simp add: ino1)
        then show ?thesis by (cases "kind = Directory \<and> j = parent") (auto simp: fs3_def upd_inode_def intro: exI [of _ "in_nlink (inodes fs j)"])
      qed
      ultimately have "created parent name kind i fs fs3"
        using n2(2) same_names_simps(4) [OF s3] 1(2,3) dir free by (simp add: created_def x_def)
      then show ?thesis using res n2(1) same_names_simps(5) [OF s3] \<open>inodes fs3 i = x\<close> by (simp add: xs)
    next
      case 2
      then show ?thesis using n1(1) 1(2,3) dir by (auto simp: go1 err_with_def fs1_def x_def)
    qed
  next
    case 2
    then show ?thesis using assms(1) by (simp add: go err_with_def)
  qed
qed

section \<open>Paths before and after\<close>

definition grows_names :: "ramfs \<Rightarrow> ramfs \<Rightarrow> bool" where
  "grows_names fs fs' \<longleftrightarrow> (\<forall>d n c. lookup fs d n = Some c \<longrightarrow> lookup fs' d n = Some c) \<and>
     (\<forall>i < MAX_INODES. in_used (inodes fs i) \<longrightarrow> in_used (inodes fs' i) \<and> in_parent (inodes fs' i) = in_parent (inodes fs i))"

lemma same_names_grows: "same_names fs fs' \<Longrightarrow> grows_names fs fs'"
  using same_names_simps(4) [of fs fs'] by (simp add: grows_names_def same_names_def)

lemma created_grows:
  assumes "created parent name kind inum fs fs'"
  shows "grows_names fs fs'"
proof -
  have "in_used (inodes fs' i) \<and> in_parent (inodes fs' i) = in_parent (inodes fs i)" if "in_used (inodes fs i)" for i
  proof -
    have "i \<noteq> inum" using assms that by (auto simp: created_def)
    then obtain n where "inodes fs' i = (inodes fs i)\<lparr> in_nlink := n \<rparr>" using assms unfolding created_def by blast
    then show ?thesis using that by simp
  qed
  then show ?thesis using assms by (auto simp: grows_names_def created_def)
qed

lemma grows_names_trans: "grows_names a b \<Longrightarrow> grows_names b c \<Longrightarrow> grows_names a c"
  by (simp add: grows_names_def)

lemma walk_name_grows:
  assumes "grows_names fs fs'" "cur < MAX_INODES" "in_used (inodes fs cur)" "walk_name fs cur name = Inr i"
  shows "walk_name fs' cur name = Inr i"
  using assms by (auto simp: walk_name_def inode_of_def grows_names_def split: if_splits option.splits)

lemma walk_from_grows:
  assumes "names_ok fs" "grows_names fs fs'" "cur < MAX_INODES" "in_used (inodes fs cur)" "walk_from fs cur path = Inr i"
  shows "walk_from fs' cur path = Inr i"
  using assms(3-5)
proof (induction "length path" arbitrary: path cur rule: less_induct)
  case less
  define p where "p = dropWhile (\<lambda>b. b = slash) path"
  have "path = takeWhile (\<lambda>b. b = slash) path @ p" "list_all (\<lambda>b. b = slash) (takeWhile (\<lambda>b. b = slash) path)"
    by (auto simp: p_def list_all_iff dest: set_takeWhileD)
  then have eq: "walk_from g cur path = walk_from g cur p" for g by (metis walk_from_slashes)
  show ?case
  proof (cases "p = []")
    case False
    then have hd: "hd p \<noteq> slash" using hd_dropWhile [of "\<lambda>b. b = slash" path] by (simp add: p_def)
    define rest where "rest = dropWhile (\<lambda>b. b \<noteq> slash) p"
    have shorter: "length rest < length path" using path_rest_shorter [of path] False by (simp add: rest_def p_def)
    obtain c where c: "walk_name fs cur (takeWhile (\<lambda>b. b \<noteq> slash) p) = Inr c" "walk_from fs c rest = Inr i"
      using less.prems(3) unfolding eq walk_from_step [OF False hd] rest_def [symmetric] by (auto simp: and_walk_def split: sum.splits)
    note u = walk_name_used [OF assms(1) less.prems(1) c(1)]
    have "walk_from fs' c rest = Inr i" using less.hyps [OF shorter u(1) u(2) [OF less.prems(2)] c(2)] .
    then show ?thesis using walk_name_grows [OF assms(2) less.prems(1,2) c(1)]
      unfolding eq walk_from_step [OF False hd] rest_def [symmetric] by simp
  qed (use less.prems eq in auto)
qed

lemma walk_grows:
  assumes "names_ok fs" "grows_names fs fs'" "in_used (inodes fs ROOT_INO)" "walk fs path = Inr i"
  shows "walk fs' path = Inr i"
  using assms(4) walk_from_grows [OF assms(1,2) ROOT_INO_bound assms(3)] by (auto simp: walk_def split: if_splits)

text \<open>The path that a creation was asked for leads to the new inode.\<close>

lemma created_path:
  assumes "names_ok fs" "walk fs path = Inl e" "split_parent fs path = Some (parent, name)" "plain_name name"
    "created parent name kind inum fs fs'"
  shows "walk fs' path = Inr inum" "slash \<notin> set name"
proof -
  have sp: "name \<noteq> []" "slash \<notin> set name" using split_parent_walk [OF assms(3)] assms(4) by (auto simp: plain_name_def)
  then show "slash \<notin> set name" by simp
  have root: "in_used (inodes fs ROOT_INO)"
    using assms(5) names_okD(3) [OF assms(1)] by (auto simp: created_def dir_ok_def)
  have "split_parent fs' path = Some (parent, name)"
    using assms(3) walk_grows [OF assms(1) created_grows [OF assms(5)] root]
    by (auto simp: split_parent_def Let_def split: if_splits sum.splits)
  then have "walk fs' path = walk_name fs' parent name" using split_parent_walk sp(1) by blast
  then show "walk fs' path = Inr inum" using assms(4,5) by (simp add: walk_name_def plain_name_def created_def)
qed

lemma split_parent_slash: "split_parent fs path = Some (parent, name) \<Longrightarrow> slash \<notin> set name"
  using split_parent_walk by fastforce

lemma mkdir_law:
  assumes "names_ok fs"
  shows "\<exists>r fs'. mkdir path fs = Some (r, fs') \<and> names_ok fs' \<and> (case r of
      Inr inum \<Rightarrow> walk fs' path = Inr inum \<and> dir_ok fs' inum \<and> grows_names fs fs' \<and> (\<exists>parent name. created parent name Directory inum fs fs' \<and>
        split_parent fs path = Some (parent, name))
    | Inl _ \<Rightarrow> True)"
proof (cases "\<exists>parent name e. walk fs path = Inl e \<and> split_parent fs path = Some (parent, name) \<and> plain_name name")
  case True
  then obtain parent name e where p: "walk fs path = Inl e" "split_parent fs path = Some (parent, name)" "plain_name name" by blast
  have m: "mkdir path fs = create_file parent name Directory (S_IFDIR OR 0x1ED) fs" using p by (simp add: mkdir_def)
  obtain r fs' where c: "create_file parent name Directory (S_IFDIR OR 0x1ED) fs = Some (r, fs')" "names_ok fs'"
    "\<And>inum. r = Inr inum \<Longrightarrow> created parent name Directory inum fs fs'"
    using create_file_cases [OF assms p(3) split_parent_slash [OF p(2)], of parent Directory "S_IFDIR OR 0x1ED"] by fastforce
  have "walk fs' path = Inr inum \<and> dir_ok fs' inum \<and> grows_names fs fs'" if "r = Inr inum" for inum
    using created_path [OF assms p c(3) [OF that]] created_grows [OF c(3) [OF that]] c(3) [OF that] by (auto simp: created_def dir_ok_def)
  then show ?thesis using c p(2) unfolding m by (auto split: sum.splits)
next
  case False
  then show ?thesis using assms by (auto simp: mkdir_def err_with_def split: sum.splits option.splits)
qed

section \<open>Opening\<close>

lemma open_existing_law:
  assumes "names_ok fs" "walk fs path = Inr inum" "open_existing inum flags fs = Some (r, fs')"
  shows "same_names fs fs' \<and> (case r of Inr (i, kind, sz) \<Rightarrow> i = inum \<and> (\<exists>node. inode_of fs' inum = Some node \<and>
    in_kind node = kind \<and> in_size node = sz) \<and> in_used (inodes fs ROOT_INO) | Inl _ \<Rightarrow> True)"
proof -
  have tr: "same_names fs (snd (retain inum (truncate_inode inum fs)))"
    by (rule same_names_trans [OF same_names_steps(3) same_names_steps(1)])
  have root: "in_used (inodes fs ROOT_INO)" if "inode_of fs inum = Some node" for node
    using that names_okD(3) [OF assms(1), of inum] by (auto simp: inode_of_def dir_ok_def split: if_splits)
  show ?thesis using assms(3) tr root
    by (auto simp: open_existing_def Let_def err_with_def ok_with_def split: if_splits option.splits)
qed

lemma open_existing_returns: "\<exists>r fs'. open_existing inum flags fs = Some (r, fs')"
  by (auto simp: open_existing_def Let_def err_with_def ok_with_def split: option.splits)

lemma open_path_law:
  assumes "names_ok fs"
  shows "\<exists>r fs'. open_path path flags fs = Some (r, fs') \<and> names_ok fs' \<and> (case r of
      Inr (inum, kind, sz) \<Rightarrow> walk fs' path = Inr inum \<and> (\<exists>node. inode_of fs' inum = Some node \<and> in_kind node = kind \<and> in_size node = sz) \<and>
        grows_names fs fs' \<and> in_used (inodes fs ROOT_INO)
    | Inl _ \<Rightarrow> True)"
proof (cases "walk fs path")
  case (Inr inum)
  obtain r fs' where o: "open_existing inum flags fs = Some (r, fs')" using open_existing_returns by blast
  have l: "same_names fs fs'" "case r of Inr (i, kind, sz) \<Rightarrow> i = inum \<and> (\<exists>node. inode_of fs' inum = Some node \<and>
    in_kind node = kind \<and> in_size node = sz) \<and> in_used (inodes fs ROOT_INO) | Inl _ \<Rightarrow> True"
    using open_existing_law [OF assms Inr o] by blast+
  have "walk fs' path = Inr inum" if "in_used (inodes fs ROOT_INO)"
    using walk_grows [OF assms same_names_grows [OF l(1)] that Inr] .
  then show ?thesis using o l same_names_simps(5) [OF l(1)] assms same_names_grows [OF l(1)] Inr
    by (auto simp: open_path_def split: sum.splits)
next
  case (Inl e)
  show ?thesis
  proof (cases "\<exists>parent name. e = ENOENT \<and> flags AND O_CREAT \<noteq> 0 \<and> split_parent fs path = Some (parent, name) \<and> plain_name name")
    case True
    then obtain parent name where p: "e = ENOENT" "flags AND O_CREAT \<noteq> 0" "split_parent fs path = Some (parent, name)" "plain_name name"
      by blast
    have m: "open_path path flags fs = and_then (create_file parent name RegularFile (S_IFREG OR 0x1A4) fs) (\<lambda>inum fs.
        ok_with (inum, RegularFile, 0) (snd (retain inum fs)))" using p Inl by (simp add: open_path_def)
    obtain r fs' where c: "create_file parent name RegularFile (S_IFREG OR 0x1A4) fs = Some (r, fs')" "names_ok fs'"
      "\<And>inum. r = Inr inum \<Longrightarrow> created parent name RegularFile inum fs fs'"
      using create_file_cases [OF assms p(4) split_parent_slash [OF p(3)], of parent RegularFile "S_IFREG OR 0x1A4"] by fastforce
    show ?thesis
    proof (cases r)
      case (Inr inum)
      note cr = c(3) [OF Inr]
      define fs2 where "fs2 = snd (retain inum fs')"
      have s: "same_names fs' fs2" by (simp add: fs2_def)
      have root: "in_used (inodes fs ROOT_INO)" using cr names_okD(3) [OF assms] by (auto simp: created_def dir_ok_def)
      have root': "in_used (inodes fs' ROOT_INO)" using root created_grows [OF cr] by (simp add: grows_names_def)
      have "walk fs2 path = Inr inum"
        using walk_grows [OF c(2) same_names_grows [OF s] root' created_path(1) [OF assms Inl p(3,4) cr]] .
      moreover have "inode_of fs2 inum = Some (inodes fs2 inum)" "in_kind (inodes fs2 inum) = RegularFile" "in_size (inodes fs2 inum) = 0"
        using cr by (auto simp: created_def fs2_def retain_def inode_of_def upd_inode_def)
      moreover have "open_path path flags fs = Some (Inr (inum, RegularFile, 0), fs2)" by (simp add: m c(1) Inr ok_with_def fs2_def)
      ultimately show ?thesis using root c(2) same_names_simps(5) [OF s] grows_names_trans [OF created_grows [OF cr] same_names_grows [OF s]]
        by auto
    qed (use c(1,2) in \<open>simp add: m\<close>)
  next
    case False
    then show ?thesis using assms Inl by (auto simp: open_path_def err_with_def split: option.splits)
  qed
qed

text \<open>
  C17: when a path is opened, or created by opening it, then afterwards it resolves to the very inode that is
  returned, whose kind and size are the ones reported; every path that resolved before resolves to the same inode
  as before; and names stay unique, inside directories, and leading to inodes in use. No open panics.
\<close>
theorem opened_path_resolves:
  assumes "names_ok fs"
  shows "\<exists>r fs'. open_path path flags fs = Some (r, fs') \<and> names_ok fs' \<and> (\<forall>inum kind sz. r = Inr (inum, kind, sz) \<longrightarrow>
    walk fs' path = Inr inum \<and> (\<exists>node. inode_of fs' inum = Some node \<and> in_kind node = kind \<and> in_size node = sz) \<and>
    (\<forall>p j. walk fs p = Inr j \<longrightarrow> walk fs' p = Inr j))"
proof -
  obtain r fs' where o: "open_path path flags fs = Some (r, fs')" "names_ok fs'" and
    c: "case r of Inr (inum, kind, sz) \<Rightarrow> walk fs' path = Inr inum \<and> (\<exists>node. inode_of fs' inum = Some node \<and> in_kind node = kind \<and>
      in_size node = sz) \<and> grows_names fs fs' \<and> in_used (inodes fs ROOT_INO) | Inl _ \<Rightarrow> True"
    using open_path_law [OF assms] by blast
  then show ?thesis using walk_grows [OF assms] by (cases r) auto
qed

lemma new_root:
  shows "names_ok (snd (init_root ramfs_new))" "\<And>d n. lookup (snd (init_root ramfs_new)) d n = None"
    "\<And>d. \<not> de_used (dirents (snd (init_root ramfs_new)) d)" "\<And>i. in_used (inodes (snd (init_root ramfs_new)) i) \<longleftrightarrow> i = ROOT_INO"
    "dir_ok (snd (init_root ramfs_new)) ROOT_INO" "in_parent (inodes (snd (init_root ramfs_new)) ROOT_INO) = ROOT_INO"
proof -
  let ?fs = "snd (init_root ramfs_new)"
  have nl: "\<not> MAX_INODES \<le> ROOT_INO" using ROOT_INO_bound by linarith
  show d: "\<not> de_used (dirents ?fs d)" for d
    by (simp add: init_root_def ramfs_new_def upd_inode_def dirent_empty_def not_le [symmetric])
  then show "lookup ?fs d n = None" for d n by (simp add: lookup_None_iff used_entry_def)
  show u: "in_used (inodes ?fs i) \<longleftrightarrow> i = ROOT_INO" for i
    using nl by (simp add: init_root_def ramfs_new_def upd_inode_def inode_empty_def)
  show root: "dir_ok ?fs ROOT_INO" using nl by (simp add: dir_ok_def init_root_def ramfs_new_def upd_inode_def)
  show "in_parent (inodes ?fs ROOT_INO) = ROOT_INO" using nl by (simp add: init_root_def ramfs_new_def upd_inode_def)
  then show "names_ok ?fs" using d u root by (simp add: names_ok_def used_entry_def)
qed

lemma opened_path_resolves_witness:
  "\<exists>fs'. open_path [slash, 0x61] O_CREAT (snd (init_root ramfs_new)) = Some (Inr (2, RegularFile, 0), fs') \<and>
    walk fs' [slash, 0x61] = Inr 2 \<and> walk fs' [slash, dot, dot] = Inr ROOT_INO"
proof -
  let ?fs = "snd (init_root ramfs_new)"
  have ch: "slash \<noteq> 0x61" "dot \<noteq> slash" "dot \<noteq> 0x61" by (simp_all add: slash_def dot_def)
  have w: "walk ?fs [slash, 0x61] = Inl ENOENT" "walk ?fs [slash] = Inr ROOT_INO"
    using ch walk_from_name [of "[0x61]" "[]" ?fs ROOT_INO] new_root(2) by (simp_all add: walk_def walk_name_def)
  have dd: "walk ?fs [slash, dot, dot] = Inr ROOT_INO"
    using ch walk_from_name [of "[dot, dot]" "[]" ?fs ROOT_INO]
    by (simp add: walk_def walk_name_def inode_of_def new_root(4,6))
  have s: "split_parent ?fs [slash, 0x61] = Some (ROOT_INO, [0x61])" using w(2) ch by (simp add: split_parent_def)
  have f: "find (\<lambda>i. \<not> in_used (inodes ?fs i)) [1..<MAX_INODES] = Some 2"
    by (simp add: new_root(4) ROOT_INO_def MAX_INODES_def upt_conv_Cons)
  have "inode_of ?fs ROOT_INO = Some (inodes ?fs ROOT_INO)" "in_kind (inodes ?fs ROOT_INO) = Directory"
    using new_root(5) by (simp_all add: dir_ok_def inode_of_def)
  then obtain fs' where "open_path [slash, 0x61] O_CREAT ?fs = Some (Inr (2, RegularFile, 0), fs')"
    using f new_root(2) ch
    by (simp add: open_path_def w(1) s plain_name_def create_file_def NAME_MAX_def alloc_inode_def add_dirent_def ok_with_def
        O_CREAT_def new_root(3) MAX_DIR_ENTRIES_def upt_conv_Cons upd_inode_def)
  then show ?thesis using opened_path_resolves [OF new_root(1), of "[slash, 0x61]" O_CREAT] dd by auto
qed

section \<open>Removal\<close>

lemma walk_error: "walk fs path = Inl e \<Longrightarrow> e = ENOENT"
proof -
  have n: "walk_name fs cur name = Inl e \<Longrightarrow> e = ENOENT" for cur name
    by (auto simp: walk_name_def split: if_splits option.splits)
  have "walk_from fs cur path = Inl e \<Longrightarrow> e = ENOENT" for cur
  proof (induction fs cur path rule: walk_from.induct)
    case (1 fs cur path)
    show ?case using 1(4) 1(1-3) by (subst (asm) walk_from.simps) (auto simp: Let_def split: if_splits option.splits)
  qed
  then show "walk fs path = Inl e \<Longrightarrow> e = ENOENT" by (auto simp: walk_def split: if_splits)
qed

lemma names_ok_drop_entry:
  assumes "names_ok fs" "used_entry fs d" and fs': "fs' = fs\<lparr> dirents := (dirents fs)(d := dirent_empty) \<rparr>"
  shows "names_ok fs'" "lookup fs' dir name =
      (if (dir, name) = (de_parent (dirents fs d), de_name (dirents fs d)) then None else lookup fs dir name)"
    "inodes fs' = inodes fs" "\<And>d'. used_entry fs' d' \<longleftrightarrow> used_entry fs d' \<and> d' \<noteq> d" "\<And>d'. d' \<noteq> d \<Longrightarrow> dirents fs' d' = dirents fs d'"
proof -
  show ino: "inodes fs' = inodes fs" by (simp add: fs')
  show ent: "dirents fs' d' = dirents fs d'" if "d' \<noteq> d" for d' using that by (simp add: fs')
  show ue: "used_entry fs' d' \<longleftrightarrow> used_entry fs d' \<and> d' \<noteq> d" for d' by (auto simp: used_entry_def fs' dirent_empty_def)
  have dir: "dir_ok fs' = dir_ok fs" "entry_ok fs' = entry_ok fs" by (simp_all add: fun_eq_iff dir_ok_def entry_ok_def ino)
  show ok: "names_ok fs'" unfolding names_ok_def dir ino
    using names_okD [OF assms(1)] by (auto simp: ue ent)
  show "lookup fs' dir name =
      (if (dir, name) = (de_parent (dirents fs d), de_name (dirents fs d)) then None else lookup fs dir name)"
  proof (cases "(dir, name) = (de_parent (dirents fs d), de_name (dirents fs d))")
    case True
    have "lookup fs' dir name = None"
      unfolding lookup_None_iff ue True using names_okD(2) [OF assms(1,2)] ent by (metis apart_def)
    then show ?thesis using True by simp
  next
    case False
    then have "lookup fs' dir name = Some c \<longleftrightarrow> lookup fs dir name = Some c" for c
      unfolding lookup_iff [OF ok] lookup_iff [OF assms(1)] ue using ent by (metis (no_types, lifting))
    then have "lookup fs' dir name = lookup fs dir name" by (metis not_Some_eq)
    then show ?thesis using False by auto
  qed
qed

lemma names_ok_free_inode:
  assumes "names_ok fs" "in_kind (inodes fs i) \<noteq> Directory" "\<And>d. used_entry fs d \<Longrightarrow> de_child (dirents fs d) \<noteq> i"
    and fs': "dirents fs' = dirents fs" "\<And>j. j \<noteq> i \<Longrightarrow> inodes fs' j = inodes fs j" "\<not> in_used (inodes fs' i)"
  shows "names_ok fs'" "lookup fs' = lookup fs" "\<And>j. in_used (inodes fs' j) \<Longrightarrow> inodes fs' j = inodes fs j"
proof -
  show keep: "inodes fs' j = inodes fs j" if "in_used (inodes fs' j)" for j using that fs'(2,3) by (cases "j = i") auto
  have dir: "dir_ok fs j \<Longrightarrow> dir_ok fs' j" for j using assms(2) fs'(2) by (cases "j = i") (auto simp: dir_ok_def)
  have ue: "used_entry fs' = used_entry fs" by (simp add: used_entry_def fs'(1) fun_eq_iff)
  have "matching fs' = matching fs" by (intro ext) (simp add: matching_def fs'(1))
  then show "lookup fs' = lookup fs" by (intro ext) (simp add: lookup_def fs'(1))
  have "entry_ok fs' (dirents fs d)" if "used_entry fs d" for d
    using names_okD(1) [OF assms(1) that] assms(3) [OF that] dir fs'(2) by (auto simp: entry_ok_def)
  moreover have "dir_ok fs' (in_parent (inodes fs' j)) \<and> dir_ok fs' ROOT_INO" if "j < MAX_INODES" "in_used (inodes fs' j)" for j
    using names_okD(3) [OF assms(1) that(1)] keep [OF that(2)] that(2) dir by auto
  ultimately show "names_ok fs'" using names_okD(2) [OF assms(1)] unfolding names_ok_def ue fs'(1) by blast
qed

text \<open>Dropping the link of an inode that has no name left.\<close>

lemma drop_link_law:
  assumes "names_ok fs" "\<And>d. used_entry fs d \<Longrightarrow> de_child (dirents fs d) \<noteq> i"
  shows "names_ok (drop_link i fs)" "lookup (drop_link i fs) = lookup fs"
    "\<And>j. in_used (inodes (drop_link i fs) j) \<Longrightarrow> in_used (inodes fs j) \<and> in_parent (inodes (drop_link i fs) j) = in_parent (inodes fs j)"
proof -
  define fs1 where "fs1 = upd_inode i (\<lambda>x. if 0 < in_nlink x then x\<lparr> in_nlink := in_nlink x - 1 \<rparr> else x) fs"
  have s1: "same_names fs fs1" by (simp add: same_names_def fs1_def upd_inode_def)
  note n1 = same_names_simps [OF s1]
  show "names_ok (drop_link i fs)" "lookup (drop_link i fs) = lookup fs"
    "\<And>j. in_used (inodes (drop_link i fs) j) \<Longrightarrow> in_used (inodes fs j) \<and> in_parent (inodes (drop_link i fs) j) = in_parent (inodes fs j)"
  proof (atomize(full), cases "in_nlink (inodes fs1 i) = 0 \<and> in_refs (inodes fs1 i) = 0 \<and> in_kind (inodes fs1 i) \<noteq> Directory")
    case True
    define fs2 where "fs2 = upd_inode i (\<lambda>_. inode_empty) (free_inode_data i fs1)"
    have fs2: "dirents fs2 = dirents fs1" "\<And>j. j \<noteq> i \<Longrightarrow> inodes fs2 j = inodes fs1 j" "\<not> in_used (inodes fs2 i)"
      by (auto simp: fs2_def upd_inode_def free_inode_data_def Let_def inode_empty_def split: inode_data.splits)
    have "names_ok fs1" "in_kind (inodes fs1 i) \<noteq> Directory" using n1(5) assms(1) True by simp_all
    note f = names_ok_free_inode [OF this _ fs2]
    have c: "de_child (dirents fs1 d) \<noteq> i" if "used_entry fs1 d" for d using assms(2) that s1 n1(2) by (simp add: same_names_def)
    have "drop_link i fs = fs2" using True by (simp add: drop_link_def fs1_def [symmetric] Let_def fs2_def)
    then show "names_ok (drop_link i fs) \<and> lookup (drop_link i fs) = lookup fs \<and> (\<forall>j. in_used (inodes (drop_link i fs) j) \<longrightarrow>
        in_used (inodes fs j) \<and> in_parent (inodes (drop_link i fs) j) = in_parent (inodes fs j))"
      using f(1,2) [OF c] f(3) [OF c] n1(4) s1 by (metis same_names_def)
  next
    case False
    then have "drop_link i fs = fs1" by (auto simp: drop_link_def fs1_def [symmetric] Let_def)
    then show "names_ok (drop_link i fs) \<and> lookup (drop_link i fs) = lookup fs \<and> (\<forall>j. in_used (inodes (drop_link i fs) j) \<longrightarrow>
        in_used (inodes fs j) \<and> in_parent (inodes (drop_link i fs) j) = in_parent (inodes fs j))"
      using n1 assms(1) s1 by (simp add: same_names_def)
  qed
qed

lemma remove_dirent_cases:
  obtains d where "used_entry fs d" "de_parent (dirents fs d) = parent" "de_name (dirents fs d) = name"
      "remove_dirent parent name fs = ok_with () (fs\<lparr> dirents := (dirents fs)(d := dirent_empty) \<rparr>)"
  | "remove_dirent parent name fs = err_with ENOENT fs"
proof (cases "find (matching fs parent name) [0..<MAX_DIR_ENTRIES]")
  case None
  then show thesis using that(2) by (simp add: remove_dirent_def)
next
  case (Some d)
  then have "used_entry fs d" "de_parent (dirents fs d) = parent" "de_name (dirents fs d) = name"
    by (auto simp: find_Some_iff matching_def name_eq_def used_entry_def)
  then show thesis using that(1) Some by (simp add: remove_dirent_def)
qed

lemma walk_shrunk:
  assumes "names_ok fs'" "grows_names fs' fs" "lookup fs' parent name = None" "split_parent fs path = Some (parent, name)" "plain_name name"
    "in_used (inodes fs' ROOT_INO)"
  shows "walk fs' path = Inl ENOENT"
proof (rule ccontr)
  assume "walk fs' path \<noteq> Inl ENOENT"
  then obtain j where j: "walk fs' path = Inr j" by (cases "walk fs' path") (auto dest: walk_error)
  have "path \<noteq> []" using j by (auto simp: walk_def)
  then show False
  proof (cases rule: path_split)
    case 1
    then show False using assms(4,5) by (simp add: plain_name_def)
  next
    case (2 q nm)
    obtain p where p: "walk fs' q = Inr p" "walk_name fs' p nm = Inr j" using j 2(4) [of fs'] by (auto simp: and_walk_def split: sum.splits)
    have "walk fs q = Inr p" using walk_grows [OF assms(1,2,6) p(1)] .
    then have "p = parent" "nm = name" using assms(4) 2(3) [of fs] by simp_all
    then show False using p(2) assms(3,5) by (auto simp: walk_name_def plain_name_def split: if_splits)
  qed
qed

lemma unlink_cases:
  obtains e where "unlink path flags fs = Some (Inl e, fs)"
  | inum parent name d node where "walk fs path = Inr inum" "inode_of fs inum = Some node" "split_parent fs path = Some (parent, name)"
      "used_entry fs d" "de_parent (dirents fs d) = parent" "de_name (dirents fs d) = name"
      "if flags AND AT_REMOVEDIR \<noteq> 0 then in_kind node = Directory \<and> dir_empty fs inum else in_kind node \<noteq> Directory"
      "unlink path flags fs = Some (Inr (), drop_link inum (fs\<lparr> dirents := (dirents fs)(d := dirent_empty) \<rparr>))"
proof (cases "\<exists>inum node parent name. walk fs path = Inr inum \<and> inode_of fs inum = Some node \<and> split_parent fs path = Some (parent, name) \<and>
    (if flags AND AT_REMOVEDIR \<noteq> 0 then in_kind node = Directory \<and> dir_empty fs inum else in_kind node \<noteq> Directory)")
  case True
  then obtain inum node parent name where u: "walk fs path = Inr inum" "inode_of fs inum = Some node" "split_parent fs path = Some (parent, name)"
    "if flags AND AT_REMOVEDIR \<noteq> 0 then in_kind node = Directory \<and> dir_empty fs inum else in_kind node \<noteq> Directory" by blast
  then have e: "unlink path flags fs = and_then (remove_dirent parent name fs) (\<lambda>_ fs. ok_with () (drop_link inum fs))"
    by (auto simp: unlink_def split: if_splits)
  show thesis
    by (cases rule: remove_dirent_cases [of fs parent name]) (use that u e in \<open>auto simp: ok_with_def err_with_def\<close>)
next
  case False
  then have "\<exists>e. unlink path flags fs = Some (Inl e, fs)"
    by (auto simp: unlink_def err_with_def split: sum.splits option.splits)
  then show thesis using that(1) by blast
qed

lemma unlink_step:
  assumes "names_ok fs" "walk fs path = Inr inum" "split_parent fs path = Some (parent, name)" "used_entry fs d"
    "de_parent (dirents fs d) = parent" "de_name (dirents fs d) = name"
    and fs': "fs' = drop_link inum (fs\<lparr> dirents := (dirents fs)(d := dirent_empty) \<rparr>)"
  shows "names_ok fs'" "plain_name name" "lookup fs parent name = Some inum" "grows_names fs' fs" "dir_ok fs' ROOT_INO"
    "lookup fs' dir nm = (if (dir, nm) = (parent, name) then None else lookup fs dir nm)"
proof -
  define fs1 where "fs1 = fs\<lparr> dirents := (dirents fs)(d := dirent_empty) \<rparr>"
  note n1 = names_ok_drop_entry [OF assms(1,4) fs1_def, unfolded assms(5,6)]
  show plain: "plain_name name" using names_okD(1) [OF assms(1,4)] assms(6) by (simp add: entry_ok_def)
  have "walk fs path = walk_name fs parent name" using split_parent_walk [OF assms(3)] plain by (auto simp: plain_name_def)
  then show l: "lookup fs parent name = Some inum"
    using assms(2) plain by (auto simp: walk_name_def plain_name_def split: option.splits)
  then have child: "de_child (dirents fs d) = inum"
    using assms(4-6) lookup_iff [OF assms(1), of parent name "de_child (dirents fs d)"] by auto
  have "de_child (dirents fs1 d') \<noteq> inum" if "used_entry fs1 d'" for d'
    using that names_okD(2) [OF assms(1,4), of d'] child by (auto simp: n1(4,5) apart_def)
  note n2 = drop_link_law [OF n1(1) this, folded fs' [folded fs1_def]]
  show "names_ok fs'" by (rule n2(1))
  show look: "lookup fs' dir nm = (if (dir, nm) = (parent, name) then None else lookup fs dir nm)" for dir nm
    using n1(2) n2(2) by simp
  show "grows_names fs' fs" using look n2(3) n1(3) by (auto simp: grows_names_def split: if_splits)
  have "dir_ok fs parent" "dir_ok fs ROOT_INO" using names_okD(1) [OF assms(1,4)] names_okD(3) [OF assms(1)] assms(5)
    by (auto simp: entry_ok_def dir_ok_def)
  then have "dir_ok fs1 ROOT_INO" by (simp add: dir_ok_def n1(3))
  then show "dir_ok fs' ROOT_INO" unfolding fs' fs1_def [symmetric]
    by (auto simp: dir_ok_def drop_link_def Let_def upd_inode_def free_inode_data_def split: inode_data.splits)
qed

text \<open>
  C18: unlinking either fails and changes nothing, or succeeds only on what may be removed in the way asked for, a file or
  an empty directory; then the path no longer resolves, every other name of every directory leads where it did,
  and names stay sound: in particular no entry leads to an inode that has been freed.
\<close>
theorem unlinked_path_is_gone:
  assumes "names_ok fs"
  shows "\<exists>r fs'. unlink path flags fs = Some (r, fs') \<and> names_ok fs' \<and> (\<forall>e. r = Inl e \<longrightarrow> fs' = fs) \<and> (r = Inr () \<longrightarrow>
    walk fs' path = Inl ENOENT \<and> (\<exists>inum node parent name. walk fs path = Inr inum \<and> inode_of fs inum = Some node \<and>
      (if flags AND AT_REMOVEDIR \<noteq> 0 then in_kind node = Directory \<and> dir_empty fs inum else in_kind node \<noteq> Directory) \<and>
      split_parent fs path = Some (parent, name) \<and> lookup fs parent name = Some inum \<and>
      (\<forall>dir nm. lookup fs' dir nm = (if (dir, nm) = (parent, name) then None else lookup fs dir nm))))"
proof (cases rule: unlink_cases [of path flags fs])
  case (1 e)
  then show ?thesis using assms by simp
next
  case (2 inum parent name d node)
  define fs' where "fs' = drop_link inum (fs\<lparr> dirents := (dirents fs)(d := dirent_empty) \<rparr>)"
  note u = unlink_step [OF assms 2(1,3-6) fs'_def]
  have "walk fs' path = Inl ENOENT"
    by (rule walk_shrunk [OF u(1,4) _ 2(3) u(2)]) (use u(5,6) in \<open>simp_all add: dir_ok_def\<close>)
  then show ?thesis using 2(1,2,3,7,8) u(1,3,6) unfolding fs'_def [symmetric] by auto
qed

lemma unlinked_path_is_gone_witness:
  "\<exists>fs fs'. walk fs [slash, 0x61] = Inr 2 \<and> unlink [slash, 0x61] 0 fs = Some (Inr (), fs') \<and> walk fs' [slash, 0x61] = Inl ENOENT"
proof -
  define x where "x = inode_empty\<lparr> in_used := True, in_parent := ROOT_INO, in_nlink := 1 \<rparr>"
  define e where "e = \<lparr> de_used = True, de_parent = ROOT_INO, de_child = 2, de_name = [0x61 :: u8] \<rparr>"
  let ?fs0 = "snd (init_root ramfs_new)"
  define fs1 where "fs1 = upd_inode 2 (\<lambda>_. x) ?fs0"
  define fs where "fs = fs1\<lparr> dirents := (dirents fs1)(0 := e) \<rparr>"
  have ch: "slash \<noteq> 0x61" "dot \<noteq> 0x61" by (simp_all add: slash_def dot_def)
  have b: "2 < MAX_INODES" "\<not> in_used (inodes ?fs0 2)" "0 < MAX_DIR_ENTRIES"
    by (simp_all add: MAX_INODES_def MAX_DIR_ENTRIES_def new_root(4) ROOT_INO_def)
  have n1: "names_ok fs1" "lookup fs1 = lookup ?fs0" "dir_ok fs1 ROOT_INO"
    using names_ok_new_inode [OF new_root(1) b(1,2) _ _ fs1_def] new_root(5) by (simp_all add: x_def)
  have d: "\<not> de_used (dirents fs1 k)" for k using new_root(3) by (simp add: fs1_def upd_inode_def)
  have eok: "entry_ok fs1 e" "de_used e" using n1(3) ch b(1) by (simp_all add: entry_ok_def e_def plain_name_def fs1_def upd_inode_def x_def)
  have "lookup fs1 (de_parent e) (de_name e) = None" using n1(2) new_root(2) by simp
  note n2 = names_ok_new_entry [OF n1(1) b(3) d eok this _ fs_def]
  have ok: "names_ok fs" and l: "lookup fs ROOT_INO [0x61] = Some 2" and ino: "inodes fs = inodes fs1"
    using n2 d by (auto simp: used_entry_def e_def)
  have w: "walk fs [slash, 0x61] = Inr 2" "walk fs [slash] = Inr ROOT_INO"
    using ch walk_from_name [of "[0x61]" "[]" fs ROOT_INO] l by (simp_all add: walk_def walk_name_def)
  have s: "split_parent fs [slash, 0x61] = Some (ROOT_INO, [0x61])" using w(2) ch by (simp add: split_parent_def)
  have "inode_of fs 2 = Some x" using b(1) by (simp add: inode_of_def ino fs1_def upd_inode_def x_def)
  moreover have "find (matching fs ROOT_INO [0x61]) [0..<MAX_DIR_ENTRIES] = Some 0"
    using b(3) by (simp add: upt_conv_Cons matching_def name_eq_def fs_def e_def)
  ultimately have "unlink [slash, 0x61] 0 fs = Some (Inr (), drop_link 2 (fs\<lparr> dirents := (dirents fs)(0 := dirent_empty) \<rparr>))"
    by (simp add: unlink_def w(1) s remove_dirent_def ok_with_def x_def inode_empty_def)
  then show ?thesis using unlinked_path_is_gone [OF ok, of "[slash, 0x61]" 0] w(1) by auto
qed

section \<open>Putting in the initial files\<close>

lemma ensure_dir_law:
  assumes "names_ok fs"
  shows "\<exists>r fs'. ensure_dir path fs = Some (r, fs') \<and> names_ok fs' \<and> (case r of
      Inr inum \<Rightarrow> walk fs' path = Inr inum \<and> dir_ok fs' inum \<and> (fs' = fs \<or> (\<exists>parent name. created parent name Directory inum fs fs' \<and>
        split_parent fs path = Some (parent, name)))
    | Inl _ \<Rightarrow> True)"
proof (cases "walk fs path")
  case (Inr inum)
  then show ?thesis using assms walk_used [OF assms Inr]
    by (auto simp: ensure_dir_def err_with_def ok_with_def inode_of_def dir_ok_def)
next
  case (Inl e)
  then have "ensure_dir path fs = mkdir path fs" using walk_error [OF Inl] by (simp add: ensure_dir_def)
  moreover obtain r fs' where m: "mkdir path fs = Some (r, fs')" "names_ok fs'" "case r of
      Inr inum \<Rightarrow> walk fs' path = Inr inum \<and> dir_ok fs' inum \<and> grows_names fs fs' \<and> (\<exists>parent name. created parent name Directory inum fs fs' \<and>
        split_parent fs path = Some (parent, name))
    | Inl _ \<Rightarrow> True" using mkdir_law [OF assms] by blast
  ultimately show ?thesis by (auto split: sum.splits)
qed

text \<open>A path that does not resolve, but whose directory does, has a proper last name.\<close>

lemma missing_name_plain:
  assumes "walk fs path = Inl e" "split_parent fs path = Some (parent, name)" "name \<noteq> []"
  shows "plain_name name"
  using assms split_parent_walk [OF assms(2)] by (auto simp: plain_name_def walk_name_def)

lemma embed_file_law:
  assumes "names_ok fs"
  shows "\<exists>r fs'. embed_file path off len mode fs = Some (r, fs') \<and> names_ok fs'"
proof (cases "\<exists>e parent name. walk fs path = Inl e \<and> split_parent fs path = Some (parent, name) \<and> name \<noteq> []")
  case True
  then obtain e parent name where p: "walk fs path = Inl e" "split_parent fs path = Some (parent, name)" "name \<noteq> []" by blast
  have bound: "parent < MAX_INODES"
  proof -
    have "path \<noteq> []" using p(2) by (auto simp: split_parent_def)
    then show ?thesis
      by (cases rule: path_split) (use p(2) walk_used [OF assms] in \<open>auto split: sum.splits\<close>)
  qed
  obtain r fs' where c: "create_file parent name RegularFile (mode OR S_IFREG) fs = Some (r, fs')" "names_ok fs'"
    using create_file_cases [OF assms missing_name_plain [OF p] split_parent_slash [OF p(2)]] by blast
  have "same_names fs' (upd_inode i (\<lambda>x. x\<lparr> in_size := len, in_src := Embedded off len \<rparr>) fs')" for i
    by (simp add: same_names_def upd_inode_def)
  note s = same_names_simps(5) [OF this]
  show ?thesis using p bound c(2) assms
    by (cases r) (auto simp: embed_file_def c(1) err_with_def ok_with_def s)
qed (use assms in \<open>auto simp: embed_file_def err_with_def ok_with_def split: sum.splits option.splits\<close>)

lemma console_path:
  "walk fs (ascii ''/dev/console'') = and_walk (walk fs (ascii ''/dev'')) (\<lambda>d. walk_name fs d (ascii ''console''))"
proof -
  have path: "ascii ''/dev/console'' = ascii ''/dev'' @ slash # ascii ''console''" by (simp add: ascii_def slash_def)
  have "ascii ''/dev'' \<noteq> []" "ascii ''console'' \<noteq> []" "slash \<notin> set (ascii ''console'')" by (simp_all add: ascii_def slash_def)
  then show ?thesis using walk_from_name [of "ascii ''console''" "[]" fs] unfolding path walk_def by (simp add: walk_from_append)
qed

lemma console_plain: "plain_name (ascii ''console'')" "slash \<notin> set (ascii ''console'')"
  by (simp_all add: plain_name_def ascii_def dot_def slash_def)

lemma dev_split: "split_parent fs (ascii ''/dev'') = Some (ROOT_INO, ascii ''dev'')"
  by (simp add: split_parent_def ascii_def slash_def walk_def walk_from.simps)

lemma install_console_law:
  assumes "names_ok fs"
  shows "\<exists>r fs'. install_console fs = Some (r, fs') \<and> names_ok fs'"
proof (cases "walk fs (ascii ''/dev/console'')")
  case (Inl e)
  obtain r fs1 where d: "ensure_dir (ascii ''/dev'') fs = Some (r, fs1)" "names_ok fs1" and c: "case r of
      Inr inum \<Rightarrow> walk fs1 (ascii ''/dev'') = Inr inum \<and> dir_ok fs1 inum \<and> (fs1 = fs \<or> (\<exists>parent name. created parent name Directory inum fs fs1 \<and>
        split_parent fs (ascii ''/dev'') = Some (parent, name)))
    | Inl _ \<Rightarrow> True" using ensure_dir_law [OF assms] by blast
  show ?thesis
  proof (cases r)
    case (Inr dev)
    then have w: "walk fs1 (ascii ''/dev'') = Inr dev" and dir: "dir_ok fs1 dev" using c by simp_all
    have dev: "dev_inum g = dev" if "walk g (ascii ''/dev'') = Inr dev" for g using that by (simp add: dev_inum_def)
    have free: "lookup fs1 dev (ascii ''console'') = None"
    proof (cases "fs1 = fs")
      case True
      then show ?thesis using Inl w console_plain unfolding console_path
        by (auto simp: walk_name_def plain_name_def split: option.splits)
    next
      case False
      then have cr: "created ROOT_INO (ascii ''dev'') Directory dev fs fs1" using c Inr dev_split by auto
      have "ascii ''console'' \<noteq> ascii ''dev''" by (simp add: ascii_def)
      moreover have "lookup fs dev (ascii ''console'') = None"
        using unused_child(2) [OF assms, of dev] cr by (auto simp: lookup_None_iff created_def)
      ultimately show ?thesis using cr by (simp add: created_def)
    qed
    show ?thesis
    proof (cases "CONSOLE_INO < MAX_INODES \<and> \<not> in_used (inodes fs1 CONSOLE_INO)")
      case True
      define x where "x = \<lparr> in_used = True, in_kind = Device, in_nlink = 1, in_refs = 0, in_mode = S_IFCHR OR 0x1B6, in_size = 0,
        in_parent = dev, in_src = NoData \<rparr>"
      define fs2 where "fs2 = upd_inode CONSOLE_INO (\<lambda>_. x) fs1"
      have xs: "dir_ok fs1 (in_parent x)" "in_used x" using dir by (simp_all add: x_def)
      note n2 = names_ok_new_inode [OF d(2) conjunct1 [OF True] conjunct2 [OF True] xs fs2_def]
      have "in_used (inodes fs1 ROOT_INO)" using names_okD(3) [OF d(2)] dir by (auto simp: dir_ok_def)
      moreover have "grows_names fs1 fs2" using n2(2) True by (auto simp: grows_names_def fs2_def upd_inode_def)
      ultimately have "walk fs2 (ascii ''/dev'') = Inr dev" using walk_grows [OF d(2)] w by blast
      then have unf: "install_console fs = and_then (add_dirent dev CONSOLE_INO (ascii ''console'') fs2) (\<lambda>_ fs. ok_with CONSOLE_INO fs)"
        using Inl True d(1) Inr dev [OF w] dev [of fs2] by (simp add: install_console_def fs2_def x_def)
      show ?thesis
      proof (cases rule: add_dirent_cases [of fs2 dev CONSOLE_INO "ascii ''console''"])
        case (1 k)
        let ?e = "\<lparr> de_used = True, de_parent = dev, de_child = CONSOLE_INO, de_name = ascii ''console'' \<rparr>"
        have eok: "entry_ok fs2 ?e"
          using n2(3) [OF dir] True console_plain by (simp add: entry_ok_def fs2_def upd_inode_def x_def)
        have "de_child (dirents fs2 d') \<noteq> CONSOLE_INO" if "used_entry fs2 d'" for d'
          using unused_child(1) [OF d(2) conjunct2 [OF True], of d'] that by (simp add: fs2_def upd_inode_def used_entry_def)
        then have "names_ok (fs2\<lparr> dirents := (dirents fs2)(k := ?e) \<rparr>)"
          using names_ok_new_entry(1) [OF n2(1) 1(1,2) eok _ _ _ refl] free n2(2) by simp
        then show ?thesis by (simp add: unf 1(3) ok_with_def)
      qed (use n2(1) in \<open>simp add: unf err_with_def\<close>)
    next
      case False
      then show ?thesis using Inl d(1) Inr create_file_cases [OF d(2) console_plain, of "dev_inum fs1" Device "S_IFCHR OR 0x1B6"]
        by (auto simp: install_console_def)
    qed
  qed (use Inl d in \<open>simp add: install_console_def\<close>)
qed (use assms in \<open>simp add: install_console_def ok_with_def\<close>)

end
