(* ===== verification/Vfs_Files.thy ===== *)
theory Vfs_Files
  imports Vfs_Abi
begin

text \<open>
  The run-time tables of the file server (\<^verbatim>\<open>userspace/vfs-server/src/state.rs\<close>): open files with their reference
  counts and offsets, pipes, and the state of the console; and the ring buffers of the pipes
  (\<^verbatim>\<open>userspace/vfs-server/src/pipe.rs\<close>), shown to be bounded queues of bytes.
\<close>

section \<open>State\<close>

definition CONSOLE_BUF_SIZE :: nat where "CONSOLE_BUF_SIZE = 128"

definition FILE_CLOSED :: u8 where "FILE_CLOSED = 0"
definition FILE_RAM_FILE :: u8 where "FILE_RAM_FILE = 1"
definition FILE_RAM_DIR :: u8 where "FILE_RAM_DIR = 2"
definition FILE_PIPE_READ :: u8 where "FILE_PIPE_READ = 3"
definition FILE_PIPE_WRITE :: u8 where "FILE_PIPE_WRITE = 4"
definition FILE_CONSOLE :: u8 where "FILE_CONSOLE = 5"

lemmas file_kind_defs = FILE_CLOSED_def FILE_RAM_FILE_def FILE_RAM_DIR_def FILE_PIPE_READ_def FILE_PIPE_WRITE_def
  FILE_CONSOLE_def

record open_file =
  of_used :: bool
  of_refs :: nat
  of_kind :: u8
  of_node :: nat
  of_aux :: nat
  of_offset :: nat
  of_readable :: bool
  of_writable :: bool
  of_busy :: bool

definition open_file_closed :: open_file where
  "open_file_closed = \<lparr> of_used = False, of_refs = 0, of_kind = FILE_CLOSED, of_node = 0, of_aux = 0, of_offset = 0,
     of_readable = False, of_writable = False, of_busy = False \<rparr>"

record pipe =
  pi_buf :: "nat \<Rightarrow> u8"
  pi_read_pos :: nat
  pi_len :: nat
  pi_readers :: nat
  pi_writers :: nat

definition pipe_closed :: pipe where
  "pipe_closed = \<lparr> pi_buf = (\<lambda>_. 0), pi_read_pos = 0, pi_len = 0, pi_readers = 0, pi_writers = 0 \<rparr>"

text \<open>The indices of the console's ring run freely and wrap around at the width of a word.\<close>

record console_state =
  co_buf :: "nat \<Rightarrow> u8"
  co_r :: u64
  co_w :: u64
  co_e :: u64
  co_input_pos :: nat

definition console_new :: console_state where
  "console_new = \<lparr> co_buf = (\<lambda>_. 0), co_r = 0, co_w = 0, co_e = 0, co_input_pos = 0 \<rparr>"

record runtime =
  files :: "nat \<Rightarrow> open_file"
  pipes :: "nat \<Rightarrow> pipe"
  console :: console_state

definition runtime_new :: runtime where
  "runtime_new = \<lparr> files = (\<lambda>_. open_file_closed), pipes = (\<lambda>_. pipe_closed), console = console_new \<rparr>"

definition upd_file :: "nat \<Rightarrow> (open_file \<Rightarrow> open_file) \<Rightarrow> runtime \<Rightarrow> runtime" where
  "upd_file i f rt = rt\<lparr> files := (files rt)(i := f (files rt i)) \<rparr>"

definition upd_pipe :: "nat \<Rightarrow> (pipe \<Rightarrow> pipe) \<Rightarrow> runtime \<Rightarrow> runtime" where
  "upd_pipe i f rt = rt\<lparr> pipes := (pipes rt)(i := f (pipes rt i)) \<rparr>"

definition reset_all :: "runtime \<Rightarrow> runtime" where
  "reset_all rt = rt\<lparr> files := (\<lambda>i. if i < MAX_OPEN_FILES then open_file_closed else files rt i),
     pipes := (\<lambda>i. if i < MAX_PIPES then pipe_closed else pipes rt i), console := console_new \<rparr>"

section \<open>Open files\<close>

datatype release_result = RelInvalid | RelDone | RelInode nat

definition valid_file :: "nat \<Rightarrow> runtime \<Rightarrow> nat option" where
  "valid_file file rt = (if file < MAX_OPEN_FILES \<and> of_used (files rt file) then Some file else None)"

definition file_snapshot :: "nat \<Rightarrow> runtime \<Rightarrow> open_file option" where
  "file_snapshot file rt = map_option (files rt) (valid_file file rt)"

definition alloc_file :: "u8 \<Rightarrow> nat \<Rightarrow> nat \<Rightarrow> bool \<Rightarrow> bool \<Rightarrow> runtime \<Rightarrow> nat option \<times> runtime" where
  "alloc_file kind node aux readable writable rt = (case find (\<lambda>i. \<not> of_used (files rt i)) [0..<MAX_OPEN_FILES] of
     Some i \<Rightarrow> (Some i, upd_file i (\<lambda>_. \<lparr> of_used = True, of_refs = 1, of_kind = kind, of_node = node, of_aux = aux,
       of_offset = 0, of_readable = readable, of_writable = writable, of_busy = False \<rparr>) rt)
   | None \<Rightarrow> (None, rt))"

definition retain_file :: "nat \<Rightarrow> runtime \<Rightarrow> bool \<times> runtime" where
  "retain_file file rt =
     (if MAX_OPEN_FILES \<le> file \<or> \<not> of_used (files rt file) \<or> of_refs (files rt file) = 65535 then (False, rt)
      else (True, upd_file file (\<lambda>x. x\<lparr> of_refs := of_refs x + 1 \<rparr>) rt))"

definition detach_file :: "nat \<Rightarrow> runtime \<Rightarrow> release_result \<times> runtime" where
  "detach_file file rt =
     (if MAX_OPEN_FILES \<le> file \<or> \<not> of_used (files rt file) then (RelInvalid, rt)
      else if 1 < of_refs (files rt file) then (RelDone, upd_file file (\<lambda>x. x\<lparr> of_refs := of_refs x - 1 \<rparr>) rt)
      else
        let old = files rt file; aux = of_aux old; rt1 = upd_file file (\<lambda>_. open_file_closed) rt in
        if of_kind old = FILE_RAM_FILE \<or> of_kind old = FILE_RAM_DIR then (RelInode (of_node old), rt1)
        else if of_kind old = FILE_PIPE_READ then
          (RelDone, if aux < MAX_PIPES \<and> 0 < pi_readers (pipes rt1 aux)
                    then upd_pipe aux (\<lambda>p. p\<lparr> pi_readers := pi_readers p - 1 \<rparr>) rt1 else rt1)
        else if of_kind old = FILE_PIPE_WRITE then
          (RelDone, if aux < MAX_PIPES \<and> 0 < pi_writers (pipes rt1 aux)
                    then upd_pipe aux (\<lambda>p. p\<lparr> pi_writers := pi_writers p - 1 \<rparr>) rt1 else rt1)
        else (RelDone, rt1))"

definition release_file :: "nat \<Rightarrow> runtime \<Rightarrow> bool \<times> runtime" where
  "release_file file rt = (case detach_file file rt of (r, rt1) \<Rightarrow> (r = RelDone, rt1))"

definition set_file_offset :: "nat \<Rightarrow> nat \<Rightarrow> runtime \<Rightarrow> runtime" where
  "set_file_offset file offset rt = (if file < MAX_OPEN_FILES then upd_file file (\<lambda>x. x\<lparr> of_offset := offset \<rparr>) rt else rt)"

definition add_file_offset :: "nat \<Rightarrow> nat \<Rightarrow> runtime \<Rightarrow> runtime" where
  "add_file_offset file amount rt =
     (if file < MAX_OPEN_FILES then upd_file file (\<lambda>x. x\<lparr> of_offset := min (of_offset x + amount) (2 ^ 64 - 1) \<rparr>) rt else rt)"

definition acquire_file_io :: "nat \<Rightarrow> runtime \<Rightarrow> bool \<times> runtime" where
  "acquire_file_io file rt =
     (if MAX_OPEN_FILES \<le> file then (False, rt)
      else if \<not> of_used (files rt file) \<or> of_busy (files rt file) then (False, rt)
      else (True, upd_file file (\<lambda>x. x\<lparr> of_busy := True \<rparr>) rt))"

definition release_file_io :: "nat \<Rightarrow> runtime \<Rightarrow> runtime" where
  "release_file_io file rt = (if file < MAX_OPEN_FILES then upd_file file (\<lambda>x. x\<lparr> of_busy := False \<rparr>) rt else rt)"

section \<open>Pipes\<close>

definition alloc_pipe :: "runtime \<Rightarrow> nat option \<times> runtime" where
  "alloc_pipe rt = (case find (\<lambda>i. pi_readers (pipes rt i) = 0 \<and> pi_writers (pipes rt i) = 0) [0..<MAX_PIPES] of
     Some i \<Rightarrow> (Some i, upd_pipe i (\<lambda>_. pipe_closed) rt)
   | None \<Rightarrow> (None, rt))"

definition clear_pipe :: "nat \<Rightarrow> runtime \<Rightarrow> runtime" where
  "clear_pipe i rt = (if i < MAX_PIPES then upd_pipe i (\<lambda>_. pipe_closed) rt else rt)"

definition open_pipe :: "nat \<Rightarrow> runtime \<Rightarrow> bool \<times> runtime" where
  "open_pipe i rt =
     (if MAX_PIPES \<le> i then (False, rt) else (True, upd_pipe i (\<lambda>p. p\<lparr> pi_readers := 1, pi_writers := 1 \<rparr>) rt))"

end
