(* ===== verification/Vfs_Ipc.thy ===== *)
theory Vfs_Ipc
  imports Vfs_Abi
begin

text \<open>
  Messages between the user-level processes: the packing of the message word
  (\<^verbatim>\<open>userspace/sel4-user/src/lib.rs\<close>), the acceptance of requests and the standard answers of the file server
  (\<^verbatim>\<open>userspace/vfs-server/src/ipc.rs\<close>), and the server of the serial line (\<^verbatim>\<open>userspace/uart-server/src/main.rs\<close>).

  A message has the 64 words of the receiver's buffer. The device behind the serial line is the list of what
  successive polls of its receiver find (a byte, or nothing yet; nothing once the list is used up), the bytes sent,
  and the values last stored in its control registers; the transmitter is taken to become free.
\<close>

section \<open>Messages\<close>

definition user_msg_info :: "u64 \<Rightarrow> u64 \<Rightarrow> u64 \<Rightarrow> u64 \<Rightarrow> u64" where
  "user_msg_info label caps_unwrapped extra_caps len =
     push_bit 12 (label AND 0xFFFFFFFFFFFFF) OR push_bit 9 (caps_unwrapped AND 0x7) OR push_bit 7 (extra_caps AND 0x3)
     OR (len AND 0x7F)"

definition user_msg_label :: "u64 \<Rightarrow> u64" where
  "user_msg_label info = drop_bit 12 info AND 0xFFFFFFFFFFFFF"

definition user_msg_len :: "u64 \<Rightarrow> u64" where
  "user_msg_len info = info AND 0x7F"

lemma user_msg_mask: "(0xFFFFFFFFFFFFF :: u64) = mask 52" "(0x7F :: u64) = mask 7" "(0x7 :: u64) = mask 3" "(0x3 :: u64) = mask 2"
  by (simp_all add: mask_eq_exp_minus_1)

lemma user_msg_label_info: "user_msg_label (user_msg_info label cu xc len) = label AND 0xFFFFFFFFFFFFF"
  unfolding user_msg_label_def user_msg_info_def user_msg_mask
  by (rule bit_word_eqI) (auto simp: bit_simps dest: bit_imp_le_length)

lemma user_msg_len_info: "user_msg_len (user_msg_info label cu xc len) = len AND 0x7F"
  unfolding user_msg_len_def user_msg_info_def user_msg_mask
  by (rule bit_word_eqI) (auto simp: bit_simps dest: bit_imp_le_length)

record ipc_message =
  im_badge :: u64
  im_info :: u64
  im_mrs :: "u64 list"

type_synonym reply4 = "u64 list"

record host_request =
  hr_async_request :: bool
  hr_request_id :: u64

definition host_request_of :: "ipc_message \<Rightarrow> host_request option" where
  "host_request_of msg =
     (if im_mrs msg ! 0 = ipc_protocol_raw HostToVfs \<and> im_mrs msg ! 1 = LINUX_ABI_VERSION
      then Some \<lparr> hr_async_request = False, hr_request_id = 0 \<rparr>
      else if im_mrs msg ! 0 = ipc_protocol_raw HostToVfsAsync \<and> im_mrs msg ! 1 \<noteq> 0
      then Some \<lparr> hr_async_request = True, hr_request_id = im_mrs msg ! 1 \<rparr>
      else None)"

definition valid_host :: "ipc_message \<Rightarrow> bool" where
  "valid_host msg \<longleftrightarrow> host_request_of msg \<noteq> None"

definition reply_ok :: reply4 where
  "reply_ok = [ipc_status_raw StOk, 0, 0, 0]"

definition err_code :: "int \<Rightarrow> reply4" where
  "err_code errno = [word_of_int errno, 0, 0, 0]"

definition reply_err :: reply4 where
  "reply_err = err_code EINVAL"

definition path_mrs_valid :: "ipc_message \<Rightarrow> nat \<Rightarrow> nat \<Rightarrow> bool" where
  "path_mrs_valid msg start path_len \<longleftrightarrow>
     0 < path_len \<and> path_len \<le> MAX_PATH_BYTES \<and> start + (path_len + 7) div 8 \<le> unat (user_msg_len (im_info msg))"

definition async_reply :: "ipc_protocol \<Rightarrow> u64 \<Rightarrow> reply4 \<Rightarrow> u64 \<times> u64 list" where
  "async_reply protocol request_id reply = (user_msg_info (ipc_protocol_raw protocol) 0 0 5, request_id # reply)"

section \<open>The serial line\<close>

definition RHR :: nat where "RHR = 0"
definition THR :: nat where "THR = 0"
definition IER :: nat where "IER = 1"
definition FCR :: nat where "FCR = 2"
definition LCR :: nat where "LCR = 3"

record uart =
  ua_rx :: "u8 option list"
  ua_tx :: "u8 list"
  ua_regs :: "nat \<Rightarrow> u8"
  ua_sent :: "(u64 \<times> u64 list) list"

definition init_uart :: "uart \<Rightarrow> uart" where
  "init_uart u = u\<lparr> ua_regs := (ua_regs u)(IER := 0, FCR := 1, LCR := 3) \<rparr>"

definition putch :: "u8 \<Rightarrow> uart \<Rightarrow> uart" where
  "putch ch u = u\<lparr> ua_tx := ua_tx u @ [ch] \<rparr>"

definition getch :: "uart \<Rightarrow> int \<times> uart" where
  "getch u = (case ua_rx u of
     [] \<Rightarrow> (-1, u)
   | None # later \<Rightarrow> (-1, u\<lparr> ua_rx := later \<rparr>)
   | Some b # later \<Rightarrow> (uint b, u\<lparr> ua_rx := later \<rparr>))"

definition uart_op_from_raw :: "u64 \<Rightarrow> uart_op option" where
  "uart_op_from_raw v = (if v = 0 then Some UartInit else if v = 1 then Some UartPutChar else if v = 2 then Some UartGetChar else None)"

definition is_async_request :: "ipc_message \<Rightarrow> bool" where
  "is_async_request msg \<longleftrightarrow> im_mrs msg ! 0 = ipc_protocol_raw VfsToUartAsync \<and> im_mrs msg ! 1 \<noteq> 0"

definition valid_request :: "ipc_message \<Rightarrow> bool" where
  "valid_request msg \<longleftrightarrow>
     im_mrs msg ! 0 = ipc_protocol_raw VfsToUart \<and> im_mrs msg ! 1 = LINUX_ABI_VERSION \<or> is_async_request msg"

definition uart_handle_request :: "ipc_message \<Rightarrow> uart \<Rightarrow> reply4 \<times> uart" where
  "uart_handle_request msg u =
     (if \<not> valid_request msg then ([ipc_status_raw StInvalidArgument, 0, 0, 0], u)
      else case uart_op_from_raw (user_msg_label (im_info msg)) of
        Some UartInit \<Rightarrow> ([ipc_status_raw StOk, 0, 0, 0], init_uart u)
      | Some UartPutChar \<Rightarrow> ([ipc_status_raw StOk, 1, 0, 0], putch (ucast (im_mrs msg ! 2)) u)
      | Some UartGetChar \<Rightarrow>
          (case getch u of (ch, u1) \<Rightarrow>
             (if ch < 0 then [ipc_status_raw StWouldBlock, 0, 0, 0] else [ipc_status_raw StOk, word_of_int ch, 0, 0], u1))
      | None \<Rightarrow> ([ipc_status_raw StInvalidArgument, 0, 0, 0], u))"

definition handle_async_request :: "ipc_message \<Rightarrow> uart \<Rightarrow> uart" where
  "handle_async_request msg u = (case uart_handle_request msg u of (reply, u1) \<Rightarrow>
     u1\<lparr> ua_sent := ua_sent u1 @ [async_reply VfsToUartAsync (im_mrs msg ! 1) reply] \<rparr>)"

text \<open>One round of the server's loop: a synchronous request is answered, the other kind is not.\<close>

definition uart_serve :: "ipc_message \<Rightarrow> uart \<Rightarrow> (u64 \<times> reply4) option \<times> uart" where
  "uart_serve msg u =
     (if is_async_request msg then (None, handle_async_request msg u)
      else case uart_handle_request msg u of (reply, u1) \<Rightarrow> (Some (user_msg_info 0 0 0 4, reply), u1))"

section \<open>Calls to the serial line\<close>

text \<open>
  A call is the message, the round of the server that receives it, and the answer. The words that are not sent
  are zero here; \<open>uart_serve_unsent\<close> shows that the server does not look at them. A caller whose message
  is not answered would wait for ever.
\<close>

definition uart_message :: "u64 \<Rightarrow> u64 list \<Rightarrow> u64 list \<Rightarrow> ipc_message" where
  "uart_message label mrs unsent = \<lparr> im_badge = 0, im_info = user_msg_info label 0 0 (of_nat (length mrs)), im_mrs = mrs @ unsent \<rparr>"

definition uart_call :: "u64 \<Rightarrow> u64 list \<Rightarrow> uart \<Rightarrow> (reply4 \<times> uart) option" where
  "uart_call label mrs u =
     (case uart_serve (uart_message label mrs (replicate (64 - length mrs) 0)) u of
        (None, u1) \<Rightarrow> None
      | (Some (info, reply), u1) \<Rightarrow>
          Some (if user_msg_label info \<noteq> 0 then [ipc_status_raw StInvalidArgument, 0, 0, 0] else reply, u1))"

definition uart_init :: "uart \<Rightarrow> (bool \<times> uart) option" where
  "uart_init u = map_option (map_prod (\<lambda>reply. reply ! 0 = ipc_status_raw StOk) id)
     (uart_call (uart_op_raw UartInit) [ipc_protocol_raw VfsToUart, LINUX_ABI_VERSION] u)"

definition uart_putch :: "u8 \<Rightarrow> uart \<Rightarrow> (bool \<times> uart) option" where
  "uart_putch ch u = map_option (map_prod (\<lambda>reply. reply ! 0 = ipc_status_raw StOk) id)
     (uart_call (uart_op_raw UartPutChar) [ipc_protocol_raw VfsToUart, LINUX_ABI_VERSION, ucast ch] u)"

definition uart_getch :: "uart \<Rightarrow> (reply4 \<times> uart) option" where
  "uart_getch u = uart_call (uart_op_raw UartGetChar) [ipc_protocol_raw VfsToUart, LINUX_ABI_VERSION] u"

lemma uart_op_label [simp]:
  "uart_op_from_raw (user_msg_label (user_msg_info (uart_op_raw op) cu xc len)) = Some op"
  unfolding user_msg_label_info by (cases op) (simp_all add: uart_op_from_raw_def)

lemma user_msg_label_0 [simp]: "user_msg_label (user_msg_info 0 cu xc len) = 0"
  unfolding user_msg_label_info by simp

lemma sync_message:
  "is_async_request (uart_message label (ipc_protocol_raw VfsToUart # LINUX_ABI_VERSION # ws) unsent) = False"
  "valid_request (uart_message label (ipc_protocol_raw VfsToUart # LINUX_ABI_VERSION # ws) unsent)"
  by (simp_all add: is_async_request_def valid_request_def uart_message_def)

lemma uart_message_sel:
  "im_info (uart_message l ms r) = user_msg_info l 0 0 (of_nat (length ms))" "im_mrs (uart_message l ms r) = ms @ r"
  by (simp_all add: uart_message_def)

lemmas uart_serve_simps = uart_serve_def sync_message uart_handle_request_def uart_message_sel numeral_2_eq_2

lemma uart_serve_unsent:
  assumes "op = UartPutChar \<Longrightarrow> ws \<noteq> []"
  shows "uart_serve (uart_message (uart_op_raw op) (ipc_protocol_raw VfsToUart # LINUX_ABI_VERSION # ws) xs) u =
    uart_serve (uart_message (uart_op_raw op) (ipc_protocol_raw VfsToUart # LINUX_ABI_VERSION # ws) ys) u"
  using assms by (cases op; cases ws) (simp_all add: uart_serve_simps
      del: uart_op_raw.simps ipc_protocol_raw.simps ipc_status_raw.simps split: prod.splits)

lemma uart_call_eq:
  "uart_call (uart_op_raw op) (ipc_protocol_raw VfsToUart # LINUX_ABI_VERSION # ws) u = Some (case op of
      UartInit \<Rightarrow> ([ipc_status_raw StOk, 0, 0, 0], init_uart u)
    | UartPutChar \<Rightarrow> ([ipc_status_raw StOk, 1, 0, 0],
        putch (ucast ((ws @ replicate (62 - length ws) 0) ! 0)) u)
    | UartGetChar \<Rightarrow> (case getch u of (ch, u1) \<Rightarrow>
        (if ch < 0 then [ipc_status_raw StWouldBlock, 0, 0, 0] else [ipc_status_raw StOk, word_of_int ch, 0, 0], u1)))"
  by (cases op) (simp_all add: uart_call_def uart_serve_simps
      del: uart_op_raw.simps ipc_protocol_raw.simps ipc_status_raw.simps split: prod.splits)

lemma uart_init_eq: "uart_init u = Some (True, init_uart u)"
  unfolding uart_init_def uart_call_eq by simp

lemma uart_putch_eq: "uart_putch ch u = Some (True, putch ch u)"
  unfolding uart_putch_def uart_call_eq by (simp add: ucast_down_ucast_id is_down)

lemma uart_getch_eq:
  "uart_getch u = (case getch u of (ch, u1) \<Rightarrow>
     Some (if ch < 0 then [ipc_status_raw StWouldBlock, 0, 0, 0] else [ipc_status_raw StOk, word_of_int ch, 0, 0], u1))"
  unfolding uart_getch_def uart_call_eq by (simp split: prod.splits)

end
