(* ===== verification/Vfs_Pipe.thy ===== *)
theory Vfs_Pipe
  imports Vfs_Files Vfs_Ipc
begin

text \<open>
  Pipes of the file server (\<^verbatim>\<open>userspace/vfs-server/src/pipe.rs\<close>): creation, reading and writing through the
  buffer shared with the host, and the proof that the ring buffer of a pipe is a bounded queue of bytes.

  The shared buffer is a function on indices below \<^const>\<open>MAX_IO_BYTES\<close>.
\<close>

type_synonym shared = "nat \<Rightarrow> u8"

definition put_shared :: "u8 list \<Rightarrow> shared \<Rightarrow> shared" where
  "put_shared bs sh = (\<lambda>i. if i < length bs then bs ! i else sh i)"

definition get_shared :: "nat \<Rightarrow> shared \<Rightarrow> u8 list" where
  "get_shared n sh = map sh [0..<n]"

lemma get_shared_simps [simp]:
  "length (get_shared n sh) = n" "i < n \<Longrightarrow> get_shared n sh ! i = sh i" "get_shared 0 sh = []"
  by (simp_all add: get_shared_def)

lemma get_put_shared: "get_shared (length bs) (put_shared bs sh) = bs"
  by (auto simp: put_shared_def intro!: nth_equalityI)

section \<open>Operations\<close>

definition handle_pipe :: "ipc_message \<Rightarrow> runtime \<Rightarrow> reply4 \<times> runtime" where
  "handle_pipe msg rt =
     (if \<not> valid_host msg then (reply_err, rt)
      else case alloc_pipe rt of
        (None, rt) \<Rightarrow> (reply_err, rt)
      | (Some pipe_idx, rt) \<Rightarrow>
          (case alloc_file FILE_PIPE_READ 0 pipe_idx True False rt of
             (None, rt) \<Rightarrow> (reply_err, clear_pipe pipe_idx rt)
           | (Some read_file, rt) \<Rightarrow>
               (case alloc_file FILE_PIPE_WRITE 0 pipe_idx False True rt of
                  (None, rt) \<Rightarrow> (reply_err, clear_pipe pipe_idx (snd (release_file read_file rt)))
                | (Some write_file, rt) \<Rightarrow>
                    (case open_pipe pipe_idx rt of
                       (False, rt) \<Rightarrow>
                         (reply_err, clear_pipe pipe_idx (snd (release_file write_file (snd (release_file read_file rt)))))
                     | (True, rt) \<Rightarrow> ([ipc_status_raw StOk, of_nat read_file, of_nat write_file, 0], rt)))))"

text \<open>The two copy loops; \<open>None\<close> is an index outside the ring.\<close>

primrec pipe_take :: "nat \<Rightarrow> pipe \<Rightarrow> (u8 list \<times> pipe) option" where
  "pipe_take 0 p = Some ([], p)"
| "pipe_take (Suc n) p =
     (if PIPE_BUF \<le> pi_read_pos p then None
      else map_option (\<lambda>(bs, p'). (pi_buf p (pi_read_pos p) # bs, p'))
             (pipe_take n (p\<lparr> pi_read_pos := (pi_read_pos p + 1) mod PIPE_BUF, pi_len := pi_len p - 1 \<rparr>)))"

primrec pipe_put :: "u8 list \<Rightarrow> pipe \<Rightarrow> nat \<times> pipe" where
  "pipe_put [] p = (0, p)"
| "pipe_put (b # bs) p =
     (if pi_len p < PIPE_BUF then
        (case pipe_put bs (p\<lparr> pi_buf := (pi_buf p)((pi_read_pos p + pi_len p) mod PIPE_BUF := b), pi_len := pi_len p + 1 \<rparr>) of
           (n, p') \<Rightarrow> (Suc n, p'))
      else (0, p))"

definition read_pipe :: "nat \<Rightarrow> nat \<Rightarrow> runtime \<Rightarrow> shared \<Rightarrow> (reply4 \<times> runtime \<times> shared) option" where
  "read_pipe pipe_idx max_len rt sh =
     (if MAX_PIPES \<le> pipe_idx then Some (reply_err, rt, sh)
      else
        let p = pipes rt pipe_idx in
        if pi_len p = 0 then
          Some (if 0 < pi_writers p then [ipc_status_raw StWouldBlock, 0, 0, 0]
                else [ipc_status_raw StOk, 0, ucast (file_kind_raw RegularFile), 0], rt, sh)
        else
          let n = min max_len (pi_len p) in
          case pipe_take n p of
            None \<Rightarrow> None
          | Some (bs, p') \<Rightarrow> Some ([ipc_status_raw StOk, of_nat n, ucast (file_kind_raw RegularFile), 0],
              upd_pipe pipe_idx (\<lambda>_. p') rt, put_shared bs sh))"

definition write_pipe :: "nat \<Rightarrow> nat \<Rightarrow> runtime \<Rightarrow> shared \<Rightarrow> reply4 \<times> runtime" where
  "write_pipe pipe_idx max_len rt sh =
     (if MAX_PIPES \<le> pipe_idx then (reply_err, rt)
      else
        let p = pipes rt pipe_idx in
        if pi_readers p = 0 then ([ipc_status_raw StBrokenPipe, 0, 0, 0], rt)
        else if PIPE_BUF \<le> pi_len p then ([ipc_status_raw StWouldBlock, 0, 0, 0], rt)
        else case pipe_put (get_shared max_len sh) p of
          (n, p') \<Rightarrow> ([ipc_status_raw StOk, of_nat n, ucast (file_kind_raw RegularFile), 0], upd_pipe pipe_idx (\<lambda>_. p') rt))"

section \<open>A pipe is a bounded queue\<close>

definition pipe_ok :: "pipe \<Rightarrow> bool" where
  "pipe_ok p \<longleftrightarrow> pi_read_pos p < PIPE_BUF \<and> pi_len p \<le> PIPE_BUF"

definition pipe_bytes :: "pipe \<Rightarrow> u8 list" where
  "pipe_bytes p = map (\<lambda>i. pi_buf p ((pi_read_pos p + i) mod PIPE_BUF)) [0..<pi_len p]"

lemma length_pipe_bytes [simp]: "length (pipe_bytes p) = pi_len p"
  by (simp add: pipe_bytes_def)

lemma pipe_ok_closed [simp]: "pipe_ok pipe_closed"
  by (simp add: pipe_ok_def pipe_closed_def PIPE_BUF_def)

text \<open>The contract of a bounded queue that moves several elements at once, and what its clients derive.\<close>

locale bounded_queue =
  fixes ok :: "'q \<Rightarrow> bool" and content :: "'q \<Rightarrow> 'a list" and cap :: nat
    and put :: "'a list \<Rightarrow> 'q \<Rightarrow> nat \<times> 'q" and get :: "nat \<Rightarrow> 'q \<Rightarrow> ('a list \<times> 'q) option"
  assumes put_law: "ok q \<Longrightarrow> put xs q = (n, q') \<Longrightarrow>
      ok q' \<and> n = min (length xs) (cap - length (content q)) \<and> content q' = content q @ take n xs"
    and get_law: "ok q \<Longrightarrow> n \<le> length (content q) \<Longrightarrow>
      \<exists>q'. get n q = Some (take n (content q), q') \<and> ok q' \<and> content q' = drop n (content q)"
    and cap_law: "ok q \<Longrightarrow> length (content q) \<le> cap"
begin

lemma put_accepts_all:
  assumes "ok q" "length xs \<le> cap - length (content q)"
  shows "\<exists>q'. put xs q = (length xs, q') \<and> ok q' \<and> content q' = content q @ xs"
  using put_law [OF assms(1), of xs "fst (put xs q)" "snd (put xs q)"] assms(2) by (auto simp: prod_eq_iff)

lemma put_then_get:
  assumes "ok q" "put xs q = (n, q')" "k \<le> length (content q) + n"
  shows "\<exists>q''. get k q' = Some (take k (content q @ take n xs), q'') \<and> ok q'' \<and>
    content q'' = drop k (content q @ take n xs)"
  using put_law [OF assms(1,2)] get_law [of q' k] assms(3) by auto

end

lemma ring_slot_free:
  fixes a :: nat
  assumes "i < n" "n < m"
  shows "(a + i) mod m \<noteq> (a + n) mod m"
proof
  assume "(a + i) mod m = (a + n) mod m"
  then have "m dvd (a + n) - (a + i)" using assms by (subst mod_eq_dvd_iff_nat [symmetric]) simp_all
  then have "m dvd n - i" by simp
  then show False using assms by (auto dest: dvd_imp_le)
qed

lemma pipe_put_law:
  assumes "pipe_ok p" "pipe_put xs p = (n, p')"
  shows "pipe_ok p' \<and> n = min (length xs) (PIPE_BUF - length (pipe_bytes p)) \<and> pipe_bytes p' = pipe_bytes p @ take n xs"
  using assms
proof (induction xs arbitrary: p n p')
  case (Cons b bs)
  show ?case
  proof (cases "pi_len p < PIPE_BUF")
    case True
    define q where "q = p\<lparr> pi_buf := (pi_buf p)((pi_read_pos p + pi_len p) mod PIPE_BUF := b), pi_len := pi_len p + 1 \<rparr>"
    have ok: "pipe_ok q" using Cons.prems(1) True by (simp add: pipe_ok_def q_def)
    have "(pi_read_pos p + i) mod PIPE_BUF \<noteq> (pi_read_pos p + pi_len p) mod PIPE_BUF" if "i < pi_len p" for i
      using that True by (rule ring_slot_free)
    then have bytes: "pipe_bytes q = pipe_bytes p @ [b]" by (simp add: pipe_bytes_def q_def)
    obtain m r where m: "pipe_put bs q = (m, r)" by fastforce
    with Cons.prems(2) True have "n = Suc m" "p' = r" by (simp_all add: q_def)
    with Cons.IH [OF ok m] bytes True show ?thesis by (auto simp: q_def)
  next
    case False
    then show ?thesis using Cons.prems by (simp add: pipe_ok_def)
  qed
qed simp

lemma pipe_take_law:
  assumes "pipe_ok p" "n \<le> length (pipe_bytes p)"
  shows "\<exists>p'. pipe_take n p = Some (take n (pipe_bytes p), p') \<and> pipe_ok p' \<and> pipe_bytes p' = drop n (pipe_bytes p)"
  using assms
proof (induction n arbitrary: p)
  case (Suc n)
  define q where "q = p\<lparr> pi_read_pos := Suc (pi_read_pos p) mod PIPE_BUF, pi_len := pi_len p - Suc 0 \<rparr>"
  have pos: "0 < pi_len p" using Suc.prems by simp
  have bytes: "pipe_bytes p = pi_buf p (pi_read_pos p) # pipe_bytes q"
  proof -
    obtain k where k: "pi_len p = Suc k" using pos by (cases "pi_len p") auto
    have "[0..<Suc k] = 0 # map Suc [0..<k]" by (simp add: map_Suc_upt upt_conv_Cons del: upt_Suc)
    then show ?thesis using Suc.prems(1) by (simp add: pipe_bytes_def q_def pipe_ok_def mod_add_left_eq k del: upt_Suc)
  qed
  have ok: "pipe_ok q" using Suc.prems(1) by (auto simp: pipe_ok_def q_def PIPE_BUF_def)
  obtain p' where "pipe_take n q = Some (take n (pipe_bytes q), p')" "pipe_ok p'" "pipe_bytes p' = drop n (pipe_bytes q)"
    using Suc.IH [OF ok] Suc.prems(2) by (simp add: q_def [symmetric] bytes) blast
  then show ?case using Suc.prems(1) by (simp add: q_def [symmetric] bytes pipe_ok_def)
qed simp

interpretation pq: bounded_queue pipe_ok pipe_bytes PIPE_BUF pipe_put pipe_take
proof
  show "pipe_ok q' \<and> n = min (length xs) (PIPE_BUF - length (pipe_bytes q)) \<and> pipe_bytes q' = pipe_bytes q @ take n xs"
    if "pipe_ok q" "pipe_put xs q = (n, q')" for q xs n q' using that by (rule pipe_put_law)
  show "\<exists>q'. pipe_take n q = Some (take n (pipe_bytes q), q') \<and> pipe_ok q' \<and> pipe_bytes q' = drop n (pipe_bytes q)"
    if "pipe_ok q" "n \<le> length (pipe_bytes q)" for q n using that by (rule pipe_take_law)
  show "length (pipe_bytes q) \<le> PIPE_BUF" if "pipe_ok q" for q using that by (simp add: pipe_ok_def)
qed

section \<open>Interleaved requests\<close>

text \<open>
  The requests of several processes on the pipes, in the order the server takes them: before a write the host
  stores the bytes in the shared buffer, after a read it takes them from there. \<open>pipe_run k\<close> collects what pipe \<open>k\<close>
  has accepted and what it has delivered, as the answers say.
\<close>

datatype pipe_request = PipeRead nat nat | PipeWrite nat "u8 list"

definition pipe_request_step :: "pipe_request \<Rightarrow> runtime \<times> shared \<Rightarrow> (u8 list \<times> u8 list \<times> runtime \<times> shared) option" where
  "pipe_request_step r s = (case s of (rt, sh) \<Rightarrow> (case r of
     PipeRead k len \<Rightarrow> map_option (\<lambda>(reply, rt', sh'). ([],
       if reply ! 0 = ipc_status_raw StOk then get_shared (unat (reply ! 1)) sh' else [], rt', sh'))
         (read_pipe k (min len MAX_IO_BYTES) rt sh)
   | PipeWrite k bs \<Rightarrow>
       let sh' = put_shared bs sh in
       case write_pipe k (min (length bs) MAX_IO_BYTES) rt sh' of
         (reply, rt') \<Rightarrow> Some (if reply ! 0 = ipc_status_raw StOk then take (unat (reply ! 1)) bs else [], [], rt', sh')))"

fun request_pipe :: "pipe_request \<Rightarrow> nat" where
  "request_pipe (PipeRead k _) = k"
| "request_pipe (PipeWrite k _) = k"

primrec pipe_run :: "nat \<Rightarrow> pipe_request list \<Rightarrow> runtime \<times> shared \<Rightarrow> (u8 list \<times> u8 list \<times> runtime \<times> shared) option" where
  "pipe_run k [] s = Some ([], [], s)"
| "pipe_run k (r # rs) s = (case pipe_request_step r s of
     None \<Rightarrow> None
   | Some (i, out, s') \<Rightarrow> map_option (\<lambda>(is, outs, s''). (if request_pipe r = k then (i @ is, out @ outs, s'') else (is, outs, s'')))
       (pipe_run k rs s'))"

definition pipes_ok :: "runtime \<Rightarrow> bool" where
  "pipes_ok rt \<longleftrightarrow> (\<forall>i < MAX_PIPES. pipe_ok (pipes rt i))"

lemma pipes_upd [simp]: "pipes (upd_pipe i f rt) j = (if j = i then f (pipes rt i) else pipes rt j)"
  by (simp add: upd_pipe_def)

lemma read_pipe_law:
  assumes "pipes_ok rt" "i < MAX_PIPES"
  shows "\<exists>reply rt' sh'. read_pipe i n rt sh = Some (reply, rt', sh') \<and> pipes_ok rt' \<and> (\<forall>j. j \<noteq> i \<longrightarrow> pipes rt' j = pipes rt j) \<and>
    pipe_bytes (pipes rt i) = (if reply ! 0 = ipc_status_raw StOk then get_shared (unat (reply ! 1)) sh' else [])
      @ pipe_bytes (pipes rt' i)"
proof (cases "pi_len (pipes rt i) = 0")
  case True
  then show ?thesis using assms by (auto simp: read_pipe_def pipe_bytes_def)
next
  case False
  define p m where "p = pipes rt i" and "m = min n (pi_len p)"
  have ok: "pipe_ok p" using assms by (simp add: pipes_ok_def p_def)
  obtain p' where t: "pipe_take m p = Some (take m (pipe_bytes p), p')" "pipe_ok p'" "pipe_bytes p' = drop m (pipe_bytes p)"
    using pq.get_law [OF ok, of m] by (auto simp: m_def)
  have "m \<le> 512" using ok by (auto simp: m_def pipe_ok_def PIPE_BUF_def)
  then have "unat (of_nat m :: u64) = m" by (simp add: unsigned_of_nat take_bit_nat_eq_self)
  moreover have "get_shared m (put_shared (take m (pipe_bytes p)) sh) = take m (pipe_bytes p)"
    using get_put_shared [of "take m (pipe_bytes p)" sh] by (simp add: m_def)
  ultimately show ?thesis using False assms t
    by (auto simp: read_pipe_def p_def [symmetric] m_def [symmetric] pipes_ok_def)
qed

lemma get_shared_put [simp]: "n \<le> length bs \<Longrightarrow> get_shared n (put_shared bs sh) = take n bs"
  by (auto simp: put_shared_def intro!: nth_equalityI)

lemma write_pipe_law:
  assumes "pipes_ok rt" "i < MAX_PIPES" "write_pipe i n rt sh = (reply, rt')"
  shows "pipes_ok rt' \<and> (\<forall>j. j \<noteq> i \<longrightarrow> pipes rt' j = pipes rt j) \<and>
    pipe_bytes (pipes rt' i) = pipe_bytes (pipes rt i)
      @ (if reply ! 0 = ipc_status_raw StOk then take (unat (reply ! 1)) (get_shared n sh) else []) \<and>
    (reply ! 0 = ipc_status_raw StOk \<longrightarrow> unat (reply ! 1) \<le> n)"
proof (cases "pi_readers (pipes rt i) = 0 \<or> PIPE_BUF \<le> pi_len (pipes rt i)")
  case True
  then show ?thesis using assms by (auto simp: write_pipe_def Let_def split: if_splits)
next
  case False
  obtain k p' where k: "pipe_put (get_shared n sh) (pipes rt i) = (k, p')" by fastforce
  have ok: "pipe_ok (pipes rt i)" using assms by (simp add: pipes_ok_def)
  note law = pq.put_law [OF ok k]
  have "k \<le> 512" using law by (simp add: PIPE_BUF_def)
  then have "unat (of_nat k :: u64) = k" by (simp add: unsigned_of_nat take_bit_nat_eq_self)
  then show ?thesis using False assms law k by (auto simp: write_pipe_def pipes_ok_def Let_def split: if_splits)
qed

lemma pipe_request_step_law:
  assumes "pipes_ok rt"
  shows "\<exists>i out rt' sh'. pipe_request_step r (rt, sh) = Some (i, out, rt', sh') \<and> pipes_ok rt' \<and>
    (k < MAX_PIPES \<longrightarrow> (if request_pipe r = k then pipe_bytes (pipes rt k) @ i = out @ pipe_bytes (pipes rt' k)
       else pipes rt' k = pipes rt k))"
proof (cases r)
  case (PipeRead j len)
  show ?thesis
  proof (cases "j < MAX_PIPES")
    case True
    obtain reply rt' sh' where "read_pipe j (min len MAX_IO_BYTES) rt sh = Some (reply, rt', sh')" and law: "pipes_ok rt'"
      "\<forall>i. i \<noteq> j \<longrightarrow> pipes rt' i = pipes rt i" "pipe_bytes (pipes rt j) =
        (if reply ! 0 = ipc_status_raw StOk then get_shared (unat (reply ! 1)) sh' else []) @ pipe_bytes (pipes rt' j)"
      using read_pipe_law [OF assms True, of "min len MAX_IO_BYTES" sh] by blast
    then have "pipe_request_step r (rt, sh) = Some ([],
        if reply ! 0 = ipc_status_raw StOk then get_shared (unat (reply ! 1)) sh' else [], rt', sh')"
      by (simp add: PipeRead pipe_request_step_def)
    with law show ?thesis by (auto simp: PipeRead)
  qed (use assms in \<open>auto simp: PipeRead pipe_request_step_def read_pipe_def\<close>)
next
  case (PipeWrite j bs)
  obtain reply rt' where w: "write_pipe j (min (length bs) MAX_IO_BYTES) rt (put_shared bs sh) = (reply, rt')" by fastforce
  show ?thesis
  proof (cases "j < MAX_PIPES")
    case True
    have "pipe_request_step r (rt, sh) = Some (if reply ! 0 = ipc_status_raw StOk then take (unat (reply ! 1)) bs else [],
        [], rt', put_shared bs sh)"
      by (simp add: PipeWrite pipe_request_step_def w)
    with write_pipe_law [OF assms True w] show ?thesis by (auto simp: PipeWrite min_def split: if_splits)
  qed (use assms w in \<open>auto simp: PipeWrite pipe_request_step_def write_pipe_def\<close>)
qed

text \<open>
  C19: whatever reads and writes of whatever processes the server takes in whatever order, the requests on the
  pipes never reach outside a ring, and pipe \<open>k\<close> is a queue of bounded capacity: what it held at first followed
  by all it has accepted since, as its answers to writers said, is what it has delivered to readers followed by
  what it holds now, in order and with no byte lost, repeated or taken from another pipe.
\<close>
theorem pipe_is_bounded_fifo:
  assumes "pipes_ok rt" "k < MAX_PIPES"
  shows "\<exists>accepted delivered rt' sh'. pipe_run k rs (rt, sh) = Some (accepted, delivered, rt', sh') \<and> pipes_ok rt' \<and>
    pipe_bytes (pipes rt k) @ accepted = delivered @ pipe_bytes (pipes rt' k) \<and> length (pipe_bytes (pipes rt' k)) \<le> PIPE_BUF"
  using assms(1)
proof (induction rs arbitrary: rt sh)
  case Nil
  then show ?case using assms(2) by (simp add: pipes_ok_def pipe_ok_def)
next
  case (Cons r rs)
  obtain i out rt1 sh1 where s: "pipe_request_step r (rt, sh) = Some (i, out, rt1, sh1)" "pipes_ok rt1"
    "if request_pipe r = k then pipe_bytes (pipes rt k) @ i = out @ pipe_bytes (pipes rt1 k) else pipes rt1 k = pipes rt k"
    using pipe_request_step_law [OF Cons.prems, of r sh k] assms(2) by blast
  obtain ins outs rt2 sh2 where IH: "pipe_run k rs (rt1, sh1) = Some (ins, outs, rt2, sh2)" "pipes_ok rt2"
    "pipe_bytes (pipes rt1 k) @ ins = outs @ pipe_bytes (pipes rt2 k)" "length (pipe_bytes (pipes rt2 k)) \<le> PIPE_BUF"
    using Cons.IH [OF s(2)] by blast
  show ?case
  proof (cases "request_pipe r = k")
    case True
    then have "pipe_bytes (pipes rt k) @ i @ ins = (out @ outs) @ pipe_bytes (pipes rt2 k)"
      using s(3) IH(3) by (metis (full_types) append.assoc)
    then show ?thesis using s IH True by simp
  qed (use s IH in simp)
qed

lemma pipe_is_bounded_fifo_witness:
  "\<exists>rt' sh'. pipe_run 0 [PipeWrite 0 [7], PipeWrite 0 [8], PipeRead 1 1, PipeRead 0 1]
      (snd (open_pipe 0 runtime_new), \<lambda>_. 0) = Some ([7, 8], [7], rt', sh')"
proof -
  let ?rs = "[PipeWrite 0 [7], PipeWrite 0 [8], PipeRead 1 1, PipeRead 0 1]"
  let ?rt = "snd (open_pipe 0 runtime_new)"
  have "pipes_ok ?rt" by (simp add: pipes_ok_def open_pipe_def runtime_new_def MAX_PIPES_def pipe_ok_def pipe_closed_def PIPE_BUF_def)
  from pipe_is_bounded_fifo [OF this, of 0 ?rs "\<lambda>_. 0"] obtain a d rt' sh' where
    r: "pipe_run 0 ?rs (?rt, \<lambda>_. 0) = Some (a, d, rt', sh')" and e: "pipe_bytes (pipes ?rt 0) @ a = d @ pipe_bytes (pipes rt' 0)"
    by (auto simp: MAX_PIPES_def)
  have "\<exists>s. pipe_run 0 ?rs (?rt, \<lambda>_. 0) = Some ([7, 8], [7], s)"
    by (simp add: pipe_request_step_def write_pipe_def read_pipe_def open_pipe_def runtime_new_def upd_pipe_def pipe_closed_def
        MAX_PIPES_def PIPE_BUF_def MAX_IO_BYTES_def get_shared_def put_shared_def)
  then show ?thesis using r by auto
qed

end
