(* ===== verification/Vfs_Console.thy ===== *)
theory Vfs_Console
  imports Vfs_Pipe
begin

text \<open>
  The console of the file server (\<^verbatim>\<open>userspace/vfs-server/src/console.rs\<close>): line editing with echo in a ring of 128
  bytes whose three indices run freely, reading of complete lines, and output. It is shown to refine an editor that
  holds the published bytes and the line being typed as two lists.

  The input that may be compiled into the server is the parameter \<open>script\<close>, empty when there is none.
\<close>

section \<open>The ring\<close>

definition CTRL_D :: u8 where "CTRL_D = 0x04"
definition CTRL_H :: u8 where "CTRL_H = 0x08"
definition CTRL_U :: u8 where "CTRL_U = 0x15"
definition DEL :: u8 where "DEL = 0x7F"
definition CR :: u8 where "CR = 0x0D"
definition LF :: u8 where "LF = 0x0A"
definition SPACE :: u8 where "SPACE = 0x20"

definition console_has_complete_line :: "console_state \<Rightarrow> bool" where
  "console_has_complete_line c \<longleftrightarrow> co_r c \<noteq> co_w c"

definition scripted_input_done :: "u8 list \<Rightarrow> console_state \<Rightarrow> bool" where
  "scripted_input_done script c \<longleftrightarrow> length script \<le> co_input_pos c"

definition console_input_room :: "console_state \<Rightarrow> bool" where
  "console_input_room c \<longleftrightarrow> co_e c - co_r c < of_nat CONSOLE_BUF_SIZE"

definition can_erase_console_char :: "console_state \<Rightarrow> bool" where
  "can_erase_console_char c \<longleftrightarrow> co_e c \<noteq> co_w c"

definition erase_console_char :: "console_state \<Rightarrow> console_state" where
  "erase_console_char c = c\<lparr> co_e := co_e c - 1 \<rparr>"

definition push_console_char :: "u8 \<Rightarrow> console_state \<Rightarrow> console_state" where
  "push_console_char ch c =
     (let c1 = c\<lparr> co_buf := (co_buf c)(unat (co_e c) mod CONSOLE_BUF_SIZE := ch), co_e := co_e c + 1 \<rparr>
      in if ch = LF \<or> ch = CTRL_D \<or> co_e c1 - co_r c1 = of_nat CONSOLE_BUF_SIZE then c1\<lparr> co_w := co_e c1 \<rparr> else c1)"

primrec copy_console_loop :: "nat \<Rightarrow> bool \<Rightarrow> console_state \<Rightarrow> u8 list \<times> bool \<times> console_state" where
  "copy_console_loop 0 some c = ([], False, c)"
| "copy_console_loop (Suc k) some c =
     (if co_r c = co_w c then ([], False, c)
      else
        let ch = co_buf c (unat (co_r c) mod CONSOLE_BUF_SIZE); c1 = c\<lparr> co_r := co_r c + 1 \<rparr> in
        if ch = CTRL_D then (if some then ([], False, c) else ([], True, c1))
        else if ch = LF then ([ch], False, c1)
        else case copy_console_loop k True c1 of (bs, eof, c2) \<Rightarrow> (ch # bs, eof, c2))"

definition copy_console_output :: "nat \<Rightarrow> console_state \<Rightarrow> shared \<Rightarrow> nat \<times> bool \<times> console_state \<times> shared" where
  "copy_console_output max_len c sh = (case copy_console_loop max_len False c of
     (bs, eof, c1) \<Rightarrow> (length bs, eof, c1, put_shared bs sh))"

definition publish_partial_scripted_line :: "console_state \<Rightarrow> console_state" where
  "publish_partial_scripted_line c = (if co_e c \<noteq> co_r c then c\<lparr> co_w := co_e c \<rparr> else c)"

section \<open>Input\<close>

definition echo_backspace :: "uart \<Rightarrow> uart option" where
  "echo_backspace u = (case uart_putch CTRL_H u of
     None \<Rightarrow> None
   | Some (_, u) \<Rightarrow>
       (case uart_putch SPACE u of
          None \<Rightarrow> None
        | Some (_, u) \<Rightarrow> map_option snd (uart_putch CTRL_H u)))"

text \<open>The loop ends because the distance from \<^verbatim>\<open>w\<close> to \<^verbatim>\<open>e\<close> shrinks, whatever the indices are.\<close>

lemma unat_dec: "(d :: u64) \<noteq> 0 \<Longrightarrow> unat (d - 1) < unat d"
  by (simp add: unat_minus_one unat_gt_0)

function kill_line :: "console_state \<Rightarrow> uart \<Rightarrow> (console_state \<times> uart) option" where
  "kill_line c u =
     (if can_erase_console_char c then
        (case echo_backspace u of None \<Rightarrow> None | Some u1 \<Rightarrow> kill_line (erase_console_char c) u1)
      else Some (c, u))"
  by pat_completeness auto
termination
proof (relation "measure (\<lambda>(c, _). unat (co_e c - co_w c))")
  fix c :: console_state and u u1 :: uart
  assume "can_erase_console_char c"
  then show "((erase_console_char c, u1), c, u) \<in> measure (\<lambda>(c, _). unat (co_e c - co_w c))"
    using unat_dec [of "co_e c - co_w c"] by (simp add: can_erase_console_char_def erase_console_char_def algebra_simps)
qed simp

declare kill_line.simps [simp del]

definition handle_console_input :: "u8 \<Rightarrow> console_state \<Rightarrow> uart \<Rightarrow> (console_state \<times> uart) option" where
  "handle_console_input ch0 c u =
     (let ch = (if ch0 = CR then LF else ch0) in
      if ch = CTRL_U then kill_line c u
      else if ch = CTRL_H \<or> ch = DEL then
        (if can_erase_console_char c then map_option (\<lambda>u1. (erase_console_char c, u1)) (echo_backspace u) else Some (c, u))
      else if ch \<noteq> 0 \<and> console_input_room c then
        map_option (\<lambda>(_, u1). (push_console_char ch c, u1)) (uart_putch ch u)
      else Some (c, u))"

lemma echo_backspace_eq: "echo_backspace u = Some (u\<lparr> ua_tx := ua_tx u @ [CTRL_H, SPACE, CTRL_H] \<rparr>)"
  by (simp add: echo_backspace_def uart_putch_eq putch_def)

lemma kill_line_rx: "kill_line c u = Some (c1, u1) \<Longrightarrow> ua_rx u1 = ua_rx u"
  by (induction c u rule: kill_line.induct) (subst (asm) (2) kill_line.simps, auto simp: echo_backspace_eq split: if_splits)

lemma handle_console_input_rx: "handle_console_input ch c u = Some (c1, u1) \<Longrightarrow> ua_rx u1 = ua_rx u"
  by (auto simp: handle_console_input_def Let_def echo_backspace_eq uart_putch_eq putch_def dest: kill_line_rx split: if_splits)

function drain_scripted_loop :: "u8 list \<Rightarrow> console_state \<Rightarrow> uart \<Rightarrow> (console_state \<times> uart) option" where
  "drain_scripted_loop script c u =
     (if \<not> console_has_complete_line c \<and> \<not> scripted_input_done script c then
        (case handle_console_input (script ! co_input_pos c) (c\<lparr> co_input_pos := co_input_pos c + 1 \<rparr>) u of
           None \<Rightarrow> None
         | Some (c1, u1) \<Rightarrow> drain_scripted_loop script c1 u1)
      else Some (c, u))"
  by pat_completeness auto

lemma kill_line_pos: "kill_line c u = Some (c1, u1) \<Longrightarrow> co_input_pos c1 = co_input_pos c"
  by (induction c u rule: kill_line.induct)
    (subst (asm) (2) kill_line.simps, auto simp: echo_backspace_eq erase_console_char_def split: if_splits)

lemma handle_console_input_pos: "handle_console_input ch c u = Some (c1, u1) \<Longrightarrow> co_input_pos c1 = co_input_pos c"
  by (auto simp: handle_console_input_def Let_def echo_backspace_eq uart_putch_eq push_console_char_def erase_console_char_def
      dest: kill_line_pos split: if_splits)

termination drain_scripted_loop
  by (relation "measure (\<lambda>(script, c, _). length script - co_input_pos c)")
    (auto simp: scripted_input_done_def dest!: handle_console_input_pos)

definition drain_scripted_input :: "u8 list \<Rightarrow> console_state \<Rightarrow> uart \<Rightarrow> (console_state \<times> uart) option" where
  "drain_scripted_input script c u = map_option (\<lambda>(c1, u1).
     (if scripted_input_done script c1 \<and> \<not> console_has_complete_line c1 then publish_partial_scripted_line c1 else c1, u1))
       (drain_scripted_loop script c u)"

function drain_uart_input :: "console_state \<Rightarrow> uart \<Rightarrow> ((reply4 + unit) \<times> console_state \<times> uart) option" where
  "drain_uart_input c u =
     (if console_has_complete_line c then Some (Inr (), c, u)
      else case uart_getch u of
        None \<Rightarrow> None
      | Some (reply, u1) \<Rightarrow>
          if reply ! 0 = ipc_status_raw StWouldBlock then Some (Inr (), c, u1)
          else if reply ! 0 \<noteq> ipc_status_raw StOk then Some (Inl [ipc_status_raw StInvalidArgument, 0, 0, 0], c, u1)
          else (case handle_console_input (ucast (reply ! 1)) c u1 of
                  None \<Rightarrow> None
                | Some (c2, u2) \<Rightarrow> drain_uart_input c2 u2))"
  by pat_completeness auto

lemma uart_getch_shorter:
  assumes "uart_getch u = Some (reply, u1)" "reply ! 0 \<noteq> ipc_status_raw StWouldBlock"
  shows "length (ua_rx u1) < length (ua_rx u)"
  using assms by (auto simp: uart_getch_eq getch_def split: prod.splits list.splits option.splits if_splits)

termination drain_uart_input
  by (relation "measure (\<lambda>(_, u). length (ua_rx u))") (auto dest!: handle_console_input_rx uart_getch_shorter)

declare drain_scripted_loop.simps [simp del] drain_uart_input.simps [simp del]

section \<open>Requests\<close>

definition init_console :: "uart \<Rightarrow> (bool \<times> uart) option" where
  "init_console u = uart_init u"

definition device_reply :: "nat \<Rightarrow> reply4" where
  "device_reply n = [ipc_status_raw StOk, of_nat n, ucast (file_kind_raw Device), 0]"

definition finish_read_console :: "u8 list \<Rightarrow> nat \<Rightarrow> console_state \<Rightarrow> uart \<Rightarrow> shared \<Rightarrow> reply4 \<times> console_state \<times> uart \<times> shared" where
  "finish_read_console script max_len c u sh = (case copy_console_output max_len c sh of
     (n, eof, c, sh) \<Rightarrow>
       (if n = 0 then
          (if eof \<or> (script \<noteq> [] \<and> scripted_input_done script c) then device_reply 0
           else [ipc_status_raw StWouldBlock, 0, 0, 0])
        else device_reply n, c, u, sh))"

definition read_console :: "u8 list \<Rightarrow> nat \<Rightarrow> console_state \<Rightarrow> uart \<Rightarrow> shared
    \<Rightarrow> (reply4 \<times> console_state \<times> uart \<times> shared) option" where
  "read_console script max_len c u sh =
     (if max_len = 0 then Some (device_reply 0, c, u, sh)
      else if script \<noteq> [] then
        map_option (\<lambda>(c, u). finish_read_console script max_len c u sh) (drain_scripted_input script c u)
      else case drain_uart_input c u of
        None \<Rightarrow> None
      | Some (Inl reply, c, u) \<Rightarrow> Some (reply, c, u, sh)
      | Some (Inr _, c, u) \<Rightarrow> Some (finish_read_console script max_len c u sh))"

text \<open>Output, byte by byte; the source moves the bytes in pieces of 64.\<close>

primrec put_bytes :: "nat \<Rightarrow> u8 list \<Rightarrow> uart \<Rightarrow> ((nat + unit) \<times> uart) option" where
  "put_bytes done [] u = Some (Inr (), u)"
| "put_bytes done (b # bs) u = (case uart_putch b u of
     None \<Rightarrow> None
   | Some (True, u1) \<Rightarrow> put_bytes (Suc done) bs u1
   | Some (False, u1) \<Rightarrow> Some (Inl done, u1))"

definition write_console :: "nat \<Rightarrow> uart \<Rightarrow> shared \<Rightarrow> (reply4 \<times> uart) option" where
  "write_console max_len u sh =
     (let len = min max_len MAX_IO_BYTES in
      case put_bytes 0 (get_shared len sh) u of
        None \<Rightarrow> None
      | Some (Inl n, u1) \<Rightarrow> Some ([ipc_status_raw StInvalidArgument, of_nat n, ucast (file_kind_raw Device), 0], u1)
      | Some (Inr _, u1) \<Rightarrow> Some (device_reply len, u1))"

section \<open>The console as a line editor\<close>

text \<open>
  The specification holds the bytes that readers may have and the line being typed. A line is published when
  it is ended, or when all room is used. The second part of the answer is the echo.
\<close>

definition rubout :: "u8 list" where "rubout = [CTRL_H, SPACE, CTRL_H]"

definition edit_input :: "u8 \<Rightarrow> u8 list \<times> u8 list \<Rightarrow> (u8 list \<times> u8 list) \<times> u8 list" where
  "edit_input ch0 st = (case st of (published, line) \<Rightarrow>
     let ch = (if ch0 = CR then LF else ch0) in
     if ch = CTRL_U then ((published, []), concat (replicate (length line) rubout))
     else if ch = CTRL_H \<or> ch = DEL then (if line = [] then (st, []) else ((published, butlast line), rubout))
     else if ch = 0 \<or> CONSOLE_BUF_SIZE \<le> length published + length line then (st, [])
     else if ch = LF \<or> ch = CTRL_D \<or> Suc (length published + length line) = CONSOLE_BUF_SIZE
     then ((published @ line @ [ch], []), [ch])
     else ((published, line @ [ch]), [ch]))"

definition console_ok :: "console_state \<Rightarrow> bool" where
  "console_ok c \<longleftrightarrow> unat (co_e c - co_r c) \<le> CONSOLE_BUF_SIZE \<and> unat (co_w c - co_r c) \<le> unat (co_e c - co_r c)"

definition ring_text :: "(nat \<Rightarrow> u8) \<Rightarrow> u64 \<Rightarrow> nat \<Rightarrow> u8 list" where
  "ring_text buf r n = map (\<lambda>i. buf ((unat r + i) mod CONSOLE_BUF_SIZE)) [0..<n]"

definition console_abs :: "console_state \<Rightarrow> u8 list \<times> u8 list" where
  "console_abs c = (let text = ring_text (co_buf c) (co_r c) (unat (co_e c - co_r c)); k = unat (co_w c - co_r c)
                    in (take k text, drop k text))"

lemma ring_text_simps [simp]:
  "length (ring_text buf r n) = n" "ring_text buf r 0 = []"
  "ring_text buf r (Suc n) = ring_text buf r n @ [buf ((unat r + n) mod CONSOLE_BUF_SIZE)]"
  by (simp_all add: ring_text_def)

lemma take_ring_text: "k \<le> n \<Longrightarrow> take k (ring_text buf r n) = ring_text buf r k"
  by (simp add: ring_text_def take_map)

lemma ring_index: "unat ((r :: u64) + of_nat i) mod CONSOLE_BUF_SIZE = (unat r + i) mod CONSOLE_BUF_SIZE"
proof -
  have "(2 ^ 64 :: nat) mod 128 = 0" by simp
  then show ?thesis by (simp add: CONSOLE_BUF_SIZE_def unat_word_ariths unsigned_of_nat take_bit_eq_mod mod_mod_cancel
    mod_add_right_eq)
qed

lemma ring_text_push:
  assumes "n < CONSOLE_BUF_SIZE" "i \<le> n"
  shows "ring_text (buf((unat r + n) mod CONSOLE_BUF_SIZE := b)) r i = ring_text buf r i"
  unfolding ring_text_def using assms ring_slot_free [of _ n CONSOLE_BUF_SIZE "unat r"] by auto

lemma ring_text_pop:
  "ring_text buf r (Suc n) = buf (unat r mod CONSOLE_BUF_SIZE) # ring_text buf (r + 1) n"
proof -
  have "(unat (r + 1) + i) mod CONSOLE_BUF_SIZE = (unat r + Suc i) mod CONSOLE_BUF_SIZE" for i
    using ring_index [of r 1] by (metis (no_types) add.assoc mod_add_left_eq of_nat_1 plus_1_eq_Suc)
  moreover have "[0..<Suc n] = 0 # map Suc [0..<n]" by (simp add: map_Suc_upt upt_conv_Cons del: upt_Suc)
  ultimately show ?thesis by (simp add: ring_text_def del: upt_Suc)
qed

text \<open>A sound state is a start, a number of bytes and how many of them are published.\<close>

lemma console_okE:
  assumes "console_ok c"
  obtains n k where "co_e c = co_r c + of_nat n" "co_w c = co_r c + of_nat k" "k \<le> n" "n \<le> CONSOLE_BUF_SIZE"
    "console_abs c = (ring_text (co_buf c) (co_r c) k, drop k (ring_text (co_buf c) (co_r c) n))"
proof
  let ?n = "unat (co_e c - co_r c)" and ?k = "unat (co_w c - co_r c)"
  show "co_e c = co_r c + of_nat ?n" "co_w c = co_r c + of_nat ?k" by simp_all
  show "?k \<le> ?n" "?n \<le> CONSOLE_BUF_SIZE" using assms by (simp_all add: console_ok_def)
  then show "console_abs c = (ring_text (co_buf c) (co_r c) ?k, drop ?k (ring_text (co_buf c) (co_r c) ?n))"
    by (simp add: console_abs_def Let_def take_ring_text)
qed

lemma small_unat: "n \<le> Suc CONSOLE_BUF_SIZE \<Longrightarrow> unat (of_nat n :: u64) = n"
  by (simp add: CONSOLE_BUF_SIZE_def unsigned_of_nat take_bit_nat_eq_self)

lemma console_absI:
  assumes "co_e c = co_r c + of_nat n" "co_w c = co_r c + of_nat k" "k \<le> n" "n \<le> CONSOLE_BUF_SIZE"
  shows "console_ok c" "console_abs c = (ring_text (co_buf c) (co_r c) k, drop k (ring_text (co_buf c) (co_r c) n))"
  using assms by (simp_all add: console_ok_def console_abs_def Let_def small_unat take_ring_text)

lemma small_eq: "n \<le> Suc CONSOLE_BUF_SIZE \<Longrightarrow> k \<le> Suc CONSOLE_BUF_SIZE \<Longrightarrow> (r :: u64) + of_nat n = r + of_nat k \<longleftrightarrow> n = k"
  by (metis add_left_cancel small_unat)

lemma console_input_room_iff:
  assumes "co_e c = co_r c + of_nat n" "n \<le> CONSOLE_BUF_SIZE"
  shows "console_input_room c \<longleftrightarrow> n < CONSOLE_BUF_SIZE"
proof -
  have "console_input_room c \<longleftrightarrow> (of_nat n :: u64) < of_nat CONSOLE_BUF_SIZE" by (simp add: console_input_room_def assms(1))
  also have "\<dots> \<longleftrightarrow> n < CONSOLE_BUF_SIZE" using assms(2) by (simp add: word_less_nat_alt small_unat)
  finally show ?thesis .
qed

lemma push_console_char_law:
  assumes "console_ok c" "console_input_room c" "console_abs c = (published, line)"
  shows "console_ok (push_console_char ch c) \<and> console_abs (push_console_char ch c) =
    (if ch = LF \<or> ch = CTRL_D \<or> Suc (length published + length line) = CONSOLE_BUF_SIZE
     then (published @ line @ [ch], []) else (published, line @ [ch]))"
proof -
  obtain n k where s: "co_e c = co_r c + of_nat n" "co_w c = co_r c + of_nat k" "k \<le> n" "n \<le> CONSOLE_BUF_SIZE"
    "console_abs c = (ring_text (co_buf c) (co_r c) k, drop k (ring_text (co_buf c) (co_r c) n))"
    using console_okE [OF assms(1)] by blast
  have n: "n < CONSOLE_BUF_SIZE" using assms(2) s(1,4) by (simp add: console_input_room_iff)
  define full where "full \<longleftrightarrow> ch = LF \<or> ch = CTRL_D \<or> Suc n = CONSOLE_BUF_SIZE"
  let ?c = "push_console_char ch c" and ?b = "(co_buf c)((unat (co_r c) + n) mod CONSOLE_BUF_SIZE := ch)"
  have idx: "unat (co_e c) mod CONSOLE_BUF_SIZE = (unat (co_r c) + n) mod CONSOLE_BUF_SIZE" by (simp add: s(1) ring_index)
  have e1: "co_e c + 1 = co_r c + of_nat (Suc n)" by (simp add: s(1))
  have full: "of_nat (Suc n) = (of_nat CONSOLE_BUF_SIZE :: u64) \<longleftrightarrow> Suc n = CONSOLE_BUF_SIZE"
    using n small_eq [of "Suc n" CONSOLE_BUF_SIZE 0] by simp
  have c: "?c = c\<lparr> co_buf := ?b, co_e := co_r c + of_nat (Suc n), co_w := co_r c + of_nat (if full then Suc n else k) \<rparr>"
    by (rule console_state.equality)
      (auto simp: push_console_char_def Let_def full_def idx e1 full s(2) [symmetric] simp del: of_nat_Suc)
  have r: "ring_text ?b (co_r c) i = ring_text (co_buf c) (co_r c) i" if "i \<le> n" for i using n that by (rule ring_text_push)
  have len: "length published + length line = n" "published @ line = ring_text (co_buf c) (co_r c) n"
    using assms(3) s(3,5) by (auto simp: take_ring_text [symmetric])
  note a = console_absI [of ?c "Suc n" "if full then Suc n else k"]
  have "console_ok ?c" using a(1) s(3) n by (simp add: c)
  moreover have "console_abs ?c = (if full then (published @ line @ [ch], []) else (published, line @ [ch]))"
    using a(2) s(3) n assms(3) len by (simp add: c r s(5))
  ultimately show ?thesis by (simp add: len(1) full_def)
qed

lemma erase_console_char_law:
  assumes "console_ok c" "console_abs c = (published, line)"
  shows "can_erase_console_char c \<longleftrightarrow> line \<noteq> []"
    "line \<noteq> [] \<Longrightarrow> console_ok (erase_console_char c) \<and> console_abs (erase_console_char c) = (published, butlast line)"
proof -
  obtain n k where s: "co_e c = co_r c + of_nat n" "co_w c = co_r c + of_nat k" "k \<le> n" "n \<le> CONSOLE_BUF_SIZE"
    "console_abs c = (ring_text (co_buf c) (co_r c) k, drop k (ring_text (co_buf c) (co_r c) n))"
    using console_okE [OF assms(1)] by blast
  have line: "line = drop k (ring_text (co_buf c) (co_r c) n)" using assms(2) s(5) by simp
  show "can_erase_console_char c \<longleftrightarrow> line \<noteq> []"
    using s(3,4) small_eq [of n k "co_r c"] by (auto simp: can_erase_console_char_def line s(1,2))
  assume "line \<noteq> []"
  then obtain m where m: "n = Suc m" "k \<le> m" using s(3) line by (cases n) (auto simp: le_Suc_eq)
  have c: "erase_console_char c = c\<lparr> co_e := co_r c + of_nat m \<rparr>"
    by (simp add: erase_console_char_def s(1) m(1) algebra_simps)
  show "console_ok (erase_console_char c) \<and> console_abs (erase_console_char c) = (published, butlast line)"
    using console_absI [of "erase_console_char c" m k] s m assms(2) line by (simp add: c butlast_append)
qed

lemma kill_line_law:
  assumes "console_ok c" "console_abs c = (published, line)"
  shows "\<exists>c'. kill_line c u = Some (c', u\<lparr> ua_tx := ua_tx u @ concat (replicate (length line) rubout) \<rparr>) \<and>
    console_ok c' \<and> console_abs c' = (published, [])"
  using assms
proof (induction "length line" arbitrary: line c u)
  case 0
  then show ?case using erase_console_char_law(1) [of c published line] by (subst kill_line.simps) simp
next
  case (Suc n)
  then have ne: "line \<noteq> []" by auto
  note e = erase_console_char_law [OF Suc.prems]
  have "n = length (butlast line)" using Suc.hyps by simp
  from Suc.hyps(1) [OF this, of "erase_console_char c" "u\<lparr> ua_tx := ua_tx u @ rubout \<rparr>"] e(2) [OF ne]
  show ?case using e(1) ne by (subst kill_line.simps) (simp add: echo_backspace_eq rubout_def [symmetric] Suc.hyps(2) [symmetric])
qed

lemma handle_console_input_law:
  assumes "console_ok c"
  shows "\<exists>c'. handle_console_input ch c u = Some (c', u\<lparr> ua_tx := ua_tx u @ snd (edit_input ch (console_abs c)) \<rparr>) \<and>
    console_ok c' \<and> console_abs c' = fst (edit_input ch (console_abs c))"
proof -
  obtain published line where a: "console_abs c = (published, line)" by fastforce
  have room: "console_input_room c \<longleftrightarrow> length published + length line < CONSOLE_BUF_SIZE"
  proof -
    obtain n k where s: "co_e c = co_r c + of_nat n" "k \<le> n" "n \<le> CONSOLE_BUF_SIZE"
      "console_abs c = (ring_text (co_buf c) (co_r c) k, drop k (ring_text (co_buf c) (co_r c) n))"
      using console_okE [OF assms] by blast
    then have "length published + length line = n" using a by auto
    then show ?thesis using s by (simp add: console_input_room_iff)
  qed
  note e = erase_console_char_law [OF assms a]
  show ?thesis
    using kill_line_law [OF assms a, of u] push_console_char_law [OF assms _ a] e assms
    by (auto simp: handle_console_input_def edit_input_def Let_def a room echo_backspace_eq uart_putch_eq putch_def rubout_def)
qed

text \<open>
  A reader gets at most one line, with its end; an end-of-file mark ends the bytes before it, or is taken alone
  and answered as end of file.
\<close>

definition edit_take :: "bool \<Rightarrow> nat \<Rightarrow> u8 list \<Rightarrow> u8 list \<times> bool \<times> u8 list" where
  "edit_take some n published =
     (let m = length (takeWhile (\<lambda>b. b \<noteq> LF \<and> b \<noteq> CTRL_D) published) in
      if n \<le> m then (take n published, False, drop n published)
      else if m = length published then (published, False, [])
      else if published ! m = LF then (take (Suc m) published, False, drop (Suc m) published)
      else if m = 0 \<and> \<not> some then ([], True, drop 1 published)
      else (take m published, False, drop m published))"

lemma edit_take_0 [simp]: "edit_take some 0 published = ([], False, published)"
  by (simp add: edit_take_def)

lemma edit_take_Nil [simp]: "edit_take some n [] = ([], False, [])"
  by (simp add: edit_take_def)

lemma edit_take_Suc:
  "edit_take some (Suc n) (ch # rest) =
     (if ch = CTRL_D then (if some then ([], False, ch # rest) else ([], True, rest))
      else if ch = LF then ([ch], False, rest)
      else case edit_take True n rest of (bs, eof, rest') \<Rightarrow> (ch # bs, eof, rest'))"
  by (auto simp: edit_take_def Let_def LF_def CTRL_D_def)

lemma console_pop_law:
  assumes "console_ok c" "console_abs c = (published, line)"
  shows "co_r c = co_w c \<longleftrightarrow> published = []"
    "published = b # rest \<Longrightarrow> co_buf c (unat (co_r c) mod CONSOLE_BUF_SIZE) = b \<and> console_ok (c\<lparr> co_r := co_r c + 1 \<rparr>) \<and>
       console_abs (c\<lparr> co_r := co_r c + 1 \<rparr>) = (rest, line)"
proof -
  obtain n k where s: "co_e c = co_r c + of_nat n" "co_w c = co_r c + of_nat k" "k \<le> n" "n \<le> CONSOLE_BUF_SIZE"
    "console_abs c = (ring_text (co_buf c) (co_r c) k, drop k (ring_text (co_buf c) (co_r c) n))"
    using console_okE [OF assms(1)] by blast
  have p: "published = ring_text (co_buf c) (co_r c) k" "line = drop k (ring_text (co_buf c) (co_r c) n)"
    using assms(2) s(5) by simp_all
  show "co_r c = co_w c \<longleftrightarrow> published = []"
    using s(3,4) small_eq [of 0 k "co_r c"] p(1) by (cases k) (auto simp: s(2))
  assume "published = b # rest"
  then obtain k' where k': "k = Suc k'" using p(1) by (cases k) auto
  then obtain n' where n': "n = Suc n'" using s(3) by (cases n) auto
  have "b # rest = co_buf c (unat (co_r c) mod CONSOLE_BUF_SIZE) # ring_text (co_buf c) (co_r c + 1) k'"
    using p(1) \<open>published = b # rest\<close> unfolding k' ring_text_pop by simp
  moreover have "line = drop k' (ring_text (co_buf c) (co_r c + 1) n')" using p(2) unfolding k' n' ring_text_pop by simp
  moreover note console_absI [of "c\<lparr> co_r := co_r c + 1 \<rparr>" n' k']
  ultimately show "co_buf c (unat (co_r c) mod CONSOLE_BUF_SIZE) = b \<and> console_ok (c\<lparr> co_r := co_r c + 1 \<rparr>) \<and>
      console_abs (c\<lparr> co_r := co_r c + 1 \<rparr>) = (rest, line)"
    using s k' n' by (simp add: algebra_simps)
qed

lemma copy_console_loop_law:
  assumes "console_ok c" "console_abs c = (published, line)"
  shows "\<exists>c'. copy_console_loop n some c = (fst (edit_take some n published), fst (snd (edit_take some n published)), c') \<and>
    console_ok c' \<and> console_abs c' = (snd (snd (edit_take some n published)), line)"
  using assms
proof (induction n arbitrary: some c published)
  case (Suc n)
  show ?case
  proof (cases published)
    case Nil
    then show ?thesis using Suc.prems console_pop_law(1) [OF Suc.prems] by simp
  next
    case (Cons b rest)
    note pop = console_pop_law(1) [OF Suc.prems] console_pop_law(2) [OF Suc.prems Cons]
    have IH: "\<exists>c'. copy_console_loop n True (c\<lparr> co_r := co_r c + 1 \<rparr>) =
        (fst (edit_take True n rest), fst (snd (edit_take True n rest)), c') \<and>
        console_ok c' \<and> console_abs c' = (snd (snd (edit_take True n rest)), line)"
      using Suc.IH pop(2) by blast
    show ?thesis using IH pop Suc.prems
      by (auto simp: Cons edit_take_Suc Let_def split: prod.splits)
  qed
qed simp

lemma edit_take_length: "edit_take some n published = (bs, eof, rest) \<Longrightarrow> length bs \<le> n"
  by (auto simp: edit_take_def Let_def split: if_splits)

text \<open>Typed bytes are taken until a line is there, or until a poll finds nothing.\<close>

primrec edit_drain :: "u8 option list \<Rightarrow> u8 list \<times> u8 list \<Rightarrow> u8 option list \<times> (u8 list \<times> u8 list) \<times> u8 list" where
  "edit_drain [] st = ([], st, [])"
| "edit_drain (x # xs) st =
     (if fst st \<noteq> [] then (x # xs, st, [])
      else case x of
        None \<Rightarrow> (xs, st, [])
      | Some ch \<Rightarrow> (case edit_input ch st of (st1, echo) \<Rightarrow>
          (case edit_drain xs st1 of (rx, st2, echo') \<Rightarrow> (rx, st2, echo @ echo'))))"

lemma ucast_getch [simp]: "(ucast (ucast (b :: u8) :: u64) :: u8) = b"
  by (rule bit_word_eqI) (auto simp: bit_simps dest: bit_imp_le_length)

lemma drain_uart_input_law:
  assumes "console_ok c" "edit_drain (ua_rx u) (console_abs c) = (rx, st, echo)"
  shows "\<exists>c'. drain_uart_input c u = Some (Inr (), c', u\<lparr> ua_rx := rx, ua_tx := ua_tx u @ echo \<rparr>) \<and>
    console_ok c' \<and> console_abs c' = st"
  using assms
proof (induction "ua_rx u" arbitrary: c u echo)
  case Nil
  have "console_has_complete_line c \<longleftrightarrow> fst (console_abs c) \<noteq> []"
    using console_pop_law(1) [OF Nil.prems(1), of "fst (console_abs c)" "snd (console_abs c)"]
    by (simp add: console_has_complete_line_def)
  then show ?case using Nil
    by (subst drain_uart_input.simps) (auto simp: uart_getch_eq getch_def Nil.hyps [symmetric])
next
  case (Cons x xs)
  have line: "console_has_complete_line c \<longleftrightarrow> fst (console_abs c) \<noteq> []"
    using console_pop_law(1) [OF Cons.prems(1), of "fst (console_abs c)" "snd (console_abs c)"]
    by (simp add: console_has_complete_line_def)
  show ?case
  proof (cases "fst (console_abs c) \<noteq> []")
    case True
    then have "rx = ua_rx u" "st = console_abs c" "echo = []"
      using Cons.prems(2) unfolding Cons.hyps(2) [symmetric] by auto
    then show ?thesis using line True Cons.prems(1) by (subst drain_uart_input.simps) simp
  next
    case False
    show ?thesis
    proof (cases x)
      case None
      then show ?thesis using line False Cons.prems unfolding Cons.hyps(2) [symmetric]
        by (subst drain_uart_input.simps) (auto simp: uart_getch_eq getch_def Cons.hyps(2) [symmetric])
    next
      case (Some ch)
      define u1 where "u1 = u\<lparr> ua_rx := xs \<rparr>"
      obtain st1 echo1 where e1: "edit_input ch (console_abs c) = (st1, echo1)" by fastforce
      obtain c1 where h: "handle_console_input ch c u1 = Some (c1, u1\<lparr> ua_tx := ua_tx u1 @ echo1 \<rparr>)"
        "console_ok c1" "console_abs c1 = st1"
        using handle_console_input_law [OF Cons.prems(1), of ch u1] e1 by auto
      define u2 where "u2 = u1\<lparr> ua_tx := ua_tx u1 @ echo1 \<rparr>"
      obtain echo2 where e2: "edit_drain xs st1 = (rx, st, echo2)" "echo = echo1 @ echo2"
        using Cons.prems(2) False Some e1 unfolding Cons.hyps(2) [symmetric] by (auto split: prod.splits)
      have "drain_uart_input c u = drain_uart_input c1 u2" using line False h(1)
        by (subst drain_uart_input.simps)
          (auto simp: uart_getch_eq getch_def Cons.hyps(2) [symmetric] Some u1_def [symmetric] u2_def [symmetric])
      with Cons.hyps(1) [of u2 c1 echo2] h(2,3) e2 show ?thesis by (auto simp: u2_def u1_def)
    qed
  qed
qed

text \<open>
  C20: a read of the console from the serial line behaves as the line editor, whatever has been typed and wherever
  the free-running indices of the ring stand, also across their wrap-around: bytes that have arrived are edited into
  the line and echoed until a line is complete; then at most one line is delivered, no more than asked for. The
  answer is its length, the request waits if there is no line, and reports end of file at a lone mark.
\<close>
theorem console_read_refines_editor:
  assumes "console_ok c" "0 < max_len"
    and drain: "edit_drain (ua_rx u) (console_abs c) = (rx, (published, line), echo)"
    and take: "edit_take False max_len published = (bs, eof, rest)"
  shows "\<exists>c'. read_console [] max_len c u sh = Some (
      if bs \<noteq> [] \<or> eof then device_reply (length bs) else [ipc_status_raw StWouldBlock, 0, 0, 0], c',
      u\<lparr> ua_rx := rx, ua_tx := ua_tx u @ echo \<rparr>, put_shared bs sh) \<and> console_ok c' \<and> console_abs c' = (rest, line)"
proof -
  obtain c1 where d: "drain_uart_input c u = Some (Inr (), c1, u\<lparr> ua_rx := rx, ua_tx := ua_tx u @ echo \<rparr>)" "console_ok c1"
    "console_abs c1 = (published, line)" using drain_uart_input_law [OF assms(1) drain] by blast
  obtain c2 where "copy_console_loop max_len False c1 = (bs, eof, c2)" "console_ok c2" "console_abs c2 = (rest, line)"
    using copy_console_loop_law [OF d(2,3), of max_len False] take by auto
  with d(1) assms(2) show ?thesis
    by (auto simp: read_console_def finish_read_console_def copy_console_output_def)
qed

lemma console_read_refines_editor_witness:
  "\<exists>c' u'. read_console [] 100 (console_new\<lparr> co_r := - 1, co_w := - 1, co_e := - 1 \<rparr>)
      \<lparr> ua_rx = [Some 97, Some 98, Some CTRL_H, Some CR, Some 99], ua_tx = [], ua_regs = \<lambda>_. 0, ua_sent = [] \<rparr> (\<lambda>_. 0) =
    Some ([0, 2, 3, 0], c', u', put_shared [97, LF] (\<lambda>_. 0)) \<and> ua_tx u' = [97, 98, CTRL_H, SPACE, CTRL_H, LF]"
proof -
  let ?c = "console_new\<lparr> co_r := - 1, co_w := - 1, co_e := - 1 \<rparr>"
  have ok: "console_ok ?c" and abs: "console_abs ?c = ([], [])"
    by (simp_all add: console_ok_def console_abs_def console_new_def)
  let ?rx = "[Some 97, Some 98, Some CTRL_H, Some CR, Some 99]"
  let ?u = "\<lparr> ua_rx = ?rx, ua_tx = [], ua_regs = \<lambda>_. 0, ua_sent = [] \<rparr>"
  have "edit_drain ?rx ([], []) = ([Some 99], ([97, LF], []), [97, 98, CTRL_H, SPACE, CTRL_H, LF])" by code_simp
  then have d: "edit_drain (ua_rx ?u) (console_abs ?c) = ([Some 99], ([97, LF], []), [97, 98, CTRL_H, SPACE, CTRL_H, LF])"
    by (simp only: uart.simps abs)
  have t: "edit_take False 100 [97, LF] = ([97, LF], False, [])" by code_simp
  from console_read_refines_editor [OF ok _ d t, of "\<lambda>_. 0"] show ?thesis by (auto simp: device_reply_def)
qed

section \<open>Soundness of the console state\<close>

lemma console_ok_input_pos [simp]: "console_ok (c\<lparr> co_input_pos := n \<rparr>) = console_ok c"
  by (simp add: console_ok_def)

lemma console_ok_new [simp]: "console_ok console_new"
  by (simp add: console_ok_def console_new_def)

lemma drain_scripted_loop_ok:
  assumes "console_ok c"
  shows "\<exists>c' u'. drain_scripted_loop script c u = Some (c', u') \<and> console_ok c'"
  using assms
proof (induction script c u rule: drain_scripted_loop.induct)
  case (1 script c u)
  obtain c1 u1 where h: "handle_console_input (script ! co_input_pos c) (c\<lparr> co_input_pos := co_input_pos c + 1 \<rparr>) u = Some (c1, u1)"
    "console_ok c1"
    using handle_console_input_law [of "c\<lparr> co_input_pos := co_input_pos c + 1 \<rparr>" "script ! co_input_pos c" u] 1(2)
    by (auto simp del: Suc_eq_plus1 add_Suc_right)
  have "\<exists>c' u'. drain_scripted_loop script c1 u1 = Some (c', u') \<and> console_ok c'"
    if "\<not> console_has_complete_line c \<and> \<not> scripted_input_done script c" using 1(1) [OF that h(1) refl h(2)] .
  with h(1) 1(2) show ?case by (subst drain_scripted_loop.simps) simp
qed

lemma drain_scripted_input_ok:
  assumes "console_ok c"
  shows "\<exists>c' u'. drain_scripted_input script c u = Some (c', u') \<and> console_ok c'"
proof -
  have "console_ok (publish_partial_scripted_line c1)" if "console_ok c1" for c1
    using that by (auto simp: publish_partial_scripted_line_def console_ok_def)
  moreover obtain c1 u1 where "drain_scripted_loop script c u = Some (c1, u1)" "console_ok c1"
    using drain_scripted_loop_ok [OF assms] by blast
  ultimately show ?thesis by (simp add: drain_scripted_input_def)
qed

lemma copy_console_output_ok:
  assumes "console_ok c" "copy_console_output n c sh = (m, eof, c', sh')"
  shows "console_ok c'"
  using assms copy_console_loop_law [OF assms(1), of _ _ n False]
  by (cases "console_abs c") (auto simp: copy_console_output_def split: prod.splits)

lemma read_console_ok:
  assumes "console_ok c"
  shows "\<exists>reply c' u' sh'. read_console script n c u sh = Some (reply, c', u', sh') \<and> console_ok c' \<and> length reply = 4"
proof -
  obtain rx st echo where d: "edit_drain (ua_rx u) (console_abs c) = (rx, st, echo)" by (cases "edit_drain (ua_rx u) (console_abs c)")
  have fin: "console_ok c2 \<Longrightarrow> \<exists>reply c' u' sh'. finish_read_console script n c2 u2 sh = (reply, c', u', sh') \<and>
      console_ok c' \<and> length reply = 4"
    for c2 u2 by (cases "copy_console_output n c2 sh") (auto simp: finish_read_console_def device_reply_def dest: copy_console_output_ok)
  obtain c1 u1 where s: "drain_scripted_input script c u = Some (c1, u1)" "console_ok c1"
    using drain_scripted_input_ok [OF assms] by blast
  obtain c2 u2 where t: "drain_uart_input c u = Some (Inr (), c2, u2)" "console_ok c2"
    using drain_uart_input_law [OF assms d] by blast
  show ?thesis using fin [OF s(2), of u1] fin [OF t(2), of u2] assms by (cases "script = []") (auto simp: read_console_def device_reply_def s(1) t(1))
qed

lemma put_bytes_eq: "put_bytes n bs u = Some (Inr (), u\<lparr> ua_tx := ua_tx u @ bs \<rparr>)"
  by (induction bs arbitrary: n u) (simp_all add: uart_putch_eq putch_def)

lemma write_console_eq:
  "write_console n u sh = Some (device_reply (min n MAX_IO_BYTES), u\<lparr> ua_tx := ua_tx u @ get_shared (min n MAX_IO_BYTES) sh \<rparr>)"
  by (simp add: write_console_def Let_def put_bytes_eq)

end
