(* ===== verification/Vfs_Cpio.thy ===== *)
theory Vfs_Cpio
  imports Vfs_Ramfs
begin

text \<open>
  The archive with the initial files (\<^verbatim>\<open>userspace/vfs-server/src/cpio.rs\<close>): its records are parsed and their
  directories and files put into the file system, with the data left in the archive.

  The archive is shorter than \<open>2 ^ 64\<close> bytes, so that the offsets, at most \<open>2 ^ 33\<close> beyond its end, do not wrap.
\<close>

definition HEADER_LEN :: nat where "HEADER_LEN = 110"

definition hex_digit :: "u8 \<Rightarrow> u32 option" where
  "hex_digit b =
     (if 0x30 \<le> b \<and> b \<le> 0x39 then Some (ucast (b - 0x30))
      else if 0x61 \<le> b \<and> b \<le> 0x66 then Some (ucast (b - 0x61 + 10))
      else if 0x41 \<le> b \<and> b \<le> 0x46 then Some (ucast (b - 0x41 + 10))
      else None)"

primrec parse_hex_from :: "u32 \<Rightarrow> u8 list \<Rightarrow> u32 option" where
  "parse_hex_from v [] = Some v"
| "parse_hex_from v (b # bs) = (case hex_digit b of None \<Rightarrow> None | Some d \<Rightarrow> parse_hex_from (push_bit 4 v OR d) bs)"

definition parse_hex :: "u8 list \<Rightarrow> u32 option" where
  "parse_hex bytes = (if length bytes \<noteq> 8 then None else parse_hex_from 0 bytes)"

definition align4 :: "nat \<Rightarrow> nat" where
  "align4 n = (n + 3) div 4 * 4"

definition slice :: "nat \<Rightarrow> nat \<Rightarrow> 'a list \<Rightarrow> 'a list" where
  "slice a b xs = take (b - a) (drop a xs)"

text \<open>The directories above a path are made as far as possible; errors are ignored.\<close>

primrec ensure_parents_at :: "u8 list \<Rightarrow> nat list \<Rightarrow> ramfs \<Rightarrow> ramfs option" where
  "ensure_parents_at path [] fs = Some fs"
| "ensure_parents_at path (i # is) fs =
     (if path ! i = slash \<and> 1 < i then
        (case embed_dir (take i path) fs of None \<Rightarrow> None | Some (_, fs1) \<Rightarrow> ensure_parents_at path is fs1)
      else ensure_parents_at path is fs)"

definition ensure_parents :: "u8 list \<Rightarrow> ramfs \<Rightarrow> ramfs option" where
  "ensure_parents path fs = ensure_parents_at path [1..<length path] fs"

text \<open>One record of the archive: its mode, its name, and where its data is.\<close>

record cpio_entry =
  ce_mode :: u32
  ce_name :: "u8 list"
  ce_data :: nat
  ce_size :: nat

definition parse_entry :: "u8 list \<Rightarrow> nat \<Rightarrow> cpio_entry option" where
  "parse_entry blob off =
     (if slice off (off + 6) blob \<noteq> ascii ''070701'' then None
      else case parse_hex (slice (off + 14) (off + 22) blob) of None \<Rightarrow> None | Some mode \<Rightarrow>
      (case parse_hex (slice (off + 54) (off + 62) blob) of None \<Rightarrow> None | Some filesize \<Rightarrow>
      (case parse_hex (slice (off + 94) (off + 102) blob) of None \<Rightarrow> None | Some namesize \<Rightarrow>
       let name_off = off + HEADER_LEN; name_end = name_off + unat namesize; data_off = align4 name_end in
       if length blob < name_end then None
       else if length blob < data_off + unat filesize then None
       else Some \<lparr> ce_mode = mode, ce_name = takeWhile (\<lambda>b. b \<noteq> 0) (slice name_off name_end blob),
                   ce_data = data_off, ce_size = unat filesize \<rparr>)))"

definition unpack_entry :: "cpio_entry \<Rightarrow> ramfs \<Rightarrow> (bool \<times> ramfs) option" where
  "unpack_entry e fs =
     (if ce_name e = [dot] \<or> ce_name e = [] then Some (True, fs)
      else
        let path = slash # take (MAX_PATH_BYTES - 1) (ce_name e) in
        case ensure_parents path fs of
          None \<Rightarrow> None
        | Some fs \<Rightarrow>
            let kind = ce_mode e AND S_IFMT in
            if kind = S_IFDIR \<or> last (ce_name e) = slash then
              map_option (map_prod (\<lambda>r. \<not> isl r) id) (embed_dir path fs)
            else if kind = 0 \<or> kind = S_IFREG then
              map_option (map_prod (\<lambda>r. \<not> isl r) id) (embed_file path (ce_data e) (ce_size e) (ce_mode e) fs)
            else Some (True, fs))"

lemma align4_ge: "n \<le> align4 n"
  unfolding align4_def by presburger

lemma parse_entry_data: "parse_entry blob off = Some e \<Longrightarrow> off + HEADER_LEN \<le> ce_data e \<and> ce_data e + ce_size e \<le> length blob"
  using align4_ge [of "off + HEADER_LEN + _"] unfolding parse_entry_def
  by (auto simp: Let_def split: if_splits option.splits intro: le_trans [OF le_add1 align4_ge])

function unpack_from :: "u8 list \<Rightarrow> nat \<Rightarrow> ramfs \<Rightarrow> (bool \<times> ramfs) option" where
  "unpack_from blob off fs =
     (if length blob < off + HEADER_LEN then Some (True, fs)
      else case parse_entry blob off of
        None \<Rightarrow> Some (False, fs)
      | Some e \<Rightarrow>
          if ce_name e = ascii ''TRAILER!!!'' then Some (True, fs)
          else case unpack_entry e fs of
            None \<Rightarrow> None
          | Some (ok, fs) \<Rightarrow> if ok then unpack_from blob (align4 (ce_data e + ce_size e)) fs else Some (False, fs))"
  by pat_completeness auto
termination
proof (relation "measure (\<lambda>(blob, off, _). length blob + 4 - off)", goal_cases)
  case (2 blob off fs e x ok fs1)
  have "off + 110 \<le> ce_data e" "ce_data e \<le> align4 (ce_data e + ce_size e)"
    using parse_entry_data [OF 2(2)] align4_ge [of "ce_data e + ce_size e"] by (auto simp: HEADER_LEN_def)
  then show ?case using 2(1) by (auto simp: HEADER_LEN_def)
qed simp

declare unpack_from.simps [simp del]

definition unpack :: "u8 list \<Rightarrow> ramfs \<Rightarrow> (bool \<times> ramfs) option" where
  "unpack blob fs = unpack_from blob 0 fs"

end
