(* ===== verification/Vfs_Ops.thy ===== *)
theory Vfs_Ops
  imports Vfs_Console Vfs_Cpio
begin

text \<open>
  The requests of the file server (\<^verbatim>\<open>userspace/vfs-server/src/ops.rs\<close> and the loop of \<^verbatim>\<open>main.rs\<close>): one handler per
  operation, their dispatch, and the two ways of answering.

  The parameters are the archive with the initial files (\<open>rootfs\<close>) and the console input that may be compiled in
  (\<open>script\<close>), both made by the build. \<open>None\<close> is a panic, or a call that is never answered.
\<close>

section \<open>State\<close>

record server =
  sv_rt :: runtime
  sv_fs :: ramfs
  sv_shared :: shared
  sv_uart :: uart
  sv_sent :: "(u64 \<times> u64 list) list"

text \<open>The server as it starts.\<close>

definition server_new :: server where
  "server_new = \<lparr> sv_rt = runtime_new, sv_fs = ramfs_new, sv_shared = (\<lambda>_. 0),
     sv_uart = \<lparr> ua_rx = [], ua_tx = [], ua_regs = (\<lambda>_. 0), ua_sent = [] \<rparr>, sv_sent = [] \<rparr>"

type_synonym handler = "ipc_message \<Rightarrow> server \<Rightarrow> (reply4 \<times> server) option"

definition fs_step :: "(ramfs \<Rightarrow> bool \<times> ramfs) \<Rightarrow> server \<Rightarrow> bool \<times> server" where
  "fs_step f s = (case f (sv_fs s) of (b, fs) \<Rightarrow> (b, s\<lparr> sv_fs := fs \<rparr>))"

definition fs_try :: "(ramfs \<Rightarrow> (ramfs, 'a) fallible) \<Rightarrow> server \<Rightarrow> (server, 'a) fallible" where
  "fs_try f s = map_option (\<lambda>(r, fs). (r, s\<lparr> sv_fs := fs \<rparr>)) (f (sv_fs s))"

definition rt_step :: "(runtime \<Rightarrow> 'a \<times> runtime) \<Rightarrow> server \<Rightarrow> 'a \<times> server" where
  "rt_step f s = (case f (sv_rt s) of (a, rt) \<Rightarrow> (a, s\<lparr> sv_rt := rt \<rparr>))"

definition mr32 :: "ipc_message \<Rightarrow> nat \<Rightarrow> nat" where
  "mr32 msg i = unat (ucast (im_mrs msg ! i) :: u32)"

section \<open>Initialisation and processes\<close>

definition handle_init :: "u8 list \<Rightarrow> handler" where
  "handle_init rootfs msg s =
     (if \<not> valid_host msg then Some (reply_err, s)
      else
        let s = s\<lparr> sv_rt := reset_all (sv_rt s), sv_fs := fs_reset (sv_fs s) \<rparr> in
        case fs_step init_root s of
          (False, s) \<Rightarrow> Some (reply_err, s)
        | (True, s) \<Rightarrow>
            (case unpack rootfs (sv_fs s) of
               None \<Rightarrow> None
             | Some (False, fs) \<Rightarrow> Some (reply_err, s\<lparr> sv_fs := fs \<rparr>)
             | Some (True, fs) \<Rightarrow>
                 (case fs_try (ensure_dir (ascii ''/tmp'')) (s\<lparr> sv_fs := fs \<rparr>) of
                    None \<Rightarrow> None
                  | Some (Inl _, s) \<Rightarrow> Some (reply_err, s)
                  | Some (Inr _, s) \<Rightarrow>
                      (case fs_try install_console s of
                         None \<Rightarrow> None
                       | Some (Inl _, s) \<Rightarrow> Some (reply_err, s)
                       | Some (Inr _, s) \<Rightarrow>
                           (case init_console (sv_uart s) of
                              None \<Rightarrow> None
                            | Some (ok, u) \<Rightarrow> Some (if ok then reply_ok else reply_err, s\<lparr> sv_uart := u \<rparr>))))))"

definition alloc_console_file :: "server \<Rightarrow> nat option \<times> server" where
  "alloc_console_file = rt_step (alloc_file FILE_CONSOLE CONSOLE_INO 0 True True)"

definition drop_files :: "nat list \<Rightarrow> server \<Rightarrow> server" where
  "drop_files fds s = fold (\<lambda>f s. snd (rt_step (release_file f) s)) fds s"

definition handle_proc_init :: handler where
  "handle_proc_init msg s =
     (if \<not> valid_host msg then Some (reply_err, s)
      else case fs_step (retain ROOT_INO) s of
        (False, s) \<Rightarrow> Some (reply_err, s)
      | (True, s) \<Rightarrow>
          (case alloc_console_file s of
             (None, s) \<Rightarrow> Some (reply_err, snd (fs_step (release ROOT_INO) s))
           | (Some stdin_file, s) \<Rightarrow>
               (case alloc_console_file s of
                  (None, s) \<Rightarrow> Some (reply_err, snd (fs_step (release ROOT_INO) (drop_files [stdin_file] s)))
                | (Some stdout_file, s) \<Rightarrow>
                    (case alloc_console_file s of
                       (None, s) \<Rightarrow> Some (reply_err, snd (fs_step (release ROOT_INO) (drop_files [stdin_file, stdout_file] s)))
                     | (Some stderr_file, s) \<Rightarrow>
                         Some ([ipc_status_raw StOk, of_nat stdin_file, of_nat stdout_file, of_nat stderr_file], s)))))"

definition handle_proc_fork :: handler where
  "handle_proc_fork msg s =
     (if \<not> valid_host msg then Some (reply_err, s)
      else if mr32 msg 2 = 0 then Some (reply_ok, s)
      else case fs_step (retain (mr32 msg 2)) s of (ok, s) \<Rightarrow> Some (if ok then reply_ok else reply_err, s))"

definition handle_proc_exit :: handler where
  "handle_proc_exit msg s =
     (if \<not> valid_host msg then Some (reply_err, s)
      else if mr32 msg 2 = 0 then Some (reply_ok, s)
      else case fs_step (release (mr32 msg 2)) s of (ok, s) \<Rightarrow> Some (if ok then reply_ok else reply_err, s))"

section \<open>Paths\<close>

text \<open>The common start of the handlers that take a path: it is checked and assembled from the words.\<close>

definition with_path :: "nat \<Rightarrow> nat \<Rightarrow> (u8 list \<Rightarrow> server \<Rightarrow> (reply4 \<times> server) option) \<Rightarrow> handler" where
  "with_path len_mr start k msg s =
     (if \<not> valid_host msg then Some (reply_err, s)
      else
        let path_len = unat (im_mrs msg ! len_mr) in
        if \<not> path_mrs_valid msg start path_len then Some (reply_err, s)
        else case path_from_words (im_mrs msg) start path_len of
          None \<Rightarrow> None
        | Some None \<Rightarrow> Some (reply_err, s)
        | Some (Some path) \<Rightarrow> k path s)"

definition finish_open :: "u32 \<Rightarrow> nat \<times> file_kind \<times> nat \<Rightarrow> server \<Rightarrow> reply4 \<times> server" where
  "finish_open flags r s = (case r of (inum, kind, sz) \<Rightarrow>
     let (file_kind, node, s) = (case kind of
           RegularFile \<Rightarrow> (FILE_RAM_FILE, inum, s)
         | Directory \<Rightarrow> (FILE_RAM_DIR, inum, s)
         | Device \<Rightarrow> (FILE_CONSOLE, CONSOLE_INO, snd (fs_step (release inum) s)))
     in case rt_step (alloc_file file_kind node 0 (open_readable flags) (open_writable flags)) s of
          (None, s) \<Rightarrow> (reply_err, if file_kind \<noteq> FILE_CONSOLE then snd (fs_step (release inum) s) else s)
        | (Some file, s) \<Rightarrow> ([ipc_status_raw StOk, of_nat file, ucast (file_kind_raw kind), of_nat sz], s))"

definition handle_open_async :: handler where
  "handle_open_async msg = with_path 3 4 (\<lambda>path s.
     let flags = (ucast (im_mrs msg ! 2) :: u32) in
     case fs_try (open_path path flags) s of
       None \<Rightarrow> None
     | Some (Inl e, s) \<Rightarrow> Some (err_code e, s)
     | Some (Inr r, s) \<Rightarrow> Some (finish_open flags r s)) msg"

definition handle_chdir_async :: handler where
  "handle_chdir_async msg = with_path 3 4 (\<lambda>path s.
     case walk (sv_fs s) path of
       Inl e \<Rightarrow> Some (err_code e, s)
     | Inr inum \<Rightarrow>
         (case inode_of (sv_fs s) inum of
            None \<Rightarrow> Some (reply_err, s)
          | Some node \<Rightarrow>
              if in_kind node \<noteq> Directory then Some (err_code ENOTDIR, s)
              else case fs_step (retain inum) s of
                (False, s) \<Rightarrow> Some (reply_err, s)
              | (True, s) \<Rightarrow>
                  Some ([ipc_status_raw StOk, of_nat inum, 0, 0],
                    if mr32 msg 2 \<noteq> 0 then snd (fs_step (release (mr32 msg 2)) s) else s))) msg"

definition handle_unlink_async :: handler where
  "handle_unlink_async msg = with_path 2 4 (\<lambda>path s.
     case fs_try (unlink path (ucast (im_mrs msg ! 3))) s of
       None \<Rightarrow> None
     | Some (Inl e, s) \<Rightarrow> Some (err_code e, s)
     | Some (Inr _, s) \<Rightarrow> Some (reply_ok, s)) msg"

definition handle_mkdir_async :: handler where
  "handle_mkdir_async msg = with_path 2 3 (\<lambda>path s.
     case fs_try (mkdir path) s of
       None \<Rightarrow> None
     | Some (Inl e, s) \<Rightarrow> Some (err_code e, s)
     | Some (Inr _, s) \<Rightarrow> Some (reply_ok, s)) msg"

definition handle_exec_open_async :: handler where
  "handle_exec_open_async msg = with_path 2 3 (\<lambda>path s.
     case fs_try (open_path path 0) s of
       None \<Rightarrow> None
     | Some (Inl e, s) \<Rightarrow> Some (err_code e, s)
     | Some (Inr (inum, kind, sz), s) \<Rightarrow>
         Some (if kind = RegularFile then ([ipc_status_raw StOk, of_nat inum, of_nat sz, 0], s)
               else (reply_err, snd (fs_step (release inum) s)))) msg"

section \<open>Open files\<close>

definition handle_close_async :: handler where
  "handle_close_async msg s =
     (if \<not> valid_host msg then Some (reply_err, s)
      else case rt_step (detach_file (unat (im_mrs msg ! 2))) s of
        (RelInvalid, s) \<Rightarrow> Some (err_code EBADF, s)
      | (RelDone, s) \<Rightarrow> Some (reply_ok, s)
      | (RelInode inum, s) \<Rightarrow>
          (case fs_step (release inum) s of (ok, s) \<Rightarrow> Some (if ok then reply_ok else reply_err, s)))"

definition handle_dup_async :: handler where
  "handle_dup_async msg s =
     (if \<not> valid_host msg then Some (err_code EBADF, s)
      else case rt_step (retain_file (unat (im_mrs msg ! 2))) s of
        (False, s) \<Rightarrow> Some (err_code EBADF, s)
      | (True, s) \<Rightarrow> Some ([ipc_status_raw StOk, im_mrs msg ! 2, 0, 0], s))"

definition handle_pipe_async :: handler where
  "handle_pipe_async msg s = (case rt_step (handle_pipe msg) s of (reply, s) \<Rightarrow> Some (reply, s))"

definition read_ram_file :: "u8 list \<Rightarrow> nat \<Rightarrow> nat \<Rightarrow> server \<Rightarrow> (reply4 \<times> server) option" where
  "read_ram_file rootfs file_idx max_len s = (case rt_step (acquire_file_io file_idx) s of
     (False, s) \<Rightarrow> Some (reply_err, s)
   | (True, s) \<Rightarrow>
       (case file_snapshot file_idx (sv_rt s) of
          None \<Rightarrow> Some (reply_err, s\<lparr> sv_rt := release_file_io file_idx (sv_rt s) \<rparr>)
        | Some file \<Rightarrow>
            (case read_inode rootfs (of_node file) (of_offset file) max_len (sv_fs s) of
               None \<Rightarrow> None
             | Some (Inl e) \<Rightarrow> Some (err_code e, s\<lparr> sv_rt := release_file_io file_idx (sv_rt s) \<rparr>)
             | Some (Inr bs) \<Rightarrow> Some ([ipc_status_raw StOk, of_nat (length bs), ucast (of_kind file), 0],
                 s\<lparr> sv_rt := release_file_io file_idx (add_file_offset file_idx (length bs) (sv_rt s)),
                    sv_shared := put_shared bs (sv_shared s) \<rparr>))))"

definition write_ram_file :: "u8 list \<Rightarrow> nat \<Rightarrow> nat \<Rightarrow> server \<Rightarrow> (reply4 \<times> server) option" where
  "write_ram_file rootfs file_idx max_len s = (case rt_step (acquire_file_io file_idx) s of
     (False, s) \<Rightarrow> Some (reply_err, s)
   | (True, s) \<Rightarrow>
       (case file_snapshot file_idx (sv_rt s) of
          None \<Rightarrow> Some (reply_err, s\<lparr> sv_rt := release_file_io file_idx (sv_rt s) \<rparr>)
        | Some file \<Rightarrow>
            (case fs_try (write_inode rootfs (of_node file) (of_offset file) (get_shared max_len (sv_shared s))) s of
               None \<Rightarrow> None
             | Some (Inl e, s) \<Rightarrow> Some (err_code e, s\<lparr> sv_rt := release_file_io file_idx (sv_rt s) \<rparr>)
             | Some (Inr n, s) \<Rightarrow> Some ([ipc_status_raw StOk, of_nat n, ucast (file_kind_raw RegularFile), 0],
                 s\<lparr> sv_rt := release_file_io file_idx (add_file_offset file_idx n (sv_rt s)) \<rparr>))))"

definition handle_read_async :: "u8 list \<Rightarrow> u8 list \<Rightarrow> handler" where
  "handle_read_async rootfs script msg s =
     (if \<not> valid_host msg then Some (reply_err, s)
      else case valid_file (unat (im_mrs msg ! 2)) (sv_rt s) of
        None \<Rightarrow> Some (err_code EBADF, s)
      | Some file_idx \<Rightarrow>
          let max_len = min (unat (im_mrs msg ! 3)) MAX_IO_BYTES in
          case file_snapshot file_idx (sv_rt s) of
            None \<Rightarrow> Some (err_code EBADF, s)
          | Some file \<Rightarrow>
              if \<not> of_readable file then Some (err_code EBADF, s)
              else if of_kind file = FILE_RAM_FILE \<or> of_kind file = FILE_RAM_DIR then read_ram_file rootfs file_idx max_len s
              else if of_kind file = FILE_PIPE_READ then
                map_option (\<lambda>(reply, rt, sh). (reply, s\<lparr> sv_rt := rt, sv_shared := sh \<rparr>))
                  (read_pipe (of_aux file) max_len (sv_rt s) (sv_shared s))
              else if of_kind file = FILE_CONSOLE then
                map_option (\<lambda>(reply, c, u, sh). (reply, s\<lparr> sv_rt := (sv_rt s)\<lparr> console := c \<rparr>, sv_uart := u, sv_shared := sh \<rparr>))
                  (read_console script max_len (console (sv_rt s)) (sv_uart s) (sv_shared s))
              else Some (reply_err, s))"

definition handle_write_async :: "u8 list \<Rightarrow> handler" where
  "handle_write_async rootfs msg s =
     (if \<not> valid_host msg then Some (reply_err, s)
      else case valid_file (unat (im_mrs msg ! 2)) (sv_rt s) of
        None \<Rightarrow> Some (err_code EBADF, s)
      | Some file_idx \<Rightarrow>
          let max_len = min (unat (im_mrs msg ! 3)) MAX_IO_BYTES in
          case file_snapshot file_idx (sv_rt s) of
            None \<Rightarrow> Some (err_code EBADF, s)
          | Some file \<Rightarrow>
              if \<not> of_writable file then Some (err_code EBADF, s)
              else if of_kind file = FILE_RAM_FILE then write_ram_file rootfs file_idx max_len s
              else if of_kind file = FILE_PIPE_WRITE then
                (case write_pipe (of_aux file) max_len (sv_rt s) (sv_shared s) of (reply, rt) \<Rightarrow> Some (reply, s\<lparr> sv_rt := rt \<rparr>))
              else if of_kind file = FILE_CONSOLE then
                map_option (\<lambda>(reply, u). (reply, s\<lparr> sv_uart := u \<rparr>)) (write_console max_len (sv_uart s) (sv_shared s))
              else Some (reply_err, s))"

definition handle_fstat_async :: handler where
  "handle_fstat_async msg s = Some
     (if \<not> valid_host msg then reply_err
      else case valid_file (unat (im_mrs msg ! 2)) (sv_rt s) of
        None \<Rightarrow> err_code EBADF
      | Some file_idx \<Rightarrow>
          (case file_snapshot file_idx (sv_rt s) of
             None \<Rightarrow> err_code EBADF
           | Some file \<Rightarrow>
               if of_kind file = FILE_RAM_FILE \<or> of_kind file = FILE_RAM_DIR then
                 (case inode_of (sv_fs s) (of_node file) of
                    None \<Rightarrow> reply_err
                  | Some node \<Rightarrow> [ipc_status_raw StOk, pack_stat_kind_nlink (file_kind_raw (in_kind node)) (of_nat (in_nlink node)),
                      of_nat (of_node file), of_nat (in_size node)])
               else if of_kind file = FILE_PIPE_READ \<or> of_kind file = FILE_PIPE_WRITE then
                 [ipc_status_raw StOk, pack_stat_kind_nlink (file_kind_raw RegularFile) 1, 4 + of_nat (of_aux file), 1]
               else if of_kind file = FILE_CONSOLE then
                 [ipc_status_raw StOk, pack_stat_kind_nlink (file_kind_raw Device) 1, of_nat CONSOLE_INO, 1]
               else reply_err), s)"

definition handle_lseek_async :: handler where
  "handle_lseek_async msg s = Some
     (if \<not> valid_host msg then (reply_err, s)
      else case valid_file (unat (im_mrs msg ! 2)) (sv_rt s) of
        None \<Rightarrow> (err_code EBADF, s)
      | Some file_idx \<Rightarrow>
          (case file_snapshot file_idx (sv_rt s) of
             None \<Rightarrow> (err_code EBADF, s)
           | Some file \<Rightarrow>
               if of_kind file \<noteq> FILE_RAM_FILE \<and> of_kind file \<noteq> FILE_RAM_DIR then (err_code EINVAL, s)
               else case seek (of_node file) (of_offset file) (sint (im_mrs msg ! 3)) (im_mrs msg ! 4) (sv_fs s) of
                 Inr nxt \<Rightarrow> ([ipc_status_raw StOk, of_nat nxt, 0, 0], s\<lparr> sv_rt := set_file_offset file_idx nxt (sv_rt s) \<rparr>)
               | Inl e \<Rightarrow> (err_code e, s)))"

definition handle_exec_read_async :: "u8 list \<Rightarrow> handler" where
  "handle_exec_read_async rootfs msg s =
     (if \<not> valid_host msg then Some (reply_err, s)
      else case read_inode rootfs (mr32 msg 2) (unat (im_mrs msg ! 3)) (min (unat (im_mrs msg ! 5)) MAX_IO_BYTES) (sv_fs s) of
        None \<Rightarrow> None
      | Some (Inl e) \<Rightarrow> Some (err_code e, s)
      | Some (Inr bs) \<Rightarrow> Some ([ipc_status_raw StOk, of_nat (length bs), 0, 0], s\<lparr> sv_shared := put_shared bs (sv_shared s) \<rparr>))"

definition handle_exec_close_async :: handler where
  "handle_exec_close_async msg s =
     (if \<not> valid_host msg then Some (reply_err, s)
      else case fs_step (release (mr32 msg 2)) s of (ok, s) \<Rightarrow> Some (if ok then reply_ok else reply_err, s))"

section \<open>Dispatch\<close>

datatype request_result = Reply reply4 | Deferred

definition handle_host_request :: "ipc_message \<Rightarrow> handler \<Rightarrow> server \<Rightarrow> (request_result \<times> server) option" where
  "handle_host_request msg handler s = (case host_request_of msg of
     None \<Rightarrow> Some (Reply reply_err, s)
   | Some request \<Rightarrow>
       (case handler msg s of
          None \<Rightarrow> None
        | Some (reply, s) \<Rightarrow>
            Some (if hr_async_request request
              then (Deferred, s\<lparr> sv_sent := sv_sent s @ [async_reply HostToVfsAsync (hr_request_id request) reply] \<rparr>)
              else (Reply reply, s))))"

definition reply_now :: "(reply4 \<times> server) option \<Rightarrow> (request_result \<times> server) option" where
  "reply_now = map_option (map_prod Reply id)"

definition handle_request :: "u8 list \<Rightarrow> u8 list \<Rightarrow> ipc_message \<Rightarrow> server \<Rightarrow> (request_result \<times> server) option" where
  "handle_request rootfs script msg s = (case vfs_op_from_raw (user_msg_label (im_info msg)) of
     Some VfsInit \<Rightarrow> reply_now (handle_init rootfs msg s)
   | Some VfsProcInit \<Rightarrow> reply_now (handle_proc_init msg s)
   | Some VfsProcFork \<Rightarrow> reply_now (handle_proc_fork msg s)
   | Some VfsProcExit \<Rightarrow> reply_now (handle_proc_exit msg s)
   | Some VfsOpen \<Rightarrow> handle_host_request msg handle_open_async s
   | Some VfsClose \<Rightarrow> handle_host_request msg handle_close_async s
   | Some VfsDup \<Rightarrow> handle_host_request msg handle_dup_async s
   | Some VfsRead \<Rightarrow> handle_host_request msg (handle_read_async rootfs script) s
   | Some VfsWrite \<Rightarrow> handle_host_request msg (handle_write_async rootfs) s
   | Some VfsFstat \<Rightarrow> handle_host_request msg handle_fstat_async s
   | Some VfsChdir \<Rightarrow> handle_host_request msg handle_chdir_async s
   | Some VfsPipe \<Rightarrow> handle_host_request msg handle_pipe_async s
   | Some VfsUnlink \<Rightarrow> handle_host_request msg handle_unlink_async s
   | Some VfsMkdir \<Rightarrow> handle_host_request msg handle_mkdir_async s
   | Some VfsExecOpen \<Rightarrow> handle_host_request msg handle_exec_open_async s
   | Some VfsExecRead \<Rightarrow> handle_host_request msg (handle_exec_read_async rootfs) s
   | Some VfsExecClose \<Rightarrow> handle_host_request msg handle_exec_close_async s
   | Some VfsGetcwd \<Rightarrow> Some (Reply reply_ok, s)
   | Some VfsLseek \<Rightarrow> handle_host_request msg handle_lseek_async s
   | None \<Rightarrow> Some (Reply (err_code ENOSYS), s))"

text \<open>The server's loop on a sequence of requests: the answers in order, \<open>None\<close> once the server has stopped.\<close>

primrec server_loop :: "u8 list \<Rightarrow> u8 list \<Rightarrow> ipc_message list \<Rightarrow> server \<Rightarrow> (reply4 option list \<times> server) option" where
  "server_loop rootfs script [] s = Some ([], s)"
| "server_loop rootfs script (msg # msgs) s = (case handle_request rootfs script msg s of
     None \<Rightarrow> None
   | Some (r, s) \<Rightarrow>
       map_option (map_prod (Cons (case r of Reply mrs \<Rightarrow> Some mrs | Deferred \<Rightarrow> None)) id) (server_loop rootfs script msgs s))"

end
