(* ===== verification/Vfs_Invariant.thy ===== *)
theory Vfs_Invariant
  imports Vfs_Data Vfs_Paths Vfs_Ops
begin

text \<open>
  The invariant of the file server: sound names and sound data in the file system, sound pipes and a sound console. Every
  handler keeps it, and none panics; so no sequence of requests can stop the server.
\<close>

section \<open>Data under the operations on names\<close>

lemma data_ok_replace:
  assumes "data_ok L fs" "i < MAX_INODES" "\<And>j. j \<noteq> i \<Longrightarrow> inodes fs' j = inodes fs j"
    "pages fs' = pages fs" "page_used fs' = page_used fs" "owned fs' i = []"
    "in_used (inodes fs' i) \<Longrightarrow> (case in_src (inodes fs' i) of
        Embedded off len \<Rightarrow> off + len \<le> L \<and> in_size (inodes fs' i) = len \<and> in_kind (inodes fs' i) = RegularFile
      | NoData \<Rightarrow> in_size (inodes fs' i) = 0
      | Pages _ \<Rightarrow> True)"
  shows "data_ok L fs'"
proof -
  have own: "owned fs' j = (if j = i then [] else owned fs j)" for j
  proof (cases "j = i")
    case False
    then show ?thesis using assms(3) by (simp add: owned_def)
  qed (simp add: assms(6))
  have fb: "file_byte fs' = file_byte fs" by (simp add: file_byte_def assms(4) fun_eq_iff)
  have "file_ok L fs' j" if "j < MAX_INODES" for j
  proof (cases "j = i")
    case True
    have "file_ok L fs' i" using assms(7) unfolding file_ok_def own by (auto split: inode_data.splits)
    then show ?thesis using True by simp
  next
    case False
    then show ?thesis using data_ok_file [OF assms(1) that] unfolding file_ok_def own fb assms(5) assms(3) [OF False] by simp
  qed
  then show ?thesis using assms(1) unfolding data_ok_def by (simp add: own)
qed

definition same_data :: "ramfs \<Rightarrow> ramfs \<Rightarrow> bool" where
  "same_data fs fs' \<longleftrightarrow> pages fs' = pages fs \<and> page_used fs' = page_used fs \<and> (\<forall>i. in_used (inodes fs' i) = in_used (inodes fs i) \<and>
     in_kind (inodes fs' i) = in_kind (inodes fs i) \<and> in_src (inodes fs' i) = in_src (inodes fs i) \<and>
     in_size (inodes fs' i) = in_size (inodes fs i))"

lemma same_data_ok: "same_data fs fs' \<Longrightarrow> data_ok L fs' = data_ok L fs"
proof -
  assume s: "same_data fs fs'"
  then have i: "in_used (inodes fs' i) = in_used (inodes fs i)" "in_kind (inodes fs' i) = in_kind (inodes fs i)"
    "in_src (inodes fs' i) = in_src (inodes fs i)" "in_size (inodes fs' i) = in_size (inodes fs i)"
    and p: "pages fs' = pages fs" "page_used fs' = page_used fs" for i by (simp_all add: same_data_def)
  have own: "owned fs' = owned fs" by (intro ext) (simp add: owned_def i)
  have fb: "file_byte fs' = file_byte fs" by (intro ext) (simp add: file_byte_def p)
  have "file_ok L fs' = file_ok L fs" unfolding file_ok_def own i p fb ..
  then show ?thesis by (simp add: data_ok_def own)
qed

lemma same_data_steps [simp]:
  "same_data fs (snd (retain i fs))" "same_data fs (snd (release i fs))" "same_data fs (fs\<lparr> dirents := e \<rparr>)"
  "same_data fs (upd_inode i (\<lambda>x. x\<lparr> in_nlink := g x \<rparr>) fs)"
  "same_data fs (upd_inode i (\<lambda>x. if p x then x\<lparr> in_nlink := g x \<rparr> else x) fs)"
  by (auto simp: same_data_def retain_def release_def upd_inode_def)

lemmas data_steps = same_data_ok [OF same_data_steps(1)] same_data_ok [OF same_data_steps(2)] same_data_ok [OF same_data_steps(3)]
  same_data_ok [OF same_data_steps(4)] same_data_ok [OF same_data_steps(5)]

lemma data_fresh_inode:
  assumes "data_ok L fs" "i < MAX_INODES" "in_src x = NoData" "in_size x = 0"
  shows "data_ok L (upd_inode i (\<lambda>_. x) fs)"
  by (rule data_ok_replace [OF assms(1,2)]) (use assms(3,4) in \<open>simp_all add: upd_inode_def owned_def\<close>)

lemma data_add_dirent: "data_ok L fs \<Longrightarrow> add_dirent p c n fs = Some (r, fs') \<Longrightarrow> data_ok L fs'"
  by (cases rule: add_dirent_cases [of fs p c n]) (auto simp: ok_with_def err_with_def data_steps)

lemma data_create_file:
  assumes "data_ok L fs" "create_file parent name kind mode fs = Some (r, fs')"
  shows "data_ok L fs'"
proof (cases rule: alloc_inode_cases [of fs kind mode parent])
  case (1 i)
  let ?x = "\<lparr> in_used = True, in_kind = kind, in_nlink = (if kind = Directory then 2 else 1), in_refs = 0, in_mode = mode,
    in_size = 0, in_parent = parent, in_src = NoData \<rparr>"
  have d: "data_ok L (upd_inode i (\<lambda>_. ?x) fs)" by (rule data_fresh_inode [OF assms(1) 1(2)]) simp_all
  show ?thesis using assms data_add_dirent [OF d] unfolding create_file_def 1(4)
    by (auto simp: err_with_def ok_with_def and_then_Some data_steps split: if_splits option.splits)
next
  case 2
  then show ?thesis using assms by (auto simp: create_file_def err_with_def split: if_splits option.splits)
qed

lemma data_truncate:
  assumes "data_ok L fs" "inode_of fs i = Some node"
  shows "data_ok L (truncate_inode i fs)"
proof -
  have i: "i < MAX_INODES" "in_used (inodes fs i)" using assms(2) by (auto simp: inode_of_def split: if_splits)
  note f = free_data_law [OF assms(1) i]
  show ?thesis unfolding truncate_inode_def
    by (rule data_ok_replace [OF f(1) i(1)]) (simp_all add: upd_inode_def owned_def)
qed

lemma data_open_path:
  assumes "data_ok L fs" "open_path path flags fs = Some (r, fs')"
  shows "data_ok L fs'"
  using assms data_truncate [OF assms(1)] data_create_file [OF assms(1)]
  by (auto simp: open_path_def open_existing_def Let_def err_with_def ok_with_def and_then_Some data_steps
      split: sum.splits option.splits if_splits)

lemma data_mkdir: "data_ok L fs \<Longrightarrow> mkdir path fs = Some (r, fs') \<Longrightarrow> data_ok L fs'"
  by (auto simp: mkdir_def err_with_def dest: data_create_file split: sum.splits option.splits if_splits)

lemma data_ensure_dir: "data_ok L fs \<Longrightarrow> ensure_dir path fs = Some (r, fs') \<Longrightarrow> data_ok L fs'"
  by (auto simp: ensure_dir_def err_with_def ok_with_def dest: data_mkdir split: sum.splits option.splits if_splits)

lemma data_drop_link:
  assumes "data_ok L fs" "i < MAX_INODES" "in_used (inodes fs i)"
  shows "data_ok L (drop_link i fs)"
proof -
  define fs1 where "fs1 = upd_inode i (\<lambda>x. if 0 < in_nlink x then x\<lparr> in_nlink := in_nlink x - 1 \<rparr> else x) fs"
  have d1: "data_ok L fs1" unfolding fs1_def data_steps by (rule assms(1))
  have u1: "in_used (inodes fs1 i)" using assms(3) by (simp add: fs1_def upd_inode_def)
  have "data_ok L (upd_inode i (\<lambda>_. inode_empty) (free_inode_data i fs1))"
    by (rule data_fresh_inode [OF free_data_law(1) [OF d1 assms(2) u1] assms(2)]) (simp_all add: inode_empty_def)
  then show ?thesis using d1 by (simp add: drop_link_def fs1_def [symmetric] Let_def)
qed

lemma data_unlink:
  assumes "data_ok L fs" "unlink path flags fs = Some (r, fs')"
  shows "data_ok L fs'"
proof (cases rule: unlink_cases [of path flags fs])
  case (2 inum parent name d node)
  then have i: "inum < MAX_INODES" "in_used (inodes fs inum)" by (auto simp: inode_of_def split: if_splits)
  have "data_ok L (fs\<lparr> dirents := (dirents fs)(d := dirent_empty) \<rparr>)" unfolding data_steps by (rule assms(1))
  from data_drop_link [OF this i(1)] show ?thesis using 2(8) assms(2) i(2) by simp
qed (use assms in simp)

lemma create_file_result:
  assumes "create_file parent name kind mode fs = Some (Inr i, fs')"
  shows "i < MAX_INODES \<and> in_kind (inodes fs' i) = kind"
proof (cases rule: alloc_inode_cases [of fs kind mode parent])
  case (1 j)
  have *: "inodes fs2 = inodes fs1" if "add_dirent p c n fs1 = Some (r, fs2)" for p c n fs1 r fs2
    by (cases rule: add_dirent_cases [of fs1 p c n]) (use that in \<open>auto simp: ok_with_def err_with_def\<close>)
  show ?thesis using assms 1(2) unfolding create_file_def 1(4)
    by (auto simp: err_with_def ok_with_def and_then_Some upd_inode_def dest!: * split: if_splits option.splits)
next
  case 2
  then show ?thesis using assms by (auto simp: create_file_def err_with_def split: if_splits option.splits)
qed

lemma data_embed_file:
  assumes "data_ok L fs" "off + len \<le> L" "embed_file path off len mode fs = Some (r, fs')"
  shows "data_ok L fs'"
proof -
  have emb: "data_ok L (upd_inode i (\<lambda>x. x\<lparr> in_size := len, in_src := Embedded off len \<rparr>) fs1)"
    if c: "create_file parent name RegularFile (mode OR S_IFREG) fs = Some (Inr i, fs1)" for parent name i fs1
    by (rule data_ok_replace [where i = i, OF data_create_file [OF assms(1) c]])
      (use create_file_result [OF c] assms(2) in \<open>simp_all add: upd_inode_def owned_def\<close>)
  show ?thesis using assms(1,3) emb data_create_file [OF assms(1)]
    by (auto simp: embed_file_def err_with_def ok_with_def and_then_Some split: sum.splits option.splits if_splits)
qed

lemma data_install_console:
  assumes "data_ok L fs" "install_console fs = Some (r, fs')"
  shows "data_ok L fs'"
  using assms data_ensure_dir [OF assms(1)]
  by (auto simp: install_console_def Let_def err_with_def ok_with_def and_then_Some data_fresh_inode
      dest!: data_add_dirent [rotated] dest: data_create_file [rotated] split: sum.splits if_splits)

section \<open>The file system as a whole\<close>

definition fs_ok :: "nat \<Rightarrow> ramfs \<Rightarrow> bool" where
  "fs_ok L fs \<longleftrightarrow> names_ok fs \<and> data_ok L fs"

lemma same_both_ok: "same_names fs fs' \<Longrightarrow> same_data fs fs' \<Longrightarrow> fs_ok L fs' = fs_ok L fs"
  by (simp add: fs_ok_def same_names_simps same_data_ok)

lemma fs_ok_refs [simp]: "fs_ok L (snd (retain i fs)) = fs_ok L fs" "fs_ok L (snd (release i fs)) = fs_ok L fs"
  by (rule same_both_ok; simp)+

text \<open>Every operation of the server on the file system comes back, and with a sound file system.\<close>

definition safe_op :: "nat \<Rightarrow> (ramfs \<Rightarrow> (ramfs, 'a) fallible) \<Rightarrow> bool" where
  "safe_op L f \<longleftrightarrow> (\<forall>fs. fs_ok L fs \<longrightarrow> (\<exists>r fs'. f fs = Some (r, fs') \<and> fs_ok L fs'))"

lemma safe_opD: "safe_op L f \<Longrightarrow> fs_ok L fs \<Longrightarrow> \<exists>r fs'. f fs = Some (r, fs') \<and> fs_ok L fs'"
  by (simp add: safe_op_def)

lemma safe_open_path: "safe_op L (open_path path flags)"
  unfolding safe_op_def fs_ok_def using open_path_law data_open_path by blast

lemma safe_mkdir: "safe_op L (mkdir path)"
  unfolding safe_op_def fs_ok_def using mkdir_law data_mkdir by blast

lemma safe_ensure_dir: "safe_op L (ensure_dir path)"
  unfolding safe_op_def fs_ok_def using ensure_dir_law data_ensure_dir by blast

lemma safe_install_console: "safe_op L install_console"
  unfolding safe_op_def fs_ok_def using install_console_law data_install_console by blast

lemma safe_embed_file: "off + len \<le> L \<Longrightarrow> safe_op L (embed_file path off len mode)"
  unfolding safe_op_def fs_ok_def using embed_file_law data_embed_file by blast

lemma safe_unlink: "safe_op L (unlink path flags)"
  unfolding safe_op_def fs_ok_def
proof (intro allI impI)
  fix fs assume ok: "names_ok fs \<and> data_ok L fs"
  show "\<exists>r fs'. unlink path flags fs = Some (r, fs') \<and> names_ok fs' \<and> data_ok L fs'"
  proof (cases rule: unlink_cases [of path flags fs])
    case (2 inum parent name d node)
    note u = unlink_step(1) [OF conjunct1 [OF ok] 2(1,3-6) refl]
    show ?thesis using 2(8) u data_unlink [OF conjunct2 [OF ok] 2(8)] by blast
  qed (use ok in simp)
qed

lemma touches_same_names: "touches i fs fs' \<Longrightarrow> same_names fs fs'"
  unfolding touches_def same_names_def
proof (elim conjE exE, intro conjI allI)
  fix src n j
  assume a: "\<forall>j. j \<noteq> i \<longrightarrow> inodes fs' j = inodes fs j" "inodes fs' i = (inodes fs i)\<lparr> in_src := src, in_size := n \<rparr>"
  show "in_used (inodes fs' j) = in_used (inodes fs j)" "in_kind (inodes fs' j) = in_kind (inodes fs j)"
    "in_parent (inodes fs' j) = in_parent (inodes fs j)" using a by (cases "j = i"; simp)+
qed

lemma safe_write_inode:
  assumes "length rootfs < 2 ^ 63" "length src < 2 ^ 63"
  shows "safe_op (length rootfs) (write_inode rootfs i off src)"
  unfolding safe_op_def
proof (intro allI impI)
  fix fs assume ok: "fs_ok (length rootfs) fs"
  show "\<exists>r fs'. write_inode rootfs i off src fs = Some (r, fs') \<and> fs_ok (length rootfs) fs'"
  proof (cases "inode_of fs i")
    case None
    then show ?thesis using ok by (simp add: write_inode_def write_inode_by_def make_writable_def make_writable_by_def err_with_def)
  next
    case (Some node)
    obtain r fs' ps where "write_inode rootfs i off src fs = Some (r, fs')" "resident (length rootfs) i ps fs'" "touches i fs fs'"
      using write_inode_cases [OF _ Some assms, of off] ok by (auto simp: fs_ok_def)
    then show ?thesis using ok same_names_simps(5) [OF touches_same_names] by (auto simp: fs_ok_def resident_def)
  qed
qed

lemma safe_read_inode:
  assumes "fs_ok (length rootfs) fs"
  shows "\<exists>r. read_inode rootfs i off n fs = Some r"
proof (cases "inode_of fs i")
  case None
  then show ?thesis by (simp add: read_inode_def)
next
  case (Some node)
  then show ?thesis using read_inode_eq [OF _ Some] assms by (auto simp: fs_ok_def)
qed

lemma safe_ensure_parents: "fs_ok L fs \<Longrightarrow> \<exists>fs'. ensure_parents_at path is fs = Some fs' \<and> fs_ok L fs'"
proof (induction "is" arbitrary: fs)
  case (Cons i js)
  obtain r fs1 where "embed_dir (take i path) fs = Some (r, fs1)" "fs_ok L fs1"
    using safe_opD [OF safe_ensure_dir Cons.prems] unfolding embed_dir_def by blast
  then show ?case using Cons.IH Cons.prems by simp
qed simp

lemma safe_unpack_entry:
  assumes "fs_ok L fs" "ce_data e + ce_size e \<le> L"
  shows "\<exists>ok fs'. unpack_entry e fs = Some (ok, fs') \<and> fs_ok L fs'"
proof -
  define path where "path = slash # take (MAX_PATH_BYTES - 1) (ce_name e)"
  obtain fs1 where p: "ensure_parents path fs = Some fs1" "fs_ok L fs1"
    using safe_ensure_parents [OF assms(1)] unfolding ensure_parents_def by blast
  obtain r2 fs2 where d: "embed_dir path fs1 = Some (r2, fs2)" "fs_ok L fs2"
    using safe_opD [OF safe_ensure_dir p(2)] unfolding embed_dir_def by blast
  obtain r3 fs3 where f: "embed_file path (ce_data e) (ce_size e) (ce_mode e) fs1 = Some (r3, fs3)" "fs_ok L fs3"
    using safe_opD [OF safe_embed_file [OF assms(2)] p(2)] by blast
  show ?thesis unfolding unpack_entry_def Let_def path_def [symmetric] using assms(1) p d f by auto
qed

lemma safe_unpack: "fs_ok (length blob) fs \<Longrightarrow> \<exists>ok fs'. unpack_from blob off fs = Some (ok, fs') \<and> fs_ok (length blob) fs'"
proof (induction blob off fs rule: unpack_from.induct)
  case (1 blob off fs)
  show ?case
  proof (cases "length blob < off + HEADER_LEN")
    case True
    then show ?thesis using 1(2) by (subst unpack_from.simps) auto
  next
    case False
    show ?thesis
    proof (cases "parse_entry blob off")
      case None
      then show ?thesis using 1(2) False by (subst unpack_from.simps) auto
    next
      case (Some e)
      obtain ok fs1 where u: "unpack_entry e fs = Some (ok, fs1)" "fs_ok (length blob) fs1"
        using safe_unpack_entry [OF 1(2)] parse_entry_data [OF Some] by blast
      show ?thesis
      proof (cases "ce_name e = ascii ''TRAILER!!!''")
        case True
        then show ?thesis using 1(2) False Some by (subst unpack_from.simps) auto
      next
        case n: False
        have "ok \<Longrightarrow> \<exists>ok' fs'. unpack_from blob (align4 (ce_data e + ce_size e)) fs1 = Some (ok', fs') \<and> fs_ok (length blob) fs'"
          using 1(1) [OF False Some n u(1) refl _ u(2)] .
        then show ?thesis using u n False Some by (subst unpack_from.simps) (cases ok; auto)
      qed
    qed
  qed
qed

section \<open>The server\<close>

definition rt_ok :: "runtime \<Rightarrow> bool" where
  "rt_ok rt \<longleftrightarrow> pipes_ok rt \<and> console_ok (console rt)"

definition server_ok :: "u8 list \<Rightarrow> server \<Rightarrow> bool" where
  "server_ok rootfs s \<longleftrightarrow> fs_ok (length rootfs) (sv_fs s) \<and> rt_ok (sv_rt s)"

lemma rt_ok_upd_file [simp]: "rt_ok (upd_file i f rt) = rt_ok rt"
  by (simp add: rt_ok_def pipes_ok_def upd_file_def)

lemma rt_ok_upd_pipe: "rt_ok rt \<Longrightarrow> pipe_ok (f (pipes rt i)) \<Longrightarrow> rt_ok (upd_pipe i f rt)"
  by (simp add: rt_ok_def pipes_ok_def) (simp add: upd_pipe_def)

lemma rt_ok_pipe: "rt_ok rt \<Longrightarrow> i < MAX_PIPES \<Longrightarrow> pipe_ok (pipes rt i)"
  by (simp add: rt_ok_def pipes_ok_def)

lemma rt_ok_files [simp]:
  "rt_ok (snd (alloc_file k n a r w rt)) = rt_ok rt" "rt_ok (snd (retain_file i rt)) = rt_ok rt"
  "rt_ok (set_file_offset i n rt) = rt_ok rt" "rt_ok (add_file_offset i n rt) = rt_ok rt"
  "rt_ok (snd (acquire_file_io i rt)) = rt_ok rt" "rt_ok (release_file_io i rt) = rt_ok rt"
  by (simp_all add: alloc_file_def retain_file_def set_file_offset_def add_file_offset_def acquire_file_io_def release_file_io_def
      split: option.splits)

lemma pipe_ok_counts [simp]: "pipe_ok (p\<lparr> pi_readers := a \<rparr>) = pipe_ok p" "pipe_ok (p\<lparr> pi_writers := a \<rparr>) = pipe_ok p"
  by (simp_all add: pipe_ok_def)

lemma rt_ok_detach [simp]: "rt_ok rt \<Longrightarrow> rt_ok (snd (detach_file i rt))" "rt_ok rt \<Longrightarrow> rt_ok (snd (release_file i rt))"
proof -
  assume "rt_ok rt"
  then show "rt_ok (snd (detach_file i rt))"
    by (auto simp: detach_file_def Let_def rt_ok_pipe intro!: rt_ok_upd_pipe)
  then show "rt_ok (snd (release_file i rt))" by (cases "detach_file i rt") (simp add: release_file_def)
qed

lemma rt_ok_pipes [simp]:
  "rt_ok rt \<Longrightarrow> rt_ok (snd (alloc_pipe rt))" "rt_ok rt \<Longrightarrow> rt_ok (clear_pipe i rt)" "rt_ok rt \<Longrightarrow> rt_ok (snd (open_pipe i rt))"
  by (auto simp: alloc_pipe_def clear_pipe_def open_pipe_def rt_ok_pipe not_le intro!: rt_ok_upd_pipe split: option.splits)

lemma rt_ok_reset [simp]: "rt_ok (reset_all rt)"
  by (simp add: rt_ok_def pipes_ok_def reset_all_def)

lemma reply_lengths [simp]: "length reply_err = 4" "length reply_ok = 4" "length (err_code e) = 4" "length (device_reply n) = 4"
  by (simp_all add: reply_err_def reply_ok_def err_code_def device_reply_def)

lemma rt_ok_results:
  "alloc_file k n a rd wr rt = (x, rt') \<Longrightarrow> rt_ok rt' = rt_ok rt" "alloc_pipe rt = (y, rt') \<Longrightarrow> rt_ok rt \<Longrightarrow> rt_ok rt'"
  "open_pipe i rt = (b, rt') \<Longrightarrow> rt_ok rt \<Longrightarrow> rt_ok rt'"
  by (metis rt_ok_files(1) snd_conv, metis rt_ok_pipes(1) snd_conv, metis rt_ok_pipes(3) snd_conv)

lemma rt_ok_handle_pipe:
  assumes "rt_ok rt" "handle_pipe msg rt = (reply, rt')"
  shows "rt_ok rt' \<and> length reply = 4"
  using assms by (auto simp: handle_pipe_def rt_ok_results(1) split: prod.splits option.splits bool.splits if_splits
      dest!: rt_ok_results(2,3))

definition keeps :: "u8 list \<Rightarrow> (reply4 \<times> server) option \<Rightarrow> bool" where
  "keeps rootfs r \<longleftrightarrow> (\<exists>reply s. r = Some (reply, s) \<and> server_ok rootfs s \<and> length reply = 4)"

lemma keeps_Some [simp]: "keeps rootfs (Some (reply, s)) \<longleftrightarrow> server_ok rootfs s \<and> length reply = 4"
  by (simp add: keeps_def)

lemma server_ok_parts [simp]:
  "server_ok rootfs (s\<lparr> sv_shared := a \<rparr>) = server_ok rootfs s" "server_ok rootfs (s\<lparr> sv_uart := b \<rparr>) = server_ok rootfs s"
  "server_ok rootfs (s\<lparr> sv_sent := c \<rparr>) = server_ok rootfs s"
  by (simp_all add: server_ok_def)

lemma server_ok_upd:
  "server_ok rootfs s \<Longrightarrow> rt_ok rt \<Longrightarrow> server_ok rootfs (s\<lparr> sv_rt := rt \<rparr>)"
  "server_ok rootfs s \<Longrightarrow> fs_ok (length rootfs) fs \<Longrightarrow> server_ok rootfs (s\<lparr> sv_fs := fs \<rparr>)"
  by (simp_all add: server_ok_def)

lemma server_ok_rt: "server_ok rootfs s \<Longrightarrow> rt_ok (sv_rt s)" and server_ok_fs: "server_ok rootfs s \<Longrightarrow> fs_ok (length rootfs) (sv_fs s)"
  by (simp_all add: server_ok_def)

lemma fs_step_ok:
  assumes "server_ok rootfs s" "fs_step f s = (b, s')" "f = retain i \<or> f = release i"
  shows "server_ok rootfs s'"
proof -
  have "fs_ok (length rootfs) (snd (f (sv_fs s)))" using assms(1,3) by (auto simp: server_ok_def)
  then show ?thesis using assms(1,2) by (auto simp: fs_step_def split: prod.splits intro: server_ok_upd)
qed

lemma fs_refs_ok [simp]:
  "server_ok rootfs s \<Longrightarrow> server_ok rootfs (snd (fs_step (retain i) s))" "server_ok rootfs s \<Longrightarrow> server_ok rootfs (snd (fs_step (release i) s))"
  using fs_step_ok by (metis prod.collapse)+

lemma rt_step_ok:
  assumes "server_ok rootfs s" "rt_step f s = (a, s')" "rt_ok (snd (f (sv_rt s)))"
  shows "server_ok rootfs s'"
  using assms by (auto simp: rt_step_def split: prod.splits intro: server_ok_upd)

lemma fs_try_ok:
  assumes "server_ok rootfs s" "safe_op (length rootfs) f"
  obtains r s' where "fs_try f s = Some (r, s')" "server_ok rootfs s'"
proof -
  obtain r fs' where "f (sv_fs s) = Some (r, fs')" "fs_ok (length rootfs) fs'"
    using safe_opD [OF assms(2) server_ok_fs [OF assms(1)]] by blast
  then show thesis using that assms(1) by (simp add: fs_try_def server_ok_upd)
qed

lemma alloc_console_ok: "server_ok rootfs s \<Longrightarrow> alloc_console_file s = (x, s') \<Longrightarrow> server_ok rootfs s'"
  unfolding alloc_console_file_def by (rule rt_step_ok) (auto simp: server_ok_rt)

lemma drop_files_ok: "server_ok rootfs s \<Longrightarrow> server_ok rootfs (drop_files fds s)"
proof (induction fds arbitrary: s)
  case (Cons f fds)
  have "server_ok rootfs (snd (rt_step (release_file f) s))"
    using rt_step_ok [OF Cons.prems, of "release_file f"] server_ok_rt [OF Cons.prems] by (metis prod.collapse rt_ok_detach(2))
  from Cons.IH [OF this] show ?case by (simp add: drop_files_def)
qed (simp add: drop_files_def)

lemma fs_ok_reset: "fs_ok L (snd (init_root (fs_reset fs)))"
proof -
  let ?fs = "snd (init_root (fs_reset fs))"
  have ino: "i < MAX_INODES \<Longrightarrow> inodes ?fs i = (if i = ROOT_INO then \<lparr> in_used = True, in_kind = Directory, in_nlink = 2, in_refs = 1,
      in_mode = S_IFDIR OR 0x1ED, in_size = 0, in_parent = ROOT_INO, in_src = NoData \<rparr> else inode_empty)" for i
    using ROOT_INO_bound by (auto simp: init_root_def fs_reset_def upd_inode_def)
  have "\<not> used_entry ?fs d" for d by (auto simp: used_entry_def init_root_def fs_reset_def upd_inode_def dirent_empty_def)
  moreover have "dir_ok ?fs ROOT_INO" by (simp add: dir_ok_def ino)
  ultimately have "names_ok ?fs" by (auto simp: names_ok_def ino inode_empty_def)
  moreover have own: "i < MAX_INODES \<Longrightarrow> owned ?fs i = []" for i by (simp add: owned_def ino inode_empty_def)
  then have "file_ok L ?fs i" if "i < MAX_INODES" for i using that by (auto simp: file_ok_def) (auto simp: ino inode_empty_def)
  then have "data_ok L ?fs" using own by (simp add: data_ok_def)
  ultimately show ?thesis by (simp add: fs_ok_def)
qed

lemma keeps_init:
  assumes "server_ok rootfs s"
  shows "keeps rootfs (handle_init rootfs msg s)"
proof (cases "valid_host msg")
  case True
  define s1 where "s1 = s\<lparr> sv_rt := reset_all (sv_rt s), sv_fs := snd (init_root (fs_reset (sv_fs s))) \<rparr>"
  have root: "fst (init_root fs)" for fs using ROOT_INO_bound by (simp add: init_root_def not_le)
  have ok1: "server_ok rootfs s1" by (simp add: s1_def server_ok_def fs_ok_reset)
  obtain ok fs2 where u: "unpack rootfs (sv_fs s1) = Some (ok, fs2)" "fs_ok (length rootfs) fs2"
    using safe_unpack [OF server_ok_fs [OF ok1]] unfolding unpack_def by blast
  have ok2: "server_ok rootfs (s1\<lparr> sv_fs := fs2 \<rparr>)" using server_ok_upd(2) [OF ok1 u(2)] .
  obtain r3 s3 where e: "fs_try (ensure_dir (ascii ''/tmp'')) (s1\<lparr> sv_fs := fs2 \<rparr>) = Some (r3, s3)" "server_ok rootfs s3"
    using fs_try_ok [OF ok2 safe_ensure_dir] by blast
  obtain r4 s4 where c: "fs_try install_console s3 = Some (r4, s4)" "server_ok rootfs s4"
    using fs_try_ok [OF e(2) safe_install_console] by blast
  have st: "fs_step init_root (s\<lparr> sv_rt := reset_all (sv_rt s), sv_fs := fs_reset (sv_fs s) \<rparr>) = (True, s1)"
    using root [of "fs_reset (sv_fs s)"] by (cases "init_root (fs_reset (sv_fs s))") (simp add: fs_step_def s1_def)
  show ?thesis using True u(1) ok2 e c unfolding handle_init_def Let_def st
    by (cases ok; cases r3; cases r4) (simp_all add: init_console_def uart_init_eq)
qed (use assms in \<open>simp add: handle_init_def\<close>)

lemma keeps_processes:
  assumes "server_ok rootfs s"
  shows "keeps rootfs (handle_proc_init msg s)" "keeps rootfs (handle_proc_fork msg s)" "keeps rootfs (handle_proc_exit msg s)"
    "keeps rootfs (handle_exec_close_async msg s)"
proof -
  note f = fs_step_ok [OF assms]
  show "keeps rootfs (handle_proc_fork msg s)" "keeps rootfs (handle_proc_exit msg s)" "keeps rootfs (handle_exec_close_async msg s)"
    using assms f by (auto simp: handle_proc_fork_def handle_proc_exit_def handle_exec_close_async_def split: prod.splits)
  show "keeps rootfs (handle_proc_init msg s)"
    using assms f by (auto simp: handle_proc_init_def drop_files_ok split: prod.splits bool.splits option.splits
        dest!: alloc_console_ok [rotated])
qed

lemma safe_path_words:
  assumes "length words = 64" "start \<le> 4" "0 < len" "len \<le> MAX_PATH_BYTES"
  shows "\<exists>path. path_from_words words start len = Some (Some path)"
proof -
  have "(len - 1) div 8 \<le> 47" using assms(4) by (simp add: MAX_PATH_BYTES_def)
  then show ?thesis using assms by (simp add: path_from_words_def)
qed

lemma keeps_with_path:
  assumes "server_ok rootfs s" "length (im_mrs msg) = 64" "start \<le> 4" "\<And>path. keeps rootfs (k path s)"
  shows "keeps rootfs (with_path len_mr start k msg s)"
proof -
  have "\<exists>path. path_from_words (im_mrs msg) start n = Some (Some path)" if "path_mrs_valid msg start n" for n
    using safe_path_words [OF assms(2,3)] that by (simp add: path_mrs_valid_def)
  then show ?thesis using assms(1,4) by (fastforce simp: with_path_def Let_def split: option.splits)
qed

lemma finish_open_ok:
  assumes "server_ok rootfs s"
  shows "keeps rootfs (Some (finish_open flags r s))"
proof -
  obtain inum kind sz where r: "r = (inum, kind, sz)" by (cases r)
  have a: "server_ok rootfs s2" if "server_ok rootfs s1" "rt_step (alloc_file k n 0 x y) s1 = (z, s2)" for k n x y z s1 s2
    by (rule rt_step_ok [OF that]) (simp add: server_ok_rt [OF that(1)])
  have d: "server_ok rootfs (snd (fs_step (release inum) s))" using assms by simp
  show ?thesis using assms a [OF assms] a [OF d]
    by (cases kind) (auto simp: r finish_open_def Let_def split: prod.splits option.splits)
qed

lemma keeps_paths:
  assumes "server_ok rootfs s" "length (im_mrs msg) = 64"
  shows "keeps rootfs (handle_open_async msg s)" "keeps rootfs (handle_chdir_async msg s)" "keeps rootfs (handle_unlink_async msg s)"
    "keeps rootfs (handle_mkdir_async msg s)" "keeps rootfs (handle_exec_open_async msg s)"
proof -
  note w = keeps_with_path [OF assms]
  show "keeps rootfs (handle_open_async msg s)" unfolding handle_open_async_def
  proof (rule w)
    fix path
    obtain r s1 where "fs_try (open_path path (ucast (im_mrs msg ! 2))) s = Some (r, s1)" "server_ok rootfs s1"
      using fs_try_ok [OF assms(1) safe_open_path] by blast
    then show "keeps rootfs (let flags = ucast (im_mrs msg ! 2) in case fs_try (open_path path flags) s of
        None \<Rightarrow> None | Some (Inl e, s) \<Rightarrow> Some (err_code e, s) | Some (Inr r, s) \<Rightarrow> Some (finish_open flags r s))"
      using finish_open_ok by (cases r) (simp_all add: Let_def)
  qed simp
  have ret: "server_ok rootfs s1" if "fs_step (retain i) s = (b, s1)" for b s1 i using fs_step_ok [OF assms(1) that] by blast
  show "keeps rootfs (handle_chdir_async msg s)" unfolding handle_chdir_async_def
    by (rule w) (use assms(1) ret in \<open>auto split: sum.splits option.splits prod.splits bool.splits\<close>)
  have u: "\<exists>r s1. fs_try (unlink path f) s = Some (r, s1) \<and> server_ok rootfs s1" for path f
    using fs_try_ok [OF assms(1) safe_unlink] by metis
  show "keeps rootfs (handle_unlink_async msg s)" unfolding handle_unlink_async_def
  proof (rule w)
    fix path
    show "keeps rootfs (case fs_try (unlink path (ucast (im_mrs msg ! 3))) s of
        None \<Rightarrow> None | Some (Inl e, s) \<Rightarrow> Some (err_code e, s) | Some (Inr _, s) \<Rightarrow> Some (reply_ok, s))"
      using u [of path "ucast (im_mrs msg ! 3)"] by (auto split: sum.splits)
  qed simp
  have m: "\<exists>r s1. fs_try (mkdir path) s = Some (r, s1) \<and> server_ok rootfs s1" for path
    using fs_try_ok [OF assms(1) safe_mkdir] by metis
  show "keeps rootfs (handle_mkdir_async msg s)" unfolding handle_mkdir_async_def
  proof (rule w)
    fix path
    show "keeps rootfs (case fs_try (mkdir path) s of
        None \<Rightarrow> None | Some (Inl e, s) \<Rightarrow> Some (err_code e, s) | Some (Inr _, s) \<Rightarrow> Some (reply_ok, s))"
      using m [of path] by (auto split: sum.splits)
  qed simp
  have o: "\<exists>r s1. fs_try (open_path path 0) s = Some (r, s1) \<and> server_ok rootfs s1" for path
    using fs_try_ok [OF assms(1) safe_open_path] by metis
  show "keeps rootfs (handle_exec_open_async msg s)" unfolding handle_exec_open_async_def
  proof (rule w)
    fix path
    show "keeps rootfs (case fs_try (open_path path 0) s of None \<Rightarrow> None | Some (Inl e, s) \<Rightarrow> Some (err_code e, s)
        | Some (Inr (inum, kind, sz), s) \<Rightarrow> Some (if kind = RegularFile then ([ipc_status_raw StOk, of_nat inum, of_nat sz, 0], s)
               else (reply_err, snd (fs_step (release inum) s))))"
      using o [of path] by (auto split: sum.splits)
  qed simp
qed

lemma acquire_ok: "server_ok rootfs s \<Longrightarrow> rt_step (acquire_file_io i) s = (b, s') \<Longrightarrow> server_ok rootfs s'"
  by (rule rt_step_ok) (auto simp: server_ok_rt)

lemma keeps_read_ram_file:
  assumes "server_ok rootfs s"
  shows "keeps rootfs (read_ram_file rootfs i n s)"
proof (cases "rt_step (acquire_file_io i) s")
  case (Pair b s1)
  have ok: "server_ok rootfs s1" using acquire_ok [OF assms Pair] .
  have r: "\<exists>x. read_inode rootfs a c n (sv_fs s1) = Some x" for a c using safe_read_inode [OF server_ok_fs [OF ok]] .
  have u: "server_ok rootfs (s1\<lparr> sv_rt := release_file_io i (sv_rt s1) \<rparr>)"
    "server_ok rootfs (s1\<lparr> sv_rt := release_file_io i (add_file_offset i m (sv_rt s1)), sv_shared := sh \<rparr>)" for m sh
    using ok by (simp_all add: server_ok_upd server_ok_rt)
  show ?thesis
  proof (cases "file_snapshot i (sv_rt s1)")
    case None
    then show ?thesis using ok u by (simp add: read_ram_file_def Pair split: bool.splits)
  next
    case (Some fl)
    then show ?thesis using ok u r [of "of_node fl" "of_offset fl"]
      by (auto simp: read_ram_file_def Pair split: bool.splits sum.splits)
  qed
qed

lemma keeps_write_ram_file:
  assumes "server_ok rootfs s" "length rootfs < 2 ^ 63" "n < 2 ^ 63"
  shows "keeps rootfs (write_ram_file rootfs i n s)"
proof (cases "rt_step (acquire_file_io i) s")
  case (Pair b s1)
  have ok: "server_ok rootfs s1" using acquire_ok [OF assms(1) Pair] .
  have u: "server_ok rootfs (g\<lparr> sv_rt := release_file_io i (sv_rt g) \<rparr>)"
    "server_ok rootfs (g\<lparr> sv_rt := release_file_io i (add_file_offset i m (sv_rt g)) \<rparr>)" if "server_ok rootfs g" for g m
    using that by (simp_all add: server_ok_upd server_ok_rt)
  show ?thesis
  proof (cases "file_snapshot i (sv_rt s1)")
    case None
    then show ?thesis using ok u by (simp add: write_ram_file_def Pair split: bool.splits)
  next
    case (Some fl)
    obtain r s2 where "fs_try (write_inode rootfs (of_node fl) (of_offset fl) (get_shared n (sv_shared s1))) s1 = Some (r, s2)"
      "server_ok rootfs s2" using fs_try_ok [OF ok safe_write_inode [OF assms(2)]] assms(3) by (metis get_shared_simps(1))
    then show ?thesis using ok u Some by (cases r) (auto simp: write_ram_file_def Pair split: bool.splits)
  qed
qed

lemma min_io: "min n MAX_IO_BYTES < 2 ^ 63"
  by (simp add: MAX_IO_BYTES_def min_def)

lemma keeps_read_pipe:
  assumes "server_ok rootfs s"
  shows "keeps rootfs (map_option (\<lambda>(reply, rt, sh). (reply, s\<lparr> sv_rt := rt, sv_shared := sh \<rparr>))
    (read_pipe a n (sv_rt s) (sv_shared s)))"
proof (cases "a < MAX_PIPES")
  case True
  have rt: "rt_ok (sv_rt s)" using server_ok_rt [OF assms] .
  obtain reply rt' sh' where p: "read_pipe a n (sv_rt s) (sv_shared s) = Some (reply, rt', sh')" "pipes_ok rt'"
    using read_pipe_law [OF _ True, of "sv_rt s" n "sv_shared s"] rt by (auto simp: rt_ok_def)
  have "console rt' = console (sv_rt s)" "length reply = 4" using p(1)
    by (auto simp: read_pipe_def Let_def upd_pipe_def split: if_splits option.splits)
  then show ?thesis using p rt assms by (simp add: rt_ok_def server_ok_def)
qed (use assms in \<open>simp add: read_pipe_def server_ok_def\<close>)

lemma keeps_read_console:
  assumes "server_ok rootfs s"
  shows "keeps rootfs (map_option (\<lambda>(reply, c, u, sh). (reply, s\<lparr> sv_rt := (sv_rt s)\<lparr> console := c \<rparr>, sv_uart := u, sv_shared := sh \<rparr>))
    (read_console script n (console (sv_rt s)) (sv_uart s) (sv_shared s)))"
proof -
  have rt: "rt_ok (sv_rt s)" using server_ok_rt [OF assms] .
  then obtain reply c u sh where c: "read_console script n (console (sv_rt s)) (sv_uart s) (sv_shared s) = Some (reply, c, u, sh)"
    "console_ok c" "length reply = 4" using read_console_ok unfolding rt_ok_def by blast
  then show ?thesis using c rt assms by (simp add: rt_ok_def server_ok_def pipes_ok_def)
qed

lemma keeps_read:
  assumes "server_ok rootfs s"
  shows "keeps rootfs (handle_read_async rootfs script msg s)"
  using assms keeps_read_ram_file [OF assms] keeps_read_pipe [OF assms] keeps_read_console [OF assms]
  unfolding handle_read_async_def Let_def by (simp split: option.splits)

lemma keeps_write_pipe:
  assumes "server_ok rootfs s" "write_pipe a n (sv_rt s) (sv_shared s) = (reply, rt)"
  shows "keeps rootfs (Some (reply, s\<lparr> sv_rt := rt \<rparr>))"
proof (cases "a < MAX_PIPES")
  case True
  have rt: "rt_ok (sv_rt s)" using server_ok_rt [OF assms(1)] .
  then have "pipes_ok rt" using write_pipe_law [OF _ True assms(2)] by (simp add: rt_ok_def)
  moreover have "console rt = console (sv_rt s)" "length reply = 4" using assms(2)
    by (auto simp: write_pipe_def Let_def upd_pipe_def split: if_splits prod.splits)
  ultimately show ?thesis using rt assms(1) by (simp add: rt_ok_def server_ok_def)
qed (use assms in \<open>auto simp: write_pipe_def server_ok_def\<close>)

lemma keeps_write:
  assumes "server_ok rootfs s" "length rootfs < 2 ^ 63"
  shows "keeps rootfs (handle_write_async rootfs msg s)"
  using assms keeps_write_ram_file [OF assms min_io] keeps_write_pipe [OF assms(1)]
  unfolding handle_write_async_def Let_def by (simp add: write_console_eq split: option.splits prod.splits)

lemma keeps_files:
  assumes "server_ok rootfs s"
  shows "keeps rootfs (handle_close_async msg s)" "keeps rootfs (handle_dup_async msg s)" "keeps rootfs (handle_pipe_async msg s)"
    "keeps rootfs (handle_fstat_async msg s)" "keeps rootfs (handle_lseek_async msg s)" "keeps rootfs (handle_exec_read_async rootfs msg s)"
proof -
  have rt: "rt_ok (sv_rt s)" using server_ok_rt [OF assms] .
  have det: "server_ok rootfs s1" if "rt_step (detach_file i) s = (r, s1)" for i r s1
    by (rule rt_step_ok [OF assms that]) (simp add: rt)
  have rel: "server_ok rootfs s2" if "server_ok rootfs s1" "fs_step (release i) s1 = (b, s2)" for s1 s2 i b
    using fs_step_ok [OF that] by blast
  show "keeps rootfs (handle_close_async msg s)" using assms
    by (auto simp: handle_close_async_def split: prod.splits release_result.splits intro: det rel [OF det])
  have ret: "server_ok rootfs s1" if "rt_step (retain_file i) s = (r, s1)" for i r s1
    by (rule rt_step_ok [OF assms that]) (simp add: rt)
  show "keeps rootfs (handle_dup_async msg s)" using assms
    by (auto simp: handle_dup_async_def split: prod.splits bool.splits intro: ret)
  show "keeps rootfs (handle_pipe_async msg s)" using assms rt_ok_handle_pipe [OF rt]
    by (auto simp: handle_pipe_async_def rt_step_def server_ok_upd split: prod.splits)
  show "keeps rootfs (handle_fstat_async msg s)" using assms by (auto simp: handle_fstat_async_def split: option.splits)
  show "keeps rootfs (handle_lseek_async msg s)" using assms rt
    by (auto simp: handle_lseek_async_def server_ok_upd split: option.splits sum.splits)
  show "keeps rootfs (handle_exec_read_async rootfs msg s)"
    using assms safe_read_inode [OF server_ok_fs [OF assms], of "mr32 msg 2" "unat (im_mrs msg ! 3)" "min (unat (im_mrs msg ! 5)) MAX_IO_BYTES"]
    by (auto simp: handle_exec_read_async_def split: sum.splits)
qed

section \<open>No request stops the server\<close>

lemma keeps_host_request:
  assumes "server_ok rootfs s" "keeps rootfs (h msg s)"
  shows "\<exists>r s'. handle_host_request msg h s = Some (r, s') \<and> server_ok rootfs s' \<and> (\<forall>mrs. r = Reply mrs \<longrightarrow> length mrs = 4)"
  using assms by (auto simp: handle_host_request_def keeps_def split: option.splits)

lemma keeps_reply_now:
  assumes "keeps rootfs x"
  shows "\<exists>r s'. reply_now x = Some (r, s') \<and> server_ok rootfs s' \<and> (\<forall>mrs. r = Reply mrs \<longrightarrow> length mrs = 4)"
  using assms by (auto simp: reply_now_def keeps_def)

lemma handle_request_ok:
  assumes "server_ok rootfs s" "length rootfs < 2 ^ 63" "length (im_mrs msg) = 64"
  shows "\<exists>r s'. handle_request rootfs script msg s = Some (r, s') \<and> server_ok rootfs s' \<and> (\<forall>mrs. r = Reply mrs \<longrightarrow> length mrs = 4)"
proof (cases "vfs_op_from_raw (user_msg_label (im_info msg))")
  case (Some op)
  note k = keeps_init [OF assms(1)] keeps_processes [OF assms(1)] keeps_paths [OF assms(1,3)] keeps_read [OF assms(1)]
    keeps_write [OF assms(1,2)] keeps_files [OF assms(1)]
  show ?thesis
  proof (cases "op = VfsGetcwd")
    case True
    then show ?thesis using assms(1) by (simp add: handle_request_def Some)
  next
    case False
    show ?thesis unfolding handle_request_def Some option.case
      by (cases op; simp only: vfs_op.case False; (rule keeps_host_request [OF assms(1)] keeps_reply_now; rule k)?)
  qed
qed (use assms in \<open>auto simp: handle_request_def\<close>)

text \<open>
  C7: no sequence of requests, well-formed or not, can stop the file server: from any sound state, in particular
  from the state in which it starts, every request is answered with four words or deferred, nothing panics and no loop
  runs for ever, and the state stays sound: names, file data, pipes and console.
\<close>
theorem server_answers_every_request:
  assumes "server_ok rootfs s" "length rootfs < 2 ^ 63" "\<forall>msg \<in> set msgs. length (im_mrs msg) = 64"
  shows "\<exists>answers s'. server_loop rootfs script msgs s = Some (answers, s') \<and> server_ok rootfs s' \<and>
    length answers = length msgs \<and> (\<forall>mrs. Some mrs \<in> set answers \<longrightarrow> length mrs = 4)"
  using assms(1,3)
proof (induction msgs arbitrary: s)
  case (Cons msg msgs)
  obtain r s1 where h: "handle_request rootfs script msg s = Some (r, s1)" "server_ok rootfs s1" "\<forall>mrs. r = Reply mrs \<longrightarrow> length mrs = 4"
    using handle_request_ok [OF Cons.prems(1) assms(2)] Cons.prems(2) by fastforce
  obtain answers s2 where "server_loop rootfs script msgs s1 = Some (answers, s2)" "server_ok rootfs s2"
    "length answers = length msgs" "\<forall>mrs. Some mrs \<in> set answers \<longrightarrow> length mrs = 4"
    using Cons.IH [OF h(2)] Cons.prems(2) by auto
  then show ?case using h by (auto split: request_result.splits)
qed simp

lemma server_ok_new: "server_ok rootfs server_new"
proof -
  have ino: "inodes ramfs_new i = inode_empty" "\<not> de_used (dirents ramfs_new d)" for i d
    by (simp_all add: ramfs_new_def dirent_empty_def)
  have own: "owned ramfs_new i = []" for i by (simp add: owned_def ino inode_empty_def)
  have "names_ok ramfs_new" by (simp add: names_ok_def used_entry_def ino inode_empty_def)
  moreover have "file_ok (length rootfs) ramfs_new i" for i by (simp add: file_ok_def own) (simp add: ino inode_empty_def)
  then have "data_ok (length rootfs) ramfs_new" by (simp add: data_ok_def own)
  moreover have "rt_ok runtime_new" by (simp add: rt_ok_def runtime_new_def pipes_ok_def)
  ultimately show ?thesis by (simp add: server_ok_def server_new_def fs_ok_def)
qed

lemma server_answers_every_request_witness:
  "\<exists>s'. server_loop [] [] [\<lparr> im_badge = 0, im_info = user_msg_info 17 0 0 0, im_mrs = replicate 64 0 \<rparr>,
      \<lparr> im_badge = 0, im_info = user_msg_info 99 0 0 0, im_mrs = replicate 64 7 \<rparr>] server_new =
    Some ([Some [0, 0, 0, 0], Some [38, 0, 0, 0]], s') \<and> server_ok [] s'"
proof -
  let ?msgs = "[\<lparr> im_badge = 0, im_info = user_msg_info 17 0 0 0, im_mrs = replicate 64 0 \<rparr>,
      \<lparr> im_badge = 0, im_info = user_msg_info 99 0 0 0, im_mrs = replicate 64 (7 :: u64) \<rparr>]"
  have "server_loop [] [] ?msgs server_new = Some ([Some [0, 0, 0, 0], Some [38, 0, 0, 0]], server_new)"
    by (simp add: handle_request_def user_msg_label_info vfs_op_from_raw_def reply_ok_def err_code_def ENOSYS_def)
  then show ?thesis using server_answers_every_request [OF server_ok_new, of "[]" ?msgs "[]"] by auto
qed

end
