(* ===== verification/Spec2Isabelle.thy ===== *)
theory Spec2Isabelle
  imports Rel4_Syscall Rel4_Boot Rel4_Smp Rel4_Fpu Vfs_Invariant
begin

text \<open>
  \<^bold>\<open>rel4: the kernel and its file server\<close>

  The repository holds a microkernel written in Rust with the interface of seL4
  (\<^verbatim>\<open>src/kernel\<close>), and the user-level programs of a small Linux on top of it
  (\<^verbatim>\<open>src/userspace\<close>): a Linux personality that runs the processes, a file server it sends the file
  system calls to, and a server for the serial line that the file server sends console input and
  output to. The development models the kernel in its riscv64 release build (arithmetic wraps,
  \<^verbatim>\<open>debug_assert!\<close> is not compiled), the file server and the serial line server.

  \<^bold>\<open>Conventions.\<close> Machine integers are words of their width; \<^verbatim>\<open>usize\<close> values that the code bounds by
  a table size are natural numbers. An operation that may panic or may not end returns an
  \<open>option\<close>, where \<open>None\<close> says that it does not return; an error the code reports is the \<open>Inl\<close> of a
  sum. State is passed explicitly: \<open>kstate\<close> for the kernel, \<open>ramfs\<close>, \<open>runtime\<close>, \<open>console_state\<close>
  and \<open>uart\<close>, gathered in \<open>server\<close>, for the file server. Loops over linked memory, which end only
  on well-formed memory, are partial functions, and the theorems about them say that they return.
  No definition uses fuel.

  \<^bold>\<open>The kernel.\<close> A trap enters at \<open>handle_trap_rust\<close>, which takes the big kernel lock, serves a
  system call, a fault or an interrupt, and leaves through \<open>kernel_exit\<close> with the thread to resume.
  A system call names a capability by an address in the caller's capability space; the capability's
  type selects the handler.

  \<^item> \<open>Rel4_Prelude\<close>: word types, bit fields, optional handles in one word.
  \<^item> \<open>Rel4_Cap\<close> (\<^verbatim>\<open>object/cap.rs\<close>): the packed two-word capability. Constructors and accessors are
    inverse to each other.
  \<^item> \<open>Rel4_List\<close> (\<^verbatim>\<open>ktypes/list.rs\<close>, \<^verbatim>\<open>ktypes/objref.rs\<close>): intrusive queues, with the locale
    \<open>queue_ends_laws\<close> for anything that has a head and a tail. Queue operations refine operations on
    lists.
  \<^item> \<open>Rel4_Mdb\<close>, \<open>Rel4_Derivation\<close> (\<^verbatim>\<open>object/mdb.rs\<close>, \<^verbatim>\<open>object/cnode.rs\<close>, the slot operations of
    \<^verbatim>\<open>api/invocation.rs\<close>): the derivation list of capabilities in packed links. Insertion, removal,
    move and exchange refine the operations on the list of slots.
  \<^item> \<open>Rel4_Abi\<close> (\<^verbatim>\<open>abi/\<close>, \<^verbatim>\<open>arch/riscv64/sel4_arch/\<close>): message words, labels, errors, object types.
  \<^item> \<open>Rel4_Objects\<close>, \<open>Rel4_State\<close> (\<^verbatim>\<open>object/tcb.rs\<close>, the contexts of \<^verbatim>\<open>arch/riscv64\<close>, the per-core
    part of \<^verbatim>\<open>kernel/smp.rs\<close>): objects as records and the kernel state. Objects live in one heap per
    type, indexed by address; memory the kernel reads as plain words is \<open>mem\<close>. Requests to devices
    and other cores are recorded in \<open>events\<close>, those to flush translations for each core that is asked;
    the values the clock and the interrupt controller will return are given in advance.
  \<^item> \<open>Rel4_Queues\<close>, \<open>Rel4_Sched\<close> (\<^verbatim>\<open>object/tcb.rs\<close>): the invariant that every queue is well formed
    and no thread is on two, the locale \<open>kernel_queue\<close> for the queues of the kernel (interpreted for
    ready queues, endpoints and notifications), and the scheduler: it ends, and picks the first
    thread that may run.
  \<^item> \<open>Rel4_Wait\<close>, \<open>Rel4_Endpoint\<close>, \<open>Rel4_Notification\<close> (\<^verbatim>\<open>object/endpoint.rs\<close>,
    \<^verbatim>\<open>object/notification.rs\<close>): wait queues, signals, cancelling and finalizing. The loop that empties a
    wait queue is treated once, in the locales \<open>wait_release\<close> and \<open>wait_drain\<close>.
  \<^item> \<open>Rel4_Irq\<close> (\<^verbatim>\<open>object/irq.rs\<close>, \<^verbatim>\<open>arch/riscv64/machine/irq.rs\<close>, the timer of
    \<^verbatim>\<open>arch/riscv64/kernel/trap.rs\<close>): interrupts and the timers.
  \<^item> \<open>Rel4_Paging\<close>, \<open>Rel4_Asid\<close>, \<open>Rel4_Vspace\<close>, \<open>Rel4_Tables\<close> (\<^verbatim>\<open>object/asid.rs\<close>,
    \<^verbatim>\<open>arch/riscv64/machine/paging.rs\<close>, \<^verbatim>\<open>arch/riscv64/object/vspace.rs\<close>): Sv39 tables and address-space
    identifiers, related to the translation the hardware performs: a mapped frame is translated, an
    unmapped one faults, the kernel's window is where its address arithmetic says. A frame mapped
    without permissions is where the kernel's walk and the hardware's differ. Deleting an identifier
    flushes it on this core and asks every other core to.
  \<^item> \<open>Rel4_Cspace\<close> (\<^verbatim>\<open>api/cspace.rs\<close>): capability lookup computes the resolution of the address bits.
  \<^item> \<open>Rel4_Delete\<close>, \<open>Rel4_Lifecycle\<close>, \<open>Rel4_Revoke\<close> (\<^verbatim>\<open>object/reply.rs\<close>, \<^verbatim>\<open>object/tcb.rs\<close>,
    \<^verbatim>\<open>api/invocation.rs\<close>): preemption, suspending and finalizing threads, deletion, zombies, revocation.
    Revocation returns whatever the timer does, with all derived capabilities to memory deleted or,
    preempted, with at least a hundred of them; a suspended thread is on no queue any more.
  \<^item> \<open>Rel4_CNode\<close>, \<open>Rel4_Untyped\<close>, \<open>Rel4_Pages\<close>, \<open>Rel4_Threads\<close> (\<^verbatim>\<open>api/invocation.rs\<close>): the
    invocations, by the type of the capability. Copies carry no more authority than their source;
    retyping yields aligned, disjoint objects in unused memory, with capabilities that describe them.
  \<^item> \<open>Rel4_Ipc\<close>, \<open>Rel4_Syscall\<close> (\<^verbatim>\<open>api/ipc.rs\<close>, \<^verbatim>\<open>api/syscall.rs\<close>, \<^verbatim>\<open>arch/riscv64/kernel/trap.rs\<close>):
    messages, dispatch, traps and the way back. A message arrives as it was sent; the kernel resumes
    a thread that may run and loses none; threads that yield take turns.
  \<^item> \<open>Rel4_Smp\<close> (\<^verbatim>\<open>kernel/smp.rs\<close>): the cores side by side, as a step relation in which every access to
    a shared variable is a step. The big kernel lock excludes, which is what lets the other theories
    treat a system call as one operation. A request to another core is always answered; with two
    cores it has then been performed, with three there is a run in which it has not. The stall in
    \<open>Rel4_State\<close> follows this: with more than two cores an input, \<open>stale_answers\<close>, says whether it is missed.
  \<^item> \<open>Rel4_Fpu\<close> (\<^verbatim>\<open>arch/riscv64/machine/fpu.rs\<close>): the lazily switched floating-point units of all
    cores. Every thread sees its own registers, in whatever order the calls come.
  \<^item> \<open>Rel4_Boot\<close> (\<^verbatim>\<open>object/untyped.rs\<close>): how free memory is cut into untyped capabilities.

  \<^bold>\<open>The file server.\<close> Its loop receives a message, decodes the operation, runs the handler and
  answers with four words, or puts the answer off when the request has to wait.

  \<^item> \<open>Vfs_Abi\<close>, \<open>Vfs_Ipc\<close> (\<^verbatim>\<open>linux-abi\<close>, \<^verbatim>\<open>sel4-user\<close>, \<^verbatim>\<open>vfs-server/src/ipc.rs\<close>, \<^verbatim>\<open>uart-server\<close>): numbers
    and messages of the interface, and the serial line server.
  \<^item> \<open>Vfs_Ramfs\<close>, \<open>Vfs_Cpio\<close> (\<^verbatim>\<open>vfs-server/src/ramfs.rs\<close>, \<^verbatim>\<open>cpio.rs\<close>): inodes, directory entries, pages,
    and the unpacking of the archive. \<open>Vfs_Data\<close> relates the pages to file contents: a write replaces
    a part of the contents and nothing else. \<open>Vfs_Paths\<close> relates the entries to paths: what is opened
    or created resolves, what is unlinked does not.
  \<^item> \<open>Vfs_Files\<close>, \<open>Vfs_Pipe\<close>, \<open>Vfs_Console\<close> (\<^verbatim>\<open>state.rs\<close>, \<^verbatim>\<open>pipe.rs\<close>, \<^verbatim>\<open>console.rs\<close>): open files; pipes,
    which implement the locale \<open>bounded_queue\<close>; the console, which refines a line editor.
  \<^item> \<open>Vfs_Ops\<close>, \<open>Vfs_Invariant\<close> (\<^verbatim>\<open>ops.rs\<close>, \<^verbatim>\<open>main.rs\<close>): the handlers and the loop, the invariant of the
    whole server, and that no sequence of requests stops it.

  \<^bold>\<open>Assumptions of the model.\<close> The kernel reads and writes a word of memory through one of its two
  windows only, so that \<open>mem\<close> may be indexed by address. Memory that is zeroed for an object counts
  as zeroed once its first byte is. Requests to the firmware (timers, inter-processor interrupts)
  succeed. Accesses of the cores to shared variables take effect one after the other. The serial line
  delivers finitely many bytes between two pauses, its transmitter becomes free, and the server for it
  answers every call. The archive with the initial files and the
  scripted console input are parameters; the archive is shorter than 2^63 bytes.

  \<^bold>\<open>Not modelled.\<close> The x86_64 backend, which the riscv64 build does not compile. The start of the
  machine (\<^verbatim>\<open>kernel/boot.rs\<close>, \<^verbatim>\<open>bootmem.rs\<close>, the assembly of \<^verbatim>\<open>arch/riscv64\<close>), which runs once on
  images outside the repository. The programming of the interrupt controller, which is recorded as
  events. What the kernel prints. The Linux personality (\<^verbatim>\<open>linux-compat\<close>) and the run time of the
  user library (\<^verbatim>\<open>sel4-user/src/rt.rs\<close>, \<^verbatim>\<open>sync.rs\<close>): they are asynchronous programs over the system
  calls; the file server's handlers are modelled as the sequential code the run time executes. The
  tools that build and test the system.
\<close>

end
